(* ===== verification/Prelude.thy ===== *)
theory Prelude
  imports Main "HOL-Library.Word"
begin

text \<open>
  Shared vocabulary of the development: the widths of the machine integers of a 32-bit
  Windows build (\<open>unsigned long\<close>, \<open>unsigned int\<close> and \<open>size_t\<close> are 32 bits wide,
  \<open>__int64\<close> is 64), the loops over \<open>std::list\<close> and raw memory blocks that several
  components use, and the lemma collections the component proofs are run with.
\<close>

unbundle bit_operations_syntax

type_synonym u8 = "8 word"
type_synonym u16 = "16 word"
type_synonym u32 = "32 word"
type_synonym u64 = "64 word"
type_synonym i16 = "16 word"
type_synonym i32 = "32 word"
type_synonym i64 = "64 word"

named_theorems utm_consts "the numeric constants of the headers"
named_theorems utm_inv "invariant preservation"

section \<open>Loops over a list that stop at the first hit\<close>

text \<open>
  \<open>for (iter = items.begin(); ...) if (P(*iter)) { *iter = f(*iter); break; }\<close> and the
  same loop with \<open>items.erase(iter)\<close>. Both change the first element only.
\<close>

fun update_first :: "('a \<Rightarrow> bool) \<Rightarrow> ('a \<Rightarrow> 'a) \<Rightarrow> 'a list \<Rightarrow> 'a list" where
  "update_first P f [] = []"
| "update_first P f (x # xs) = (if P x then f x # xs else x # update_first P f xs)"

fun remove_first :: "('a \<Rightarrow> bool) \<Rightarrow> 'a list \<Rightarrow> 'a list" where
  "remove_first P [] = []"
| "remove_first P (x # xs) = (if P x then xs else x # remove_first P xs)"

lemma length_update_first [simp]: "length (update_first P f xs) = length xs"
  by (induction xs) auto

lemma update_first_id: "\<forall>x \<in> set xs. \<not> P x \<Longrightarrow> update_first P f xs = xs"
  by (induction xs) auto

lemma update_first_append:
  "update_first P f (xs @ ys) =
     (if \<exists>x \<in> set xs. P x then update_first P f xs @ ys else xs @ update_first P f ys)"
  by (induction xs) auto

lemma map_update_first_same:
  "(\<And>x. x \<in> set xs \<Longrightarrow> P x \<Longrightarrow> g (f x) = g x) \<Longrightarrow> map g (update_first P f xs) = map g xs"
  by (induction xs) auto

lemma set_update_first: "set (update_first P f xs) \<subseteq> set xs \<union> f ` {x \<in> set xs. P x}"
  by (induction xs) auto

lemma find_update_first:
  "(\<And>x. P x \<Longrightarrow> P (f x)) \<Longrightarrow> find P (update_first P f xs) = map_option f (find P xs)"
  by (induction xs) auto

lemma find_update_first_other:
  "(\<And>x. P x \<Longrightarrow> \<not> Q x \<and> \<not> Q (f x)) \<Longrightarrow> find Q (update_first P f xs) = find Q xs"
  by (induction xs) auto

lemma set_remove_first: "set (remove_first P xs) \<subseteq> set xs"
  by (induction xs) auto

lemma remove_first_id: "\<forall>x \<in> set xs. \<not> P x \<Longrightarrow> remove_first P xs = xs"
  by (induction xs) auto

lemma map_remove_first: "map g (remove_first (\<lambda>x. Q (g x)) xs) = remove_first Q (map g xs)"
  by (induction xs) auto

lemma distinct_remove_first: "distinct xs \<Longrightarrow> distinct (remove_first P xs)"
  by (induction xs) (auto dest: set_remove_first [THEN subsetD])

lemma set_remove_first_distinct:
  "distinct xs \<Longrightarrow> set (remove_first (\<lambda>y. y = x) xs) = set xs - {x}"
  by (induction xs) auto

lemma find_remove_first_other:
  "(\<And>x. P x \<Longrightarrow> \<not> Q x) \<Longrightarrow> find Q (remove_first P xs) = find Q xs"
  by (induction xs) auto

lemma find_Some_set: "find P xs = Some x \<Longrightarrow> x \<in> set xs \<and> P x"
  by (induction xs) (auto split: if_splits)

lemma find_None_set: "find P xs = None \<longleftrightarrow> (\<forall>x \<in> set xs. \<not> P x)"
  by (induction xs) auto

lemma find_append: "find P (xs @ ys) = (case find P xs of None \<Rightarrow> find P ys | Some x \<Rightarrow> Some x)"
  by (induction xs) auto

lemma update_by_id:
  assumes "distinct (map g xs)" and "j < length xs"
  shows "xs[j := h (xs ! j)] = map (\<lambda>x. if g x = g (xs ! j) then h x else x) xs"
proof (intro nth_equalityI)
  fix i assume "i < length (xs[j := h (xs ! j)])"
  then have i: "i < length xs" by simp
  then have "g (xs ! i) = g (xs ! j) \<longleftrightarrow> i = j" using assms nth_eq_iff_index_eq [of "map g xs" i j] by simp
  then show "xs[j := h (xs ! j)] ! i = map (\<lambda>x. if g x = g (xs ! j) then h x else x) xs ! i"
    using i assms(2) by simp
qed simp

lemma find_nth_distinct:
  "distinct (map g xs) \<Longrightarrow> k < length xs \<Longrightarrow> find (\<lambda>x. g x = g (xs ! k)) xs = Some (xs ! k)"
  by (induction xs arbitrary: k) (auto simp: nth_Cons' split: if_splits)

lemma find_update:
  assumes "distinct (map g xs)" and "k < length xs" and "g y = g (xs ! k)"
  shows "find (\<lambda>x. g x = i) (xs[k := y]) = (if i = g (xs ! k) then Some y else find (\<lambda>x. g x = i) xs)"
  using assms
proof (induction xs arbitrary: k)
  case (Cons x xs)
  show ?case
  proof (cases k)
    case (Suc j)
    then have "g (xs ! j) \<in> set (map g xs)" using Cons.prems(2) by simp
    then have "g x \<noteq> g (xs ! j)" using Cons.prems(1) by auto
    moreover have "find (\<lambda>x. g x = i) (xs[j := y]) = (if i = g (xs ! j) then Some y else find (\<lambda>x. g x = i) xs)"
      by (rule Cons.IH) (use Cons.prems Suc in simp_all)
    ultimately show ?thesis using Cons.prems(3) Suc by (cases "i = g (xs ! j)") simp_all
  qed (use Cons in auto)
qed simp

lemma fold_by_key:
  assumes "distinct (map key cs)" and "\<And>c f. kf (upd c f) = kf f"
  shows "fold (\<lambda>c f. if kf f = key c then upd c f else f) cs f =
    (case find (\<lambda>c. key c = kf f) cs of None \<Rightarrow> f | Some c \<Rightarrow> upd c f)"
proof -
  have skip: "kf g \<notin> key ` set cs \<Longrightarrow> fold (\<lambda>c f. if kf f = key c then upd c f else f) cs g = g" for g cs
    by (induction cs) auto
  show ?thesis using assms(1)
  proof (induction cs)
    case (Cons c cs)
    then show ?case using skip [of "upd c f" cs] by (cases "kf f = key c") (simp_all add: assms(2))
  qed simp
qed

lemma find_map_key:
  "(\<And>x. key' (h x) = key x) \<Longrightarrow> find (\<lambda>x. key' x = i) (map h xs) = map_option h (find (\<lambda>x. key x = i) xs)"
  by (induction xs) simp_all

section \<open>The last elements of a list\<close>

definition lastn :: "nat \<Rightarrow> 'a list \<Rightarrow> 'a list" where "lastn n xs = drop (length xs - n) xs"

lemma lastn_snoc:
  "n > 0 \<Longrightarrow> drop (Suc (length xs) - n) xs @ [x] = lastn n (xs @ [x])"
  by (simp add: lastn_def)

lemma lastn_append: "lastn n (lastn n xs @ ys) = lastn n (xs @ ys)"
  by (cases "length xs \<le> n") (auto simp: lastn_def add.commute)

lemma length_lastn [simp]: "length (lastn n xs) = min n (length xs)"
  by (simp add: lastn_def)

lemma lastn_all: "length xs \<le> n \<Longrightarrow> lastn n xs = xs"
  by (simp add: lastn_def)

lemma set_lastn: "set (lastn n xs) \<subseteq> set xs"
  by (simp add: lastn_def set_drop_subset)

lemma lastn_drop: "lastn n (drop k xs) = drop (max k (length xs - n)) xs"
  by (auto simp: lastn_def max_def intro!: arg_cong2 [where f = drop])

section \<open>Raw memory blocks\<close>

text \<open>
  A heap block is the list of its bytes. \<open>mem_write b off src\<close> is \<open>memcpy(b + off, src,
  n)\<close> with \<open>n = length src\<close>, \<open>mem_read b off n\<close> reads \<open>n\<close> bytes; both are
  \<open>None\<close> where the access leaves the block (undefined behaviour in C++).
\<close>

definition mem_write :: "'a list \<Rightarrow> nat \<Rightarrow> 'a list \<Rightarrow> 'a list option" where
  "mem_write b off src =
     (if off + length src \<le> length b
      then Some (take off b @ src @ drop (off + length src) b) else None)"

definition mem_read :: "'a list \<Rightarrow> nat \<Rightarrow> nat \<Rightarrow> 'a list option" where
  "mem_read b off n = (if off + n \<le> length b then Some (take n (drop off b)) else None)"

lemma mem_write_Some_iff: "(\<exists>b'. mem_write b off src = Some b') \<longleftrightarrow> off + length src \<le> length b"
  by (simp add: mem_write_def)

lemma mem_write_length: "mem_write b off src = Some b' \<Longrightarrow> length b' = length b"
  by (auto simp: mem_write_def split: if_splits)

lemma mem_read_write_same:
  "mem_write b off src = Some b' \<Longrightarrow> mem_read b' off (length src) = Some src"
  by (auto simp: mem_write_def mem_read_def split: if_splits)

lemma mem_read_write_other:
  assumes "mem_write b off src = Some b'" and "o2 + n \<le> off \<or> off + length src \<le> o2"
  shows "mem_read b' o2 n = mem_read b o2 n"
proof -
  have b': "b' = take off b @ src @ drop (off + length src) b"
    and len: "off + length src \<le> length b"
    using assms(1) by (auto simp: mem_write_def split: if_splits)
  have nth': "b' ! i = b ! i" if "i < length b" "i < off \<or> off + length src \<le> i" for i
    using that len by (auto simp: b' nth_append)
  have "take n (drop o2 b') = take n (drop o2 b)" if "o2 + n \<le> length b"
  proof (rule nth_equalityI)
    show "length (take n (drop o2 b')) = length (take n (drop o2 b))"
      using mem_write_length [OF assms(1)] by simp
    fix i assume "i < length (take n (drop o2 b'))"
    with that assms(2) show "take n (drop o2 b') ! i = take n (drop o2 b) ! i"
      using mem_write_length [OF assms(1)] nth' [of "o2 + i"] by auto
  qed
  then show ?thesis
    using mem_write_length [OF assms(1)] by (simp add: mem_read_def)
qed

section \<open>Words\<close>

lemma unat_mult_no_overflow:
  fixes a b :: "'a::len word"
  shows "unat a * unat b < 2 ^ LENGTH('a) \<Longrightarrow> unat (a * b) = unat a * unat b"
  by (simp add: unat_mult_lem)

lemma unat_add_no_overflow:
  fixes a b :: "'a::len word"
  shows "unat a + unat b < 2 ^ LENGTH('a) \<Longrightarrow> unat (a + b) = unat a + unat b"
  by (simp add: unat_add_lem)

lemma unat_u32_bound: "unat w < 2 ^ 32" for w :: u32
  by (rule order_less_le_trans [OF unsigned_less]) simp

lemma unat_u16_bound: "unat w < 2 ^ 16" for w :: u16
  by (rule order_less_le_trans [OF unsigned_less]) simp

lemma unat_u8_bound: "unat w < 2 ^ 8" for w :: u8
  by (rule order_less_le_trans [OF unsigned_less]) simp

lemma unat_le_mono: "a \<le> b \<longleftrightarrow> unat a \<le> unat b" for a b :: "'a::len word"
  by (simp add: word_le_nat_alt)

lemma unat_less_mono: "a < b \<longleftrightarrow> unat a < unat b" for a b :: "'a::len word"
  by (simp add: word_less_nat_alt)

section \<open>Words in memory, little-endian\<close>

primrec le_bytes :: "nat \<Rightarrow> 'a::len word \<Rightarrow> u8 list" where
  "le_bytes 0 w = []"
| "le_bytes (Suc n) w = ucast w # le_bytes n (drop_bit 8 w)"

primrec le_word :: "u8 list \<Rightarrow> 'a::len word" where
  "le_word [] = 0"
| "le_word (b # bs) = ucast b OR push_bit 8 (le_word bs)"

definition bytes_at :: "nat \<Rightarrow> nat \<Rightarrow> u8 list \<Rightarrow> u8 list" where "bytes_at i n d = take n (drop i d)"

lemma length_le_bytes [simp]: "length (le_bytes n w) = n"
  by (induction n arbitrary: w) simp_all

lemma le_word_bytes: "le_word (le_bytes n w) = take_bit (8 * n) w"
proof (induction n arbitrary: w)
  case (Suc n)
  show ?case
    by (simp add: Suc.IH, rule bit_eqI) (auto simp: bit_or_iff bit_push_bit_iff bit_take_bit_iff bit_drop_bit_eq bit_ucast_iff)
qed simp

lemma le_word_id [simp]: "8 * n \<ge> LENGTH('a) \<Longrightarrow> le_word (le_bytes n w) = (w :: 'a::len word)"
  by (simp add: le_word_bytes take_bit_word_eq_self)

lemma bytes_at_append:
  "length a = i \<Longrightarrow> n \<le> length b \<Longrightarrow> bytes_at i n (a @ b @ c) = take n b"
  "i \<ge> length a \<Longrightarrow> bytes_at i n (a @ b) = bytes_at (i - length a) n b"
  "n \<le> length b \<Longrightarrow> bytes_at 0 n (b @ c) = take n b"
  by (simp_all add: bytes_at_def)

section \<open>Decimal text\<close>

text \<open>\<open>isdigit\<close> of the C locale, \<open>atoi\<close> on a run of digits and \<open>printf("%u")\<close>.\<close>

definition is_digit :: "char \<Rightarrow> bool" where
  "is_digit c \<longleftrightarrow> 48 \<le> (of_char c :: nat) \<and> (of_char c :: nat) \<le> 57"

definition digit_val :: "char \<Rightarrow> nat" where "digit_val c = of_char c - 48"

definition digit_char :: "nat \<Rightarrow> char" where "digit_char d = char_of (48 + d)"

fun atoi :: "string \<Rightarrow> nat \<Rightarrow> nat" where
  "atoi [] acc = acc"
| "atoi (c # cs) acc = (if is_digit c then atoi cs (10 * acc + digit_val c) else acc)"

fun print_u :: "nat \<Rightarrow> string" where
  "print_u n = (if n < 10 then [digit_char n] else print_u (n div 10) @ [digit_char (n mod 10)])"

declare print_u.simps [simp del]

text \<open>\<open>"%d"\<close>.\<close>

definition print_i :: "i32 \<Rightarrow> string" where
  "print_i n = (if sint n < 0 then CHR ''-'' # print_u (nat (- sint n)) else print_u (nat (sint n)))"

lemma digit_char_digit: "d < 10 \<Longrightarrow> is_digit (digit_char d) \<and> digit_val (digit_char d) = d"
  by (simp add: is_digit_def digit_val_def digit_char_def take_bit_eq_mod)

lemma atoi_append: "list_all is_digit s \<Longrightarrow> atoi (s @ t) acc = atoi t (atoi s acc)"
  by (induction s arbitrary: acc) auto

lemma print_u_digits: "list_all is_digit (print_u n)"
  by (induction n rule: print_u.induct) (subst print_u.simps, simp add: digit_char_digit)

lemma atoi_print_u: "atoi (print_u n) 0 = n"
proof (induction n rule: print_u.induct)
  case (1 n)
  then show ?case
    by (subst print_u.simps) (simp add: digit_char_digit atoi_append print_u_digits)
qed

lemma print_u_not_Nil: "print_u n \<noteq> []"
  by (subst print_u.simps) simp

lemma print_u_length: "n < 10 ^ Suc k \<Longrightarrow> length (print_u n) \<le> Suc k"
proof (induction k arbitrary: n)
  case (Suc k)
  have "n div 10 < 10 ^ Suc k" using Suc.prems by (simp add: div_less_iff_less_mult)
  then show ?case using Suc.IH by (subst print_u.simps) simp
qed (subst print_u.simps, simp)

section \<open>Blanks\<close>

definition is_space :: "char \<Rightarrow> bool" where
  "is_space c \<longleftrightarrow> c = CHR '' '' \<or> 9 \<le> (of_char c :: nat) \<and> (of_char c :: nat) \<le> 13"

definition trim :: "string \<Rightarrow> string" where
  "trim s = rev (dropWhile is_space (rev (dropWhile is_space s)))"

lemma dropWhile_none: "\<forall>c \<in> set s. \<not> P c \<Longrightarrow> dropWhile P s = s"
  by (cases s) auto

lemma trim_id: "\<lbrakk>s \<noteq> []; \<not> is_space (hd s); \<not> is_space (last s)\<rbrakk> \<Longrightarrow> trim s = s"
proof -
  assume s: "s \<noteq> []" "\<not> is_space (hd s)" "\<not> is_space (last s)"
  have "dropWhile is_space s = s" using s by (cases s) auto
  moreover have "dropWhile is_space (rev s) = rev s" using s by (cases s rule: rev_cases) auto
  ultimately show ?thesis by (simp add: trim_def)
qed

lemma trim_some:
  assumes "c \<in> set s" and "\<not> is_space c"
  shows "trim s \<noteq> []"
proof -
  have "c \<notin> set (takeWhile is_space s)" using assms(2) set_takeWhileD [of c is_space s] by blast
  moreover have "c \<in> set (takeWhile is_space s @ dropWhile is_space s)" using assms(1) by simp
  ultimately have "c \<in> set (dropWhile is_space s)" by (simp only: set_append) blast
  then show ?thesis using assms(2) by (auto simp: trim_def)
qed

lemma find_distinct_map:
  "\<lbrakk>distinct (map f xs); x \<in> set xs\<rbrakk> \<Longrightarrow> find (\<lambda>y. f y = f x) xs = Some x"
  by (induction xs) (auto simp: image_iff)

section \<open>Bytes of a text\<close>

definition byte_char :: "u8 \<Rightarrow> char" where "byte_char x = char_of (unat x)"

definition bytes_of :: "string \<Rightarrow> u8 list" where "bytes_of s = map of_char s"

lemma byte_char_of: "byte_char (of_char c) = c"
proof -
  have "unat (of_char c :: u8) = of_char c"
  proof -
    have "(of_char c :: u8) = of_nat (of_char c)" by (simp only: of_nat_of_char)
    then show ?thesis using nat_of_char_less_256 [of c] by (simp add: unat_of_nat del: of_nat_of_char)
  qed
  then show ?thesis by (simp add: byte_char_def)
qed

end
