(* ===== verification/PktQueue.thy ===== *)
theory PktQueue
  imports Prelude
begin

text \<open>
  \<open>corefilters/pkt_queue.{h,cpp}\<close>: the traffic shaper's packet queue, a ring of
  fixed-size slots in one heap block. Slot \<open>k\<close> holds the packet bytes at
  \<open>k * (packetbuf_size + 8)\<close> and the \<open>pkt_additional_data\<close> structure (a handle and a
  network-card alias, 8 bytes on the 32-bit build) right behind them. The model keeps the
  block as its bytes and the counters at their width; an access outside the block is
  \<open>None\<close>. The abstract view is the list of stored packets, oldest first.
\<close>

section \<open>The interface: a bounded first-in first-out queue\<close>

datatype 'a queue_op = QPut 'a | QGet

text \<open>A run of operations: the final queue, the accepted and the delivered elements.\<close>

fun run_queue ::
  "('a \<Rightarrow> 'q \<Rightarrow> bool \<times> 'q) \<Rightarrow> ('q \<Rightarrow> 'a option \<times> 'q) \<Rightarrow> 'q \<Rightarrow> 'a queue_op list \<Rightarrow> 'q \<times> 'a list \<times> 'a list"
where
  "run_queue put get q [] = (q, [], [])"
| "run_queue put get q (QPut x # ops) =
     (let (ok, q1) = put x q; (q2, acc, del) = run_queue put get q1 ops
      in (q2, (if ok then x # acc else acc), del))"
| "run_queue put get q (QGet # ops) =
     (let (r, q1) = get q; (q2, acc, del) = run_queue put get q1 ops
      in (q2, acc, (case r of None \<Rightarrow> del | Some x \<Rightarrow> x # del)))"

locale bounded_fifo =
  fixes inv :: "'q \<Rightarrow> bool"
    and contents :: "'q \<Rightarrow> 'a list"
    and capacity :: "'q \<Rightarrow> nat"
    and valid :: "'q \<Rightarrow> 'a \<Rightarrow> bool"
    and put :: "'a \<Rightarrow> 'q \<Rightarrow> bool \<times> 'q"
    and get :: "'q \<Rightarrow> 'a option \<times> 'q"
  assumes put_room: "inv q \<Longrightarrow> valid q x \<Longrightarrow> length (contents q) < capacity q \<Longrightarrow> put x q = (ok, q')
      \<Longrightarrow> ok \<and> inv q' \<and> contents q' = contents q @ [x]"
    and put_full: "inv q \<Longrightarrow> valid q x \<Longrightarrow> length (contents q) = capacity q \<Longrightarrow> put x q = (ok, q')
      \<Longrightarrow> \<not> ok \<and> q' = q"
    and bounded: "inv q \<Longrightarrow> length (contents q) \<le> capacity q"
    and get_None: "inv q \<Longrightarrow> get q = (None, q') \<Longrightarrow> inv q' \<and> contents q' = contents q"
    and get_Some: "inv q \<Longrightarrow> get q = (Some x, q') \<Longrightarrow> inv q' \<and> contents q = x # contents q'"
    and put_shape: "inv q \<Longrightarrow> put x q = (ok, q') \<Longrightarrow> capacity q' = capacity q \<and> valid q' = valid q"
    and get_shape: "inv q \<Longrightarrow> get q = (r, q') \<Longrightarrow> capacity q' = capacity q \<and> valid q' = valid q"
begin

lemma put_cases:
  assumes "inv q" "valid q x" "put x q = (ok, q')"
  shows "inv q' \<and> contents q' = contents q @ (if ok then [x] else [])"
proof (cases "length (contents q) < capacity q")
  case True
  with put_room [OF assms(1,2) _ assms(3)] show ?thesis by simp
next
  case False
  with bounded [OF assms(1)] have "length (contents q) = capacity q" by simp
  with put_full [OF assms(1,2) _ assms(3)] assms(1) show ?thesis by simp
qed

lemma get_cases:
  assumes "inv q" "get q = (r, q')"
  shows "inv q' \<and> contents q = (case r of None \<Rightarrow> contents q' | Some x \<Rightarrow> x # contents q')"
proof (cases r)
  case None
  with get_None [OF assms(1)] assms(2) show ?thesis by simp
next
  case (Some x)
  then have "inv q' \<and> contents q = x # contents q'"
    using get_Some [OF assms(1)] assms(2) by blast
  with Some show ?thesis by simp
qed

lemma run_fifo:
  assumes "inv q" and "\<And>x. QPut x \<in> set ops \<Longrightarrow> valid q x"
    and "run_queue put get q ops = (q', acc, del)"
  shows "inv q' \<and> capacity q' = capacity q \<and> contents q @ acc = del @ contents q'"
  using assms
proof (induction ops arbitrary: q q' acc del)
  case Nil
  then show ?case by simp
next
  case (Cons op ops)
  show ?case
  proof (cases op)
    case (QPut x)
    obtain ok q1 where p: "put x q = (ok, q1)" by (cases "put x q")
    obtain acc' where r: "run_queue put get q1 ops = (q', acc', del)"
      and acc: "acc = (if ok then x # acc' else acc')"
      using Cons.prems(3) QPut p by (auto split: prod.splits)
    have v: "valid q x" using Cons.prems(2) QPut by simp
    note pc = put_cases [OF Cons.prems(1) v p] and ps = put_shape [OF Cons.prems(1) p]
    have "inv q' \<and> capacity q' = capacity q1 \<and> contents q1 @ acc' = del @ contents q'"
    proof (rule Cons.IH [OF _ _ r])
      show "inv q1" using pc by blast
      show "valid q1 y" if "QPut y \<in> set ops" for y
        using that Cons.prems(2) ps by (metis list.set_intros(2))
    qed
    with pc ps acc show ?thesis by (cases ok) simp_all
  next
    case QGet
    obtain r q1 where p: "get q = (r, q1)" by (cases "get q")
    obtain del' where rr: "run_queue put get q1 ops = (q', acc, del')"
      and del: "del = (case r of None \<Rightarrow> del' | Some x \<Rightarrow> x # del')"
      using Cons.prems(3) QGet p by (auto split: prod.splits)
    note gs = get_shape [OF Cons.prems(1) p]
    have i1: "inv q1" and c1: "contents q = (case r of None \<Rightarrow> contents q1 | Some x \<Rightarrow> x # contents q1)"
      using get_cases [OF Cons.prems(1) p] by blast+
    have "inv q' \<and> capacity q' = capacity q1 \<and> contents q1 @ acc = del' @ contents q'"
    proof (rule Cons.IH [OF i1 _ rr])
      show "valid q1 y" if "QPut y \<in> set ops" for y
        using that Cons.prems(2) gs by (metis list.set_intros(2))
    qed
    with gs c1 del show ?thesis by (cases r) simp_all
  qed
qed

lemma run_bounded:
  assumes "inv q" and "\<And>x. QPut x \<in> set ops \<Longrightarrow> valid q x"
    and "run_queue put get q ops = (q', acc, del)"
  shows "length (contents q') \<le> capacity q"
proof -
  have "inv q'" "capacity q' = capacity q"
    using run_fifo [OF assms] by blast+
  with bounded [of q'] show ?thesis by simp
qed

end

section \<open>The ring of slots\<close>

definition sizeof_pkt_additional_data :: nat where
  "sizeof_pkt_additional_data = 8"

definition PKTQUEUE_STORED :: int where [utm_consts]: "PKTQUEUE_STORED = 0"
definition PKTQUEUE_NOSPACE :: int where [utm_consts]: "PKTQUEUE_NOSPACE = 1"

record pkt_queue =
  ticks_left :: int
  adjust_speed_value :: int
  adjust_speed_seqnum :: u32
  pktput_counter :: u64
  pktget_counter :: u64
  current_freeslot :: u32
  maxpackets :: u32
  packetbuf_size :: u32
  pq_data :: "u8 list option"

definition pkt_queue_new :: pkt_queue where
  "pkt_queue_new = \<lparr>ticks_left = 0, adjust_speed_value = 0, adjust_speed_seqnum = 0,
     pktput_counter = 0, pktget_counter = 0, current_freeslot = 0,
     maxpackets = 0, packetbuf_size = 0, pq_data = None\<rparr>"

definition get_datasize :: "pkt_queue \<Rightarrow> nat" where
  "get_datasize q = unat (maxpackets q * (packetbuf_size q + of_nat sizeof_pkt_additional_data))"

text \<open>\<open>fresh\<close> stands for the indeterminate bytes of the block that \<open>new[]\<close> returns.\<close>

definition pkt_queue_init :: "(nat \<Rightarrow> u8 list) \<Rightarrow> u32 \<Rightarrow> u32 \<Rightarrow> pkt_queue \<Rightarrow> pkt_queue" where
  "pkt_queue_init fresh maxp bufsize q =
     (let q1 = q\<lparr>maxpackets := maxp, packetbuf_size := bufsize\<rparr>
      in q1\<lparr>pq_data := Some (fresh (get_datasize q1))\<rparr>)"

definition pkt_queue_assign :: "pkt_queue \<Rightarrow> pkt_queue" where
  "pkt_queue_assign rhs =
     \<lparr>ticks_left = ticks_left rhs, adjust_speed_value = adjust_speed_value rhs,
      adjust_speed_seqnum = adjust_speed_seqnum rhs,
      pktput_counter = pktput_counter rhs, pktget_counter = pktget_counter rhs,
      current_freeslot = current_freeslot rhs,
      maxpackets = maxpackets rhs, packetbuf_size = packetbuf_size rhs,
      pq_data = Some (case pq_data rhs of None \<Rightarrow> [] | Some b \<Rightarrow> take (get_datasize rhs) b)\<rparr>"

definition get_pktposptr :: "pkt_queue \<Rightarrow> u32 \<Rightarrow> nat option" where
  "get_pktposptr q pktpos =
     (if maxpackets q \<le> pktpos then None
      else if pq_data q = None then None
      else Some (unat (pktpos * (packetbuf_size q + of_nat sizeof_pkt_additional_data))))"

definition put_packet :: "pkt_queue \<Rightarrow> u8 list \<Rightarrow> u32 \<Rightarrow> u8 list option \<Rightarrow> (int \<times> pkt_queue) option" where
  "put_packet q pkt bufsize ppkt_data =
     (let qsize = (ucast (pktput_counter q - pktget_counter q) :: u32) in
      if maxpackets q \<le> qsize then Some (PKTQUEUE_NOSPACE, q) else
      case get_pktposptr q (current_freeslot q) of
        None \<Rightarrow> Some (PKTQUEUE_NOSPACE, q)
      | Some ptr \<Rightarrow>
        if length pkt < unat bufsize then None else
        Option.bind (Option.bind (pq_data q) (\<lambda>b. mem_write b ptr (take (unat bufsize) pkt)))
        (\<lambda>b1. Option.bind (case ppkt_data of None \<Rightarrow> Some b1
                          | Some d \<Rightarrow> mem_write b1 (ptr + unat bufsize) d)
        (\<lambda>b2. Some (PKTQUEUE_STORED,
          q\<lparr>pktput_counter := pktput_counter q + 1,
            current_freeslot := (if maxpackets q \<le> current_freeslot q + 1 then 0 else current_freeslot q + 1),
            pq_data := Some b2\<rparr>))))"

definition get_packet :: "pkt_queue \<Rightarrow> u32 \<Rightarrow> ((u8 list \<times> u8 list) option \<times> pkt_queue) option" where
  "get_packet q bufsize =
     (let qsize = (ucast (pktput_counter q - pktget_counter q) :: u32) in
      if qsize = 0 then Some (None, q) else
      if ticks_left q > 0 then Some (None, q\<lparr>ticks_left := ticks_left q - 1\<rparr>) else
      if maxpackets q = 0 then None else
      let lastpos = (maxpackets q + current_freeslot q - qsize) mod maxpackets q in
      case get_pktposptr q lastpos of
        None \<Rightarrow> Some (None, q)
      | Some ptr \<Rightarrow>
        Option.bind (Option.bind (pq_data q) (\<lambda>b. mem_read b ptr (unat bufsize)))
        (\<lambda>pkt. Option.bind (Option.bind (pq_data q) (\<lambda>b. mem_read b (ptr + unat bufsize) sizeof_pkt_additional_data))
        (\<lambda>d. Some (Some (pkt, d), q\<lparr>pktget_counter := pktget_counter q + 1\<rparr>))))"

definition get_stat :: "pkt_queue \<Rightarrow> u64 \<times> u64 \<times> u32" where
  "get_stat q = (pktput_counter q, pktget_counter q, current_freeslot q)"

section \<open>Invariant and abstraction\<close>

definition pq_stride :: "pkt_queue \<Rightarrow> nat" where
  "pq_stride q = unat (packetbuf_size q) + sizeof_pkt_additional_data"

definition pq_count :: "pkt_queue \<Rightarrow> nat" where
  "pq_count q = unat (pktput_counter q - pktget_counter q)"

text \<open>
  A queue after \<open>init\<close>: the block has the size the layout needs (and that size fits
  \<open>size_t\<close>), the free slot is one of the ring, and no more than \<open>maxpackets\<close> packets
  are stored. The two packet counters themselves may wrap.
\<close>

definition pq_inv :: "pkt_queue \<Rightarrow> bool" where
  "pq_inv q \<longleftrightarrow>
     0 < unat (maxpackets q) \<and> unat (current_freeslot q) < unat (maxpackets q) \<and>
     pq_count q \<le> unat (maxpackets q) \<and>
     unat (maxpackets q) * pq_stride q < 2 ^ 32 \<and>
     (\<exists>b. pq_data q = Some b \<and> length b = unat (maxpackets q) * pq_stride q)"

definition pq_slot :: "pkt_queue \<Rightarrow> nat \<Rightarrow> u8 list \<times> u8 list" where
  "pq_slot q k =
     (let b = the (pq_data q); off = k * pq_stride q
      in (take (unat (packetbuf_size q)) (drop off b),
          take sizeof_pkt_additional_data (drop (off + unat (packetbuf_size q)) b)))"

definition pq_pos :: "pkt_queue \<Rightarrow> nat \<Rightarrow> nat" where
  "pq_pos q i =
     (unat (maxpackets q) + unat (current_freeslot q) - pq_count q + i) mod unat (maxpackets q)"

definition pq_list :: "pkt_queue \<Rightarrow> (u8 list \<times> u8 list) list" where
  "pq_list q = map (\<lambda>i. pq_slot q (pq_pos q i)) [0..<pq_count q]"

definition pq_valid :: "pkt_queue \<Rightarrow> u8 list \<times> u8 list \<Rightarrow> bool" where
  "pq_valid q x \<longleftrightarrow> length (fst x) = unat (packetbuf_size q) \<and> length (snd x) = sizeof_pkt_additional_data"

section \<open>The layout: slots do not overlap and stay inside the block\<close>

lemma pq_stride_word:
  assumes "pq_inv q"
  shows "unat (packetbuf_size q + of_nat sizeof_pkt_additional_data) = pq_stride q"
proof -
  have "1 * pq_stride q \<le> unat (maxpackets q) * pq_stride q"
    using assms by (intro mult_right_mono) (auto simp: pq_inv_def)
  also have "\<dots> < 2 ^ 32"
    using assms unfolding pq_inv_def by blast
  finally have "pq_stride q < 2 ^ 32"
    by simp
  then show ?thesis
    by (subst unat_add_no_overflow) (simp_all add: pq_stride_def sizeof_pkt_additional_data_def)
qed

lemma get_pktposptr_inv:
  assumes "pq_inv q" and "unat p < unat (maxpackets q)"
  shows "get_pktposptr q p = Some (unat p * pq_stride q)"
proof -
  have "unat p * pq_stride q \<le> unat (maxpackets q) * pq_stride q"
    using assms(2) by (intro mult_right_mono) auto
  also have "\<dots> < 2 ^ 32"
    using assms(1) unfolding pq_inv_def by blast
  finally have "unat p * pq_stride q < 2 ^ 32" .
  then have "unat (p * (packetbuf_size q + of_nat sizeof_pkt_additional_data)) = unat p * pq_stride q"
    by (subst unat_mult_no_overflow) (simp_all add: pq_stride_word [OF assms(1)])
  then show ?thesis
    using assms by (auto simp: get_pktposptr_def pq_inv_def word_le_nat_alt)
qed

lemma slot_end:
  assumes "k < (n::nat)"
  shows "k * s + s \<le> n * s"
proof -
  have "Suc k * s \<le> n * s" using assms by (intro mult_right_mono) auto
  then show ?thesis by simp
qed

lemma slot_disjoint:
  assumes "j \<noteq> (k::nat)"
  shows "j * s + s \<le> k * s \<or> k * s + s \<le> j * s"
  using slot_end [of j k s] slot_end [of k j s] assms by (cases "j < k") auto

section \<open>Ring positions\<close>

lemma pq_pos_less: "pq_inv q \<Longrightarrow> pq_pos q i < unat (maxpackets q)"
  by (simp add: pq_pos_def pq_inv_def)

lemma mod_ring_neq:
  fixes N f n i :: nat
  assumes "f < N" "n < N" "i < n"
  shows "(N + f - n + i) mod N \<noteq> f"
proof
  assume a: "(N + f - n + i) mod N = f"
  show False
  proof (cases "N + f - n + i < N")
    case True
    with a assms show False by simp
  next
    case False
    then have "(N + f - n + i) mod N = f + i - n"
      using assms by (auto simp: mod_if)
    with a assms False show False by simp
  qed
qed

lemma mod_ring_succ:
  fixes N f n i :: nat
  assumes "f < N" "n < N"
  shows "(N + (if N \<le> f + 1 then 0 else f + 1) - (n + 1) + i) mod N = (N + f - n + i) mod N"
proof (cases "N \<le> f + 1")
  case True
  then have f: "f = N - 1" using assms by simp
  have "(N + f - n + i) mod N = (N - (n + 1) + i + N) mod N"
    using assms f by (intro arg_cong [where f = "\<lambda>x. x mod N"]) simp
  also have "\<dots> = (N - (n + 1) + i) mod N"
    by simp
  finally show ?thesis using True by simp
next
  case False
  then show ?thesis by simp
qed

section \<open>put and get against the list\<close>

lemma pq_count_bound: "pq_inv q \<Longrightarrow> pq_count q < 2 ^ 32"
  using unat_u32_bound [of "maxpackets q"] by (auto simp: pq_inv_def)

lemma unat_qsize: "pq_inv q \<Longrightarrow> unat (ucast (pktput_counter q - pktget_counter q) :: u32) = pq_count q"
  using pq_count_bound [of q] by (simp add: unsigned_ucast_eq pq_count_def take_bit_nat_eq_self)

lemma length_pq_list: "length (pq_list q) = pq_count q"
  by (simp add: pq_list_def)

text \<open>
  Writing slot \<open>f\<close> of a block of \<open>N\<close> slots of \<open>s + d\<close> bytes: both copies fit, and every
  other slot reads as before.
\<close>

lemma slot_write:
  assumes len: "length b = N * (s + d)" and f: "f < N"
    and pkt: "length pkt = s" and dat: "length dat = d"
  obtains b1 b2 where "mem_write b (f * (s + d)) pkt = Some b1"
    and "mem_write b1 (f * (s + d) + s) dat = Some b2"
    and "length b2 = length b"
    and "take s (drop (f * (s + d)) b2) = pkt"
    and "take d (drop (f * (s + d) + s) b2) = dat"
    and "\<And>k. k < N \<Longrightarrow> k \<noteq> f \<Longrightarrow> take s (drop (k * (s + d)) b2) = take s (drop (k * (s + d)) b)"
    and "\<And>k. k < N \<Longrightarrow> k \<noteq> f \<Longrightarrow>
          take d (drop (k * (s + d) + s) b2) = take d (drop (k * (s + d) + s) b)"
proof -
  let ?o = "f * (s + d)"
  have fits: "?o + (s + d) \<le> length b" using slot_end [OF f, of "s + d"] len by simp
  obtain b1 where b1: "mem_write b ?o pkt = Some b1"
    using fits pkt mem_write_Some_iff [of b ?o pkt] by auto
  have l1: "length b1 = length b" by (rule mem_write_length [OF b1])
  obtain b2 where b2: "mem_write b1 (?o + s) dat = Some b2"
    using fits dat l1 mem_write_Some_iff [of b1 "?o + s" dat] by auto
  have l2: "length b2 = length b" using mem_write_length [OF b2] l1 by simp
  have read_pkt: "mem_read b2 ?o s = Some pkt"
    using mem_read_write_other [OF b2, of ?o s] mem_read_write_same [OF b1] pkt by simp
  have read_dat: "mem_read b2 (?o + s) d = Some dat"
    using mem_read_write_same [OF b2] dat by simp
  have other: "mem_read b2 a n = mem_read b a n" if "a + n \<le> ?o \<or> ?o + (s + d) \<le> a" for a n
    using mem_read_write_other [OF b2, of a n] mem_read_write_other [OF b1, of a n] that pkt dat by auto
  have o1: "take s (drop (k * (s + d)) b2) = take s (drop (k * (s + d)) b)"
    and o2: "take d (drop (k * (s + d) + s) b2) = take d (drop (k * (s + d) + s) b)"
    if k: "k < N" "k \<noteq> f" for k
    using other [of "k * (s + d)" s] other [of "k * (s + d) + s" d] slot_disjoint [OF k(2), of "s + d"]
      slot_end [OF k(1), of "s + d"] len l2
    by (auto simp: mem_read_def)
  show thesis
    using that [OF b1 b2 l2 _ _ o1 o2] read_pkt read_dat by (auto simp: mem_read_def split: if_splits)
qed

lemma put_packet_inv:
  assumes inv: "pq_inv q" and val: "pq_valid q x"
  shows "if pq_count q < unat (maxpackets q)
         then \<exists>q'. put_packet q (fst x) (packetbuf_size q) (Some (snd x)) = Some (PKTQUEUE_STORED, q')
                \<and> pq_inv q' \<and> pq_list q' = pq_list q @ [x]
                \<and> maxpackets q' = maxpackets q \<and> packetbuf_size q' = packetbuf_size q
                \<and> ticks_left q' = ticks_left q
         else put_packet q (fst x) (packetbuf_size q) (Some (snd x)) = Some (PKTQUEUE_NOSPACE, q)"
proof (cases "pq_count q < unat (maxpackets q)")
  case False
  then show ?thesis
    using inv by (simp add: put_packet_def word_le_nat_alt unat_qsize)
next
  case True
  let ?N = "unat (maxpackets q)" and ?f = "unat (current_freeslot q)" and ?n = "pq_count q"
  let ?s = "unat (packetbuf_size q)" and ?d = sizeof_pkt_additional_data
  let ?o = "?f * pq_stride q"
  have stride: "pq_stride q = ?s + ?d" by (simp add: pq_stride_def)
  have fN: "?f < ?N" using inv by (simp add: pq_inv_def)
  obtain b where b: "pq_data q = Some b" and len: "length b = ?N * (?s + ?d)"
    using inv by (auto simp: pq_inv_def stride)
  from slot_write [OF len fN, of "fst x" "snd x"] val obtain b1 b2
    where w1: "mem_write b ?o (fst x) = Some b1" and w2: "mem_write b1 (?o + ?s) (snd x) = Some b2"
      and l2: "length b2 = length b"
      and r: "take ?s (drop ?o b2) = fst x" "take ?d (drop (?o + ?s) b2) = snd x"
      and same1: "\<And>k. k < ?N \<Longrightarrow> k \<noteq> ?f \<Longrightarrow> take ?s (drop (k * pq_stride q) b2) = take ?s (drop (k * pq_stride q) b)"
      and same2: "\<And>k. k < ?N \<Longrightarrow> k \<noteq> ?f \<Longrightarrow>
          take ?d (drop (k * pq_stride q + ?s) b2) = take ?d (drop (k * pq_stride q + ?s) b)"
    unfolding pq_valid_def stride by blast
  define q' where "q' = q\<lparr>pktput_counter := pktput_counter q + 1,
       current_freeslot := (if maxpackets q \<le> current_freeslot q + 1 then 0 else current_freeslot q + 1),
       pq_data := Some b2\<rparr>"
  have put: "put_packet q (fst x) (packetbuf_size q) (Some (snd x)) = Some (PKTQUEUE_STORED, q')"
    using True val b w1 w2 unat_qsize [OF inv] get_pktposptr_inv [OF inv fN]
    by (simp add: put_packet_def word_le_nat_alt pq_valid_def q'_def)
  have f1: "unat (current_freeslot q + 1) = ?f + 1"
    using fN unat_u32_bound [of "maxpackets q"] by (subst unat_add_no_overflow) auto
  have f': "unat (current_freeslot q') = (if ?N \<le> ?f + 1 then 0 else ?f + 1)"
    by (simp add: q'_def word_le_nat_alt f1)
  have cnt: "pktput_counter q' - pktget_counter q' = (pktput_counter q - pktget_counter q) + 1"
    by (simp add: q'_def)
  have n': "pq_count q' = ?n + 1"
    unfolding pq_count_def cnt using pq_count_bound [OF inv]
    by (subst unat_add_no_overflow) (auto simp: pq_count_def)
  have inv': "pq_inv q'"
    using inv True fN n' f' l2 len b
    by (auto simp: pq_inv_def q'_def pq_stride_def)
  have pos: "pq_pos q' i = pq_pos q i" for i
    unfolding pq_pos_def n' f' using mod_ring_succ [OF fN True, of i] by (simp add: q'_def)
  have old: "pq_slot q' (pq_pos q i) = pq_slot q (pq_pos q i)" if "i < ?n" for i
  proof -
    have "pq_pos q i \<noteq> ?f"
      using mod_ring_neq [OF fN True that] by (simp add: pq_pos_def)
    then show ?thesis
      using same1 same2 pq_pos_less [OF inv] b
      by (simp add: pq_slot_def q'_def pq_stride_def)
  qed
  have "pq_pos q ?n = ?f"
    using fN True by (simp add: pq_pos_def)
  then have new: "pq_slot q' (pq_pos q ?n) = x"
    using r by (simp add: pq_slot_def q'_def pq_stride_def)
  have "pq_list q' = pq_list q @ [x]"
    by (simp add: pq_list_def n' pos old new)
  with put inv' True show ?thesis by (auto simp: q'_def)
qed

lemma get_packet_empty: "pq_inv q \<Longrightarrow> pq_list q = [] \<Longrightarrow> get_packet q (packetbuf_size q) = Some (None, q)"
  by (simp add: get_packet_def unat_qsize word_unat_eq_iff length_pq_list flip: length_0_conv)

lemma get_packet_inv:
  assumes inv: "pq_inv q" and ne: "pq_list q \<noteq> []"
  shows "if ticks_left q > 0
         then get_packet q (packetbuf_size q) = Some (None, q\<lparr>ticks_left := ticks_left q - 1\<rparr>)
         else \<exists>q'. get_packet q (packetbuf_size q) = Some (Some (hd (pq_list q)), q')
                \<and> pq_inv q' \<and> pq_list q' = tl (pq_list q)
                \<and> maxpackets q' = maxpackets q \<and> packetbuf_size q' = packetbuf_size q"
proof -
  let ?N = "unat (maxpackets q)" and ?f = "unat (current_freeslot q)" and ?n = "pq_count q"
  let ?s = "unat (packetbuf_size q)" and ?d = sizeof_pkt_additional_data
  let ?qs = "ucast (pktput_counter q - pktget_counter q) :: u32"
  have n0: "0 < ?n" using ne by (simp add: length_pq_list flip: length_greater_0_conv)
  then have qs0: "?qs \<noteq> 0" using unat_qsize [OF inv] by (auto simp: word_unat_eq_iff)
  have fN: "?f < ?N" and nN: "?n \<le> ?N" and small: "?N * pq_stride q < 2 ^ 32"
    using inv by (auto simp: pq_inv_def)
  obtain b where b: "pq_data q = Some b" and len: "length b = ?N * pq_stride q"
    using inv by (auto simp: pq_inv_def)
  have "?N * 8 \<le> ?N * pq_stride q"
    by (intro mult_left_mono) (auto simp: pq_stride_def sizeof_pkt_additional_data_def)
  then have "?N * 8 < 2 ^ 32" using small by (rule le_less_trans)
  then have N29: "?N < 2 ^ 29" by simp
  have sum: "unat (maxpackets q + current_freeslot q) = ?N + ?f"
    using N29 fN by (subst unat_add_no_overflow) auto
  have sub: "unat (maxpackets q + current_freeslot q - ?qs) = ?N + ?f - ?n"
    using nN sum unat_qsize [OF inv] by (simp add: unat_sub word_le_nat_alt)
  define p where "p = (maxpackets q + current_freeslot q - ?qs) mod maxpackets q"
  have p: "unat p = pq_pos q 0"
    by (simp add: p_def unat_mod sub pq_pos_def)
  then have pN: "unat p < ?N" using pq_pos_less [OF inv] by simp
  have ptr: "get_pktposptr q p = Some (pq_pos q 0 * pq_stride q)"
    using get_pktposptr_inv [OF inv pN] p by simp
  have fits: "pq_pos q 0 * pq_stride q + pq_stride q \<le> length b"
    using slot_end [OF pq_pos_less [OF inv]] len by simp
  define q' where "q' = q\<lparr>pktget_counter := pktget_counter q + 1\<rparr>"
  have hd: "hd (pq_list q) = pq_slot q (pq_pos q 0)"
    using n0 by (simp add: pq_list_def upt_rec)
  have get: "\<not> ticks_left q > 0 \<Longrightarrow>
      get_packet q (packetbuf_size q) = Some (Some (hd (pq_list q)), q')"
    using qs0 fN b ptr fits hd unfolding get_packet_def Let_def p_def [symmetric] q'_def
    by (auto simp: mem_read_def pq_slot_def pq_stride_def word_unat_eq_iff Let_def)
  have cnt: "pktput_counter q' - pktget_counter q' = (pktput_counter q - pktget_counter q) - 1"
    by (simp add: q'_def)
  have n': "pq_count q' = ?n - 1"
    unfolding pq_count_def cnt using n0 by (subst unat_minus_one) (auto simp: pq_count_def)
  have inv': "pq_inv q'"
    using inv n' by (auto simp: pq_inv_def q'_def pq_stride_def)
  have "pq_pos q' i = pq_pos q (Suc i)" for i
  proof -
    have "?N + ?f - (?n - 1) + i = ?N + ?f - ?n + Suc i" using n0 nN by simp
    then show ?thesis unfolding pq_pos_def n' by (simp add: q'_def)
  qed
  moreover have "pq_slot q' k = pq_slot q k" for k
    by (simp add: pq_slot_def q'_def pq_stride_def)
  ultimately have "pq_list q' = tl (pq_list q)"
    by (intro nth_equalityI) (simp_all add: pq_list_def n' nth_tl less_diff_conv)
  with get inv' qs0 show ?thesis by (auto simp: q'_def get_packet_def)
qed

lemma get_packet_state:
  assumes "pq_inv q" and "get_packet q (packetbuf_size q) = Some (r, q')"
  shows "pq_inv q' \<and> maxpackets q' = maxpackets q \<and> packetbuf_size q' = packetbuf_size q \<and>
    (case r of None \<Rightarrow> pq_list q' = pq_list q | Some x \<Rightarrow> pq_list q = x # pq_list q')"
proof -
  have tick: "pq_inv (q\<lparr>ticks_left := n\<rparr>) \<and> pq_list (q\<lparr>ticks_left := n\<rparr>) = pq_list q" for n
    using assms(1) by (simp add: pq_inv_def pq_list_def pq_slot_def pq_pos_def pq_count_def pq_stride_def)
  show ?thesis
  proof (cases "pq_list q = []")
    case True
    with assms get_packet_empty [OF assms(1)] show ?thesis by simp
  next
    case False
    with assms get_packet_inv [OF assms(1)] tick show ?thesis
      by (fastforce split: if_splits simp: neq_Nil_conv)
  qed
qed

section \<open>The ring implements the interface\<close>

definition pq_put :: "u8 list \<times> u8 list \<Rightarrow> pkt_queue \<Rightarrow> bool \<times> pkt_queue" where
  "pq_put x q = (case put_packet q (fst x) (packetbuf_size q) (Some (snd x)) of
     None \<Rightarrow> (False, q) | Some (r, q') \<Rightarrow> (r = PKTQUEUE_STORED, q'))"

definition pq_get :: "pkt_queue \<Rightarrow> (u8 list \<times> u8 list) option \<times> pkt_queue" where
  "pq_get q = (case get_packet q (packetbuf_size q) of None \<Rightarrow> (None, q) | Some r \<Rightarrow> r)"

lemma get_packet_defined:
  assumes "pq_inv q"
  shows "\<exists>r. get_packet q (packetbuf_size q) = Some r"
  using get_packet_empty [OF assms] get_packet_inv [OF assms]
  by (cases "pq_list q = []") (auto split: if_splits)

lemma pq_get_state:
  assumes "pq_inv q" and "pq_get q = (r, q')"
  shows "pq_inv q' \<and> maxpackets q' = maxpackets q \<and> packetbuf_size q' = packetbuf_size q \<and>
    (case r of None \<Rightarrow> pq_list q' = pq_list q | Some x \<Rightarrow> pq_list q = x # pq_list q')"
proof -
  have "get_packet q (packetbuf_size q) = Some (r, q')"
    using get_packet_defined [OF assms(1)] assms(2) by (auto simp: pq_get_def)
  then show ?thesis by (rule get_packet_state [OF assms(1)])
qed

lemma put_packet_shape:
  "put_packet q p s d = Some (r, q') \<Longrightarrow> maxpackets q' = maxpackets q \<and> packetbuf_size q' = packetbuf_size q"
  by (auto simp: put_packet_def Let_def bind_eq_Some_conv split: if_splits option.splits)

interpretation pq: bounded_fifo pq_inv pq_list "\<lambda>q. unat (maxpackets q)" pq_valid pq_put pq_get
proof unfold_locales
  fix q q' :: pkt_queue and x :: "u8 list \<times> u8 list" and ok
  assume inv: "pq_inv q"
  show "length (pq_list q) \<le> unat (maxpackets q)"
    using inv by (simp add: length_pq_list pq_inv_def)
  show "unat (maxpackets q') = unat (maxpackets q) \<and> pq_valid q' = pq_valid q" if "pq_put x q = (ok, q')"
    using that put_packet_shape
    by (fastforce simp: pq_put_def pq_valid_def fun_eq_iff split: option.splits prod.splits)
  assume val: "pq_valid q x" and put: "pq_put x q = (ok, q')"
  note spec = put_packet_inv [OF inv val]
  show "ok \<and> pq_inv q' \<and> pq_list q' = pq_list q @ [x]" if "length (pq_list q) < unat (maxpackets q)"
    using that spec put by (auto simp: length_pq_list pq_put_def utm_consts)
  show "\<not> ok \<and> q' = q" if "length (pq_list q) = unat (maxpackets q)"
    using that spec put by (auto simp: length_pq_list pq_put_def utm_consts)
next
  fix q q' :: pkt_queue and r :: "(u8 list \<times> u8 list) option" and x
  assume inv: "pq_inv q"
  show "pq_inv q' \<and> pq_list q' = pq_list q" if "pq_get q = (None, q')"
    using pq_get_state [OF inv that] by simp
  show "pq_inv q' \<and> pq_list q = x # pq_list q'" if "pq_get q = (Some x, q')"
    using pq_get_state [OF inv that] by simp
  show "unat (maxpackets q') = unat (maxpackets q) \<and> pq_valid q' = pq_valid q" if "pq_get q = (r, q')"
    using pq_get_state [OF inv that] by (simp add: pq_valid_def fun_eq_iff)
qed

lemma pkt_queue_init_inv:
  assumes "0 < unat maxp" and "unat maxp * (unat bufsize + sizeof_pkt_additional_data) < 2 ^ 32"
    and "\<And>n. length (fresh n) = n"
  shows "pq_inv (pkt_queue_init fresh maxp bufsize pkt_queue_new)
    \<and> pq_list (pkt_queue_init fresh maxp bufsize pkt_queue_new) = []"
proof -
  have "1 * (unat bufsize + sizeof_pkt_additional_data) \<le> unat maxp * (unat bufsize + sizeof_pkt_additional_data)"
    using assms(1) by (intro mult_right_mono) auto
  also note assms(2)
  finally have "unat (bufsize + of_nat sizeof_pkt_additional_data) = unat bufsize + sizeof_pkt_additional_data"
    by (subst unat_add_no_overflow) (auto simp: sizeof_pkt_additional_data_def)
  then have "unat (maxp * (bufsize + of_nat sizeof_pkt_additional_data))
      = unat maxp * (unat bufsize + sizeof_pkt_additional_data)"
    using assms(2) by (subst unat_mult_no_overflow) auto
  then show ?thesis
    using assms
    by (simp add: pq_inv_def pkt_queue_init_def pkt_queue_new_def get_datasize_def pq_count_def
        pq_stride_def pq_list_def Let_def)
qed

section \<open>Properties\<close>

text \<open>
  C7: the packet queue is a bounded FIFO. For any run of \<open>put_packet\<close>/\<open>get_packet\<close> calls
  with buffers of the queue's size, what was stored before followed by what was accepted is
  what was delivered followed by what is still stored, in this order, and no more than
  \<open>maxpackets\<close> packets are ever held.
\<close>

theorem pkt_queue_fifo:
  assumes "pq_inv q" and "\<And>x. QPut x \<in> set ops \<Longrightarrow> pq_valid q x"
    and "run_queue pq_put pq_get q ops = (q', acc, del)"
  shows "pq_inv q' \<and> pq_list q @ acc = del @ pq_list q' \<and> length (pq_list q') \<le> unat (maxpackets q)"
  using pq.run_fifo [OF assms] pq.run_bounded [OF assms] by blast

definition ex_queue :: pkt_queue where
  "ex_queue = pkt_queue_init (\<lambda>n. replicate n 0) 2 4 pkt_queue_new"

definition ex_queue_ops :: "(u8 list \<times> u8 list) queue_op list" where
  "ex_queue_ops = [QPut ([1, 2, 3, 4], replicate 8 7), QPut ([5, 6, 7, 8], replicate 8 9), QGet,
     QPut ([9, 9, 9, 9], replicate 8 1), QGet]"

lemma ex_queue_inv: "pq_inv ex_queue"
  unfolding ex_queue_def by (rule pkt_queue_init_inv [THEN conjunct1]) (simp_all add: sizeof_pkt_additional_data_def)

theorem pkt_queue_fifo_witness:
  "case run_queue pq_put pq_get ex_queue ex_queue_ops of
     (q', acc, del) \<Rightarrow> pq_inv q' \<and> pq_list ex_queue @ acc = del @ pq_list q' \<and> length (pq_list q') \<le> 2"
proof -
  obtain q' acc del where r: "run_queue pq_put pq_get ex_queue ex_queue_ops = (q', acc, del)"
    by (metis surj_pair)
  have "pq_valid ex_queue x" if "QPut x \<in> set ex_queue_ops" for x
    using that by (auto simp: ex_queue_ops_def pq_valid_def ex_queue_def pkt_queue_init_def
        sizeof_pkt_additional_data_def Let_def)
  from pkt_queue_fifo [OF ex_queue_inv this r] r show ?thesis
    by (simp add: ex_queue_def pkt_queue_init_def Let_def)
qed

text \<open>
  C28: memory safety of the ring. On an initialised queue, storing a packet of the queue's
  buffer size (with or without additional data) and fetching one never touch a byte outside
  the heap block, whatever the counters and the shaper's state are.
\<close>

theorem pkt_queue_memory_safe:
  assumes inv: "pq_inv q" and len: "length pkt = unat (packetbuf_size q)"
    and dat: "\<And>d. dat = Some d \<Longrightarrow> length d = sizeof_pkt_additional_data"
  shows "put_packet q pkt (packetbuf_size q) dat \<noteq> None \<and> get_packet q (packetbuf_size q) \<noteq> None"
proof
  show "get_packet q (packetbuf_size q) \<noteq> None" using get_packet_defined [OF inv] by auto
  show "put_packet q pkt (packetbuf_size q) dat \<noteq> None"
  proof (cases dat)
    case (Some d)
    with put_packet_inv [OF inv, of "(pkt, d)"] len dat show ?thesis
      by (auto simp: pq_valid_def split: if_splits)
  next
    case None
    have v: "pq_valid q (pkt, replicate sizeof_pkt_additional_data 0)" using len by (simp add: pq_valid_def)
    have "put_packet q pkt (packetbuf_size q) (Some (replicate sizeof_pkt_additional_data 0)) \<noteq> None"
      using put_packet_inv [OF inv v] by (auto split: if_splits)
    with None show ?thesis
      by (auto simp: put_packet_def Let_def split: if_splits option.splits bind_splits)
  qed
qed

theorem pkt_queue_memory_safe_witness:
  "put_packet ex_queue [1, 2, 3, 4] (packetbuf_size ex_queue) None \<noteq> None
    \<and> get_packet ex_queue (packetbuf_size ex_queue) \<noteq> None"
  by (rule pkt_queue_memory_safe [OF ex_queue_inv])
    (simp_all add: ex_queue_def pkt_queue_init_def Let_def)

end
