(* ===== verification/UBaseList.thy ===== *)
theory UBaseList
  imports Prelude "HOL-Library.Multiset"
begin

text \<open>
  \<open>utm/ubaselist.h\<close>: the list template every configuration list of the program is an
  instance of (rules, filters, users, address tables, URL filters, process names). The
  members of the element class \<open>T\<close> the template calls are collected in a record, one
  value of which stands for one instantiation of the template; the virtual
  \<open>has_write_protection\<close> of the derived class is its field \<open>ubl_protected\<close>. Pointers
  into the list are positions. The laws \<open>T\<close> has to obey are the locale \<open>ubl_element\<close>.
\<close>

record 'a ubl_class =
  ubl_get_id :: "'a \<Rightarrow> u32"
  ubl_set_id :: "u32 \<Rightarrow> 'a \<Rightarrow> 'a"
  ubl_get_name :: "'a \<Rightarrow> string"
  ubl_default :: 'a
  ubl_item_clear :: "'a \<Rightarrow> 'a"
  ubl_eq :: "'a \<Rightarrow> 'a \<Rightarrow> bool"
  ubl_protected :: bool

definition WRITE_PROTECTED_ELEMENT_MAX_ID :: u32 where [utm_consts]: "WRITE_PROTECTED_ELEMENT_MAX_ID = 10"

definition UBASELISTORDER_ERROR :: int where [utm_consts]: "UBASELISTORDER_ERROR = 0"
definition UBASELISTORDER_EQUAL :: int where [utm_consts]: "UBASELISTORDER_EQUAL = 1"
definition UBASELISTORDER_FIRST :: int where [utm_consts]: "UBASELISTORDER_FIRST = 2"
definition UBASELISTORDER_SECOND :: int where [utm_consts]: "UBASELISTORDER_SECOND = 3"

datatype insert_type = INSERT_TYPE_TAIL | INSERT_TYPE_BEFORE | INSERT_TYPE_AFTER

record 'a ubaselist =
  ubl_items :: "'a list"
  ubl_temp_item :: 'a

section \<open>The operations on the items\<close>

definition is_write_protected :: "'a ubl_class \<Rightarrow> u32 \<Rightarrow> bool" where
  "is_write_protected c i \<longleftrightarrow> ubl_protected c \<and> i < WRITE_PROTECTED_ELEMENT_MAX_ID"

definition is_element_exist :: "'a ubl_class \<Rightarrow> 'a list \<Rightarrow> u32 \<Rightarrow> bool" where
  "is_element_exist c xs i = list_ex (\<lambda>e. ubl_get_id c e = i) xs"

definition get_next_id :: "'a ubl_class \<Rightarrow> 'a list \<Rightarrow> u32" where
  "get_next_id c xs =
     (let m = fold (\<lambda>e r. if ubl_get_id c e > r then ubl_get_id c e else r) xs 0;
          m' = (if ubl_protected c \<and> m < WRITE_PROTECTED_ELEMENT_MAX_ID
                then WRITE_PROTECTED_ELEMENT_MAX_ID else m)
      in m' + 1)"

text \<open>\<open>items.insert(iter, e)\<close> before the first element with the position's id (\<open>BEFORE\<close>).\<close>

fun insert_before_pos :: "'a ubl_class \<Rightarrow> u32 \<Rightarrow> 'a \<Rightarrow> 'a list \<Rightarrow> 'a list option" where
  "insert_before_pos c pos e [] = None"
| "insert_before_pos c pos e (x # xs) =
     (if ubl_get_id c x = pos then Some (e # x # xs) else map_option ((#) x) (insert_before_pos c pos e xs))"

text \<open>The same for \<open>AFTER\<close>: the iterator is advanced; at the end of the list nothing is found.\<close>

fun insert_after_pos :: "'a ubl_class \<Rightarrow> u32 \<Rightarrow> 'a \<Rightarrow> 'a list \<Rightarrow> 'a list option" where
  "insert_after_pos c pos e [] = None"
| "insert_after_pos c pos e (x # xs) =
     (if ubl_get_id c x = pos then (if xs = [] then None else Some (x # e # xs))
      else map_option ((#) x) (insert_after_pos c pos e xs))"

definition insert_element ::
  "'a ubl_class \<Rightarrow> insert_type \<Rightarrow> 'a \<Rightarrow> u32 \<Rightarrow> u32 \<Rightarrow> 'a list \<Rightarrow> u32 \<times> 'a list"
where
  "insert_element c ty e element_id position_id xs =
     (let eid = (if ubl_get_id c e > 0 then ubl_get_id c e
                 else if element_id = 0 then get_next_id c xs else element_id)
      in if ubl_get_id c e > 0 \<and> is_write_protected c eid \<and> is_element_exist c xs eid
         then (eid, xs)
         else let e_copy = ubl_set_id c eid e in
           (eid, case ty of
              INSERT_TYPE_TAIL \<Rightarrow> xs @ [e_copy]
            | INSERT_TYPE_BEFORE \<Rightarrow>
                (case insert_before_pos c position_id e xs of Some ys \<Rightarrow> ys | None \<Rightarrow> xs @ [e_copy])
            | INSERT_TYPE_AFTER \<Rightarrow>
                (case insert_after_pos c position_id e xs of Some ys \<Rightarrow> ys | None \<Rightarrow> xs @ [e_copy])))"

definition add_element :: "'a ubl_class \<Rightarrow> 'a \<Rightarrow> u32 \<Rightarrow> 'a list \<Rightarrow> u32 \<times> 'a list" where
  "add_element c e element_id xs = insert_element c INSERT_TYPE_TAIL e element_id 0 xs"

definition insert_element_before :: "'a ubl_class \<Rightarrow> 'a \<Rightarrow> u32 \<Rightarrow> u32 \<Rightarrow> 'a list \<Rightarrow> u32 \<times> 'a list" where
  "insert_element_before c e element_id position_id xs =
     insert_element c INSERT_TYPE_BEFORE e element_id position_id xs"

definition insert_element_after :: "'a ubl_class \<Rightarrow> 'a \<Rightarrow> u32 \<Rightarrow> u32 \<Rightarrow> 'a list \<Rightarrow> u32 \<times> 'a list" where
  "insert_element_after c e element_id position_id xs =
     insert_element c INSERT_TYPE_AFTER e element_id position_id xs"

definition modify_element :: "'a ubl_class \<Rightarrow> 'a \<Rightarrow> 'a list \<Rightarrow> bool \<times> 'a list" where
  "modify_element c e xs =
     (if ubl_protected c \<and> ubl_get_id c e < WRITE_PROTECTED_ELEMENT_MAX_ID then (False, xs)
      else (list_ex (\<lambda>x. ubl_get_id c x = ubl_get_id c e) xs,
            update_first (\<lambda>x. ubl_get_id c x = ubl_get_id c e) (\<lambda>_. e) xs))"

definition delete_element :: "'a ubl_class \<Rightarrow> u32 \<Rightarrow> 'a list \<Rightarrow> bool \<times> 'a list" where
  "delete_element c i xs =
     (if ubl_protected c \<and> i < WRITE_PROTECTED_ELEMENT_MAX_ID then (False, xs)
      else (list_ex (\<lambda>x. ubl_get_id c x = i) xs, remove_first (\<lambda>x. ubl_get_id c x = i) xs))"

fun ubl_truncate :: "nat \<Rightarrow> 'a list \<Rightarrow> 'a list" where
  "ubl_truncate maxitems [] = []"
| "ubl_truncate 0 (x # xs) = ubl_truncate 0 xs"
| "ubl_truncate (Suc n) (x # xs) = x # ubl_truncate n xs"

fun element_index_from :: "'a ubl_class \<Rightarrow> u32 \<Rightarrow> int \<Rightarrow> 'a list \<Rightarrow> int" where
  "element_index_from c i k [] = -1"
| "element_index_from c i k (x # xs) = (if ubl_get_id c x = i then k else element_index_from c i (k + 1) xs)"

definition get_element_index :: "'a ubl_class \<Rightarrow> u32 \<Rightarrow> 'a list \<Rightarrow> int" where
  "get_element_index c i xs = element_index_from c i 0 xs"

fun scan_position :: "'a ubl_class \<Rightarrow> u32 \<Rightarrow> u32 \<Rightarrow> 'a list \<Rightarrow> int" where
  "scan_position c i j [] = UBASELISTORDER_ERROR"
| "scan_position c i j (x # xs) =
     (if ubl_get_id c x = i then UBASELISTORDER_FIRST
      else if ubl_get_id c x = j then UBASELISTORDER_SECOND
      else scan_position c i j xs)"

definition compare_element_position :: "'a ubl_class \<Rightarrow> u32 \<Rightarrow> u32 \<Rightarrow> 'a list \<Rightarrow> int" where
  "compare_element_position c i j xs = (if i = j then UBASELISTORDER_EQUAL else scan_position c i j xs)"

definition find_by_id :: "'a ubl_class \<Rightarrow> u32 \<Rightarrow> 'a list \<Rightarrow> 'a option" where
  "find_by_id c i xs = find (\<lambda>e. ubl_get_id c e = i) xs"

definition find_by_index :: "nat \<Rightarrow> 'a list \<Rightarrow> 'a option" where
  "find_by_index k xs = (if k < length xs then Some (xs ! k) else None)"

fun find_next_by_id :: "'a ubl_class \<Rightarrow> u32 \<Rightarrow> 'a list \<Rightarrow> 'a option" where
  "find_next_by_id c i [] = None"
| "find_next_by_id c i (x # xs) =
     (if ubl_get_id c x = i then (case xs of [] \<Rightarrow> None | y # _ \<Rightarrow> Some y) else find_next_by_id c i xs)"

text \<open>The pointer \<open>findptr_by_id\<close> returns is the position of the element it points at.\<close>

fun findptr_by_id :: "'a ubl_class \<Rightarrow> u32 \<Rightarrow> 'a list \<Rightarrow> nat option" where
  "findptr_by_id c i [] = None"
| "findptr_by_id c i (x # xs) =
     (if ubl_get_id c x = i then Some 0 else map_option Suc (findptr_by_id c i xs))"

text \<open>\<open>is_ci_equal\<close> of \<open>gstring\<close> folds case with the platform's locale: the argument \<open>ci\<close>.\<close>

definition find_by_name ::
  "'a ubl_class \<Rightarrow> (string \<Rightarrow> string \<Rightarrow> bool) \<Rightarrow> string \<Rightarrow> bool \<Rightarrow> 'a list \<Rightarrow> 'a option" where
  "find_by_name c ci name case_insensitive xs =
     find (\<lambda>e. if \<not> case_insensitive then ubl_get_name c e = name else ci name (ubl_get_name c e)) xs"

fun move_up_from :: "'a ubl_class \<Rightarrow> u32 \<Rightarrow> 'a \<Rightarrow> 'a list \<Rightarrow> bool \<times> 'a list" where
  "move_up_from c i p [] = (False, [p])"
| "move_up_from c i p (x # xs) =
     (if ubl_get_id c x = i then (True, x # p # xs)
      else let (r, ys) = move_up_from c i x xs in (r, p # ys))"

fun move_up :: "'a ubl_class \<Rightarrow> u32 \<Rightarrow> 'a list \<Rightarrow> bool \<times> 'a list" where
  "move_up c i [] = (False, [])"
| "move_up c i (x # xs) = (if ubl_get_id c x = i then (False, x # xs) else move_up_from c i x xs)"

fun move_down :: "'a ubl_class \<Rightarrow> u32 \<Rightarrow> 'a list \<Rightarrow> bool \<times> 'a list" where
  "move_down c i [] = (False, [])"
| "move_down c i (x # xs) =
     (if ubl_get_id c x = i then (case xs of [] \<Rightarrow> (False, [x]) | y # ys \<Rightarrow> (True, y # x # ys))
      else let (r, ys) = move_down c i xs in (r, x # ys))"

section \<open>The temporary item of the XML reader\<close>

definition ubl_clear :: "'a ubaselist \<Rightarrow> 'a ubaselist" where
  "ubl_clear l = l\<lparr>ubl_items := []\<rparr>"

definition clear_temp :: "'a ubl_class \<Rightarrow> 'a ubaselist \<Rightarrow> 'a ubaselist" where
  "clear_temp c l = l\<lparr>ubl_temp_item := ubl_item_clear c (ubl_temp_item l)\<rparr>"

definition get_temp_item :: "'a ubl_class \<Rightarrow> 'a ubaselist \<Rightarrow> 'a ubaselist" where
  "get_temp_item c l = clear_temp c l"

definition commit_temp_item :: "'a ubl_class \<Rightarrow> 'a ubaselist \<Rightarrow> 'a ubaselist" where
  "commit_temp_item c l =
     (let l1 = (if \<not> ubl_eq c (ubl_default c) (ubl_temp_item l)
                then l\<lparr>ubl_items := snd (add_element c (ubl_temp_item l) 0 (ubl_items l))\<rparr> else l)
      in clear_temp c l1)"

definition insert_and_get_inserted :: "'a ubl_class \<Rightarrow> 'a list \<Rightarrow> nat \<times> 'a list" where
  "insert_and_get_inserted c xs = (length xs, xs @ [ubl_default c])"

definition insert_and_get_copy :: "'a \<Rightarrow> 'a list \<Rightarrow> nat \<times> 'a list" where
  "insert_and_get_copy e xs = (length xs, xs @ [e])"

section \<open>Lookup after an update\<close>

abbreviation ubl_ids :: "'a ubl_class \<Rightarrow> 'a list \<Rightarrow> u32 list" where
  "ubl_ids c xs \<equiv> map (ubl_get_id c) xs"

lemma find_by_id_None: "find_by_id c i xs = None \<longleftrightarrow> i \<notin> set (ubl_ids c xs)"
  by (auto simp: find_by_id_def find_None_set)

lemma find_by_id_Some: "find_by_id c i xs = Some e \<Longrightarrow> e \<in> set xs \<and> ubl_get_id c e = i"
  by (auto simp: find_by_id_def dest: find_Some_set)

lemma find_by_id_append:
  "find_by_id c i (xs @ ys) = (case find_by_id c i xs of None \<Rightarrow> find_by_id c i ys | Some e \<Rightarrow> Some e)"
  unfolding find_by_id_def by (rule find_append)

lemma findptr_by_id_nth:
  "find_by_id c i xs = map_option ((!) xs) (findptr_by_id c i xs)"
  by (induction xs) (auto simp: find_by_id_def option.map_comp comp_def)

lemma findptr_Some: "findptr_by_id c i xs = Some j \<Longrightarrow> j < length xs \<and> ubl_get_id c (xs ! j) = i"
  by (induction xs arbitrary: j) (auto split: if_splits)

lemma findptr_None: "findptr_by_id c i xs = None \<longleftrightarrow> i \<notin> set (map (ubl_get_id c) xs)"
  by (induction xs) auto

lemma is_element_exist_iff: "is_element_exist c xs i \<longleftrightarrow> i \<in> set (ubl_ids c xs)"
  by (auto simp: is_element_exist_def list_ex_iff)

lemma ubl_truncate_take: "ubl_truncate n xs = take n xs"
  by (induction n xs rule: ubl_truncate.induct) auto

lemma modify_element_lookup:
  "find_by_id c j (snd (modify_element c e xs)) =
     (if fst (modify_element c e xs) \<and> j = ubl_get_id c e then Some e else find_by_id c j xs)"
proof -
  have "find (\<lambda>x. ubl_get_id c x = j) (update_first (\<lambda>x. ubl_get_id c x = ubl_get_id c e) (\<lambda>_. e) xs) =
      (if list_ex (\<lambda>x. ubl_get_id c x = ubl_get_id c e) xs \<and> j = ubl_get_id c e then Some e
       else find (\<lambda>x. ubl_get_id c x = j) xs)"
    by (induction xs) auto
  then show ?thesis by (auto simp: modify_element_def find_by_id_def)
qed

lemma modify_element_ids: "ubl_ids c (snd (modify_element c e xs)) = ubl_ids c xs"
  by (auto simp: modify_element_def intro: map_update_first_same)

lemma delete_element_ids:
  "ubl_ids c (snd (delete_element c i xs)) =
     (if ubl_protected c \<and> i < WRITE_PROTECTED_ELEMENT_MAX_ID then ubl_ids c xs
      else remove_first (\<lambda>j. j = i) (ubl_ids c xs))"
  using map_remove_first [of "ubl_get_id c" "\<lambda>j. j = i" xs] by (simp add: delete_element_def)

lemma delete_element_lookup:
  assumes "distinct (ubl_ids c xs)"
  shows "find_by_id c j (snd (delete_element c i xs)) =
     (if fst (delete_element c i xs) \<and> j = i then None else find_by_id c j xs)"
proof -
  have "find (\<lambda>x. ubl_get_id c x = j) (remove_first (\<lambda>x. ubl_get_id c x = i) xs) =
      (if list_ex (\<lambda>x. ubl_get_id c x = i) xs \<and> j = i then None
       else find (\<lambda>x. ubl_get_id c x = j) xs)"
    using assms
  proof (induction xs)
    case (Cons x xs)
    have "find (\<lambda>x. ubl_get_id c x = i) xs = None" if "ubl_get_id c x = i"
      using Cons.prems that by (fastforce simp: find_None_set rev_image_eqI)
    with Cons show ?case by auto
  qed simp
  then show ?thesis by (auto simp: delete_element_def find_by_id_def)
qed

section \<open>Fresh identifiers\<close>

lemma fold_max_id:
  fixes r :: u32
  shows "r \<le> fold (\<lambda>e r. if f e > r then f e else r) xs r
    \<and> (\<forall>x \<in> set xs. f x \<le> fold (\<lambda>e r. if f e > r then f e else r) xs r)
    \<and> fold (\<lambda>e r. if f e > r then f e else r) xs r \<in> insert r (f ` set xs)"
proof (induction xs arbitrary: r)
  case (Cons x xs)
  show ?case
    using Cons.IH [of "if f x > r then f x else r"] by (auto split: if_splits intro: order_trans)
qed simp

lemma word_less_succ: "(w :: u32) < 4294967295 \<Longrightarrow> w < w + 1"
proof -
  assume "w < 4294967295"
  then have "unat w < 4294967295" by (simp add: word_less_nat_alt)
  then have "unat (w + 1) = unat w + 1" by (subst unat_add_no_overflow) auto
  then show ?thesis by (simp add: word_less_nat_alt)
qed

lemma get_next_id_fresh:
  assumes "\<And>x. x \<in> set xs \<Longrightarrow> ubl_get_id c x < 4294967295"
  shows "get_next_id c xs \<noteq> 0 \<and> (\<forall>x \<in> set xs. ubl_get_id c x < get_next_id c xs)
    \<and> (ubl_protected c \<longrightarrow> WRITE_PROTECTED_ELEMENT_MAX_ID < get_next_id c xs)"
proof -
  define m where "m = fold (\<lambda>e r. if ubl_get_id c e > r then ubl_get_id c e else r) xs 0"
  define m' where "m' = (if ubl_protected c \<and> m < WRITE_PROTECTED_ELEMENT_MAX_ID
                then WRITE_PROTECTED_ELEMENT_MAX_ID else m)"
  have all: "\<forall>x \<in> set xs. ubl_get_id c x \<le> m" and mem: "m \<in> insert 0 (ubl_get_id c ` set xs)"
    using fold_max_id [where f = "ubl_get_id c" and r = 0] by (auto simp: m_def)
  have "m < 4294967295" using mem assms by (auto simp: word_less_nat_alt)
  then have lt: "m' < m' + 1"
    by (intro word_less_succ) (auto simp: m'_def WRITE_PROTECTED_ELEMENT_MAX_ID_def)
  have "m \<le> m'" by (auto simp: m'_def)
  with all lt have "\<forall>x \<in> set xs. ubl_get_id c x < m' + 1" by (auto intro: order_le_less_trans order_trans)
  moreover have "m' + 1 \<noteq> 0" using lt by auto
  moreover have "ubl_protected c \<longrightarrow> WRITE_PROTECTED_ELEMENT_MAX_ID < m' + 1"
    using lt by (auto simp: m'_def intro: order_le_less_trans)
  moreover have "get_next_id c xs = m' + 1" by (simp add: get_next_id_def m_def m'_def Let_def)
  ultimately show ?thesis by simp
qed

section \<open>Order\<close>

lemma move_up_from_mset: "mset (snd (move_up_from c i p xs)) = mset (p # xs)"
  by (induction xs arbitrary: p) (auto simp: split_beta)

lemma move_up_mset: "mset (snd (move_up c i xs)) = mset xs"
  by (cases xs) (auto simp: move_up_from_mset)

lemma move_down_mset: "mset (snd (move_down c i xs)) = mset xs"
  by (induction xs) (auto simp: split_beta split: list.splits)

lemma move_up_from_down:
  "move_up_from c i p xs = (True, ys) \<Longrightarrow> ubl_get_id c p \<noteq> i \<Longrightarrow> move_down c i ys = (True, p # xs)"
proof (induction xs arbitrary: p ys)
  case (Cons x xs)
  show ?case
  proof (cases "ubl_get_id c x = i")
    case True
    with Cons.prems show ?thesis by auto
  next
    case False
    with Cons.prems obtain zs where "move_up_from c i x xs = (True, zs)" and ys: "ys = p # zs"
      by (auto simp: split_beta prod_eq_iff)
    with Cons.IH False have "move_down c i zs = (True, x # xs)" by blast
    with ys Cons.prems(2) show ?thesis by simp
  qed
qed simp

lemma move_up_down: "move_up c i xs = (True, ys) \<Longrightarrow> move_down c i ys = (True, xs)"
  by (cases xs) (simp_all add: move_up_from_down split: if_splits)

section \<open>The laws of an element class\<close>

locale ubl_element =
  fixes c :: "'a ubl_class"
  assumes get_set_id: "ubl_get_id c (ubl_set_id c i e) = i"
begin

lemma add_element_new:
  assumes "distinct (ubl_ids c xs)" and "\<And>x. x \<in> set xs \<Longrightarrow> ubl_get_id c x < 4294967295"
    and "ubl_get_id c e = 0" and "add_element c e 0 xs = (i, ys)"
  shows "i \<noteq> 0 \<and> i \<notin> set (ubl_ids c xs) \<and> ys = xs @ [ubl_set_id c i e] \<and> distinct (ubl_ids c ys)"
proof -
  have "i = get_next_id c xs" "ys = xs @ [ubl_set_id c i e]"
    using assms(3,4) by (auto simp: add_element_def insert_element_def Let_def)
  with get_next_id_fresh [OF assms(2)] assms(1) show ?thesis
    by (force simp: get_set_id)
qed

lemma add_element_lookup:
  assumes "i \<notin> set (ubl_ids c xs)"
  shows "find_by_id c j (xs @ [ubl_set_id c i e]) = (if j = i then Some (ubl_set_id c i e) else find_by_id c j xs)"
proof (cases "j = i")
  case True
  with assms show ?thesis by (simp add: find_by_id_append find_by_id_None [THEN iffD2]) (simp add: find_by_id_def get_set_id)
next
  case False
  then show ?thesis by (simp add: find_by_id_append) (simp add: find_by_id_def get_set_id split: option.splits)
qed

end

section \<open>An element class: an identifier with a name\<close>

text \<open>
  \<open>utm/keyvalue.h\<close>: \<open>keyvalue<T>\<close>, the element of \<open>keyvaluelist<T>\<close>; its \<open>operator==\<close>
  compares key and value, its name is the key, and \<open>clear\<close> leaves the identifier. The
  constructor does not initialise \<open>id\<close>: the argument \<open>u\<close> is the value a new element has.
\<close>

record keyvalue =
  kv_id :: u32
  kv_key :: string
  kv_value :: string

definition keyvalue_clear :: "keyvalue \<Rightarrow> keyvalue" where
  "keyvalue_clear e = e\<lparr>kv_key := [], kv_value := []\<rparr>"

definition keyvalue_eq :: "keyvalue \<Rightarrow> keyvalue \<Rightarrow> bool" where
  "keyvalue_eq a b \<longleftrightarrow> kv_key a = kv_key b \<and> kv_value a = kv_value b"

definition keyvalue_class :: "u32 \<Rightarrow> keyvalue ubl_class" where
  "keyvalue_class u = \<lparr>ubl_get_id = kv_id, ubl_set_id = (\<lambda>i e. e\<lparr>kv_id := i\<rparr>), ubl_get_name = kv_key,
     ubl_default = \<lparr>kv_id = u, kv_key = [], kv_value = []\<rparr>, ubl_item_clear = keyvalue_clear,
     ubl_eq = keyvalue_eq, ubl_protected = False\<rparr>"

interpretation keyvalues: ubl_element "keyvalue_class u" for u
  by unfold_locales (simp add: keyvalue_class_def)

section \<open>Properties\<close>

definition ex_kvs :: "keyvalue list" where
  "ex_kvs = [\<lparr>kv_id = 7, kv_key = ''a'', kv_value = ''1''\<rparr>, \<lparr>kv_id = 3, kv_key = ''b'', kv_value = ''2''\<rparr>]"

definition ex_kv_new :: keyvalue where
  "ex_kv_new = \<lparr>kv_id = 0, kv_key = ''c'', kv_value = ''3''\<rparr>"

lemma ex_kvs_ids:
  "ubl_ids (keyvalue_class 0) ex_kvs = [7, 3]" "ubl_get_id (keyvalue_class 0) ex_kv_new = 0"
  by (simp_all add: keyvalue_class_def ex_kvs_def ex_kv_new_def)

lemma ex_kvs_bound: "x \<in> set ex_kvs \<Longrightarrow> ubl_get_id (keyvalue_class 0) x < 4294967295"
  by (auto simp: keyvalue_class_def ex_kvs_def)

text \<open>
  \<open>add_element\<close> hands out fresh identifiers. Adding an element without an identifier to a
  list whose identifiers are distinct and below \<open>UINT_MAX\<close> returns a non-zero identifier
  that no element had, appends the element under it, keeps identifiers distinct and changes
  no other lookup; in a write-protected list the identifier is beyond the protected range.
\<close>

theorem add_element_fresh:
  assumes "ubl_element c" and "distinct (ubl_ids c xs)"
    and "\<And>x. x \<in> set xs \<Longrightarrow> ubl_get_id c x < 4294967295"
    and "ubl_get_id c e = 0" and "add_element c e 0 xs = (i, ys)"
  shows "i \<noteq> 0 \<and> i \<notin> set (ubl_ids c xs) \<and> ys = xs @ [ubl_set_id c i e] \<and> distinct (ubl_ids c ys)
    \<and> (\<forall>j. find_by_id c j ys = (if j = i then Some (ubl_set_id c i e) else find_by_id c j xs))
    \<and> \<not> is_write_protected c i"
proof -
  note new = ubl_element.add_element_new [OF assms(1,2,3,4,5)]
  have "i = get_next_id c xs"
    using assms(4,5) by (auto simp: add_element_def insert_element_def Let_def)
  moreover have "ubl_protected c \<longrightarrow> WRITE_PROTECTED_ELEMENT_MAX_ID < get_next_id c xs"
    using get_next_id_fresh [where c = c and xs = xs, OF assms(3)] by blast
  ultimately have "\<not> is_write_protected c i"
    unfolding is_write_protected_def using less_asym by blast
  with new ubl_element.add_element_lookup [OF assms(1)] show ?thesis by blast
qed

theorem add_element_fresh_witness:
  "\<exists>ys. add_element (keyvalue_class 0) ex_kv_new 0 ex_kvs = (8, ys)
     \<and> find_by_id (keyvalue_class 0) 8 ys = Some (ex_kv_new\<lparr>kv_id := 8\<rparr>)
     \<and> find_by_id (keyvalue_class 0) 3 ys = find_by_id (keyvalue_class 0) 3 ex_kvs"
proof -
  obtain ys where r: "add_element (keyvalue_class 0) ex_kv_new 0 ex_kvs = (8, ys)"
    by (simp add: add_element_def insert_element_def get_next_id_def keyvalue_class_def ex_kvs_def ex_kv_new_def)
  have "distinct (ubl_ids (keyvalue_class 0) ex_kvs)" unfolding ex_kvs_ids by simp
  note res = add_element_fresh [OF keyvalues.ubl_element_axioms this ex_kvs_bound ex_kvs_ids(2) r]
  have "ubl_set_id (keyvalue_class 0) 8 ex_kv_new = ex_kv_new\<lparr>kv_id := 8\<rparr>" by (simp add: keyvalue_class_def)
  then have "find_by_id (keyvalue_class 0) j ys =
      (if j = 8 then Some (ex_kv_new\<lparr>kv_id := 8\<rparr>) else find_by_id (keyvalue_class 0) j ex_kvs)" for j
    using res by metis
  then show ?thesis using r by (intro exI [of _ ys] conjI) simp_all
qed

text \<open>
  on distinct identifiers the list is a map from identifiers to elements. \<open>modify_element\<close>
  and \<open>delete_element\<close> succeed exactly when the identifier is stored and not write-protected;
  then lookup changes at this identifier only, otherwise the list is unchanged; identifiers
  stay distinct.
\<close>

theorem ubaselist_map:
  assumes "distinct (ubl_ids c xs)"
  shows "fst (modify_element c e xs) =
        (ubl_get_id c e \<in> set (ubl_ids c xs) \<and> \<not> is_write_protected c (ubl_get_id c e))
    \<and> find_by_id c j (snd (modify_element c e xs)) =
        (if fst (modify_element c e xs) \<and> j = ubl_get_id c e then Some e else find_by_id c j xs)
    \<and> fst (delete_element c i xs) = (i \<in> set (ubl_ids c xs) \<and> \<not> is_write_protected c i)
    \<and> find_by_id c j (snd (delete_element c i xs)) =
        (if fst (delete_element c i xs) \<and> j = i then None else find_by_id c j xs)
    \<and> distinct (ubl_ids c (snd (modify_element c e xs)))
    \<and> distinct (ubl_ids c (snd (delete_element c i xs)))"
proof (intro conjI)
  show "fst (modify_element c e xs) =
        (ubl_get_id c e \<in> set (ubl_ids c xs) \<and> \<not> is_write_protected c (ubl_get_id c e))"
    by (auto simp: modify_element_def is_write_protected_def list_ex_iff intro: rev_image_eqI)
  show "fst (delete_element c i xs) = (i \<in> set (ubl_ids c xs) \<and> \<not> is_write_protected c i)"
    by (auto simp: delete_element_def is_write_protected_def list_ex_iff intro: rev_image_eqI)
qed (use assms in \<open>simp_all only: modify_element_lookup delete_element_lookup modify_element_ids
   delete_element_ids distinct_remove_first if_cancel split: if_split\<close>, simp)

theorem ubaselist_map_witness:
  "fst (delete_element (keyvalue_class 0) 3 ex_kvs) \<and>
   find_by_id (keyvalue_class 0) 3 (snd (delete_element (keyvalue_class 0) 3 ex_kvs)) = None \<and>
   find_by_id (keyvalue_class 0) 7 (snd (delete_element (keyvalue_class 0) 3 ex_kvs)) = Some (hd ex_kvs)"
proof -
  have d: "distinct (ubl_ids (keyvalue_class 0) ex_kvs)" unfolding ex_kvs_ids by simp
  show ?thesis
    using ubaselist_map [OF d, of _ 3 3] ubaselist_map [OF d, of _ 7 3]
    by (simp add: ex_kvs_ids is_write_protected_def)
      (simp add: ex_kvs_def keyvalue_class_def find_by_id_def)
qed

text \<open>
  reordering loses nothing. \<open>move_up\<close> and \<open>move_down\<close> permute the list, and moving an
  element down after it was moved up restores the list.
\<close>

theorem ubaselist_move:
  "mset (snd (move_up c i xs)) = mset xs \<and> mset (snd (move_down c i xs)) = mset xs
   \<and> (fst (move_up c i xs) \<longrightarrow> move_down c i (snd (move_up c i xs)) = (True, xs))"
proof (intro conjI impI)
  assume "fst (move_up c i xs)"
  then have "move_up c i xs = (True, snd (move_up c i xs))" by (simp add: prod_eq_iff)
  then show "move_down c i (snd (move_up c i xs)) = (True, xs)" by (rule move_up_down)
qed (rule move_up_mset, rule move_down_mset)

theorem ubaselist_move_witness:
  "move_down (keyvalue_class 0) 3 (snd (move_up (keyvalue_class 0) 3 ex_kvs)) = (True, ex_kvs)"
proof -
  have "fst (move_up (keyvalue_class 0) 3 ex_kvs)" by (simp add: ex_kvs_def keyvalue_class_def)
  with ubaselist_move [of "keyvalue_class 0" 3 ex_kvs] show ?thesis by blast
qed

text \<open>
  the identifier \<open>insert_element_before\<close> returns may not be stored. When the position
  exists, the list receives the caller's element and not the copy with the new identifier: an
  element without an identifier stays without one, although an identifier is returned.
\<close>

theorem insert_before_keeps_zero_id:
  assumes "ubl_get_id c e = 0" and "position_id \<in> set (ubl_ids c xs)"
    and "\<And>x. x \<in> set xs \<Longrightarrow> ubl_get_id c x < 4294967295"
    and "insert_element_before c e 0 position_id xs = (i, ys)"
  shows "i \<noteq> 0 \<and> find_by_id c i ys = None \<and> e \<in> set ys"
proof -
  have "\<exists>zs. insert_before_pos c position_id e xs = Some zs \<and> set zs = insert e (set xs)"
    using assms(2) by (induction xs) auto
  then obtain zs where zs: "insert_before_pos c position_id e xs = Some zs" "set zs = insert e (set xs)" by blast
  have i: "i = get_next_id c xs" "ys = zs"
    using assms(1,4) zs(1) by (auto simp: insert_element_before_def insert_element_def Let_def)
  have f: "get_next_id c xs \<noteq> 0" "\<forall>x \<in> set xs. ubl_get_id c x < get_next_id c xs"
    using get_next_id_fresh [where c = c and xs = xs, OF assms(3)] by blast+
  then have "get_next_id c xs \<notin> insert 0 (ubl_get_id c ` set xs)" by auto
  then show ?thesis using f i zs(2) assms(1) by (simp add: find_by_id_None)
qed

theorem insert_before_keeps_zero_id_witness:
  "\<exists>ys. insert_element_before (keyvalue_class 0) ex_kv_new 0 3 ex_kvs = (8, ys)
     \<and> find_by_id (keyvalue_class 0) 8 ys = None \<and> ex_kv_new \<in> set ys"
proof -
  obtain ys where r: "insert_element_before (keyvalue_class 0) ex_kv_new 0 3 ex_kvs = (8, ys)"
    by (simp add: insert_element_before_def insert_element_def get_next_id_def keyvalue_class_def
        ex_kvs_def ex_kv_new_def)
  have "(3 :: u32) \<in> set (ubl_ids (keyvalue_class 0) ex_kvs)" unfolding ex_kvs_ids by simp
  from insert_before_keeps_zero_id [OF ex_kvs_ids(2) this ex_kvs_bound r] r show ?thesis by blast
qed

end
