(* ===== verification/AddrMac.thy ===== *)
theory AddrMac
  imports Prelude
begin

text \<open>
  \<open>utm/uhex.h\<close> (hexadecimal text) and \<open>utm/addrmac.cpp\<close> (hardware addresses). A
  character string is the list of its characters before the terminating zero. \<open>content\<close>
  is the array of six bytes; the exception \<open>parse_nibble\<close> throws and a write past the end
  of the output buffer are the two values of \<open>hex_error\<close>.
\<close>

section \<open>Hexadecimal text\<close>

datatype hex_error = Unable_to_parse | Buffer_overrun

definition nibble_values :: string where "nibble_values = ''0123456789abcdef''"

definition get_first_nibble :: "u8 \<Rightarrow> char" where
  "get_first_nibble b = nibble_values ! unat (drop_bit 4 b)"

definition get_second_nibble :: "u8 \<Rightarrow> char" where
  "get_second_nibble b = nibble_values ! unat (b AND 15)"

definition get_first_nibble16 :: "u16 \<Rightarrow> char" where
  "get_first_nibble16 n = nibble_values ! unat (drop_bit 4 n AND 15)"

definition get_second_nibble16 :: "u16 \<Rightarrow> char" where
  "get_second_nibble16 n = nibble_values ! unat (n AND 15)"

definition get_first_nibble32 :: "u32 \<Rightarrow> char" where
  "get_first_nibble32 a = nibble_values ! unat (drop_bit 4 a AND 15)"

definition get_second_nibble32 :: "u32 \<Rightarrow> char" where
  "get_second_nibble32 a = nibble_values ! unat (a AND 15)"

definition in_chars :: "char \<Rightarrow> char \<Rightarrow> char \<Rightarrow> bool" where
  "in_chars lo hi c \<longleftrightarrow> (of_char lo :: nat) \<le> of_char c \<and> (of_char c :: nat) \<le> of_char hi"

definition char_minus :: "char \<Rightarrow> char \<Rightarrow> nat" where
  "char_minus c d = of_char c - of_char d"

definition parse_nibble :: "char \<Rightarrow> u8 option" where
  "parse_nibble n =
     (if in_chars CHR ''0'' CHR ''9'' n then Some (of_nat (char_minus n CHR ''0''))
      else if in_chars CHR ''a'' CHR ''f'' n then Some (of_nat (char_minus n CHR ''a'' + 10))
      else if in_chars CHR ''A'' CHR ''F'' n then Some (of_nat (char_minus n CHR ''A'' + 10))
      else None)"

definition as_hex32 :: "u32 \<Rightarrow> string" where
  "as_hex32 m =
     [get_first_nibble32 (drop_bit 24 m), get_second_nibble32 (drop_bit 24 m),
      get_first_nibble32 (drop_bit 16 m), get_second_nibble32 (drop_bit 16 m),
      get_first_nibble32 (drop_bit 8 m), get_second_nibble32 (drop_bit 8 m),
      get_first_nibble32 m, get_second_nibble32 m]"

definition as_hex16 :: "u16 \<Rightarrow> string" where
  "as_hex16 m =
     [get_first_nibble16 (drop_bit 8 m), get_second_nibble16 (drop_bit 8 m),
      get_first_nibble16 m, get_second_nibble16 m]"

text \<open>The loop of \<open>parse_hex\<close>: \<open>i\<close> counts characters, two of them fill a byte.\<close>

fun parse_hex_from :: "nat \<Rightarrow> string \<Rightarrow> u8 list \<Rightarrow> hex_error + u8 list" where
  "parse_hex_from i [] buf = Inr buf"
| "parse_hex_from i (c # cs) buf =
     (case parse_nibble c of
        None \<Rightarrow> Inl Unable_to_parse
      | Some v \<Rightarrow>
          if i div 2 < length buf
          then parse_hex_from (i + 1) cs
                 (buf[i div 2 := (if even i then push_bit 4 v else buf ! (i div 2) + v)])
          else Inl Buffer_overrun)"

definition parse_hex :: "string \<Rightarrow> nat \<Rightarrow> u8 list \<Rightarrow> hex_error + u8 list" where
  "parse_hex hex len buf = parse_hex_from 0 (take len hex) buf"

section \<open>Hardware addresses\<close>

definition MAX_ETHER_LENGTH :: nat where [utm_consts]: "MAX_ETHER_LENGTH = 6"

record addrmac =
  mac_content :: "u8 list"

definition mac_wf :: "addrmac \<Rightarrow> bool" where
  "mac_wf m \<longleftrightarrow> length (mac_content m) = MAX_ETHER_LENGTH"

definition mac_clear :: addrmac where
  "mac_clear = \<lparr>mac_content = replicate MAX_ETHER_LENGTH 0\<rparr>"

fun content_less :: "u8 list \<Rightarrow> u8 list \<Rightarrow> bool" where
  "content_less (a # as) (b # bs) =
     (if a < b then True else if b < a then False else content_less as bs)"
| "content_less _ _ = False"

definition mac_less :: "addrmac \<Rightarrow> addrmac \<Rightarrow> bool" where
  "mac_less x y = content_less (mac_content x) (mac_content y)"

definition mac_equal :: "addrmac \<Rightarrow> addrmac \<Rightarrow> bool" where
  "mac_equal x y \<longleftrightarrow> mac_content x = mac_content y"

definition mac_is_zero :: "addrmac \<Rightarrow> bool" where
  "mac_is_zero m \<longleftrightarrow> list_all (\<lambda>b. b = 0) (mac_content m)"

text \<open>\<open>set\<close> copies six bytes from a pointer, \<open>NULL\<close> being \<open>None\<close>.\<close>

definition mac_set :: "u8 list option \<Rightarrow> addrmac option" where
  "mac_set p = (case p of
      None \<Rightarrow> Some mac_clear
    | Some b \<Rightarrow> map_option (\<lambda>bs. \<lparr>mac_content = bs\<rparr>) (mem_read b 0 MAX_ETHER_LENGTH))"

definition byte_hex :: "u8 \<Rightarrow> string" where
  "byte_hex b = [get_first_nibble b, get_second_nibble b]"

fun bytes_hex :: "string \<Rightarrow> u8 list \<Rightarrow> string" where
  "bytes_hex sep [] = []"
| "bytes_hex sep [b] = byte_hex b"
| "bytes_hex sep (b # bs) = byte_hex b @ sep @ bytes_hex sep bs"

definition mac_to_string :: "addrmac \<Rightarrow> string" where
  "mac_to_string m = bytes_hex '':'' (mac_content m)"

definition mac_as_hex :: "addrmac \<Rightarrow> string" where
  "mac_as_hex m = bytes_hex [] (mac_content m)"

definition is_hex_char :: "char \<Rightarrow> bool" where
  "is_hex_char c \<longleftrightarrow> in_chars CHR ''0'' CHR ''9'' c \<or> in_chars CHR ''a'' CHR ''f'' c
     \<or> in_chars CHR ''A'' CHR ''F'' c"

text \<open>The result of \<open>from_string\<close> and the address it leaves behind.\<close>

definition mac_from_string :: "string option \<Rightarrow> hex_error + bool \<times> addrmac" where
  "mac_from_string p =
     (case p of None \<Rightarrow> Inr (False, mac_clear)
      | Some s \<Rightarrow>
          let filteredchars = filter is_hex_char s in
          if length filteredchars \<noteq> MAX_ETHER_LENGTH * 2 then Inr (False, mac_clear)
          else map_sum id (\<lambda>c. (True, \<lparr>mac_content = c\<rparr>))
                 (parse_hex filteredchars (MAX_ETHER_LENGTH * 2) (mac_content mac_clear)))"

section \<open>Reading back what was written\<close>

lemma of_char_inj: "(of_char c :: nat) = of_char d \<longleftrightarrow> c = d"
  by (metis char_of_char)

lemma parse_nibble_hex: "parse_nibble c = None \<longleftrightarrow> \<not> is_hex_char c"
  by (simp add: parse_nibble_def is_hex_char_def)

lemma nibble_round_trip: "n < 16 \<Longrightarrow> parse_nibble (nibble_values ! n) = Some (of_nat n)"
proof -
  have "\<forall>n \<in> {..<16}. parse_nibble (nibble_values ! n) = Some (of_nat n)"
    by (simp add: parse_nibble_def in_chars_def char_minus_def nibble_values_def lessThan_nat_numeral
        lessThan_Suc numeral_eq_Suc)
  then show "n < 16 \<Longrightarrow> ?thesis" by simp
qed

lemma byte_nibbles:
  fixes b :: u8
  shows "unat (drop_bit 4 b) = unat b div 16" "unat (b AND 15) = unat b mod 16"
    "unat b div 16 < 16" "of_nat (unat b div 16) * 16 + of_nat (unat b mod 16) = b"
proof -
  show "unat (drop_bit 4 b) = unat b div 16" by (simp add: drop_bit_eq_div unat_div)
  have "b AND 15 = take_bit 4 b" by (simp add: take_bit_eq_mask mask_eq_exp_minus_1)
  then show "unat (b AND 15) = unat b mod 16" by (simp add: take_bit_eq_mod unat_mod)
  show "unat b div 16 < 16" using unat_u8_bound [of b] by simp
  have "of_nat (unat b div 16) * 16 + of_nat (unat b mod 16) = (of_nat (unat b div 16 * 16 + unat b mod 16) :: u8)"
    by (simp only: of_nat_add of_nat_mult of_nat_numeral)
  then show "of_nat (unat b div 16) * 16 + of_nat (unat b mod 16) = b"
    by (simp only: div_mult_mod_eq of_nat_unat ucast_id)
qed

fun hex_bytes :: "string \<Rightarrow> u8 list" where
  "hex_bytes (a # b # cs) = (the (parse_nibble a) * 16 + the (parse_nibble b)) # hex_bytes cs"
| "hex_bytes _ = []"

lemma hex_bytes_byte_hex: "hex_bytes (byte_hex b @ s) = b # hex_bytes s"
  by (simp add: byte_hex_def get_first_nibble_def get_second_nibble_def byte_nibbles nibble_round_trip)

lemma parse_hex_from_pairs:
  "\<lbrakk>list_all is_hex_char s; length s = 2 * n; k + n \<le> length buf\<rbrakk> \<Longrightarrow>
   parse_hex_from (2 * k) s buf = Inr (take k buf @ hex_bytes s @ drop (k + n) buf)"
proof (induction s arbitrary: k n buf rule: hex_bytes.induct)
  case (1 a b cs)
  obtain va vb where v: "parse_nibble a = Some va" "parse_nibble b = Some vb"
    using 1(2) parse_nibble_hex by fastforce
  obtain m where m: "n = Suc m" "length cs = 2 * m" using 1(3) by (cases n) auto
  have k: "k < length buf" using 1(4) m by simp
  let ?buf = "buf[k := push_bit 4 va + vb]"
  have "parse_hex_from (2 * k) (a # b # cs) buf = parse_hex_from (2 * (k + 1)) cs ?buf"
    using k v by (simp add: list_update_overwrite)
  also have "\<dots> = Inr (take (k + 1) ?buf @ hex_bytes cs @ drop (k + 1 + m) ?buf)"
    using 1(2,4) m by (intro "1.IH") auto
  also have "take (k + 1) ?buf = take k buf @ [va * 16 + vb]"
    using k by (simp add: take_Suc_conv_app_nth push_bit_eq_mult)
  finally show ?case using m v by (simp add: drop_update_cancel)
qed auto

lemma hex_bytes_length: "length (hex_bytes s) = length s div 2"
  by (induction s rule: hex_bytes.induct) auto

lemma hex_char_byte: "list_all is_hex_char (byte_hex b)"
proof -
  have "parse_nibble (get_first_nibble b) \<noteq> None" "parse_nibble (get_second_nibble b) \<noteq> None"
    by (simp_all add: get_first_nibble_def get_second_nibble_def byte_nibbles nibble_round_trip)
  then show ?thesis by (simp add: byte_hex_def parse_nibble_hex)
qed

lemma filter_hex_bytes:
  "list_all (\<lambda>c. \<not> is_hex_char c) sep \<Longrightarrow> filter is_hex_char (bytes_hex sep bs) = concat (map byte_hex bs)"
proof (induction sep bs rule: bytes_hex.induct)
  case (2 sep b)
  then show ?case using hex_char_byte [of b] by (simp add: list_all_iff)
next
  case (3 sep b b' bs)
  have "filter is_hex_char sep = []" using 3(2) by (auto simp: filter_empty_conv list_all_iff)
  then show ?case using 3 hex_char_byte [of b] by (simp add: list_all_iff)
qed simp

lemma hex_bytes_concat: "hex_bytes (concat (map byte_hex bs)) = bs"
  by (induction bs) (simp_all add: hex_bytes_byte_hex)

lemma length_concat_byte_hex: "length (concat (map byte_hex bs)) = 2 * length bs"
  by (induction bs) (simp_all add: byte_hex_def)

lemma parse_hex_mac:
  assumes "list_all is_hex_char s" and "length s = MAX_ETHER_LENGTH * 2"
  shows "parse_hex s (MAX_ETHER_LENGTH * 2) (mac_content mac_clear) = Inr (hex_bytes s)"
  using parse_hex_from_pairs [of s MAX_ETHER_LENGTH 0 "mac_content mac_clear"] assms
  by (simp add: parse_hex_def mac_clear_def)

section \<open>The order of addresses\<close>

lemma content_less_lexordp: "length as = length bs \<Longrightarrow> content_less as bs \<longleftrightarrow> ord.lexordp (<) as bs"
  by (induction as bs rule: list_induct2) (auto simp: ord.lexordp_simps)

lemma content_less_irrefl: "\<not> content_less as as"
  by (induction as) auto

lemma content_less_trans: "content_less as bs \<Longrightarrow> content_less bs cs \<Longrightarrow> content_less as cs"
proof (induction as bs arbitrary: cs rule: content_less.induct)
  case (1 a as b bs)
  then show ?case by (cases cs) (auto split: if_splits)
qed auto

lemma content_less_total: "length as = length bs \<Longrightarrow> content_less as bs \<or> as = bs \<or> content_less bs as"
  by (induction as bs rule: list_induct2) auto

lemma mac_from_bytes_hex:
  assumes "mac_wf m" and "list_all (\<lambda>c. \<not> is_hex_char c) sep"
  shows "mac_from_string (Some (bytes_hex sep (mac_content m))) = Inr (True, m)"
  using assms(1) parse_hex_mac [of "concat (map byte_hex (mac_content m))"] hex_char_byte
  by (simp add: mac_from_string_def filter_hex_bytes [OF assms(2)] length_concat_byte_hex mac_wf_def
      hex_bytes_concat list_all_iff)

lemma mac_from_to_string: "mac_wf m \<Longrightarrow> mac_from_string (Some (mac_to_string m)) = Inr (True, m)"
  unfolding mac_to_string_def by (rule mac_from_bytes_hex) (simp_all add: is_hex_char_def in_chars_def)

section \<open>Properties\<close>

text \<open>
  \<open>addrmac::from_string\<close> accepts exactly the strings that contain twelve hexadecimal
  digits, whatever stands between them, and stores these digits pairwise; every other string
  (and \<open>NULL\<close>) is refused and leaves the zero address. It neither throws nor writes past the
  six bytes.
\<close>

theorem mac_from_string_accepts:
  "mac_from_string p =
     (case p of None \<Rightarrow> Inr (False, mac_clear)
      | Some s \<Rightarrow>
          if length (filter is_hex_char s) = 12
          then Inr (True, \<lparr>mac_content = hex_bytes (filter is_hex_char s)\<rparr>)
          else Inr (False, mac_clear))"
proof (cases p)
  case (Some s)
  have "list_all is_hex_char (filter is_hex_char s)" by (simp add: list_all_iff)
  then show ?thesis
    using Some parse_hex_mac [of "filter is_hex_char s"]
    by (simp add: mac_from_string_def Let_def MAX_ETHER_LENGTH_def)
qed (simp add: mac_from_string_def)

text \<open>
  every printed form of an address is read back as this address: the form with colons, the
  form without separators, and any other separator made of characters that are not
  hexadecimal digits.
\<close>

theorem mac_text_roundtrip:
  assumes "mac_wf m" and "list_all (\<lambda>c. \<not> is_hex_char c) sep"
  shows "mac_from_string (Some (bytes_hex sep (mac_content m))) = Inr (True, m)
    \<and> mac_from_string (Some (mac_to_string m)) = Inr (True, m)
    \<and> mac_from_string (Some (mac_as_hex m)) = Inr (True, m)"
  using mac_from_bytes_hex [OF assms] mac_from_to_string [OF assms(1)] mac_from_bytes_hex [OF assms(1), of "[]"]
  by (simp add: mac_as_hex_def)

definition ex_mac :: addrmac where
  "ex_mac = \<lparr>mac_content = [0x81, 0x92, 0xA3, 0xB4, 0xC5, 0xE6]\<rparr>"

theorem mac_text_roundtrip_witness:
  "mac_from_string (Some ''81-92-a3-b4-c5-e6'') = Inr (True, ex_mac)"
proof -
  have "bytes_hex ''-'' (mac_content ex_mac) = ''81-92-a3-b4-c5-e6''"
    by code_simp
  moreover have "mac_wf ex_mac" by (simp add: mac_wf_def ex_mac_def MAX_ETHER_LENGTH_def)
  moreover have "list_all (\<lambda>c. \<not> is_hex_char c) ''-''" by (simp add: is_hex_char_def in_chars_def)
  ultimately show ?thesis using mac_text_roundtrip [of ex_mac "''-''"] by simp
qed

text \<open>
  \<open>operator <\<close> of \<open>addrmac\<close>, the key order of the program's address maps, is a strict
  total order on addresses, the lexicographic one, and agrees with \<open>operator ==\<close>.
\<close>

theorem mac_less_strict_total_order:
  assumes "mac_wf x" and "mac_wf y" and "mac_wf z"
  shows "\<not> mac_less x x \<and> (mac_less x y \<and> mac_less y z \<longrightarrow> mac_less x z)
    \<and> (mac_less x y \<or> mac_equal x y \<or> mac_less y x)
    \<and> mac_less x y = ord.lexordp (<) (mac_content x) (mac_content y)"
proof -
  have l: "length (mac_content x) = length (mac_content y)" using assms by (simp add: mac_wf_def)
  show ?thesis
    unfolding mac_less_def mac_equal_def content_less_lexordp [OF l, symmetric]
    using content_less_total [OF l] content_less_irrefl content_less_trans by blast
qed

theorem mac_less_strict_total_order_witness:
  "mac_less mac_clear ex_mac \<and> \<not> mac_less ex_mac ex_mac"
proof -
  have "mac_wf ex_mac" "mac_wf mac_clear"
    by (simp_all add: mac_wf_def ex_mac_def mac_clear_def MAX_ETHER_LENGTH_def)
  moreover have "\<not> mac_less ex_mac mac_clear" "\<not> mac_equal ex_mac mac_clear"
    by code_simp+
  ultimately show ?thesis
    using mac_less_strict_total_order [of mac_clear ex_mac ex_mac]
      mac_less_strict_total_order [of ex_mac ex_mac ex_mac]
    by (auto simp: mac_equal_def)
qed

end
