(* ===== verification/AddrIp.thy ===== *)
theory AddrIp
  imports AddrMac
begin

text \<open>
  \<open>utm/addrip_v4.h\<close>, \<open>utm/addrip_v4.cpp\<close> and \<open>utm/addrpair.h\<close>: IPv4 addresses as one
  32-bit word, their text form, network masks and pairs of addresses. The two loops that look
  for the lowest set bit of a mask do not end for the mask 0, so they are partial functions
  whose value \<open>None\<close> is not returning.
\<close>

datatype addrip_v4 = Addrip_v4 (m_addr: u32)

definition addrip_less :: "addrip_v4 \<Rightarrow> addrip_v4 \<Rightarrow> bool" where
  "addrip_less a b \<longleftrightarrow> m_addr a < m_addr b"

definition addrip_less_eq :: "addrip_v4 \<Rightarrow> addrip_v4 \<Rightarrow> bool" where
  "addrip_less_eq a b \<longleftrightarrow> m_addr a \<le> m_addr b"

instantiation addrip_v4 :: linorder
begin

definition less_addrip_v4 :: "addrip_v4 \<Rightarrow> addrip_v4 \<Rightarrow> bool" where "less_addrip_v4 = addrip_less"

definition less_eq_addrip_v4 :: "addrip_v4 \<Rightarrow> addrip_v4 \<Rightarrow> bool" where "less_eq_addrip_v4 = addrip_less_eq"

instance
  by intro_classes
    (auto simp: less_addrip_v4_def less_eq_addrip_v4_def addrip_less_def addrip_less_eq_def addrip_v4.expand)

end

lemma addrip_less_iff: "a < b \<longleftrightarrow> m_addr a < m_addr b" for a b :: addrip_v4
  by (simp add: less_addrip_v4_def addrip_less_def)

lemma addrip_le_iff: "a \<le> b \<longleftrightarrow> m_addr a \<le> m_addr b" for a b :: addrip_v4
  by (simp add: less_eq_addrip_v4_def addrip_less_eq_def)

definition ip_AND :: "addrip_v4 \<Rightarrow> addrip_v4 \<Rightarrow> addrip_v4" where
  "ip_AND lhs rhs = Addrip_v4 (m_addr lhs AND m_addr rhs)"

definition ip_set :: "u8 list \<Rightarrow> addrip_v4 option" where
  "ip_set buffer = map_option (\<lambda>b.
     Addrip_v4 (push_bit 24 (ucast (b ! 0)) + push_bit 16 (ucast (b ! 1))
       + push_bit 8 (ucast (b ! 2)) + ucast (b ! 3))) (mem_read buffer 0 4)"

definition ip_is_default :: "addrip_v4 \<Rightarrow> bool" where
  "ip_is_default a \<longleftrightarrow> m_addr a = 0"

definition get_octet1 :: "addrip_v4 \<Rightarrow> u32" where "get_octet1 a = drop_bit 24 (m_addr a) AND 0xFF"
definition get_octet2 :: "addrip_v4 \<Rightarrow> u32" where "get_octet2 a = drop_bit 16 (m_addr a) AND 0xFF"
definition get_octet3 :: "addrip_v4 \<Rightarrow> u32" where "get_octet3 a = drop_bit 8 (m_addr a) AND 0xFF"
definition get_octet4 :: "addrip_v4 \<Rightarrow> u32" where "get_octet4 a = m_addr a AND 0xFF"

definition revert_octets :: "addrip_v4 \<Rightarrow> addrip_v4" where
  "revert_octets a = Addrip_v4 (push_bit 24 (get_octet4 a) + push_bit 16 (get_octet3 a)
     + push_bit 8 (get_octet2 a) + get_octet1 a)"

section \<open>Text\<close>

definition to_strbuffer :: "u32 \<Rightarrow> string" where
  "to_strbuffer w = print_u (unat (drop_bit 24 w AND 0xFF)) @ ''.''
     @ print_u (unat (drop_bit 16 w AND 0xFF)) @ ''.''
     @ print_u (unat (drop_bit 8 w AND 0xFF)) @ ''.'' @ print_u (unat (w AND 0xFF))"

definition ip_to_string :: "addrip_v4 \<Rightarrow> string" where
  "ip_to_string a = to_strbuffer (m_addr a)"

definition ip_as_hex :: "addrip_v4 \<Rightarrow> string" where
  "ip_as_hex a = as_hex32 (m_addr a)"

definition octet_value :: "string \<Rightarrow> u32" where
  "octet_value octet = (let v = of_nat (atoi octet 0) in if v > 255 then 255 else v)"

text \<open>
  The scanning loop. \<open>octet\<close> holds the digits stored so far, so that its length is
  \<open>octet_symbols\<close>; \<open>k\<close> is \<open>octet_counter\<close>, \<open>a\<close> the array. The result is the loop state
  and the text \<open>str\<close> still points at.
\<close>

fun scan_octets :: "string \<Rightarrow> nat \<Rightarrow> u32 list \<Rightarrow> string \<Rightarrow> string \<times> nat \<times> u32 list \<times> string" where
  "scan_octets octet k a [] = (octet, k, a, [])"
| "scan_octets octet k a (ch # str) =
     (if \<not> is_digit ch \<and> ch \<noteq> CHR ''.'' then (octet, k, a, str)
      else if ch = CHR ''.''
        then (if k < 4 then scan_octets [] (k + 1) (a[k := octet_value octet]) str
              else scan_octets octet k a str)
        else (if length octet < 3 then scan_octets (octet @ [ch]) k a str
              else scan_octets octet k a str))"

definition ip_from_string :: "string option \<Rightarrow> bool \<Rightarrow> bool \<times> addrip_v4" where
  "ip_from_string p check = (case p of
      None \<Rightarrow> (True, Addrip_v4 0)
    | Some s \<Rightarrow>
        let (octet, k, a, str) = scan_octets [] 0 [0, 0, 0, 0] s;
            a' = (if k < 4 \<and> octet \<noteq> [] then a[k := octet_value octet] else a);
            r = Addrip_v4 (push_bit 24 (a' ! 0) + push_bit 16 (a' ! 1) + push_bit 8 (a' ! 2) + a' ! 3)
        in (if check then str = ip_to_string r else True, r))"

section \<open>Masks\<close>

partial_function (option) ipmask_loop :: "u32 \<Rightarrow> u32 \<Rightarrow> u32 \<Rightarrow> (u32 \<times> u32) option" where
  [code]: "ipmask_loop m bitmask netmask =
     (if m AND bitmask = 0
      then ipmask_loop m (push_bit 1 bitmask) (push_bit 1 netmask AND 0xFFFFFFFE)
      else Some (bitmask, netmask))"

definition convert_ipmask_to_range :: "addrip_v4 \<Rightarrow> addrip_v4 \<Rightarrow> (addrip_v4 \<times> addrip_v4) option" where
  "convert_ipmask_to_range ip msk =
     map_option (\<lambda>(bitmask, netmask).
        let startip = m_addr ip AND netmask
        in (Addrip_v4 startip, Addrip_v4 (startip + bitmask - 1)))
       (ipmask_loop (m_addr msk) 1 0xFFFFFFFF)"

partial_function (option) is_netmask_loop :: "u32 \<Rightarrow> u32 \<Rightarrow> u32 option" where
  [code]: "is_netmask_loop a bitmask =
     (if a AND bitmask = 0 then is_netmask_loop a (push_bit 1 bitmask) else Some bitmask)"

definition is_netmask :: "addrip_v4 \<Rightarrow> bool option" where
  "is_netmask a = map_option (\<lambda>bitmask. m_addr a + bitmask = 0) (is_netmask_loop (m_addr a) 1)"

section \<open>Pairs\<close>

text \<open>
  \<open>addrpair<T>\<close>; \<open>delim\<close> is the character between the two printed addresses. The element
  class \<open>T\<close> is \<open>addrip_v4\<close>, as in every use of the template.
\<close>

record addrpair =
  ap_delim :: char
  ap_addr1 :: addrip_v4
  ap_addr2 :: addrip_v4

definition ADDRPAIR_DELIM_HYPEN :: char where [utm_consts]: "ADDRPAIR_DELIM_HYPEN = CHR ''-''"
definition ADDRPAIR_DELIM_COMMA :: char where [utm_consts]: "ADDRPAIR_DELIM_COMMA = CHR '',''"

definition addrpair_eq :: "addrpair \<Rightarrow> addrpair \<Rightarrow> bool" where
  "addrpair_eq p r =
     (if ip_is_default (ap_addr1 p) \<and> ip_is_default (ap_addr2 r) then ap_addr2 p = ap_addr1 r
      else if ip_is_default (ap_addr2 p) \<and> ip_is_default (ap_addr1 r) then ap_addr1 p = ap_addr2 r
      else if ap_addr1 p \<noteq> ap_addr1 r then False
      else if ap_addr2 p \<noteq> ap_addr2 r then False else True)"

definition addrpair_is_default :: "addrpair \<Rightarrow> bool" where
  "addrpair_is_default p \<longleftrightarrow> ip_is_default (ap_addr1 p) \<and> ip_is_default (ap_addr2 p)"

definition addrpair_set_delimiter :: "char \<Rightarrow> addrpair \<Rightarrow> addrpair" where
  "addrpair_set_delimiter c p = p\<lparr>ap_delim := c\<rparr>"

definition addrpair_clear :: "addrpair \<Rightarrow> addrpair" where
  "addrpair_clear p = p\<lparr>ap_addr1 := Addrip_v4 0, ap_addr2 := Addrip_v4 0\<rparr>"

text \<open>The argument \<open>c\<close> of \<open>to_string\<close> and \<open>from_string\<close>; \<open>None\<close> is the default \<open>0\<close>.\<close>

definition addrpair_to_string :: "char option \<Rightarrow> bool \<Rightarrow> addrpair \<Rightarrow> string" where
  "addrpair_to_string c exclude_default p =
     (let use_addr1 = (\<not> exclude_default \<or> \<not> ip_is_default (ap_addr1 p));
          use_addr2 = (\<not> exclude_default \<or> \<not> ip_is_default (ap_addr2 p))
      in (if use_addr1 then ip_to_string (ap_addr1 p) else [])
         @ (if use_addr1 \<and> use_addr2 then [case c of None \<Rightarrow> ap_delim p | Some d \<Rightarrow> d] else [])
         @ (if use_addr2 then ip_to_string (ap_addr2 p) else []))"

definition addrpair_from_string :: "string \<Rightarrow> char option \<Rightarrow> bool \<Rightarrow> addrpair \<Rightarrow> addrpair" where
  "addrpair_from_string s c allow_empty_second p =
     (let mydelim = (case c of None \<Rightarrow> ap_delim p | Some d \<Rightarrow> d);
          p0 = addrpair_clear p;
          str = takeWhile (\<lambda>x. x \<noteq> mydelim) s;
          rest = dropWhile (\<lambda>x. x \<noteq> mydelim) s
      in if rest \<noteq> []
         then p0\<lparr>ap_addr1 := snd (ip_from_string (Some str) False),
                 ap_addr2 := snd (ip_from_string (Some (dropWhile (\<lambda>x. x = mydelim) rest)) False)\<rparr>
         else if allow_empty_second then p0\<lparr>ap_addr1 := snd (ip_from_string (Some s) False)\<rparr>
         else p0)"

section \<open>Octets of a word\<close>

lemma and_255: "(w :: u32) AND 0xFF = take_bit 8 w"
  by (simp add: take_bit_eq_mask mask_eq_exp_minus_1)

lemma octets_ident:
  fixes w :: u32
  shows "push_bit 24 (drop_bit 24 w AND 0xFF) + push_bit 16 (drop_bit 16 w AND 0xFF)
     + push_bit 8 (drop_bit 8 w AND 0xFF) + (w AND 0xFF) = w"
proof -
  have t: "take_bit (n + 8) w = push_bit n (take_bit 8 (drop_bit n w)) + take_bit n w" for n
    by (subst disjunctive_add)
      (auto simp: bit_eq_iff bit_take_bit_iff bit_push_bit_iff bit_drop_bit_eq bit_or_iff)
  have "w = take_bit (24 + 8) w" by (simp add: take_bit_word_eq_self)
  also have "\<dots> = push_bit 24 (take_bit 8 (drop_bit 24 w)) + (push_bit 16 (take_bit 8 (drop_bit 16 w))
       + (push_bit 8 (take_bit 8 (drop_bit 8 w)) + take_bit 8 w))"
    using t [of 24] t [of 16] t [of 8] by simp
  finally show ?thesis by (simp add: and_255 add.assoc)
qed

lemma octet_bounds: "unat ((w :: u32) AND 0xFF) < 256"
  using take_bit_nat_less_exp [of 8 "unat w"] by (simp only: and_255 unsigned_take_bit_eq) simp

section \<open>The text form\<close>

lemma scan_digits:
  "\<lbrakk>list_all is_digit ds; length (oct @ ds) \<le> 3\<rbrakk> \<Longrightarrow>
   scan_octets oct k a (ds @ s) = scan_octets (oct @ ds) k a s"
proof (induction ds arbitrary: oct)
  case (Cons d ds)
  have "d \<noteq> CHR ''.''" using Cons.prems(1) by (auto simp: is_digit_def)
  with Cons show ?case by simp
qed simp

lemma scan_number:
  assumes "n < 256"
  shows "scan_octets [] k a (print_u n @ s) = scan_octets (print_u n) k a s"
    "scan_octets [] k a (print_u n) = (print_u n, k, a, [])"
    "octet_value (print_u n) = of_nat n"
proof -
  have "length (print_u n) \<le> 3" using print_u_length [of n 2] assms by simp
  then have r: "scan_octets [] k a (print_u n @ s) = scan_octets (print_u n) k a s" for s
    using scan_digits [of "print_u n" "[]" k a s] by (simp add: print_u_digits)
  show "scan_octets [] k a (print_u n @ s) = scan_octets (print_u n) k a s" by (rule r)
  show "scan_octets [] k a (print_u n) = (print_u n, k, a, [])" using r [of "[]"] by simp
  show "octet_value (print_u n) = of_nat n"
    using assms by (simp add: octet_value_def atoi_print_u Let_def word_less_nat_alt unat_of_nat)
qed

lemma scan_dot: "k < 4 \<Longrightarrow> scan_octets oct k a (CHR ''.'' # s) = scan_octets [] (k + 1) (a[k := octet_value oct]) s"
  by (simp add: is_digit_def)

lemma scan_to_string:
  "scan_octets [] 0 [0, 0, 0, 0] (to_strbuffer w) =
     (print_u (unat (w AND 0xFF)), 3,
      [drop_bit 24 w AND 0xFF, drop_bit 16 w AND 0xFF, drop_bit 8 w AND 0xFF, 0], [])"
  unfolding to_strbuffer_def
  by (simp add: scan_number octet_bounds scan_dot del: scan_octets.simps(2))

lemma ip_from_to_string:
  "ip_from_string (Some (ip_to_string a)) check = (check \<longrightarrow> ip_to_string a = [], a)"
proof -
  have "ip_from_string (Some (ip_to_string a)) check =
      (if check then [] = ip_to_string a else True, a)"
    using octets_ident [of "m_addr a"]
    by (simp add: ip_from_string_def ip_to_string_def scan_to_string print_u_not_Nil
        scan_number octet_bounds Let_def)
  then show ?thesis by auto
qed

lemma ip_to_string_not_Nil: "ip_to_string a \<noteq> []"
  by (simp add: ip_to_string_def to_strbuffer_def)

lemma ip_text_false: "ip_from_string (Some (ip_to_string a)) True = (False, a)"
  by (simp add: ip_from_to_string ip_to_string_not_Nil)

section \<open>The lowest set bit\<close>

lemma ipmask_loop_finds:
  fixes m :: u32
  assumes "j \<le> k" and "k < 32" and "bit m k" and "\<forall>i < k. \<not> bit m i"
  shows "ipmask_loop m (2 ^ j) (push_bit j (-1)) = Some (2 ^ k, push_bit k (-1))"
  using assms(1)
proof (induction rule: inc_induct)
  case base
  show ?case using assms by (subst ipmask_loop.simps) (simp add: and_exp_eq_0_iff_not_bit)
next
  case (step n)
  have z: "m AND 2 ^ n = 0" using step assms by (simp add: and_exp_eq_0_iff_not_bit)
  have n: "push_bit 1 (push_bit n (-1)) AND 0xFFFFFFFE = (push_bit (Suc n) (-1) :: u32)"
  proof -
    have e: "(0xFFFFFFFE :: u32) = NOT 1" by simp
    show ?thesis unfolding e push_bit_push_bit
      by (rule bit_word_eqI) (auto simp only: bit_and_iff bit_push_bit_iff bit_not_iff bit_1_iff plus_1_eq_Suc)
  qed
  have b: "push_bit 1 (2 ^ n) = (2 ^ Suc n :: u32)" by (simp add: push_bit_eq_mult)
  show ?case using step.IH
    by (subst ipmask_loop.simps) (simp only: z n b if_True simp_thms)
qed

lemma ipmask_loop_start:
  fixes m :: u32
  assumes "k < 32" and "bit m k" and "\<forall>i < k. \<not> bit m i"
  shows "ipmask_loop m 1 0xFFFFFFFF = Some (2 ^ k, push_bit k (-1))"
proof -
  have e: "(0xFFFFFFFF :: u32) = -1" by simp
  show ?thesis unfolding e using ipmask_loop_finds [of 0 k m] assms by simp
qed

lemma is_netmask_loop_finds:
  fixes m :: u32
  assumes "j \<le> k" and "k < 32" and "bit m k" and "\<forall>i < k. \<not> bit m i"
  shows "is_netmask_loop m (2 ^ j) = Some (2 ^ k)"
  using assms(1)
proof (induction rule: inc_induct)
  case base
  show ?case using assms by (subst is_netmask_loop.simps) (simp add: and_exp_eq_0_iff_not_bit)
next
  case (step n)
  then show ?case using assms
    by (subst is_netmask_loop.simps) (simp add: and_exp_eq_0_iff_not_bit push_bit_eq_mult mult.commute)
qed

lemma lowest_bit:
  fixes m :: u32
  assumes "m \<noteq> 0"
  obtains k where "k < 32" "bit m k" "\<forall>i < k. \<not> bit m i"
proof -
  obtain n where "bit m n" using assms by (auto simp: bit_eq_iff)
  then have "bit m (LEAST n. bit m n)" by (rule LeastI)
  moreover have "\<forall>i < (LEAST n. bit m n). \<not> bit m i" using not_less_Least by blast
  moreover have "(LEAST n. bit m n) < 32" using calculation(1) by (auto dest: bit_imp_le_length)
  ultimately show thesis using that by blast
qed

lemma ipmask_loop_zero: "ipmask_loop 0 b n = None"
proof -
  have "ipmask_loop m b n = Some y \<Longrightarrow> m \<noteq> 0" for m y
    by (erule ipmask_loop.raw_induct [where P = "\<lambda>m _ _ _. m \<noteq> 0", rotated]) (auto split: if_splits)
  then show ?thesis by (metis not_None_eq)
qed

lemma is_netmask_loop_zero: "is_netmask_loop 0 b = None"
proof -
  have "is_netmask_loop m b = Some y \<Longrightarrow> m \<noteq> 0" for m y
    by (erule is_netmask_loop.raw_induct [where P = "\<lambda>m _ _. m \<noteq> 0", rotated]) (auto split: if_splits)
  then show ?thesis by (metis not_None_eq)
qed

lemma is_netmask_iff:
  "is_netmask a = Some True \<longleftrightarrow> (\<exists>k < 32. m_addr a = push_bit k (-1))"
proof (cases "m_addr a = 0")
  case True
  have "push_bit k (-1) \<noteq> (0 :: u32)" if "k < 32" for k
    using that by (auto simp: bit_eq_iff bit_simps)
  then show ?thesis using True by (auto simp: is_netmask_def is_netmask_loop_zero)
next
  case False
  then obtain k where k: "k < 32" "bit (m_addr a) k" "\<forall>i < k. \<not> bit (m_addr a) i" by (rule lowest_bit)
  have r: "is_netmask_loop (m_addr a) 1 = Some (2 ^ k)"
    using is_netmask_loop_finds [of 0 k "m_addr a"] k by simp
  have p: "m_addr a = push_bit j (-1) \<longleftrightarrow> m_addr a + 2 ^ j = 0" for j
    by (simp only: push_bit_eq_mult mult_minus1 eq_neg_iff_add_eq_0)
  have "j = k" if j: "m_addr a = push_bit j (-1)" "j < 32" for j
  proof -
    have b: "bit (m_addr a) i \<longleftrightarrow> j \<le> i" if "i < 32" for i
      using that by (auto simp add: j(1) bit_simps)
    with k j(2) show "j = k" by (meson le_neq_implies_less linorder_neqE_nat not_le order_refl)
  qed
  moreover have "is_netmask a = Some (m_addr a + 2 ^ k = 0)" by (simp add: is_netmask_def r)
  ultimately show ?thesis using k(1) p [of k] by auto
qed

lemma mask_block:
  fixes ip x :: u32
  assumes "k < 32"
  shows "unat (ip AND push_bit k (-1)) = unat ip div 2 ^ k * 2 ^ k"
    and "unat ((ip AND push_bit k (-1)) + 2 ^ k - 1) = unat ip div 2 ^ k * 2 ^ k + (2 ^ k - 1)"
proof -
  have "2 ^ k < (2 :: nat) ^ 32" using assms by (rule power_strict_increasing) simp
  then have p: "unat (2 ^ k :: u32) = 2 ^ k" using unat_of_nat [of "2 ^ k", where 'a = 32] by simp
  have e: "ip AND push_bit k (-1) = push_bit k (drop_bit k ip)"
    by (rule bit_word_eqI) (auto simp: bit_simps)
  have le: "unat ip div 2 ^ k * 2 ^ k \<le> unat ip" by simp
  have dr: "unat (drop_bit k ip) = unat ip div 2 ^ k"
    unfolding unat_drop_bit_eq by (simp only: drop_bit_eq_div)
  show u: "unat (ip AND push_bit k (-1)) = unat ip div 2 ^ k * 2 ^ k"
    unfolding e unfolding push_bit_eq_mult
    using order.strict_trans1 [OF le unat_u32_bound [of ip]]
    by (subst unat_mult_no_overflow) (unfold p dr, simp_all)
  obtain d where d: "(2::nat) ^ 32 = d * 2 ^ k"
    using assms le_imp_power_dvd [of k 32 "2::nat"] by (auto simp: dvd_def mult.commute)
  have "unat ip div 2 ^ k < d"
    by (rule less_mult_imp_div_less) (use unat_u32_bound [of ip] in \<open>unfold d\<close>)
  then have "(unat ip div 2 ^ k + 1) * 2 ^ k \<le> 2 ^ 32" unfolding d by (intro mult_right_mono) auto
  then have b: "unat ip div 2 ^ k * 2 ^ k + 2 ^ k \<le> 2 ^ 32" by simp
  have o: "unat (2 ^ k - 1 :: u32) = 2 ^ k - 1"
    using p by (subst unat_sub) (simp_all add: word_le_nat_alt)
  have "(ip AND push_bit k (-1)) + 2 ^ k - 1 = (ip AND push_bit k (-1)) + (2 ^ k - 1)"
    by (simp add: algebra_simps)
  also have "unat \<dots> = unat (ip AND push_bit k (-1)) + unat (2 ^ k - 1 :: u32)"
    by (rule unat_add_no_overflow) (unfold u o, use b in simp)
  finally show "unat ((ip AND push_bit k (-1)) + 2 ^ k - 1) = unat ip div 2 ^ k * 2 ^ k + (2 ^ k - 1)"
    unfolding u o .
qed

lemma div_block: "a div d * d \<le> x \<and> x \<le> a div d * d + (d - 1) \<longleftrightarrow> x div d = a div d"
  if "0 < d" for a d x :: nat
proof
  assume l: "a div d * d \<le> x \<and> x \<le> a div d * d + (d - 1)"
  define j where "j = x - a div d * d"
  have j: "x = a div d * d + j" "j < d" using l that by (auto simp: j_def)
  then show "x div d = a div d" using that by simp
next
  assume "x div d = a div d"
  then have "x = a div d * d + x mod d" using div_mult_mod_eq [of x d] by simp
  moreover have "x mod d \<le> d - 1" using that mod_less_divisor [of d x] by linarith
  ultimately show "a div d * d \<le> x \<and> x \<le> a div d * d + (d - 1)" by linarith
qed

section \<open>Properties\<close>

text \<open>
  printing an address and reading it back gives the address, but with the argument
  \<open>check\<close> the result of \<open>from_string\<close> is false for every printed address: the text is
  compared through the pointer the scan has already advanced to its end.
\<close>

theorem ip_text_roundtrip:
  "ip_from_string (Some (ip_to_string a)) False = (True, a)
   \<and> ip_from_string (Some (ip_to_string a)) True = (False, a)"
  by (simp add: ip_from_to_string ip_to_string_not_Nil)

text \<open>
  for a network mask (ones followed by zeros) \<open>convert_ipmask_to_range\<close> returns the
  first and the last address of the network of \<open>ip\<close>: exactly the addresses that agree with
  \<open>ip\<close> under the mask lie between them.
\<close>

theorem ipmask_range:
  assumes "is_netmask msk = Some True"
  shows "\<exists>s e. convert_ipmask_to_range ip msk = Some (s, e)
    \<and> (\<forall>x. s \<le> x \<and> x \<le> e \<longleftrightarrow> ip_AND x msk = ip_AND ip msk)"
proof -
  obtain k where k: "k < 32" "m_addr msk = push_bit k (-1)" using assms is_netmask_iff by blast
  let ?s = "m_addr ip AND push_bit k (-1)"
  have "bit (m_addr msk) k" "\<forall>i < k. \<not> bit (m_addr msk) i"
    using k by (auto simp: bit_simps)
  then have "ipmask_loop (m_addr msk) 1 0xFFFFFFFF = Some (2 ^ k, push_bit k (-1))"
    using ipmask_loop_start k(1) by blast
  then have r: "convert_ipmask_to_range ip msk = Some (Addrip_v4 ?s, Addrip_v4 (?s + 2 ^ k - 1))"
    by (simp add: convert_ipmask_to_range_def Let_def)
  have "Addrip_v4 ?s \<le> x \<and> x \<le> Addrip_v4 (?s + 2 ^ k - 1) \<longleftrightarrow> ip_AND x msk = ip_AND ip msk" for x
  proof -
    have "Addrip_v4 ?s \<le> x \<and> x \<le> Addrip_v4 (?s + 2 ^ k - 1) \<longleftrightarrow>
        unat (m_addr ip) div 2 ^ k * 2 ^ k \<le> unat (m_addr x)
        \<and> unat (m_addr x) \<le> unat (m_addr ip) div 2 ^ k * 2 ^ k + (2 ^ k - 1)"
      by (simp only: addrip_le_iff addrip_v4.sel word_le_nat_alt mask_block [OF k(1)])
    also have "\<dots> \<longleftrightarrow> unat (m_addr x) div 2 ^ k = unat (m_addr ip) div 2 ^ k"
      by (rule div_block) simp
    also have "\<dots> \<longleftrightarrow> unat (m_addr x AND push_bit k (-1)) = unat ?s"
      by (simp only: mask_block [OF k(1)]) simp
    also have "\<dots> \<longleftrightarrow> ip_AND x msk = ip_AND ip msk"
      by (simp only: word_unat_eq_iff [symmetric] ip_AND_def k(2) addrip_v4.inject)
    finally show ?thesis .
  qed
  with r show ?thesis by blast
qed

theorem ipmask_range_witness:
  "\<exists>s e. convert_ipmask_to_range (Addrip_v4 0xC0A80102) (Addrip_v4 0xFFFFFF00) = Some (s, e)
     \<and> (s \<le> Addrip_v4 0xC0A801FE \<and> Addrip_v4 0xC0A801FE \<le> e)"
proof -
  have "is_netmask (Addrip_v4 0xFFFFFF00) = Some True"
    unfolding is_netmask_iff by (rule exI [of _ 8]) (simp add: mask_eq_exp_minus_1)
  from ipmask_range [OF this, of "Addrip_v4 0xC0A80102"] show ?thesis by (auto simp: ip_AND_def)
qed

text \<open>
  both mask loops return for every mask but 0, and do not return for the mask 0.
\<close>

theorem mask_loops_terminate:
  "(convert_ipmask_to_range ip msk = None) = (m_addr msk = 0) \<and> (is_netmask msk = None) = (m_addr msk = 0)"
proof (cases "m_addr msk = 0")
  case True
  then show ?thesis
    by (simp add: convert_ipmask_to_range_def is_netmask_def ipmask_loop_zero is_netmask_loop_zero)
next
  case False
  then obtain k where k: "k < 32" "bit (m_addr msk) k" "\<forall>i < k. \<not> bit (m_addr msk) i" by (rule lowest_bit)
  from ipmask_loop_start [OF k] is_netmask_loop_finds [of 0, OF _ k] False
  show ?thesis by (simp add: convert_ipmask_to_range_def is_netmask_def)
qed

end
