(* ===== verification/StdMap.thy ===== *)
theory StdMap
  imports Prelude
begin

text \<open>
  \<open>std::map<K, V>\<close>: the pairs in the order of their keys, which is the order iterators walk.
  \<open>insert\<close> keeps a value that is already there, \<open>operator[] =\<close> replaces it. A position is the
  suffix of pairs from the iterator on, \<open>end()\<close> being the empty list. What the maps of the
  program rely on is the locale \<open>dictionary\<close>.
\<close>

type_synonym ('k, 'v) std_map = "('k \<times> 'v) list"

definition sm_wf :: "('k::linorder, 'v) std_map \<Rightarrow> bool" where
  "sm_wf m \<longleftrightarrow> sorted_wrt (<) (map fst m)"

definition sm_find :: "'k \<Rightarrow> ('k, 'v) std_map \<Rightarrow> 'v option" where
  "sm_find k m = map_of m k"

fun sm_insert :: "'k::linorder \<Rightarrow> 'v \<Rightarrow> ('k, 'v) std_map \<Rightarrow> ('k, 'v) std_map" where
  "sm_insert k v [] = [(k, v)]"
| "sm_insert k v ((a, b) # m) =
     (if k < a then (k, v) # (a, b) # m else if k = a then (a, b) # m else (a, b) # sm_insert k v m)"

fun sm_set :: "'k::linorder \<Rightarrow> 'v \<Rightarrow> ('k, 'v) std_map \<Rightarrow> ('k, 'v) std_map" where
  "sm_set k v [] = [(k, v)]"
| "sm_set k v ((a, b) # m) =
     (if k < a then (k, v) # (a, b) # m else if k = a then (a, v) # m else (a, b) # sm_set k v m)"

definition sm_erase :: "'k \<Rightarrow> ('k, 'v) std_map \<Rightarrow> ('k, 'v) std_map" where
  "sm_erase k m = filter (\<lambda>p. fst p \<noteq> k) m"

definition sm_lower_bound :: "'k::linorder \<Rightarrow> ('k, 'v) std_map \<Rightarrow> ('k, 'v) std_map" where
  "sm_lower_bound k m = dropWhile (\<lambda>p. fst p < k) m"

definition sm_before :: "'k::linorder \<Rightarrow> ('k, 'v) std_map \<Rightarrow> ('k, 'v) std_map" where
  "sm_before k m = takeWhile (\<lambda>p. fst p < k) m"

section \<open>Dictionaries\<close>

locale dictionary =
  fixes inv :: "'m \<Rightarrow> bool" and lookup :: "'k \<Rightarrow> 'm \<Rightarrow> 'v option"
    and update :: "'k \<Rightarrow> 'v \<Rightarrow> 'm \<Rightarrow> 'm" and erase :: "'k \<Rightarrow> 'm \<Rightarrow> 'm"
  assumes inv_update: "inv m \<Longrightarrow> inv (update k v m)"
    and inv_erase: "inv m \<Longrightarrow> inv (erase k m)"
    and lookup_update: "inv m \<Longrightarrow> lookup j (update k v m) = (if j = k then Some v else lookup j m)"
    and lookup_erase: "inv m \<Longrightarrow> lookup j (erase k m) = (if j = k then None else lookup j m)"
begin

lemma inv_updates: "inv m \<Longrightarrow> inv (fold (\<lambda>(k, v). update k v) kvs m)"
  by (induction kvs arbitrary: m) (auto intro: inv_update)

text \<open>After a run of updates the last value written under a key is found.\<close>

lemma lookup_updates:
  "inv m \<Longrightarrow> lookup j (fold (\<lambda>(k, v). update k v) kvs m) =
     (case map_of (rev kvs) j of None \<Rightarrow> lookup j m | Some v \<Rightarrow> Some v)"
proof (induction kvs rule: rev_induct)
  case (snoc kv kvs)
  obtain k v where kv: "kv = (k, v)" by force
  show ?case
    using snoc inv_updates [of m kvs] by (simp add: kv lookup_update inv_updates)
qed simp

lemma erase_update: "inv m \<Longrightarrow> lookup j (erase k (update k v m)) = lookup j (erase k m)"
  by (simp add: inv_update lookup_erase lookup_update)

end

lemma sm_wf_Cons: "sm_wf ((a, b) # m) \<longleftrightarrow> (\<forall>p \<in> set m. a < fst p) \<and> sm_wf m"
  by (auto simp: sm_wf_def)

lemma sm_set_keys: "set (map fst (sm_set k v m)) = insert k (set (map fst m))"
  by (induction k v m rule: sm_set.induct) auto

lemma sm_insert_set: "sm_wf m \<Longrightarrow> set (sm_insert k v m) =
    (if sm_find k m = None then insert (k, v) (set m) else set m)"
proof (induction k v m rule: sm_insert.induct)
  case (2 k v a b m)
  have "map_of m k = None" if "k < a \<or> k = a"
    using 2(2) that by (auto simp: sm_wf_Cons map_of_eq_None_iff)
  with 2 show ?case by (auto simp: sm_find_def sm_wf_Cons)
qed (simp add: sm_find_def)

lemma sm_set_wf: "sm_wf m \<Longrightarrow> sm_wf (sm_set k v m)"
proof (induction k v m rule: sm_set.induct)
  case (2 k v a b m)
  have "\<forall>p \<in> set (sm_set k v m). fst p \<in> insert k (fst ` set m)"
    using sm_set_keys [of k v m] by (metis image_eqI list.set_map)
  with 2 show ?case by (fastforce simp: sm_wf_Cons)
qed (simp add: sm_wf_def)

lemma sm_insert_wf: "sm_wf m \<Longrightarrow> sm_wf (sm_insert k v m)"
proof (induction k v m rule: sm_insert.induct)
  case (2 k v a b m)
  have "\<forall>p \<in> set (sm_insert k v m). fst p \<in> insert k (fst ` set m)"
    using 2(2) sm_insert_set [of m k v] by (auto simp: sm_wf_Cons split: if_splits)
  with 2 show ?case by (fastforce simp: sm_wf_Cons)
qed (simp add: sm_wf_def)

lemma sm_find_set: "sm_wf m \<Longrightarrow> sm_find j (sm_set k v m) = (if j = k then Some v else sm_find j m)"
  by (induction k v m rule: sm_set.induct) (auto simp: sm_find_def sm_wf_Cons)

lemma sm_find_insert:
  "sm_wf m \<Longrightarrow> sm_find j (sm_insert k v m) = (if j = k \<and> sm_find k m = None then Some v else sm_find j m)"
proof (induction k v m rule: sm_insert.induct)
  case (2 k v a b m)
  have "map_of m k = None" if "k < a"
    using 2(2) that by (auto simp: sm_wf_Cons map_of_eq_None_iff)
  with 2 show ?case by (auto simp: sm_find_def sm_wf_Cons)
qed (simp add: sm_find_def)

lemma sm_insert_last: "\<forall>q \<in> set m. fst q < fst p \<Longrightarrow> sm_insert (fst p) (snd p) m = m @ [p]"
  by (induction m) auto

lemma sm_erase_wf: "sm_wf m \<Longrightarrow> sm_wf (sm_erase k m)"
  by (induction m) (auto simp: sm_erase_def sm_wf_def)

lemma sm_find_erase: "sm_find j (sm_erase k m) = (if j = k then None else sm_find j m)"
  by (induction m) (auto simp: sm_erase_def sm_find_def)

interpretation std: dictionary sm_wf sm_find sm_set sm_erase
  by unfold_locales (simp_all add: sm_set_wf sm_erase_wf sm_find_set sm_find_erase)

lemma sm_before_lower: "sm_before k m @ sm_lower_bound k m = m"
  by (simp add: sm_before_def sm_lower_bound_def)

lemma sm_before_less: "p \<in> set (sm_before k m) \<Longrightarrow> fst p < k"
  by (auto simp: sm_before_def dest: set_takeWhileD)

lemma sm_lower_bound_ge: "sm_wf m \<Longrightarrow> p \<in> set (sm_lower_bound k m) \<Longrightarrow> k \<le> fst p"
proof (induction m)
  case (Cons x m)
  obtain a b where x: "x = (a, b)" by force
  show ?case
  proof (cases "a < k")
    case True
    with Cons show ?thesis by (auto simp: x sm_lower_bound_def sm_wf_Cons)
  next
    case False
    with Cons.prems show ?thesis by (fastforce simp: x sm_lower_bound_def sm_wf_Cons)
  qed
qed (simp add: sm_lower_bound_def)

section \<open>The nearest entry\<close>

text \<open>
  The lookup that the address tables share: the entry at \<open>lower_bound\<close> and, if it is no hit,
  the one before it; past the last key only the last entry.
\<close>

definition lookup_near :: "('k::linorder \<times> 'v \<Rightarrow> 'k \<Rightarrow> bool) \<Rightarrow> ('k, 'v) std_map \<Rightarrow> 'k \<Rightarrow> ('k \<times> 'v) option" where
  "lookup_near hit m a =
     (if m = [] then None
      else case sm_lower_bound a m of
        [] \<Rightarrow> (if hit (last m) a then Some (last m) else None)
      | f # _ \<Rightarrow>
          if hit f a then Some f
          else let g = (if sm_before a m = [] then f else last (sm_before a m))
               in if hit g a then Some g else None)"

locale near_table =
  fixes hit :: "'k::linorder \<times> 'v \<Rightarrow> 'k \<Rightarrow> bool" and ok :: "'k \<times> 'v \<Rightarrow> bool"
  assumes hit_ge: "ok p \<Longrightarrow> hit p a \<Longrightarrow> fst p \<le> a"
begin

definition separated :: "('k, 'v) std_map \<Rightarrow> bool" where
  "separated m \<longleftrightarrow> sm_wf m \<and> (\<forall>p \<in> set m. ok p) \<and> sorted_wrt (\<lambda>p q. \<forall>a. hit p a \<longrightarrow> a < fst q) m"

lemma near_sound: "lookup_near hit m a = Some p \<Longrightarrow> p \<in> set m \<and> hit p a"
proof -
  assume r: "lookup_near hit m a = Some p"
  have sub: "set (sm_before a m) \<subseteq> set m" "set (sm_lower_bound a m) \<subseteq> set m"
    using sm_before_lower [of a m] by (metis Un_iff set_append subsetI)+
  have "f \<in> set m" if "sm_lower_bound a m = f # r" for f r using sub(2) that by simp
  moreover have "last (sm_before a m) \<in> set m" if "sm_before a m \<noteq> []"
    using sub(1) last_in_set [OF that] by blast
  ultimately show ?thesis
    using r by (auto simp: lookup_near_def Let_def split: if_splits list.splits)
qed

lemma near_complete:
  assumes "separated m" and "p \<in> set m" and "hit p a"
  shows "lookup_near hit m a = Some p"
proof -
  have wf: "sm_wf m" and le: "fst p \<le> a"
    and sep: "sorted_wrt (\<lambda>p q. \<forall>a. hit p a \<longrightarrow> a < fst q) m"
    using assms hit_ge by (auto simp: separated_def)
  obtain xs ys where m: "m = xs @ p # ys" using assms(2) by (meson split_list)
  have xs: "\<forall>q \<in> set xs. fst q < fst p" using wf by (auto simp: m sm_wf_def sorted_wrt_append)
  have ys: "\<forall>q \<in> set ys. a < fst q" using sep assms(3) by (auto simp: m sorted_wrt_append)
  have wys: "dropWhile (\<lambda>p. fst p < a) ys = ys" "takeWhile (\<lambda>p. fst p < a) ys = []"
    using ys by (cases ys; fastforce)+
  have other: "\<not> hit q a" if "q \<in> set ys" for q
    using ys that assms(1) hit_ge [of q a] by (fastforce simp: separated_def m)
  show ?thesis
  proof (cases "fst p = a")
    case True
    have "sm_lower_bound a m = p # ys"
      using xs True by (simp add: sm_lower_bound_def m dropWhile_append)
    then show ?thesis using assms(3) by (simp add: lookup_near_def m)
  next
    case False
    with le have lt: "fst p < a" by simp
    have low: "sm_lower_bound a m = ys" "sm_before a m = xs @ [p]"
      using xs lt wys by (auto simp: sm_lower_bound_def sm_before_def m dropWhile_append takeWhile_append
          dest: less_trans)
    then show ?thesis
      using assms(3) other by (cases ys) (auto simp: lookup_near_def m Let_def)
  qed
qed

lemma near_iff: "separated m \<Longrightarrow> (\<exists>p. lookup_near hit m a = Some p) \<longleftrightarrow> (\<exists>p \<in> set m. hit p a)"
  using near_sound near_complete by blast

end

section \<open>Multimaps\<close>

text \<open>
  \<open>std::multimap\<close>: the pairs in key order, pairs with equal keys in the order of insertion.
  \<open>find\<close> returns the suffix from the first pair with the key on.
\<close>

definition mm_wf :: "('k::linorder, 'v) std_map \<Rightarrow> bool" where
  "mm_wf m \<longleftrightarrow> sorted (map fst m)"

fun mm_insert :: "'k::linorder \<Rightarrow> 'v \<Rightarrow> ('k, 'v) std_map \<Rightarrow> ('k, 'v) std_map" where
  "mm_insert k v [] = [(k, v)]"
| "mm_insert k v ((a, b) # m) = (if k < a then (k, v) # (a, b) # m else (a, b) # mm_insert k v m)"

definition mm_find :: "'k::linorder \<Rightarrow> ('k, 'v) std_map \<Rightarrow> ('k, 'v) std_map" where
  "mm_find k m = (case sm_lower_bound k m of [] \<Rightarrow> [] | p # r \<Rightarrow> if fst p = k then p # r else [])"

definition mm_equal_range :: "'k::linorder \<Rightarrow> ('k, 'v) std_map \<Rightarrow> ('k, 'v) std_map" where
  "mm_equal_range k m = takeWhile (\<lambda>p. fst p = k) (sm_lower_bound k m)"

lemma mm_wf_Cons: "mm_wf ((a, b) # m) \<longleftrightarrow> (\<forall>p \<in> set m. a \<le> fst p) \<and> mm_wf m"
  by (auto simp: mm_wf_def)

lemma mm_insert_set: "set (mm_insert k v m) = insert (k, v) (set m)"
  by (induction k v m rule: mm_insert.induct) auto

lemma mm_insert_wf: "mm_wf m \<Longrightarrow> mm_wf (mm_insert k v m)"
proof (induction k v m rule: mm_insert.induct)
  case (2 k v a b m)
  then show ?case using mm_insert_set [of k v m] by (fastforce simp: mm_wf_Cons)
qed (simp add: mm_wf_def)

lemma mm_insert_split: "\<exists>xs ys. m = xs @ ys \<and> mm_insert k v m = xs @ (k, v) # ys"
proof (induction k v m rule: mm_insert.induct)
  case (2 k v a b m)
  show ?case
  proof (cases "k < a")
    case True
    then show ?thesis by (intro exI [of _ "[]"] exI [of _ "(a, b) # m"]) simp
  next
    case False
    then obtain xs ys where "m = xs @ ys" "mm_insert k v m = xs @ (k, v) # ys" using 2 by blast
    with False show ?thesis by (intro exI [of _ "(a, b) # xs"] exI [of _ ys]) simp
  qed
qed simp

lemma mm_equal_range_filter: "mm_wf m \<Longrightarrow> mm_equal_range k m = filter (\<lambda>p. fst p = k) m"
proof (induction m)
  case (Cons p m)
  obtain a b where p: "p = (a, b)" by force
  have none: "filter (\<lambda>p. fst p = k) m = []" if "k < a"
    using Cons.prems that by (auto simp: p mm_wf_Cons filter_empty_conv)
  consider "a < k" | "a = k" | "k < a" by force
  then show ?case
  proof cases
    case 2
    have "takeWhile (\<lambda>p. fst p = k) m = filter (\<lambda>p. fst p = k) m" if "\<forall>p \<in> set m. k \<le> fst p" "mm_wf m" for m
      using that
    proof (induction m)
      case (Cons q m)
      obtain c d where q: "q = (c, d)" by force
      have "filter (\<lambda>p. fst p = k) m = []" if "c \<noteq> k"
        using Cons.prems that by (fastforce simp: q mm_wf_Cons filter_empty_conv)
      then show ?case
        using Cons by (auto simp: q mm_wf_Cons)
    qed simp
    with 2 Cons.prems show ?thesis by (auto simp: p mm_wf_Cons mm_equal_range_def sm_lower_bound_def)
  qed (use Cons none in \<open>auto simp: p mm_wf_Cons mm_equal_range_def sm_lower_bound_def\<close>)
qed (simp add: mm_equal_range_def sm_lower_bound_def)

text \<open>A search from \<open>find(k)\<close> to the end for something only pairs with the key \<open>k\<close> satisfy.\<close>

lemma mm_find_search:
  assumes "mm_wf m" and "\<And>p. p \<in> set m \<Longrightarrow> P p \<Longrightarrow> fst p = k"
  shows "find P (mm_find k m) = find P m"
proof -
  have "find P m = find P (sm_lower_bound k m)"
  proof -
    have "\<not> P p" if "p \<in> set (sm_before k m)" for p
    proof
      assume "P p"
      moreover have "p \<in> set m" using that sm_before_lower [of k m] by (metis Un_iff set_append)
      ultimately show False using assms(2) sm_before_less [OF that] by fastforce
    qed
    then have "find P (sm_before k m) = None" by (simp add: find_None_set)
    then show ?thesis using find_append [of P "sm_before k m" "sm_lower_bound k m"] by (simp add: sm_before_lower)
  qed
  moreover have "find P (sm_lower_bound k m) = None" if f: "mm_find k m = []" and ne: "sm_lower_bound k m \<noteq> []"
  proof -
    obtain q r where q: "sm_lower_bound k m = q # r" using ne by (cases "sm_lower_bound k m") auto
    have "fst q \<noteq> k" using f q by (auto simp: mm_find_def split: if_splits)
    moreover have "\<not> fst q < k" using q by (metis dropWhile_eq_Cons_conv sm_lower_bound_def)
    ultimately have lt: "k < fst q" by simp
    have "sorted (map fst (q # r))"
      using assms(1) q sm_before_lower [of k m] unfolding mm_wf_def by (metis map_append sorted_append)
    then have "\<forall>p \<in> set (q # r). k < fst p" using lt by auto
    moreover have "set (q # r) \<subseteq> set m" using q sm_before_lower [of k m] by (metis Un_iff set_append subsetI)
    ultimately have "\<forall>p \<in> set (q # r). \<not> P p" using assms(2) by fastforce
    then show ?thesis by (simp add: q find_None_set)
  qed
  moreover have "mm_find k m = sm_lower_bound k m \<or> mm_find k m = []"
    by (simp add: mm_find_def split: list.split)
  ultimately show ?thesis by (cases "sm_lower_bound k m = []") auto
qed

end
