(* ===== verification/UTime.thy ===== *)
theory UTime
  imports Prelude
begin

text \<open>
  \<open>utm/utimestamp.{h,cpp}\<close> (seconds since 1970) and \<open>utm/utime.{h,cpp}\<close> (calendar time). A
  \<open>time_t\<close> is a signed 64-bit number and modelled as an \<open>int\<close>. \<open>boost::posix_time::ptime\<close> is
  represented by the calendar fields the program reads from it. The clock, \<open>mktime\<close> and \<open>localtime_s\<close>
  depend on the machine's time zone and are arguments: \<open>mktime\<close> takes the calendar fields and \<open>tm_isdst\<close>,
  \<open>localtime\<close> gives both.
\<close>

section \<open>Time stamps\<close>

record utimestamp =
  ts :: int

definition ts_clear :: utimestamp where "ts_clear = \<lparr>ts = 0\<rparr>"
definition ts_less :: "utimestamp \<Rightarrow> utimestamp \<Rightarrow> bool" where "ts_less a b \<longleftrightarrow> ts a < ts b"
definition ts_equal :: "utimestamp \<Rightarrow> utimestamp \<Rightarrow> bool" where "ts_equal a b \<longleftrightarrow> ts a = ts b"
definition ts_from_uint :: "u32 \<Rightarrow> utimestamp" where "ts_from_uint w = \<lparr>ts = uint w\<rparr>"
definition ts_to_uint :: "utimestamp \<Rightarrow> u32" where "ts_to_uint t = of_int (ts t)"

text \<open>\<open>"%u"\<close> prints the low 32 bits of the 64-bit argument; \<open>sscanf("%u")\<close> skips white space
  and accepts a sign.\<close>

definition ts_to_string :: "utimestamp \<Rightarrow> string" where
  "ts_to_string t = print_u (unat (of_int (ts t) :: u32))"

definition sscanf_u :: "string \<Rightarrow> u32" where
  "sscanf_u s = (case dropWhile is_space s of
      [] \<Rightarrow> 0
    | c # r \<Rightarrow> if c = CHR ''-'' then - of_nat (atoi r 0) else if c = CHR ''+'' then of_nat (atoi r 0)
              else of_nat (atoi (c # r) 0))"

definition ts_from_string :: "string \<Rightarrow> utimestamp" where
  "ts_from_string s = \<lparr>ts = uint (sscanf_u s)\<rparr>"

text \<open>\<open>from_filetime\<close>: units of 100 ns since 1601, in unsigned 64-bit arithmetic.\<close>

definition ts_from_filetime :: "u64 \<Rightarrow> utimestamp" where
  "ts_from_filetime q = \<lparr>ts = sint (q div 10000000 - 11644473600)\<rparr>"

definition is_greater_than_by_sec :: "utimestamp \<Rightarrow> utimestamp \<Rightarrow> u32 \<Rightarrow> bool" where
  "is_greater_than_by_sec t arg interval =
     (if ts t < ts arg then False else (of_int (ts t - ts arg) :: u32) > interval)"

section \<open>Calendar time\<close>

definition UTM_DAYS_IN_WEEK :: int where [utm_consts]: "UTM_DAYS_IN_WEEK = 7"
definition UTM_SECONDS_IN_DAY :: int where [utm_consts]: "UTM_SECONDS_IN_DAY = 86400"

record utime =
  ut_year :: nat
  ut_month :: nat
  ut_day :: nat
  ut_hour :: nat
  ut_minute :: nat
  ut_second :: nat

datatype utime_format = format_log | format_iso | format_yyyymmdd | format_hhmmss | format_sql
  | format_yyyymmddhhmmss

definition ut_set :: "nat \<Rightarrow> nat \<Rightarrow> nat \<Rightarrow> nat \<Rightarrow> nat \<Rightarrow> nat \<Rightarrow> utime" where
  "ut_set year month day hour minute second =
     \<lparr>ut_year = year, ut_month = month, ut_day = day,
      ut_hour = hour, ut_minute = minute, ut_second = second\<rparr>"

definition ut_clear :: utime where "ut_clear = ut_set 2000 1 1 0 0 0"

text \<open>\<open>std::setfill('0') << std::setw(n)\<close>.\<close>

definition zpad :: "nat \<Rightarrow> nat \<Rightarrow> string" where
  "zpad n v = replicate (n - length (print_u v)) CHR ''0'' @ print_u v"

definition ut_date :: "string \<Rightarrow> utime \<Rightarrow> string" where
  "ut_date d t = zpad 4 (ut_year t) @ d @ zpad 2 (ut_month t) @ d @ zpad 2 (ut_day t)"

definition ut_clock :: "string \<Rightarrow> utime \<Rightarrow> string" where
  "ut_clock d t = zpad 2 (ut_hour t) @ d @ zpad 2 (ut_minute t) @ d @ zpad 2 (ut_second t)"

text \<open>\<open>to_string(format, delim)\<close>; the delimiter 0 is \<open>None\<close>.\<close>

definition ut_to_string :: "utime_format \<Rightarrow> char option \<Rightarrow> utime \<Rightarrow> string" where
  "ut_to_string format delim t = (case format of
      format_log \<Rightarrow> ut_date ''-'' t @ '' '' @ ut_clock '':'' t
    | format_sql \<Rightarrow> ut_date ''-'' t @ '' '' @ ut_clock '':'' t
    | format_iso \<Rightarrow> ut_date [] t @ ''T'' @ ut_clock [] t
    | format_yyyymmdd \<Rightarrow> ut_date [case delim of None \<Rightarrow> CHR ''-'' | Some d \<Rightarrow> d] t
    | format_hhmmss \<Rightarrow> ut_clock [case delim of None \<Rightarrow> CHR '':'' | Some d \<Rightarrow> d] t
    | format_yyyymmddhhmmss \<Rightarrow> ut_date [] t @ ut_clock [] t)"

definition format_twodigit_ushort :: "nat \<Rightarrow> string" where
  "format_twodigit_ushort us = (if us < 10 then ''0'' @ print_u us else print_u us)"

definition ut_get_year_str :: "utime \<Rightarrow> string" where "ut_get_year_str t = print_u (ut_year t)"
definition ut_get_month_str :: "utime \<Rightarrow> string" where
  "ut_get_month_str t = format_twodigit_ushort (ut_month t)"
definition ut_get_day_str :: "utime \<Rightarrow> string" where
  "ut_get_day_str t = format_twodigit_ushort (ut_day t)"

definition month_names :: "string list" where
  "month_names = [''January'', ''February'', ''March'', ''April'', ''May'', ''June'', ''July'',
     ''August'', ''September'', ''October'', ''November'', ''December'']"

definition month_short_names :: "string list" where
  "month_short_names = [''Jan'', ''Feb'', ''Mar'', ''Apr'', ''May'', ''Jun'', ''Jul'',
     ''Aug'', ''Sep'', ''Oct'', ''Nov'', ''Dec'']"

text \<open>The \<open>switch\<close> assigns for the months 1 to 12 and leaves the argument otherwise.\<close>

definition month_switch :: "string list \<Rightarrow> utime \<Rightarrow> string \<Rightarrow> string" where
  "month_switch names t month_str =
     (if 1 \<le> ut_month t \<and> ut_month t \<le> 12 then names ! (ut_month t - 1) else month_str)"

definition get_month_short :: "utime \<Rightarrow> string \<Rightarrow> string" where
  "get_month_short t s = month_switch month_short_names t s"

definition get_month_long :: "utime \<Rightarrow> string \<Rightarrow> string" where
  "get_month_long t s = month_switch month_names t s"

definition start_of_hour :: "utime \<Rightarrow> utime" where
  "start_of_hour t = ut_set (ut_year t) (ut_month t) (ut_day t) (ut_hour t) 0 0"

definition start_of_day :: "utime \<Rightarrow> utime" where
  "start_of_day t = ut_set (ut_year t) (ut_month t) (ut_day t) 0 0 0"

definition start_of_month :: "utime \<Rightarrow> utime" where
  "start_of_month t = ut_set (ut_year t) (ut_month t) 1 0 0 0"

text \<open>
  \<open>to_time_t\<close> clears \<open>tm_isdst\<close>, so that \<open>mktime\<close> takes every time for standard time; \<open>from_time_t\<close> keeps the
  fields only.
\<close>

definition utime_to_time_t :: "(utime \<Rightarrow> int \<Rightarrow> int) \<Rightarrow> utime \<Rightarrow> int" where
  "utime_to_time_t mktime t = mktime t 0"

definition utime_from_time_t :: "(int \<Rightarrow> utime \<times> int) \<Rightarrow> int \<Rightarrow> utime" where
  "utime_from_time_t localtime n =
     (let lt = fst (localtime n)
      in ut_set (ut_year lt) (ut_month lt) (ut_day lt) (ut_hour lt) (ut_minute lt) (ut_second lt))"

definition ts_from_utime :: "(utime \<Rightarrow> int \<Rightarrow> int) \<Rightarrow> utime \<Rightarrow> utimestamp" where
  "ts_from_utime mktime t = \<lparr>ts = utime_to_time_t mktime t\<rparr>"

text \<open>
  What is documented of the two library functions, at a time and with the shift of daylight saving time:
  \<open>mktime\<close> inverts \<open>localtime\<close> when it is given the flag, and the flag says how the fields are meant.
\<close>

definition clock_laws :: "int \<Rightarrow> (utime \<Rightarrow> int \<Rightarrow> int) \<Rightarrow> (int \<Rightarrow> utime \<times> int) \<Rightarrow> int \<Rightarrow> bool" where
  "clock_laws bias mktime localtime t \<longleftrightarrow> (case localtime t of (lt, dst) \<Rightarrow>
     (dst = 0 \<or> dst = 1) \<and> mktime lt dst = t \<and> mktime lt 0 = mktime lt 1 + bias)"

lemma from_time_t_fields: "utime_from_time_t localtime n = fst (localtime n)"
  by (simp add: utime_from_time_t_def ut_set_def Let_def)

text \<open>A time stamp that goes through calendar time comes back later by the shift if it was in daylight saving time.\<close>

lemma time_t_roundtrip:
  "clock_laws bias mktime localtime t \<Longrightarrow>
     utime_to_time_t mktime (utime_from_time_t localtime t) = t + (if snd (localtime t) = 1 then bias else 0)"
  by (auto simp: clock_laws_def from_time_t_fields utime_to_time_t_def split: prod.splits)

text \<open>
  The number of days \<open>start_of_lastdayweek\<close> adds; \<open>wday\<close> is \<open>tm_wday\<close>, Sunday being 0. The
  function itself then goes through \<open>mktime\<close> and \<open>localtime\<close>.
\<close>

definition lastdayweek_diff :: "int \<Rightarrow> int \<Rightarrow> int" where
  "lastdayweek_diff wday weekday =
     (let diff = wday - weekday in
      if diff > 0 then - diff else if diff < 0 then - (UTM_DAYS_IN_WEEK + diff) else diff)"

definition start_of_lastdayweek ::
  "(utime \<Rightarrow> int) \<Rightarrow> (utime \<Rightarrow> int \<Rightarrow> int) \<Rightarrow> (int \<Rightarrow> utime \<times> int) \<Rightarrow> utime \<Rightarrow> int \<Rightarrow> utime" where
  "start_of_lastdayweek wday_of mktime localtime t weekday =
     utime_from_time_t localtime (mktime (start_of_day t) 0 + lastdayweek_diff (wday_of t) weekday * UTM_SECONDS_IN_DAY)"

record standard_timeset =
  sts_time_point :: int
  sts_start_of_hour :: int
  sts_start_of_day :: int
  sts_start_of_month :: int
  sts_start_of_lastdayweek :: "int list"

definition standard_timeset_new ::
  "(utime \<Rightarrow> int) \<Rightarrow> (utime \<Rightarrow> int \<Rightarrow> int) \<Rightarrow> (int \<Rightarrow> utime \<times> int) \<Rightarrow> utime \<Rightarrow> standard_timeset" where
  "standard_timeset_new wday_of mktime localtime t =
     \<lparr>sts_time_point = utime_to_time_t mktime t,
      sts_start_of_hour = utime_to_time_t mktime (start_of_hour t),
      sts_start_of_day = utime_to_time_t mktime (start_of_day t),
      sts_start_of_month = utime_to_time_t mktime (start_of_month t),
      sts_start_of_lastdayweek =
        map (\<lambda>i. utime_to_time_t mktime (start_of_lastdayweek wday_of mktime localtime t i)) [0, 1, 2, 3, 4, 5, 6]\<rparr>"

section \<open>Properties\<close>

text \<open>
  the weekday arithmetic of \<open>start_of_lastdayweek\<close> goes back to the last day with the
  requested weekday: at most six days, and none when it is today.
\<close>

theorem lastdayweek_diff_range:
  assumes "0 \<le> wday" and "wday < 7" and "0 \<le> weekday" and "weekday < 7"
  shows "-6 \<le> lastdayweek_diff wday weekday \<and> lastdayweek_diff wday weekday \<le> 0
    \<and> (wday + lastdayweek_diff wday weekday) mod 7 = weekday
    \<and> (lastdayweek_diff wday weekday = 0) = (wday = weekday)"
proof -
  consider "wday > weekday" | "wday = weekday" | "wday < weekday" by linarith
  then show ?thesis
  proof cases
    case 3
    have "(weekday - 7) mod 7 = weekday" using assms mod_add_self2 [of "weekday - 7" 7] by simp
    with 3 show ?thesis
      using assms by (simp add: lastdayweek_diff_def Let_def utm_consts algebra_simps)
  qed (use assms in \<open>simp_all add: lastdayweek_diff_def Let_def\<close>)
qed

theorem lastdayweek_diff_range_witness:
  "lastdayweek_diff 5 6 = -6 \<and> (5 + lastdayweek_diff 5 6) mod 7 = 6"
  using lastdayweek_diff_range [of 5 6] by (simp add: lastdayweek_diff_def utm_consts)

text \<open>
  \<open>utimestamp\<close> text and integer conversions are inverse on the times an unsigned 32-bit
  number holds, and below this range the difference \<open>is_greater_than_by_sec\<close> compares is the
  true one: it holds exactly when more than \<open>interval\<close> seconds have passed.
\<close>

theorem utimestamp_conversions:
  assumes "0 \<le> ts t" and "ts t < 2 ^ 32" and "0 \<le> ts arg"
  shows "ts_from_string (ts_to_string t) = t \<and> ts_from_uint (ts_to_uint t) = t
    \<and> is_greater_than_by_sec t arg interval = (ts t > ts arg + uint interval)"
proof -
  have w: "uint (of_int d :: u32) = d" if "0 \<le> d" "d < 2 ^ 32" for d
    using that by (simp add: uint_word_of_int_eq take_bit_int_eq_self)
  obtain c r where cr: "ts_to_string t = c # r"
    using print_u_not_Nil by (metis neq_Nil_conv ts_to_string_def)
  then have "is_digit c" using print_u_digits [of "unat (of_int (ts t) :: u32)"] by (simp add: ts_to_string_def)
  then have "sscanf_u (ts_to_string t) = of_nat (atoi (ts_to_string t) 0)"
    by (auto simp: sscanf_u_def cr is_space_def is_digit_def)
  also have "\<dots> = of_int (ts t)" by (simp add: ts_to_string_def atoi_print_u)
  finally have "ts_from_string (ts_to_string t) = t" using w assms by (simp add: ts_from_string_def)
  moreover have "ts_from_uint (ts_to_uint t) = t"
    using w assms by (simp add: ts_from_uint_def ts_to_uint_def)
  moreover have "is_greater_than_by_sec t arg interval = (ts t > ts arg + uint interval)"
  proof (cases "ts t < ts arg")
    case True
    then have "ts t < ts arg + uint interval" by (rule order.strict_trans2) simp
    with True show ?thesis by (simp add: is_greater_than_by_sec_def)
  next
    case False
    then show ?thesis
      using w [of "ts t - ts arg"] assms by (auto simp: is_greater_than_by_sec_def word_less_alt)
  qed
  ultimately show ?thesis by blast
qed

theorem utimestamp_conversions_witness:
  "ts_from_string (ts_to_string \<lparr>ts = 777\<rparr>) = \<lparr>ts = 777\<rparr>
   \<and> is_greater_than_by_sec \<lparr>ts = 777\<rparr> \<lparr>ts = 700\<rparr> 60"
  using utimestamp_conversions [of "\<lparr>ts = 777\<rparr>" "\<lparr>ts = 700\<rparr>" 60] by simp

end
