(* ===== verification/AddrTable.thy ===== *)
theory AddrTable
  imports AddrIp StdMap UTime UBaseList
begin

text \<open>
  \<open>utm/addrtablebase.h\<close>, \<open>utm/addrtable.h\<close>, \<open>utm/addrtable_v4.cpp\<close>, \<open>utm/addrtablemap.h\<close>
  and \<open>addrtablemap_v4.h\<close>: the tables of address ranges (first address to last) or networks
  (address to mask) the rules refer to. The element class \<open>T\<close> is \<open>addrip_v4\<close>. Every
  operation holds the table's mutex while it reads or changes \<open>items\<close>: an operation is one step.
\<close>

type_synonym addr_items = "(addrip_v4, addrip_v4) std_map"

section \<open>Operations on the items\<close>

definition hit_range :: "addrip_v4 \<times> addrip_v4 \<Rightarrow> addrip_v4 \<Rightarrow> bool" where
  "hit_range p a \<longleftrightarrow> fst p \<le> a \<and> snd p \<ge> a"

definition CheckAddrRange :: "addr_items \<Rightarrow> addrip_v4 \<Rightarrow> bool" where
  "CheckAddrRange m a \<longleftrightarrow> lookup_near hit_range m a \<noteq> None"

definition CheckAddrSingle :: "addr_items \<Rightarrow> addrip_v4 \<Rightarrow> bool" where
  "CheckAddrSingle m a \<longleftrightarrow> sm_find a m \<noteq> None"

definition AddAddrPair :: "addrip_v4 \<Rightarrow> addrip_v4 \<Rightarrow> bool \<Rightarrow> addr_items \<Rightarrow> bool \<times> addr_items" where
  "AddAddrPair s e checkRange m =
     (if checkRange \<and> CheckAddrRange m s then (False, m)
      else if checkRange \<and> CheckAddrRange m e then (False, m)
      else (True, sm_insert s e m))"

definition GetAddrPair :: "nat \<Rightarrow> addr_items \<Rightarrow> (addrip_v4 \<times> addrip_v4) option" where
  "GetAddrPair index m = (if index < length m then Some (m ! index) else None)"

definition DeleteAddr :: "nat \<Rightarrow> addr_items \<Rightarrow> bool \<times> addr_items" where
  "DeleteAddr index m =
     (if index < length m then (True, take index m @ drop (Suc index) m) else (False, m))"

definition hit_network :: "addrip_v4 \<times> addrip_v4 \<Rightarrow> addrip_v4 \<Rightarrow> bool" where
  "hit_network p a \<longleftrightarrow> (m_addr (fst p) AND m_addr (snd p)) = (m_addr a AND m_addr (snd p))"

text \<open>The overload with the output parameters \<open>net\<close> and \<open>mask\<close>, and the one without.\<close>

definition check_addr_network3 :: "addr_items \<Rightarrow> addrip_v4 \<Rightarrow> (addrip_v4 \<times> addrip_v4) option" where
  "check_addr_network3 m a = lookup_near hit_network m a"

definition check_addr_network :: "addr_items \<Rightarrow> addrip_v4 \<Rightarrow> bool" where
  "check_addr_network m a \<longleftrightarrow> lookup_near hit_network m a \<noteq> None"

section \<open>Tables\<close>

definition ADDR_TABLE_ORIGINAL :: i32 where [utm_consts]: "ADDR_TABLE_ORIGINAL = 0"
definition ADDR_TABLE_EXTFILE :: i32 where [utm_consts]: "ADDR_TABLE_EXTFILE = 1"
definition ADDR_TABLE_PPP :: i32 where [utm_consts]: "ADDR_TABLE_PPP = 2"

record addrtable =
  at_items :: addr_items
  at_descr :: string
  at_filename :: string
  at_type_id :: i32
  at_data_id :: i32
  at_sort_order :: i32
  at_last_file_write_time :: utimestamp

definition addrtable_clear :: addrtable where
  "addrtable_clear = \<lparr>at_items = [], at_descr = [], at_filename = [], at_type_id = ADDR_TABLE_ORIGINAL,
     at_data_id = 0, at_sort_order = 0, at_last_file_write_time = ts_clear\<rparr>"

definition newline :: string where "newline = [CHR 0x0A]"

definition export_to_txt :: "string \<Rightarrow> addrtable \<Rightarrow> string" where
  "export_to_txt file_header t =
     file_header @ ''// Number of records: '' @ print_u (length (at_items t)) @ newline @ ''//'' @ newline
     @ concat (map (\<lambda>(s, e). ip_to_string s @ '' '' @ ip_to_string e @ newline) (at_items t))"

section \<open>Import\<close>

text \<open>\<open>getline(infile, line, '\n')\<close> until it fails: a last line needs no newline.\<close>

fun getlines :: "string \<Rightarrow> string \<Rightarrow> string list" where
  "getlines l [] = (if l = [] then [] else [l])"
| "getlines l (c # s) = (if c = CHR 0x0A then l # getlines [] s else getlines (l @ [c]) s)"

definition import_delim :: "char \<Rightarrow> bool" where
  "import_delim c \<longleftrightarrow> c \<in> {CHR '','', CHR ''-'', CHR '' '', CHR 0x09}"

datatype import_result = Import_skip | Import_bad | Import_pair addrip_v4 addrip_v4

definition import_line :: "string \<Rightarrow> import_result" where
  "import_line raw =
     (let line = trim raw in
      if line = [] then Import_skip
      else if hd line \<in> {CHR ''/'', CHR ''#'', CHR '';''} then Import_skip
      else case dropWhile (\<lambda>c. \<not> import_delim c) line of
        [] \<Rightarrow> Import_skip
      | _ # rest \<Rightarrow>
          let (start_ok, addr_start) = ip_from_string (Some (takeWhile (\<lambda>c. \<not> import_delim c) line)) True;
              (end_ok, addr_end) = ip_from_string (Some (trim rest)) True
          in if start_ok \<and> end_ok then Import_pair addr_start addr_end else Import_bad)"

fun import_lines :: "nat \<Rightarrow> string list \<Rightarrow> addr_items \<Rightarrow> string \<Rightarrow> addr_items \<times> string" where
  "import_lines k [] m report = (m, report)"
| "import_lines k (l # ls) m report =
     (case import_line l of
        Import_skip \<Rightarrow> import_lines (k + 1) ls m report
      | Import_bad \<Rightarrow> import_lines (k + 1) ls m
            (report @ ''// Problem in parsing line '' @ print_u (k + 1) @ newline)
      | Import_pair s e \<Rightarrow>
          let (ok, m') = AddAddrPair s e True m
          in import_lines (k + 1) ls m'
               (if ok then report else report @ ''// Problem in parsing line '' @ print_u (k + 1)
                  @ '' (address is already present)'' @ newline))"

text \<open>
  \<open>import_from_txt\<close>: \<open>file\<close> is the modification time and the text of the file, \<open>None\<close> when it
  is not found. The last component is the text of the backup file it writes.
\<close>

definition import_from_txt :: "(u64 \<times> string) option \<Rightarrow> bool \<times> addrtable \<times> string option" where
  "import_from_txt file = (case file of
      None \<Rightarrow> (False, addrtable_clear, None)
    | Some (ftime, txt) \<Rightarrow>
        let t = addrtable_clear\<lparr>at_last_file_write_time := ts_from_filetime ftime\<rparr>;
            (m, report) = import_lines 0 (getlines [] txt) [] [];
            t' = t\<lparr>at_items := m\<rparr>;
            report' = (if report \<noteq> [] then report @ ''//'' @ newline else report)
        in (True, t', Some (export_to_txt report' t')))"

section \<open>The list of tables\<close>

record addrtablemaprec =
  atr_key :: u32
  atr_addrtable :: addrtable

definition addrtablemaprec_clear :: "addrtablemaprec \<Rightarrow> addrtablemaprec" where
  "addrtablemaprec_clear r = \<lparr>atr_key = 0, atr_addrtable = addrtable_clear\<rparr>"

definition addrtablemaprec_eq :: "addrtablemaprec \<Rightarrow> addrtablemaprec \<Rightarrow> bool" where
  "addrtablemaprec_eq a b \<longleftrightarrow> atr_key a = atr_key b
     \<and> at_items (atr_addrtable a) = at_items (atr_addrtable b)"

text \<open>The default constructor leaves \<open>key\<close> uninitialised: \<open>u\<close>.\<close>

definition addrtablemap_class :: "u32 \<Rightarrow> addrtablemaprec ubl_class" where
  "addrtablemap_class u = \<lparr>ubl_get_id = atr_key, ubl_set_id = (\<lambda>i r. r\<lparr>atr_key := i\<rparr>),
     ubl_get_name = (\<lambda>r. at_descr (atr_addrtable r)),
     ubl_default = \<lparr>atr_key = u, atr_addrtable = addrtable_clear\<rparr>,
     ubl_item_clear = addrtablemaprec_clear, ubl_eq = addrtablemaprec_eq, ubl_protected = False\<rparr>"

interpretation addrtablemap: ubl_element "addrtablemap_class u" for u
  by unfold_locales (simp add: addrtablemap_class_def)

definition addrtablemap_AddAddrPair ::
  "u32 \<Rightarrow> addrip_v4 \<Rightarrow> addrip_v4 \<Rightarrow> addrtablemaprec list \<Rightarrow> addrtablemaprec list" where
  "addrtablemap_AddAddrPair key_id s e xs =
     (case find_by_id (addrtablemap_class 0) key_id xs of
        None \<Rightarrow> xs
      | Some t \<Rightarrow>
          let m = snd (AddAddrPair s e False (at_items (atr_addrtable t)))
          in snd (modify_element (addrtablemap_class 0)
                    (t\<lparr>atr_addrtable := (atr_addrtable t)\<lparr>at_items := m\<rparr>\<rparr>) xs))"

text \<open>The XML text of a pair, \<open>first,second\<close>, and the node handler that reads it back.\<close>

definition addr_pair_xml :: "addrip_v4 \<times> addrip_v4 \<Rightarrow> string" where
  "addr_pair_xml p = ip_to_string (fst p) @ '','' @ ip_to_string (snd p)"

definition catch_addr_value :: "string \<Rightarrow> addr_items \<Rightarrow> addr_items" where
  "catch_addr_value tmp m =
     (case dropWhile (\<lambda>c. c \<noteq> CHR '','') tmp of
        [] \<Rightarrow> m
      | _ # rest \<Rightarrow>
          snd (AddAddrPair (snd (ip_from_string (Some (takeWhile (\<lambda>c. c \<noteq> CHR '','') tmp)) False))
                 (snd (ip_from_string (Some rest) False)) False m))"

section \<open>Disjoint ranges\<close>

definition range_table :: "addr_items \<Rightarrow> bool" where
  "range_table m \<longleftrightarrow> sm_wf m \<and> (\<forall>p \<in> set m. fst p \<le> snd p)
     \<and> (\<forall>p \<in> set m. \<forall>q \<in> set m. fst p < fst q \<longrightarrow> snd p < fst q)"

definition last_addr :: "addrip_v4 \<times> addrip_v4 \<Rightarrow> addrip_v4" where
  "last_addr p = Addrip_v4 (m_addr (fst p) OR NOT (m_addr (snd p)))"

definition network_table :: "addr_items \<Rightarrow> bool" where
  "network_table m \<longleftrightarrow> sm_wf m
     \<and> (\<forall>p \<in> set m. m_addr (fst p) AND m_addr (snd p) = m_addr (fst p))
     \<and> (\<forall>p \<in> set m. \<forall>q \<in> set m. fst p < fst q \<longrightarrow> last_addr p < fst q)"

definition aligned :: "addrip_v4 \<times> addrip_v4 \<Rightarrow> bool" where
  "aligned p \<longleftrightarrow> m_addr (fst p) AND m_addr (snd p) = m_addr (fst p)"

interpretation addr_ranges: near_table hit_range "\<lambda>p. True"
  by unfold_locales (simp add: hit_range_def)

lemma hit_network_bounds:
  assumes "aligned p" and "hit_network p a"
  shows "fst p \<le> a \<and> a \<le> last_addr p"
proof -
  let ?n = "m_addr (fst p)" and ?k = "m_addr (snd p)" and ?a = "m_addr a"
  have e: "?n = ?a AND ?k" using assms by (simp add: aligned_def hit_network_def)
  have "?n AND (?a AND NOT ?k) = 0" "?n AND NOT ?k = 0"
    by (auto simp: e bit_eq_iff bit_simps)
  then have "?n + (?a AND NOT ?k) = (?n OR (?a AND NOT ?k))" "?n + NOT ?k = (?n OR NOT ?k)"
    by (simp_all add: disjunctive_add_eq_or)
  moreover have "(?n OR (?a AND NOT ?k)) = ?a" by (auto simp: e bit_eq_iff bit_simps)
  moreover have "?n + (?a AND NOT ?k) \<le> ?n + NOT ?k"
  proof -
    have "?n \<le> ?n + NOT ?k" unfolding calculation(2) by (rule le_word_or2)
    then show ?thesis using word_and_le1 [of ?a "NOT ?k"] by (rule word_plus_mono_right [rotated])
  qed
  ultimately have "?a \<le> (?n OR NOT ?k)" by simp
  moreover have "?n \<le> ?a" unfolding e by (rule word_and_le2)
  ultimately show ?thesis by (simp add: addrip_le_iff last_addr_def)
qed

interpretation addr_networks: near_table hit_network aligned
  using hit_network_bounds by unfold_locales blast

lemma sm_wf_sorted: "sm_wf m \<Longrightarrow> sorted_wrt (\<lambda>p q. fst p < fst q) m"
  by (simp add: sm_wf_def sorted_wrt_map)

lemma range_table_separated:
  assumes "range_table m"
  shows "addr_ranges.separated m"
  unfolding addr_ranges.separated_def
proof (intro conjI)
  show "sm_wf m" using assms by (simp add: range_table_def)
  show "sorted_wrt (\<lambda>p q. \<forall>a. hit_range p a \<longrightarrow> a < fst q) m"
  proof (rule sorted_wrt_mono_rel [OF _ sm_wf_sorted [OF \<open>sm_wf m\<close>]])
    fix p q assume "p \<in> set m" "q \<in> set m" "fst p < fst q"
    then have "snd p < fst q" using assms unfolding range_table_def by blast
    then show "\<forall>a. hit_range p a \<longrightarrow> a < fst q" by (auto simp: hit_range_def)
  qed
qed simp

lemma network_table_separated:
  assumes "network_table m"
  shows "addr_networks.separated m"
  unfolding addr_networks.separated_def
proof (intro conjI)
  show "sm_wf m" using assms by (simp add: network_table_def)
  show al: "\<forall>p \<in> set m. aligned p" using assms by (auto simp: network_table_def aligned_def)
  show "sorted_wrt (\<lambda>p q. \<forall>a. hit_network p a \<longrightarrow> a < fst q) m"
  proof (rule sorted_wrt_mono_rel [OF _ sm_wf_sorted [OF \<open>sm_wf m\<close>]])
    fix p q assume pq: "p \<in> set m" "q \<in> set m" "fst p < fst q"
    then have "last_addr p < fst q" using assms unfolding network_table_def by blast
    then show "\<forall>a. hit_network p a \<longrightarrow> a < fst q"
      using al pq(1) hit_network_bounds by (meson order.strict_trans1)
  qed
qed

lemma addr_range_lookup_aux:
  "range_table m \<Longrightarrow> CheckAddrRange m a = (\<exists>p \<in> set m. fst p \<le> a \<and> a \<le> snd p)"
  using addr_ranges.near_iff [OF range_table_separated, of m a]
  unfolding CheckAddrRange_def hit_range_def by auto

lemma sm_find_hit:
  assumes "range_table m" and "\<not> CheckAddrRange m s"
  shows "sm_find s m = None"
proof (rule ccontr)
  assume "sm_find s m \<noteq> None"
  then obtain e where e: "(s, e) \<in> set m" by (auto simp: sm_find_def dest: map_of_SomeD)
  then have "hit_range (s, e) s" using assms(1) by (auto simp: range_table_def hit_range_def)
  with e have "CheckAddrRange m s"
    using addr_ranges.near_complete [OF range_table_separated [OF assms(1)] e]
    by (simp add: CheckAddrRange_def)
  with assms(2) show False ..
qed

section \<open>Text of a table\<close>

lemma ip_to_string_chars: "list_all (\<lambda>c. is_digit c \<or> c = CHR ''.'') (ip_to_string a)"
proof -
  have "\<forall>c \<in> set (print_u n). is_digit c" for n using print_u_digits [of n] by (simp add: list_all_iff)
  then show ?thesis by (auto simp: ip_to_string_def to_strbuffer_def list_all_iff)
qed

lemma ip_char_class:
  "c \<in> set (ip_to_string a) \<Longrightarrow> \<not> is_space c \<and> \<not> import_delim c \<and> c \<noteq> CHR 0x0A \<and> c \<noteq> CHR '',''
     \<and> c \<notin> {CHR ''/'', CHR ''#'', CHR '';''}"
  using ip_to_string_chars [of a]
  by (auto simp: list_all_iff is_space_def import_delim_def is_digit_def)

lemma trim_ip: "trim (ip_to_string a) = ip_to_string a"
  by (simp add: trim_def dropWhile_none ip_char_class)

lemma getlines_line: "CHR 0x0A \<notin> set s \<Longrightarrow> getlines acc (s @ newline @ r) = (acc @ s) # getlines [] r"
  by (induction s arbitrary: acc) (auto simp: newline_def)

lemma import_line_comment: "import_line (CHR ''/'' # s) = Import_skip"
proof -
  have ns: "\<not> is_space CHR ''/''" by (simp add: is_space_def)
  have "\<exists>u. dropWhile is_space (rev s @ ''/'') = u @ ''/''"
  proof (cases "\<exists>c \<in> set s. \<not> is_space c")
    case True
    then obtain c where "c \<in> set (rev s)" "\<not> is_space c" by auto
    from dropWhile_append1 [of c "rev s" is_space, OF this] show ?thesis by simp
  next
    case False
    then have "dropWhile is_space (rev s @ ''/'') = [] @ ''/''" using ns dropWhile_append2 [of "rev s" is_space "''/''"] by simp
    then show ?thesis by blast
  qed
  then obtain u where "trim (CHR ''/'' # s) = CHR ''/'' # rev u" by (auto simp: trim_def ns)
  then show ?thesis by (simp add: import_line_def Let_def)
qed

lemma import_line_exported: "import_line (ip_to_string s @ '' '' @ ip_to_string e) = Import_bad"
proof -
  let ?l = "ip_to_string s @ '' '' @ ip_to_string e"
  have hd: "hd ?l \<in> set (ip_to_string s)" "last ?l \<in> set (ip_to_string e)"
    by (simp_all add: ip_to_string_not_Nil)
  have "trim ?l = ?l" by (rule trim_id) (use ip_char_class [OF hd(1)] ip_char_class [OF hd(2)] in auto)
  moreover have "dropWhile (\<lambda>c. \<not> import_delim c) ?l = '' '' @ ip_to_string e"
    "takeWhile (\<lambda>c. \<not> import_delim c) ?l = ip_to_string s"
    using ip_char_class by (simp_all add: import_delim_def)
  moreover have "hd ?l \<notin> {CHR ''/'', CHR ''#'', CHR '';''}" using hd(1) ip_char_class by blast
  ultimately show ?thesis
    by (simp add: import_line_def Let_def trim_ip ip_text_false)
qed

lemma catch_addr_pair: "catch_addr_value (addr_pair_xml p) m = sm_insert (fst p) (snd p) m"
proof -
  have "dropWhile (\<lambda>c. c \<noteq> CHR '','') (addr_pair_xml p) = '','' @ ip_to_string (snd p)"
    "takeWhile (\<lambda>c. c \<noteq> CHR '','') (addr_pair_xml p) = ip_to_string (fst p)"
    using ip_char_class by (simp_all add: addr_pair_xml_def)
  then show ?thesis by (simp add: catch_addr_value_def ip_from_to_string AddAddrPair_def)
qed

lemma addr_pairs_parse: "sm_wf (acc @ m) \<Longrightarrow> fold (\<lambda>p. catch_addr_value (addr_pair_xml p)) m acc = acc @ m"
proof (induction m arbitrary: acc)
  case (Cons p m)
  then have "\<forall>q \<in> set acc. fst q < fst p" by (auto simp: sm_wf_def sorted_wrt_append)
  then have "sm_insert (fst p) (snd p) acc = acc @ [p]" by (rule sm_insert_last)
  with Cons show ?case by (simp add: catch_addr_pair)
qed simp

section \<open>Properties\<close>

text \<open>
  C13: on a table of disjoint ranges \<open>CheckAddrRange\<close> finds exactly the addresses that lie in
  one of the stored ranges, although it looks at two entries at most.
\<close>

theorem addr_range_lookup:
  assumes "range_table m"
  shows "CheckAddrRange m a = (\<exists>p \<in> set m. fst p \<le> a \<and> a \<le> snd p)"
  using assms by (rule addr_range_lookup_aux)

definition ex_ranges :: addr_items where
  "ex_ranges = [(Addrip_v4 10, Addrip_v4 19), (Addrip_v4 20, Addrip_v4 29), (Addrip_v4 40, Addrip_v4 49)]"

lemma ex_ranges_table: "range_table ex_ranges"
  by (simp add: range_table_def ex_ranges_def sm_wf_def addrip_le_iff addrip_less_iff)

theorem addr_range_lookup_witness:
  "CheckAddrRange ex_ranges (Addrip_v4 25) \<and> \<not> CheckAddrRange ex_ranges (Addrip_v4 30)"
  unfolding addr_range_lookup [OF ex_ranges_table]
  by (simp add: ex_ranges_def addrip_le_iff)

text \<open>
  adding a range with the check on. If one of its ends is stored already the call is
  refused and nothing changes; otherwise, unless the new range encloses a stored one, the table
  stays a table of disjoint ranges and covers exactly the old addresses and the new range.
\<close>

theorem add_addr_pair_checked:
  assumes "range_table m" and "s \<le> e" and "\<forall>p \<in> set m. \<not> (s < fst p \<and> snd p < e)"
  shows "case AddAddrPair s e True m of (ok, m') \<Rightarrow>
    ok = (\<not> CheckAddrRange m s \<and> \<not> CheckAddrRange m e) \<and> range_table m'
    \<and> (if ok then \<forall>a. CheckAddrRange m' a = (CheckAddrRange m a \<or> s \<le> a \<and> a \<le> e) else m' = m)"
proof (cases "CheckAddrRange m s \<or> CheckAddrRange m e")
  case True
  then show ?thesis using assms(1) by (auto simp: AddAddrPair_def)
next
  case False
  let ?m = "sm_insert s e m"
  have wf: "sm_wf m" using assms(1) by (simp add: range_table_def)
  have set: "set ?m = insert (s, e) (set m)"
    using sm_insert_set [OF wf] sm_find_hit [OF assms(1)] False by simp
  have out: "fst p \<le> a \<Longrightarrow> a \<le> snd p \<Longrightarrow> CheckAddrRange m a" if "p \<in> set m" for p a
    using that addr_range_lookup_aux [OF assms(1)] by blast
  have "e < fst q" if "q \<in> set m" "s < fst q" for q
    using that assms(3) out [OF that(1), of e] False by (meson not_le)
  moreover have "snd q < s" if "q \<in> set m" "fst q < s" for q
    using that out [OF that(1), of s] False by (meson not_le order.strict_implies_order)
  ultimately have "range_table ?m"
    using assms(1,2) sm_insert_wf [OF wf] unfolding range_table_def set by (auto 0 3)
  then show ?thesis
    using False by (simp add: AddAddrPair_def addr_range_lookup_aux addr_range_lookup_aux [OF assms(1)] set) blast
qed

theorem add_addr_pair_checked_witness:
  "\<exists>m'. AddAddrPair (Addrip_v4 30) (Addrip_v4 39) True ex_ranges = (True, m') \<and> range_table m'
     \<and> CheckAddrRange m' (Addrip_v4 35) \<and> CheckAddrRange m' (Addrip_v4 25)"
proof -
  have "\<forall>p \<in> set ex_ranges. \<not> (Addrip_v4 30 < fst p \<and> snd p < Addrip_v4 39)"
    "Addrip_v4 30 \<le> Addrip_v4 39"
    by (simp_all add: ex_ranges_def addrip_le_iff addrip_less_iff)
  moreover have "\<not> CheckAddrRange ex_ranges (Addrip_v4 30)" "\<not> CheckAddrRange ex_ranges (Addrip_v4 39)"
    "CheckAddrRange ex_ranges (Addrip_v4 25)"
    unfolding addr_range_lookup_aux [OF ex_ranges_table]
    by (simp_all add: ex_ranges_def addrip_le_iff)
  ultimately show ?thesis
    using add_addr_pair_checked [OF ex_ranges_table, of "Addrip_v4 30" "Addrip_v4 39"]
    by (auto simp: addrip_le_iff split: prod.splits)
qed

text \<open>
  the check of \<open>AddAddrPair\<close> does not keep the ranges disjoint: a range that strictly
  encloses a stored one is accepted, and \<open>CheckAddrRange\<close> then misses its own last address.
\<close>

theorem enclosing_range_breaks_lookup:
  assumes "lo < s" and "s \<le> e" and "e < hi"
  shows "\<exists>m'. AddAddrPair lo hi True [(s, e)] = (True, m') \<and> (lo, hi) \<in> set m' \<and> \<not> CheckAddrRange m' hi"
proof -
  have "\<not> hi \<le> e" "\<not> s \<le> lo" "\<not> lo = s" "lo < hi" "s < hi"
    using assms by auto
  then show ?thesis using assms
    by (simp add: AddAddrPair_def CheckAddrRange_def lookup_near_def sm_lower_bound_def sm_before_def
        hit_range_def Let_def)
qed

theorem enclosing_range_breaks_lookup_witness:
  "\<exists>m'. AddAddrPair (Addrip_v4 10) (Addrip_v4 90) True [(Addrip_v4 40, Addrip_v4 50)] = (True, m')
     \<and> (Addrip_v4 10, Addrip_v4 90) \<in> set m' \<and> \<not> CheckAddrRange m' (Addrip_v4 90)"
  by (rule enclosing_range_breaks_lookup) (simp_all add: addrip_le_iff addrip_less_iff)

text \<open>
  on a table of disjoint networks both overloads of \<open>check_addr_network\<close> hold exactly for
  the addresses of a stored network, and the output parameters are this network and its mask.
\<close>

theorem addr_network_lookup:
  assumes "network_table m"
  shows "check_addr_network m a = (\<exists>p \<in> set m. m_addr (fst p) = m_addr a AND m_addr (snd p))
    \<and> (\<forall>p. (check_addr_network3 m a = Some p) = (p \<in> set m \<and> m_addr (fst p) = m_addr a AND m_addr (snd p)))"
proof -
  have h: "hit_network p a = (m_addr (fst p) = m_addr a AND m_addr (snd p))" if "p \<in> set m" for p
    using assms that by (auto simp: network_table_def hit_network_def)
  note near = addr_networks.near_iff [OF network_table_separated [OF assms], of a]
    addr_networks.near_complete [OF network_table_separated [OF assms], of _ a]
    addr_networks.near_sound [of m a]
  show ?thesis
    unfolding check_addr_network_def check_addr_network3_def using near h by blast
qed

definition ex_networks :: addr_items where
  "ex_networks = [(Addrip_v4 0x0A000000, Addrip_v4 0xFF000000), (Addrip_v4 0xC0A80000, Addrip_v4 0xFFFFFF00)]"

theorem addr_network_lookup_witness:
  "check_addr_network3 ex_networks (Addrip_v4 0xC0A80017) = Some (Addrip_v4 0xC0A80000, Addrip_v4 0xFFFFFF00)
   \<and> \<not> check_addr_network ex_networks (Addrip_v4 0xC0A80117)"
proof -
  have "network_table ex_networks"
    by (simp add: network_table_def ex_networks_def sm_wf_def addrip_less_iff last_addr_def)
  from addr_network_lookup [OF this] show ?thesis by (simp add: ex_networks_def)
qed

text \<open>
  \<open>import_from_txt\<close> reads none of the ranges \<open>export_to_txt\<close> writes. Whatever the table,
  importing its exported text succeeds and gives an empty table, every range being reported as a
  problem, since the checked \<open>from_string\<close> refuses each printed address.
\<close>

theorem import_loses_export:
  "\<exists>t' backup. import_from_txt (Some (ftime, export_to_txt [] t)) = (True, t', Some backup)
     \<and> at_items t' = []"
proof -
  let ?line = "\<lambda>(s, e). ip_to_string s @ '' '' @ ip_to_string e @ newline"
  have pairs: "fst (import_lines k (getlines [] (concat (map ?line ps))) [] r) = []" for ps k r
  proof (induction ps arbitrary: k r)
    case (Cons p ps)
    obtain s e where p: "p = (s, e)" by force
    have "CHR 0x0A \<notin> set (ip_to_string s @ '' '' @ ip_to_string e)" using ip_char_class by auto
    from getlines_line [OF this, of "[]"] show ?case
      using Cons.IH import_line_exported by (simp add: p)
  qed simp
  have head: "fst (import_lines k (getlines [] (CHR ''/'' # s @ newline @ x)) [] r) =
      fst (import_lines (k + 1) (getlines [] x) [] r)" if "CHR 0x0A \<notin> set s" for k s x r
    using getlines_line [of "CHR ''/'' # s" "[]" x] that by (simp add: import_line_comment)
  have "CHR 0x0A \<notin> set (print_u n)" for n
    using print_u_digits [of n] by (auto simp: list_all_iff is_digit_def)
  then have nl: "CHR 0x0A \<notin> set (''/ Number of records: '' @ print_u n)" for n by simp
  have "fst (import_lines 0 (getlines [] (export_to_txt [] t)) [] []) = []"
    using head [OF nl, of 0 "length (at_items t)" "''//'' @ newline @ concat (map ?line (at_items t))" "[]"]
      head [of "''/''" 1 "concat (map ?line (at_items t))" "[]"] pairs
    by (simp add: export_to_txt_def)
  then show ?thesis
    by (auto simp: import_from_txt_def Let_def split: prod.splits)
qed

text \<open>
  the XML text of a table is read back completely: from the \<open>Addr\<close> nodes written for the
  items in order, the node handler rebuilds the items.
\<close>

theorem addr_xml_roundtrip:
  assumes "sm_wf m"
  shows "fold catch_addr_value (map addr_pair_xml m) [] = m"
  using addr_pairs_parse [of "[]" m] assms by (simp add: fold_map comp_def)

theorem addr_xml_roundtrip_witness:
  "fold catch_addr_value (map addr_pair_xml ex_ranges) [] = ex_ranges"
  by (rule addr_xml_roundtrip) (use ex_ranges_table in \<open>simp add: range_table_def\<close>)

end
