(* ===== verification/FilterCnt.thy ===== *)
theory FilterCnt
  imports Prelude "HOL-Library.Signed_Division"
begin

text \<open>
  \<open>corefilters/filtercnt.{h,cpp}\<close>: the byte counters of a filter and their speed history, and
  \<open>corefilters/filterset_data.{h,cpp}\<close>: the ring of time points the histories share. The
  counters are signed 64-bit words that wrap; \<open>sint\<close> reads them. Each atomic counter is a
  field, each operation one atomic step. An array index outside the array is \<open>None\<close>.
\<close>

definition MAXVALUES :: nat where [utm_consts]: "MAXVALUES = 1400"
definition REFRESH_INTERVAL :: int where [utm_consts]: "REFRESH_INTERVAL = 2"

section \<open>Counters\<close>

record filtercnt =
  cnt_prev :: i64
  cnt :: i64
  cnt_xml :: i64
  cnt_xml2 :: i64
  cnt_logdb :: i64
  cnt_set :: "u16 list"
  cnt_momspeed1 :: u32
  cnt_speed :: u32

definition cnt_reset :: "bool \<Rightarrow> filtercnt \<Rightarrow> filtercnt" where
  "cnt_reset also_reset_history f =
     (let f1 = f\<lparr>cnt := 0, cnt_prev := 0\<rparr> in
      if also_reset_history
      then f1\<lparr>cnt_logdb := 0, cnt_xml := 0, cnt_xml2 := 0, cnt_momspeed1 := 0,
              cnt_set := replicate MAXVALUES 0\<rparr>
      else f1)"

text \<open>The constructor runs \<open>reset(true)\<close>, which leaves \<open>cnt_speed\<close> as it finds it: \<open>u\<close>.\<close>

definition filtercnt_new :: "u32 \<Rightarrow> filtercnt" where
  "filtercnt_new u = cnt_reset True
     \<lparr>cnt_prev = 0, cnt = 0, cnt_xml = 0, cnt_xml2 = 0, cnt_logdb = 0, cnt_set = [],
      cnt_momspeed1 = 0, cnt_speed = u\<rparr>"

definition cnt_copy :: "filtercnt \<Rightarrow> filtercnt \<Rightarrow> filtercnt" where
  "cnt_copy fc f =
     f\<lparr>cnt_prev := cnt_prev fc, cnt := cnt fc, cnt_xml := cnt_xml fc, cnt_xml2 := cnt_xml2 fc,
       cnt_logdb := cnt_logdb fc, cnt_set := cnt_set fc, cnt_momspeed1 := cnt_momspeed1 fc,
       cnt_speed := cnt_speed fc\<rparr>"

definition get_cnt :: "filtercnt \<Rightarrow> int" where "get_cnt f = sint (cnt f)"
definition set_cnt :: "i64 \<Rightarrow> filtercnt \<Rightarrow> filtercnt" where "set_cnt v f = f\<lparr>cnt := v\<rparr>"
definition set_cnt_with_prev :: "i64 \<Rightarrow> filtercnt \<Rightarrow> filtercnt" where
  "set_cnt_with_prev v f = f\<lparr>cnt := v, cnt_prev := v\<rparr>"
definition add_cnt :: "i64 \<Rightarrow> filtercnt \<Rightarrow> filtercnt" where "add_cnt v f = f\<lparr>cnt := cnt f + v\<rparr>"
definition add_cnt_with_prev :: "i64 \<Rightarrow> filtercnt \<Rightarrow> filtercnt" where
  "add_cnt_with_prev v f = f\<lparr>cnt := cnt f + v, cnt_prev := cnt_prev f + v\<rparr>"

definition set_xml :: "i64 \<Rightarrow> filtercnt \<Rightarrow> filtercnt" where "set_xml v f = f\<lparr>cnt_xml := v\<rparr>"
definition add_xml :: "i64 \<Rightarrow> filtercnt \<Rightarrow> filtercnt" where "add_xml v f = f\<lparr>cnt_xml := cnt_xml f + v\<rparr>"
definition set_xml2 :: "i64 \<Rightarrow> filtercnt \<Rightarrow> filtercnt" where "set_xml2 v f = f\<lparr>cnt_xml2 := v\<rparr>"
definition add_xml2 :: "i64 \<Rightarrow> filtercnt \<Rightarrow> filtercnt" where "add_xml2 v f = f\<lparr>cnt_xml2 := cnt_xml2 f + v\<rparr>"
definition set_logdb :: "i64 \<Rightarrow> filtercnt \<Rightarrow> filtercnt" where "set_logdb v f = f\<lparr>cnt_logdb := v\<rparr>"
definition add_logdb :: "i64 \<Rightarrow> filtercnt \<Rightarrow> filtercnt" where "add_logdb v f = f\<lparr>cnt_logdb := cnt_logdb f + v\<rparr>"

section \<open>Packed speeds\<close>

definition pack_speed :: "u32 \<Rightarrow> u16" where
  "pack_speed speed = (if speed < 131072 then ucast (drop_bit 2 speed)
                       else ucast (0x8000 OR drop_bit 10 speed))"

definition unpack_speed :: "u16 \<Rightarrow> u32" where
  "unpack_speed p = (if p < 0x8000 then push_bit 2 (ucast p) else push_bit 10 (ucast p AND 0x7FFF))"

section \<open>Refresh\<close>

text \<open>The array index of the point \<open>c\<close> steps back; unsigned arithmetic.\<close>

definition back_index :: "u32 \<Rightarrow> u32 \<Rightarrow> u32 \<Rightarrow> u32" where
  "back_index total_points next_point c =
     (if next_point \<ge> c then next_point - c else (total_points + next_point) - c)"

text \<open>
  The averaging loop \<open>for (c = 1; c < 5; c++)\<close>: the list is the values of \<open>c\<close> still to come,
  the result the sum and the final \<open>c\<close>.
\<close>

fun momspeed_loop :: "u16 list \<Rightarrow> u32 \<Rightarrow> u32 \<Rightarrow> nat list \<Rightarrow> u32 \<Rightarrow> (u32 \<times> nat) option" where
  "momspeed_loop cs total_points next_point [] momspeed1 = Some (momspeed1, 5)"
| "momspeed_loop cs total_points next_point (c # rest) momspeed1 =
     (if total_points < of_nat c then Some (momspeed1, c)
      else let n = unat (back_index total_points next_point (of_nat c)) in
        if n < length cs
        then momspeed_loop cs total_points next_point rest (momspeed1 + unpack_speed (cs ! n))
        else None)"

definition do_refresh :: "u32 \<Rightarrow> u32 \<Rightarrow> filtercnt \<Rightarrow> filtercnt option" where
  "do_refresh total_points next_point f =
     (let local_cnt = cnt f;
          d = local_cnt - cnt_prev f;
          delta = (if sint d < 0 then - d else d);
          speed = of_int (sint delta sdiv REFRESH_INTERVAL);
          f1 = f\<lparr>cnt_prev := local_cnt, cnt_speed := speed\<rparr>
      in if unat next_point < length (cnt_set f)
         then let f2 = f1\<lparr>cnt_set := (cnt_set f)[unat next_point := pack_speed speed]\<rparr>;
                  f3 = (if delta \<noteq> 0
                        then add_logdb delta (add_xml2 delta (add_xml delta f2)) else f2)
              in map_option (\<lambda>(sum, c). f3\<lparr>cnt_momspeed1 := sum div of_nat c\<rparr>)
                   (momspeed_loop (cnt_set f3) total_points next_point [1, 2, 3, 4] speed)
         else None)"

text \<open>
  The speed array sent to a console, newest point first: the words \<open>select_speedarray_base64\<close>
  encodes, and whether any of them is not 0 (otherwise nothing is encoded).
\<close>

definition select_speedarray :: "u32 \<Rightarrow> u32 \<Rightarrow> nat \<Rightarrow> filtercnt \<Rightarrow> (u16 list \<times> bool) option" where
  "select_speedarray total_points next_point count f =
     (let idx = (\<lambda>c. unat (back_index total_points next_point (of_nat c)));
          cs = [1 ..< Suc count]
      in if list_all (\<lambda>c. of_nat c < total_points \<longrightarrow> idx c < length (cnt_set f)) cs
         then let a = map (\<lambda>c. if total_points > of_nat c then cnt_set f ! idx c else 0) cs
              in Some (a, list_ex (\<lambda>w. w \<noteq> 0) a)
         else None)"

section \<open>The exact effect of packing\<close>

lemma unat_drop_u32: "unat (drop_bit n w) = unat w div 2 ^ n" for w :: u32
  unfolding unat_drop_bit_eq by (simp only: drop_bit_eq_div)

lemma unat_ucast16: "unat (ucast w :: u16) = unat w mod 65536" for w :: u32
  by (simp add: unsigned_ucast_eq take_bit_eq_mod)

lemma packed_high_bit:
  fixes v h :: u32
  assumes c: "\<And>n. bit h n \<longleftrightarrow> n = 15"
  shows "bit (ucast (h OR v) :: u16) 15" and "ucast (ucast (h OR v) :: u16) AND mask 15 = take_bit 15 v"
proof -
  show "bit (ucast (h OR v) :: u16) 15" by (simp add: bit_ucast_iff bit_or_iff c)
  show "ucast (ucast (h OR v) :: u16) AND mask 15 = take_bit 15 v"
    by (rule bit_word_eqI) (auto simp: bit_ucast_iff bit_or_iff bit_and_iff bit_mask_iff bit_take_bit_iff c)
qed

lemma packed_fast:
  fixes v :: u32
  shows "\<not> (ucast (0x8000 OR v) :: u16) < 0x8000"
    and "ucast (ucast (0x8000 OR v) :: u16) AND (0x7FFF :: u32) = take_bit 15 v"
proof -
  have "bit ((2 :: u32) ^ 15) n \<longleftrightarrow> n = 15" for n
    by (simp only: bit_exp_iff possible_bit_word) auto
  then have c: "bit (0x8000 :: u32) n \<longleftrightarrow> n = 15" for n by simp
  have m: "(0x7FFF :: u32) = mask 15" by (simp add: mask_eq_exp_minus_1)
  show "ucast (ucast (0x8000 OR v) :: u16) AND (0x7FFF :: u32) = take_bit 15 v"
    unfolding m by (rule packed_high_bit(2) [OF c])
  define p :: u16 where "p = ucast (0x8000 OR v)"
  have "bit p 15" unfolding p_def by (rule packed_high_bit(1) [OF c])
  then have "drop_bit 15 p \<noteq> 0" by (auto simp: bit_eq_iff bit_simps intro!: exI [of _ 0])
  then have "unat p div 2 ^ 15 \<noteq> 0" by (metis drop_bit_eq_div unat_drop_bit_eq unat_eq_zero)
  then have "\<not> unat p < 2 ^ 15" by auto
  then show "\<not> (ucast (0x8000 OR v) :: u16) < 0x8000" by (simp add: word_less_nat_alt p_def)
qed

lemma unpack_pack_slow: "unat s < 131072 \<Longrightarrow> unat (unpack_speed (pack_speed s)) = unat s div 4 * 4"
proof -
  assume s: "unat s < 131072"
  then have "s < 131072" by (simp add: word_less_nat_alt)
  then have p: "pack_speed s = ucast (drop_bit 2 s)" by (simp add: pack_speed_def)
  have u: "unat (pack_speed s) = unat s div 4"
    using s by (simp add: p unat_ucast16 unat_drop_u32)
  then have "pack_speed s < 0x8000" using s by (simp add: word_less_nat_alt)
  then have "unpack_speed (pack_speed s) = push_bit 2 (ucast (pack_speed s))" by (simp add: unpack_speed_def)
  also have "\<dots> = ucast (pack_speed s) * 4" by (simp add: push_bit_eq_mult)
  finally show ?thesis
    using s u by (simp only:) (subst unat_mult_no_overflow, simp_all add: unsigned_ucast_eq take_bit_eq_mod)
qed

lemma unpack_pack_fast:
  "\<not> unat s < 131072 \<Longrightarrow> unat (unpack_speed (pack_speed s)) = unat s mod 2 ^ 25 div 1024 * 1024"
proof -
  assume s: "\<not> unat s < 131072"
  then have "\<not> s < 131072" by (simp add: word_less_nat_alt)
  then have p: "pack_speed s = ucast (0x8000 OR drop_bit 10 s)" by (simp add: pack_speed_def)
  have "unpack_speed (pack_speed s) = push_bit 10 (take_bit 15 (drop_bit 10 s))"
    using packed_fast [of "drop_bit 10 s"] unfolding p unpack_speed_def by (simp only: if_False)
  also have "\<dots> = take_bit 15 (drop_bit 10 s) * 1024" by (simp add: push_bit_eq_mult)
  finally have e: "unpack_speed (pack_speed s) = take_bit 15 (drop_bit 10 s) * 1024" .
  have t: "unat (take_bit 15 (drop_bit 10 s)) = unat s div 1024 mod 32768"
    by (simp only: unsigned_take_bit_eq unat_drop_u32) (simp add: take_bit_eq_mod)
  have "unat s div 1024 mod 32768 \<le> 32767" by simp
  then have "unat (unpack_speed (pack_speed s)) = unat s div 1024 mod 32768 * 1024"
    unfolding e by (subst unat_mult_no_overflow) (simp_all add: t)
  also have "unat s div 1024 mod 32768 = unat s mod 2 ^ 25 div 1024"
    using mod_mult2_eq [of "unat s" 1024 32768] by simp
  finally show ?thesis .
qed

section \<open>Traffic accounting\<close>

text \<open>
  What happens to a counter between two resets: packets are counted by \<open>add_cnt\<close>, and a timer
  runs \<open>do_refresh\<close> for the current point of the history.
\<close>

datatype cnt_op = Add_traffic u32 | Refresh u32 u32

fun run_cnt :: "cnt_op list \<Rightarrow> filtercnt \<Rightarrow> filtercnt option" where
  "run_cnt [] f = Some f"
| "run_cnt (Add_traffic n # ops) f = run_cnt ops (add_cnt (ucast n) f)"
| "run_cnt (Refresh tp np # ops) f =
     (case do_refresh tp np f of None \<Rightarrow> None | Some f' \<Rightarrow> run_cnt ops f')"

fun valid_op :: "cnt_op \<Rightarrow> bool" where
  "valid_op (Add_traffic n) = True"
| "valid_op (Refresh tp np) = (unat np < MAXVALUES \<and> unat tp \<le> MAXVALUES)"

fun op_traffic :: "cnt_op \<Rightarrow> nat" where
  "op_traffic (Add_traffic n) = unat n"
| "op_traffic (Refresh tp np) = 0"

definition cnt_inv :: "nat \<Rightarrow> filtercnt \<Rightarrow> bool" where
  "cnt_inv t f \<longleftrightarrow> unat (cnt f) = t \<and> unat (cnt_prev f) \<le> t \<and> length (cnt_set f) = MAXVALUES
     \<and> cnt_xml f = cnt_prev f \<and> cnt_xml2 f = cnt_prev f \<and> cnt_logdb f = cnt_prev f"

lemma sint_small:
  fixes d :: i64
  assumes "unat d < 2 ^ 63"
  shows "sint d = int (unat d)"
proof -
  have u: "uint d = int (unat d)" by simp
  have "signed_take_bit 63 (int (unat d)) = int (unat d)"
  proof (rule signed_take_bit_int_eq_self)
    show "- (2 ^ 63) \<le> int (unat d)" by (rule order_trans [of _ 0]) simp_all
    have "int (unat d) < int (2 ^ 63)" using assms by (simp only: of_nat_less_iff)
    then show "int (unat d) < 2 ^ 63" by (simp only: of_nat_power of_nat_numeral)
  qed
  then show ?thesis using sint_uint [of d] unfolding u by simp
qed

lemma back_index_bound:
  assumes "unat np < MAXVALUES" and "unat tp \<le> MAXVALUES" and "\<not> tp < of_nat c" and "c < 5"
  shows "unat (back_index tp np (of_nat c)) < MAXVALUES"
proof -
  have c: "unat (of_nat c :: u32) = c" using assms(4) by (simp add: unat_of_nat)
  have ct: "c \<le> unat tp" using assms(3) c by (simp add: word_less_nat_alt)
  show ?thesis
  proof (cases "np \<ge> of_nat c")
    case True
    then have "unat (np - of_nat c) = unat np - c" by (simp add: unat_sub c)
    then show ?thesis using True assms(1) by (simp add: back_index_def)
  next
    case False
    then have np: "unat np < c" by (simp add: word_le_nat_alt c)
    have s: "unat (tp + np) = unat tp + unat np"
      by (rule unat_add_no_overflow) (use assms(1,2) in \<open>simp add: utm_consts\<close>)
    have "unat (tp + np - of_nat c) = unat tp + unat np - c"
      using ct by (subst unat_sub) (simp_all add: word_le_nat_alt s c)
    then show ?thesis using False assms(2) np ct by (simp add: back_index_def)
  qed
qed

lemma momspeed_loop_returns:
  assumes "unat np < MAXVALUES" and "unat tp \<le> MAXVALUES" and "length cs = MAXVALUES"
  shows "\<forall>c \<in> set l. c < 5 \<Longrightarrow> \<exists>r. momspeed_loop cs tp np l m = Some r"
proof (induction l arbitrary: m)
  case (Cons c l)
  then show ?case using back_index_bound [OF assms(1,2), of c] assms(3) by (simp add: Let_def)
qed simp

lemma add_cnt_inv [utm_inv]:
  fixes n :: u32
  assumes "cnt_inv t f" and "t + unat n < 2 ^ 63"
  shows "cnt_inv (t + unat n) (add_cnt (ucast n) f)"
proof -
  have n: "unat (ucast n :: i64) = unat n"
    using unat_u32_bound [of n] by (simp add: unsigned_ucast_eq take_bit_eq_mod)
  have "unat (cnt f + ucast n) = t + unat n"
    using assms by (subst unat_add_no_overflow) (simp_all add: n cnt_inv_def)
  then show ?thesis using assms(1) by (simp add: cnt_inv_def add_cnt_def)
qed

lemma do_refresh_inv [utm_inv]:
  assumes "cnt_inv t f" and "t < 2 ^ 63" and "valid_op (Refresh tp np)"
  shows "\<exists>f'. do_refresh tp np f = Some f' \<and> cnt_inv t f'"
proof -
  let ?d = "cnt f - cnt_prev f"
  have inv: "unat (cnt f) = t" "unat (cnt_prev f) \<le> t" "length (cnt_set f) = MAXVALUES"
    "cnt_xml f = cnt_prev f" "cnt_xml2 f = cnt_prev f" "cnt_logdb f = cnt_prev f"
    using assms(1) by (auto simp: cnt_inv_def)
  have "unat ?d = t - unat (cnt_prev f)" using inv by (subst unat_sub) (auto simp: word_le_nat_alt)
  then have nn: "\<not> sint ?d < 0" using assms(2) sint_small [of ?d] by simp
  have loop: "\<exists>r. momspeed_loop cs tp np [1, 2, 3, 4] m = Some r" if "length cs = MAXVALUES" for cs m
    using assms(3) that by (intro momspeed_loop_returns) auto
  define speed :: u32 where "speed = of_int (sint ?d sdiv REFRESH_INTERVAL)"
  define cs where "cs = (cnt_set f)[unat np := pack_speed speed]"
  define f2 where "f2 = f\<lparr>cnt_prev := cnt f, cnt_speed := speed, cnt_set := cs\<rparr>"
  define f3 where "f3 = (if ?d \<noteq> 0 then add_logdb ?d (add_xml2 ?d (add_xml ?d f2)) else f2)"
  have f3: "cnt_set f3 = cs" "cnt_inv t f3"
    using inv by (auto simp: f3_def f2_def cnt_inv_def add_xml_def add_xml2_def add_logdb_def cs_def)
  obtain sum c where r: "momspeed_loop cs tp np [1, 2, 3, 4] speed = Some (sum, c)"
    using loop [of cs] inv(3) by (force simp: cs_def)
  have "do_refresh tp np f = map_option (\<lambda>(sum, c). f3\<lparr>cnt_momspeed1 := sum div of_nat c\<rparr>)
      (momspeed_loop (cnt_set f3) tp np [1, 2, 3, 4] speed)"
    using nn inv(3) assms(3)
    unfolding do_refresh_def Let_def f3_def f2_def cs_def speed_def by simp
  then have "do_refresh tp np f = Some (f3\<lparr>cnt_momspeed1 := sum div of_nat c\<rparr>)"
    unfolding f3(1) r by simp
  moreover have "cnt_inv t (f3\<lparr>cnt_momspeed1 := sum div of_nat c\<rparr>)"
    using f3(2) by (simp add: cnt_inv_def)
  ultimately show ?thesis by blast
qed

lemma run_cnt_inv:
  "\<lbrakk>cnt_inv t f; \<forall>x \<in> set ops. valid_op x; t + sum_list (map op_traffic ops) < 2 ^ 63\<rbrakk> \<Longrightarrow>
   \<exists>f'. run_cnt ops f = Some f' \<and> cnt_inv (t + sum_list (map op_traffic ops)) f'"
proof (induction ops f arbitrary: t rule: run_cnt.induct)
  case (2 n ops f)
  have inv: "cnt_inv (t + unat n) (add_cnt (ucast n) f)"
    by (rule add_cnt_inv) (use 2(2,4) in simp_all)
  have "\<forall>x \<in> set ops. valid_op x" "t + unat n + sum_list (map op_traffic ops) < 2 ^ 63"
    using 2(3,4) by simp_all
  from "2.IH" [OF inv this] show ?case by (simp add: add.assoc)
next
  case (3 tp np ops f)
  have v: "valid_op (Refresh tp np)" "\<forall>x \<in> set ops. valid_op x" using 3(3) by simp_all
  have t: "t + sum_list (map op_traffic ops) < 2 ^ 63" using 3(4) by simp
  obtain f' where f': "do_refresh tp np f = Some f'" "cnt_inv t f'"
    using do_refresh_inv [OF 3(2) _ v(1)] t by (meson add_lessD1)
  from "3.IH" [OF f'(1,2) v(2) t] show ?case by (simp add: f'(1))
qed simp

section \<open>Properties\<close>

text \<open>
  what a console shows of a speed. Below 128 KiB/s a packed and unpacked speed is the speed
  rounded down to a multiple of 4; above, it is rounded down to a multiple of 1024, but only
  after reduction modulo 2^25: from 32 MiB/s on the displayed speed wraps to 0.
\<close>

theorem pack_speed_exact:
  "unat (unpack_speed (pack_speed s)) =
     (if unat s < 131072 then unat s div 4 * 4 else unat s mod 2 ^ 25 div 1024 * 1024)"
  using unpack_pack_slow unpack_pack_fast by simp

text \<open>
  C21: every byte is reported exactly once. From a new counter, run any sequence of counted
  packets and refreshes at points of the ring whose total is below 2^63. It runs without
  leaving the history array; the counter holds the total, and each of the three report
  accumulators holds what had been counted at the last refresh: with the bytes counted since,
  again the total.
\<close>

theorem reports_count_every_byte:
  assumes "\<forall>x \<in> set ops. valid_op x" and "sum_list (map op_traffic ops) < 2 ^ 63"
  shows "\<exists>f. run_cnt ops (filtercnt_new u) = Some f
    \<and> unat (cnt f) = sum_list (map op_traffic ops)
    \<and> unat (cnt_xml f) + unat (cnt f - cnt_prev f) = sum_list (map op_traffic ops)
    \<and> cnt_xml2 f = cnt_xml f \<and> cnt_logdb f = cnt_xml f"
proof -
  have "cnt_inv 0 (filtercnt_new u)"
    by (simp add: cnt_inv_def filtercnt_new_def cnt_reset_def Let_def)
  from run_cnt_inv [OF this assms(1)] assms(2) obtain f
    where f: "run_cnt ops (filtercnt_new u) = Some f" "cnt_inv (sum_list (map op_traffic ops)) f" by auto
  have "unat (cnt f - cnt_prev f) = unat (cnt f) - unat (cnt_prev f)"
    using f(2) by (subst unat_sub) (auto simp: cnt_inv_def word_le_nat_alt)
  then show ?thesis using f by (auto simp: cnt_inv_def)
qed

theorem reports_count_every_byte_witness:
  "\<exists>f. run_cnt [Add_traffic 60, Refresh 0 0, Add_traffic 1500, Refresh 1 1, Add_traffic 40] (filtercnt_new 0) = Some f
     \<and> unat (cnt f) = 1600"
  using reports_count_every_byte [of "[Add_traffic 60, Refresh 0 0, Add_traffic 1500, Refresh 1 1, Add_traffic 40]" 0]
  by (auto simp: utm_consts)

end
