(* ===== verification/FilterSetData.thy ===== *)
theory FilterSetData
  imports FilterCnt
begin

text \<open>
  \<open>corefilters/filterset_data.{h,cpp}\<close>: the ring of the last \<open>MAXVALUES\<close> time points. Every
  refresh stores a sequence number and a time; a console asks for the points after the last
  sequence number it has (\<open>create_diff\<close>).
\<close>

record filterset_data =
  total_points :: u32
  next_point :: u32
  next_seqnum :: u32
  seqnum_array :: "u32 list"
  time_array :: "u32 list"

definition fd_clear :: filterset_data where
  "fd_clear = \<lparr>total_points = 0, next_point = 0, next_seqnum = 0,
     seqnum_array = replicate MAXVALUES 0, time_array = replicate MAXVALUES 0\<rparr>"

text \<open>\<open>time_t\<close> is cut to the 32-bit \<open>fdata_time\<close>.\<close>

definition goto_next_point :: "int \<Rightarrow> u32 \<Rightarrow> filterset_data \<Rightarrow> filterset_data option" where
  "goto_next_point current_time current_seqnum fd =
     (let fd1 = (if current_seqnum \<noteq> 0 then fd\<lparr>next_seqnum := current_seqnum\<rparr> else fd);
          n = unat (next_point fd1)
      in if n < length (seqnum_array fd1) \<and> n < length (time_array fd1)
         then Some (fd1\<lparr>seqnum_array := (seqnum_array fd1)[n := next_seqnum fd1],
                time_array := (time_array fd1)[n := of_int current_time],
                total_points := (if unat (total_points fd1) < MAXVALUES then total_points fd1 + 1
                                 else total_points fd1),
                next_point := (if unat (next_point fd1) \<ge> MAXVALUES - 1 then 0 else next_point fd1 + 1),
                next_seqnum := next_seqnum fd1 + 1\<rparr>)
         else None)"

definition get_current_point :: "filterset_data \<Rightarrow> nat" where
  "get_current_point fd =
     (if total_points fd = 0 then 0
      else if next_point fd = 0 \<or> unat (next_point fd) \<ge> MAXVALUES - 1 then MAXVALUES - 1
      else unat (next_point fd - 1))"

definition is_point_array_full :: "filterset_data \<Rightarrow> bool" where
  "is_point_array_full fd \<longleftrightarrow> unat (total_points fd) \<ge> MAXVALUES"

definition get_current_seqnum :: "filterset_data \<Rightarrow> u32" where
  "get_current_seqnum fd = (if next_seqnum fd = 0 then 0 else next_seqnum fd - 1)"

text \<open>The output parameter \<open>start_index\<close> keeps its value when the ring is not full.\<close>

definition calc_start_last_index :: "u32 \<Rightarrow> u32 \<Rightarrow> nat \<Rightarrow> nat \<times> nat" where
  "calc_start_last_index tpoints npoint start_index =
     (if unat tpoints < MAXVALUES then (start_index, unat tpoints)
      else (unat npoint, unat npoint + MAXVALUES))"

text \<open>The inner loop of \<open>create_diff\<close>: \<open>k\<close> counts up, \<open>i\<close> runs along the ring.\<close>

fun copy_points :: "filterset_data \<Rightarrow> nat \<Rightarrow> nat \<Rightarrow> nat \<Rightarrow> filterset_data \<Rightarrow> filterset_data" where
  "copy_points fd 0 k i r = r"
| "copy_points fd (Suc m) k i r =
     copy_points fd m (Suc k) (Suc i)
       (r\<lparr>time_array := (time_array r)[k := time_array fd ! (i mod MAXVALUES)],
          seqnum_array := (seqnum_array r)[k := seqnum_array fd ! (i mod MAXVALUES)]\<rparr>)"

text \<open>The outer loop over the indices still to visit; \<open>Inl ()\<close> is the exception.\<close>

fun create_diff_loop ::
  "filterset_data \<Rightarrow> u32 \<Rightarrow> nat \<Rightarrow> nat list \<Rightarrow> filterset_data \<Rightarrow> unit + nat \<times> nat \<times> filterset_data"
where
  "create_diff_loop fd seqnum last_index [] r = Inr (0, 0, r)"
| "create_diff_loop fd seqnum last_index (i # is) r =
     (if seqnum < seqnum_array fd ! (i mod MAXVALUES)
      then (let diff_size = last_index - i in
            if diff_size \<le> MAXVALUES then Inr (diff_size, i, copy_points fd diff_size 0 i r) else Inl ())
      else create_diff_loop fd seqnum last_index is r)"

definition create_diff ::
  "filterset_data \<Rightarrow> u32 \<Rightarrow> filterset_data \<Rightarrow> unit + nat \<times> nat \<times> filterset_data"
where
  "create_diff fd seqnum self =
     (let r = self\<lparr>total_points := total_points fd, next_point := next_point fd, next_seqnum := next_seqnum fd\<rparr>;
          (start_index, last_index) = calc_start_last_index (total_points fd) (next_point fd) 0
      in create_diff_loop fd seqnum last_index [start_index ..< last_index] r)"

section \<open>The window of points\<close>

definition fd_wf :: "filterset_data \<Rightarrow> bool" where
  "fd_wf fd \<longleftrightarrow> length (seqnum_array fd) = MAXVALUES \<and> length (time_array fd) = MAXVALUES
     \<and> unat (next_point fd) < MAXVALUES \<and> unat (total_points fd) \<le> MAXVALUES
     \<and> (unat (total_points fd) < MAXVALUES \<longrightarrow> next_point fd = total_points fd)"

definition fd_point :: "filterset_data \<Rightarrow> nat \<Rightarrow> u32 \<times> u32" where
  "fd_point fd i = (seqnum_array fd ! (i mod MAXVALUES), time_array fd ! (i mod MAXVALUES))"

definition fd_slot :: "filterset_data \<Rightarrow> nat \<Rightarrow> u32 \<times> u32" where
  "fd_slot r j = (seqnum_array r ! j, time_array r ! j)"

text \<open>
  The entries of an array that runs along the ring, oldest first; the stored points are the
  entries of the arrays of sequence numbers and times.
\<close>

definition ring_points :: "filterset_data \<Rightarrow> (nat \<Rightarrow> 'a) \<Rightarrow> 'a list" where
  "ring_points fd g =
     (let (start_index, last_index) = calc_start_last_index (total_points fd) (next_point fd) 0
      in map (\<lambda>i. g (i mod MAXVALUES)) [start_index ..< last_index])"

definition fd_points :: "filterset_data \<Rightarrow> (u32 \<times> u32) list" where
  "fd_points fd = ring_points fd (fd_slot fd)"

lemma fd_points_window:
  "fd_points fd = (let (start_index, last_index) = calc_start_last_index (total_points fd) (next_point fd) 0
      in map (fd_point fd) [start_index ..< last_index])"
  by (simp add: fd_points_def ring_points_def fd_slot_def fd_point_def [abs_def])

lemma MAXVALUES_pos: "0 < MAXVALUES" by (simp add: utm_consts)

lemma ring_points_length [simp]: "fd_wf fd \<Longrightarrow> length (ring_points fd g) = unat (total_points fd)"
  by (auto simp: ring_points_def calc_start_last_index_def fd_wf_def)

lemma fd_points_length: "fd_wf fd \<Longrightarrow> length (fd_points fd) = unat (total_points fd)"
  by (simp add: fd_points_def)

lemma fd_clear_wf: "fd_wf fd_clear \<and> fd_points fd_clear = []"
  by (simp add: fd_wf_def fd_clear_def fd_points_def ring_points_def calc_start_last_index_def utm_consts)

lemma mod_window:
  fixes n i :: nat
  assumes "n < i" and "i < n + MAXVALUES" and "n < MAXVALUES"
  shows "i mod MAXVALUES \<noteq> n"
proof
  assume e: "i mod MAXVALUES = n"
  then have i: "i = i div MAXVALUES * MAXVALUES + n" by (metis div_mult_mod_eq)
  show False
  proof (cases "i div MAXVALUES")
    case 0
    then show False using i assms by simp
  next
    case (Suc q)
    then have "i = MAXVALUES + q * MAXVALUES + n" using i by simp
    then show False using assms by linarith
  qed
qed

text \<open>
  One step drops the oldest entry of a full ring and appends the one written at the position of
  the next point.
\<close>

lemma ring_step:
  assumes wf: "fd_wf fd"
    and tp: "total_points fd' = (if unat (total_points fd) < MAXVALUES then total_points fd + 1 else total_points fd)"
    and np: "next_point fd' = (if unat (next_point fd) \<ge> MAXVALUES - 1 then 0 else next_point fd + 1)"
    and new: "g' (unat (next_point fd)) = p" and old: "\<And>n. n < MAXVALUES \<Longrightarrow> n \<noteq> unat (next_point fd) \<Longrightarrow> g' n = g n"
  shows "ring_points fd' g' = (if is_point_array_full fd then tl (ring_points fd g) else ring_points fd g) @ [p]"
proof -
  let ?n = "unat (next_point fd)"
  have n: "?n < MAXVALUES" and le: "unat (total_points fd) \<le> MAXVALUES"
    using wf by (auto simp: fd_wf_def)
  have np': "unat (next_point fd') = (if ?n = MAXVALUES - 1 then 0 else ?n + 1)"
    using n by (auto simp: np utm_consts unat_add_no_overflow)
  have tp': "unat (total_points fd') = (if unat (total_points fd) < MAXVALUES
      then unat (total_points fd) + 1 else unat (total_points fd))"
    using le by (auto simp: tp utm_consts unat_add_no_overflow)
  let ?g = "\<lambda>i. g (i mod MAXVALUES)" and ?g' = "\<lambda>i. g' (i mod MAXVALUES)"
  have pt: "?g' i = (if i mod MAXVALUES = ?n then p else ?g i)" for i
    using new old [of "i mod MAXVALUES"] MAXVALUES_pos by auto
  show ?thesis
  proof (cases "unat (total_points fd) < MAXVALUES")
    case False
    then have full: "unat (total_points fd) = MAXVALUES" using le by simp
    have "ring_points fd g = map ?g [?n ..< ?n + MAXVALUES]"
      using full by (simp add: ring_points_def calc_start_last_index_def)
    also have "[?n ..< ?n + MAXVALUES] = ?n # [Suc ?n ..< ?n + MAXVALUES]"
      using MAXVALUES_pos by (simp add: upt_rec)
    finally have o: "tl (ring_points fd g) = map ?g [Suc ?n ..< ?n + MAXVALUES]" by simp
    have "ring_points fd' g' = map ?g' [unat (next_point fd') ..< unat (next_point fd') + MAXVALUES]"
      using tp' full by (simp add: ring_points_def calc_start_last_index_def)
    also have "\<dots> = map ?g' [Suc ?n ..< Suc ?n + MAXVALUES]"
    proof (cases "?n = MAXVALUES - 1")
      case True
      then have "Suc ?n = MAXVALUES" using MAXVALUES_pos by simp
      then show ?thesis using np' True by (auto intro!: nth_equalityI)
    qed (simp add: np')
    also have "\<dots> = map ?g [Suc ?n ..< ?n + MAXVALUES] @ [p]"
      using mod_window [OF _ _ n] n by (auto simp: pt)
    finally show ?thesis using full o by (simp add: is_point_array_full_def)
  next
    case True
    then have eq: "next_point fd = total_points fd" using wf by (simp add: fd_wf_def)
    have o: "ring_points fd g = map ?g [0 ..< ?n]"
      using True by (simp add: ring_points_def calc_start_last_index_def eq)
    have "ring_points fd' g' = map ?g' [0 ..< Suc ?n]"
    proof (cases "?n = MAXVALUES - 1")
      case True
      then have "Suc ?n = MAXVALUES" using MAXVALUES_pos by simp
      then show ?thesis using True np' tp' eq by (simp add: ring_points_def calc_start_last_index_def)
    qed (use True eq np' tp' in \<open>simp add: ring_points_def calc_start_last_index_def\<close>)
    also have "\<dots> = ring_points fd g @ [p]" using n by (auto simp: o pt)
    finally show ?thesis using True by (simp add: is_point_array_full_def)
  qed
qed

text \<open>The step of the ring, its result and the entries it changes.\<close>

lemma goto_next_point_step:
  assumes "fd_wf fd"
  obtains fd' where "goto_next_point t s fd = Some fd'" "fd_wf fd'"
    "total_points fd' = (if unat (total_points fd) < MAXVALUES then total_points fd + 1 else total_points fd)"
    "next_point fd' = (if unat (next_point fd) \<ge> MAXVALUES - 1 then 0 else next_point fd + 1)"
    "next_seqnum fd' = (if s \<noteq> 0 then s else next_seqnum fd) + 1"
    "\<And>n. n < MAXVALUES \<Longrightarrow> fd_slot fd' n = (if n = unat (next_point fd)
       then (if s \<noteq> 0 then s else next_seqnum fd, of_int t) else fd_slot fd n)"
proof -
  let ?n = "unat (next_point fd)"
  have wf: "length (seqnum_array fd) = MAXVALUES" "length (time_array fd) = MAXVALUES"
    "?n < MAXVALUES" "unat (total_points fd) \<le> MAXVALUES"
    using assms by (auto simp: fd_wf_def)
  obtain fd' where fd': "goto_next_point t s fd = Some fd'"
    using wf by (cases "s = 0") (simp_all add: goto_next_point_def Let_def)
  have f: "seqnum_array fd' = (seqnum_array fd)[?n := if s \<noteq> 0 then s else next_seqnum fd]"
    "time_array fd' = (time_array fd)[?n := of_int t]"
    "total_points fd' = (if unat (total_points fd) < MAXVALUES then total_points fd + 1 else total_points fd)"
    "next_point fd' = (if ?n \<ge> MAXVALUES - 1 then 0 else next_point fd + 1)"
    "next_seqnum fd' = (if s \<noteq> 0 then s else next_seqnum fd) + 1"
    using fd' wf by (cases "s = 0"; auto simp: goto_next_point_def Let_def)+
  have slot: "fd_slot fd' n = (if n = ?n then (if s \<noteq> 0 then s else next_seqnum fd, of_int t) else fd_slot fd n)"
    if "n < MAXVALUES" for n
    using that wf by (simp add: fd_slot_def f)
  have "fd_wf fd'"
  proof -
    have "unat (next_point fd') = (if ?n = MAXVALUES - 1 then 0 else ?n + 1)"
      using wf(3) by (auto simp: f utm_consts unat_add_no_overflow)
    moreover have "unat (total_points fd') = (if unat (total_points fd) < MAXVALUES
        then unat (total_points fd) + 1 else unat (total_points fd))"
      using wf(4) by (auto simp: f utm_consts unat_add_no_overflow)
    ultimately show ?thesis
      using wf assms by (auto simp: fd_wf_def f)
  qed
  then show ?thesis using slot by (rule that [OF fd' _ f(3-5)])
qed

lemma goto_next_point_refines:
  assumes "fd_wf fd"
  shows "\<exists>fd'. goto_next_point t s fd = Some fd' \<and> fd_wf fd'
    \<and> fd_points fd' = (if is_point_array_full fd then tl (fd_points fd) else fd_points fd)
        @ [(if s \<noteq> 0 then s else next_seqnum fd, of_int t)]"
proof (rule goto_next_point_step [OF assms, of t s], goal_cases)
  case (1 fd')
  have "unat (next_point fd) < MAXVALUES" using assms by (simp add: fd_wf_def)
  then have "ring_points fd' (fd_slot fd') = (if is_point_array_full fd then tl (ring_points fd (fd_slot fd))
      else ring_points fd (fd_slot fd)) @ [(if s \<noteq> 0 then s else next_seqnum fd, of_int t)]"
    by (intro ring_step [OF assms 1(3,4)]) (simp_all only: 1(6) if_True if_False refl)
  then show ?case using 1(1,2) by (simp only: fd_points_def) blast
qed

lemma copy_points_slot:
  "\<lbrakk>length (seqnum_array r) = MAXVALUES; length (time_array r) = MAXVALUES; k + m \<le> MAXVALUES\<rbrakk> \<Longrightarrow>
   fd_slot (copy_points fd m k i r) j = (if k \<le> j \<and> j < k + m then fd_point fd (i + (j - k)) else fd_slot r j)"
proof (induction fd m k i r rule: copy_points.induct)
  case (2 fd m k i r)
  let ?r = "r\<lparr>time_array := (time_array r)[k := time_array fd ! (i mod MAXVALUES)],
          seqnum_array := (seqnum_array r)[k := seqnum_array fd ! (i mod MAXVALUES)]\<rparr>"
  have "fd_slot ?r j = (if j = k then fd_point fd i else fd_slot r j)"
    using 2(2-4) by (simp add: fd_slot_def fd_point_def)
  moreover have "fd_slot (copy_points fd m (Suc k) (Suc i) ?r) j =
      (if Suc k \<le> j \<and> j < Suc k + m then fd_point fd (Suc i + (j - Suc k)) else fd_slot ?r j)"
    by (rule "2.IH") (use 2(2-4) in simp_all)
  moreover have "Suc i + (j - Suc k) = i + (j - k)" if "Suc k \<le> j" using that by simp
  ultimately show ?case by (simp only: copy_points.simps) (auto simp: not_less_eq_eq)
qed (auto simp: fd_slot_def)

lemma create_diff_loop_window:
  assumes "length (seqnum_array r) = MAXVALUES" and "length (time_array r) = MAXVALUES"
    and "s0 \<le> last_index" and "last_index - s0 \<le> MAXVALUES"
  shows "\<exists>n start r'. create_diff_loop fd seqnum last_index [s0 ..< last_index] r = Inr (n, start, r')
    \<and> map (fd_slot r') [0 ..< n] =
        dropWhile (\<lambda>p. \<not> seqnum < fst p) (map (fd_point fd) [s0 ..< last_index])
    \<and> (\<forall>j \<ge> n. fd_slot r' j = fd_slot r j) \<and> n \<le> MAXVALUES"
  using assms(3,4)
proof (induction s0 rule: inc_induct)
  case (step i)
  have up: "[i ..< last_index] = i # [Suc i ..< last_index]" using step(2) by (rule upt_conv_Cons)
  show ?case
  proof (cases "seqnum < seqnum_array fd ! (i mod MAXVALUES)")
    case True
    let ?n = "last_index - i" and ?r = "copy_points fd (last_index - i) 0 i r"
    have slot: "fd_slot ?r j = (if j < ?n then fd_point fd (i + j) else fd_slot r j)" for j
      using copy_points_slot [OF assms(1,2), of 0 ?n fd i j] step(4) by simp
    have "map (fd_slot ?r) [0 ..< ?n] = map (fd_point fd) [i ..< last_index]"
      by (rule nth_equalityI) (auto simp: slot)
    moreover have "dropWhile (\<lambda>p. \<not> seqnum < fst p) (map (fd_point fd) [i ..< last_index])
        = map (fd_point fd) [i ..< last_index]"
      using True by (simp add: up fd_point_def)
    ultimately show ?thesis using True step(4) by (auto simp: up Let_def slot)
  next
    case False
    then show ?thesis using step by (simp add: up fd_point_def)
  qed
qed simp

section \<open>Properties\<close>

text \<open>
  C26: the ring is a bounded window. On a well-formed ring one step stays inside the arrays and
  keeps the ring well-formed; it appends the new point, with the given sequence number or the
  next one, and drops the oldest point exactly when the ring was full.
\<close>

theorem goto_next_point_window:
  assumes "fd_wf fd"
  shows "\<exists>fd'. goto_next_point t s fd = Some fd' \<and> fd_wf fd'
    \<and> fd_points fd' = (if is_point_array_full fd then tl (fd_points fd) else fd_points fd)
        @ [(if s \<noteq> 0 then s else next_seqnum fd, of_int t)]
    \<and> length (fd_points fd') = min MAXVALUES (Suc (length (fd_points fd)))"
proof -
  obtain fd' where fd': "goto_next_point t s fd = Some fd'" "fd_wf fd'"
    "fd_points fd' = (if is_point_array_full fd then tl (fd_points fd) else fd_points fd)
        @ [(if s \<noteq> 0 then s else next_seqnum fd, of_int t)]"
    using goto_next_point_refines [OF assms] by blast
  have "length (fd_points fd) \<le> MAXVALUES" using assms by (simp add: fd_points_length) (simp add: fd_wf_def)
  moreover have "is_point_array_full fd = (length (fd_points fd) = MAXVALUES)"
    using assms by (simp add: fd_points_length is_point_array_full_def) (auto simp: fd_wf_def)
  ultimately show ?thesis using fd' MAXVALUES_pos by (auto simp: min_def)
qed

theorem goto_next_point_window_witness:
  "\<exists>fd'. goto_next_point 1001 1 fd_clear = Some fd' \<and> fd_points fd' = [(1, 1001)]"
  using goto_next_point_window [of fd_clear 1001 1] fd_clear_wf
  by (auto simp: is_point_array_full_def fd_clear_def utm_consts)

text \<open>
  \<open>create_diff\<close> sends a console what it lacks. For a well-formed ring it never throws; the
  points it copies to the front of the arrays are the stored points from the first one with a
  greater sequence number on, oldest first, and the rest of the arrays is untouched.
\<close>

theorem create_diff_suffix:
  assumes "fd_wf fd" and "length (seqnum_array self) = MAXVALUES" and "length (time_array self) = MAXVALUES"
  shows "\<exists>n start r. create_diff fd seqnum self = Inr (n, start, r)
    \<and> map (fd_slot r) [0 ..< n] = dropWhile (\<lambda>p. \<not> seqnum < fst p) (fd_points fd)
    \<and> (\<forall>j \<ge> n. fd_slot r j = fd_slot self j)"
proof -
  obtain s0 last_index where sl: "calc_start_last_index (total_points fd) (next_point fd) 0 = (s0, last_index)"
    by fastforce
  then have b: "s0 \<le> last_index" "last_index - s0 \<le> MAXVALUES"
    by (auto simp: calc_start_last_index_def split: if_splits)
  let ?r = "self\<lparr>total_points := total_points fd, next_point := next_point fd, next_seqnum := next_seqnum fd\<rparr>"
  have "fd_slot ?r j = fd_slot self j" for j by (simp add: fd_slot_def)
  then show ?thesis
    using create_diff_loop_window [of ?r, OF _ _ b, of fd seqnum] assms(2,3)
    by (auto simp: create_diff_def sl Let_def fd_points_window)
qed

definition ex_fd :: filterset_data where
  "ex_fd = fd_clear\<lparr>total_points := 3, next_point := 3, next_seqnum := 4,
     seqnum_array := (seqnum_array fd_clear)[0 := 1, 1 := 2, 2 := 3],
     time_array := (time_array fd_clear)[0 := 1001, 1 := 1002, 2 := 1003]\<rparr>"

theorem create_diff_suffix_witness:
  "\<exists>n start r. create_diff ex_fd 1 fd_clear = Inr (n, start, r)
     \<and> map (fd_slot r) [0 ..< n] = [(2, 1002), (3, 1003)]"
proof -
  have "fd_wf ex_fd" by (simp add: fd_wf_def ex_fd_def fd_clear_def utm_consts)
  moreover have "fd_points ex_fd = [(1, 1001), (2, 1002), (3, 1003)]"
  proof -
    have "[0 ..< 3] = [0, 1, 2 :: nat]" by (simp add: eval_nat_numeral)
    then have "fd_points ex_fd = map (fd_point ex_fd) [0, 1, 2]"
      by (simp add: fd_points_window calc_start_last_index_def ex_fd_def utm_consts)
    then show ?thesis
      by (simp add: fd_point_def ex_fd_def fd_clear_def utm_consts)
  qed
  ultimately show ?thesis
    using create_diff_suffix [of ex_fd fd_clear 1] by (auto simp: fd_clear_def)
qed

text \<open>
  \<open>get_current_point\<close> is the index of the newest point, except when the next point is the
  last slot of the ring: then it is the index of a slot that was not written last.
\<close>

theorem get_current_point_index:
  assumes "fd_wf fd" and "total_points fd \<noteq> 0"
  shows "(get_current_point fd = (unat (next_point fd) + MAXVALUES - 1) mod MAXVALUES)
    = (unat (next_point fd) \<noteq> MAXVALUES - 1)"
proof -
  let ?n = "unat (next_point fd)"
  have n: "?n < MAXVALUES" using assms(1) by (simp add: fd_wf_def)
  have m: "2 \<le> MAXVALUES" by (simp add: utm_consts)
  consider "?n = 0" | "0 < ?n" "?n < MAXVALUES - 1" | "?n = MAXVALUES - 1" using n by linarith
  then show ?thesis
  proof cases
    case 1
    then have "next_point fd = 0" by (simp add: unat_eq_0)
    then show ?thesis using assms(2) m by (simp add: get_current_point_def)
  next
    case 2
    then have nz: "next_point fd \<noteq> 0" by auto
    have e: "?n + MAXVALUES - 1 = (?n - 1) + MAXVALUES" using 2 by simp
    have "(?n + MAXVALUES - 1) mod MAXVALUES = ?n - 1" unfolding e mod_add_self2 using n by simp
    moreover have "get_current_point fd = ?n - 1"
      using 2 nz assms(2) by (simp add: get_current_point_def unat_minus_one)
    ultimately show ?thesis using 2(2) by simp
  next
    case 3
    have e: "?n + MAXVALUES - 1 = (MAXVALUES - 2) + MAXVALUES" using 3 m by simp
    have "(?n + MAXVALUES - 1) mod MAXVALUES = MAXVALUES - 2" unfolding e mod_add_self2 using m by simp
    moreover have "get_current_point fd = MAXVALUES - 1"
      using 3 assms(2) by (simp add: get_current_point_def)
    ultimately show ?thesis using 3 m by simp
  qed
qed

theorem get_current_point_index_witness:
  "get_current_point ex_fd = 2"
proof -
  have "fd_wf ex_fd" "total_points ex_fd \<noteq> 0"
    by (simp_all add: fd_wf_def ex_fd_def fd_clear_def utm_consts)
  from get_current_point_index [OF this] show ?thesis by (simp add: ex_fd_def utm_consts)
qed

end
