(* ===== verification/Crc32.thy ===== *)
theory Crc32
  imports Prelude
begin

text \<open>
  \<open>utm/crc32.cpp\<close>: the table-driven checksum host names are hashed with. The table is the
  source's, entry by entry; the reference definition is the shift register of the reflected
  polynomial 0xEDB88320 that the table tabulates.
\<close>

definition crc32_table :: "u32 list" where
  "crc32_table =
  [0x00000000, 0x77073096, 0xEE0E612C, 0x990951BA, 0x076DC419, 0x706AF48F, 0xE963A535, 0x9E6495A3,
   0x0EDB8832, 0x79DCB8A4, 0xE0D5E91E, 0x97D2D988, 0x09B64C2B, 0x7EB17CBD, 0xE7B82D07, 0x90BF1D91,
   0x1DB71064, 0x6AB020F2, 0xF3B97148, 0x84BE41DE, 0x1ADAD47D, 0x6DDDE4EB, 0xF4D4B551, 0x83D385C7,
   0x136C9856, 0x646BA8C0, 0xFD62F97A, 0x8A65C9EC, 0x14015C4F, 0x63066CD9, 0xFA0F3D63, 0x8D080DF5,
   0x3B6E20C8, 0x4C69105E, 0xD56041E4, 0xA2677172, 0x3C03E4D1, 0x4B04D447, 0xD20D85FD, 0xA50AB56B,
   0x35B5A8FA, 0x42B2986C, 0xDBBBC9D6, 0xACBCF940, 0x32D86CE3, 0x45DF5C75, 0xDCD60DCF, 0xABD13D59,
   0x26D930AC, 0x51DE003A, 0xC8D75180, 0xBFD06116, 0x21B4F4B5, 0x56B3C423, 0xCFBA9599, 0xB8BDA50F,
   0x2802B89E, 0x5F058808, 0xC60CD9B2, 0xB10BE924, 0x2F6F7C87, 0x58684C11, 0xC1611DAB, 0xB6662D3D,
   0x76DC4190, 0x01DB7106, 0x98D220BC, 0xEFD5102A, 0x71B18589, 0x06B6B51F, 0x9FBFE4A5, 0xE8B8D433,
   0x7807C9A2, 0x0F00F934, 0x9609A88E, 0xE10E9818, 0x7F6A0DBB, 0x086D3D2D, 0x91646C97, 0xE6635C01,
   0x6B6B51F4, 0x1C6C6162, 0x856530D8, 0xF262004E, 0x6C0695ED, 0x1B01A57B, 0x8208F4C1, 0xF50FC457,
   0x65B0D9C6, 0x12B7E950, 0x8BBEB8EA, 0xFCB9887C, 0x62DD1DDF, 0x15DA2D49, 0x8CD37CF3, 0xFBD44C65,
   0x4DB26158, 0x3AB551CE, 0xA3BC0074, 0xD4BB30E2, 0x4ADFA541, 0x3DD895D7, 0xA4D1C46D, 0xD3D6F4FB,
   0x4369E96A, 0x346ED9FC, 0xAD678846, 0xDA60B8D0, 0x44042D73, 0x33031DE5, 0xAA0A4C5F, 0xDD0D7CC9,
   0x5005713C, 0x270241AA, 0xBE0B1010, 0xC90C2086, 0x5768B525, 0x206F85B3, 0xB966D409, 0xCE61E49F,
   0x5EDEF90E, 0x29D9C998, 0xB0D09822, 0xC7D7A8B4, 0x59B33D17, 0x2EB40D81, 0xB7BD5C3B, 0xC0BA6CAD,
   0xEDB88320, 0x9ABFB3B6, 0x03B6E20C, 0x74B1D29A, 0xEAD54739, 0x9DD277AF, 0x04DB2615, 0x73DC1683,
   0xE3630B12, 0x94643B84, 0x0D6D6A3E, 0x7A6A5AA8, 0xE40ECF0B, 0x9309FF9D, 0x0A00AE27, 0x7D079EB1,
   0xF00F9344, 0x8708A3D2, 0x1E01F268, 0x6906C2FE, 0xF762575D, 0x806567CB, 0x196C3671, 0x6E6B06E7,
   0xFED41B76, 0x89D32BE0, 0x10DA7A5A, 0x67DD4ACC, 0xF9B9DF6F, 0x8EBEEFF9, 0x17B7BE43, 0x60B08ED5,
   0xD6D6A3E8, 0xA1D1937E, 0x38D8C2C4, 0x4FDFF252, 0xD1BB67F1, 0xA6BC5767, 0x3FB506DD, 0x48B2364B,
   0xD80D2BDA, 0xAF0A1B4C, 0x36034AF6, 0x41047A60, 0xDF60EFC3, 0xA867DF55, 0x316E8EEF, 0x4669BE79,
   0xCB61B38C, 0xBC66831A, 0x256FD2A0, 0x5268E236, 0xCC0C7795, 0xBB0B4703, 0x220216B9, 0x5505262F,
   0xC5BA3BBE, 0xB2BD0B28, 0x2BB45A92, 0x5CB36A04, 0xC2D7FFA7, 0xB5D0CF31, 0x2CD99E8B, 0x5BDEAE1D,
   0x9B64C2B0, 0xEC63F226, 0x756AA39C, 0x026D930A, 0x9C0906A9, 0xEB0E363F, 0x72076785, 0x05005713,
   0x95BF4A82, 0xE2B87A14, 0x7BB12BAE, 0x0CB61B38, 0x92D28E9B, 0xE5D5BE0D, 0x7CDCEFB7, 0x0BDBDF21,
   0x86D3D2D4, 0xF1D4E242, 0x68DDB3F8, 0x1FDA836E, 0x81BE16CD, 0xF6B9265B, 0x6FB077E1, 0x18B74777,
   0x88085AE6, 0xFF0F6A70, 0x66063BCA, 0x11010B5C, 0x8F659EFF, 0xF862AE69, 0x616BFFD3, 0x166CCF45,
   0xA00AE278, 0xD70DD2EE, 0x4E048354, 0x3903B3C2, 0xA7672661, 0xD06016F7, 0x4969474D, 0x3E6E77DB,
   0xAED16A4A, 0xD9D65ADC, 0x40DF0B66, 0x37D83BF0, 0xA9BCAE53, 0xDEBB9EC5, 0x47B2CF7F, 0x30B5FFE9,
   0xBDBDF21C, 0xCABAC28A, 0x53B39330, 0x24B4A3A6, 0xBAD03605, 0xCDD70693, 0x54DE5729, 0x23D967BF,
   0xB3667A2E, 0xC4614AB8, 0x5D681B02, 0x2A6F2B94, 0xB40BBE37, 0xC30C8EA1, 0x5A05DF1B, 0x2D02EF8D]"

fun crc32_loop :: "u32 \<Rightarrow> string \<Rightarrow> u32" where
  "crc32_loop ulCRC [] = ulCRC"
| "crc32_loop ulCRC (c # cs) =
     crc32_loop (drop_bit 8 ulCRC XOR crc32_table ! unat ((ulCRC AND 0xFF) XOR of_char c)) cs"

definition crc32_calc :: "string \<Rightarrow> u32" where
  "crc32_calc text = crc32_loop 0xFFFFFFFF text XOR 0xFFFFFFFF"

section \<open>The shift register\<close>

definition crc_bit :: "u32 \<Rightarrow> u32" where
  "crc_bit c = (if bit c 0 then drop_bit 1 c XOR 0xEDB88320 else drop_bit 1 c)"

definition crc_byte :: "u32 \<Rightarrow> u32" where
  "crc_byte c = crc_bit (crc_bit (crc_bit (crc_bit (crc_bit (crc_bit (crc_bit (crc_bit c)))))))"

fun crc_register :: "u32 \<Rightarrow> string \<Rightarrow> u32" where
  "crc_register r [] = r"
| "crc_register r (c # cs) = crc_register (crc_byte (r XOR of_char c)) cs"

section \<open>The table tabulates the register\<close>

fun crc_rows :: "u32 \<Rightarrow> u32 list \<Rightarrow> bool" where
  "crc_rows i [] = True"
| "crc_rows i (v # vs) = (crc_byte i = v \<and> crc_rows (i + 1) vs)"

lemma crc_rows_table: "crc_rows 0 crc32_table"
  unfolding crc32_table_def by (simp add: crc_byte_def crc_bit_def)

lemma crc_rows_nth: "crc_rows i vs \<Longrightarrow> k < length vs \<Longrightarrow> vs ! k = crc_byte (i + of_nat k)"
proof (induction i vs arbitrary: k rule: crc_rows.induct)
  case (2 i v vs)
  then show ?case by (cases k) (simp_all add: add.assoc)
qed simp

lemma crc32_table_nth: "unat w < 256 \<Longrightarrow> crc32_table ! unat w = crc_byte w"
  using crc_rows_nth [OF crc_rows_table, of "unat w"] by (simp add: crc32_table_def)

lemma crc_bit_linear: "crc_bit (x XOR y) = crc_bit x XOR crc_bit y"
  by (auto simp: crc_bit_def drop_bit_xor bit_xor_iff bit_eq_iff)

lemma crc_byte_linear: "crc_byte (x XOR y) = crc_byte x XOR crc_byte y"
  by (simp add: crc_byte_def crc_bit_linear)

lemma crc_byte_high: "(\<And>i. i < 8 \<Longrightarrow> \<not> bit y i) \<Longrightarrow> crc_byte y = drop_bit 8 y"
  by (simp add: crc_byte_def crc_bit_def bit_drop_bit_eq numeral_eq_Suc)

lemma of_char_bound: "unat (of_char c :: u32) < 256"
proof -
  have "(of_char c :: nat) < 256" by (rule nat_of_char_less_256)
  then have "unat (of_nat (of_char c) :: u32) < 256" unfolding unat_of_nat
    by (rule order.strict_trans1 [OF mod_less_eq_dividend])
  then show ?thesis by (simp only: of_nat_of_char)
qed

lemma byte_iff: "unat (x :: u32) < 256 \<longleftrightarrow> take_bit 8 x = x"
proof
  assume "unat x < 256"
  then show "take_bit 8 x = x" by (simp add: word_unat_eq_iff take_bit_eq_mod unat_mod)
next
  assume t: "take_bit 8 x = x"
  have "take_bit 8 (unat x) < 256" using take_bit_nat_less_exp [of 8 "unat x"] by simp
  then have "unat (take_bit 8 x) < 256" by (simp only: unsigned_take_bit_eq)
  then show "unat x < 256" by (simp only: t)
qed

lemma crc32_step:
  assumes "unat b < 256"
  shows "drop_bit 8 r XOR crc32_table ! unat ((r AND 0xFF) XOR b) = crc_byte (r XOR b)"
proof -
  have m: "(0xFF :: u32) = mask 8" by (simp add: mask_eq_exp_minus_1)
  have "take_bit 8 b = b" using assms by (simp only: byte_iff)
  then have b: "take_bit 8 (r XOR b) = (r AND mask 8) XOR b"
    by (simp only: take_bit_xor) (simp add: take_bit_eq_mask)
  have low: "unat (take_bit 8 (r XOR b)) < 256" by (simp only: byte_iff take_bit_take_bit min.idem)
  define h where "h = (r XOR b) AND NOT (mask 8)"
  have "r XOR b = take_bit 8 (r XOR b) XOR h"
    unfolding h_def by (rule bit_word_eqI) (auto simp: bit_simps)
  then have "crc_byte (r XOR b) = crc_byte (take_bit 8 (r XOR b)) XOR crc_byte h"
    by (metis crc_byte_linear)
  moreover have "crc_byte h = drop_bit 8 h" by (rule crc_byte_high) (simp add: h_def bit_simps)
  moreover have "drop_bit 8 h = drop_bit 8 (r XOR b)"
    unfolding h_def by (rule bit_word_eqI) (auto simp: bit_simps dest: bit_imp_le_length)
  moreover have "drop_bit 8 (r XOR b) = drop_bit 8 r"
  proof -
    have "drop_bit 8 b = drop_bit 8 (take_bit 8 b)" by (simp only: \<open>take_bit 8 b = b\<close>)
    also have "\<dots> = 0" by (rule bit_word_eqI) (simp add: bit_simps)
    finally show ?thesis by (simp only: drop_bit_xor xor.right_neutral)
  qed
  ultimately show ?thesis
    unfolding m b [symmetric] using crc32_table_nth [OF low] by (simp only: xor.commute)
qed

section \<open>Properties\<close>

text \<open>
  C24: the table-driven checksum is the bitwise CRC-32: for every text \<open>crc32::calc\<close> returns what
  the shift register of the polynomial leaves, and every table index is inside the table.
\<close>

theorem crc32_equals_register:
  "crc32_calc s = crc_register 0xFFFFFFFF s XOR 0xFFFFFFFF"
proof -
  have "crc32_loop r s = crc_register r s" for r
    by (induction s arbitrary: r) (simp_all only: crc32_loop.simps crc_register.simps crc32_step of_char_bound)
  then show ?thesis by (simp only: crc32_calc_def)
qed

end
