(* ===== verification/Hosts.thy ===== *)
theory Hosts
  imports Crc32 AddrIp StdMap
begin

text \<open>
  \<open>corefilters/hostname.{h,cpp}\<close> and \<open>corefilters/hosttable.{h,cpp}\<close>: host names in rules,
  their addresses and the table that resolves them. What \<open>hostresolver::resolve\<close> gives is
  a function of the name: the set of addresses, which is empty when the lookup fails or times out, or
  \<open>None\<close> when it throws the error \<open>update_addr\<close> swallows, which leaves the addresses as they were.
\<close>

record hostname =
  hs_host :: string
  hs_hash :: u32

definition hostname_clear :: hostname where
  "hostname_clear = \<lparr>hs_host = [], hs_hash = 0\<rparr>"

definition set_host :: "string option \<Rightarrow> hostname" where
  "set_host p = (case p of None \<Rightarrow> hostname_clear | Some s \<Rightarrow> \<lparr>hs_host = s, hs_hash = crc32_calc s\<rparr>)"

definition hostname_eq :: "hostname \<Rightarrow> hostname \<Rightarrow> bool" where
  "hostname_eq a b \<longleftrightarrow> hs_host a = hs_host b"

record hostname_ex =
  hx_name :: hostname
  hx_addrs :: "addrip_v4 set"

definition check_addr :: "hostname_ex \<Rightarrow> addrip_v4 \<Rightarrow> bool" where
  "check_addr h a \<longleftrightarrow> a \<in> hx_addrs h"

definition update_addr :: "(string \<Rightarrow> addrip_v4 set option) \<Rightarrow> hostname_ex \<Rightarrow> hostname_ex" where
  "update_addr resolve h = (case resolve (hs_host (hx_name h)) of
      None \<Rightarrow> h
    | Some addrs \<Rightarrow> if hx_addrs h \<noteq> addrs then h\<lparr>hx_addrs := addrs\<rparr> else h)"

type_synonym hosttable = "(u32, hostname_ex) std_map"

definition has_host :: "string \<Rightarrow> u32 \<times> hostname_ex \<Rightarrow> bool" where
  "has_host s p \<longleftrightarrow> hs_host (hx_name (snd p)) = s"

text \<open>Both searches start at the first entry with the hash and run to the end of the table.\<close>

definition add_host :: "string \<Rightarrow> hosttable \<Rightarrow> hosttable" where
  "add_host s hosts =
     (let hse = \<lparr>hx_name = set_host (Some s), hx_addrs = {}\<rparr>;
          h = hs_hash (hx_name hse)
      in case find (has_host s) (mm_find h hosts) of
           Some _ \<Rightarrow> hosts
         | None \<Rightarrow> mm_insert h hse hosts)"

definition checkaddr :: "u32 \<Rightarrow> string \<Rightarrow> addrip_v4 \<Rightarrow> hosttable \<Rightarrow> bool" where
  "checkaddr hostname_crc32 s a hosts =
     (case find (has_host s) (mm_find hostname_crc32 hosts) of
        Some p \<Rightarrow> check_addr (snd p) a
      | None \<Rightarrow> False)"

definition checkaddr_host :: "hostname \<Rightarrow> addrip_v4 \<Rightarrow> hosttable \<Rightarrow> bool" where
  "checkaddr_host hs a hosts = checkaddr (hs_hash hs) (hs_host hs) a hosts"

definition refresh_hosttable :: "(string \<Rightarrow> addrip_v4 set option) \<Rightarrow> hosttable \<Rightarrow> hosttable" where
  "refresh_hosttable resolve hosts = map (\<lambda>p. (fst p, update_addr resolve (snd p))) hosts"

definition hosttable_clear :: "hosttable \<Rightarrow> hosttable" where
  "hosttable_clear hosts = []"

section \<open>The invariant of the table\<close>

definition ht_inv :: "hosttable \<Rightarrow> bool" where
  "ht_inv hosts \<longleftrightarrow> mm_wf hosts
     \<and> (\<forall>p \<in> set hosts. fst p = crc32_calc (hs_host (hx_name (snd p))))"

lemma find_host: "ht_inv hosts \<Longrightarrow> find (has_host s) (mm_find (crc32_calc s) hosts) = find (has_host s) hosts"
  by (rule mm_find_search) (auto simp: ht_inv_def has_host_def)

lemma add_host_inv [utm_inv]: "ht_inv hosts \<Longrightarrow> ht_inv (add_host s hosts)"
proof -
  assume inv: "ht_inv hosts"
  let ?h = "\<lparr>hx_name = set_host (Some s), hx_addrs = {}\<rparr>"
  have "ht_inv (mm_insert (hs_hash (hx_name ?h)) ?h hosts)"
    using inv by (auto simp: ht_inv_def mm_insert_set mm_insert_wf set_host_def)
  then show ?thesis using inv by (simp add: add_host_def Let_def split: option.split)
qed

lemma refresh_inv [utm_inv]: "ht_inv hosts \<Longrightarrow> ht_inv (refresh_hosttable resolve hosts)"
  by (auto simp: ht_inv_def refresh_hosttable_def update_addr_def mm_wf_def comp_def split: option.splits)

lemma has_host_update: "has_host s (k, update_addr resolve h) = has_host s (k, h)"
  by (simp add: has_host_def update_addr_def split: option.splits)

lemma find_refresh:
  "find (has_host s) (refresh_hosttable resolve hosts) =
     map_option (\<lambda>p. (fst p, update_addr resolve (snd p))) (find (has_host s) hosts)"
  by (induction hosts) (auto simp: refresh_hosttable_def has_host_update)

definition ht_addrs :: "hosttable \<Rightarrow> string \<Rightarrow> addrip_v4 set option" where
  "ht_addrs hosts s = map_option (\<lambda>p. hx_addrs (snd p)) (find (has_host s) hosts)"

lemma checkaddr_addrs:
  "ht_inv hosts \<Longrightarrow> checkaddr (crc32_calc s) s a hosts = (\<exists>A. ht_addrs hosts s = Some A \<and> a \<in> A)"
  by (auto simp: checkaddr_def find_host ht_addrs_def check_addr_def split: option.splits)

lemma ht_addrs_add:
  assumes "ht_inv hosts"
  shows "ht_addrs (add_host s hosts) t =
     (if t = s \<and> ht_addrs hosts s = None then Some {} else ht_addrs hosts t)"
proof (cases "find (has_host s) hosts")
  case None
  let ?h = "\<lparr>hx_name = set_host (Some s), hx_addrs = {}\<rparr>"
  obtain xs ys where xy: "hosts = xs @ ys" "mm_insert (crc32_calc s) ?h hosts = xs @ (crc32_calc s, ?h) # ys"
    using mm_insert_split [of hosts "crc32_calc s" ?h] by (elim exE conjE)
  have add: "add_host s hosts = xs @ (crc32_calc s, ?h) # ys"
  proof -
    have f: "find (has_host s) (mm_find (crc32_calc s) hosts) = None"
      unfolding find_host [OF assms] by (rule None)
    have h: "hs_hash (set_host (Some s)) = crc32_calc s" by (simp add: set_host_def)
    show ?thesis unfolding add_host_def Let_def hostname_ex.simps h f xy(2) by simp
  qed
  have hh: "has_host t (crc32_calc s, ?h) = (t = s)" for t by (auto simp: has_host_def set_host_def)
  show ?thesis
    using None unfolding ht_addrs_def add unfolding xy(1)
    by (auto simp: find_append hh split: option.splits)
next
  case (Some p)
  then show ?thesis
    using find_host [OF assms, of s] by (simp add: add_host_def Let_def set_host_def ht_addrs_def)
qed

lemma ht_addrs_refresh:
  "ht_addrs (refresh_hosttable resolve hosts) s =
     map_option (\<lambda>A. case resolve s of None \<Rightarrow> A | Some B \<Rightarrow> B) (ht_addrs hosts s)"
proof -
  have "hs_host (hx_name (snd p)) = s" if "find (has_host s) hosts = Some p" for p
    using find_Some_set [OF that] by (simp add: has_host_def)
  then show ?thesis
    by (cases "find (has_host s) hosts")
      (auto simp: ht_addrs_def find_refresh update_addr_def split: option.splits)
qed

section \<open>Histories\<close>

text \<open>The calls on a table, a refresh with what the resolver answered then, and what a history says of a name.\<close>

datatype host_op = Ht_add string | Ht_refresh "string \<Rightarrow> addrip_v4 set option" | Ht_clear

fun host_step :: "host_op \<Rightarrow> hosttable \<Rightarrow> hosttable" where
  "host_step (Ht_add s) hosts = add_host s hosts"
| "host_step (Ht_refresh resolve) hosts = refresh_hosttable resolve hosts"
| "host_step Ht_clear hosts = hosttable_clear hosts"

definition is_added :: "string \<Rightarrow> host_op list \<Rightarrow> bool" where
  "is_added s ops \<longleftrightarrow> (\<exists>us vs. ops = us @ Ht_add s # vs \<and> Ht_clear \<notin> set vs)"

definition is_resolved :: "string \<Rightarrow> addrip_v4 \<Rightarrow> host_op list \<Rightarrow> bool" where
  "is_resolved s a ops \<longleftrightarrow> (\<exists>us resolve vs A. ops = us @ Ht_refresh resolve # vs \<and> is_added s us
     \<and> resolve s = Some A \<and> a \<in> A \<and> Ht_clear \<notin> set vs \<and> (\<forall>f. Ht_refresh f \<in> set vs \<longrightarrow> f s = None))"

lemma ex_split_snoc:
  "(\<exists>us y vs. ops @ [x] = us @ y # vs \<and> Q us y vs) \<longleftrightarrow> Q ops x [] \<or> (\<exists>us y vs. ops = us @ y # vs \<and> Q us y (vs @ [x]))"
  (is "?l = ?r")
proof
  show ?r if l: ?l
  proof -
    from l obtain us y vs where h: "ops @ [x] = us @ y # vs" "Q us y vs" by (elim exE conjE)
    show ?r
    proof (cases vs rule: rev_cases)
      case Nil
      then have "ops = us" "x = y" using h(1) by simp_all
      then show ?r using h(2) Nil by simp
    next
      case (snoc ws z)
      then have "ops @ [x] = (us @ y # ws) @ [z]" using h(1) by simp
      then have "ops = us @ y # ws" "x = z" by (simp_all only: append1_eq_conv)
      then show ?r using h(2) snoc by blast
    qed
  qed
  show ?l if ?r
  proof -
    from that consider "Q ops x []" | us y vs where "ops = us @ y # vs" "Q us y (vs @ [x])" by blast
    then show ?l
    proof cases
      case 2
      then show ?l by (intro exI [of _ us] exI [of _ y] exI [of _ "vs @ [x]"]) simp
    qed blast
  qed
qed

lemma is_added_alt: "is_added s ops \<longleftrightarrow> (\<exists>us y vs. ops = us @ y # vs \<and> y = Ht_add s \<and> Ht_clear \<notin> set vs)"
  unfolding is_added_def by blast

lemma is_added_snoc: "is_added s (ops @ [x]) \<longleftrightarrow> x \<noteq> Ht_clear \<and> (x = Ht_add s \<or> is_added s ops)"
  unfolding is_added_alt ex_split_snoc by auto

lemma is_resolved_alt:
  "is_resolved s a ops \<longleftrightarrow> (\<exists>us y vs. ops = us @ y # vs \<and> (\<exists>resolve A. y = Ht_refresh resolve \<and> is_added s us
     \<and> resolve s = Some A \<and> a \<in> A \<and> Ht_clear \<notin> set vs \<and> (\<forall>f. Ht_refresh f \<in> set vs \<longrightarrow> f s = None)))"
  unfolding is_resolved_def by blast

lemma is_resolved_snoc:
  "is_resolved s a (ops @ [x]) = (case x of
      Ht_refresh f \<Rightarrow> (case f s of None \<Rightarrow> is_resolved s a ops | Some A \<Rightarrow> is_added s ops \<and> a \<in> A)
    | Ht_add t \<Rightarrow> is_resolved s a ops | Ht_clear \<Rightarrow> False)"
  unfolding is_resolved_alt ex_split_snoc
  by (cases x) (auto split: option.splits)

lemma history_addrs:
  "ht_inv (fold host_step ops []) \<and> (ht_addrs (fold host_step ops []) s \<noteq> None \<longleftrightarrow> is_added s ops)
   \<and> ((\<exists>A. ht_addrs (fold host_step ops []) s = Some A \<and> a \<in> A) \<longleftrightarrow> is_resolved s a ops)"
proof (induction ops rule: rev_induct)
  case Nil
  then show ?case by (simp add: ht_inv_def mm_wf_def ht_addrs_def is_added_def is_resolved_def)
next
  case (snoc x ops)
  then show ?case
    by (cases x)
      (auto simp: is_added_snoc is_resolved_snoc ht_addrs_add ht_addrs_refresh hosttable_clear_def ht_inv_def [of "[]"]
        mm_wf_def ht_addrs_def [of "[]"] intro: utm_inv split: option.splits if_splits)
qed

section \<open>Properties\<close>

text \<open>
  C20: the host table answers by name. After any calls on an empty table, an address matches a host name
  exactly when some refresh, made while the name was in the table, resolved the name to addresses this
  one is among, the resolver has thrown its error for the name at every refresh since, and the table was
  not cleared since; whatever hashes collide.
\<close>

theorem hosttable_resolves:
  "checkaddr_host (set_host (Some s)) a (fold host_step ops [])
   \<longleftrightarrow> (\<exists>us resolve vs A. ops = us @ Ht_refresh resolve # vs \<and> is_added s us \<and> resolve s = Some A \<and> a \<in> A
     \<and> Ht_clear \<notin> set vs \<and> (\<forall>f. Ht_refresh f \<in> set vs \<longrightarrow> f s = None))"
  using history_addrs [of ops s a] checkaddr_addrs [of "fold host_step ops []" s a]
  by (simp add: checkaddr_host_def set_host_def is_resolved_def)

definition ex_resolver :: "u32 \<Rightarrow> string \<Rightarrow> addrip_v4 set option" where
  "ex_resolver a s = (if s = ''up'' then Some {Addrip_v4 a} else None)"

definition ex_history :: "host_op list" where
  "ex_history = [Ht_add ''old'', Ht_clear, Ht_add ''up'', Ht_refresh (ex_resolver 1), Ht_add ''late'',
     Ht_refresh (ex_resolver 2), Ht_refresh (\<lambda>s. None)]"

theorem hosttable_resolves_witness:
  "checkaddr_host (set_host (Some ''up'')) (Addrip_v4 2) (fold host_step ex_history [])"
proof -
  have "ex_history = [Ht_add ''old'', Ht_clear, Ht_add ''up'', Ht_refresh (ex_resolver 1), Ht_add ''late'']
      @ Ht_refresh (ex_resolver 2) # [Ht_refresh (\<lambda>s. None)]" by (simp add: ex_history_def)
  moreover have "is_added ''up'' [Ht_add ''old'', Ht_clear, Ht_add ''up'', Ht_refresh (ex_resolver 1), Ht_add ''late'']"
    unfolding is_added_def by (intro exI [of _ "[Ht_add ''old'', Ht_clear]"]
        exI [of _ "[Ht_refresh (ex_resolver 1), Ht_add ''late'']"]) simp
  moreover have "ex_resolver 2 ''up'' = Some {Addrip_v4 2}" by (simp add: ex_resolver_def)
  ultimately show ?thesis unfolding hosttable_resolves by fastforce
qed

end
