(* ===== verification/UsersConnected.thy ===== *)
theory UsersConnected
  imports AddrIp StdMap UTime
begin

text \<open>
  \<open>corefilters/user_connection.{h,cpp}\<close>, \<open>corefilters/users_connected.{h,cpp}\<close> and
  \<open>utm/release_info.{h,cpp}\<close>: the users that are logged in, by user id (a multimap: one entry
  per address) and by address. Every operation holds the object's mutex and is one step. The
  static \<open>update_timeout_sec\<close> is the argument \<open>tmo\<close>.
\<close>

section \<open>Release numbers\<close>

record release_info =
  ri_major :: u16
  ri_minor :: u16
  ri_build :: u16
  ri_update :: u16

definition release_info_new :: release_info where
  "release_info_new = \<lparr>ri_major = 0, ri_minor = 0, ri_build = 0, ri_update = 0\<rparr>"

definition release_info_eq :: "release_info \<Rightarrow> release_info \<Rightarrow> bool" where
  "release_info_eq a b \<longleftrightarrow> ri_major a = ri_major b \<and> ri_minor a = ri_minor b
     \<and> ri_build a = ri_build b \<and> ri_update a = ri_update b"

definition release_info_to_string :: "release_info \<Rightarrow> string" where
  "release_info_to_string r =
     print_u (unat (ri_major r)) @ ''.'' @ print_u (unat (ri_minor r)) @ ''.'' @ print_u (unat (ri_build r))"

section \<open>Connections\<close>

record user_connection =
  uc_addr :: addrip_v4
  updatestamp :: utimestamp
  uc_is_disabled :: bool
  agent_version :: release_info

definition user_connection_new :: "addrip_v4 \<Rightarrow> release_info \<Rightarrow> utimestamp \<Rightarrow> user_connection" where
  "user_connection_new a v now = \<lparr>uc_addr = a, updatestamp = now, uc_is_disabled = False, agent_version = v\<rparr>"

definition user_connection_eq :: "user_connection \<Rightarrow> user_connection \<Rightarrow> bool" where
  "user_connection_eq a b \<longleftrightarrow> uc_addr a = uc_addr b \<and> ts_equal (updatestamp a) (updatestamp b)
     \<and> uc_is_disabled a = uc_is_disabled b \<and> release_info_eq (agent_version a) (agent_version b)"

definition user_connection_to_string :: "u32 \<Rightarrow> user_connection \<Rightarrow> string" where
  "user_connection_to_string uid u =
     print_u (unat uid) @ '','' @ ip_to_string (uc_addr u) @ '','' @ ts_to_string (updatestamp u) @ '',''
     @ (if uc_is_disabled u then ''1'' else ''0'') @ '','' @ release_info_to_string (agent_version u)"

section \<open>The tables\<close>

record users_connected =
  users :: "(u32, user_connection) std_map"
  ips :: "(addrip_v4, u32 \<times> utimestamp) std_map"

definition users_new :: users_connected where "users_new = \<lparr>users = [], ips = []\<rparr>"

definition users_clear :: "users_connected \<Rightarrow> users_connected" where
  "users_clear s = s\<lparr>users := [], ips := []\<rparr>"

definition copy_from_safe :: "users_connected \<Rightarrow> users_connected \<Rightarrow> users_connected" where
  "copy_from_safe source s = s\<lparr>users := users source, ips := ips source\<rparr>"

text \<open>\<open>update_user\<close> replaces every entry of the user with the address of the request.\<close>

definition update_user :: "u32 \<Rightarrow> user_connection \<Rightarrow> users_connected \<Rightarrow> users_connected" where
  "update_user uid request s =
     (let key_range = mm_equal_range uid (users s);
          addr_found = list_ex (\<lambda>p. uc_addr (snd p) = uc_addr request) key_range;
          s1 = (if addr_found
                then s\<lparr>users := map (\<lambda>p. if fst p = uid \<and> uc_addr (snd p) = uc_addr request
                                         then (fst p, request) else p) (users s)\<rparr>
                else s\<lparr>users := mm_insert uid request (users s)\<rparr>)
      in s1\<lparr>ips := sm_set (uc_addr request) (uid, updatestamp request) (ips s)\<rparr>)"

definition uc_fresh :: "u32 \<Rightarrow> utimestamp \<Rightarrow> utimestamp \<Rightarrow> bool" where
  "uc_fresh tmo current stamp \<longleftrightarrow> \<not> is_greater_than_by_sec current stamp tmo"

definition check_for_double_login :: "u32 \<Rightarrow> u32 \<Rightarrow> addrip_v4 \<Rightarrow> utimestamp \<Rightarrow> users_connected \<Rightarrow> bool" where
  "check_for_double_login tmo uid addr current s =
     list_ex (\<lambda>p. uc_fresh tmo current (updatestamp (snd p)) \<and> uc_addr (snd p) \<noteq> addr)
       (mm_equal_range uid (users s))"

definition check_user_and_ip :: "u32 \<Rightarrow> u32 \<Rightarrow> addrip_v4 \<Rightarrow> utimestamp \<Rightarrow> users_connected \<Rightarrow> bool" where
  "check_user_and_ip tmo uid addr current s =
     (case find (\<lambda>p. uc_addr (snd p) = addr) (mm_equal_range uid (users s)) of
        None \<Rightarrow> False
      | Some p \<Rightarrow> uc_fresh tmo current (updatestamp (snd p)))"

definition check_for_any_ip :: "u32 \<Rightarrow> addrip_v4 \<Rightarrow> utimestamp \<Rightarrow> users_connected \<Rightarrow> bool" where
  "check_for_any_ip tmo addr current s =
     (case sm_find addr (ips s) of None \<Rightarrow> False | Some r \<Rightarrow> uc_fresh tmo current (snd r))"

text \<open>The result, the addresses appended to the caller's list, and the caller's flag.\<close>

definition find_user_ips ::
  "u32 \<Rightarrow> addrip_v4 list \<Rightarrow> bool \<Rightarrow> users_connected \<Rightarrow> bool \<times> addrip_v4 list \<times> bool"
where
  "find_user_ips uid addrs is_disabled s =
     (if sm_lower_bound uid (users s) = [] then (False, addrs, is_disabled)
      else let r = mm_equal_range uid (users s)
           in (True, addrs @ map (\<lambda>p. uc_addr (snd p)) r,
               if r = [] then is_disabled else uc_is_disabled (snd (last r))))"

definition ip_of_user :: "u32 \<times> user_connection \<Rightarrow> (addrip_v4, u32 \<times> utimestamp) std_map
    \<Rightarrow> (addrip_v4, u32 \<times> utimestamp) std_map" where
  "ip_of_user p m = sm_set (uc_addr (snd p)) (fst p, updatestamp (snd p)) m"

definition purge_disconnected_users :: "u32 \<Rightarrow> utimestamp \<Rightarrow> users_connected \<Rightarrow> users_connected" where
  "purge_disconnected_users tmo current s =
     (let kept = filter (\<lambda>p. uc_fresh tmo current (updatestamp (snd p))) (users s);
          found_disconnected = list_ex (\<lambda>p. \<not> uc_fresh tmo current (updatestamp (snd p))) (users s)
      in if found_disconnected then s\<lparr>users := kept, ips := fold ip_of_user kept []\<rparr>
         else s\<lparr>users := kept\<rparr>)"

text \<open>The node handler \<open>uc\<close> after \<open>user_connection::from_string\<close> has parsed the value.\<close>

definition catch_user :: "u32 \<Rightarrow> user_connection \<Rightarrow> users_connected \<Rightarrow> users_connected" where
  "catch_user uid u s =
     (if uid > 0
      then let s1 = s\<lparr>users := mm_insert uid u (users s)\<rparr>
           in case sm_find (uc_addr u) (ips s1) of
                Some r \<Rightarrow> if ts_less (snd r) (updatestamp u)
                          then s1\<lparr>ips := sm_set (uc_addr u) (uid, updatestamp u) (ips s1)\<rparr> else s1
              | None \<Rightarrow> s1\<lparr>ips := sm_set (uc_addr u) (uid, updatestamp u) (ips s1)\<rparr>
      else s)"

section \<open>The invariant that ties the two tables\<close>

text \<open>
  Both tables are in order, a user has one entry per address at most, and an address maps to the
  user and the stamp of an entry; every entry's address is mapped.
\<close>

definition uc_inv :: "users_connected \<Rightarrow> bool" where
  "uc_inv s \<longleftrightarrow> mm_wf (users s) \<and> sm_wf (ips s)
     \<and> distinct (map (\<lambda>p. (fst p, uc_addr (snd p))) (users s))
     \<and> (\<forall>a uid t. sm_find a (ips s) = Some (uid, t) \<longrightarrow>
          (\<exists>u. (uid, u) \<in> set (users s) \<and> uc_addr u = a \<and> updatestamp u = t))
     \<and> (\<forall>p \<in> set (users s). sm_find (uc_addr (snd p)) (ips s) \<noteq> None)"

lemma uc_inv_new: "uc_inv users_new"
  by (simp add: uc_inv_def users_new_def mm_wf_def sm_wf_def sm_find_def)

lemma mm_equal_range_set: "mm_wf m \<Longrightarrow> set (mm_equal_range k m) = {p \<in> set m. fst p = k}"
  by (simp add: mm_equal_range_filter)

lemma find_unique_addr:
  assumes "distinct (map (\<lambda>p. (fst p, uc_addr (snd p))) m)" and "mm_wf m" and "(uid, u) \<in> set m"
  shows "find (\<lambda>p. uc_addr (snd p) = uc_addr u) (mm_equal_range uid m) = Some (uid, u)"
proof -
  let ?r = "mm_equal_range uid m"
  have "find (\<lambda>p. uc_addr (snd p) = uc_addr u) ?r \<noteq> None"
    using assms(2,3) by (auto simp: find_None_set mm_equal_range_set)
  then obtain q where q: "find (\<lambda>p. uc_addr (snd p) = uc_addr u) ?r = Some q" by blast
  then have "q \<in> set m" "fst q = uid" "uc_addr (snd q) = uc_addr u"
    using find_Some_set [OF q] assms(2) by (auto simp: mm_equal_range_set)
  then have "q = (uid, u)"
    using assms(1,3) inj_onD [of "\<lambda>p. (fst p, uc_addr (snd p))" "set m" q "(uid, u)"]
    by (auto simp: distinct_map)
  with q show ?thesis by simp
qed

lemma update_user_users:
  assumes "uc_inv s"
  shows "set (users (update_user uid r s)) =
      {p \<in> set (users s). \<not> (fst p = uid \<and> uc_addr (snd p) = uc_addr r)} \<union> {(uid, r)}"
    and "mm_wf (users (update_user uid r s))"
    and "distinct (map (\<lambda>p. (fst p, uc_addr (snd p))) (users (update_user uid r s)))"
proof -
  have wf: "mm_wf (users s)" and d: "distinct (map (\<lambda>p. (fst p, uc_addr (snd p))) (users s))"
    using assms by (auto simp: uc_inv_def)
  let ?hit = "\<lambda>p. fst p = uid \<and> uc_addr (snd p) = uc_addr r"
  let ?repl = "\<lambda>p. if ?hit p then (fst p, r) else p"
  have found: "list_ex (\<lambda>p. uc_addr (snd p) = uc_addr r) (mm_equal_range uid (users s)) = (\<exists>p \<in> set (users s). ?hit p)"
    unfolding list_ex_iff mm_equal_range_set [OF wf] by blast
  have "set (users (update_user uid r s)) = {p \<in> set (users s). \<not> ?hit p} \<union> {(uid, r)}
     \<and> mm_wf (users (update_user uid r s))
     \<and> distinct (map (\<lambda>p. (fst p, uc_addr (snd p))) (users (update_user uid r s)))"
  proof (cases "\<exists>p \<in> set (users s). ?hit p")
    case True
    then have u: "users (update_user uid r s) = map ?repl (users s)"
      by (simp add: update_user_def Let_def found)
    have "map fst (map ?repl (users s)) = map fst (users s)"
      "map (\<lambda>p. (fst p, uc_addr (snd p))) (map ?repl (users s)) = map (\<lambda>p. (fst p, uc_addr (snd p))) (users s)"
      by auto
    moreover have "set (map ?repl (users s)) = {p \<in> set (users s). \<not> ?hit p} \<union> {(uid, r)}"
      using True by (auto simp: image_iff)
    ultimately show ?thesis using wf d unfolding u mm_wf_def by (simp only:)
  next
    case False
    then have "\<not> list_ex (\<lambda>p. uc_addr (snd p) = uc_addr r) (mm_equal_range uid (users s))"
      using found by blast
    then have u: "users (update_user uid r s) = mm_insert uid r (users s)"
      by (simp add: update_user_def Let_def)
    obtain xs ys where xy: "users s = xs @ ys" "mm_insert uid r (users s) = xs @ (uid, r) # ys"
      using mm_insert_split [of "users s" uid r] by (elim exE conjE)
    have "(uid, uc_addr r) \<notin> set (map (\<lambda>p. (fst p, uc_addr (snd p))) (users s))" using False by auto
    then have "distinct (map (\<lambda>p. (fst p, uc_addr (snd p))) (mm_insert uid r (users s)))"
      using d unfolding xy(2) unfolding xy(1) by auto
    then show ?thesis unfolding u using False wf by (auto simp: mm_insert_set mm_insert_wf)
  qed
  then show "set (users (update_user uid r s)) = {p \<in> set (users s). \<not> ?hit p} \<union> {(uid, r)}"
    "mm_wf (users (update_user uid r s))"
    "distinct (map (\<lambda>p. (fst p, uc_addr (snd p))) (users (update_user uid r s)))" by blast+
qed

lemma update_user_ips: "ips (update_user uid r s) = sm_set (uc_addr r) (uid, updatestamp r) (ips s)"
  by (simp add: update_user_def Let_def)

lemma update_user_inv [utm_inv]:
  assumes "uc_inv s"
  shows "uc_inv (update_user uid r s)"
proof -
  have wf: "sm_wf (ips s)" using assms by (simp add: uc_inv_def)
  have f: "sm_find a (ips (update_user uid r s)) =
      (if a = uc_addr r then Some (uid, updatestamp r) else sm_find a (ips s))" for a
    by (simp add: update_user_ips sm_find_set [OF wf])
  show ?thesis
    unfolding uc_inv_def f update_user_users(1) [OF assms]
  proof (intro conjI allI impI ballI)
    show "mm_wf (users (update_user uid r s))" by (rule update_user_users(2) [OF assms])
    show "sm_wf (ips (update_user uid r s))" by (simp add: update_user_ips sm_set_wf wf)
    show "distinct (map (\<lambda>p. (fst p, uc_addr (snd p))) (users (update_user uid r s)))"
      by (rule update_user_users(3) [OF assms])
  next
    fix a v t assume "(if a = uc_addr r then Some (uid, updatestamp r) else sm_find a (ips s)) = Some (v, t)"
    then show "\<exists>u. (v, u) \<in> {p \<in> set (users s). \<not> (fst p = uid \<and> uc_addr (snd p) = uc_addr r)} \<union> {(uid, r)}
        \<and> uc_addr u = a \<and> updatestamp u = t"
      using assms unfolding uc_inv_def by (cases "a = uc_addr r") fastforce+
  next
    fix p assume "p \<in> {p \<in> set (users s). \<not> (fst p = uid \<and> uc_addr (snd p) = uc_addr r)} \<union> {(uid, r)}"
    then show "(if uc_addr (snd p) = uc_addr r then Some (uid, updatestamp r) else sm_find (uc_addr (snd p)) (ips s)) \<noteq> None"
      using assms by (auto simp: uc_inv_def)
  qed
qed

lemma fold_ip_of_user:
  assumes "sm_wf m"
  shows "sm_wf (fold ip_of_user us m)
    \<and> (\<forall>a. sm_find a (fold ip_of_user us m) =
        (case find (\<lambda>p. uc_addr (snd p) = a) (rev us) of
           None \<Rightarrow> sm_find a m | Some p \<Rightarrow> Some (fst p, updatestamp (snd p))))"
proof (induction us rule: rev_induct)
  case (snoc p us)
  then show ?case by (auto simp: ip_of_user_def sm_set_wf sm_find_set)
qed (use assms in simp)

lemma purge_inv [utm_inv]:
  assumes "uc_inv s"
  shows "uc_inv (purge_disconnected_users tmo t s)"
proof -
  let ?kept = "filter (\<lambda>p. uc_fresh tmo t (updatestamp (snd p))) (users s)"
  have k: "mm_wf ?kept" "distinct (map (\<lambda>p. (fst p, uc_addr (snd p))) ?kept)"
    using assms unfolding uc_inv_def mm_wf_def by (auto simp: sorted_filter distinct_map_filter)
  show ?thesis
  proof (cases "list_ex (\<lambda>p. \<not> uc_fresh tmo t (updatestamp (snd p))) (users s)")
    case False
    then have "?kept = users s" by (auto simp: list_ex_iff filter_id_conv)
    then show ?thesis using assms False by (simp add: purge_disconnected_users_def Let_def)
  next
    case True
    let ?m = "fold ip_of_user ?kept []"
    have m: "sm_wf ?m" "\<And>a. sm_find a ?m = (case find (\<lambda>p. uc_addr (snd p) = a) (rev ?kept) of
           None \<Rightarrow> None | Some p \<Rightarrow> Some (fst p, updatestamp (snd p)))"
    proof -
      have e: "sm_find a ([] :: (addrip_v4, u32 \<times> utimestamp) std_map) = None" for a
        by (simp add: sm_find_def)
      have "sm_wf ([] :: (addrip_v4, u32 \<times> utimestamp) std_map)" by (simp add: sm_wf_def)
      from fold_ip_of_user [OF this, of ?kept, unfolded e]
      show "sm_wf ?m" "\<And>a. sm_find a ?m = (case find (\<lambda>p. uc_addr (snd p) = a) (rev ?kept) of
           None \<Rightarrow> None | Some p \<Rightarrow> Some (fst p, updatestamp (snd p)))"
        by simp_all
    qed
    have c1: "\<exists>u. (v, u) \<in> set ?kept \<and> uc_addr u = a \<and> updatestamp u = r"
      if f: "sm_find a ?m = Some (v, r)" for a v r
    proof -
      obtain p where p: "find (\<lambda>p. uc_addr (snd p) = a) (rev ?kept) = Some p"
        "fst p = v" "updatestamp (snd p) = r"
        using f unfolding m(2) by (auto split: option.splits)
      have "p \<in> set ?kept \<and> uc_addr (snd p) = a" using find_Some_set [OF p(1)] by (simp only: set_rev)
      then show ?thesis using p(2,3) by (cases p) auto
    qed
    have c2: "sm_find (uc_addr (snd p)) ?m \<noteq> None" if p: "p \<in> set ?kept" for p
    proof -
      have "find (\<lambda>q. uc_addr (snd q) = uc_addr (snd p)) (rev ?kept) \<noteq> None"
        using p by (simp only: find_None_set set_rev) blast
      then show ?thesis unfolding m(2) by auto
    qed
    have u: "users (s\<lparr>users := ?kept, ips := ?m\<rparr>) = ?kept" "ips (s\<lparr>users := ?kept, ips := ?m\<rparr>) = ?m"
      by simp_all
    have "uc_inv (s\<lparr>users := ?kept, ips := ?m\<rparr>)"
      unfolding uc_inv_def u using k m(1) c1 c2 by blast
    then show ?thesis using True by (simp add: purge_disconnected_users_def Let_def)
  qed
qed

section \<open>The life of the tables\<close>

text \<open>The operations of a running server: a client reports, the timer purges, a reset clears.\<close>

inductive uc_step :: "u32 \<Rightarrow> users_connected \<Rightarrow> users_connected \<Rightarrow> bool" for tmo where
  update: "uc_step tmo s (update_user uid r s)"
| purge: "uc_step tmo s (purge_disconnected_users tmo t s)"
| clear: "uc_step tmo s (users_clear s)"

definition uc_reachable :: "u32 \<Rightarrow> users_connected \<Rightarrow> bool" where
  "uc_reachable tmo s \<longleftrightarrow> (uc_step tmo)\<^sup>*\<^sup>* users_new s"

lemma uc_step_inv: "uc_step tmo s s' \<Longrightarrow> uc_inv s \<Longrightarrow> uc_inv s'"
proof (induction rule: uc_step.induct)
  case (clear s)
  then show ?case by (simp add: users_clear_def uc_inv_def mm_wf_def sm_wf_def sm_find_def)
qed (auto intro: utm_inv)

lemma uc_reachable_inv: "uc_reachable tmo s \<Longrightarrow> uc_inv s"
  unfolding uc_reachable_def by (induction rule: rtranclp_induct) (auto intro: uc_inv_new uc_step_inv)

lemma check_user_and_ip_iff:
  assumes "uc_inv s"
  shows "check_user_and_ip tmo uid a t s =
    (\<exists>u. (uid, u) \<in> set (users s) \<and> uc_addr u = a \<and> uc_fresh tmo t (updatestamp u))"
proof -
  have d: "distinct (map (\<lambda>p. (fst p, uc_addr (snd p))) (users s))" and wf: "mm_wf (users s)"
    using assms by (auto simp: uc_inv_def)
  show ?thesis
  proof
    assume c: "check_user_and_ip tmo uid a t s"
    then obtain p where p: "find (\<lambda>p. uc_addr (snd p) = a) (mm_equal_range uid (users s)) = Some p"
      "uc_fresh tmo t (updatestamp (snd p))" by (auto simp: check_user_and_ip_def split: option.splits)
    then have "p \<in> set (users s)" "fst p = uid" "uc_addr (snd p) = a"
      using find_Some_set [OF p(1)] wf by (auto simp: mm_equal_range_set)
    with p(2) show "\<exists>u. (uid, u) \<in> set (users s) \<and> uc_addr u = a \<and> uc_fresh tmo t (updatestamp u)"
      by (metis surjective_pairing)
  next
    assume "\<exists>u. (uid, u) \<in> set (users s) \<and> uc_addr u = a \<and> uc_fresh tmo t (updatestamp u)"
    then show "check_user_and_ip tmo uid a t s"
      using find_unique_addr [OF d wf] by (auto simp: check_user_and_ip_def)
  qed
qed

section \<open>Properties\<close>

text \<open>
  C18: the two tables stay consistent. In every state a running server reaches, a user has at most
  one entry per address, every entry's address is mapped, and an address maps to the user id and
  time stamp of one of its entries.
\<close>

theorem users_tables_consistent:
  assumes "uc_reachable tmo s"
  shows "distinct (map (\<lambda>p. (fst p, uc_addr (snd p))) (users s))
    \<and> (\<forall>a. (sm_find a (ips s) \<noteq> None) = (\<exists>p \<in> set (users s). uc_addr (snd p) = a))
    \<and> (\<forall>a uid t. sm_find a (ips s) = Some (uid, t) \<longrightarrow>
          (\<exists>u. (uid, u) \<in> set (users s) \<and> uc_addr u = a \<and> updatestamp u = t))"
proof -
  have inv: "uc_inv s" using assms by (rule uc_reachable_inv)
  have "\<exists>p \<in> set (users s). uc_addr (snd p) = a" if ne: "sm_find a (ips s) \<noteq> None" for a
  proof -
    obtain uid t where "sm_find a (ips s) = Some (uid, t)" using ne by auto
    then show ?thesis using inv unfolding uc_inv_def by (metis snd_conv)
  qed
  with inv show ?thesis unfolding uc_inv_def by blast
qed

definition ex_uc :: "u32 \<Rightarrow> int \<Rightarrow> user_connection" where
  "ex_uc a t = \<lparr>uc_addr = Addrip_v4 a, updatestamp = \<lparr>ts = t\<rparr>, uc_is_disabled = False,
     agent_version = release_info_new\<rparr>"

definition ex_users :: users_connected where
  "ex_users = update_user 2 (ex_uc 7 15) (update_user 1 (ex_uc 7 20) (update_user 3 (ex_uc 9 5) users_new))"

lemma ex_users_users: "users ex_users = [(1, ex_uc 7 20), (2, ex_uc 7 15), (3, ex_uc 9 5)]"
  by (simp add: ex_users_def update_user_def Let_def users_new_def mm_equal_range_def
      sm_lower_bound_def ex_uc_def)

lemma ex_users_reachable: "uc_reachable tmo ex_users"
  unfolding uc_reachable_def ex_users_def
  by (meson rtranclp.rtrancl_into_rtrancl rtranclp.rtrancl_refl uc_step.update)

theorem users_tables_consistent_witness:
  "sm_find (Addrip_v4 7) (ips ex_users) \<noteq> None \<and> sm_find (Addrip_v4 8) (ips ex_users) = None"
proof -
  have "(sm_find a (ips ex_users) \<noteq> None) = (\<exists>p \<in> set (users ex_users). uc_addr (snd p) = a)" for a
    using users_tables_consistent [OF ex_users_reachable [of 10]] by blast
  note e = this [unfolded ex_users_users]
  have "sm_find (Addrip_v4 7) (ips ex_users) \<noteq> None"
    using e [of "Addrip_v4 7"] by (simp add: ex_uc_def del: not_None_eq)
  moreover have "\<not> sm_find (Addrip_v4 8) (ips ex_users) \<noteq> None"
    using e [of "Addrip_v4 8"] by (simp add: ex_uc_def del: not_None_eq)
  ultimately show ?thesis by blast
qed

text \<open>
  a report logs a user in and disturbs nobody. After \<open>update_user\<close> the user is found at the
  reported address, and the address is accepted for any user, as long as the report is fresh;
  what \<open>check_user_and_ip\<close> says of other users and of other addresses does not change.
\<close>

theorem update_user_logs_in:
  assumes "uc_reachable tmo s"
  shows "check_user_and_ip tmo uid (uc_addr r) t (update_user uid r s) = uc_fresh tmo t (updatestamp r)
    \<and> check_for_any_ip tmo (uc_addr r) t (update_user uid r s) = uc_fresh tmo t (updatestamp r)
    \<and> (\<forall>v a. (v, a) \<noteq> (uid, uc_addr r) \<longrightarrow>
          check_user_and_ip tmo v a t (update_user uid r s) = check_user_and_ip tmo v a t s)"
proof -
  have inv: "uc_inv s" using assms by (rule uc_reachable_inv)
  note inv' = update_user_inv [OF inv, of uid r]
  have "check_for_any_ip tmo (uc_addr r) t (update_user uid r s) = uc_fresh tmo t (updatestamp r)"
    using inv by (simp add: check_for_any_ip_def update_user_ips sm_find_set uc_inv_def)
  then show ?thesis
    unfolding check_user_and_ip_iff [OF inv] check_user_and_ip_iff [OF inv'] update_user_users(1) [OF inv]
    by auto
qed

theorem update_user_logs_in_witness:
  "check_user_and_ip 10 4 (Addrip_v4 8) \<lparr>ts = 30\<rparr> (update_user 4 (ex_uc 8 25) ex_users)"
proof -
  have "uc_fresh 10 \<lparr>ts = 30\<rparr> (updatestamp (ex_uc 8 25))"
    by (simp add: uc_fresh_def is_greater_than_by_sec_def ex_uc_def)
  moreover have "uc_addr (ex_uc 8 25) = Addrip_v4 8" by (simp add: ex_uc_def)
  ultimately show ?thesis
    using update_user_logs_in [OF ex_users_reachable, of 10 4 "ex_uc 8 25" "\<lparr>ts = 30\<rparr>"] by simp
qed

text \<open>
  \<open>check_for_any_ip\<close> accepts no stranger: in a reachable state an address it accepts is the
  address of a user that \<open>check_user_and_ip\<close> accepts at the same time.
\<close>

theorem any_ip_has_user:
  assumes "uc_reachable tmo s" and "check_for_any_ip tmo' a t s"
  shows "\<exists>uid. check_user_and_ip tmo' uid a t s"
proof -
  have inv: "uc_inv s" using assms(1) by (rule uc_reachable_inv)
  obtain uid r where "sm_find a (ips s) = Some (uid, r)" "uc_fresh tmo' t r"
    using assms(2) by (auto simp: check_for_any_ip_def split: option.splits)
  then show ?thesis using inv unfolding check_user_and_ip_iff [OF inv] uc_inv_def by blast
qed

theorem any_ip_has_user_witness:
  "\<exists>uid. check_user_and_ip 10 uid (Addrip_v4 9) \<lparr>ts = 15\<rparr> ex_users"
proof (rule any_ip_has_user [OF ex_users_reachable])
  show "check_for_any_ip 10 (Addrip_v4 9) \<lparr>ts = 15\<rparr> ex_users" by code_simp
qed

text \<open>
  the converse fails after a purge. Users 1 and 2 share an address, user 1 having reported
  last; purging user 3 rebuilds the address table in user order, with the older stamp of user 2:
  ten seconds later the address is refused although user 1 is still accepted there.
\<close>

theorem purge_hides_fresh_user:
  "check_user_and_ip 10 1 (Addrip_v4 7) \<lparr>ts = 26\<rparr> (purge_disconnected_users 10 \<lparr>ts = 22\<rparr> ex_users)
   \<and> \<not> check_for_any_ip 10 (Addrip_v4 7) \<lparr>ts = 26\<rparr> (purge_disconnected_users 10 \<lparr>ts = 22\<rparr> ex_users)"
  by code_simp

text \<open>
  \<open>find_user_ips\<close> returns exactly the addresses of the user, but its result is not whether
  the user is there: it is true as soon as any user with the same or a greater id is connected.
\<close>

theorem find_user_ips_result:
  assumes "uc_reachable tmo s"
  shows "fst (find_user_ips uid addrs d s) = (\<exists>p \<in> set (users s). uid \<le> fst p)
    \<and> (\<exists>new. fst (snd (find_user_ips uid addrs d s)) = addrs @ new
        \<and> set new = {uc_addr u | u. (uid, u) \<in> set (users s)})"
proof -
  have inv: "uc_inv s" using assms by (rule uc_reachable_inv)
  then have wf: "mm_wf (users s)" by (simp add: uc_inv_def)
  have lb: "(sm_lower_bound uid (users s) = []) = (\<forall>p \<in> set (users s). fst p < uid)"
    by (auto simp: sm_lower_bound_def)
  have "set (map (\<lambda>p. uc_addr (snd p)) (mm_equal_range uid (users s))) = {uc_addr u | u. (uid, u) \<in> set (users s)}"
    using wf by (force simp: mm_equal_range_set)
  then show ?thesis
    using lb by (auto simp: find_user_ips_def Let_def not_less mm_equal_range_def sm_lower_bound_def)
qed

theorem find_user_ips_result_witness:
  "fst (find_user_ips 0 [] False ex_users) \<and> fst (snd (find_user_ips 0 [] False ex_users)) = []"
proof -
  from find_user_ips_result [OF ex_users_reachable [of 10], of 0 "[]" False] show ?thesis
    by (auto simp: ex_users_users)
qed

end
