(* ===== verification/Rule.thy ===== *)
theory Rule
  imports UBaseList AddrIp AddrMac Hosts
begin

text \<open>
  \<open>corefilters/rule_common.h\<close>, \<open>rule_base.{h,cpp}\<close>, \<open>rule.{h,cpp}\<close> and
  \<open>rulelist.{h,cpp}\<close>: the rules of a filter. The \<open>#define\<close>d codes are constants of the
  type of the field they are stored in.
\<close>

section \<open>Codes\<close>

definition NICALIAS_DEFAULT :: u32 where [utm_consts]: "NICALIAS_DEFAULT = 0"
definition NICALIAS_NDISWAN :: u32 where [utm_consts]: "NICALIAS_NDISWAN = 1"
definition NICALIAS_PUBLIC :: u32 where [utm_consts]: "NICALIAS_PUBLIC = 2"
definition NICALIAS_PRIVATE :: u32 where [utm_consts]: "NICALIAS_PRIVATE = 3"
definition NICALIAS_NETFLOW :: u32 where [utm_consts]: "NICALIAS_NETFLOW = 4"

definition RULE_MYIP :: i32 where [utm_consts]: "RULE_MYIP = 0"
definition RULE_IP :: i32 where [utm_consts]: "RULE_IP = 1"
definition RULE_LAN :: i32 where [utm_consts]: "RULE_LAN = 2"
definition RULE_WAN :: i32 where [utm_consts]: "RULE_WAN = 3"
definition RULE_MAC :: i32 where [utm_consts]: "RULE_MAC = 4"
definition RULE_RANGE :: i32 where [utm_consts]: "RULE_RANGE = 5"
definition RULE_HOST :: i32 where [utm_consts]: "RULE_HOST = 7"
definition RULE_ADDRGRP :: i32 where [utm_consts]: "RULE_ADDRGRP = 8"
definition RULE_ADDRGRP_NO :: i32 where [utm_consts]: "RULE_ADDRGRP_NO = 9"
definition RULE_USER :: i32 where [utm_consts]: "RULE_USER = 10"
definition RULE_USER_ANY :: i32 where [utm_consts]: "RULE_USER_ANY = 11"
definition RULE_PROCNAME :: i32 where [utm_consts]: "RULE_PROCNAME = 12"
definition RULE_PROCUSER :: i32 where [utm_consts]: "RULE_PROCUSER = 13"
definition RULE_INCOMING :: i32 where [utm_consts]: "RULE_INCOMING = 20"
definition RULE_OUTGOING :: i32 where [utm_consts]: "RULE_OUTGOING = 21"

definition PORT_ANY :: u16 where [utm_consts]: "PORT_ANY = 0"
definition PORT_EQUAL :: u16 where [utm_consts]: "PORT_EQUAL = 1"
definition PORT_GREATER :: u16 where [utm_consts]: "PORT_GREATER = 2"
definition PORT_LESS :: u16 where [utm_consts]: "PORT_LESS = 3"
definition PORT_NOTEQUAL :: u16 where [utm_consts]: "PORT_NOTEQUAL = 4"
definition PORT_BETWEEN :: u16 where [utm_consts]: "PORT_BETWEEN = 5"
definition PORT_NOTBETWEEN :: u16 where [utm_consts]: "PORT_NOTBETWEEN = 6"
definition PORT_EQUAL_OR :: u16 where [utm_consts]: "PORT_EQUAL_OR = 7"

definition ACTION_COUNT :: i32 where [utm_consts]: "ACTION_COUNT = 0"
definition ACTION_PASS :: i32 where [utm_consts]: "ACTION_PASS = 1"
definition ACTION_COUNTPASS :: i32 where [utm_consts]: "ACTION_COUNTPASS = 2"
definition ACTION_DENY :: i32 where [utm_consts]: "ACTION_DENY = 3"
definition ACTION_FWD_DST :: i32 where [utm_consts]: "ACTION_FWD_DST = 4"
definition ACTION_FWD_SRC :: i32 where [utm_consts]: "ACTION_FWD_SRC = 5"

definition COND_ALWAYS :: u32 where [utm_consts]: "COND_ALWAYS = 0"
definition COND_SENT_LESS :: u32 where [utm_consts]: "COND_SENT_LESS = 1"
definition COND_SENT_GREATER :: u32 where [utm_consts]: "COND_SENT_GREATER = 2"
definition COND_RECV_LESS :: u32 where [utm_consts]: "COND_RECV_LESS = 3"
definition COND_RECV_GREATER :: u32 where [utm_consts]: "COND_RECV_GREATER = 4"
definition COND_SENT_OR_RECV_LESS :: u32 where [utm_consts]: "COND_SENT_OR_RECV_LESS = 5"
definition COND_SENT_OR_RECV_GREATER :: u32 where [utm_consts]: "COND_SENT_OR_RECV_GREATER = 6"
definition COND_SENT_AND_RECV_LESS :: u32 where [utm_consts]: "COND_SENT_AND_RECV_LESS = 7"
definition COND_SENT_AND_RECV_GREATER :: u32 where [utm_consts]: "COND_SENT_AND_RECV_GREATER = 8"
definition COND_SENT_PLUS_RECV_LESS :: u32 where [utm_consts]: "COND_SENT_PLUS_RECV_LESS = 9"
definition COND_SENT_PLUS_RECV_GREATER :: u32 where [utm_consts]: "COND_SENT_PLUS_RECV_GREATER = 10"

definition COND_MAC_ANY :: u32 where [utm_consts]: "COND_MAC_ANY = 0"
definition COND_MAC_SRC_EQUAL :: u32 where [utm_consts]: "COND_MAC_SRC_EQUAL = 1"
definition COND_MAC_SRC_NOTEQUAL :: u32 where [utm_consts]: "COND_MAC_SRC_NOTEQUAL = 2"
definition COND_MAC_DST_EQUAL :: u32 where [utm_consts]: "COND_MAC_DST_EQUAL = 3"
definition COND_MAC_DST_NOTEQUAL :: u32 where [utm_consts]: "COND_MAC_DST_NOTEQUAL = 4"

definition PREVFILTER_ANY :: i32 where [utm_consts]: "PREVFILTER_ANY = 0"
definition PREVFILTER_NOTMATCHED :: i32 where [utm_consts]: "PREVFILTER_NOTMATCHED = 1"
definition PREVFILTER_MATCHED :: i32 where [utm_consts]: "PREVFILTER_MATCHED = 2"

definition NATUSE_ANY :: i32 where [utm_consts]: "NATUSE_ANY = 0"
definition NATUSE_YES :: i32 where [utm_consts]: "NATUSE_YES = 1"
definition NATUSE_NO :: i32 where [utm_consts]: "NATUSE_NO = 2"

definition PKTOPT_NONE :: u32 where [utm_consts]: "PKTOPT_NONE = 0"
definition PKTOPT_TCPSYN :: u32 where [utm_consts]: "PKTOPT_TCPSYN = 1"
definition PKTOPT_ICMPECHOREQUEST :: u32 where [utm_consts]: "PKTOPT_ICMPECHOREQUEST = 2"
definition PKTOPT_FTP :: u32 where [utm_consts]: "PKTOPT_FTP = 4"
definition PKTOPT_ICMPTTLEXCEEDED :: u32 where [utm_consts]: "PKTOPT_ICMPTTLEXCEEDED = 8"

definition DIRECTION_ONEWAY :: u16 where [utm_consts]: "DIRECTION_ONEWAY = 0"
definition DIRECTION_TWOWAY :: u16 where [utm_consts]: "DIRECTION_TWOWAY = 1"
definition DIRECTION_STATEFUL :: u16 where [utm_consts]: "DIRECTION_STATEFUL = 2"

definition WDAY_MON :: u32 where [utm_consts]: "WDAY_MON = 1"
definition WDAY_TUE :: u32 where [utm_consts]: "WDAY_TUE = 2"
definition WDAY_WED :: u32 where [utm_consts]: "WDAY_WED = 4"
definition WDAY_THU :: u32 where [utm_consts]: "WDAY_THU = 8"
definition WDAY_FRI :: u32 where [utm_consts]: "WDAY_FRI = 16"
definition WDAY_SAT :: u32 where [utm_consts]: "WDAY_SAT = 32"
definition WDAY_SUN :: u32 where [utm_consts]: "WDAY_SUN = 64"
definition WDAY_ALL :: u32 where [utm_consts]: "WDAY_ALL = 127"

section \<open>Rules\<close>

record rule =
  rl_id :: u32
  mirrored :: u16
  rl_descr :: string
  rl_action :: i32
  rwr_fwd :: u16
  rl_proto :: i32
  nicalias :: u32
  pkt_options :: u32
  condition_type :: u32
  condition_limit :: u32
  cond_mac_type :: u32
  cond_mac_data :: addrmac
  prevfilter_type :: i32
  natuse :: i32
  wday :: u32
  time_from :: u16
  time_to :: u16
  src_type :: i32
  src_ip :: addrip_v4
  src_mask :: addrip_v4
  src_addr_type :: u16
  src_port_type :: u16
  src_port :: u16
  src_port_to :: u16
  src_atkey :: u32
  src_uid :: u32
  src_procnick :: u32
  src_mac :: addrmac
  src_host :: hostname
  dst_type :: i32
  dst_ip :: addrip_v4
  dst_mask :: addrip_v4
  dst_addr_type :: u16
  dst_port_type :: u16
  dst_port :: u16
  dst_port_to :: u16
  dst_atkey :: u32
  dst_uid :: u32
  dst_procnick :: u32
  dst_mac :: addrmac
  dst_host :: hostname

definition rule_clear :: rule where
  "rule_clear =
     \<lparr>rl_id = 0, mirrored = DIRECTION_TWOWAY, rl_descr = [], rl_action = ACTION_COUNT,
      rwr_fwd = 0, rl_proto = 0, nicalias = NICALIAS_DEFAULT, pkt_options = PKTOPT_NONE,
      condition_type = COND_ALWAYS, condition_limit = 0, cond_mac_type = COND_MAC_ANY,
      cond_mac_data = mac_clear, prevfilter_type = PREVFILTER_ANY, natuse = NATUSE_ANY,
      wday = WDAY_MON OR WDAY_TUE OR WDAY_WED OR WDAY_THU OR WDAY_FRI OR WDAY_SAT OR WDAY_SUN,
      time_from = 0, time_to = 23, src_type = RULE_MYIP, src_ip = Addrip_v4 0,
      src_mask = Addrip_v4 0, src_addr_type = 0, src_port_type = PORT_ANY, src_port = 0,
      src_port_to = 0, src_atkey = 0, src_uid = 0, src_procnick = 0, src_mac = mac_clear,
      src_host = hostname_clear, dst_type = RULE_IP, dst_ip = Addrip_v4 0,
      dst_mask = Addrip_v4 0, dst_addr_type = 0, dst_port_type = PORT_ANY, dst_port = 0,
      dst_port_to = 0, dst_atkey = 0, dst_uid = 0, dst_procnick = 0, dst_mac = mac_clear,
      dst_host = hostname_clear\<rparr>"

definition rule_eq :: "rule \<Rightarrow> rule \<Rightarrow> bool" where
  "rule_eq a b \<longleftrightarrow> rl_id a = rl_id b \<and> mirrored a = mirrored b \<and> rl_descr a = rl_descr b
     \<and> rl_action a = rl_action b \<and> rwr_fwd a = rwr_fwd b
     \<and> rl_proto a = rl_proto b \<and> nicalias a = nicalias b
     \<and> pkt_options a = pkt_options b \<and> condition_type a = condition_type b
     \<and> condition_limit a = condition_limit b \<and> cond_mac_type a = cond_mac_type b
     \<and> mac_equal (cond_mac_data a) (cond_mac_data b)
     \<and> prevfilter_type a = prevfilter_type b \<and> natuse a = natuse b
     \<and> wday a = wday b \<and> time_from a = time_from b \<and> time_to a = time_to b
     \<and> src_type a = src_type b \<and> src_ip a = src_ip b
     \<and> src_mask a = src_mask b \<and> src_addr_type a = src_addr_type b
     \<and> src_port_type a = src_port_type b \<and> src_port a = src_port b
     \<and> src_port_to a = src_port_to b \<and> src_atkey a = src_atkey b
     \<and> src_uid a = src_uid b \<and> src_procnick a = src_procnick b
     \<and> mac_equal (src_mac a) (src_mac b) \<and> hostname_eq (src_host a) (src_host b)
     \<and> dst_type a = dst_type b \<and> dst_ip a = dst_ip b
     \<and> dst_mask a = dst_mask b \<and> dst_addr_type a = dst_addr_type b
     \<and> dst_port_type a = dst_port_type b \<and> dst_port a = dst_port b
     \<and> dst_port_to a = dst_port_to b \<and> dst_atkey a = dst_atkey b
     \<and> dst_uid a = dst_uid b \<and> dst_procnick a = dst_procnick b
     \<and> mac_equal (dst_mac a) (dst_mac b) \<and> hostname_eq (dst_host a) (dst_host b)"

text \<open>The constructor with the six arguments the tests and the console use.\<close>

definition rule_make :: "i32 \<Rightarrow> string \<Rightarrow> string \<Rightarrow> i32 \<Rightarrow> string \<Rightarrow> string \<Rightarrow> rule" where
  "rule_make st s_ip s_mask dt d_ip d_mask =
     (let addr = \<lambda>s. snd (ip_from_string (Some s) False)
      in rule_clear\<lparr>src_type := st, src_ip := addr s_ip, src_mask := addr s_mask,
                    dst_type := dt, dst_ip := addr d_ip, dst_mask := addr d_mask\<rparr>)"

definition get_src_host_str :: "rule \<Rightarrow> string" where "get_src_host_str r = hs_host (src_host r)"
definition get_dst_host_str :: "rule \<Rightarrow> string" where "get_dst_host_str r = hs_host (dst_host r)"
definition parse_src_host_string :: "string option \<Rightarrow> rule \<Rightarrow> rule" where
  "parse_src_host_string p r = r\<lparr>src_host := set_host p\<rparr>"
definition parse_dst_host_string :: "string option \<Rightarrow> rule \<Rightarrow> rule" where
  "parse_dst_host_string p r = r\<lparr>dst_host := set_host p\<rparr>"

section \<open>The list of rules\<close>

definition rulelist_class :: "rule ubl_class" where
  "rulelist_class = \<lparr>ubl_get_id = rl_id, ubl_set_id = (\<lambda>i r. r\<lparr>rl_id := i\<rparr>), ubl_get_name = rl_descr,
     ubl_default = rule_clear, ubl_item_clear = (\<lambda>r. rule_clear), ubl_eq = rule_eq, ubl_protected = False\<rparr>"

interpretation rulelist: ubl_element rulelist_class
  by unfold_locales (simp add: rulelist_class_def)

end
