(* ===== verification/TrafficFilter.thy ===== *)
theory TrafficFilter
  imports Rule FilterSetData UTime
begin

text \<open>
  \<open>corefilters/filter_base.{h,cpp}\<close>, \<open>filter_.{h,cpp}\<close> and the counters, limits and
  schedule of \<open>filter2.cpp\<close>. The classes \<open>filter_base\<close>, \<open>filter\<close> and \<open>filter2\<close> are the
  record \<open>filter_base\<close> and its extension \<open>filter2\<close>; the packet collectors of \<open>filter2\<close>, which
  none of these operations touches, are left out.
\<close>

section \<open>Codes\<close>

definition LOGPKT_MAXCOLSIZE :: i32 where [utm_consts]: "LOGPKT_MAXCOLSIZE = 1200"
definition LOGPKT_SQLADDR_CHAR :: i32 where [utm_consts]: "LOGPKT_SQLADDR_CHAR = 0"
definition LOGPKT_SQLADDR_UINT :: i32 where [utm_consts]: "LOGPKT_SQLADDR_UINT = 1"
definition LOGPKT_SQLADDR_INT :: i32 where [utm_consts]: "LOGPKT_SQLADDR_INT = 2"
definition LOGPKT_DISABLED :: i32 where [utm_consts]: "LOGPKT_DISABLED = 0"
definition LOGPKT_INTOFILE :: i32 where [utm_consts]: "LOGPKT_INTOFILE = 1"
definition LOGPKT_INTODB :: i32 where [utm_consts]: "LOGPKT_INTODB = 2"
definition LOGHH_DISABLED :: i32 where [utm_consts]: "LOGHH_DISABLED = 0"
definition LOGHH_INTOFILE :: i32 where [utm_consts]: "LOGHH_INTOFILE = 1"
definition LOGHH_INTODB :: i32 where [utm_consts]: "LOGHH_INTODB = 2"
definition LOGHH_SQUID :: i32 where [utm_consts]: "LOGHH_SQUID = 3"
definition RESETCNT_NEVER :: i32 where [utm_consts]: "RESETCNT_NEVER = 0"
definition RESETCNT_DAILY :: i32 where [utm_consts]: "RESETCNT_DAILY = 1"
definition RESETCNT_MONTHLY :: i32 where [utm_consts]: "RESETCNT_MONTHLY = 2"
definition RESETCNT_MONDAY :: i32 where [utm_consts]: "RESETCNT_MONDAY = 3"
definition RESETCNT_TUESDAY :: i32 where [utm_consts]: "RESETCNT_TUESDAY = 4"
definition RESETCNT_WEDNESDAY :: i32 where [utm_consts]: "RESETCNT_WEDNESDAY = 5"
definition RESETCNT_THURSDAY :: i32 where [utm_consts]: "RESETCNT_THURSDAY = 6"
definition RESETCNT_FRIDAY :: i32 where [utm_consts]: "RESETCNT_FRIDAY = 7"
definition RESETCNT_SATURDAY :: i32 where [utm_consts]: "RESETCNT_SATURDAY = 8"
definition RESETCNT_SUNDAY :: i32 where [utm_consts]: "RESETCNT_SUNDAY = 9"
definition RESETCNT_HOURLY :: i32 where [utm_consts]: "RESETCNT_HOURLY = 10"
definition TRAFFICLIMIT_SENT_OR_RECV :: i32 where [utm_consts]: "TRAFFICLIMIT_SENT_OR_RECV = 0"
definition TRAFFICLIMIT_SENT_PLUS_RECV :: i32 where [utm_consts]: "TRAFFICLIMIT_SENT_PLUS_RECV = 1"
definition TRAFFICLIMIT_SENT :: i32 where [utm_consts]: "TRAFFICLIMIT_SENT = 2"
definition TRAFFICLIMIT_RECV :: i32 where [utm_consts]: "TRAFFICLIMIT_RECV = 3"
definition TRAFFICLIMIT_REVERS :: i32 where [utm_consts]: "TRAFFICLIMIT_REVERS = 100"
definition CHECKADDR_MYPC_SRC :: u32 where [utm_consts]: "CHECKADDR_MYPC_SRC = 1"
definition CHECKADDR_MYPC_DST :: u32 where [utm_consts]: "CHECKADDR_MYPC_DST = 2"
definition CHECKADDR_LAT_SRC :: u32 where [utm_consts]: "CHECKADDR_LAT_SRC = 4"
definition CHECKADDR_LAT_DST :: u32 where [utm_consts]: "CHECKADDR_LAT_DST = 8"
definition CHECKADDR_MYNET_SRC :: u32 where [utm_consts]: "CHECKADDR_MYNET_SRC = 16"
definition CHECKADDR_MYNET_DST :: u32 where [utm_consts]: "CHECKADDR_MYNET_DST = 32"
definition TRAFFICLIMIT_BLOCK :: i32 where [utm_consts]: "TRAFFICLIMIT_BLOCK = 0"
definition TRAFFICLIMIT_SPEED2 :: i32 where [utm_consts]: "TRAFFICLIMIT_SPEED2 = 1"

section \<open>The state of a filter\<close>

record filter_base =
  m_id :: i32
  m_szFilterName :: string
  m_color :: u32
  m_bRevers :: bool
  m_bBlocked :: bool
  m_bDisable :: bool
  m_bVpn :: bool
  m_bExcludeCntReports :: bool
  m_bExcludeUrlFiltering :: bool
  m_nResetCnt :: i32
  m_nWorkHours :: "u32 list"
  m_nStartDay :: u32
  m_nEndDay :: u32
  m_szEmail :: string
  m_szComment :: string
  m_nRewMask :: i32
  m_dwRewSrcIp :: addrip_v4
  m_dwRewDstIp :: addrip_v4
  m_wRewSrcPort :: u16
  m_wRewDstPort :: u16
  rules :: "rule list"
  m_nTrafficLimitMb :: i64
  m_nTrafficLimitType :: i32
  m_nTrafficLimitAction :: i32
  m_wTrafficLimitWarnLevel :: u16
  m_wTrafficLimitFlags :: u16
  m_nPktLogDest :: i32
  m_nPktLogOpt :: i32
  m_szPktLogFilename :: string
  m_szPktLogTable :: string
  m_nPktLogSqlSyntax :: i32
  m_nPktLogMaxColSize :: i32
  m_nPktLogAlertColUsage :: i32
  m_nHhLogDest :: i32
  m_szHhLogFilename :: string
  m_szHhLogTable :: string
  m_nMaster :: i32
  m_nSpeed :: i32
  m_nSpeed2 :: i32
  m_nSpeedMaster :: i32
  m_nMasterFilterId :: i32
  m_nMasterLevelSpeed :: i32
  m_nMasterOptions :: i32

record filter2 = filter_base +
  seq_id :: u32
  cnt_sent :: filtercnt
  cnt_recv :: filtercnt
  last_reset_ts :: utimestamp

text \<open>\<open>filter_base::clear\<close> sets the members of the base class and leaves those of the derived.\<close>

definition filter_base_clear :: "'a filter_base_scheme \<Rightarrow> 'a filter_base_scheme" where
  "filter_base_clear f =
     f\<lparr>m_id := 0, m_szFilterName := [], m_color := 255, m_bRevers := False, m_bBlocked := False,
       m_bDisable := False, m_bVpn := False, m_bExcludeCntReports := False,
       m_bExcludeUrlFiltering := False, m_nResetCnt := RESETCNT_MONTHLY,
       m_nWorkHours := replicate 7 0xFFFFFFFF, m_nStartDay := 20000101, m_nEndDay := 20991231,
       m_szEmail := [], m_szComment := [], m_nRewMask := 0, m_dwRewSrcIp := Addrip_v4 0,
       m_dwRewDstIp := Addrip_v4 0, m_wRewSrcPort := 0, m_wRewDstPort := 0, rules := [],
       m_nTrafficLimitMb := 0, m_nTrafficLimitType := 0, m_nTrafficLimitAction := 0,
       m_wTrafficLimitWarnLevel := 80, m_wTrafficLimitFlags := 0,
       m_nPktLogDest := LOGPKT_DISABLED, m_nPktLogOpt := 0, m_szPktLogFilename := [],
       m_szPktLogTable := [], m_nPktLogSqlSyntax := LOGPKT_SQLADDR_CHAR,
       m_nPktLogMaxColSize := LOGPKT_MAXCOLSIZE, m_nPktLogAlertColUsage := 100,
       m_nHhLogDest := LOGHH_DISABLED, m_szHhLogFilename := [], m_szHhLogTable := [],
       m_nMaster := 0, m_nSpeed := 0, m_nSpeed2 := 0, m_nSpeedMaster := 0,
       m_nMasterFilterId := 0, m_nMasterLevelSpeed := 0, m_nMasterOptions := 0\<rparr>"

definition filter_base_eq :: "'a filter_base_scheme \<Rightarrow> 'a filter_base_scheme \<Rightarrow> bool" where
  "filter_base_eq a b \<longleftrightarrow> m_id a = m_id b \<and> m_szFilterName a = m_szFilterName b
     \<and> m_color a = m_color b \<and> m_bRevers a = m_bRevers b
     \<and> m_bBlocked a = m_bBlocked b \<and> m_bDisable a = m_bDisable b
     \<and> m_bVpn a = m_bVpn b \<and> m_bExcludeCntReports a = m_bExcludeCntReports b
     \<and> m_bExcludeUrlFiltering a = m_bExcludeUrlFiltering b
     \<and> m_nResetCnt a = m_nResetCnt b \<and> m_nWorkHours a = m_nWorkHours b
     \<and> m_nStartDay a = m_nStartDay b \<and> m_nEndDay a = m_nEndDay b
     \<and> m_szEmail a = m_szEmail b \<and> m_szComment a = m_szComment b
     \<and> m_nRewMask a = m_nRewMask b \<and> m_dwRewSrcIp a = m_dwRewSrcIp b
     \<and> m_dwRewDstIp a = m_dwRewDstIp b \<and> m_wRewSrcPort a = m_wRewSrcPort b
     \<and> m_wRewDstPort a = m_wRewDstPort b \<and> list_all2 rule_eq (rules a) (rules b)
     \<and> m_nTrafficLimitMb a = m_nTrafficLimitMb b
     \<and> m_nTrafficLimitType a = m_nTrafficLimitType b
     \<and> m_nTrafficLimitAction a = m_nTrafficLimitAction b
     \<and> m_wTrafficLimitWarnLevel a = m_wTrafficLimitWarnLevel b
     \<and> m_wTrafficLimitFlags a = m_wTrafficLimitFlags b
     \<and> m_nPktLogDest a = m_nPktLogDest b \<and> m_nPktLogOpt a = m_nPktLogOpt b
     \<and> m_szPktLogFilename a = m_szPktLogFilename b
     \<and> m_szPktLogTable a = m_szPktLogTable b
     \<and> m_nPktLogSqlSyntax a = m_nPktLogSqlSyntax b
     \<and> m_nPktLogMaxColSize a = m_nPktLogMaxColSize b
     \<and> m_nPktLogAlertColUsage a = m_nPktLogAlertColUsage b
     \<and> m_nHhLogDest a = m_nHhLogDest b
     \<and> m_szHhLogFilename a = m_szHhLogFilename b
     \<and> m_szHhLogTable a = m_szHhLogTable b \<and> m_nMaster a = m_nMaster b
     \<and> m_nSpeed a = m_nSpeed b \<and> m_nSpeed2 a = m_nSpeed2 b
     \<and> m_nSpeedMaster a = m_nSpeedMaster b
     \<and> m_nMasterFilterId a = m_nMasterFilterId b
     \<and> m_nMasterLevelSpeed a = m_nMasterLevelSpeed b
     \<and> m_nMasterOptions a = m_nMasterOptions b"

definition filter2_new :: "u32 \<Rightarrow> u32 \<Rightarrow> filter2" where
  "filter2_new u v = filter_base_clear
     \<lparr>m_id = 0, m_szFilterName = [], m_color = 0, m_bRevers = False, m_bBlocked = False,
      m_bDisable = False, m_bVpn = False, m_bExcludeCntReports = False, m_bExcludeUrlFiltering = False,
      m_nResetCnt = 0, m_nWorkHours = [], m_nStartDay = 0, m_nEndDay = 0, m_szEmail = [],
      m_szComment = [], m_nRewMask = 0, m_dwRewSrcIp = Addrip_v4 0, m_dwRewDstIp = Addrip_v4 0,
      m_wRewSrcPort = 0, m_wRewDstPort = 0, rules = [], m_nTrafficLimitMb = 0,
      m_nTrafficLimitType = 0, m_nTrafficLimitAction = 0, m_wTrafficLimitWarnLevel = 0,
      m_wTrafficLimitFlags = 0, m_nPktLogDest = 0, m_nPktLogOpt = 0, m_szPktLogFilename = [],
      m_szPktLogTable = [], m_nPktLogSqlSyntax = 0, m_nPktLogMaxColSize = 0,
      m_nPktLogAlertColUsage = 0, m_nHhLogDest = 0, m_szHhLogFilename = [], m_szHhLogTable = [],
      m_nMaster = 0, m_nSpeed = 0, m_nSpeed2 = 0, m_nSpeedMaster = 0, m_nMasterFilterId = 0,
      m_nMasterLevelSpeed = 0, m_nMasterOptions = 0,
      seq_id = 0, cnt_sent = filtercnt_new u, cnt_recv = filtercnt_new v, last_reset_ts = ts_clear\<rparr>"

definition filter_clear :: "bool \<Rightarrow> filter2 \<Rightarrow> filter2" where
  "filter_clear dont_clear_parent f =
     (if dont_clear_parent then f else filter_base_clear f)\<lparr>seq_id := 0\<rparr>"

definition filter_is_equal :: "filter2 \<Rightarrow> filter2 \<Rightarrow> bool" where
  "filter_is_equal a b \<longleftrightarrow> seq_id a = seq_id b \<and> filter_base_eq a b"

definition rule_add :: "rule \<Rightarrow> filter2 \<Rightarrow> filter2" where
  "rule_add r f = f\<lparr>rules := snd (add_element rulelist_class r 0 (rules f))\<rparr>"

definition rules_clear :: "filter2 \<Rightarrow> filter2" where "rules_clear f = f\<lparr>rules := []\<rparr>"

text \<open>\<open>xml_catch_subnode\<close>: the node \<open>RuleNT\<close> appends a rule, which is parsed in place.\<close>

definition filter_catch_subnode :: "string \<Rightarrow> filter2 \<Rightarrow> filter2 \<times> bool" where
  "filter_catch_subnode keyname f =
     (if keyname = ''RuleNT'' then (f\<lparr>rules := snd (add_element rulelist_class rule_clear 0 (rules f))\<rparr>, True)
      else (f, False))"

definition get_proto_name :: "i32 \<Rightarrow> string" where
  "get_proto_name n =
     (if n = 0 then ''IP'' else if n = 1 then ''ICMP'' else if n = 6 then ''TCP''
      else if n = 17 then ''UDP'' else if n = 47 then ''GRE'' else if n = 50 then ''ESP''
      else if n = 51 then ''AH'' else if n = 115 then ''L2TP'' else print_i n)"

section \<open>Working hours\<close>

text \<open>\<open>oss << std::hex << n\<close> prints lower-case digits and no leading zeros.\<close>

fun print_x :: "nat \<Rightarrow> string" where
  "print_x n = (if n < 16 then [nibble_values ! n] else print_x (n div 16) @ [nibble_values ! (n mod 16)])"

declare print_x.simps [simp del]

fun workhours_text :: "u32 list \<Rightarrow> string" where
  "workhours_text [] = []"
| "workhours_text [w] = print_x (unat w)"
| "workhours_text (w # ws) = print_x (unat w) @ '','' @ workhours_text ws"

definition get_workhours_str :: "'a filter_base_scheme \<Rightarrow> string" where
  "get_workhours_str f =
     (if list_all (\<lambda>w. w = 0xFFFFFFFF) (m_nWorkHours f) then [] else workhours_text (m_nWorkHours f))"

text \<open>
  One \<open>"%x"\<close> of \<open>sscanf_s\<close>: white space, a sign, \<open>0x\<close> and the digits. The result is the value
  and the rest; the outer \<open>None\<close> is a number no \<open>unsigned int\<close> holds, which is undefined.
\<close>

definition hex_value :: "string \<Rightarrow> nat" where
  "hex_value s = fold (\<lambda>c a. 16 * a + (case parse_nibble c of None \<Rightarrow> 0 | Some b \<Rightarrow> unat b)) s 0"

definition scan_x :: "string \<Rightarrow> (u32 \<times> string) option option" where
  "scan_x s =
     (let s1 = dropWhile is_space s;
          neg = (s1 \<noteq> [] \<and> hd s1 = CHR ''-'');
          s2 = (if s1 \<noteq> [] \<and> hd s1 \<in> {CHR ''-'', CHR ''+''} then tl s1 else s1);
          s3 = (if take 2 s2 = ''0x'' \<or> take 2 s2 = ''0X'' then drop 2 s2 else s2);
          ds = takeWhile (\<lambda>c. parse_nibble c \<noteq> None) s3;
          v = hex_value ds
      in if ds = [] then Some None
         else if v \<ge> 2 ^ 32 then None
         else Some (Some (if neg then - of_nat v else of_nat v, dropWhile (\<lambda>c. parse_nibble c \<noteq> None) s3)))"

text \<open>
  The format \<open>"%x,%x,%x,%x,%x,%x,%x"\<close> stores into the array until the text differs from it:
  the number of conversions to come, and the index of the next.
\<close>

fun scan_workhours :: "nat \<Rightarrow> nat \<Rightarrow> string \<Rightarrow> u32 list \<Rightarrow> u32 list option" where
  "scan_workhours 0 i s w = Some w"
| "scan_workhours (Suc k) i s w =
     (case scan_x s of
        None \<Rightarrow> None
      | Some None \<Rightarrow> Some w
      | Some (Some (v, rest)) \<Rightarrow>
          (case rest of
             [] \<Rightarrow> Some (w[i := v])
           | c # rest' \<Rightarrow> if c = CHR '','' then scan_workhours k (Suc i) rest' (w[i := v])
                          else Some (w[i := v])))"

definition parse_workhours_string :: "string option \<Rightarrow> 'a filter_base_scheme \<Rightarrow> 'a filter_base_scheme option" where
  "parse_workhours_string p f = (case p of
      None \<Rightarrow> Some f
    | Some s \<Rightarrow> if s = [] then Some f
               else map_option (\<lambda>w. f\<lparr>m_nWorkHours := w\<rparr>) (scan_workhours 7 0 s (m_nWorkHours f)))"

section \<open>Speed histories sent to a console\<close>

definition select_diffspeed :: "u32 \<Rightarrow> u32 \<Rightarrow> filter2 \<Rightarrow> (u16 \<times> u16) list" where
  "select_diffspeed diff_size start_diffindex f =
     map (\<lambda>i. let n = unat ((start_diffindex + of_nat i) mod of_nat MAXVALUES)
              in (cnt_set (cnt_sent f) ! n, cnt_set (cnt_recv f) ! n))
       [0 ..< unat diff_size]"

fun apply_diff_loop :: "(u16 \<times> u16) list \<Rightarrow> u32 \<Rightarrow> filter2 \<Rightarrow> filter2" where
  "apply_diff_loop [] diffindex f = f"
| "apply_diff_loop ((s, r) # rest) diffindex f =
     (let n = unat (diffindex mod of_nat MAXVALUES)
      in apply_diff_loop rest (diffindex + 1)
           (f\<lparr>cnt_sent := (cnt_sent f)\<lparr>cnt_set := (cnt_set (cnt_sent f))[n := s]\<rparr>,
              cnt_recv := (cnt_recv f)\<lparr>cnt_set := (cnt_set (cnt_recv f))[n := r]\<rparr>\<rparr>))"

text \<open>The arrays of \<open>apply_diffspeed\<close> are given as the list of their pairs.\<close>

definition apply_diffspeed :: "(u16 \<times> u16) list \<Rightarrow> u32 \<Rightarrow> filter2 \<Rightarrow> filter2" where
  "apply_diffspeed diffs diffindex f =
     (if diffs = [] then f
      else let g = apply_diff_loop diffs diffindex f
           in g\<lparr>cnt_sent := (cnt_sent g)\<lparr>cnt_speed := unpack_speed (fst (last diffs))\<rparr>,
                cnt_recv := (cnt_recv g)\<lparr>cnt_speed := unpack_speed (snd (last diffs))\<rparr>\<rparr>)"

section \<open>Counters, schedule and limits\<close>

definition copy_filter_counters :: "filter2 \<Rightarrow> filter2 \<Rightarrow> filter2" where
  "copy_filter_counters f g =
     g\<lparr>cnt_sent := cnt_copy (cnt_sent f) (cnt_sent g), cnt_recv := cnt_copy (cnt_recv f) (cnt_recv g),
       seq_id := seq_id f, last_reset_ts := last_reset_ts f\<rparr>"

definition reset_filter_counters :: "bool \<Rightarrow> filter2 \<Rightarrow> filter2" where
  "reset_filter_counters reset_history f =
     f\<lparr>cnt_sent := cnt_reset reset_history (cnt_sent f), cnt_recv := cnt_reset reset_history (cnt_recv f)\<rparr>"

text \<open>The local variable \<open>tss\<close> of \<open>reset_on_schedule\<close>: the start of the current period.\<close>

definition period_start :: "standard_timeset \<Rightarrow> i32 \<Rightarrow> int" where
  "period_start st reset_cnt =
     (if reset_cnt = RESETCNT_MONTHLY then sts_start_of_month st
      else if reset_cnt = RESETCNT_DAILY then sts_start_of_day st
      else if reset_cnt = RESETCNT_HOURLY then sts_start_of_hour st
      else if reset_cnt = RESETCNT_SUNDAY then sts_start_of_lastdayweek st ! 0
      else if reset_cnt = RESETCNT_MONDAY then sts_start_of_lastdayweek st ! 1
      else if reset_cnt = RESETCNT_TUESDAY then sts_start_of_lastdayweek st ! 2
      else if reset_cnt = RESETCNT_WEDNESDAY then sts_start_of_lastdayweek st ! 3
      else if reset_cnt = RESETCNT_THURSDAY then sts_start_of_lastdayweek st ! 4
      else if reset_cnt = RESETCNT_FRIDAY then sts_start_of_lastdayweek st ! 5
      else if reset_cnt = RESETCNT_SATURDAY then sts_start_of_lastdayweek st ! 6
      else 0)"

definition reset_on_schedule :: "standard_timeset \<Rightarrow> bool \<Rightarrow> filter2 \<Rightarrow> bool \<times> filter2" where
  "reset_on_schedule st reset_history f =
     (let tss = \<lparr>ts = period_start st (m_nResetCnt f)\<rparr> in
      if ts tss > 0 \<and> ts_less (last_reset_ts f) tss
      then (True, (reset_filter_counters reset_history f)\<lparr>last_reset_ts := \<lparr>ts = sts_time_point st\<rparr>\<rparr>)
      else (False, f))"

text \<open>
  The limit in bytes, in 64-bit arithmetic that wraps, and the comparison both limit checks
  end with.
\<close>

definition limit_bytes :: "i32 \<Rightarrow> filter2 \<Rightarrow> i64" where
  "limit_bytes mbytes f = m_nTrafficLimitMb f * scast mbytes"

definition warn_bytes :: "i32 \<Rightarrow> filter2 \<Rightarrow> i64" where
  "warn_bytes mbytes f =
     of_int (sint (limit_bytes mbytes f * ucast (m_wTrafficLimitWarnLevel f)) sdiv 100)"

definition counters_reach :: "i64 \<Rightarrow> filter2 \<Rightarrow> bool" where
  "counters_reach a f =
     (let s = cnt (cnt_sent f); r = cnt (cnt_recv f); t = m_nTrafficLimitType f in
      if t = TRAFFICLIMIT_SENT_PLUS_RECV then sint (s + r) \<ge> sint a
      else if t = TRAFFICLIMIT_SENT then sint s \<ge> sint a
      else if t = TRAFFICLIMIT_RECV then sint r \<ge> sint a
      else sint s \<ge> sint a \<or> sint r \<ge> sint a)"

definition is_traffic_limit_exceeded :: "i32 \<Rightarrow> bool \<Rightarrow> filter2 \<Rightarrow> bool" where
  "is_traffic_limit_exceeded mbytes check_warning_level f =
     (if \<not> check_warning_level \<and> m_nTrafficLimitMb f = 0 \<and> \<not> m_bRevers f then False
      else if check_warning_level
        \<and> (m_bRevers f \<or> m_nTrafficLimitMb f = 0 \<or> m_wTrafficLimitWarnLevel f = 0
           \<or> m_wTrafficLimitWarnLevel f > 100) then False
      else let a = (if check_warning_level then warn_bytes mbytes f else limit_bytes mbytes f) in
        if \<not> m_bRevers f then counters_reach a f
        else sint (m_nTrafficLimitType f) > 0
          \<and> (get_cnt (cnt_sent f) < 0 \<or> get_cnt (cnt_recv f) < 0))"

definition is_traffic_limitwarn_exceeded :: "i32 \<Rightarrow> filter2 \<Rightarrow> bool" where
  "is_traffic_limitwarn_exceeded mbytes f =
     (if m_bRevers f then False
      else if m_nTrafficLimitMb f = 0 then False
      else if m_wTrafficLimitWarnLevel f = 0 then False
      else if m_wTrafficLimitWarnLevel f > 100 then False
      else counters_reach (warn_bytes mbytes f) f)"

definition get_actual_speed :: "filter2 \<Rightarrow> i32" where
  "get_actual_speed f =
     (if m_nTrafficLimitAction f \<noteq> TRAFFICLIMIT_SPEED2 then m_nSpeed f
      else if is_traffic_limit_exceeded 1048576 False f then m_nSpeed2 f
      else m_nSpeed f)"

section \<open>The text of the working hours\<close>

lemma nibble_char:
  assumes "d < 16"
  shows "parse_nibble (nibble_values ! d) = Some (of_nat d)"
    and "nibble_values ! d \<notin> {CHR ''-'', CHR ''+'', CHR ''x'', CHR ''X'', CHR '',''}"
    and "\<not> is_space (nibble_values ! d)"
proof -
  have "d \<in> set [0..<16]" using assms by simp
  then have "parse_nibble (nibble_values ! d) = Some (of_nat d)
    \<and> nibble_values ! d \<notin> {CHR ''-'', CHR ''+'', CHR ''x'', CHR ''X'', CHR '',''}
    \<and> \<not> is_space (nibble_values ! d)"
    by (simp add: upt_rec nibble_values_def, elim disjE) (simp_all add: parse_nibble_def in_chars_def char_minus_def is_space_def)
  then show "parse_nibble (nibble_values ! d) = Some (of_nat d)"
    "nibble_values ! d \<notin> {CHR ''-'', CHR ''+'', CHR ''x'', CHR ''X'', CHR '',''}"
    "\<not> is_space (nibble_values ! d)" by simp_all
qed

definition hex_digit :: "char \<Rightarrow> bool" where "hex_digit c \<longleftrightarrow> (\<exists>d<16. c = nibble_values ! d)"

lemma hex_digit_props:
  assumes "hex_digit c"
  shows "parse_nibble c \<noteq> None" "\<not> is_space c" "c \<noteq> CHR ''-''" "c \<noteq> CHR ''+''" "c \<noteq> CHR ''x''" "c \<noteq> CHR ''X''"
  using assms nibble_char by (auto simp: hex_digit_def)

lemma print_x_digits: "list_all hex_digit (print_x n)"
proof (induction n rule: print_x.induct)
  case (1 n)
  have "hex_digit (nibble_values ! (n mod 16))" by (auto simp: hex_digit_def intro!: exI [of _ "n mod 16"])
  moreover have "n < 16 \<Longrightarrow> hex_digit (nibble_values ! n)" by (auto simp: hex_digit_def)
  ultimately show ?case using 1 by (subst print_x.simps) auto
qed

lemma print_x_not_Nil: "print_x n \<noteq> []"
  by (subst print_x.simps) simp

lemma hex_value_print_x: "hex_value (print_x n) = n"
proof (induction n rule: print_x.induct)
  case (1 n)
  then show ?case
    by (subst print_x.simps) (auto simp: hex_value_def nibble_char(1) unat_of_nat)
qed

lemma scan_x_print_x:
  assumes "rest = [] \<or> hd rest = CHR '',''"
  shows "scan_x (print_x (unat w) @ rest) = Some (Some (w, rest))"
proof -
  let ?s = "print_x (unat w)"
  have d: "list_all hex_digit ?s" by (rule print_x_digits)
  obtain c t where s: "?s = c # t" using print_x_not_Nil [of "unat w"] by (cases ?s) auto
  have c: "hex_digit c" "list_all hex_digit t" using d by (simp_all add: s)
  have ns: "parse_nibble CHR '','' = None" by (simp add: parse_nibble_def in_chars_def)
  have tw: "takeWhile (\<lambda>c. parse_nibble c \<noteq> None) (?s @ rest) = ?s"
    "dropWhile (\<lambda>c. parse_nibble c \<noteq> None) (?s @ rest) = rest"
  proof -
    have "\<And>x. x \<in> set ?s \<Longrightarrow> parse_nibble x \<noteq> None" using d hex_digit_props(1) by (metis list_all_iff)
    then show "takeWhile (\<lambda>c. parse_nibble c \<noteq> None) (?s @ rest) = ?s"
      "dropWhile (\<lambda>c. parse_nibble c \<noteq> None) (?s @ rest) = rest"
      using assms ns by (auto simp: takeWhile_append2 dropWhile_append2 takeWhile_eq_Nil_iff dropWhile_eq_self_iff)
  qed
  have x: "take 2 (?s @ rest) \<noteq> ''0x'' \<and> take 2 (?s @ rest) \<noteq> ''0X''"
  proof (cases t)
    case Nil
    then show ?thesis using assms by (cases rest) (auto simp: s)
  next
    case (Cons e u)
    then show ?thesis using c(2) hex_digit_props(5,6) [of e] by (auto simp: s)
  qed
  have "dropWhile is_space (?s @ rest) = ?s @ rest" using hex_digit_props(2) [OF c(1)] by (simp add: s)
  moreover have "hd (?s @ rest) \<notin> {CHR ''-'', CHR ''+''}" using hex_digit_props(3,4) [OF c(1)] by (simp add: s)
  ultimately show ?thesis
    using x tw hex_value_print_x [of "unat w"] print_x_not_Nil [of "unat w"] unat_u32_bound [of w]
    by (simp add: scan_x_def Let_def)
qed

lemma scan_workhours_text:
  assumes "length ws = k" and "i + k \<le> length w" 
  shows "ws \<noteq> [] \<Longrightarrow> scan_workhours k i (workhours_text ws) w = Some (take i w @ ws @ drop (i + k) w)"
  using assms
proof (induction ws arbitrary: i k w rule: workhours_text.induct)
  case (2 v)
  then have "k = Suc 0" by simp
  then show ?case using 2 scan_x_print_x [of "[]" v] by (simp add: upd_conv_take_nth_drop)
next
  case (3 v v' ws)
  obtain k' where k: "k = Suc k'" using 3 by (cases k) auto
  have "scan_x (workhours_text (v # v' # ws)) = Some (Some (v, CHR '','' # workhours_text (v' # ws)))"
    using scan_x_print_x [of "CHR '','' # workhours_text (v' # ws)" v] by simp
  then have "scan_workhours k i (workhours_text (v # v' # ws)) w =
      scan_workhours k' (Suc i) (workhours_text (v' # ws)) (w[i := v])" by (simp add: k del: workhours_text.simps)
  also have "\<dots> = Some (take (Suc i) (w[i := v]) @ (v' # ws) @ drop (Suc i + k') (w[i := v]))"
    using 3 by (intro 3) (auto simp: k)
  also have "take (Suc i) (w[i := v]) = take i w @ [v]"
    using 3(4) by (subst take_Suc_conv_app_nth) (auto simp: k)
  also have "drop (Suc i + k') (w[i := v]) = drop (i + k) w" by (simp add: k)
  finally show ?case by simp
qed simp

section \<open>Copying a window of the history\<close>
definition diff_indexes :: "nat \<Rightarrow> u32 \<Rightarrow> nat set" where
  "diff_indexes k start = (\<lambda>i. unat ((start + of_nat i) mod of_nat MAXVALUES)) ` {..<k}"

lemma diff_indexes_Suc:
  "diff_indexes (Suc k) start = insert (unat (start mod of_nat MAXVALUES)) (diff_indexes k (start + 1))"
  by (auto simp: diff_indexes_def lessThan_Suc_eq_insert_0 image_image add.assoc)

lemma apply_diff_loop_set:
  assumes "\<And>i. i < length ds \<Longrightarrow> ds ! i = (S (unat ((start + of_nat i) mod of_nat MAXVALUES)),
                                           R (unat ((start + of_nat i) mod of_nat MAXVALUES)))"
    and "n < length (cnt_set (cnt_sent g))" and "n < length (cnt_set (cnt_recv g))"
  shows "cnt_set (cnt_sent (apply_diff_loop ds start g)) ! n =
           (if n \<in> diff_indexes (length ds) start then S n else cnt_set (cnt_sent g) ! n)
    \<and> cnt_set (cnt_recv (apply_diff_loop ds start g)) ! n =
           (if n \<in> diff_indexes (length ds) start then R n else cnt_set (cnt_recv g) ! n)"
  using assms
proof (induction ds start g rule: apply_diff_loop.induct)
  case (1 start g)
  then show ?case by (simp add: diff_indexes_def)
next
  case (2 s r rest start g)
  let ?n = "unat (start mod of_nat MAXVALUES)"
  let ?g = "g\<lparr>cnt_sent := (cnt_sent g)\<lparr>cnt_set := (cnt_set (cnt_sent g))[?n := s]\<rparr>,
              cnt_recv := (cnt_recv g)\<lparr>cnt_set := (cnt_set (cnt_recv g))[?n := r]\<rparr>\<rparr>"
  have h: "s = S ?n" "r = R ?n" using 2(2) [of 0] by simp_all
  have t: "rest ! i = (S (unat ((start + 1 + of_nat i) mod of_nat MAXVALUES)),
                R (unat ((start + 1 + of_nat i) mod of_nat MAXVALUES)))" if "i < length rest" for i
    using 2(2) [of "Suc i"] that by (simp add: add.assoc)
  have "n < length (cnt_set (cnt_sent ?g))" "n < length (cnt_set (cnt_recv ?g))" using 2(3,4) by simp_all
  note IH = 2(1) [OF refl t this]
  have "apply_diff_loop ((s, r) # rest) start g = apply_diff_loop rest (start + 1) ?g" by (simp add: Let_def)
  then show ?case using IH 2(3,4) h by (auto simp: diff_indexes_Suc nth_list_update)
qed

section \<open>Properties\<close>

text \<open>
  the working hours survive their text form: parsing what \<open>get_workhours_str\<close> prints, into
  a filter that has been cleared, gives back the seven words (all seven at their default print
  as the empty text, which leaves the cleared filter as it is).
\<close>

theorem workhours_roundtrip:
  assumes "length (m_nWorkHours f) = 7" and "m_nWorkHours g = replicate 7 0xFFFFFFFF"
  shows "parse_workhours_string (Some (get_workhours_str f)) g = Some (g\<lparr>m_nWorkHours := m_nWorkHours f\<rparr>)"
proof (cases "list_all (\<lambda>w. w = 0xFFFFFFFF) (m_nWorkHours f)")
  case True
  then have "m_nWorkHours f = replicate (length (m_nWorkHours f)) 0xFFFFFFFF"
    by (intro replicate_eqI) (auto simp: list_all_iff)
  then have "m_nWorkHours f = m_nWorkHours g" unfolding assms .
  then have "g\<lparr>m_nWorkHours := m_nWorkHours f\<rparr> = g" by (cases g) simp
  moreover have "get_workhours_str f = []" using True by (simp add: get_workhours_str_def)
  ultimately show ?thesis by (simp add: parse_workhours_string_def)
next
  case False
  have "m_nWorkHours f \<noteq> []" using assms(1) by auto
  from scan_workhours_text [of "m_nWorkHours f" 7 0 "m_nWorkHours g"] this assms
  have s: "scan_workhours 7 0 (workhours_text (m_nWorkHours f)) (m_nWorkHours g) = Some (m_nWorkHours f)" by simp
  moreover have "workhours_text (m_nWorkHours f) \<noteq> []"
    using assms(1) print_x_not_Nil by (cases "m_nWorkHours f" rule: workhours_text.cases) auto
  ultimately show ?thesis using False by (simp add: get_workhours_str_def parse_workhours_string_def)
qed

definition ex_filter :: filter2 where
  "ex_filter = (filter2_new 0 0)\<lparr>m_nWorkHours := [0xFFFFFFFF, 0, 7, 0xABCDEF, 1, 2, 0xFF], m_nResetCnt := RESETCNT_DAILY\<rparr>"

lemma ex_filter_simps:
  "m_nWorkHours ex_filter = [0xFFFFFFFF, 0, 7, 0xABCDEF, 1, 2, 0xFF]"
  "m_nResetCnt ex_filter = RESETCNT_DAILY" "ts (last_reset_ts ex_filter) = 0"
  "cnt_set (cnt_sent ex_filter) = replicate MAXVALUES 0" "cnt_set (cnt_recv ex_filter) = replicate MAXVALUES 0"
  by (simp_all add: ex_filter_def filter2_new_def filter_base_clear_def ts_clear_def filtercnt_new_def
      cnt_reset_def)

theorem workhours_roundtrip_witness:
  "map_option m_nWorkHours (parse_workhours_string (Some (get_workhours_str ex_filter)) (filter2_new 0 0))
     = Some [0xFFFFFFFF, 0, 7, 0xABCDEF, 1, 2, 0xFF]"
proof -
  have "m_nWorkHours (filter2_new 0 0) = replicate 7 0xFFFFFFFF"
    by (simp add: filter2_new_def filter_base_clear_def)
  from workhours_roundtrip [of ex_filter, OF _ this] show ?thesis by (simp add: ex_filter_simps)
qed

text \<open>
  the two checks of the warning level agree: \<open>is_traffic_limitwarn_exceeded\<close> is
  \<open>is_traffic_limit_exceeded\<close> with \<open>check_warning_level\<close> set, for every filter and every size
  of a megabyte.
\<close>

theorem limitwarn_is_limit_check:
  "is_traffic_limitwarn_exceeded mbytes f = is_traffic_limit_exceeded mbytes True f"
  by (simp add: is_traffic_limitwarn_exceeded_def is_traffic_limit_exceeded_def Let_def)

text \<open>
  counters are reset once per period. \<open>reset_on_schedule\<close> resets exactly when the period of
  the filter has a start and the last reset lies before it; then both counters are 0 and the
  reset is stamped with the current time, otherwise nothing changes; a second call at the same
  time never resets again.
\<close>

theorem reset_once_per_period:
  assumes "period_start st (m_nResetCnt f) \<le> sts_time_point st"
  shows "let start = period_start st (m_nResetCnt f);
             (done, f') = reset_on_schedule st h f
         in done = (0 < start \<and> ts (last_reset_ts f) < start)
          \<and> (done \<longrightarrow> get_cnt (cnt_sent f') = 0 \<and> get_cnt (cnt_recv f') = 0
                \<and> ts (last_reset_ts f') = sts_time_point st)
          \<and> (\<not> done \<longrightarrow> f' = f)
          \<and> reset_on_schedule st h' f' = (False, f')"
proof (cases "0 < period_start st (m_nResetCnt f) \<and> ts (last_reset_ts f) < period_start st (m_nResetCnt f)")
  case True
  have c: "get_cnt (cnt_reset h c) = 0" for c by (simp add: cnt_reset_def get_cnt_def Let_def)
  let ?f = "reset_filter_counters h f\<lparr>last_reset_ts := \<lparr>ts = sts_time_point st\<rparr>\<rparr>"
  have "reset_on_schedule st h f = (True, ?f)" using True by (simp add: reset_on_schedule_def ts_less_def)
  moreover have "reset_on_schedule st h' ?f = (False, ?f)"
    using assms by (simp add: reset_on_schedule_def ts_less_def reset_filter_counters_def)
  ultimately show ?thesis using True by (simp add: reset_filter_counters_def c)
next
  case False
  then have "\<And>h. reset_on_schedule st h f = (False, f)" by (auto simp: reset_on_schedule_def ts_less_def)
  then show ?thesis using False by simp
qed

definition ex_times :: standard_timeset where
  "ex_times = \<lparr>sts_time_point = 1000, sts_start_of_hour = 900, sts_start_of_day = 800,
     sts_start_of_month = 700, sts_start_of_lastdayweek = [100, 200, 300, 400, 500, 600, 650]\<rparr>"

theorem reset_once_per_period_witness:
  "fst (reset_on_schedule ex_times True ex_filter)
   \<and> \<not> fst (reset_on_schedule ex_times True (snd (reset_on_schedule ex_times True ex_filter)))"
proof -
  have "period_start ex_times (m_nResetCnt ex_filter) = 800"
    by (simp add: ex_filter_simps period_start_def ex_times_def utm_consts)
  with reset_once_per_period [of ex_times ex_filter True True] show ?thesis
    by (simp add: ex_filter_simps ex_times_def Let_def case_prod_unfold)
qed

text \<open>
  a console's copy of the speed history follows the server's. Applying the speeds
  \<open>select_diffspeed\<close> took from filter \<open>f\<close> to filter \<open>g\<close> gives every point of the window the
  value it has in \<open>f\<close> and leaves every other point of \<open>g\<close>, also when the window wraps around
  the end of the ring.
\<close>

theorem diffspeed_syncs_history:
  assumes "length (cnt_set (cnt_sent g)) = MAXVALUES" and "length (cnt_set (cnt_recv g)) = MAXVALUES"
    and "n < MAXVALUES"
  shows "let g' = apply_diffspeed (select_diffspeed k start f) start g;
             sent = n \<in> diff_indexes (unat k) start
         in cnt_set (cnt_sent g') ! n = cnt_set (cnt_sent (if sent then f else g)) ! n
          \<and> cnt_set (cnt_recv g') ! n = cnt_set (cnt_recv (if sent then f else g)) ! n"
proof (cases "k = 0")
  case True
  then show ?thesis by (simp add: apply_diffspeed_def select_diffspeed_def diff_indexes_def)
next
  case False
  let ?ds = "select_diffspeed k start f"
  have l: "length ?ds = unat k" by (simp add: select_diffspeed_def)
  then have ne: "?ds \<noteq> []" using False by (auto simp: unat_eq_zero)
  have "?ds ! i = (cnt_set (cnt_sent f) ! unat ((start + of_nat i) mod of_nat MAXVALUES),
      cnt_set (cnt_recv f) ! unat ((start + of_nat i) mod of_nat MAXVALUES))" if "i < length ?ds" for i
    using that l by (simp add: select_diffspeed_def Let_def)
  from apply_diff_loop_set [of ?ds "(!) (cnt_set (cnt_sent f))" start "(!) (cnt_set (cnt_recv f))" n g, OF this] assms
  show ?thesis using ne l by (simp add: apply_diffspeed_def Let_def)
qed

theorem diffspeed_syncs_history_witness:
  "let f = ex_filter\<lparr>cnt_sent := (cnt_sent ex_filter)\<lparr>cnt_set := (replicate MAXVALUES 0)[0 := 77]\<rparr>\<rparr>;
       g' = apply_diffspeed (select_diffspeed 2 1399 f) 1399 ex_filter
   in cnt_set (cnt_sent g') ! 0 = 77"
proof -
  let ?f = "ex_filter\<lparr>cnt_sent := (cnt_sent ex_filter)\<lparr>cnt_set := (replicate MAXVALUES 0)[0 := 77]\<rparr>\<rparr>"
  have "0 \<in> diff_indexes (unat (2 :: u32)) 1399"
    by (auto simp: diff_indexes_def utm_consts intro!: image_eqI [of _ _ 1])
  with diffspeed_syncs_history [of ex_filter 0 2 1399 ?f] show ?thesis
    by (simp add: ex_filter_simps MAXVALUES_pos Let_def)
qed

end
