(* ===== verification/IpHeader.thy ===== *)
theory IpHeader
  imports AddrIp "HOL-Library.Monad_Syntax"
begin

text \<open>
  \<open>corefilters/ip_header.{h,cpp}\<close>: the fields of a packet the filters look at, and the parser
  that fills them from the bytes of an IPv4 packet. The packet is the block of bytes the caller
  owns; a read outside it is \<open>None\<close>.
\<close>

definition FTPMODE_NONE :: u16 where [utm_consts]: "FTPMODE_NONE = 0"
definition FTPMODE_PASSIVE :: u16 where [utm_consts]: "FTPMODE_PASSIVE = 1"
definition FTPMODE_ACTIVE :: u16 where [utm_consts]: "FTPMODE_ACTIVE = 2"

record ip_header =
  ih_src_mac :: "u8 list"
  ih_dst_mac :: "u8 list"
  ih_ip_hl :: u8
  ih_tcp_hl :: u8
  ih_version :: u16
  ih_length :: u32
  ih_identification :: u16
  ih_src_ip_addr :: addrip_v4
  ih_dst_ip_addr :: addrip_v4
  ih_proto :: u16
  ih_tos :: u8
  ih_ttl :: u8
  ih_seq_num :: u32
  ih_ack_num :: u32
  ih_flags :: u16
  ih_window :: u16
  ih_src_port :: u16
  ih_dst_port :: u16
  ih_ftpdata_ip :: u32
  ih_ftpdata_port :: u16
  ih_ftpdata_mode :: u16

definition swap_src_dst :: "ip_header \<Rightarrow> ip_header" where
  "swap_src_dst h = h\<lparr>ih_src_mac := ih_dst_mac h, ih_dst_mac := ih_src_mac h,
     ih_src_ip_addr := ih_dst_ip_addr h, ih_dst_ip_addr := ih_src_ip_addr h,
     ih_src_port := ih_dst_port h, ih_dst_port := ih_src_port h\<rparr>"

text \<open>The text of \<open>compare\<close>: the fields in which the other header differs.\<close>

definition compare_sep :: "string \<Rightarrow> string \<Rightarrow> string" where
  "compare_sep str item = (if str \<noteq> [] then str @ '','' @ item else item)"

definition ip_compare :: "ip_header \<Rightarrow> ip_header \<Rightarrow> string" where
  "ip_compare h rhs =
     (let s1 = (if ih_src_ip_addr h \<noteq> ih_src_ip_addr rhs
                then ''src_ip='' @ ip_to_string (ih_src_ip_addr rhs) else []);
          s2 = (if ih_dst_ip_addr h \<noteq> ih_dst_ip_addr rhs
                then compare_sep s1 (''dest_ip='' @ ip_to_string (ih_dst_ip_addr rhs)) else s1);
          s3 = (if ih_proto h \<noteq> ih_proto rhs
                then compare_sep s2 (''proto='' @ print_u (unat (ih_proto h)))
                else if ih_proto h = 6 \<or> ih_proto h = 17
                then let t = (if ih_src_port h \<noteq> ih_src_port rhs
                              then compare_sep s2 (''src_port='' @ print_u (unat (ih_src_port rhs))) else s2)
                     in (if ih_dst_port h \<noteq> ih_dst_port rhs
                         then compare_sep t (''dest_port='' @ print_u (unat (ih_dst_port rhs))) else t)
                else s2)
      in if ih_length h \<noteq> ih_length rhs
         then compare_sep s3 (''length='' @ print_u (unat (ih_length rhs))) else s3)"

section \<open>Reading the packet\<close>

definition rd :: "u8 list \<Rightarrow> nat \<Rightarrow> u8 option" where
  "rd b i = (if i < length b then Some (b ! i) else None)"

text \<open>\<open>(b[i] << 8) + b[i+1]\<close> and \<open>(b[i] << 24) + (b[i+1] << 16) + (b[i+2] << 8) + b[i+3]\<close>.\<close>

definition rd16 :: "u8 list \<Rightarrow> nat \<Rightarrow> u32 option" where
  "rd16 b i = do { x \<leftarrow> rd b i; y \<leftarrow> rd b (i + 1); Some (push_bit 8 (ucast x) + ucast y) }"

definition rd32 :: "u8 list \<Rightarrow> nat \<Rightarrow> u32 option" where
  "rd32 b i = do { x \<leftarrow> rd b i; y \<leftarrow> rd b (i + 1); z \<leftarrow> rd b (i + 2); w \<leftarrow> rd b (i + 3);
     Some (push_bit 24 (ucast x) + push_bit 16 (ucast y) + push_bit 8 (ucast z) + ucast w) }"

text \<open>\<open>strncmp(p, s, strlen(s)) == 0\<close> and \<open>strncpy_s\<close>: both stop at the end of the string.\<close>

fun rd_prefix :: "u8 list \<Rightarrow> nat \<Rightarrow> string \<Rightarrow> bool option" where
  "rd_prefix b i [] = Some True"
| "rd_prefix b i (c # s) =
     do { x \<leftarrow> rd b i; if byte_char x = c then rd_prefix b (Suc i) s else Some False }"

fun rd_string :: "u8 list \<Rightarrow> nat \<Rightarrow> nat \<Rightarrow> string option" where
  "rd_string b i 0 = Some []"
| "rd_string b i (Suc n) =
     do { x \<leftarrow> rd b i; if x = 0 then Some [] else map_option ((#) (byte_char x)) (rd_string b (Suc i) n) }"

section \<open>FTP control packets\<close>

text \<open>
  \<open>sscanf_s(s, "%d,%d,%d,%d,%d,%d", ...)\<close> on a string of digits and commas: the numbers read,
  those not reached keep the 0 they were declared with. A number no \<open>int\<close> holds is undefined.
\<close>

fun scan_ints :: "nat \<Rightarrow> string \<Rightarrow> nat list option" where
  "scan_ints 0 s = Some []"
| "scan_ints (Suc n) s =
     (let ds = takeWhile is_digit s; rest = dropWhile is_digit s in
      if ds = [] then Some (replicate (Suc n) 0)
      else if atoi ds 0 \<ge> 2 ^ 31 then None
      else case rest of
        [] \<Rightarrow> Some (atoi ds 0 # replicate n 0)
      | c # rest' \<Rightarrow> if c = CHR '','' then map_option ((#) (atoi ds 0)) (scan_ints n rest')
                    else Some (atoi ds 0 # replicate n 0))"

definition ftpdata_ip_of :: "nat list \<Rightarrow> u32" where
  "ftpdata_ip_of h = push_bit 24 (of_nat (h ! 0)) + push_bit 16 (of_nat (h ! 1)) + push_bit 8 (of_nat (h ! 2))
     + of_nat (h ! 3)"

definition ftpdata_port_of :: "nat list \<Rightarrow> u16" where
  "ftpdata_port_of h = ucast (push_bit 8 (of_nat (h ! 4)) :: u32) + of_nat (h ! 5)"

definition set_ftpdata :: "string \<Rightarrow> u16 \<Rightarrow> ip_header \<Rightarrow> ip_header option" where
  "set_ftpdata text' mode h = do {
     v \<leftarrow> scan_ints 6 text';
     Some (h\<lparr>ih_ftpdata_ip := ftpdata_ip_of v, ih_ftpdata_port := ftpdata_port_of v, ih_ftpdata_mode := mode\<rparr>) }"

definition count_commas :: "string \<Rightarrow> nat" where
  "count_commas s = length (filter (\<lambda>c. c = CHR '','') s)"

text \<open>The reply \<open>227 Entering Passive Mode (h1,h2,h3,h4,p1,p2)\<close> of the server.\<close>

definition parse_pasv :: "u8 list \<Rightarrow> nat \<Rightarrow> ip_header \<Rightarrow> ip_header option" where
  "parse_pasv b pktd h = do {
     is227 \<leftarrow> rd_prefix b pktd ''227 '';
     if is227 then do {
       x \<leftarrow> rd b (pktd + 26);
       if byte_char x = CHR ''('' then do {
         s \<leftarrow> rd_string b (pktd + 27) 28;
         let szTmp = takeWhile (\<lambda>c. is_digit c \<or> c = CHR '','') s;
         if count_commas szTmp = 5 then set_ftpdata szTmp FTPMODE_PASSIVE h else Some h
       } else Some h
     } else Some h }"

text \<open>
  The request \<open>PORT h1,h2,h3,h4,p1,p2\<close> of the client: every character that is not a digit or a
  comma becomes a terminator, the commas behind it are counted all the same.
\<close>

definition parse_port :: "u8 list \<Rightarrow> nat \<Rightarrow> ip_header \<Rightarrow> ip_header option" where
  "parse_port b pktd h = do {
     isport \<leftarrow> rd_prefix b pktd ''PORT '';
     if isport then do {
       s \<leftarrow> rd_string b (pktd + 5) 28;
       if count_commas s = 5
       then set_ftpdata (takeWhile (\<lambda>c. is_digit c \<or> c = CHR '','') s) FTPMODE_ACTIVE h else Some h
     } else Some h }"

section \<open>The parser\<close>

definition parse_tcp :: "u8 list \<Rightarrow> nat \<Rightarrow> ip_header \<Rightarrow> ip_header option" where
  "parse_tcp b ipd h = do {
     seq \<leftarrow> rd32 b (ipd + 4);
     ack \<leftarrow> rd32 b (ipd + 8);
     fl \<leftarrow> rd16 b (ipd + 12);
     off \<leftarrow> rd b (ipd + 12);
     let thl = drop_bit 4 off AND 0x0F;
     let h1 = h\<lparr>ih_seq_num := seq, ih_ack_num := ack, ih_flags := ucast fl, ih_tcp_hl := thl\<rparr>;
     let pktd = ipd + unat thl * 4;
     h2 \<leftarrow> if ih_src_port h1 = 21 \<and> unat (ih_length h1) > pktd then parse_pasv b pktd h1 else Some h1;
     if ih_dst_port h2 = 21 \<and> unat (ih_length h2) > pktd then parse_port b pktd h2 else Some h2 }"

definition parse_raw_buffer :: "u8 list \<Rightarrow> ip_header \<Rightarrow> (bool \<times> ip_header) option" where
  "parse_raw_buffer b h = do {
     b0 \<leftarrow> rd b 0;
     let h0 = h\<lparr>ih_version := ucast (drop_bit 4 b0)\<rparr>;
     if ih_version h0 \<noteq> 4 then Some (False, h0) else do {
     tos \<leftarrow> rd b 1;
     len \<leftarrow> rd16 b 2;
     ident \<leftarrow> rd16 b 4;
     ttl \<leftarrow> rd b 8;
     pr \<leftarrow> rd b 9;
     sip \<leftarrow> rd32 b 12;
     dip \<leftarrow> rd32 b 16;
     let h1 = h0\<lparr>ih_ip_hl := b0 AND 0x0F, ih_tos := tos, ih_length := len,
       ih_identification := ucast ident, ih_ttl := ttl, ih_proto := ucast pr,
       ih_src_ip_addr := Addrip_v4 sip, ih_dst_ip_addr := Addrip_v4 dip,
       ih_ftpdata_ip := 0, ih_ftpdata_port := 0, ih_ftpdata_mode := FTPMODE_NONE\<rparr>;
     let ipd = unat (ih_ip_hl h1) * 4;
     h2 \<leftarrow> if pr = 1 then do { fl \<leftarrow> rd16 b ipd; Some (h1\<lparr>ih_flags := ucast fl\<rparr>) } else Some h1;
     h3 \<leftarrow> if pr = 6 \<or> pr = 17
          then do { sp \<leftarrow> rd16 b ipd; dp \<leftarrow> rd16 b (ipd + 2);
                    Some (h2\<lparr>ih_src_port := ucast sp, ih_dst_port := ucast dp\<rparr>) }
          else Some (h2\<lparr>ih_src_port := 0, ih_dst_port := 0\<rparr>);
     h4 \<leftarrow> if pr = 6 then parse_tcp b ipd h3 else Some h3;
     Some (True, h4) } }"

section \<open>The bytes of a packet\<close>

definition byte_of :: "nat \<Rightarrow> 'a::len word \<Rightarrow> u8" where "byte_of n w = ucast (drop_bit (8 * n) w)"

definition be16 :: "u16 \<Rightarrow> u8 list" where "be16 w = [byte_of 1 w, byte_of 0 w]"

definition be32 :: "u32 \<Rightarrow> u8 list" where "be32 w = [byte_of 3 w, byte_of 2 w, byte_of 1 w, byte_of 0 w]"

text \<open>An IPv4 header of \<open>5 + length opts div 4\<close> words in the layout of RFC 791, and a TCP header (RFC 793).\<close>

definition ip_bytes ::
  "u8 \<Rightarrow> u8 \<Rightarrow> u16 \<Rightarrow> u16 \<Rightarrow> u16 \<Rightarrow> u8 \<Rightarrow> u8 \<Rightarrow> u16 \<Rightarrow> u32 \<Rightarrow> u32 \<Rightarrow> u8 list \<Rightarrow> u8 list" where
  "ip_bytes hl tos len ident frag ttl proto cksum src dst opts =
     [0x40 OR hl, tos] @ be16 len @ be16 ident @ be16 frag @ [ttl, proto] @ be16 cksum @ be32 src @ be32 dst @ opts"

definition tcp_bytes :: "u16 \<Rightarrow> u16 \<Rightarrow> u32 \<Rightarrow> u32 \<Rightarrow> u16 \<Rightarrow> u8 list" where
  "tcp_bytes sp dp seq ack fl = be16 sp @ be16 dp @ be32 seq @ be32 ack @ be16 fl"

lemma rd_append: "rd (xs @ ys) i = (if i < length xs then rd xs i else rd ys (i - length xs))"
  by (auto simp: rd_def nth_append)

lemma be_length [simp]: "length (be16 w) = 2" "length (be32 v) = 4"
  by (simp_all add: be16_def be32_def)

lemma ucast_byte: "(ucast (byte_of n w) :: u32) = drop_bit (8 * n) w AND 0xFF" for w :: u32
proof (rule bit_word_eqI)
  fix k
  have "bit w (8 * n + k) \<Longrightarrow> 8 * n + k < 32" using bit_imp_le_length [of w "8 * n + k"] by simp
  then show "bit (ucast (byte_of n w) :: u32) k = bit (drop_bit (8 * n) w AND 0xFF) k"
    by (auto simp: byte_of_def bit_ucast_iff and_255 bit_take_bit_iff bit_drop_bit_eq)
qed

lemma join32: "push_bit 24 (ucast (byte_of 3 w)) + push_bit 16 (ucast (byte_of 2 w))
    + push_bit 8 (ucast (byte_of 1 w)) + ucast (byte_of 0 w) = (w :: u32)"
  unfolding ucast_byte using octets_ident [of w] by simp

lemma join16: "push_bit 8 (ucast (byte_of 1 w)) + ucast (byte_of 0 w) = (ucast (w :: u16) :: u32)"
proof -
  have b: "bit w m \<Longrightarrow> m < 32" for m using bit_imp_le_length [of w m] by simp
  have "(ucast (byte_of n w) :: u32) = ucast (byte_of n (ucast w :: u32))" for n
    by (rule bit_word_eqI) (auto simp: byte_of_def bit_ucast_iff bit_drop_bit_eq b)
  moreover have "byte_of 3 (ucast w :: u32) = 0" "byte_of 2 (ucast w :: u32) = 0"
    by (rule bit_word_eqI, auto simp: byte_of_def bit_ucast_iff bit_drop_bit_eq dest: bit_imp_le_length)+
  ultimately show ?thesis using join32 [of "ucast w"] by simp
qed

lemma rd16_be16: "rd16 (xs @ be16 w @ ys) (length xs) = Some (ucast w)"
  by (simp add: rd16_def rd_def be16_def nth_append join16 [unfolded One_nat_def])

lemma rd32_be32: "rd32 (xs @ be32 w @ ys) (length xs) = Some w"
  by (simp add: rd32_def rd_def be32_def nth_append join32 [unfolded One_nat_def])

lemma version_byte:
  fixes hl :: u8
  assumes "hl < 16"
  shows "drop_bit 4 (0x40 OR hl) = 4" and "(0x40 OR hl) AND 0x0F = hl"
proof -
  have "unat (take_bit 4 hl) = unat hl"
    using assms by (simp add: unsigned_take_bit_eq take_bit_nat_eq_self word_less_nat_alt)
  then have "of_nat (unat (take_bit 4 hl)) = (of_nat (unat hl) :: u8)" by (simp only:)
  then have t: "take_bit 4 hl = hl" by simp
  then have h: "bit hl n \<Longrightarrow> n < 4" for n by (metis bit_take_bit_iff)
  show "drop_bit 4 (0x40 OR hl) = 4"
    by (rule bit_word_eqI) (auto simp: bit_drop_bit_eq bit_or_iff dest: h)
  have m: "(0x0F :: u8) = mask 4" by (simp add: mask_eq_exp_minus_1)
  show "(0x40 OR hl) AND 0x0F = hl"
    using t by (simp add: m take_bit_or flip: take_bit_eq_mask)
qed

lemma ip_bytes_length: "length (ip_bytes hl tos len ident frag ttl proto cksum src dst opts) = 20 + length opts"
  by (simp add: ip_bytes_def)

lemma ip_bytes_read:
  assumes "b = ip_bytes hl tos len ident frag ttl proto cksum src dst opts @ rest"
  shows "rd b 0 = Some (0x40 OR hl)" and "rd b (Suc 0) = Some tos" and "rd16 b 2 = Some (ucast len)"
    and "rd16 b 4 = Some (ucast ident)" and "rd b 8 = Some ttl" and "rd b 9 = Some proto"
    and "rd32 b 12 = Some src" and "rd32 b 16 = Some dst"
  unfolding assms
  by (simp_all add: ip_bytes_def be16_def be32_def rd16_def rd32_def rd_def join16 [unfolded One_nat_def]
      join32 [unfolded One_nat_def])

lemma tcp_bytes_read:
  assumes "b = pre @ tcp_bytes sp dp seq ack fl @ rest" and "length pre = n"
  shows "rd16 b n = Some (ucast sp)" and "rd16 b (n + 2) = Some (ucast dp)" and "rd32 b (n + 4) = Some seq"
    and "rd32 b (n + 8) = Some ack" and "rd16 b (n + 12) = Some (ucast fl)" and "rd b (n + 12) = Some (byte_of 1 fl)"
  unfolding assms(1)
  by (simp_all add: assms(2) tcp_bytes_def be16_def be32_def rd16_def rd32_def rd_def nth_append
      join16 [unfolded One_nat_def] join32 [unfolded One_nat_def])

text \<open>The result of parsing a TCP packet, in terms of the numbers that were encoded.\<close>

definition tcp_header_of ::
  "u8 \<Rightarrow> u8 \<Rightarrow> u16 \<Rightarrow> u16 \<Rightarrow> u8 \<Rightarrow> u32 \<Rightarrow> u32 \<Rightarrow> u16 \<Rightarrow> u16 \<Rightarrow> u32 \<Rightarrow> u32 \<Rightarrow> u16 \<Rightarrow> ip_header \<Rightarrow> ip_header" where
  "tcp_header_of hl tos len ident ttl src dst sp dp seq ack fl h =
     h\<lparr>ih_version := 4, ih_ip_hl := hl, ih_tos := tos, ih_length := ucast len, ih_identification := ident,
       ih_ttl := ttl, ih_proto := 6, ih_src_ip_addr := Addrip_v4 src, ih_dst_ip_addr := Addrip_v4 dst,
       ih_ftpdata_ip := 0, ih_ftpdata_port := 0, ih_ftpdata_mode := FTPMODE_NONE,
       ih_src_port := sp, ih_dst_port := dp, ih_seq_num := seq, ih_ack_num := ack, ih_flags := fl,
       ih_tcp_hl := drop_bit 4 (byte_of 1 fl) AND 0x0F\<rparr>"

lemma ucast_16_32 [simp]: "(ucast (ucast w :: u32) :: u16) = w" for w :: u16
  by (rule bit_word_eqI) (auto simp: bit_ucast_iff)

section \<open>FTP replies\<close>

lemma char_zero: "char_of (0 :: nat) = CHR 0x00"
  by (simp add: char_of_eq_iff)

lemma rd_at: "rd (pre @ x # rest) (length pre) = Some x"
  by (simp add: rd_def)

lemma rd_prefix_text: "rd_prefix (pre @ bytes_of (s @ t) @ rest) (length pre) s = Some True"
proof (induction s arbitrary: pre)
  case (Cons c s)
  have "rd (pre @ bytes_of ((c # s) @ t) @ rest) (length pre) = Some (of_char c)"
    by (simp add: bytes_of_def rd_at)
  moreover have "rd_prefix (pre @ bytes_of ((c # s) @ t) @ rest) (Suc (length pre)) s = Some True"
    using Cons [of "pre @ [of_char c]"] by (simp add: bytes_of_def)
  ultimately show ?case by (simp add: byte_char_of)
qed simp

lemma rd_string_text:
  "CHR 0x00 \<notin> set s \<Longrightarrow> rd_string (pre @ bytes_of s @ 0 # rest) (length pre) n = Some (take n s)"
proof (induction n arbitrary: pre s)
  case (Suc n)
  show ?case
  proof (cases s)
    case Nil
    then show ?thesis by (simp add: bytes_of_def rd_at)
  next
    case (Cons c t)
    have "c \<noteq> CHR 0x00" "CHR 0x00 \<notin> set t" using Suc.prems Cons by auto
    then have nz: "(of_char c :: u8) \<noteq> 0" using byte_char_of [of c] char_zero by (auto simp: byte_char_def)
    have "rd (pre @ bytes_of s @ 0 # rest) (length pre) = Some (of_char c)"
      by (simp add: Cons bytes_of_def rd_at)
    moreover have "rd_string (pre @ bytes_of s @ 0 # rest) (Suc (length pre)) n = Some (take n t)"
      using Suc.IH [of t "pre @ [of_char c]"] \<open>CHR 0x00 \<notin> set t\<close> by (simp add: Cons bytes_of_def)
    ultimately show ?thesis using nz by (simp add: Cons byte_char_of)
  qed
qed simp

text \<open>The numbers of a reply, \<open>h1,h2,h3,h4,p1,p2\<close>.\<close>

fun join_commas :: "nat list \<Rightarrow> string" where
  "join_commas [] = []"
| "join_commas [n] = print_u n"
| "join_commas (n # ns) = print_u n @ '','' @ join_commas ns"

lemma print_u_plain: "c \<in> set (print_u n) \<Longrightarrow> is_digit c"
  using print_u_digits [of n] by (simp add: list_all_iff)

lemma not_digits: "\<not> is_digit CHR '',''" "\<not> is_digit CHR '')''" "\<not> is_digit CHR 0x00" "\<not> is_digit CHR 0x0D"
  by (simp_all add: is_digit_def)

lemma digits_of: "takeWhile is_digit (print_u n @ CHR '','' # t) = print_u n"
  "dropWhile is_digit (print_u n @ CHR '','' # t) = CHR '','' # t"
  "takeWhile is_digit (print_u n) = print_u n" "dropWhile is_digit (print_u n) = []"
  using print_u_plain [of _ n] by (auto simp: takeWhile_append2 dropWhile_append2 not_digits takeWhile_eq_all_conv)

lemma scan_ints_join:
  "\<forall>n \<in> set ns. n < 256 \<Longrightarrow> ns \<noteq> [] \<Longrightarrow> scan_ints (length ns) (join_commas ns) = Some ns"
proof (induction ns rule: join_commas.induct)
  case (2 n)
  then show ?case by (simp add: Let_def digits_of print_u_not_Nil atoi_print_u)
next
  case (3 n v ns)
  then show ?case by (simp add: Let_def digits_of print_u_not_Nil atoi_print_u del: scan_ints.simps(2))
      (simp add: Let_def digits_of print_u_not_Nil atoi_print_u)
qed simp

lemma join_commas_chars: "c \<in> set (join_commas ns) \<Longrightarrow> is_digit c \<or> c = CHR '',''"
  by (induction ns rule: join_commas.induct) (auto dest: print_u_plain)

lemma join_commas_count: "count_commas (join_commas ns) = length ns - 1"
proof (induction ns rule: join_commas.induct)
  case (3 n v ns)
  have "filter (\<lambda>c. c = CHR '','') (print_u n) = []" using print_u_plain [of _ n] not_digits by (auto simp: filter_empty_conv)
  then show ?case using 3 by (simp add: count_commas_def)
next
  case (2 n)
  then show ?case using print_u_plain [of _ n] not_digits by (auto simp: count_commas_def filter_empty_conv)
qed (simp add: count_commas_def)

lemma join_commas_length: "\<forall>n \<in> set ns. n < 256 \<Longrightarrow> length (join_commas ns) \<le> 4 * length ns"
proof (induction ns rule: join_commas.induct)
  case (2 n)
  then show ?case using print_u_length [of n 2] by simp
next
  case (3 n v ns)
  then show ?case using print_u_length [of n 2] by simp
qed simp

lemma join_commas_scan:
  assumes "\<forall>n \<in> set ns. n < 256" and "length ns \<le> 6" and "\<not> is_digit c" and "c \<noteq> CHR '',''"
  shows "takeWhile (\<lambda>c. is_digit c \<or> c = CHR '','') (take 28 (join_commas ns @ c # t)) = join_commas ns"
proof -
  have "length (join_commas ns) \<le> 24" using join_commas_length [OF assms(1)] assms(2) by simp
  then obtain u where "take 28 (join_commas ns @ c # t) = join_commas ns @ c # u"
    by (cases "28 - length (join_commas ns)") auto
  then show ?thesis
    using assms(3,4) join_commas_chars [of _ ns] by (simp add: takeWhile_append2)
qed

definition pasv_reply :: "nat list \<Rightarrow> string" where
  "pasv_reply h = ''227 Entering Passive Mode ('' @ join_commas h @ '')'' @ [CHR 0x0D, CHR 0x0A]"

definition port_request :: "nat list \<Rightarrow> string" where
  "port_request h = ''PORT '' @ join_commas h @ [CHR 0x0D, CHR 0x0A]"

lemma join_commas_no_nul: "CHR 0x00 \<notin> set (join_commas ns)"
  using join_commas_chars [of "CHR 0x00" ns] not_digits by auto

section \<open>An example\<close>

definition ex_header :: ip_header where
  "ex_header = \<lparr>ih_src_mac = [0, 1, 2, 3, 4, 5], ih_dst_mac = [0xFF, 0xFE, 0xFD, 0xFC, 0xFB, 0xFA],
     ih_ip_hl = 5, ih_tcp_hl = 0, ih_version = 4, ih_length = 60, ih_identification = 0,
     ih_src_ip_addr = Addrip_v4 0xC0A80102, ih_dst_ip_addr = Addrip_v4 0x0A0000B4, ih_proto = 1,
     ih_tos = 0, ih_ttl = 0, ih_seq_num = 0, ih_ack_num = 0, ih_flags = 0, ih_window = 0,
     ih_src_port = 0, ih_dst_port = 0, ih_ftpdata_ip = 0, ih_ftpdata_port = 0, ih_ftpdata_mode = 0\<rparr>"

section \<open>Properties\<close>

text \<open>
  C12: the parser inverts the wire format: from the bytes of an IPv4 packet that carries TCP (header
  length, options and payload arbitrary, ports not those of FTP control) it returns exactly the
  numbers that were encoded, and resets the FTP fields.
\<close>

theorem tcp_packet_parsed:
  assumes "b = ip_bytes hl tos len ident frag ttl 6 cksum src dst opts @ tcp_bytes sp dp seq ack fl @ rest"
    and "hl < 16" and "20 + length opts = 4 * unat hl" and "sp \<noteq> 21" and "dp \<noteq> 21"
  shows "parse_raw_buffer b h = Some (True, tcp_header_of hl tos len ident ttl src dst sp dp seq ack fl h)"
proof -
  note ip = ip_bytes_read [OF assms(1)]
  obtain b0 where b0: "rd b 0 = Some b0" "drop_bit 4 b0 = 4" "b0 AND 0x0F = hl"
    using ip(1) version_byte [OF assms(2)] by blast
  have "length (ip_bytes hl tos len ident frag ttl 6 cksum src dst opts) = unat hl * 4"
    using assms(3) by (simp add: ip_bytes_length)
  note tcp = tcp_bytes_read [OF assms(1) this]
  show ?thesis
    using assms(4,5) by (simp add: parse_raw_buffer_def parse_tcp_def ip(2-) b0 tcp Let_def tcp_header_of_def
        del: add_2_eq_Suc add_2_eq_Suc')
qed

theorem tcp_packet_parsed_witness:
  "parse_raw_buffer (ip_bytes 5 0 40 7 0 64 6 0 0xC0A80102 0x0A0000B4 [] @ tcp_bytes 1025 80 1 2 0x5002 @ [0, 0, 0, 0, 0, 0]) ex_header
    = Some (True, tcp_header_of 5 0 40 7 64 0xC0A80102 0x0A0000B4 1025 80 1 2 0x5002 ex_header)"
  by (rule tcp_packet_parsed [OF refl]) simp_all

text \<open>
  The bytes the parser needs: of a block that is no IPv4 packet the first, else the header of 20 bytes, and
  behind the header length the packet claims the ICMP type and code, the UDP ports or the TCP header up to
  its flags. FTP control packets are those with a TCP port 21.
\<close>

definition header_needs :: "u8 list \<Rightarrow> nat" where
  "header_needs b =
     (if b = [] \<or> drop_bit 4 (b ! 0) \<noteq> 4 then 1
      else if length b < 20 then 20
      else let n = 4 * unat (b ! 0 AND 0x0F)
           in if b ! 9 = 1 then max 20 (n + 2) else if b ! 9 = 17 then max 20 (n + 4)
              else if b ! 9 = 6 then max 20 (n + 14) else 20)"

definition ftp_control :: "u8 list \<Rightarrow> bool" where
  "ftp_control b \<longleftrightarrow> (let n = 4 * unat (b ! 0 AND 0x0F) in b ! 9 = 6
     \<and> (map_option ucast (rd16 b n) = Some (21 :: u16) \<or> map_option ucast (rd16 b (n + 2)) = Some (21 :: u16)))"

lemma rd_None: "rd b i = None \<longleftrightarrow> length b \<le> i" "rd16 b i = None \<longleftrightarrow> length b \<le> i + 1"
  "rd32 b i = None \<longleftrightarrow> length b \<le> i + 3"
  by (auto simp: rd_def rd16_def rd32_def)

lemma version_4: "(ucast (w :: u8) :: u16) = 4 \<longleftrightarrow> w = 4"
proof -
  have "unat w < 2 ^ 16" using unsigned_less [of w] by (rule less_trans) simp
  then have "unat (ucast w :: u16) = unat w" by (simp add: unsigned_ucast_eq take_bit_nat_eq_self)
  then show ?thesis by (simp add: word_unat_eq_iff)
qed

lemma parse_tcp_None:
  assumes "length b < n + 14"
  shows "parse_tcp b n h = None"
proof -
  have "rd16 b (n + 12) = None" using assms by (simp add: rd_None)
  then show ?thesis by (simp add: parse_tcp_def)
qed

lemma parse_tcp_Some:
  assumes "n + 14 \<le> length b" and "ih_src_port h \<noteq> 21" and "ih_dst_port h \<noteq> 21"
  shows "parse_tcp b n h \<noteq> None"
proof -
  have "rd32 b (n + 4) \<noteq> None" "rd32 b (n + 8) \<noteq> None" "rd16 b (n + 12) \<noteq> None" "rd b (n + 12) \<noteq> None"
    using assms(1) by (simp_all only: rd_None not_le)
  then obtain v1 v2 v3 v4 where "rd32 b (n + 4) = Some v1" "rd32 b (n + 8) = Some v2" "rd16 b (n + 12) = Some v3" "rd b (n + 12) = Some v4"
    by blast
  then show ?thesis using assms(2,3) by (simp add: parse_tcp_def Let_def)
qed

text \<open>The parser behind the 20 bytes of the header: TCP, and the other protocols.\<close>

lemma parse_other:
  assumes "b \<noteq> []" and "drop_bit 4 (b ! 0) = 4" and "20 \<le> length b" and "b ! 9 \<noteq> 6"
  shows "parse_raw_buffer b h \<noteq> None \<longleftrightarrow> header_needs b \<le> length b"
proof -
  let ?n = "unat (b ! 0 AND 0x0F) * 4"
  have b: "rd b 0 = Some (b ! 0)" "rd b 9 = Some (b ! 9)" using assms(1,3) by (simp_all add: rd_def)
  obtain v1 v2 v3 v4 v5 v6 where v: "rd16 b 2 = Some v1" "rd16 b 4 = Some v2" "rd32 b 12 = Some v3"
    "rd32 b 16 = Some v4" "rd b (Suc 0) = Some v5" "rd b 8 = Some v6"
    using assms(3) by (simp add: rd16_def rd32_def rd_def)
  have "header_needs b = (if b ! 9 = 1 then max 20 (?n + 2) else if b ! 9 = 17 then max 20 (?n + 4) else 20)"
    using assms by (simp add: header_needs_def Let_def mult.commute)
  then show ?thesis
    using assms(2-4) rd_None(2) [of b ?n] rd_None(2) [of b "?n + 2"]
    by (cases "rd16 b ?n"; cases "rd16 b (?n + 2)") (auto simp: parse_raw_buffer_def b v Let_def)
qed

lemma parse_6:
  assumes "b \<noteq> []" and "drop_bit 4 (b ! 0) = 4" and "20 \<le> length b" and "b ! 9 = 6"
  obtains H where "parse_raw_buffer b h = do { sp \<leftarrow> rd16 b (unat (b ! 0 AND 0x0F) * 4); dp \<leftarrow> rd16 b (unat (b ! 0 AND 0x0F) * 4 + 2);
    h4 \<leftarrow> parse_tcp b (unat (b ! 0 AND 0x0F) * 4) (H\<lparr>ih_src_port := ucast sp, ih_dst_port := ucast dp\<rparr>); Some (True, h4) }"
proof -
  have b: "rd b 0 = Some (b ! 0)" "rd b 9 = Some 6" using assms(1,3,4) by (simp_all add: rd_def)
  obtain v1 v2 v3 v4 v5 v6 where v: "rd16 b 2 = Some v1" "rd16 b 4 = Some v2" "rd32 b 12 = Some v3"
    "rd32 b 16 = Some v4" "rd b (Suc 0) = Some v5" "rd b 8 = Some v6"
    using assms(3) by (simp add: rd16_def rd32_def rd_def)
  show ?thesis
    by (rule that [of "h\<lparr>ih_version := 4, ih_ip_hl := b ! 0 AND 0x0F, ih_tos := v5, ih_length := v1,
      ih_identification := ucast v2, ih_ttl := v6, ih_proto := 6, ih_src_ip_addr := Addrip_v4 v3,
      ih_dst_ip_addr := Addrip_v4 v4, ih_ftpdata_ip := 0, ih_ftpdata_port := 0, ih_ftpdata_mode := FTPMODE_NONE\<rparr>"])
      (simp add: parse_raw_buffer_def b v Let_def assms(2))
qed

text \<open>
  C34: what the parser reads. It gets no length: on a block that is shorter than the headers in it need,
  bytes past its end are read (the model is undefined there); it is defined on every other block, except
  for FTP control packets, whose text can be read past the end as well. Neither the length field nor the
  size of the block is consulted.
\<close>

theorem parse_needs_header:
  "(length b < header_needs b \<longrightarrow> parse_raw_buffer b h = None)
   \<and> (\<not> ftp_control b \<longrightarrow> (parse_raw_buffer b h \<noteq> None \<longleftrightarrow> header_needs b \<le> length b))"
proof -
  consider (none) "b = []" | (version) "b \<noteq> []" "drop_bit 4 (b ! 0) \<noteq> 4"
    | (short) "b \<noteq> []" "drop_bit 4 (b ! 0) = 4" "length b < 20" | (fixed) "b \<noteq> []" "drop_bit 4 (b ! 0) = 4" "20 \<le> length b"
    by linarith
  then show ?thesis
  proof cases
    case none
    then show ?thesis by (simp add: header_needs_def parse_raw_buffer_def rd_def)
  next
    case version
    then have "parse_raw_buffer b h \<noteq> None" by (simp add: parse_raw_buffer_def rd_def Let_def version_4)
    moreover have "header_needs b = 1" "1 \<le> length b" using version by (simp_all add: header_needs_def Suc_le_eq)
    ultimately show ?thesis by (metis not_le)
  next
    case short
    then have "rd32 b 16 = None" by (simp add: rd_None)
    then have "parse_raw_buffer b h = None" using short by (simp add: parse_raw_buffer_def rd_def Let_def)
    moreover have "header_needs b = 20" using short by (simp add: header_needs_def)
    ultimately show ?thesis using short by simp
  next
    case fixed
    let ?n = "unat (b ! 0 AND 0x0F) * 4"
    show ?thesis
    proof (cases "b ! 9 = 6")
      case False
      then show ?thesis using parse_other [OF fixed, of h] by (metis not_le)
    next
      case True
      obtain H where e: "parse_raw_buffer b h = do { sp \<leftarrow> rd16 b ?n; dp \<leftarrow> rd16 b (?n + 2);
          h4 \<leftarrow> parse_tcp b ?n (H\<lparr>ih_src_port := ucast sp, ih_dst_port := ucast dp\<rparr>); Some (True, h4) }"
        using parse_6 [OF fixed True] .
      have needs: "header_needs b = max 20 (?n + 14)" using fixed True by (simp add: header_needs_def Let_def mult.commute)
      have "parse_raw_buffer b h = None" if "length b < ?n + 14"
        using parse_tcp_None [OF that] by (simp add: e)
      moreover have "parse_raw_buffer b h \<noteq> None" if l: "?n + 14 \<le> length b" "\<not> ftp_control b"
      proof -
        have "rd16 b ?n \<noteq> None" "rd16 b (?n + 2) \<noteq> None" using l(1) by (simp_all only: rd_None not_le)
        then obtain sp dp where r: "rd16 b ?n = Some sp" "rd16 b (?n + 2) = Some dp" by blast
        then have "(ucast sp :: u16) \<noteq> 21" "(ucast dp :: u16) \<noteq> 21"
          using l(2) True by (simp_all add: ftp_control_def Let_def mult.commute)
        then show ?thesis
          using parse_tcp_Some [OF l(1), of "H\<lparr>ih_src_port := ucast sp, ih_dst_port := ucast dp\<rparr>"] r by (auto simp: e)
      qed
      moreover have "header_needs b \<le> length b \<longleftrightarrow> ?n + 14 \<le> length b" using needs fixed(3) by simp
      ultimately show ?thesis by (metis not_le)
    qed
  qed
qed

theorem parse_needs_header_witness:
  "parse_raw_buffer (0x45 # replicate 8 0 @ [17] @ replicate 10 0) ex_header = None
   \<and> parse_raw_buffer (0x45 # replicate 8 0 @ [6] @ replicate 24 0) ex_header \<noteq> None"
proof -
  let ?b = "0x45 # replicate 8 0 @ [17] @ replicate 10 0 :: u8 list"
  let ?c = "0x45 # replicate 8 0 @ [6] @ replicate 24 0 :: u8 list"
  have "length ?b < header_needs ?b" "header_needs ?c \<le> length ?c"
    by (simp_all add: header_needs_def nth_append Let_def)
  moreover have "\<not> ftp_control ?c" by (simp add: ftp_control_def rd16_def rd_def nth_append Let_def)
  ultimately show ?thesis using parse_needs_header [of ?b ex_header] parse_needs_header [of ?c ex_header] by blast
qed

text \<open>
  the address of an FTP data connection: from the reply to \<open>PASV\<close> and from the request \<open>PORT\<close>
  with six numbers below 256 the parser stores the address of the first four and the port of the
  last two, in any packet whose text is followed by a zero byte.
\<close>

theorem ftp_data_address:
  assumes "length v = 6" and "\<forall>n \<in> set v. n < 256"
  shows "parse_pasv (pre @ bytes_of (pasv_reply v) @ 0 # rest) (length pre) h =
      Some (h\<lparr>ih_ftpdata_ip := ftpdata_ip_of v, ih_ftpdata_port := ftpdata_port_of v,
              ih_ftpdata_mode := FTPMODE_PASSIVE\<rparr>)
    \<and> parse_port (pre @ bytes_of (port_request v) @ 0 # rest) (length pre) h =
      Some (h\<lparr>ih_ftpdata_ip := ftpdata_ip_of v, ih_ftpdata_port := ftpdata_port_of v,
              ih_ftpdata_mode := FTPMODE_ACTIVE\<rparr>)"
proof -
  have cc: "count_commas (join_commas v) = 5" using assms(1) by (simp add: join_commas_count)
  have "v \<noteq> []" using assms(1) by auto
  then have sc: "scan_ints 6 (join_commas v) = Some v" using scan_ints_join [OF assms(2)] assms(1) by simp
  let ?b = "pre @ bytes_of (pasv_reply v) @ 0 # rest"
  have p1: "rd_prefix ?b (length pre) ''227 '' = Some True"
    using rd_prefix_text [of pre "''227 ''" "''Entering Passive Mode ('' @ join_commas v @ '')'' @ [CHR 0x0D, CHR 0x0A]" "0 # rest"]
    by (simp add: pasv_reply_def)
  have "?b = (pre @ bytes_of ''227 Entering Passive Mode '') @ of_char CHR ''('' #
      bytes_of (join_commas v @ '')'' @ [CHR 0x0D, CHR 0x0A]) @ 0 # rest"
    by (simp add: pasv_reply_def bytes_of_def)
  moreover have "length (pre @ bytes_of ''227 Entering Passive Mode '') = length pre + 26" by (simp add: bytes_of_def)
  ultimately have p2: "rd ?b (length pre + 26) = Some (of_char CHR ''('')" by (metis rd_at)
  have "?b = (pre @ bytes_of ''227 Entering Passive Mode ('') @
      bytes_of (join_commas v @ '')'' @ [CHR 0x0D, CHR 0x0A]) @ 0 # rest"
    by (simp add: pasv_reply_def bytes_of_def)
  moreover have l1: "length (pre @ bytes_of ''227 Entering Passive Mode ('') = length pre + 27" by (simp add: bytes_of_def)
  ultimately have p3: "rd_string ?b (length pre + 27) 28 = Some (take 28 (join_commas v @ '')'' @ [CHR 0x0D, CHR 0x0A]))"
    using rd_string_text [of "join_commas v @ '')'' @ [CHR 0x0D, CHR 0x0A]" "pre @ bytes_of ''227 Entering Passive Mode (''" rest 28]
      join_commas_no_nul l1 by simp
  have t1: "takeWhile (\<lambda>c. is_digit c \<or> c = CHR '','') (take 28 (join_commas v @ '')'' @ [CHR 0x0D, CHR 0x0A])) = join_commas v"
    using join_commas_scan [OF assms(2), of "CHR '')''"] assms(1) not_digits by simp
  have pasv: "parse_pasv ?b (length pre) h = set_ftpdata (join_commas v) FTPMODE_PASSIVE h"
    unfolding parse_pasv_def p1 p2 p3 using t1 cc byte_char_of [of "CHR ''(''"] by simp
  let ?c = "pre @ bytes_of (port_request v) @ 0 # rest"
  have q1: "rd_prefix ?c (length pre) ''PORT '' = Some True"
    using rd_prefix_text [of pre "''PORT ''" "join_commas v @ [CHR 0x0D, CHR 0x0A]" "0 # rest"]
    by (simp add: port_request_def)
  have "?c = (pre @ bytes_of ''PORT '') @ bytes_of (join_commas v @ [CHR 0x0D, CHR 0x0A]) @ 0 # rest"
    by (simp add: port_request_def bytes_of_def)
  moreover have l2: "length (pre @ bytes_of ''PORT '') = length pre + 5" by (simp add: bytes_of_def)
  ultimately have q2: "rd_string ?c (length pre + 5) 28 = Some (take 28 (join_commas v @ [CHR 0x0D, CHR 0x0A]))"
    using rd_string_text [of "join_commas v @ [CHR 0x0D, CHR 0x0A]" "pre @ bytes_of ''PORT ''" rest 28]
      join_commas_no_nul l2 by simp
  have l: "length (join_commas v) \<le> 24" using join_commas_length [OF assms(2)] assms(1) by simp
  then have q3: "take 28 (join_commas v @ [CHR 0x0D, CHR 0x0A]) = join_commas v @ [CHR 0x0D, CHR 0x0A]" by simp
  have t2: "takeWhile (\<lambda>c. is_digit c \<or> c = CHR '','') (join_commas v @ [CHR 0x0D, CHR 0x0A]) = join_commas v"
    using join_commas_scan [OF assms(2), of "CHR 0x0D" "[CHR 0x0A]"] assms(1) not_digits q3 by simp
  have "count_commas (join_commas v @ [CHR 0x0D, CHR 0x0A]) = 5" using cc by (simp add: count_commas_def)
  then have port: "parse_port ?c (length pre) h = set_ftpdata (join_commas v) FTPMODE_ACTIVE h"
    unfolding parse_port_def q1 q2 q3 using t2 by simp
  show ?thesis unfolding pasv port by (simp add: set_ftpdata_def sc)
qed

theorem ftp_data_address_witness:
  "map_option ih_ftpdata_ip (parse_pasv (bytes_of (pasv_reply [10, 0, 0, 180, 4, 1]) @ [0]) 0 ex_header) = Some 0x0A0000B4"
  using ftp_data_address [of "[10, 0, 0, 180, 4, 1]" "[]" "[]" ex_header]
  by (simp add: ftpdata_ip_of_def)

text \<open>
  a \<open>PORT\<close> request that ends the block less than 33 bytes behind its start, without a zero byte,
  is read past the end of the block: the copy stops at a zero byte or after 28 characters, not
  at the end of the packet.
\<close>

theorem ftp_reply_overread:
  "rd_prefix b n ''PORT '' = Some True \<Longrightarrow> length b < n + 33 \<Longrightarrow> 0 \<notin> set (drop (n + 5) b)
     \<Longrightarrow> parse_port b n h = None"
proof -
  assume p: "rd_prefix b n ''PORT '' = Some True" and l: "length b < n + 33" and z: "0 \<notin> set (drop (n + 5) b)"
  have "0 \<notin> set (drop i b) \<Longrightarrow> length b < i + k \<Longrightarrow> 0 < k \<Longrightarrow> rd_string b i k = None" for i k
  proof (induction k arbitrary: i)
    case (Suc k)
    show ?case
    proof (cases "i < length b")
      case True
      then have d: "drop i b = b ! i # drop (Suc i) b" by (rule Cons_nth_drop_Suc [symmetric])
      have "rd_string b (Suc i) k = None" using Suc.prems d True by (intro Suc.IH) auto
      moreover have "b ! i \<noteq> 0" using Suc.prems(1) d by auto
      ultimately show ?thesis using True by (simp add: rd_def)
    next
      case False
      then show ?thesis by (simp add: rd_def)
    qed
  qed simp
  then have "rd_string b (n + 5) 28 = None" using z l by simp
  with p show ?thesis by (simp add: parse_port_def)
qed

theorem ftp_reply_overread_witness:
  "parse_port (bytes_of (port_request [1, 2, 3, 4, 5, 6])) 0 ex_header = None"
proof -
  have j: "join_commas [1, 2, 3, 4, 5, 6] = ''1,2,3,4,5,6''"
    by (simp add: print_u.simps digit_char_def char_of_eq_iff)
  show ?thesis
    unfolding port_request_def j
    by (rule ftp_reply_overread) (simp_all add: bytes_of_def rd_def byte_char_def char_of_eq_iff)
qed

end
