(* ===== verification/FilterMatch.thy ===== *)
theory FilterMatch
  imports TrafficFilter IpHeader UsersConnected AddrTable "HOL-Library.Monad_Syntax"
begin

text \<open>
  \<open>corefilters/filter_extra.h\<close> and \<open>filter2::match_filter\<close> of \<open>corefilters/filter2.cpp\<close>: does a
  filter match a packet, by which rule and in which direction, what happens to the packet, and
  what is added to the counters. The function dereferences \<open>data.ip\<close> and \<open>data.lt\<close> on every
  call, they are values here; \<open>mat\<close>, \<open>host2ip\<close> and \<open>user_conn\<close> may be \<open>NULL\<close>, which is
  \<open>None\<close>. The result \<open>None\<close> stands for undefined behaviour: a \<open>NULL\<close> \<open>user_conn\<close> that a rule
  needs, or a \<open>struct tm\<close> outside its ranges. The calls that would use the stateful tables are
  commented out in the source; what is left of them has no effect.
\<close>

section \<open>Input and result\<close>

definition MODIFY_COUNTER_NO :: u32 where [utm_consts]: "MODIFY_COUNTER_NO = 1"
definition MODIFY_COUNTER_YES :: u32 where [utm_consts]: "MODIFY_COUNTER_YES = 0"
definition DIRECTION_FORWARD :: i32 where [utm_consts]: "DIRECTION_FORWARD = 0"
definition DIRECTION_BACKWARD :: i32 where [utm_consts]: "DIRECTION_BACKWARD = 1"
definition PACKET_DIRECTION_PASSIVE :: u32 where [utm_consts]: "PACKET_DIRECTION_PASSIVE = 0"
definition PACKET_DIRECTION_INCOMING :: u32 where [utm_consts]: "PACKET_DIRECTION_INCOMING = 1"
definition PACKET_DIRECTION_OUTGOING :: u32 where [utm_consts]: "PACKET_DIRECTION_OUTGOING = 2"

record tm =
  tm_hour :: int
  tm_mday :: int
  tm_mon :: int
  tm_year :: int
  tm_wday :: int

record match_filter_input =
  mi_bWithNat :: bool
  mi_ip :: ip_header
  mi_mat :: "addrtablemaprec list option"
  mi_host2ip :: "hosttable option"
  mi_user_conn :: "users_connected option"
  mi_nModifyCounter :: u32
  mi_nPrevFilter :: i32
  mi_lt :: tm
  mi_dwProcNickIdSrc :: u32
  mi_dwProcNickIdDst :: u32
  mi_uidSrc :: i32
  mi_uidDst :: i32
  mi_nNicAlias :: u32
  mi_nPacketDirection :: u32
  mi_nPreCheckAddrTables :: u32
  mi_uptime :: utimestamp
  mi_mbytes :: i32

text \<open>The pointer \<open>filter_ptr\<close> is whether the filter has stored itself.\<close>

record match_filter_result =
  filter_match_result :: bool
  is_limit_exceeded :: bool
  is_rwrfwd :: bool
  res_ip_length :: u16
  res_direction :: i32
  res_action :: i32
  rule_no :: i32
  res_filter_id :: u32
  filterset_match_result :: i32
  filter_ptr :: bool

definition match_result_clear :: match_filter_result where
  "match_result_clear = \<lparr>filter_match_result = False, is_limit_exceeded = False, is_rwrfwd = False,
     res_ip_length = 0, res_direction = 0, res_action = 0, rule_no = 0, res_filter_id = 0,
     filterset_match_result = 0, filter_ptr = False\<rparr>"

section \<open>One rule in one direction\<close>

text \<open>The local variables the body of the direction loop sets first.\<close>

record packet_ends =
  pe_src_mac :: "u8 list"
  pe_dst_mac :: "u8 list"
  pe_src_ip :: u32
  pe_dst_ip :: u32
  pe_src_port :: u16
  pe_dst_port :: u16

definition packet_ends_of :: "ip_header \<Rightarrow> i32 \<Rightarrow> packet_ends" where
  "packet_ends_of h curdir =
     (if curdir = DIRECTION_FORWARD
      then \<lparr>pe_src_mac = ih_src_mac h, pe_dst_mac = ih_dst_mac h,
            pe_src_ip = m_addr (ih_src_ip_addr h), pe_dst_ip = m_addr (ih_dst_ip_addr h),
            pe_src_port = ih_src_port h, pe_dst_port = ih_dst_port h\<rparr>
      else \<lparr>pe_src_mac = ih_dst_mac h, pe_dst_mac = ih_src_mac h,
            pe_src_ip = m_addr (ih_dst_ip_addr h), pe_dst_ip = m_addr (ih_src_ip_addr h),
            pe_src_port = ih_dst_port h, pe_dst_port = ih_src_port h\<rparr>)"

definition has_flag :: "u32 \<Rightarrow> u32 \<Rightarrow> bool" where "has_flag w m \<longleftrightarrow> w AND m \<noteq> 0"

definition table_of :: "match_filter_input \<Rightarrow> i32 \<Rightarrow> u32 \<Rightarrow> addr_items option" where
  "table_of d type_id atkey =
     (case mi_mat d of
        None \<Rightarrow> None
      | Some mat \<Rightarrow>
          if type_id = RULE_ADDRGRP \<or> type_id = RULE_ADDRGRP_NO
          then map_option (\<lambda>r. at_items (atr_addrtable r)) (find_by_id (addrtablemap_class 0) atkey mat)
          else None)"

text \<open>The source end: the first \<open>switch\<close>.\<close>

definition src_check :: "u32 \<Rightarrow> match_filter_input \<Rightarrow> rule \<Rightarrow> i32 \<Rightarrow> packet_ends \<Rightarrow> bool option" where
  "src_check tmo d r curdir e =
     (let t = src_type r; forward = (curdir = DIRECTION_FORWARD); a = Addrip_v4 (pe_src_ip e);
          i = m_addr (src_ip r); m = m_addr (src_mask r); pre = mi_nPreCheckAddrTables d;
          at = table_of d (src_type r) (src_atkey r)
      in if t = RULE_MYIP then Some (if forward then has_flag pre CHECKADDR_MYPC_SRC else has_flag pre CHECKADDR_MYPC_DST)
      else if t = RULE_IP then Some ((pe_src_ip e AND m) = (i AND m))
      else if t = RULE_RANGE then Some (pe_src_ip e \<ge> i \<and> pe_src_ip e \<le> m)
      else if t = RULE_LAN then Some (if forward then has_flag pre CHECKADDR_LAT_SRC else has_flag pre CHECKADDR_LAT_DST)
      else if t = RULE_WAN then Some (if forward then \<not> has_flag pre CHECKADDR_LAT_SRC else \<not> has_flag pre CHECKADDR_LAT_DST)
      else if t = RULE_MAC then Some (mac_content (src_mac r) = pe_src_mac e)
      else if t = RULE_HOST then Some (case mi_host2ip d of None \<Rightarrow> False | Some h \<Rightarrow> checkaddr_host (src_host r) a h)
      else if t = RULE_ADDRGRP then Some (case at of None \<Rightarrow> False | Some tab \<Rightarrow> CheckAddrRange tab a)
      else if t = RULE_ADDRGRP_NO then Some (case at of None \<Rightarrow> False | Some tab \<Rightarrow> \<not> CheckAddrRange tab a)
      else if t = RULE_INCOMING then Some (mi_nPacketDirection d = PACKET_DIRECTION_INCOMING)
      else if t = RULE_OUTGOING then Some (mi_nPacketDirection d \<noteq> PACKET_DIRECTION_OUTGOING)
      else if t = RULE_USER
        then map_option (check_user_and_ip tmo (src_uid r) a (mi_uptime d)) (mi_user_conn d)
      else if t = RULE_USER_ANY
        then map_option (check_for_any_ip tmo a (mi_uptime d)) (mi_user_conn d)
      else if t = RULE_PROCNAME
        then Some (let p = (if forward then mi_dwProcNickIdSrc d else mi_dwProcNickIdDst d)
                   in p \<noteq> 0 \<and> p = src_procnick r)
      else if t = RULE_PROCUSER
        then Some (let u = (if forward then mi_uidSrc d else mi_uidDst d) in u \<noteq> 0 \<and> u = src_uid r)
      else Some False)"

text \<open>The destination end: the second \<open>switch\<close>.\<close>

definition dst_check :: "u32 \<Rightarrow> match_filter_input \<Rightarrow> rule \<Rightarrow> i32 \<Rightarrow> packet_ends \<Rightarrow> bool option" where
  "dst_check tmo d r curdir e =
     (let t = dst_type r; forward = (curdir = DIRECTION_FORWARD); a = Addrip_v4 (pe_dst_ip e);
          i = m_addr (dst_ip r); m = m_addr (dst_mask r); pre = mi_nPreCheckAddrTables d;
          at = table_of d (dst_type r) (dst_atkey r)
      in if t = RULE_MYIP then Some (if forward then has_flag pre CHECKADDR_MYPC_DST else has_flag pre CHECKADDR_MYPC_SRC)
      else if t = RULE_IP then Some ((pe_dst_ip e AND m) = (i AND m))
      else if t = RULE_RANGE then Some (pe_dst_ip e \<ge> i \<and> pe_dst_ip e \<le> m)
      else if t = RULE_LAN then Some (if forward then has_flag pre CHECKADDR_LAT_DST else has_flag pre CHECKADDR_LAT_SRC)
      else if t = RULE_WAN then Some (if forward then \<not> has_flag pre CHECKADDR_LAT_DST else \<not> has_flag pre CHECKADDR_LAT_SRC)
      else if t = RULE_MAC then Some (mac_content (dst_mac r) = pe_dst_mac e)
      else if t = RULE_HOST then Some (case mi_host2ip d of None \<Rightarrow> False | Some h \<Rightarrow> checkaddr_host (dst_host r) a h)
      else if t = RULE_ADDRGRP then Some (case at of None \<Rightarrow> False | Some tab \<Rightarrow> CheckAddrRange tab a)
      else if t = RULE_ADDRGRP_NO then Some (case at of None \<Rightarrow> False | Some tab \<Rightarrow> \<not> CheckAddrRange tab a)
      else if t = RULE_INCOMING then Some (mi_nPacketDirection d = PACKET_DIRECTION_INCOMING)
      else if t = RULE_OUTGOING then Some (mi_nPacketDirection d = PACKET_DIRECTION_OUTGOING)
      else if t = RULE_USER
        then map_option (check_user_and_ip tmo (dst_uid r) a (mi_uptime d)) (mi_user_conn d)
      else if t = RULE_USER_ANY
        then map_option (check_for_any_ip tmo a (mi_uptime d)) (mi_user_conn d)
      else if t = RULE_PROCNAME
        then Some (let p = (if forward then mi_dwProcNickIdDst d else mi_dwProcNickIdSrc d)
                   in p \<noteq> 0 \<and> p = dst_procnick r)
      else if t = RULE_PROCUSER
        then Some (let u = (if forward then mi_uidDst d else mi_uidSrc d) in u \<noteq> 0 \<and> u = dst_uid r)
      else Some False)"

text \<open>
  A port \<open>switch\<close> has no default: it assigns \<open>is_match\<close>, or leaves it for \<open>PORT_ANY\<close> and for
  an unknown code. The second one is run on what the first has left.
\<close>

definition port_switch :: "u16 \<Rightarrow> u16 \<Rightarrow> u16 \<Rightarrow> u16 \<Rightarrow> bool \<Rightarrow> bool" where
  "port_switch port_type p p_to port is_match =
     (if port_type = PORT_EQUAL then p = port
      else if port_type = PORT_GREATER then port > p
      else if port_type = PORT_LESS then port < p
      else if port_type = PORT_NOTEQUAL then port \<noteq> p
      else if port_type = PORT_BETWEEN then port \<ge> p \<and> port \<le> p_to
      else if port_type = PORT_NOTBETWEEN then port \<le> p \<or> port \<ge> p_to
      else if port_type = PORT_EQUAL_OR then port = p \<or> port = p_to
      else is_match)"

definition ports_check :: "match_filter_input \<Rightarrow> rule \<Rightarrow> packet_ends \<Rightarrow> bool" where
  "ports_check d r e =
     (if sint (rl_proto r) > 0
      then if rl_proto r \<noteq> ucast (ih_proto (mi_ip d)) then False
           else if ih_proto (mi_ip d) = 6 \<or> ih_proto (mi_ip d) = 17
           then port_switch (dst_port_type r) (dst_port r) (dst_port_to r) (pe_dst_port e)
                  (port_switch (src_port_type r) (src_port r) (src_port_to r) (pe_src_port e) True)
           else True
      else True)"

definition options_check :: "match_filter_input \<Rightarrow> rule \<Rightarrow> i32 \<Rightarrow> bool" where
  "options_check d r curdir =
     (let fl = ih_flags (mi_ip d); opt = pkt_options r; forward = (curdir = DIRECTION_FORWARD);
          m0 = True;
          m1 = (if ih_proto (mi_ip d) = 1 \<and> has_flag opt PKTOPT_ICMPECHOREQUEST \<and> forward
                then (fl AND 0x0800) = 0x0800 else m0);
          m2 = (if ih_proto (mi_ip d) = 1 \<and> has_flag opt PKTOPT_ICMPTTLEXCEEDED \<and> forward
                then (fl AND 0x0B00) = 0x0B00 else m1)
      in if has_flag opt PKTOPT_TCPSYN \<and> ih_proto (mi_ip d) = 6 \<and> forward
         then 0x0002 AND fl \<noteq> 0 \<and> 0x0010 AND fl = 0 else m2)"

text \<open>\<open>mbytes * condition_limit\<close>: a product of 32-bit numbers, exact in 64 bits.\<close>

definition condition_check :: "match_filter_input \<Rightarrow> rule \<Rightarrow> filter2 \<Rightarrow> bool" where
  "condition_check d r f =
     (let lim = sint (mi_mbytes d) * uint (condition_limit r); t = condition_type r;
          s = get_cnt (cnt_sent f); v = get_cnt (cnt_recv f); sum = sint (cnt (cnt_sent f) + cnt (cnt_recv f))
      in if t = COND_SENT_LESS then s < lim
      else if t = COND_SENT_GREATER then s > lim
      else if t = COND_RECV_LESS then v < lim
      else if t = COND_RECV_GREATER then v > lim
      else if t = COND_SENT_OR_RECV_LESS then s < lim \<or> v < lim
      else if t = COND_SENT_OR_RECV_GREATER then s > lim \<or> v > lim
      else if t = COND_SENT_AND_RECV_LESS then s < lim \<and> v < lim
      else if t = COND_SENT_AND_RECV_GREATER then s > lim \<and> v > lim
      else if t = COND_SENT_PLUS_RECV_LESS then sum < lim
      else if t = COND_SENT_PLUS_RECV_GREATER then sum > lim
      else True)"

definition time_check :: "match_filter_input \<Rightarrow> rule \<Rightarrow> bool" where
  "time_check d r =
     (let w = tm_wday (mi_lt d); hour = tm_hour (mi_lt d);
          day = (if w = 1 then has_flag (wday r) WDAY_MON
                 else if w = 2 then has_flag (wday r) WDAY_TUE
                 else if w = 3 then has_flag (wday r) WDAY_WED
                 else if w = 4 then has_flag (wday r) WDAY_THU
                 else if w = 5 then has_flag (wday r) WDAY_FRI
                 else if w = 6 then has_flag (wday r) WDAY_SAT
                 else if w = 0 then has_flag (wday r) WDAY_SUN else True)
      in day \<and> \<not> hour < uint (time_from r) \<and> \<not> hour > uint (time_to r))"

text \<open>\<open>memcmp\<close> of six bytes, of the last four when the packet comes from NetFlow.\<close>

definition mac_check :: "match_filter_input \<Rightarrow> rule \<Rightarrow> packet_ends \<Rightarrow> bool" where
  "mac_check d r e =
     (let t = cond_mac_type r; c = mac_content (cond_mac_data r);
          netflow = (mi_nNicAlias d = NICALIAS_NETFLOW)
      in if t = COND_MAC_SRC_EQUAL
         then (if netflow then drop 2 (pe_src_mac e) = drop 2 c else pe_src_mac e = c)
      else if t = COND_MAC_SRC_NOTEQUAL then pe_src_mac e \<noteq> c
      else if t = COND_MAC_DST_EQUAL
         then (if netflow then drop 2 (pe_dst_mac e) = drop 2 c else pe_dst_mac e = c)
      else if t = COND_MAC_DST_NOTEQUAL then pe_dst_mac e \<noteq> c
      else True)"

definition prevfilter_check :: "match_filter_input \<Rightarrow> rule \<Rightarrow> bool" where
  "prevfilter_check d r =
     (if prevfilter_type r = PREVFILTER_NOTMATCHED then mi_nPrevFilter d = 0
      else if prevfilter_type r = PREVFILTER_MATCHED then mi_nPrevFilter d = 1
      else True)"

text \<open>One pass of the direction loop: every check that fails is a \<open>continue\<close>.\<close>

definition dir_match :: "u32 \<Rightarrow> match_filter_input \<Rightarrow> filter2 \<Rightarrow> rule \<Rightarrow> i32 \<Rightarrow> bool option" where
  "dir_match tmo d f r curdir =
     (let e = packet_ends_of (mi_ip d) curdir in do {
        src_ok \<leftarrow> src_check tmo d r curdir e;
        if \<not> src_ok then Some False else do {
        dst_ok \<leftarrow> dst_check tmo d r curdir e;
        if \<not> dst_ok then Some False
        else Some (ports_check d r e \<and> options_check d r curdir \<and> condition_check d r f
          \<and> time_check d r \<and> mac_check d r e \<and> prevfilter_check d r) } })"

section \<open>One rule\<close>

definition no_backward :: "rule \<Rightarrow> bool" where
  "no_backward r \<longleftrightarrow> mirrored r = DIRECTION_ONEWAY \<or> has_flag (pkt_options r) PKTOPT_TCPSYN
     \<or> has_flag (pkt_options r) PKTOPT_ICMPECHOREQUEST"

text \<open>
  \<open>for (curdir = 0; curdir < 2; curdir++)\<close>: the final value of \<open>curdir\<close>, which is 2 when no
  direction matches.
\<close>

fun dir_loop :: "u32 \<Rightarrow> match_filter_input \<Rightarrow> filter2 \<Rightarrow> rule \<Rightarrow> i32 list \<Rightarrow> i32 option" where
  "dir_loop tmo d f r [] = Some 2"
| "dir_loop tmo d f r (curdir # rest) =
     (if curdir = DIRECTION_BACKWARD \<and> no_backward r then Some (curdir + 1)
      else do {
        m \<leftarrow> dir_match tmo d f r curdir;
        if m then Some curdir else dir_loop tmo d f r rest })"

text \<open>The two \<open>continue\<close>s on top of the rule loop.\<close>

definition rule_skipped :: "match_filter_input \<Rightarrow> rule \<Rightarrow> bool" where
  "rule_skipped d r \<longleftrightarrow> (natuse r = NATUSE_YES \<and> \<not> mi_bWithNat d) \<or> (natuse r = NATUSE_NO \<and> mi_bWithNat d)
     \<or> ((nicalias r = NICALIAS_PUBLIC \<or> nicalias r = NICALIAS_PRIVATE \<or> nicalias r = NICALIAS_NETFLOW)
        \<and> nicalias r \<noteq> mi_nNicAlias d)"

section \<open>The match\<close>

definition counts :: "rule \<Rightarrow> bool" where
  "counts r \<longleftrightarrow> rl_action r = ACTION_COUNT \<or> rl_action r = ACTION_COUNTPASS"

definition count_packet :: "match_filter_input \<Rightarrow> i32 \<Rightarrow> filter2 \<Rightarrow> filter2" where
  "count_packet d curdir f =
     (let len = (ucast (ih_length (mi_ip d)) :: i64); v = (if m_bRevers f then - len else len) in
      if curdir = DIRECTION_FORWARD then f\<lparr>cnt_sent := add_cnt v (cnt_sent f)\<rparr>
      else f\<lparr>cnt_recv := add_cnt v (cnt_recv f)\<rparr>)"

definition limit_denies :: "match_filter_input \<Rightarrow> filter2 \<Rightarrow> bool" where
  "limit_denies d f \<longleftrightarrow> m_nTrafficLimitAction f = TRAFFICLIMIT_BLOCK
     \<and> is_traffic_limit_exceeded (mi_mbytes d) False f"

text \<open>The filter and the result after a match, and whether the function returns there.\<close>

definition on_match ::
  "match_filter_input \<Rightarrow> rule \<Rightarrow> i32 \<Rightarrow> i32 \<Rightarrow> filter2 \<Rightarrow> match_filter_result \<Rightarrow> filter2 \<times> match_filter_result \<times> bool"
where
  "on_match d r curdir rule_number f res =
     (let res1 = res\<lparr>filter_match_result := True, res_direction := curdir, res_action := rl_action r,
                    rule_no := rule_number, res_filter_id := m_id f, filter_ptr := True,
                    is_rwrfwd := (rwr_fwd r > 0)\<rparr>;
          deny = res1\<lparr>res_action := ACTION_DENY, is_limit_exceeded := True\<rparr>
      in if mi_nModifyCounter d = MODIFY_COUNTER_NO
         then if counts r \<and> limit_denies d f then (f, deny, True) else (f, res1, False)
         else if mi_nModifyCounter d = MODIFY_COUNTER_YES \<and> counts r
         then let f1 = count_packet d curdir f
              in if limit_denies d f1 then (f1, deny, True) else (f1, res1, False)
         else (f, res1, False))"

text \<open>
  The rule loop. A skipped rule is a \<open>continue\<close> past the \<open>rule_number++\<close> at the end of the body.
  The result says whether a rule has matched and whether the function has returned.
\<close>

fun rules_loop ::
  "u32 \<Rightarrow> match_filter_input \<Rightarrow> rule list \<Rightarrow> i32 \<Rightarrow> filter2 \<Rightarrow> match_filter_result
     \<Rightarrow> (filter2 \<times> match_filter_result \<times> bool \<times> bool) option"
where
  "rules_loop tmo d [] rule_number f res = Some (f, res, False, False)"
| "rules_loop tmo d (r # rs) rule_number f res =
     (if rule_skipped d r then rules_loop tmo d rs rule_number f res
      else do {
        curdir \<leftarrow> dir_loop tmo d f r [DIRECTION_FORWARD, DIRECTION_BACKWARD];
        if curdir = DIRECTION_FORWARD \<or> curdir = DIRECTION_BACKWARD
        then (case on_match d r curdir rule_number f res of (f', res', returned) \<Rightarrow> Some (f', res', True, returned))
        else rules_loop tmo d rs (rule_number + 1) f res })"

section \<open>The filter\<close>

definition week_day_of :: "tm \<Rightarrow> int" where
  "week_day_of lt = (if tm_wday lt \<le> 0 then 6 else tm_wday lt - 1)"

definition current_day :: "tm \<Rightarrow> u32" where
  "current_day lt = of_int ((tm_year lt + 1900) * 10000 + (tm_mon lt + 1) * 100 + tm_mday lt)"

text \<open>The checks of the working hours and days; \<open>None\<close> when the shift or the index is undefined.\<close>

definition works_now :: "tm \<Rightarrow> filter2 \<Rightarrow> bool option" where
  "works_now lt f =
     (if 0 \<le> tm_hour lt \<and> tm_hour lt < 32 \<and> nat (week_day_of lt) < length (m_nWorkHours f)
      then Some (has_flag (m_nWorkHours f ! nat (week_day_of lt)) (push_bit (nat (tm_hour lt)) 1)
        \<and> \<not> (m_nStartDay f > current_day lt \<or> m_nEndDay f < current_day lt))
      else None)"

definition match_filter ::
  "u32 \<Rightarrow> match_filter_input \<Rightarrow> filter2 \<Rightarrow> match_filter_result \<Rightarrow> (filter2 \<times> match_filter_result) option"
where
  "match_filter tmo d f res =
     (if m_bDisable f then Some (f, res)
      else do {
        working \<leftarrow> works_now (mi_lt d) f;
        if \<not> working then Some (f, res)
        else do {
          (f', res', matched, returned) \<leftarrow> rules_loop tmo d (rules f) 1 f res;
          if returned then Some (f', res')
          else Some (f', if matched \<and> m_bBlocked f' then res'\<lparr>res_action := ACTION_DENY\<rparr> else res') } })"

definition match_filter3 ::
  "u32 \<Rightarrow> match_filter_input \<Rightarrow> filter2 \<Rightarrow> match_filter_result \<Rightarrow> bool \<Rightarrow> (filter2 \<times> match_filter_result) option"
where
  "match_filter3 tmo d f res clear_result_before =
     match_filter tmo d f (if clear_result_before then match_result_clear else res)"

section \<open>Which rule matches\<close>

text \<open>A rule hits in a direction, or misses, in terms of the single checks.\<close>

definition rule_hits :: "u32 \<Rightarrow> match_filter_input \<Rightarrow> filter2 \<Rightarrow> rule \<Rightarrow> i32 \<Rightarrow> bool" where
  "rule_hits tmo d f r curdir \<longleftrightarrow> \<not> rule_skipped d r
     \<and> (curdir = DIRECTION_FORWARD \<and> dir_match tmo d f r DIRECTION_FORWARD = Some True
        \<or> curdir = DIRECTION_BACKWARD \<and> dir_match tmo d f r DIRECTION_FORWARD = Some False
          \<and> \<not> no_backward r \<and> dir_match tmo d f r DIRECTION_BACKWARD = Some True)"

definition rule_misses :: "u32 \<Rightarrow> match_filter_input \<Rightarrow> filter2 \<Rightarrow> rule \<Rightarrow> bool" where
  "rule_misses tmo d f r \<longleftrightarrow> rule_skipped d r
     \<or> dir_match tmo d f r DIRECTION_FORWARD = Some False
       \<and> (no_backward r \<or> dir_match tmo d f r DIRECTION_BACKWARD = Some False)"

lemma dir_loop_cases:
  assumes "dir_loop tmo d f r [DIRECTION_FORWARD, DIRECTION_BACKWARD] = Some c" and "\<not> rule_skipped d r"
  shows "(c = DIRECTION_FORWARD \<or> c = DIRECTION_BACKWARD) \<and> rule_hits tmo d f r c
    \<or> c = 2 \<and> rule_misses tmo d f r"
  using assms
  by (auto simp: rule_hits_def rule_misses_def utm_consts split: bind_splits if_splits)

text \<open>
  The first rule of the list that hits: the rules before it all miss, and \<open>k\<close> of them were not
  skipped.
\<close>

definition first_hit ::
  "u32 \<Rightarrow> match_filter_input \<Rightarrow> filter2 \<Rightarrow> rule list \<Rightarrow> nat \<Rightarrow> rule \<Rightarrow> i32 \<Rightarrow> bool" where
  "first_hit tmo d f rs k r curdir \<longleftrightarrow> (\<exists>xs ys. rs = xs @ r # ys \<and> (\<forall>q \<in> set xs. rule_misses tmo d f q)
     \<and> k = length (filter (\<lambda>q. \<not> rule_skipped d q) xs) \<and> rule_hits tmo d f r curdir)"

lemma first_hit_here: "rule_hits tmo d f r c \<Longrightarrow> first_hit tmo d f (r # rs) 0 r c"
  unfolding first_hit_def by (intro exI [of _ "[]"] exI [of _ rs]) simp

lemma first_hit_later:
  assumes "first_hit tmo d f rs k r c" and "rule_misses tmo d f q"
  shows "first_hit tmo d f (q # rs) (if rule_skipped d q then k else Suc k) r c"
proof -
  obtain xs ys where "rs = xs @ r # ys" "\<forall>q \<in> set xs. rule_misses tmo d f q"
    "k = length (filter (\<lambda>q. \<not> rule_skipped d q) xs)" "rule_hits tmo d f r c"
    using assms(1) unfolding first_hit_def by blast
  then show ?thesis using assms(2) unfolding first_hit_def
    by (intro exI [of _ "q # xs"] exI [of _ ys]) auto
qed

lemma rules_loop_spec:
  assumes "rules_loop tmo d rs n f res = Some (f', res', m, ret)"
  shows "m \<and> (\<exists>k r c. first_hit tmo d f rs k r c \<and> on_match d r c (n + of_nat k) f res = (f', res', ret))
    \<or> \<not> m \<and> f' = f \<and> res' = res \<and> \<not> ret \<and> (\<forall>q \<in> set rs. rule_misses tmo d f q)"
  using assms
proof (induction rs arbitrary: n)
  case (Cons r rs)
  have step: ?case if run: "rules_loop tmo d rs n' f res = Some (f', res', m, ret)"
    and miss: "rule_misses tmo d f r" and n': "n' = (if rule_skipped d r then n else n + 1)" for n'
    using Cons.IH [OF run]
  proof (elim disjE conjE exE)
    fix k q c assume m: m and h: "first_hit tmo d f rs k q c" and o: "on_match d q c (n' + of_nat k) f res = (f', res', ret)"
    have "n' + of_nat k = n + of_nat (if rule_skipped d r then k else Suc k)" using n' by (simp add: add.commute add.assoc)
    with o first_hit_later [OF h miss] m show ?thesis by metis
  qed (use miss in simp)
  show ?case
  proof (cases "rule_skipped d r")
    case True
    then show ?thesis using Cons.prems by (intro step [of n]) (simp_all add: rule_misses_def)
  next
    case False
    then obtain c where c: "dir_loop tmo d f r [DIRECTION_FORWARD, DIRECTION_BACKWARD] = Some c"
      using Cons.prems by (auto split: bind_splits)
    consider "c = DIRECTION_FORWARD \<or> c = DIRECTION_BACKWARD" "rule_hits tmo d f r c" | "c = 2" "rule_misses tmo d f r"
      using dir_loop_cases [OF c False] by blast
    then show ?thesis
    proof cases
      case 1
      obtain g res'' e where o: "on_match d r c n f res = (g, res'', e)" by (cases "on_match d r c n f res")
      have "rules_loop tmo d (r # rs) n f res = Some (g, res'', True, e)"
        using False c 1(1) o by (simp del: dir_loop.simps)
      then have "m" "on_match d r c (n + of_nat 0) f res = (f', res', ret)" using Cons.prems o by simp_all
      then show ?thesis using first_hit_here [OF 1(2)] by blast
    next
      case 2
      then show ?thesis using Cons.prems False c by (intro step [of "n + 1"]) (simp_all add: utm_consts del: dir_loop.simps)
    qed
  qed
qed simp

lemma match_filter_cases:
  assumes "match_filter tmo d f res = Some (f', res')"
  shows "(m_bDisable f \<or> works_now (mi_lt d) f = Some False) \<and> f' = f \<and> res' = res
    \<or> \<not> m_bDisable f \<and> works_now (mi_lt d) f = Some True
      \<and> (f' = f \<and> res' = res \<and> (\<forall>q \<in> set (rules f). rule_misses tmo d f q)
         \<or> (\<exists>k r c res1 ret. first_hit tmo d f (rules f) k r c
              \<and> on_match d r c (1 + of_nat k) f res = (f', res1, ret)
              \<and> res' = (if \<not> ret \<and> m_bBlocked f' then res1\<lparr>res_action := ACTION_DENY\<rparr> else res1)))"
proof (cases "\<not> m_bDisable f \<and> works_now (mi_lt d) f = Some True")
  case False
  then show ?thesis using assms by (auto simp: match_filter_def split: if_splits bind_splits)
next
  case True
  then obtain g res1 m ret where l: "rules_loop tmo d (rules f) 1 f res = Some (g, res1, m, ret)"
    using assms by (auto simp: match_filter_def split: bind_splits)
  then have e: "f' = g" "res' = (if \<not> ret \<and> m \<and> m_bBlocked g then res1\<lparr>res_action := ACTION_DENY\<rparr> else res1)"
    using assms True by (auto simp: match_filter_def split: if_splits)
  show ?thesis using rules_loop_spec [OF l]
  proof (elim disjE conjE exE)
    fix k r c assume "m" and h: "first_hit tmo d f (rules f) k r c" "on_match d r c (1 + of_nat k) f res = (g, res1, ret)"
    then show ?thesis using True e by (intro disjI2 conjI exI [of _ k] exI [of _ r] exI [of _ c] exI [of _ res1] exI [of _ ret]) simp_all
  qed (use True e in simp)
qed

section \<open>What a match does\<close>

definition accounted :: "match_filter_input \<Rightarrow> rule \<Rightarrow> i32 \<Rightarrow> filter2 \<Rightarrow> filter2" where
  "accounted d r c f =
     (if mi_nModifyCounter d = MODIFY_COUNTER_YES \<and> counts r then count_packet d c f else f)"

definition over_limit :: "match_filter_input \<Rightarrow> rule \<Rightarrow> filter2 \<Rightarrow> bool" where
  "over_limit d r f \<longleftrightarrow> (mi_nModifyCounter d = MODIFY_COUNTER_NO \<or> mi_nModifyCounter d = MODIFY_COUNTER_YES)
     \<and> counts r \<and> limit_denies d f"

lemma on_match_effect:
  assumes "on_match d r c n f res = (f', res', ret)"
  shows "f' = accounted d r c f" and "ret = over_limit d r f'"
    and "filter_match_result res' \<and> res_direction res' = c \<and> rule_no res' = n \<and> res_filter_id res' = m_id f
       \<and> filter_ptr res' \<and> is_rwrfwd res' = (rwr_fwd r > 0)"
    and "res_action res' = (if ret then ACTION_DENY else rl_action r)"
    and "is_limit_exceeded res' = (ret \<or> is_limit_exceeded res)"
  using assms by (auto simp: on_match_def accounted_def over_limit_def Let_def utm_consts split: if_splits)

lemma accounted_fields [simp]:
  "m_bBlocked (accounted d r c f) = m_bBlocked f" "m_id (accounted d r c f) = m_id f"
  "rules (accounted d r c f) = rules f" "m_bDisable (accounted d r c f) = m_bDisable f"
  "m_bRevers (accounted d r c f) = m_bRevers f"
  "m_nTrafficLimitMb (accounted d r c f) = m_nTrafficLimitMb f"
  "m_nTrafficLimitType (accounted d r c f) = m_nTrafficLimitType f"
  "m_nTrafficLimitAction (accounted d r c f) = m_nTrafficLimitAction f"
  by (simp_all add: accounted_def count_packet_def Let_def)

section \<open>Backward is forward of the reversed packet\<close>

definition swap_pre :: "u32 \<Rightarrow> u32" where
  "swap_pre w = (if has_flag w CHECKADDR_MYPC_SRC then CHECKADDR_MYPC_DST else 0)
     OR (if has_flag w CHECKADDR_MYPC_DST then CHECKADDR_MYPC_SRC else 0)
     OR (if has_flag w CHECKADDR_LAT_SRC then CHECKADDR_LAT_DST else 0)
     OR (if has_flag w CHECKADDR_LAT_DST then CHECKADDR_LAT_SRC else 0)"

definition reversed_input :: "match_filter_input \<Rightarrow> match_filter_input" where
  "reversed_input d = d\<lparr>mi_ip := swap_src_dst (mi_ip d),
     mi_dwProcNickIdSrc := mi_dwProcNickIdDst d, mi_dwProcNickIdDst := mi_dwProcNickIdSrc d,
     mi_uidSrc := mi_uidDst d, mi_uidDst := mi_uidSrc d,
     mi_nPreCheckAddrTables := swap_pre (mi_nPreCheckAddrTables d)\<rparr>"

lemma swap_pre_flags:
  "has_flag (swap_pre w) CHECKADDR_MYPC_SRC = has_flag w CHECKADDR_MYPC_DST"
  "has_flag (swap_pre w) CHECKADDR_MYPC_DST = has_flag w CHECKADDR_MYPC_SRC"
  "has_flag (swap_pre w) CHECKADDR_LAT_SRC = has_flag w CHECKADDR_LAT_DST"
  "has_flag (swap_pre w) CHECKADDR_LAT_DST = has_flag w CHECKADDR_LAT_SRC"
  by (simp_all add: swap_pre_def) (simp_all add: has_flag_def utm_consts)

lemma packet_ends_swap:
  "packet_ends_of (swap_src_dst h) DIRECTION_FORWARD = packet_ends_of h DIRECTION_BACKWARD"
  "packet_ends_of (swap_src_dst h) DIRECTION_BACKWARD = packet_ends_of h DIRECTION_FORWARD"
  by (simp_all add: packet_ends_of_def swap_src_dst_def utm_consts)

section \<open>Limits\<close>

fun run_packets ::
  "u32 \<Rightarrow> match_filter_input list \<Rightarrow> filter2 \<Rightarrow> (filter2 \<times> match_filter_result list) option" where
  "run_packets tmo [] f = Some (f, [])"
| "run_packets tmo (d # ds) f = do {
     (f1, res) \<leftarrow> match_filter3 tmo d f match_result_clear True;
     (f2, rest) \<leftarrow> run_packets tmo ds f1;
     Some (f2, res # rest) }"

text \<open>The bytes of the packets that were counted as sent and not denied.\<close>

definition passed_sent :: "match_filter_input \<Rightarrow> match_filter_result \<Rightarrow> int" where
  "passed_sent d res =
     (if filter_match_result res \<and> res_direction res = DIRECTION_FORWARD
         \<and> (res_action res = ACTION_COUNT \<or> res_action res = ACTION_COUNTPASS)
      then uint (ih_length (mi_ip d)) else 0)"

definition all_passed_sent :: "match_filter_input list \<Rightarrow> match_filter_result list \<Rightarrow> int" where
  "all_passed_sent ds rs = sum_list (map2 passed_sent ds rs)"

lemma passed_sent_nonneg: "0 \<le> passed_sent d res"
  by (simp add: passed_sent_def)

lemma sint_ucast32: "sint (ucast w :: i64) = uint w" for w :: u32
proof -
  have "unat (ucast w :: i64) = unat w"
    using unat_u32_bound [of w] by (simp add: unsigned_ucast_eq take_bit_nat_eq_self)
  moreover have "unat w < 2 ^ 63" using unat_u32_bound [of w] by simp
  ultimately have "sint (ucast w :: i64) = int (unat w)" using sint_small [of "ucast w"] by simp
  then show ?thesis by simp
qed

lemma add_cnt_exact:
  assumes "0 \<le> get_cnt c" and "get_cnt c + uint w < 2 ^ 63"
  shows "get_cnt (add_cnt (ucast (w :: u32)) c) = get_cnt c + uint w"
proof -
  have "get_cnt (add_cnt (ucast w) c) = signed_take_bit 63 (get_cnt c + uint w)"
    by (simp add: get_cnt_def add_cnt_def sint_word_add sint_ucast32)
  also have "\<dots> = get_cnt c + uint w"
  proof (rule signed_take_bit_int_eq_self)
    have "0 \<le> get_cnt c + uint w" using assms(1) by (rule add_nonneg_nonneg) simp
    then show "- (2 ^ 63) \<le> get_cnt c + uint w" by (rule order_trans [rotated]) simp
  qed (rule assms(2))
  finally show ?thesis .
qed

text \<open>A filter that blocks when the bytes sent reach its limit.\<close>

definition blocks_sent :: "filter2 \<Rightarrow> bool" where
  "blocks_sent f \<longleftrightarrow> m_nTrafficLimitAction f = TRAFFICLIMIT_BLOCK \<and> \<not> m_bRevers f \<and> m_nTrafficLimitMb f \<noteq> 0
     \<and> (m_nTrafficLimitType f = TRAFFICLIMIT_SENT \<or> m_nTrafficLimitType f = TRAFFICLIMIT_SENT_OR_RECV)"

lemma limit_denies_sent:
  "blocks_sent f \<Longrightarrow> \<not> limit_denies d f \<Longrightarrow> get_cnt (cnt_sent f) < sint (limit_bytes (mi_mbytes d) f)"
  by (auto simp: blocks_sent_def limit_denies_def is_traffic_limit_exceeded_def counters_reach_def
      get_cnt_def Let_def utm_consts split: if_splits)

lemma accounted_sent:
  assumes "\<not> m_bRevers f" and "0 \<le> get_cnt (cnt_sent f)"
    and "get_cnt (cnt_sent f) + uint (ih_length (mi_ip d)) < 2 ^ 63"
  shows "get_cnt (cnt_sent (accounted d r c f)) =
     get_cnt (cnt_sent f) + (if mi_nModifyCounter d = MODIFY_COUNTER_YES \<and> counts r \<and> c = DIRECTION_FORWARD
                             then uint (ih_length (mi_ip d)) else 0)"
  using assms by (auto simp: accounted_def count_packet_def Let_def add_cnt_exact)

lemma limit_bytes_accounted: "limit_bytes m (accounted d r c f) = limit_bytes m f"
  by (simp add: limit_bytes_def)

lemma blocks_sent_accounted: "blocks_sent (accounted d r c f) = blocks_sent f"
  by (simp add: blocks_sent_def)

lemma match_filter_passed:
  assumes m: "match_filter tmo d f match_result_clear = Some (f1, res)" and b: "blocks_sent f"
    and yes: "mi_nModifyCounter d = MODIFY_COUNTER_YES"
    and pos: "0 \<le> get_cnt (cnt_sent f)" and small: "get_cnt (cnt_sent f) + uint (ih_length (mi_ip d)) < 2 ^ 63"
  shows "blocks_sent f1 \<and> limit_bytes n f1 = limit_bytes n f
    \<and> get_cnt (cnt_sent f) + passed_sent d res \<le> get_cnt (cnt_sent f1)
    \<and> get_cnt (cnt_sent f1) \<le> get_cnt (cnt_sent f) + uint (ih_length (mi_ip d))
    \<and> (passed_sent d res \<noteq> 0 \<longrightarrow> get_cnt (cnt_sent f1) < sint (limit_bytes (mi_mbytes d) f))"
proof -
  have idle: ?thesis if e: "f1 = f" "res = match_result_clear"
  proof -
    have "passed_sent d res = 0" by (simp add: e(2) passed_sent_def match_result_clear_def)
    then show ?thesis using b unfolding e(1) by simp
  qed
  show ?thesis
    using match_filter_cases [OF m]
  proof (elim disjE conjE exE)
    fix k r c res1 ret
    assume h: "first_hit tmo d f (rules f) k r c"
      and o: "on_match d r c (1 + of_nat k) f match_result_clear = (f1, res1, ret)"
      and res: "res = (if \<not> ret \<and> m_bBlocked f1 then res1\<lparr>res_action := ACTION_DENY\<rparr> else res1)"
    note e = on_match_effect [OF o]
    have s: "get_cnt (cnt_sent f1) = get_cnt (cnt_sent f) +
        (if counts r \<and> c = DIRECTION_FORWARD then uint (ih_length (mi_ip d)) else 0)"
      using accounted_sent [OF _ pos small] b yes unfolding e(1) blocks_sent_def by simp
    have bl: "blocks_sent f1" "limit_bytes n f1 = limit_bytes n f" for n
      using b unfolding e(1) by (simp_all add: blocks_sent_accounted limit_bytes_accounted)
    have p: "counts r \<and> c = DIRECTION_FORWARD \<and> \<not> ret \<and> passed_sent d res = uint (ih_length (mi_ip d))"
      if "passed_sent d res \<noteq> 0"
      using that e(3,4) res by (auto simp: passed_sent_def counts_def utm_consts split: if_splits)
    have "get_cnt (cnt_sent f1) < sint (limit_bytes (mi_mbytes d) f)" if pn: "passed_sent d res \<noteq> 0"
    proof -
      have "\<not> limit_denies d f1" using p [OF pn] e(2) yes by (auto simp: over_limit_def)
      then show ?thesis using limit_denies_sent [OF bl(1)] bl(2) by simp
    qed
    moreover have "get_cnt (cnt_sent f) + passed_sent d res \<le> get_cnt (cnt_sent f1)"
      using p by (cases "passed_sent d res = 0") (simp_all add: s)
    ultimately show ?thesis using bl s by (simp split: if_split)
  qed (rule idle, assumption, assumption)+
qed

lemma dir_match_defined:
  assumes "mi_user_conn d \<noteq> None"
  shows "dir_match tmo d f r c \<noteq> None"
proof -
  obtain uc where u: "mi_user_conn d = Some uc" using assms by blast
  have "src_check tmo d r c e \<noteq> None" for e
    unfolding src_check_def Let_def u option.map by (simp split: if_split del: not_None_eq)
  then obtain b1 where b1: "src_check tmo d r c (packet_ends_of (mi_ip d) c) = Some b1" by blast
  have "dst_check tmo d r c e \<noteq> None" for e
    unfolding dst_check_def Let_def u option.map by (simp split: if_split del: not_None_eq)
  then obtain b2 where "dst_check tmo d r c (packet_ends_of (mi_ip d) c) = Some b2" by blast
  with b1 show ?thesis by (auto simp: dir_match_def Let_def)
qed

lemma dir_loop_defined: "mi_user_conn d \<noteq> None \<Longrightarrow> \<exists>c. dir_loop tmo d f r cs = Some c"
proof (induction cs)
  case (Cons c cs)
  obtain b where "dir_match tmo d f r c = Some b" using dir_match_defined [OF Cons.prems] by blast
  moreover obtain c' where "dir_loop tmo d f r cs = Some c'" using Cons by blast
  ultimately show ?case by auto
qed auto

lemma rules_loop_defined:
  "mi_user_conn d \<noteq> None \<Longrightarrow> \<exists>x. rules_loop tmo d rs n f res = Some x"
proof (induction rs arbitrary: n)
  case (Cons r rs)
  obtain c where c: "dir_loop tmo d f r [DIRECTION_FORWARD, DIRECTION_BACKWARD] = Some c"
    using dir_loop_defined [OF Cons.prems] by blast
  obtain g res'' e where o: "on_match d r c n f res = (g, res'', e)" by (cases "on_match d r c n f res")
  show ?case using Cons c o by (simp del: dir_loop.simps) blast
qed (simp, blast)

lemma port_switch_assigns:
  "t = 1 \<or> t = 2 \<or> t = 3 \<or> t = 4 \<or> t = 5 \<or> t = 6 \<or> t = 7 \<Longrightarrow> port_switch t p q x b = port_switch t p q x b'"
  by (elim disjE) (simp_all add: port_switch_def utm_consts)

section \<open>An example\<close>

definition ex_rule :: rule where
  "ex_rule = rule_clear\<lparr>src_type := RULE_MYIP, dst_type := RULE_IP, dst_ip := Addrip_v4 0x0A0000B4,
     dst_mask := Addrip_v4 0xFFFFFFFF\<rparr>"

definition ex_packet :: ip_header where
  "ex_packet = \<lparr>ih_src_mac = [0, 1, 2, 3, 4, 5], ih_dst_mac = [0xFF, 0xFE, 0xFD, 0xFC, 0xFB, 0xFA],
     ih_ip_hl = 5, ih_tcp_hl = 0, ih_version = 4, ih_length = 60, ih_identification = 0,
     ih_src_ip_addr = Addrip_v4 0xC0A80102, ih_dst_ip_addr = Addrip_v4 0x0A0000B4, ih_proto = 1,
     ih_tos = 0, ih_ttl = 0, ih_seq_num = 0, ih_ack_num = 0, ih_flags = 0, ih_window = 0,
     ih_src_port = 0, ih_dst_port = 0, ih_ftpdata_ip = 0, ih_ftpdata_port = 0, ih_ftpdata_mode = 0\<rparr>"

definition ex_input :: match_filter_input where
  "ex_input = \<lparr>mi_bWithNat = False, mi_ip = ex_packet, mi_mat = Some [], mi_host2ip = None,
     mi_user_conn = Some users_new, mi_nModifyCounter = MODIFY_COUNTER_YES, mi_nPrevFilter = 0,
     mi_lt = \<lparr>tm_hour = 12, tm_mday = 30, tm_mon = 4, tm_year = 110, tm_wday = 0\<rparr>,
     mi_dwProcNickIdSrc = 0, mi_dwProcNickIdDst = 0, mi_uidSrc = 0, mi_uidDst = 0, mi_nNicAlias = 0,
     mi_nPacketDirection = 0, mi_nPreCheckAddrTables = CHECKADDR_MYPC_SRC, mi_uptime = ts_clear,
     mi_mbytes = 1048576\<rparr>"

definition ex_match_filter :: filter2 where
  "ex_match_filter = (filter2_new 0 0)\<lparr>m_id := 7, rules := [ex_rule], m_nTrafficLimitMb := 1\<rparr>"

lemmas ex_match_defs = ex_rule_def ex_packet_def ex_input_def ex_match_filter_def rule_clear_def filter2_new_def
  filter_base_clear_def mac_clear_def hostname_clear_def ts_clear_def

lemmas check_defs = dir_match_def src_check_def dst_check_def packet_ends_of_def ports_check_def
  options_check_def condition_check_def time_check_def mac_check_def prevfilter_check_def has_flag_def
  no_backward_def rule_skipped_def

lemma ex_rule_fields:
  "src_type ex_rule = RULE_MYIP" "dst_type ex_rule = RULE_IP" "dst_ip ex_rule = Addrip_v4 0x0A0000B4"
  "dst_mask ex_rule = Addrip_v4 0xFFFFFFFF" "rl_proto ex_rule = 0" "pkt_options ex_rule = 0"
  "condition_type ex_rule = 0" "wday ex_rule = 127" "time_from ex_rule = 0" "time_to ex_rule = 23"
  "cond_mac_type ex_rule = 0" "prevfilter_type ex_rule = 0" "natuse ex_rule = 0" "nicalias ex_rule = 0"
  "rl_action ex_rule = ACTION_COUNT" "rwr_fwd ex_rule = 0" "mirrored ex_rule = DIRECTION_TWOWAY"
  by (simp_all add: ex_rule_def rule_clear_def utm_consts)

lemma ex_filter_fields:
  "m_bDisable ex_match_filter = False" "m_bBlocked ex_match_filter = False" "m_bRevers ex_match_filter = False"
  "rules ex_match_filter = [ex_rule]" "m_id ex_match_filter = 7" "m_nTrafficLimitMb ex_match_filter = 1"
  "m_nTrafficLimitType ex_match_filter = 0" "m_nTrafficLimitAction ex_match_filter = 0"
  "m_nWorkHours ex_match_filter = replicate 7 0xFFFFFFFF" "m_nStartDay ex_match_filter = 20000101"
  "m_nEndDay ex_match_filter = 20991231" "cnt (cnt_sent ex_match_filter) = 0" "cnt (cnt_recv ex_match_filter) = 0"
  by (simp_all add: ex_match_filter_def filter2_new_def filter_base_clear_def filtercnt_new_def cnt_reset_def)

lemma ex_dir_match: "dir_match 0 ex_input f ex_rule DIRECTION_FORWARD = Some True"
  by (simp add: check_defs ex_rule_fields ex_input_def ex_packet_def Let_def utm_consts)

lemma ex_works_now: "works_now (mi_lt ex_input) ex_match_filter = Some True"
  by (simp add: works_now_def ex_filter_fields week_day_of_def current_day_def ex_input_def has_flag_def)

lemma ex_match:
  "\<exists>f' res. match_filter 0 ex_input ex_match_filter match_result_clear = Some (f', res)
     \<and> filter_match_result res \<and> res_direction res = DIRECTION_FORWARD
     \<and> res_action res = ACTION_COUNT \<and> get_cnt (cnt_sent f') = 60"
proof -
  have skip: "\<not> rule_skipped ex_input ex_rule"
    by (simp add: rule_skipped_def ex_rule_fields utm_consts)
  obtain g res ret where o: "on_match ex_input ex_rule DIRECTION_FORWARD 1 ex_match_filter match_result_clear = (g, res, ret)"
    by (cases "on_match ex_input ex_rule DIRECTION_FORWARD 1 ex_match_filter match_result_clear")
  note e = on_match_effect [OF o]
  have g: "g = ex_match_filter\<lparr>cnt_sent := add_cnt 60 (cnt_sent ex_match_filter)\<rparr>"
    unfolding e(1) by (simp add: accounted_def counts_def ex_rule_fields ex_input_def ex_packet_def
        count_packet_def ex_filter_fields utm_consts)
  have ret: "\<not> ret" unfolding e(2) over_limit_def limit_denies_def g
    by (simp add: is_traffic_limit_exceeded_def counters_reach_def limit_bytes_def ex_filter_fields
        add_cnt_def ex_input_def Let_def utm_consts)
  have fb: "DIRECTION_FORWARD \<noteq> DIRECTION_BACKWARD" by (simp add: utm_consts)
  have "match_filter 0 ex_input ex_match_filter match_result_clear = Some (g, res)"
    using ret o fb by (simp add: match_filter_def ex_works_now ex_filter_fields skip ex_dir_match g)
  moreover have "get_cnt (cnt_sent g) = 60" by (simp add: g get_cnt_def add_cnt_def ex_filter_fields)
  moreover have "filter_match_result res" "res_direction res = DIRECTION_FORWARD" "res_action res = ACTION_COUNT"
    using e(3,4) ret by (simp_all add: ex_rule_fields)
  ultimately show ?thesis by blast
qed

section \<open>Properties\<close>

text \<open>
  C1: the first rule decides. If the filter reports a match, some rule of the list hits the packet in
  the reported direction and all rules before it miss; the reported number counts the rules before
  it that were not skipped; the packet gets the action of the rule, or is denied because the
  traffic limit is exceeded or the filter blocks. Without a match the result and the filter are
  untouched, and the filter is disabled, not working at this time, or all its rules miss.
\<close>

theorem match_filter_first_rule:
  assumes "match_filter tmo d f match_result_clear = Some (f', res)"
  shows "(filter_match_result res \<longrightarrow>
            (\<exists>k r. first_hit tmo d f (rules f) k r (res_direction res)
               \<and> rule_no res = 1 + of_nat k
               \<and> is_limit_exceeded res = over_limit d r f'
               \<and> res_action res = (if is_limit_exceeded res \<or> m_bBlocked f then ACTION_DENY else rl_action r)))
       \<and> (\<not> filter_match_result res \<longrightarrow> res = match_result_clear \<and> f' = f
            \<and> (m_bDisable f \<or> works_now (mi_lt d) f = Some False \<or> (\<forall>q \<in> set (rules f). rule_misses tmo d f q)))"
  using match_filter_cases [OF assms]
proof (elim disjE conjE exE)
  fix k r c res1 ret
  assume h: "first_hit tmo d f (rules f) k r c" and o: "on_match d r c (1 + of_nat k) f match_result_clear = (f', res1, ret)"
    and res: "res = (if \<not> ret \<and> m_bBlocked f' then res1\<lparr>res_action := ACTION_DENY\<rparr> else res1)"
  note e = on_match_effect [OF o]
  have "filter_match_result res" "res_direction res = c" "rule_no res = 1 + of_nat k"
    "is_limit_exceeded res = ret" "m_bBlocked f' = m_bBlocked f"
    "res_action res = (if ret \<or> m_bBlocked f then ACTION_DENY else rl_action r)"
    using e res by (auto simp: match_result_clear_def)
  then show ?thesis using h e(2) by auto
qed (auto simp: match_result_clear_def)

theorem match_filter_first_rule_witness:
  "\<exists>k r. first_hit 0 ex_input ex_match_filter (rules ex_match_filter) k r DIRECTION_FORWARD"
proof -
  obtain f' res where m: "match_filter 0 ex_input ex_match_filter match_result_clear = Some (f', res)"
    "filter_match_result res" "res_direction res = DIRECTION_FORWARD" using ex_match by blast
  show ?thesis using match_filter_first_rule [OF m(1)] m(2,3) by auto
qed

text \<open>
  C6: a match changes at most one counter of the filter, and nothing else. The counter changes only
  when a rule that counts hits and the caller asked for counting: the packet's length is added to
  the bytes sent when the rule hits forward and to the bytes received when it hits backward,
  subtracted in both cases when the filter counts down.
\<close>

theorem match_filter_accounting:
  assumes "match_filter tmo d f res = Some (f', res')"
  shows "f' = f \<or> (\<exists>k r c. first_hit tmo d f (rules f) k r c \<and> counts r
     \<and> mi_nModifyCounter d = MODIFY_COUNTER_YES
     \<and> (let len = ucast (ih_length (mi_ip d)) :: i64; v = (if m_bRevers f then - len else len) in
        c = DIRECTION_FORWARD \<and> f' = f\<lparr>cnt_sent := add_cnt v (cnt_sent f)\<rparr>
      \<or> c = DIRECTION_BACKWARD \<and> f' = f\<lparr>cnt_recv := add_cnt v (cnt_recv f)\<rparr>))"
  using match_filter_cases [OF assms]
proof (elim disjE conjE exE)
  fix k r c res1 ret
  assume h: "first_hit tmo d f (rules f) k r c" and o: "on_match d r c (1 + of_nat k) f res = (f', res1, ret)"
  have c: "c = DIRECTION_FORWARD \<or> c = DIRECTION_BACKWARD" using h by (auto simp: first_hit_def rule_hits_def)
  have f': "f' = accounted d r c f" by (rule on_match_effect(1) [OF o])
  show ?thesis
  proof (cases "mi_nModifyCounter d = MODIFY_COUNTER_YES \<and> counts r")
    case True
    then have f'': "f' = count_packet d c f" by (simp add: f' accounted_def)
    have bf: "DIRECTION_BACKWARD \<noteq> DIRECTION_FORWARD" by (simp add: utm_consts)
    have "let len = ucast (ih_length (mi_ip d)) :: i64; v = (if m_bRevers f then - len else len) in
        c = DIRECTION_FORWARD \<and> f' = f\<lparr>cnt_sent := add_cnt v (cnt_sent f)\<rparr>
      \<or> c = DIRECTION_BACKWARD \<and> f' = f\<lparr>cnt_recv := add_cnt v (cnt_recv f)\<rparr>"
      using c
    proof (elim disjE)
      assume c: "c = DIRECTION_FORWARD"
      show "let len = ucast (ih_length (mi_ip d)) :: i64; v = (if m_bRevers f then - len else len) in
          c = DIRECTION_FORWARD \<and> f' = f\<lparr>cnt_sent := add_cnt v (cnt_sent f)\<rparr>
        \<or> c = DIRECTION_BACKWARD \<and> f' = f\<lparr>cnt_recv := add_cnt v (cnt_recv f)\<rparr>"
        unfolding f'' count_packet_def Let_def c if_P [OF refl] by (intro disjI1 conjI refl)
    next
      assume c: "c = DIRECTION_BACKWARD"
      show "let len = ucast (ih_length (mi_ip d)) :: i64; v = (if m_bRevers f then - len else len) in
          c = DIRECTION_FORWARD \<and> f' = f\<lparr>cnt_sent := add_cnt v (cnt_sent f)\<rparr>
        \<or> c = DIRECTION_BACKWARD \<and> f' = f\<lparr>cnt_recv := add_cnt v (cnt_recv f)\<rparr>"
        unfolding f'' count_packet_def Let_def c if_not_P [OF bf] by (intro disjI2 conjI refl)
    qed
    with h True show ?thesis by blast
  next
    case False
    then have "f' = f" unfolding f' accounted_def by (rule if_not_P)
    then show ?thesis ..
  qed
qed (rule disjI1, assumption)+

theorem match_filter_accounting_witness:
  "\<exists>k r c. first_hit 0 ex_input ex_match_filter (rules ex_match_filter) k r c \<and> counts r"
proof -
  obtain f' res where m: "match_filter 0 ex_input ex_match_filter match_result_clear = Some (f', res)"
    "get_cnt (cnt_sent f') = 60" using ex_match by blast
  have "get_cnt (cnt_sent ex_match_filter) = 0" by (simp add: get_cnt_def ex_filter_fields)
  then have "f' \<noteq> ex_match_filter" using m(2) by force
  then show ?thesis using match_filter_accounting [OF m(1)] by blast
qed

text \<open>
  C2: the traffic limit holds over every run of packets. For a filter that blocks when the bytes sent
  reach its limit, the bytes of all packets counted as sent and let through, together with what
  was counted before, stay below the limit; whatever other rules, directions and actions occur.
\<close>

theorem quota_bounds_passed:
  assumes "run_packets tmo ds f = Some (f', rs)" and "blocks_sent f"
    and "\<forall>d \<in> set ds. mi_nModifyCounter d = MODIFY_COUNTER_YES \<and> mi_mbytes d = M"
    and "0 \<le> get_cnt (cnt_sent f)"
    and "get_cnt (cnt_sent f) + sum_list (map (\<lambda>d. uint (ih_length (mi_ip d))) ds) < 2 ^ 63"
  shows "all_passed_sent ds rs = 0
    \<or> get_cnt (cnt_sent f) + all_passed_sent ds rs < sint (limit_bytes M f)"
  using assms
proof (induction ds arbitrary: f rs)
  case (Cons d ds)
  obtain f1 res rest where m: "match_filter tmo d f match_result_clear = Some (f1, res)"
    and r: "run_packets tmo ds f1 = Some (f', rest)" and rs: "rs = res # rest"
    using Cons.prems(1) by (auto simp: match_filter3_def split: bind_splits prod.splits)
  have rest0: "0 \<le> sum_list (map (\<lambda>d. uint (ih_length (mi_ip d))) ds)" by (rule sum_list_nonneg) auto
  have yes: "mi_nModifyCounter d = MODIFY_COUNTER_YES" "mi_mbytes d = M" using Cons.prems(3) by simp_all
  have small: "get_cnt (cnt_sent f) + uint (ih_length (mi_ip d)) < 2 ^ 63"
    using Cons.prems(5) rest0 by simp
  note step = match_filter_passed [OF m Cons.prems(2) yes(1) Cons.prems(4) small]
  have "0 \<le> get_cnt (cnt_sent f1)" using step [of M] passed_sent_nonneg [of d res] Cons.prems(4) by linarith
  moreover have "get_cnt (cnt_sent f1) + sum_list (map (\<lambda>d. uint (ih_length (mi_ip d))) ds) < 2 ^ 63"
    using step [of M] Cons.prems(5) by simp
  ultimately have IH: "all_passed_sent ds rest = 0
    \<or> get_cnt (cnt_sent f1) + all_passed_sent ds rest < sint (limit_bytes M f1)"
    using Cons.IH [OF r] step [of M] Cons.prems(3) by simp
  have "all_passed_sent (d # ds) rs = passed_sent d res + all_passed_sent ds rest"
    by (simp add: all_passed_sent_def rs)
  then show ?case using IH step [of M] yes(2) by auto
qed (simp add: all_passed_sent_def)

theorem quota_bounds_passed_witness:
  "\<exists>f' rs. run_packets 0 [ex_input] ex_match_filter = Some (f', rs)
     \<and> all_passed_sent [ex_input] rs = 60 \<and> all_passed_sent [ex_input] rs < 1048576"
proof -
  obtain f' res where m: "match_filter 0 ex_input ex_match_filter match_result_clear = Some (f', res)"
    "filter_match_result res" "res_direction res = DIRECTION_FORWARD" "res_action res = ACTION_COUNT"
    using ex_match by blast
  then have r: "run_packets 0 [ex_input] ex_match_filter = Some (f', [res])" by (simp add: match_filter3_def)
  have p: "all_passed_sent [ex_input] [res] = 60"
    using m by (simp add: all_passed_sent_def passed_sent_def ex_input_def ex_packet_def)
  have b: "blocks_sent ex_match_filter" by (simp add: blocks_sent_def ex_filter_fields utm_consts)
  have "get_cnt (cnt_sent ex_match_filter) = 0" by (simp add: get_cnt_def ex_filter_fields)
  moreover have "mi_nModifyCounter ex_input = MODIFY_COUNTER_YES" "mi_mbytes ex_input = 1048576"
    "uint (ih_length (mi_ip ex_input)) = 60" by (simp_all add: ex_input_def ex_packet_def)
  moreover have "sint (limit_bytes 1048576 ex_match_filter) = 1048576"
    by (simp add: limit_bytes_def ex_filter_fields)
  ultimately have "all_passed_sent [ex_input] [res] < 1048576"
    using quota_bounds_passed [OF r b, of 1048576] p by simp
  then show ?thesis using r p by blast
qed

text \<open>The options of a rule that the code tests in the forward direction only, taken away.\<close>

definition without_forward_options :: "rule \<Rightarrow> rule" where
  "without_forward_options r = r\<lparr>pkt_options := pkt_options r
     AND NOT (PKTOPT_TCPSYN OR PKTOPT_ICMPECHOREQUEST OR PKTOPT_ICMPTTLEXCEEDED)\<rparr>"

lemma options_check_plain: "options_check d (without_forward_options r) c" "options_check d r DIRECTION_BACKWARD"
proof -
  have "\<not> has_flag (x AND NOT (PKTOPT_TCPSYN OR PKTOPT_ICMPECHOREQUEST OR PKTOPT_ICMPTTLEXCEEDED)) m"
    if "m \<in> {PKTOPT_TCPSYN, PKTOPT_ICMPECHOREQUEST, PKTOPT_ICMPTTLEXCEEDED}" for x m
    using that by (auto simp: has_flag_def bit_eq_iff bit_simps)
  then show "options_check d (without_forward_options r) c"
    by (simp add: options_check_def without_forward_options_def Let_def)
  show "options_check d r DIRECTION_BACKWARD" by (simp add: options_check_def Let_def utm_consts)
qed

lemma without_forward_options_fields:
  "rl_id (without_forward_options r) = rl_id r"
  "mirrored (without_forward_options r) = mirrored r"
  "rl_descr (without_forward_options r) = rl_descr r"
  "rl_action (without_forward_options r) = rl_action r"
  "rwr_fwd (without_forward_options r) = rwr_fwd r"
  "rl_proto (without_forward_options r) = rl_proto r"
  "nicalias (without_forward_options r) = nicalias r"
  "condition_type (without_forward_options r) = condition_type r"
  "condition_limit (without_forward_options r) = condition_limit r"
  "cond_mac_type (without_forward_options r) = cond_mac_type r"
  "cond_mac_data (without_forward_options r) = cond_mac_data r"
  "prevfilter_type (without_forward_options r) = prevfilter_type r"
  "natuse (without_forward_options r) = natuse r"
  "wday (without_forward_options r) = wday r"
  "time_from (without_forward_options r) = time_from r"
  "time_to (without_forward_options r) = time_to r"
  "src_type (without_forward_options r) = src_type r"
  "src_ip (without_forward_options r) = src_ip r"
  "src_mask (without_forward_options r) = src_mask r"
  "src_addr_type (without_forward_options r) = src_addr_type r"
  "src_port_type (without_forward_options r) = src_port_type r"
  "src_port (without_forward_options r) = src_port r"
  "src_port_to (without_forward_options r) = src_port_to r"
  "src_atkey (without_forward_options r) = src_atkey r"
  "src_uid (without_forward_options r) = src_uid r"
  "src_procnick (without_forward_options r) = src_procnick r"
  "src_mac (without_forward_options r) = src_mac r"
  "src_host (without_forward_options r) = src_host r"
  "dst_type (without_forward_options r) = dst_type r"
  "dst_ip (without_forward_options r) = dst_ip r"
  "dst_mask (without_forward_options r) = dst_mask r"
  "dst_addr_type (without_forward_options r) = dst_addr_type r"
  "dst_port_type (without_forward_options r) = dst_port_type r"
  "dst_port (without_forward_options r) = dst_port r"
  "dst_port_to (without_forward_options r) = dst_port_to r"
  "dst_atkey (without_forward_options r) = dst_atkey r"
  "dst_uid (without_forward_options r) = dst_uid r"
  "dst_procnick (without_forward_options r) = dst_procnick r"
  "dst_mac (without_forward_options r) = dst_mac r"
  "dst_host (without_forward_options r) = dst_host r"
  by (simp_all add: without_forward_options_def)

lemma dir_match_options:
  "dir_match tmo d f r c = map_option (\<lambda>m. m \<and> options_check d r c) (dir_match tmo d f (without_forward_options r) c)"
proof -
  let ?r = "without_forward_options r"
  have "src_check tmo d ?r c e = src_check tmo d r c e" "dst_check tmo d ?r c e = dst_check tmo d r c e"
    "ports_check d ?r e = ports_check d r e" "condition_check d ?r f = condition_check d r f"
    "time_check d ?r = time_check d r" "mac_check d ?r e = mac_check d r e"
    "prevfilter_check d ?r = prevfilter_check d r" for e
    by (simp_all only: src_check_def dst_check_def ports_check_def condition_check_def time_check_def mac_check_def
        prevfilter_check_def Let_def without_forward_options_fields)
  then show ?thesis using options_check_plain(1) [of d r c]
    by (auto simp: dir_match_def Let_def intro!: bind_option_cong split: bind_splits)
qed

lemma plain_backward_reversed:
  assumes "\<And>d c. options_check d r c"
  shows "dir_match tmo d f r DIRECTION_BACKWARD = dir_match tmo (reversed_input d) f r DIRECTION_FORWARD
    \<and> dir_match tmo d f r DIRECTION_FORWARD = dir_match tmo (reversed_input d) f r DIRECTION_BACKWARD"
proof -
  let ?d = "reversed_input d"
  have fb: "DIRECTION_BACKWARD \<noteq> DIRECTION_FORWARD" by (simp add: utm_consts)
  have f [simp]: "mi_ip ?d = swap_src_dst (mi_ip d)" "mi_mat ?d = mi_mat d" "mi_host2ip ?d = mi_host2ip d"
    "mi_user_conn ?d = mi_user_conn d" "mi_nPacketDirection ?d = mi_nPacketDirection d"
    "mi_uptime ?d = mi_uptime d" "mi_lt ?d = mi_lt d" "mi_nNicAlias ?d = mi_nNicAlias d"
    "mi_nPrevFilter ?d = mi_nPrevFilter d" "mi_mbytes ?d = mi_mbytes d"
    "mi_dwProcNickIdSrc ?d = mi_dwProcNickIdDst d" "mi_dwProcNickIdDst ?d = mi_dwProcNickIdSrc d"
    "mi_uidSrc ?d = mi_uidDst d" "mi_uidDst ?d = mi_uidSrc d"
    "mi_nPreCheckAddrTables ?d = swap_pre (mi_nPreCheckAddrTables d)"
    by (simp_all add: reversed_input_def)
  have i [simp]: "ih_proto (swap_src_dst h) = ih_proto h" for h by (simp add: swap_src_dst_def)
  have src: "src_check tmo ?d r DIRECTION_FORWARD e = src_check tmo d r DIRECTION_BACKWARD e"
    "src_check tmo ?d r DIRECTION_BACKWARD e = src_check tmo d r DIRECTION_FORWARD e" for e
    by (simp_all only: src_check_def table_of_def Let_def f swap_pre_flags fb if_True if_False refl)
  have dst: "dst_check tmo ?d r DIRECTION_FORWARD e = dst_check tmo d r DIRECTION_BACKWARD e"
    "dst_check tmo ?d r DIRECTION_BACKWARD e = dst_check tmo d r DIRECTION_FORWARD e" for e
    by (simp_all only: dst_check_def table_of_def Let_def f swap_pre_flags fb if_True if_False refl)
  have ports: "ports_check ?d r e = ports_check d r e" for e by (simp add: ports_check_def)
  have opt: "options_check d' r c = True" for d' c using assms by simp
  have rest: "condition_check ?d r f = condition_check d r f" "time_check ?d r = time_check d r"
    "mac_check ?d r e = mac_check d r e" "prevfilter_check ?d r = prevfilter_check d r" for e
    by (simp_all only: condition_check_def time_check_def mac_check_def prevfilter_check_def Let_def f)
  show ?thesis
    unfolding dir_match_def Let_def f packet_ends_swap src dst ports opt rest by (rule conjI refl)+
qed

text \<open>
  C8: matching a rule backward is matching it forward on the reversed packet (addresses, ports,
  hardware addresses, processes, users and address tables exchanged), and the other way round, for
  every rule, but for the options TCPSYN, ICMPECHOREQUEST and ICMPTTLEXCEEDED: the backward pass
  ignores them, so it is the forward pass of the rule without them, and the forward pass is the
  backward pass on the reversed packet and the test of these options.
\<close>

theorem backward_is_forward_reversed:
  "dir_match tmo d f r DIRECTION_BACKWARD
     = dir_match tmo (reversed_input d) f (without_forward_options r) DIRECTION_FORWARD
   \<and> dir_match tmo d f r DIRECTION_FORWARD
     = map_option (\<lambda>m. m \<and> options_check d r DIRECTION_FORWARD) (dir_match tmo (reversed_input d) f r DIRECTION_BACKWARD)"
  using plain_backward_reversed [OF options_check_plain(1), of tmo d f r] dir_match_options [of tmo d f r]
    dir_match_options [of tmo "reversed_input d" f r DIRECTION_BACKWARD] options_check_plain(2)
  by (simp add: option.map_ident)

theorem backward_is_forward_reversed_witness:
  "dir_match 0 (reversed_input ex_input) ex_match_filter ex_rule DIRECTION_BACKWARD = Some True"
  using backward_is_forward_reversed [of 0 ex_input ex_match_filter ex_rule] ex_dir_match
  by (cases "dir_match 0 (reversed_input ex_input) ex_match_filter ex_rule DIRECTION_BACKWARD") auto

text \<open>
  matching is total: with the table of users present, a valid time and the seven words of working
  hours, \<open>match_filter\<close> returns a result for every packet, rule list and counter value.
\<close>

theorem match_filter_defined:
  assumes "mi_user_conn d \<noteq> None" and "0 \<le> tm_hour (mi_lt d)" and "tm_hour (mi_lt d) < 24"
    and "tm_wday (mi_lt d) \<le> 6" and "length (m_nWorkHours f) = 7"
  shows "\<exists>f' res'. match_filter tmo d f res = Some (f', res')"
proof -
  have "nat (week_day_of (mi_lt d)) < 7" unfolding week_day_of_def using assms(4) by (auto simp: nat_less_iff)
  then obtain w where w: "works_now (mi_lt d) f = Some w" using assms(2,3,5) by (simp add: works_now_def)
  obtain g r1 m ret where l: "rules_loop tmo d (rules f) 1 f res = Some (g, r1, m, ret)"
    using rules_loop_defined [OF assms(1)] by (metis prod_cases4)
  show ?thesis using w l by (simp add: match_filter_def split: if_split)
qed

theorem match_filter_defined_witness:
  "\<exists>f' res'. match_filter 0 ex_input ex_match_filter match_result_clear = Some (f', res')"
  by (rule match_filter_defined) (simp_all add: ex_input_def ex_filter_fields)

text \<open>
  a rule that restricts the destination port does not restrict the source port: the second port
  \<open>switch\<close> assigns \<open>is_match\<close> over the result of the first, so the check is the same as with
  \<open>PORT_ANY\<close> for the source.
\<close>

theorem dst_port_hides_src_port:
  assumes "0 < dst_port_type r" and "dst_port_type r \<le> 7"
  shows "ports_check d r e = ports_check d (r\<lparr>src_port_type := PORT_ANY\<rparr>) e"
proof -
  define n where "n = unat (dst_port_type r)"
  have n: "dst_port_type r = of_nat n" "0 < n" "n \<le> 7"
    using assms by (simp_all add: n_def word_less_nat_alt word_le_nat_alt)
  then have "n = 1 \<or> n = 2 \<or> n = 3 \<or> n = 4 \<or> n = 5 \<or> n = 6 \<or> n = 7" by arith
  then have "(of_nat n :: u16) = 1 \<or> (of_nat n :: u16) = 2 \<or> (of_nat n :: u16) = 3 \<or> (of_nat n :: u16) = 4
      \<or> (of_nat n :: u16) = 5 \<or> (of_nat n :: u16) = 6 \<or> (of_nat n :: u16) = 7" by (elim disjE) simp_all
  then have e: "port_switch (dst_port_type r) p q x b = port_switch (dst_port_type r) p q x b'" for p q x b b'
    unfolding n(1) by (rule port_switch_assigns)
  let ?r = "r\<lparr>src_port_type := PORT_ANY\<rparr>"
  have u: "rl_proto ?r = rl_proto r" "dst_port_type ?r = dst_port_type r" "dst_port ?r = dst_port r"
    "dst_port_to ?r = dst_port_to r" by simp_all
  show ?thesis unfolding ports_check_def u by (intro if_cong refl e)
qed

theorem dst_port_hides_src_port_witness:
  "let r = ex_rule\<lparr>rl_proto := 6, src_port_type := PORT_EQUAL, src_port := 80, dst_port_type := PORT_EQUAL, dst_port := 443\<rparr>;
       d = ex_input\<lparr>mi_ip := ex_packet\<lparr>ih_proto := 6, ih_src_port := 12345, ih_dst_port := 443\<rparr>\<rparr>
   in ports_check d r (packet_ends_of (mi_ip d) DIRECTION_FORWARD)"
proof -
  let ?r = "ex_rule\<lparr>rl_proto := 6, src_port_type := PORT_EQUAL, src_port := 80, dst_port_type := PORT_EQUAL, dst_port := 443\<rparr>"
  have "0 < dst_port_type ?r" "dst_port_type ?r \<le> 7" by (simp_all add: utm_consts)
  note e = dst_port_hides_src_port [OF this]
  show ?thesis unfolding Let_def e by (simp add: ports_check_def packet_ends_of_def port_switch_def utm_consts)
qed

text \<open>
  \<open>RULE_OUTGOING\<close> as a source accepts exactly the packets that \<open>RULE_OUTGOING\<close> as a destination
  rejects: the source case tests \<open>!=\<close> where the destination case tests \<open>==\<close>.
\<close>

theorem outgoing_source_inverted:
  assumes "src_type r = RULE_OUTGOING" and "dst_type r' = RULE_OUTGOING"
  shows "src_check tmo d r c e = map_option Not (dst_check tmo d r' c e)
    \<and> dst_check tmo d r' c e = Some (mi_nPacketDirection d = PACKET_DIRECTION_OUTGOING)"
  using assms by (simp add: src_check_def dst_check_def Let_def utm_consts)

theorem outgoing_source_inverted_witness:
  "src_check 0 (ex_input\<lparr>mi_nPacketDirection := PACKET_DIRECTION_OUTGOING\<rparr>) (ex_rule\<lparr>src_type := RULE_OUTGOING\<rparr>)
     DIRECTION_FORWARD (packet_ends_of ex_packet DIRECTION_FORWARD) = Some False"
  using outgoing_source_inverted [of "ex_rule\<lparr>src_type := RULE_OUTGOING\<rparr>" "ex_rule\<lparr>dst_type := RULE_OUTGOING\<rparr>" 0
      "ex_input\<lparr>mi_nPacketDirection := PACKET_DIRECTION_OUTGOING\<rparr>"] by simp

text \<open>
  \<open>PORT_NOTBETWEEN\<close> is not the negation of \<open>PORT_BETWEEN\<close>: every port satisfies one of the two,
  and the two ports that bound the interval satisfy both.
\<close>

theorem port_between_overlap:
  assumes "p \<le> p_to"
  shows "(port_switch PORT_BETWEEN p p_to x b \<and> port_switch PORT_NOTBETWEEN p p_to x b) = (x = p \<or> x = p_to)
    \<and> (port_switch PORT_BETWEEN p p_to x b \<or> port_switch PORT_NOTBETWEEN p p_to x b)"
  using assms by (auto simp: port_switch_def utm_consts)

theorem port_between_overlap_witness:
  "port_switch PORT_BETWEEN 10 20 20 True \<and> port_switch PORT_NOTBETWEEN 10 20 20 True"
  using port_between_overlap [of 10 20 20 True] by simp

text \<open>
  the option for ICMP echo requests tests one bit of the type: it accepts a packet exactly when
  bit 3 of the ICMP type is set, so type 8 but also type 11 (time exceeded), 13, 15 and others.
\<close>

theorem echo_option_tests_one_bit:
  assumes "ih_proto (mi_ip d) = 1" and "pkt_options r = PKTOPT_ICMPECHOREQUEST"
    and "ih_flags (mi_ip d) = push_bit 8 (ucast (icmp_type :: u8)) OR ucast (code :: u8)"
  shows "options_check d r DIRECTION_FORWARD = bit icmp_type 3"
proof -
  have m: "((w :: u16) AND h = h) = bit w 11" if h: "\<And>n. bit h n = (n = 11)" for w h
  proof
    assume "w AND h = h"
    then have "bit (w AND h) 11" using h [of 11] by simp
    then show "bit w 11" by (simp add: bit_and_iff)
  next
    assume "bit w 11"
    then show "w AND h = h" by (intro bit_word_eqI) (auto simp: bit_and_iff h)
  qed
  have "bit ((2 :: u16) ^ 11) n = (n = 11)" for n by (simp only: bit_exp_iff possible_bit_word) auto
  then have "bit (0x0800 :: u16) n = (n = 11)" for n by simp
  then have "((w :: u16) AND 0x0800 = 0x0800) = bit w 11" for w by (rule m)
  moreover have "bit (push_bit 8 (ucast icmp_type) OR ucast code :: u16) 11 = bit icmp_type 3"
  proof -
    have "\<not> bit code 11" using bit_imp_le_length [of code 11] by auto
    then show ?thesis by (simp add: bit_or_iff bit_push_bit_iff bit_ucast_iff)
  qed
  ultimately show ?thesis using assms by (simp add: options_check_def Let_def has_flag_def utm_consts)
qed

theorem echo_option_tests_one_bit_witness:
  "options_check (ex_input\<lparr>mi_ip := ex_packet\<lparr>ih_flags := 0x0B00\<rparr>\<rparr>)
     (ex_rule\<lparr>pkt_options := PKTOPT_ICMPECHOREQUEST\<rparr>) DIRECTION_FORWARD"
  using echo_option_tests_one_bit [of "ex_input\<lparr>mi_ip := ex_packet\<lparr>ih_flags := 0x0B00\<rparr>\<rparr>"
      "ex_rule\<lparr>pkt_options := PKTOPT_ICMPECHOREQUEST\<rparr>" 11 0]
  by (simp add: ex_packet_def)

end
