(* ===== verification/Xml.thy ===== *)
theory Xml
  imports AddrMac AddrIp "HOL-Library.Monad_Syntax"
begin

text \<open>
  \<open>utm/ubase.{h,cpp}\<close> and \<open>utm/fastformat.{h,cpp}\<close>: the base class of everything the program
  stores as XML. A document of pugixml is the tree \<open>xml\<close>; what a class derived from \<open>ubase\<close>
  overrides is the record \<open>xml_class\<close>. A handler returns \<open>None\<close> where the code throws or is
  undefined. The locale \<open>xml_element\<close> states what a class promises: reading what it wrote gives
  the object back; a list of such objects, written as children of its owner, then reads back too.
\<close>

section \<open>Numbers\<close>

fun skip_blanks :: "string \<Rightarrow> string" where
  "skip_blanks (c # cs) = (if c = CHR '' '' then skip_blanks cs else c # cs)"
| "skip_blanks [] = []"

text \<open>The digit loop of \<open>parse_signed\<close> and \<open>parse_unsigned\<close>, in the arithmetic of the type \<open>T\<close>.\<close>

fun parse_digits :: "string \<Rightarrow> 'a::len word \<Rightarrow> 'a word" where
  "parse_digits [] res = res"
| "parse_digits (c # cs) res =
     (if is_digit c then parse_digits cs (res * 10 + of_nat (digit_val c)) else res)"

definition parse_unsigned :: "string \<Rightarrow> 'a::len word" where
  "parse_unsigned p = parse_digits (skip_blanks p) 0"

definition parse_signed :: "string \<Rightarrow> 'a::len word" where
  "parse_signed p =
     (let q = skip_blanks p in
      if q \<noteq> [] \<and> hd q = CHR ''-'' then - parse_digits (tl q) 0 else parse_digits q 0)"

text \<open>\<open>oss << value\<close> for the integer types.\<close>

definition out_unsigned :: "'a::len word \<Rightarrow> string" where "out_unsigned v = print_u (unat v)"

definition out_signed :: "'a::len word \<Rightarrow> string" where
  "out_signed v = (if sint v < 0 then CHR ''-'' # print_u (nat (- sint v)) else print_u (nat (sint v)))"

section \<open>Trees\<close>

datatype xml =
    Elem (elem_name: string) (elem_attrs: "(string \<times> string) list") (elem_children: "xml list")
  | Pcdata string

definition is_pcdata :: "xml \<Rightarrow> bool" where "is_pcdata n = (case n of Pcdata s \<Rightarrow> True | _ \<Rightarrow> False)"

definition node_name :: "xml \<Rightarrow> string" where "node_name n = (case n of Elem k _ _ \<Rightarrow> k | Pcdata _ \<Rightarrow> [])"
definition node_attrs :: "xml \<Rightarrow> (string \<times> string) list" where
  "node_attrs n = (case n of Elem _ as _ \<Rightarrow> as | Pcdata _ \<Rightarrow> [])"
definition node_children :: "xml \<Rightarrow> xml list" where
  "node_children n = (case n of Elem _ _ cs \<Rightarrow> cs | Pcdata _ \<Rightarrow> [])"

text \<open>\<open>node.text().get()\<close>: the node itself or its first text child.\<close>

definition node_text :: "xml \<Rightarrow> string" where
  "node_text n = (case n of
      Pcdata s \<Rightarrow> s
    | Elem _ _ cs \<Rightarrow> (case find is_pcdata cs of Some (Pcdata s) \<Rightarrow> s | _ \<Rightarrow> []))"

section \<open>Writing\<close>

text \<open>
  \<open>xml_append_data\<close> adds an element with one text child to the root; the text is a C string. The
  overloads of \<open>xml_append_node\<close> differ in the text of the value; with a default, nothing is
  added for a value equal to it.
\<close>

definition c_str :: "string \<Rightarrow> string" where "c_str s = takeWhile (\<lambda>c. c \<noteq> CHR 0x00) s"

definition xml_append_data :: "string \<Rightarrow> string \<Rightarrow> xml list" where
  "xml_append_data keyname v = [Elem keyname [] [Pcdata (c_str v)]]"

definition xml_append_value :: "string \<Rightarrow> ('a \<Rightarrow> string) \<Rightarrow> 'a \<Rightarrow> 'a \<Rightarrow> xml list" where
  "xml_append_value keyname txt v default_value =
     (if v = default_value then [] else xml_append_data keyname (txt v))"

definition xml_append_mac :: "string \<Rightarrow> addrmac \<Rightarrow> addrmac \<Rightarrow> xml list" where
  "xml_append_mac keyname v default_value =
     (if mac_equal v default_value then [] else xml_append_data keyname (mac_to_string v))"

definition bool_text :: "bool \<Rightarrow> string" where "bool_text b = (if b then ''1'' else ''0'')"

definition xml_append_strings :: "string \<Rightarrow> string list \<Rightarrow> xml list" where
  "xml_append_strings keyname vs = concat (map (xml_append_data keyname) vs)"

section \<open>Reading\<close>

record 'a xml_class =
  xc_clear :: "'a \<Rightarrow> 'a"
  xc_create :: "'a \<Rightarrow> xml"
  xc_value :: "string \<Rightarrow> string \<Rightarrow> 'a \<Rightarrow> 'a option"
  xc_subnode :: "string \<Rightarrow> xml \<Rightarrow> 'a \<Rightarrow> 'a option"

text \<open>
  The field \<open>xc_subnode\<close> is what \<open>xml_catch_subnode\<close>, the parsing of the object it returns and
  \<open>xml_catch_subnode_finished\<close> do together.
\<close>

fun xml_parse_allnodes :: "('a, 'b) xml_class_scheme \<Rightarrow> xml list \<Rightarrow> 'a \<Rightarrow> 'a option" where
  "xml_parse_allnodes c [] x = Some x"
| "xml_parse_allnodes c (n # ns) x =
     do { x' \<leftarrow> (if node_text n = [] then xc_subnode c (node_name n) n x
                else xc_value c (node_name n) (node_text n) x);
          xml_parse_allnodes c ns x' }"

definition xml_parse_node :: "('a, 'b) xml_class_scheme \<Rightarrow> xml \<Rightarrow> bool \<Rightarrow> 'a \<Rightarrow> 'a option" where
  "xml_parse_node c n appendmode x =
     xml_parse_allnodes c (node_children n) (if appendmode then x else xc_clear c x)"

text \<open>
  \<open>xml_parse\<close> of a text. \<open>load\<close> is the parser of pugixml: the first node of the document, or
  \<open>None\<close>. \<open>rootattr\<close> is the override of \<open>xml_catch_rootnode_attribute\<close>.
\<close>

definition xml_parse ::
  "(string \<Rightarrow> xml option) \<Rightarrow> (string \<Rightarrow> string \<Rightarrow> 'a \<Rightarrow> 'a) \<Rightarrow> ('a, 'b) xml_class_scheme \<Rightarrow> string \<Rightarrow> bool
     \<Rightarrow> 'a \<Rightarrow> (bool \<times> 'a) option"
where
  "xml_parse load rootattr c txt appendmode x =
     (let x0 = (if appendmode then x else xc_clear c x) in
      case load txt of
        None \<Rightarrow> Some (False, x0)
      | Some root \<Rightarrow> map_option (Pair True)
          (xml_parse_allnodes c (node_children root)
            (fold (\<lambda>(k, v) y. rootattr k v y) (node_attrs root) x0)))"

text \<open>The overloads of \<open>xml_check_value\<close> store the value of their type.\<close>

definition read_bool :: "string \<Rightarrow> bool" where "read_bool v \<longleftrightarrow> v = ''1''"
definition read_ip :: "string \<Rightarrow> addrip_v4" where "read_ip v = snd (ip_from_string (Some v) False)"
definition read_mac :: "string \<Rightarrow> addrmac option" where
  "read_mac v = (case mac_from_string (Some v) of Inl _ \<Rightarrow> None | Inr (_, m) \<Rightarrow> Some m)"

section \<open>Numbers read back\<close>

lemma parse_digits_atoi: "parse_digits s (of_nat a) = of_nat (atoi s a)"
proof (induction s arbitrary: a)
  case (Cons c s)
  show ?case using Cons.IH [of "10 * a + digit_val c"] by (simp add: mult.commute)
qed simp

lemma skip_blanks_print_u: "skip_blanks (print_u n) = print_u n"
proof -
  obtain c cs where p: "print_u n = c # cs" using print_u_not_Nil [of n] by (cases "print_u n") auto
  have "is_digit c" using print_u_digits [of n] by (simp add: p)
  then have "c \<noteq> CHR '' ''" by (auto simp: is_digit_def)
  then show ?thesis by (simp add: p)
qed

lemma print_u_hd: "hd (print_u n) \<noteq> CHR ''-''"
proof -
  have "is_digit (hd (print_u n))"
    using print_u_digits [of n] print_u_not_Nil [of n] by (cases "print_u n") auto
  then show ?thesis by (auto simp: is_digit_def)
qed

lemma parse_digits_print: "parse_digits (print_u n) 0 = of_nat n"
  using parse_digits_atoi [of "print_u n" 0] by (simp add: atoi_print_u)

lemma parse_out_unsigned [simp]: "parse_unsigned (out_unsigned v) = v"
  by (simp add: parse_unsigned_def out_unsigned_def skip_blanks_print_u parse_digits_print)

lemma parse_out_signed [simp]: "parse_signed (out_signed v) = v"
proof (cases "sint v < 0")
  case True
  have "(of_nat (nat (- sint v)) :: 'a word) = - v" using True by (simp add: of_nat_nat)
  then show ?thesis using True
    by (simp add: parse_signed_def out_signed_def skip_blanks_print_u parse_digits_print)
next
  case False
  have "(of_nat (nat (sint v)) :: 'a word) = v" using False by (simp add: of_nat_nat)
  then show ?thesis using False
    by (simp add: parse_signed_def out_signed_def skip_blanks_print_u parse_digits_print print_u_hd
        print_u_not_Nil Let_def)
qed

lemma read_bool_text [simp]: "read_bool (bool_text b) = b"
  by (simp add: read_bool_def bool_text_def)

lemma read_ip_text [simp]: "read_ip (ip_to_string a) = a"
  by (simp add: read_ip_def ip_from_to_string)

section \<open>Texts without a terminator\<close>

definition xml_text :: "string \<Rightarrow> bool" where "xml_text s \<longleftrightarrow> s \<noteq> [] \<and> CHR 0x00 \<notin> set s"

lemma c_str_text: "CHR 0x00 \<notin> set s \<Longrightarrow> c_str s = s"
  unfolding c_str_def by (auto simp: takeWhile_eq_all_conv)

lemma digits_no_nul: "list_all is_digit s \<Longrightarrow> CHR 0x00 \<notin> set s"
  by (auto simp: list_all_iff is_digit_def dest!: bspec)

lemma print_u_text: "xml_text (print_u n)"
  using digits_no_nul [OF print_u_digits] by (simp add: xml_text_def print_u_not_Nil)

lemma out_text [simp]: "xml_text (out_unsigned v)" "xml_text (out_signed v)" "xml_text (bool_text b)"
  using print_u_text by (auto simp: out_unsigned_def out_signed_def xml_text_def bool_text_def)

lemma nibble_text: "CHR 0x00 \<notin> set (byte_hex b)"
proof -
  have "\<forall>n \<in> {..<16}. nibble_values ! n \<noteq> CHR 0x00"
    by (simp add: nibble_values_def lessThan_nat_numeral lessThan_Suc numeral_eq_Suc)
  then have n: "n < 16 \<Longrightarrow> nibble_values ! n \<noteq> CHR 0x00" for n by simp
  have "unat b mod 16 < 16" by simp
  then show ?thesis
    using n [of "unat b div 16"] n [of "unat b mod 16"] byte_nibbles(1-3) [of b]
    by (auto simp: byte_hex_def get_first_nibble_def get_second_nibble_def)
qed

lemma mac_text [simp]: "mac_wf m \<Longrightarrow> xml_text (mac_to_string m)"
proof -
  assume "mac_wf m"
  then have ne: "mac_content m \<noteq> []" by (auto simp: mac_wf_def MAX_ETHER_LENGTH_def)
  have "CHR 0x00 \<notin> set (bytes_hex '':'' bs)" for bs
    by (induction "'':''" bs rule: bytes_hex.induct) (use nibble_text in auto)
  moreover have "bs \<noteq> [] \<Longrightarrow> bytes_hex '':'' bs \<noteq> []" for bs
    by (cases bs rule: remdups_adj.cases) (auto simp: byte_hex_def)
  ultimately show ?thesis using ne by (simp add: xml_text_def mac_to_string_def)
qed

lemma ip_text [simp]: "xml_text (ip_to_string a)"
  using print_u_text by (auto simp: xml_text_def ip_to_string_def to_strbuffer_def)

section \<open>Segments of a written object\<close>

lemma parse_allnodes_append:
  "xml_parse_allnodes c (ms @ ns) x = do { y \<leftarrow> xml_parse_allnodes c ms x; xml_parse_allnodes c ns y }"
  by (induction ms arbitrary: x) (auto split: Option.bind_splits)

lemma allnodes_Nil: "xml_parse_allnodes c [] = Some"
  by (rule ext) simp

lemma parse_data:
  "xml_text t \<Longrightarrow> xml_parse_allnodes c (xml_append_data k t) x = xc_value c k t x"
  by (simp add: xml_append_data_def node_text_def node_name_def is_pcdata_def xml_text_def c_str_text allnodes_Nil)

lemma parse_empty_data:
  "xml_parse_allnodes c (xml_append_data k []) x = xc_subnode c k (Elem k [] [Pcdata []]) x"
  by (simp add: xml_append_data_def node_text_def node_name_def is_pcdata_def c_str_def allnodes_Nil)

lemma parse_value_if:
  assumes "v \<noteq> d \<Longrightarrow> xml_text (txt v)"
  shows "xml_parse_allnodes c (xml_append_value k txt v d) x = (if v = d then Some x else xc_value c k (txt v) x)"
  using assms by (simp add: xml_append_value_def parse_data)

lemma parse_text_if:
  assumes "CHR 0x00 \<notin> set t"
  shows "xml_parse_allnodes c (xml_append_value k id t []) x = (if t = [] then Some x else xc_value c k t x)"
  using parse_value_if [of t "[]" id c k x] assms by (simp add: xml_text_def)

lemma parse_mac_if:
  assumes "mac_wf v"
  shows "xml_parse_allnodes c (xml_append_mac k v d) x =
    (if v = d then Some x else xc_value c k (mac_to_string v) x)"
  using assms by (auto simp: xml_append_mac_def mac_equal_def parse_data addrmac.equality)

lemma read_mac_text [simp]: "mac_wf m \<Longrightarrow> read_mac (mac_to_string m) = Some m"
  by (simp add: read_mac_def mac_from_to_string)

text \<open>A written object has no text of its own.\<close>

lemma find_pcdata:
  "find is_pcdata (xml_append_data k t) = None" "find is_pcdata (xml_append_value k txt v d) = None"
  "find is_pcdata (xml_append_mac k m m') = None"
  by (simp_all add: xml_append_value_def xml_append_mac_def xml_append_data_def is_pcdata_def)

section \<open>Objects inside objects\<close>

text \<open>\<open>xml_append_node\<close> of a \<open>std::list<T>\<close>: the roots of the elements become children.\<close>

definition xml_append_list :: "('a, 'b) xml_class_scheme \<Rightarrow> 'a list \<Rightarrow> xml list" where
  "xml_append_list c xs = map (xc_create c) xs"

lemma named_not_pcdata: "node_name n \<noteq> [] \<Longrightarrow> \<not> is_pcdata n"
  by (cases n) (simp_all add: is_pcdata_def node_name_def)

lemma find_pcdata_list:
  "(\<And>x. node_name (xc_create c x) \<noteq> []) \<Longrightarrow> find is_pcdata (xml_append_list c xs) = None"
  by (induction xs) (simp_all add: xml_append_list_def named_not_pcdata)

text \<open>
  The list classes (\<open>filterlist\<close>, \<open>userlist\<close>, \<open>urlfilterlist\<close>, \<open>monitor_range_list\<close>,
  \<open>addrtablemaplist\<close>) differ in their tags: a node with the tag of an element appends a new
  element, which is parsed in place.
\<close>

definition xml_list_class :: "string \<Rightarrow> string \<Rightarrow> ('a, 'b) xml_class_scheme \<Rightarrow> 'a \<Rightarrow> 'a list xml_class" where
  "xml_list_class root tag c new = \<lparr>xc_clear = (\<lambda>xs. []),
     xc_create = (\<lambda>xs. Elem root [] (xml_append_list c xs)),
     xc_value = (\<lambda>k v xs. Some xs),
     xc_subnode = (\<lambda>k n xs. if k = tag then map_option (\<lambda>x. xs @ [x]) (xml_parse_node c n False new)
                           else Some xs)\<rparr>"

locale xml_element =
  fixes c :: "('a, 'b) xml_class_scheme" and tag :: string and ok :: "'a \<Rightarrow> bool"
  assumes create_name: "node_name (xc_create c x) = tag"
    and create_text: "node_text (xc_create c x) = []"
    and create_parse: "ok x \<Longrightarrow> xml_parse_node c (xc_create c x) False y = Some x"
begin

lemma parse_list:
  assumes "\<And>n z. xc_subnode d tag n z = map_option (\<lambda>x. app x z) (xml_parse_node c n False new)"
    and "list_all ok xs"
  shows "xml_parse_allnodes d (xml_append_list c xs) z = Some (fold app xs z)"
  using assms(2)
  by (induction xs arbitrary: z)
    (simp_all add: xml_append_list_def create_name create_text create_parse assms(1))

lemma list_class_parse:
  assumes "list_all ok xs"
  shows "xml_parse_node (xml_list_class root tag c new) (xc_create (xml_list_class root tag c new) xs) False y = Some xs"
proof -
  have "xml_parse_allnodes (xml_list_class root tag c new) (xml_append_list c xs) zs = Some (zs @ xs)" for zs
    using assms
    by (induction xs arbitrary: zs)
      (simp_all add: xml_append_list_def create_name create_text create_parse xml_list_class_def)
  from this [of "[]"] show ?thesis
    by (simp add: xml_parse_node_def xml_list_class_def node_children_def)
qed

end

end
