(* ===== verification/FilterXml.thy ===== *)
theory FilterXml
  imports Xml TrafficFilter
begin

text \<open>
  The XML form of the rules and filters: \<open>xml_create\<close>, \<open>xml_catch_value\<close> and
  \<open>xml_catch_subnode\<close> of \<open>corefilters/rule_base.cpp\<close>, \<open>filter_base.cpp\<close> and \<open>filter_.cpp\<close>. One
  segment of a written object is the list of nodes one \<open>xml_append_node\<close> adds; the lemmas
  \<open>rule_segments\<close> and \<open>filter_segments\<close> say what reading back a segment does to its member.
\<close>

section \<open>Rules\<close>

definition rule_nodes :: "rule \<Rightarrow> xml list" where
  "rule_nodes r =
     (let orig = rule_clear in
       xml_append_value ''Id'' out_unsigned (rl_id r) (rl_id orig)
     @ xml_append_value ''Mirrored'' out_unsigned (mirrored r) (mirrored orig)
     @ xml_append_value ''Description'' id (rl_descr r) (rl_descr orig)
     @ xml_append_value ''Action'' out_signed (rl_action r) (rl_action orig)
     @ xml_append_value ''Rwr_fwd'' out_unsigned (rwr_fwd r) (rwr_fwd orig)
     @ xml_append_value ''Proto'' out_signed (rl_proto r) (rl_proto orig)
     @ xml_append_value ''ViaNic'' out_unsigned (nicalias r) (nicalias orig)
     @ xml_append_value ''TcpOptions'' out_unsigned (pkt_options r) (pkt_options orig)
     @ xml_append_value ''ConditionType'' out_unsigned (condition_type r) (condition_type orig)
     @ xml_append_value ''ConditionLimit'' out_unsigned (condition_limit r) (condition_limit orig)
     @ xml_append_value ''ConditionMacType'' out_unsigned (cond_mac_type r) (cond_mac_type orig)
     @ xml_append_mac ''ConditionMacData'' (cond_mac_data r) (cond_mac_data orig)
     @ xml_append_value ''PrevFilterType'' out_signed (prevfilter_type r) (prevfilter_type orig)
     @ xml_append_value ''Nat'' out_signed (natuse r) (natuse orig)
     @ xml_append_value ''Wday'' out_unsigned (wday r) (wday orig)
     @ xml_append_value ''TimeFrom'' out_unsigned (time_from r) (time_from orig)
     @ xml_append_value ''TimeTo'' out_unsigned (time_to r) (time_to orig)
     @ xml_append_value ''SrcType'' out_signed (src_type r) (src_type orig)
     @ xml_append_value ''SrcIp'' ip_to_string (src_ip r) (src_ip orig)
     @ xml_append_value ''SrcMask'' ip_to_string (src_mask r) (src_mask orig)
     @ xml_append_value ''SrcAddrType'' out_unsigned (src_addr_type r) (src_addr_type orig)
     @ xml_append_value ''SrcPortType'' out_unsigned (src_port_type r) (src_port_type orig)
     @ xml_append_value ''SrcPort'' out_unsigned (src_port r) (src_port orig)
     @ xml_append_value ''SrcPortTo'' out_unsigned (src_port_to r) (src_port_to orig)
     @ xml_append_value ''SrcAtKey'' out_unsigned (src_atkey r) (src_atkey orig)
     @ xml_append_value ''SrcUid'' out_unsigned (src_uid r) (src_uid orig)
     @ xml_append_value ''SrcProcNick'' out_unsigned (src_procnick r) (src_procnick orig)
     @ xml_append_mac ''SrcMac'' (src_mac r) (src_mac orig)
     @ xml_append_data ''SrcHost'' (get_src_host_str r)
     @ xml_append_value ''DstType'' out_signed (dst_type r) (dst_type orig)
     @ xml_append_value ''DstIp'' ip_to_string (dst_ip r) (dst_ip orig)
     @ xml_append_value ''DstMask'' ip_to_string (dst_mask r) (dst_mask orig)
     @ xml_append_value ''DstAddrType'' out_unsigned (dst_addr_type r) (dst_addr_type orig)
     @ xml_append_value ''DstPortType'' out_unsigned (dst_port_type r) (dst_port_type orig)
     @ xml_append_value ''DstPort'' out_unsigned (dst_port r) (dst_port orig)
     @ xml_append_value ''DstPortTo'' out_unsigned (dst_port_to r) (dst_port_to orig)
     @ xml_append_value ''DstAtKey'' out_unsigned (dst_atkey r) (dst_atkey orig)
     @ xml_append_value ''DstUid'' out_unsigned (dst_uid r) (dst_uid orig)
     @ xml_append_value ''DstProcNick'' out_unsigned (dst_procnick r) (dst_procnick orig)
     @ xml_append_mac ''DstMac'' (dst_mac r) (dst_mac orig)
     @ xml_append_data ''DstHost'' (get_dst_host_str r))"

text \<open>\<open>RULE_XMLTAG_RULE\<close>; rules have no attributes.\<close>

definition rule_xml_create :: "rule \<Rightarrow> xml" where "rule_xml_create r = Elem ''RuleNT'' [] (rule_nodes r)"

definition rule_xml_catch_value :: "string \<Rightarrow> string \<Rightarrow> rule \<Rightarrow> rule option" where
  "rule_xml_catch_value keyname v r =
     (if keyname = ''Id'' then Some (r\<lparr>rl_id := parse_unsigned v\<rparr>)
      else if keyname = ''Mirrored'' then Some (r\<lparr>mirrored := parse_unsigned v\<rparr>)
      else if keyname = ''Description'' then Some (r\<lparr>rl_descr := v\<rparr>)
      else if keyname = ''Action'' then Some (r\<lparr>rl_action := parse_signed v\<rparr>)
      else if keyname = ''Rwr_fwd'' then Some (r\<lparr>rwr_fwd := parse_unsigned v\<rparr>)
      else if keyname = ''Proto'' then Some (r\<lparr>rl_proto := parse_signed v\<rparr>)
      else if keyname = ''ViaNic'' then Some (r\<lparr>nicalias := parse_unsigned v\<rparr>)
      else if keyname = ''TcpOptions'' then Some (r\<lparr>pkt_options := parse_unsigned v\<rparr>)
      else if keyname = ''ConditionType'' then Some (r\<lparr>condition_type := parse_unsigned v\<rparr>)
      else if keyname = ''ConditionLimit'' then Some (r\<lparr>condition_limit := parse_unsigned v\<rparr>)
      else if keyname = ''ConditionMacType'' then Some (r\<lparr>cond_mac_type := parse_unsigned v\<rparr>)
      else if keyname = ''ConditionMacData'' then map_option (\<lambda>m. r\<lparr>cond_mac_data := m\<rparr>) (read_mac v)
      else if keyname = ''PrevFilterType'' then Some (r\<lparr>prevfilter_type := parse_signed v\<rparr>)
      else if keyname = ''Nat'' then Some (r\<lparr>natuse := parse_signed v\<rparr>)
      else if keyname = ''Wday'' then Some (r\<lparr>wday := parse_unsigned v\<rparr>)
      else if keyname = ''TimeFrom'' then Some (r\<lparr>time_from := parse_unsigned v\<rparr>)
      else if keyname = ''TimeTo'' then Some (r\<lparr>time_to := parse_unsigned v\<rparr>)
      else if keyname = ''SrcType'' then Some (r\<lparr>src_type := parse_signed v\<rparr>)
      else if keyname = ''SrcIp'' then Some (r\<lparr>src_ip := read_ip v\<rparr>)
      else if keyname = ''SrcMask'' then Some (r\<lparr>src_mask := read_ip v\<rparr>)
      else if keyname = ''SrcAddrType'' then Some (r\<lparr>src_addr_type := parse_unsigned v\<rparr>)
      else if keyname = ''SrcPortType'' then Some (r\<lparr>src_port_type := parse_unsigned v\<rparr>)
      else if keyname = ''SrcPort'' then Some (r\<lparr>src_port := parse_unsigned v\<rparr>)
      else if keyname = ''SrcPortTo'' then Some (r\<lparr>src_port_to := parse_unsigned v\<rparr>)
      else if keyname = ''SrcAtKey'' then Some (r\<lparr>src_atkey := parse_unsigned v\<rparr>)
      else if keyname = ''SrcUid'' then Some (r\<lparr>src_uid := parse_unsigned v\<rparr>)
      else if keyname = ''SrcProcNick'' then Some (r\<lparr>src_procnick := parse_unsigned v\<rparr>)
      else if keyname = ''SrcMac'' then map_option (\<lambda>m. r\<lparr>src_mac := m\<rparr>) (read_mac v)
      else if keyname = ''SrcHost'' then Some (parse_src_host_string (Some v) r)
      else if keyname = ''DstType'' then Some (r\<lparr>dst_type := parse_signed v\<rparr>)
      else if keyname = ''DstIp'' then Some (r\<lparr>dst_ip := read_ip v\<rparr>)
      else if keyname = ''DstMask'' then Some (r\<lparr>dst_mask := read_ip v\<rparr>)
      else if keyname = ''DstAddrType'' then Some (r\<lparr>dst_addr_type := parse_unsigned v\<rparr>)
      else if keyname = ''DstPortType'' then Some (r\<lparr>dst_port_type := parse_unsigned v\<rparr>)
      else if keyname = ''DstPort'' then Some (r\<lparr>dst_port := parse_unsigned v\<rparr>)
      else if keyname = ''DstPortTo'' then Some (r\<lparr>dst_port_to := parse_unsigned v\<rparr>)
      else if keyname = ''DstAtKey'' then Some (r\<lparr>dst_atkey := parse_unsigned v\<rparr>)
      else if keyname = ''DstUid'' then Some (r\<lparr>dst_uid := parse_unsigned v\<rparr>)
      else if keyname = ''DstProcNick'' then Some (r\<lparr>dst_procnick := parse_unsigned v\<rparr>)
      else if keyname = ''DstMac'' then map_option (\<lambda>m. r\<lparr>dst_mac := m\<rparr>) (read_mac v)
      else if keyname = ''DstHost'' then Some (parse_dst_host_string (Some v) r)
      else Some r)"

text \<open>\<open>xml_catch_subnode\<close> of a rule returns \<open>NULL\<close>.\<close>

definition rule_xml :: "rule xml_class" where
  "rule_xml = \<lparr>xc_clear = (\<lambda>r. rule_clear), xc_create = rule_xml_create, xc_value = rule_xml_catch_value,
     xc_subnode = (\<lambda>k n r. Some r)\<rparr>"

lemma rule_segments:
  "rl_id rule_clear = rl_id s \<Longrightarrow> xml_parse_allnodes rule_xml (xml_append_value ''Id'' out_unsigned u (rl_id rule_clear)) s = Some (s\<lparr>rl_id := u\<rparr>)"
  "mirrored rule_clear = mirrored s \<Longrightarrow> xml_parse_allnodes rule_xml (xml_append_value ''Mirrored'' out_unsigned h (mirrored rule_clear)) s = Some (s\<lparr>mirrored := h\<rparr>)"
  "rl_descr s = [] \<Longrightarrow> CHR 0x00 \<notin> set t \<Longrightarrow> xml_parse_allnodes rule_xml (xml_append_value ''Description'' id t []) s = Some (s\<lparr>rl_descr := t\<rparr>)"
  "rl_action rule_clear = rl_action s \<Longrightarrow> xml_parse_allnodes rule_xml (xml_append_value ''Action'' out_signed i (rl_action rule_clear)) s = Some (s\<lparr>rl_action := i\<rparr>)"
  "rwr_fwd rule_clear = rwr_fwd s \<Longrightarrow> xml_parse_allnodes rule_xml (xml_append_value ''Rwr_fwd'' out_unsigned h (rwr_fwd rule_clear)) s = Some (s\<lparr>rwr_fwd := h\<rparr>)"
  "rl_proto rule_clear = rl_proto s \<Longrightarrow> xml_parse_allnodes rule_xml (xml_append_value ''Proto'' out_signed i (rl_proto rule_clear)) s = Some (s\<lparr>rl_proto := i\<rparr>)"
  "nicalias rule_clear = nicalias s \<Longrightarrow> xml_parse_allnodes rule_xml (xml_append_value ''ViaNic'' out_unsigned u (nicalias rule_clear)) s = Some (s\<lparr>nicalias := u\<rparr>)"
  "pkt_options rule_clear = pkt_options s \<Longrightarrow> xml_parse_allnodes rule_xml (xml_append_value ''TcpOptions'' out_unsigned u (pkt_options rule_clear)) s = Some (s\<lparr>pkt_options := u\<rparr>)"
  "condition_type rule_clear = condition_type s \<Longrightarrow> xml_parse_allnodes rule_xml (xml_append_value ''ConditionType'' out_unsigned u (condition_type rule_clear)) s = Some (s\<lparr>condition_type := u\<rparr>)"
  "condition_limit rule_clear = condition_limit s \<Longrightarrow> xml_parse_allnodes rule_xml (xml_append_value ''ConditionLimit'' out_unsigned u (condition_limit rule_clear)) s = Some (s\<lparr>condition_limit := u\<rparr>)"
  "cond_mac_type rule_clear = cond_mac_type s \<Longrightarrow> xml_parse_allnodes rule_xml (xml_append_value ''ConditionMacType'' out_unsigned u (cond_mac_type rule_clear)) s = Some (s\<lparr>cond_mac_type := u\<rparr>)"
  "cond_mac_data rule_clear = cond_mac_data s \<Longrightarrow> mac_wf m \<Longrightarrow> xml_parse_allnodes rule_xml (xml_append_mac ''ConditionMacData'' m (cond_mac_data rule_clear)) s = Some (s\<lparr>cond_mac_data := m\<rparr>)"
  "prevfilter_type rule_clear = prevfilter_type s \<Longrightarrow> xml_parse_allnodes rule_xml (xml_append_value ''PrevFilterType'' out_signed i (prevfilter_type rule_clear)) s = Some (s\<lparr>prevfilter_type := i\<rparr>)"
  "natuse rule_clear = natuse s \<Longrightarrow> xml_parse_allnodes rule_xml (xml_append_value ''Nat'' out_signed i (natuse rule_clear)) s = Some (s\<lparr>natuse := i\<rparr>)"
  "wday rule_clear = wday s \<Longrightarrow> xml_parse_allnodes rule_xml (xml_append_value ''Wday'' out_unsigned u (wday rule_clear)) s = Some (s\<lparr>wday := u\<rparr>)"
  "time_from rule_clear = time_from s \<Longrightarrow> xml_parse_allnodes rule_xml (xml_append_value ''TimeFrom'' out_unsigned h (time_from rule_clear)) s = Some (s\<lparr>time_from := h\<rparr>)"
  "time_to rule_clear = time_to s \<Longrightarrow> xml_parse_allnodes rule_xml (xml_append_value ''TimeTo'' out_unsigned h (time_to rule_clear)) s = Some (s\<lparr>time_to := h\<rparr>)"
  "src_type rule_clear = src_type s \<Longrightarrow> xml_parse_allnodes rule_xml (xml_append_value ''SrcType'' out_signed i (src_type rule_clear)) s = Some (s\<lparr>src_type := i\<rparr>)"
  "src_ip rule_clear = src_ip s \<Longrightarrow> xml_parse_allnodes rule_xml (xml_append_value ''SrcIp'' ip_to_string a (src_ip rule_clear)) s = Some (s\<lparr>src_ip := a\<rparr>)"
  "src_mask rule_clear = src_mask s \<Longrightarrow> xml_parse_allnodes rule_xml (xml_append_value ''SrcMask'' ip_to_string a (src_mask rule_clear)) s = Some (s\<lparr>src_mask := a\<rparr>)"
  "src_addr_type rule_clear = src_addr_type s \<Longrightarrow> xml_parse_allnodes rule_xml (xml_append_value ''SrcAddrType'' out_unsigned h (src_addr_type rule_clear)) s = Some (s\<lparr>src_addr_type := h\<rparr>)"
  "src_port_type rule_clear = src_port_type s \<Longrightarrow> xml_parse_allnodes rule_xml (xml_append_value ''SrcPortType'' out_unsigned h (src_port_type rule_clear)) s = Some (s\<lparr>src_port_type := h\<rparr>)"
  "src_port rule_clear = src_port s \<Longrightarrow> xml_parse_allnodes rule_xml (xml_append_value ''SrcPort'' out_unsigned h (src_port rule_clear)) s = Some (s\<lparr>src_port := h\<rparr>)"
  "src_port_to rule_clear = src_port_to s \<Longrightarrow> xml_parse_allnodes rule_xml (xml_append_value ''SrcPortTo'' out_unsigned h (src_port_to rule_clear)) s = Some (s\<lparr>src_port_to := h\<rparr>)"
  "src_atkey rule_clear = src_atkey s \<Longrightarrow> xml_parse_allnodes rule_xml (xml_append_value ''SrcAtKey'' out_unsigned u (src_atkey rule_clear)) s = Some (s\<lparr>src_atkey := u\<rparr>)"
  "src_uid rule_clear = src_uid s \<Longrightarrow> xml_parse_allnodes rule_xml (xml_append_value ''SrcUid'' out_unsigned u (src_uid rule_clear)) s = Some (s\<lparr>src_uid := u\<rparr>)"
  "src_procnick rule_clear = src_procnick s \<Longrightarrow> xml_parse_allnodes rule_xml (xml_append_value ''SrcProcNick'' out_unsigned u (src_procnick rule_clear)) s = Some (s\<lparr>src_procnick := u\<rparr>)"
  "src_mac rule_clear = src_mac s \<Longrightarrow> mac_wf m \<Longrightarrow> xml_parse_allnodes rule_xml (xml_append_mac ''SrcMac'' m (src_mac rule_clear)) s = Some (s\<lparr>src_mac := m\<rparr>)"
  "dst_type rule_clear = dst_type s \<Longrightarrow> xml_parse_allnodes rule_xml (xml_append_value ''DstType'' out_signed i (dst_type rule_clear)) s = Some (s\<lparr>dst_type := i\<rparr>)"
  "dst_ip rule_clear = dst_ip s \<Longrightarrow> xml_parse_allnodes rule_xml (xml_append_value ''DstIp'' ip_to_string a (dst_ip rule_clear)) s = Some (s\<lparr>dst_ip := a\<rparr>)"
  "dst_mask rule_clear = dst_mask s \<Longrightarrow> xml_parse_allnodes rule_xml (xml_append_value ''DstMask'' ip_to_string a (dst_mask rule_clear)) s = Some (s\<lparr>dst_mask := a\<rparr>)"
  "dst_addr_type rule_clear = dst_addr_type s \<Longrightarrow> xml_parse_allnodes rule_xml (xml_append_value ''DstAddrType'' out_unsigned h (dst_addr_type rule_clear)) s = Some (s\<lparr>dst_addr_type := h\<rparr>)"
  "dst_port_type rule_clear = dst_port_type s \<Longrightarrow> xml_parse_allnodes rule_xml (xml_append_value ''DstPortType'' out_unsigned h (dst_port_type rule_clear)) s = Some (s\<lparr>dst_port_type := h\<rparr>)"
  "dst_port rule_clear = dst_port s \<Longrightarrow> xml_parse_allnodes rule_xml (xml_append_value ''DstPort'' out_unsigned h (dst_port rule_clear)) s = Some (s\<lparr>dst_port := h\<rparr>)"
  "dst_port_to rule_clear = dst_port_to s \<Longrightarrow> xml_parse_allnodes rule_xml (xml_append_value ''DstPortTo'' out_unsigned h (dst_port_to rule_clear)) s = Some (s\<lparr>dst_port_to := h\<rparr>)"
  "dst_atkey rule_clear = dst_atkey s \<Longrightarrow> xml_parse_allnodes rule_xml (xml_append_value ''DstAtKey'' out_unsigned u (dst_atkey rule_clear)) s = Some (s\<lparr>dst_atkey := u\<rparr>)"
  "dst_uid rule_clear = dst_uid s \<Longrightarrow> xml_parse_allnodes rule_xml (xml_append_value ''DstUid'' out_unsigned u (dst_uid rule_clear)) s = Some (s\<lparr>dst_uid := u\<rparr>)"
  "dst_procnick rule_clear = dst_procnick s \<Longrightarrow> xml_parse_allnodes rule_xml (xml_append_value ''DstProcNick'' out_unsigned u (dst_procnick rule_clear)) s = Some (s\<lparr>dst_procnick := u\<rparr>)"
  "dst_mac rule_clear = dst_mac s \<Longrightarrow> mac_wf m \<Longrightarrow> xml_parse_allnodes rule_xml (xml_append_mac ''DstMac'' m (dst_mac rule_clear)) s = Some (s\<lparr>dst_mac := m\<rparr>)"
  by (simp_all add: parse_value_if parse_mac_if parse_text_if rule_xml_def rule_xml_catch_value_def)

text \<open>
  The texts of the object are C strings, and the hashes of its hosts are those \<open>set_host\<close> stores.
\<close>

definition host_ok :: "hostname \<Rightarrow> bool" where
  "host_ok h \<longleftrightarrow> CHR 0x00 \<notin> set (hs_host h)
     \<and> (if hs_host h = [] then h = hostname_clear else set_host (Some (hs_host h)) = h)"

definition rule_xml_ok :: "rule \<Rightarrow> bool" where
  "rule_xml_ok r \<longleftrightarrow> CHR 0x00 \<notin> set (rl_descr r) \<and> mac_wf (cond_mac_data r) \<and> mac_wf (src_mac r)
     \<and> mac_wf (dst_mac r) \<and> host_ok (src_host r) \<and> host_ok (dst_host r)"

lemma rule_host_segments:
  assumes "host_ok h"
  shows "src_host s = hostname_clear \<Longrightarrow>
      xml_parse_allnodes rule_xml (xml_append_data ''SrcHost'' (hs_host h)) s = Some (s\<lparr>src_host := h\<rparr>)"
    and "dst_host s = hostname_clear \<Longrightarrow>
      xml_parse_allnodes rule_xml (xml_append_data ''DstHost'' (hs_host h)) s = Some (s\<lparr>dst_host := h\<rparr>)"
proof -
  have "xml_parse_allnodes rule_xml (xml_append_data ''SrcHost'' (hs_host h)) s
      = Some (if hs_host h = [] then s else s\<lparr>src_host := h\<rparr>)"
    "xml_parse_allnodes rule_xml (xml_append_data ''DstHost'' (hs_host h)) s
      = Some (if hs_host h = [] then s else s\<lparr>dst_host := h\<rparr>)"
    using assms by (simp_all add: parse_empty_data parse_data xml_text_def host_ok_def rule_xml_def rule_xml_catch_value_def
        parse_src_host_string_def parse_dst_host_string_def)
  moreover have "hs_host h = [] \<Longrightarrow> h = hostname_clear" using assms by (simp add: host_ok_def)
  ultimately show
    "src_host s = hostname_clear \<Longrightarrow>
      xml_parse_allnodes rule_xml (xml_append_data ''SrcHost'' (hs_host h)) s = Some (s\<lparr>src_host := h\<rparr>)"
    "dst_host s = hostname_clear \<Longrightarrow>
      xml_parse_allnodes rule_xml (xml_append_data ''DstHost'' (hs_host h)) s = Some (s\<lparr>dst_host := h\<rparr>)"
    by auto
qed

lemma rule_clear_strings:
  "rl_descr rule_clear = []" "src_host rule_clear = hostname_clear" "dst_host rule_clear = hostname_clear"
  by (simp_all add: rule_clear_def)

lemma rule_nodes_parse:
  assumes "rule_xml_ok r"
  shows "xml_parse_allnodes rule_xml (rule_nodes r) rule_clear = Some r"
  using assms unfolding rule_xml_ok_def rule_nodes_def Let_def
  by (simp add: parse_allnodes_append rule_segments rule_host_segments rule_clear_strings get_src_host_str_def
      get_dst_host_str_def)

section \<open>Rules as elements\<close>

interpretation rule_elem: xml_element rule_xml "''RuleNT''" rule_xml_ok
proof
  show "node_name (xc_create rule_xml r) = ''RuleNT''" for r
    by (simp add: rule_xml_def rule_xml_create_def node_name_def)
  show "node_text (xc_create rule_xml r) = []" for r
    by (simp add: rule_xml_def rule_xml_create_def node_text_def rule_nodes_def Let_def find_append find_pcdata)
  show "xml_parse_node rule_xml (xc_create rule_xml r) False y = Some r" if "rule_xml_ok r" for r y
    using rule_nodes_parse [OF that]
    by (simp add: rule_xml_def rule_xml_create_def xml_parse_node_def node_children_def)
qed

section \<open>Filters\<close>

text \<open>
  \<open>orig\<close> is a default constructed \<open>filter_base\<close>; its members are those of a cleared object.
  \<open>get_workhours_str\<close> and \<open>parse_workhours_string\<close> are the overrides of \<open>filter\<close>,
  \<open>parse_rule_string\<close> does nothing.
\<close>

definition filter_nodes :: "filter2 \<Rightarrow> xml list" where
  "filter_nodes f =
     (let orig = filter_base_clear f in
       xml_append_value ''Id'' out_signed (m_id f) (m_id orig)
     @ xml_append_value ''Name'' id (m_szFilterName f) (m_szFilterName orig)
     @ xml_append_value ''Color'' out_unsigned (m_color f) (m_color orig)
     @ xml_append_value ''Revers'' bool_text (m_bRevers f) (m_bRevers orig)
     @ xml_append_value ''Blocked'' bool_text (m_bBlocked f) (m_bBlocked orig)
     @ xml_append_value ''Disable'' bool_text (m_bDisable f) (m_bDisable orig)
     @ xml_append_value ''ParseVpn'' bool_text (m_bVpn f) (m_bVpn orig)
     @ xml_append_value ''ExcludeCnt'' bool_text (m_bExcludeCntReports f) (m_bExcludeCntReports orig)
     @ xml_append_value ''ExcludeUrlFiltering'' bool_text (m_bExcludeUrlFiltering f) (m_bExcludeUrlFiltering orig)
     @ xml_append_value ''ResetCnt'' out_signed (m_nResetCnt f) (m_nResetCnt orig)
     @ xml_append_data ''WorkHours'' (get_workhours_str f)
     @ xml_append_value ''StartDay'' out_unsigned (m_nStartDay f) (m_nStartDay orig)
     @ xml_append_value ''EndDay'' out_unsigned (m_nEndDay f) (m_nEndDay orig)
     @ xml_append_value ''Email'' id (m_szEmail f) (m_szEmail orig)
     @ xml_append_value ''Comment'' id (m_szComment f) (m_szComment orig)
     @ xml_append_value ''RewriteMask'' out_signed (m_nRewMask f) (m_nRewMask orig)
     @ xml_append_value ''RewriteSrcIp'' ip_to_string (m_dwRewSrcIp f) (m_dwRewSrcIp orig)
     @ xml_append_value ''RewriteDstIp'' ip_to_string (m_dwRewDstIp f) (m_dwRewDstIp orig)
     @ xml_append_value ''RewriteSrcPort'' out_unsigned (m_wRewSrcPort f) (m_wRewSrcPort orig)
     @ xml_append_value ''RewriteDstPort'' out_unsigned (m_wRewDstPort f) (m_wRewDstPort orig)
     @ xml_append_list rule_xml (rules f)
     @ xml_append_value ''TrafficLimitMb'' out_signed (m_nTrafficLimitMb f) (m_nTrafficLimitMb orig)
     @ xml_append_value ''TrafficLimitType'' out_signed (m_nTrafficLimitType f) (m_nTrafficLimitType orig)
     @ xml_append_value ''TrafficLimitAction'' out_signed (m_nTrafficLimitAction f) (m_nTrafficLimitAction orig)
     @ xml_append_value ''TrafficLimitWarnLevel'' out_unsigned (m_wTrafficLimitWarnLevel f) (m_wTrafficLimitWarnLevel orig)
     @ xml_append_value ''TrafficLimitFlags'' out_unsigned (m_wTrafficLimitFlags f) (m_wTrafficLimitFlags orig)
     @ xml_append_value ''PackLogDest'' out_signed (m_nPktLogDest f) (m_nPktLogDest orig)
     @ xml_append_value ''PackLogOpt'' out_signed (m_nPktLogOpt f) (m_nPktLogOpt orig)
     @ xml_append_value ''PackLogFilenameTemplate'' id (m_szPktLogFilename f) (m_szPktLogFilename orig)
     @ xml_append_value ''PackLogDbTable'' id (m_szPktLogTable f) (m_szPktLogTable orig)
     @ xml_append_value ''PackLogSQLSyntax'' out_signed (m_nPktLogSqlSyntax f) (m_nPktLogSqlSyntax orig)
     @ xml_append_value ''PackLogMaxColSize'' out_signed (m_nPktLogMaxColSize f) (m_nPktLogMaxColSize orig)
     @ xml_append_value ''PackLogAlertColUsage'' out_signed (m_nPktLogAlertColUsage f) (m_nPktLogAlertColUsage orig)
     @ xml_append_value ''HhLogDest'' out_signed (m_nHhLogDest f) (m_nHhLogDest orig)
     @ xml_append_value ''HhLogFilenameTemplate'' id (m_szHhLogFilename f) (m_szHhLogFilename orig)
     @ xml_append_value ''HhLogDbTable'' id (m_szHhLogTable f) (m_szHhLogTable orig)
     @ xml_append_value ''Master'' out_signed (m_nMaster f) (m_nMaster orig)
     @ xml_append_value ''SpeedKiloBytes'' out_signed (m_nSpeed f) (m_nSpeed orig)
     @ xml_append_value ''SpeedKiloBytes2'' out_signed (m_nSpeed2 f) (m_nSpeed2 orig)
     @ xml_append_value ''SpeedMaster'' out_signed (m_nSpeedMaster f) (m_nSpeedMaster orig)
     @ xml_append_value ''MasterFid'' out_signed (m_nMasterFilterId f) (m_nMasterFilterId orig)
     @ xml_append_value ''MasterLevel'' out_signed (m_nMasterLevelSpeed f) (m_nMasterLevelSpeed orig)
     @ xml_append_value ''MasterOpt'' out_signed (m_nMasterOptions f) (m_nMasterOptions orig))"

definition filter_xml_create :: "filter2 \<Rightarrow> xml" where "filter_xml_create f = Elem ''Filter'' [] (filter_nodes f)"

definition filter_xml_catch_value :: "string \<Rightarrow> string \<Rightarrow> filter2 \<Rightarrow> filter2 option" where
  "filter_xml_catch_value keyname v f =
     (if keyname = ''Id'' then Some (f\<lparr>m_id := parse_signed v\<rparr>)
      else if keyname = ''Name'' then Some (f\<lparr>m_szFilterName := v\<rparr>)
      else if keyname = ''Color'' then Some (f\<lparr>m_color := parse_unsigned v\<rparr>)
      else if keyname = ''Revers'' then Some (f\<lparr>m_bRevers := read_bool v\<rparr>)
      else if keyname = ''Blocked'' then Some (f\<lparr>m_bBlocked := read_bool v\<rparr>)
      else if keyname = ''Disable'' then Some (f\<lparr>m_bDisable := read_bool v\<rparr>)
      else if keyname = ''ParseVpn'' then Some (f\<lparr>m_bVpn := read_bool v\<rparr>)
      else if keyname = ''ExcludeCnt'' then Some (f\<lparr>m_bExcludeCntReports := read_bool v\<rparr>)
      else if keyname = ''ExcludeUrlFiltering'' then Some (f\<lparr>m_bExcludeUrlFiltering := read_bool v\<rparr>)
      else if keyname = ''ResetCnt'' then Some (f\<lparr>m_nResetCnt := parse_signed v\<rparr>)
      else if keyname = ''WorkHours'' then parse_workhours_string (Some v) f
      else if keyname = ''StartDay'' then Some (f\<lparr>m_nStartDay := parse_unsigned v\<rparr>)
      else if keyname = ''EndDay'' then Some (f\<lparr>m_nEndDay := parse_unsigned v\<rparr>)
      else if keyname = ''Email'' then Some (f\<lparr>m_szEmail := v\<rparr>)
      else if keyname = ''Comment'' then Some (f\<lparr>m_szComment := v\<rparr>)
      else if keyname = ''RewriteMask'' then Some (f\<lparr>m_nRewMask := parse_signed v\<rparr>)
      else if keyname = ''RewriteSrcIp'' then Some (f\<lparr>m_dwRewSrcIp := read_ip v\<rparr>)
      else if keyname = ''RewriteDstIp'' then Some (f\<lparr>m_dwRewDstIp := read_ip v\<rparr>)
      else if keyname = ''RewriteSrcPort'' then Some (f\<lparr>m_wRewSrcPort := parse_unsigned v\<rparr>)
      else if keyname = ''RewriteDstPort'' then Some (f\<lparr>m_wRewDstPort := parse_unsigned v\<rparr>)
      else if keyname = ''RuleNT'' then Some f
      else if keyname = ''TrafficLimitMb'' then Some (f\<lparr>m_nTrafficLimitMb := parse_signed v\<rparr>)
      else if keyname = ''TrafficLimitType'' then Some (f\<lparr>m_nTrafficLimitType := parse_signed v\<rparr>)
      else if keyname = ''TrafficLimitAction'' then Some (f\<lparr>m_nTrafficLimitAction := parse_signed v\<rparr>)
      else if keyname = ''TrafficLimitWarnLevel'' then Some (f\<lparr>m_wTrafficLimitWarnLevel := parse_unsigned v\<rparr>)
      else if keyname = ''TrafficLimitFlags'' then Some (f\<lparr>m_wTrafficLimitFlags := parse_unsigned v\<rparr>)
      else if keyname = ''PackLogDest'' then Some (f\<lparr>m_nPktLogDest := parse_signed v\<rparr>)
      else if keyname = ''PackLogOpt'' then Some (f\<lparr>m_nPktLogOpt := parse_signed v\<rparr>)
      else if keyname = ''PackLogFilenameTemplate'' then Some (f\<lparr>m_szPktLogFilename := v\<rparr>)
      else if keyname = ''PackLogDbTable'' then Some (f\<lparr>m_szPktLogTable := v\<rparr>)
      else if keyname = ''PackLogSQLSyntax'' then Some (f\<lparr>m_nPktLogSqlSyntax := parse_signed v\<rparr>)
      else if keyname = ''PackLogMaxColSize'' then Some (f\<lparr>m_nPktLogMaxColSize := parse_signed v\<rparr>)
      else if keyname = ''PackLogAlertColUsage'' then Some (f\<lparr>m_nPktLogAlertColUsage := parse_signed v\<rparr>)
      else if keyname = ''HhLogDest'' then Some (f\<lparr>m_nHhLogDest := parse_signed v\<rparr>)
      else if keyname = ''HhLogFilenameTemplate'' then Some (f\<lparr>m_szHhLogFilename := v\<rparr>)
      else if keyname = ''HhLogDbTable'' then Some (f\<lparr>m_szHhLogTable := v\<rparr>)
      else if keyname = ''Master'' then Some (f\<lparr>m_nMaster := parse_signed v\<rparr>)
      else if keyname = ''SpeedKiloBytes'' then Some (f\<lparr>m_nSpeed := parse_signed v\<rparr>)
      else if keyname = ''SpeedKiloBytes2'' then Some (f\<lparr>m_nSpeed2 := parse_signed v\<rparr>)
      else if keyname = ''SpeedMaster'' then Some (f\<lparr>m_nSpeedMaster := parse_signed v\<rparr>)
      else if keyname = ''MasterFid'' then Some (f\<lparr>m_nMasterFilterId := parse_signed v\<rparr>)
      else if keyname = ''MasterLevel'' then Some (f\<lparr>m_nMasterLevelSpeed := parse_signed v\<rparr>)
      else if keyname = ''MasterOpt'' then Some (f\<lparr>m_nMasterOptions := parse_signed v\<rparr>)
      else Some f)"

text \<open>The node of a rule is parsed into the rule \<open>xml_catch_subnode\<close> has just appended.\<close>

definition filter_xml_subnode :: "string \<Rightarrow> xml \<Rightarrow> filter2 \<Rightarrow> filter2 option" where
  "filter_xml_subnode keyname n f =
     (case filter_catch_subnode keyname f of (f', caught) \<Rightarrow>
        if caught
        then map_option (\<lambda>r. f'\<lparr>rules := butlast (rules f') @ [r]\<rparr>)
               (xml_parse_node rule_xml n False (last (rules f')))
        else Some f')"

text \<open>\<open>filter::clear(bool)\<close> does not override the virtual \<open>clear()\<close> that \<open>xml_parse\<close> calls.\<close>

definition filter_xml :: "filter2 xml_class" where
  "filter_xml = \<lparr>xc_clear = filter_base_clear, xc_create = filter_xml_create, xc_value = filter_xml_catch_value,
     xc_subnode = filter_xml_subnode\<rparr>"

lemma filter_defaults:
  "m_id (filter_base_clear f) = 0"
  "m_szFilterName (filter_base_clear f) = []"
  "m_color (filter_base_clear f) = 255"
  "m_bRevers (filter_base_clear f) = False"
  "m_bBlocked (filter_base_clear f) = False"
  "m_bDisable (filter_base_clear f) = False"
  "m_bVpn (filter_base_clear f) = False"
  "m_bExcludeCntReports (filter_base_clear f) = False"
  "m_bExcludeUrlFiltering (filter_base_clear f) = False"
  "m_nResetCnt (filter_base_clear f) = RESETCNT_MONTHLY"
  "m_nWorkHours (filter_base_clear f) = replicate 7 0xFFFFFFFF"
  "m_nStartDay (filter_base_clear f) = 20000101"
  "m_nEndDay (filter_base_clear f) = 20991231"
  "m_szEmail (filter_base_clear f) = []"
  "m_szComment (filter_base_clear f) = []"
  "m_nRewMask (filter_base_clear f) = 0"
  "m_dwRewSrcIp (filter_base_clear f) = Addrip_v4 0"
  "m_dwRewDstIp (filter_base_clear f) = Addrip_v4 0"
  "m_wRewSrcPort (filter_base_clear f) = 0"
  "m_wRewDstPort (filter_base_clear f) = 0"
  "rules (filter_base_clear f) = []"
  "m_nTrafficLimitMb (filter_base_clear f) = 0"
  "m_nTrafficLimitType (filter_base_clear f) = 0"
  "m_nTrafficLimitAction (filter_base_clear f) = 0"
  "m_wTrafficLimitWarnLevel (filter_base_clear f) = 80"
  "m_wTrafficLimitFlags (filter_base_clear f) = 0"
  "m_nPktLogDest (filter_base_clear f) = LOGPKT_DISABLED"
  "m_nPktLogOpt (filter_base_clear f) = 0"
  "m_szPktLogFilename (filter_base_clear f) = []"
  "m_szPktLogTable (filter_base_clear f) = []"
  "m_nPktLogSqlSyntax (filter_base_clear f) = LOGPKT_SQLADDR_CHAR"
  "m_nPktLogMaxColSize (filter_base_clear f) = LOGPKT_MAXCOLSIZE"
  "m_nPktLogAlertColUsage (filter_base_clear f) = 100"
  "m_nHhLogDest (filter_base_clear f) = LOGHH_DISABLED"
  "m_szHhLogFilename (filter_base_clear f) = []"
  "m_szHhLogTable (filter_base_clear f) = []"
  "m_nMaster (filter_base_clear f) = 0"
  "m_nSpeed (filter_base_clear f) = 0"
  "m_nSpeed2 (filter_base_clear f) = 0"
  "m_nSpeedMaster (filter_base_clear f) = 0"
  "m_nMasterFilterId (filter_base_clear f) = 0"
  "m_nMasterLevelSpeed (filter_base_clear f) = 0"
  "m_nMasterOptions (filter_base_clear f) = 0"
  by (simp_all add: filter_base_clear_def)

lemma filter_segments:
  "di = m_id s \<Longrightarrow> xml_parse_allnodes filter_xml (xml_append_value ''Id'' out_signed i di) s = Some (s\<lparr>m_id := i\<rparr>)"
  "m_szFilterName s = [] \<Longrightarrow> CHR 0x00 \<notin> set t \<Longrightarrow> xml_parse_allnodes filter_xml (xml_append_value ''Name'' id t []) s = Some (s\<lparr>m_szFilterName := t\<rparr>)"
  "du = m_color s \<Longrightarrow> xml_parse_allnodes filter_xml (xml_append_value ''Color'' out_unsigned u du) s = Some (s\<lparr>m_color := u\<rparr>)"
  "db = m_bRevers s \<Longrightarrow> xml_parse_allnodes filter_xml (xml_append_value ''Revers'' bool_text b db) s = Some (s\<lparr>m_bRevers := b\<rparr>)"
  "db = m_bBlocked s \<Longrightarrow> xml_parse_allnodes filter_xml (xml_append_value ''Blocked'' bool_text b db) s = Some (s\<lparr>m_bBlocked := b\<rparr>)"
  "db = m_bDisable s \<Longrightarrow> xml_parse_allnodes filter_xml (xml_append_value ''Disable'' bool_text b db) s = Some (s\<lparr>m_bDisable := b\<rparr>)"
  "db = m_bVpn s \<Longrightarrow> xml_parse_allnodes filter_xml (xml_append_value ''ParseVpn'' bool_text b db) s = Some (s\<lparr>m_bVpn := b\<rparr>)"
  "db = m_bExcludeCntReports s \<Longrightarrow> xml_parse_allnodes filter_xml (xml_append_value ''ExcludeCnt'' bool_text b db) s = Some (s\<lparr>m_bExcludeCntReports := b\<rparr>)"
  "db = m_bExcludeUrlFiltering s \<Longrightarrow> xml_parse_allnodes filter_xml (xml_append_value ''ExcludeUrlFiltering'' bool_text b db) s = Some (s\<lparr>m_bExcludeUrlFiltering := b\<rparr>)"
  "di = m_nResetCnt s \<Longrightarrow> xml_parse_allnodes filter_xml (xml_append_value ''ResetCnt'' out_signed i di) s = Some (s\<lparr>m_nResetCnt := i\<rparr>)"
  "du = m_nStartDay s \<Longrightarrow> xml_parse_allnodes filter_xml (xml_append_value ''StartDay'' out_unsigned u du) s = Some (s\<lparr>m_nStartDay := u\<rparr>)"
  "du = m_nEndDay s \<Longrightarrow> xml_parse_allnodes filter_xml (xml_append_value ''EndDay'' out_unsigned u du) s = Some (s\<lparr>m_nEndDay := u\<rparr>)"
  "m_szEmail s = [] \<Longrightarrow> CHR 0x00 \<notin> set t \<Longrightarrow> xml_parse_allnodes filter_xml (xml_append_value ''Email'' id t []) s = Some (s\<lparr>m_szEmail := t\<rparr>)"
  "m_szComment s = [] \<Longrightarrow> CHR 0x00 \<notin> set t \<Longrightarrow> xml_parse_allnodes filter_xml (xml_append_value ''Comment'' id t []) s = Some (s\<lparr>m_szComment := t\<rparr>)"
  "di = m_nRewMask s \<Longrightarrow> xml_parse_allnodes filter_xml (xml_append_value ''RewriteMask'' out_signed i di) s = Some (s\<lparr>m_nRewMask := i\<rparr>)"
  "da = m_dwRewSrcIp s \<Longrightarrow> xml_parse_allnodes filter_xml (xml_append_value ''RewriteSrcIp'' ip_to_string a da) s = Some (s\<lparr>m_dwRewSrcIp := a\<rparr>)"
  "da = m_dwRewDstIp s \<Longrightarrow> xml_parse_allnodes filter_xml (xml_append_value ''RewriteDstIp'' ip_to_string a da) s = Some (s\<lparr>m_dwRewDstIp := a\<rparr>)"
  "dh = m_wRewSrcPort s \<Longrightarrow> xml_parse_allnodes filter_xml (xml_append_value ''RewriteSrcPort'' out_unsigned h dh) s = Some (s\<lparr>m_wRewSrcPort := h\<rparr>)"
  "dh = m_wRewDstPort s \<Longrightarrow> xml_parse_allnodes filter_xml (xml_append_value ''RewriteDstPort'' out_unsigned h dh) s = Some (s\<lparr>m_wRewDstPort := h\<rparr>)"
  "dl = m_nTrafficLimitMb s \<Longrightarrow> xml_parse_allnodes filter_xml (xml_append_value ''TrafficLimitMb'' out_signed l dl) s = Some (s\<lparr>m_nTrafficLimitMb := l\<rparr>)"
  "di = m_nTrafficLimitType s \<Longrightarrow> xml_parse_allnodes filter_xml (xml_append_value ''TrafficLimitType'' out_signed i di) s = Some (s\<lparr>m_nTrafficLimitType := i\<rparr>)"
  "di = m_nTrafficLimitAction s \<Longrightarrow> xml_parse_allnodes filter_xml (xml_append_value ''TrafficLimitAction'' out_signed i di) s = Some (s\<lparr>m_nTrafficLimitAction := i\<rparr>)"
  "dh = m_wTrafficLimitWarnLevel s \<Longrightarrow> xml_parse_allnodes filter_xml (xml_append_value ''TrafficLimitWarnLevel'' out_unsigned h dh) s = Some (s\<lparr>m_wTrafficLimitWarnLevel := h\<rparr>)"
  "dh = m_wTrafficLimitFlags s \<Longrightarrow> xml_parse_allnodes filter_xml (xml_append_value ''TrafficLimitFlags'' out_unsigned h dh) s = Some (s\<lparr>m_wTrafficLimitFlags := h\<rparr>)"
  "di = m_nPktLogDest s \<Longrightarrow> xml_parse_allnodes filter_xml (xml_append_value ''PackLogDest'' out_signed i di) s = Some (s\<lparr>m_nPktLogDest := i\<rparr>)"
  "di = m_nPktLogOpt s \<Longrightarrow> xml_parse_allnodes filter_xml (xml_append_value ''PackLogOpt'' out_signed i di) s = Some (s\<lparr>m_nPktLogOpt := i\<rparr>)"
  "m_szPktLogFilename s = [] \<Longrightarrow> CHR 0x00 \<notin> set t \<Longrightarrow> xml_parse_allnodes filter_xml (xml_append_value ''PackLogFilenameTemplate'' id t []) s = Some (s\<lparr>m_szPktLogFilename := t\<rparr>)"
  "m_szPktLogTable s = [] \<Longrightarrow> CHR 0x00 \<notin> set t \<Longrightarrow> xml_parse_allnodes filter_xml (xml_append_value ''PackLogDbTable'' id t []) s = Some (s\<lparr>m_szPktLogTable := t\<rparr>)"
  "di = m_nPktLogSqlSyntax s \<Longrightarrow> xml_parse_allnodes filter_xml (xml_append_value ''PackLogSQLSyntax'' out_signed i di) s = Some (s\<lparr>m_nPktLogSqlSyntax := i\<rparr>)"
  "di = m_nPktLogMaxColSize s \<Longrightarrow> xml_parse_allnodes filter_xml (xml_append_value ''PackLogMaxColSize'' out_signed i di) s = Some (s\<lparr>m_nPktLogMaxColSize := i\<rparr>)"
  "di = m_nPktLogAlertColUsage s \<Longrightarrow> xml_parse_allnodes filter_xml (xml_append_value ''PackLogAlertColUsage'' out_signed i di) s = Some (s\<lparr>m_nPktLogAlertColUsage := i\<rparr>)"
  "di = m_nHhLogDest s \<Longrightarrow> xml_parse_allnodes filter_xml (xml_append_value ''HhLogDest'' out_signed i di) s = Some (s\<lparr>m_nHhLogDest := i\<rparr>)"
  "m_szHhLogFilename s = [] \<Longrightarrow> CHR 0x00 \<notin> set t \<Longrightarrow> xml_parse_allnodes filter_xml (xml_append_value ''HhLogFilenameTemplate'' id t []) s = Some (s\<lparr>m_szHhLogFilename := t\<rparr>)"
  "m_szHhLogTable s = [] \<Longrightarrow> CHR 0x00 \<notin> set t \<Longrightarrow> xml_parse_allnodes filter_xml (xml_append_value ''HhLogDbTable'' id t []) s = Some (s\<lparr>m_szHhLogTable := t\<rparr>)"
  "di = m_nMaster s \<Longrightarrow> xml_parse_allnodes filter_xml (xml_append_value ''Master'' out_signed i di) s = Some (s\<lparr>m_nMaster := i\<rparr>)"
  "di = m_nSpeed s \<Longrightarrow> xml_parse_allnodes filter_xml (xml_append_value ''SpeedKiloBytes'' out_signed i di) s = Some (s\<lparr>m_nSpeed := i\<rparr>)"
  "di = m_nSpeed2 s \<Longrightarrow> xml_parse_allnodes filter_xml (xml_append_value ''SpeedKiloBytes2'' out_signed i di) s = Some (s\<lparr>m_nSpeed2 := i\<rparr>)"
  "di = m_nSpeedMaster s \<Longrightarrow> xml_parse_allnodes filter_xml (xml_append_value ''SpeedMaster'' out_signed i di) s = Some (s\<lparr>m_nSpeedMaster := i\<rparr>)"
  "di = m_nMasterFilterId s \<Longrightarrow> xml_parse_allnodes filter_xml (xml_append_value ''MasterFid'' out_signed i di) s = Some (s\<lparr>m_nMasterFilterId := i\<rparr>)"
  "di = m_nMasterLevelSpeed s \<Longrightarrow> xml_parse_allnodes filter_xml (xml_append_value ''MasterLevel'' out_signed i di) s = Some (s\<lparr>m_nMasterLevelSpeed := i\<rparr>)"
  "di = m_nMasterOptions s \<Longrightarrow> xml_parse_allnodes filter_xml (xml_append_value ''MasterOpt'' out_signed i di) s = Some (s\<lparr>m_nMasterOptions := i\<rparr>)"
  by (simp_all add: parse_value_if parse_text_if filter_xml_def filter_xml_catch_value_def)

definition filter_xml_ok :: "filter2 \<Rightarrow> bool" where
  "filter_xml_ok f \<longleftrightarrow>
     list_all (\<lambda>s. CHR 0x00 \<notin> set s)
       [m_szFilterName f, m_szEmail f, m_szComment f, m_szPktLogFilename f, m_szPktLogTable f,
        m_szHhLogFilename f, m_szHhLogTable f]
     \<and> length (m_nWorkHours f) = 7 \<and> list_all rule_xml_ok (rules f)"

lemma rules_segment:
  assumes "list_all rule_xml_ok rs"
  shows "xml_parse_allnodes filter_xml (xml_append_list rule_xml rs) s = Some (s\<lparr>rules := rules s @ rs\<rparr>)"
proof -
  have "xc_subnode filter_xml ''RuleNT'' n z =
      map_option (\<lambda>r. z\<lparr>rules := rules z @ [r]\<rparr>) (xml_parse_node rule_xml n False rule_clear)" for n z
    by (simp add: filter_xml_def filter_xml_subnode_def filter_catch_subnode_def add_element_def
        insert_element_def Let_def xml_parse_node_def rule_xml_def is_write_protected_def rulelist_class_def)
  from rule_elem.parse_list [OF this assms]
  have "xml_parse_allnodes filter_xml (xml_append_list rule_xml rs) s =
      Some (fold (\<lambda>r z. z\<lparr>rules := rules z @ [r]\<rparr>) rs s)" .
  also have "fold (\<lambda>r z. z\<lparr>rules := rules z @ [r]\<rparr>) rs s = s\<lparr>rules := rules s @ rs\<rparr>"
    by (induction rs arbitrary: s) simp_all
  finally show ?thesis .
qed

lemma print_x_no_nul: "CHR 0x00 \<notin> set (print_x n)"
  using print_x_digits [of n] hex_digit_props(1) [of "CHR 0x00"]
  by (auto simp: list_all_iff parse_nibble_def in_chars_def)

lemma workhours_segment:
  assumes "length (m_nWorkHours f) = 7" and "m_nWorkHours s = replicate 7 0xFFFFFFFF"
  shows "xml_parse_allnodes filter_xml (xml_append_data ''WorkHours'' (get_workhours_str f)) s
    = Some (s\<lparr>m_nWorkHours := m_nWorkHours f\<rparr>)"
proof (cases "list_all (\<lambda>w. w = 0xFFFFFFFF) (m_nWorkHours f)")
  case True
  then have "m_nWorkHours f = m_nWorkHours s" unfolding assms(2) assms(1) [symmetric]
    by (intro replicate_eqI) (auto simp: list_all_iff)
  then show ?thesis using True
    by (simp add: get_workhours_str_def parse_empty_data filter_xml_def filter_xml_subnode_def filter_catch_subnode_def)
next
  case False
  have t: "xml_text (workhours_text ws)" if "ws \<noteq> []" for ws
    using that print_x_no_nul print_x_not_Nil
    by (induction ws rule: workhours_text.induct) (auto simp: xml_text_def)
  have "m_nWorkHours f \<noteq> []" using assms(1) by auto
  with scan_workhours_text [of "m_nWorkHours f" 7 0 "m_nWorkHours s"] assms False t show ?thesis
    by (simp add: get_workhours_str_def parse_data filter_xml_def filter_xml_catch_value_def
        parse_workhours_string_def xml_text_def)
qed

lemma filter_clear_extension:
  "seq_id (filter_base_clear g) = seq_id g" "cnt_sent (filter_base_clear g) = cnt_sent g"
  "cnt_recv (filter_base_clear g) = cnt_recv g" "last_reset_ts (filter_base_clear g) = last_reset_ts g"
  by (simp_all add: filter_base_clear_def)

lemma filter_nodes_parse:
  assumes "filter_xml_ok f"
  shows "xml_parse_allnodes filter_xml (filter_nodes f) (filter_base_clear g)
    = Some (f\<lparr>seq_id := seq_id g, cnt_sent := cnt_sent g, cnt_recv := cnt_recv g, last_reset_ts := last_reset_ts g\<rparr>)"
  using assms unfolding filter_xml_ok_def filter_nodes_def Let_def
  apply (simp add: parse_allnodes_append filter_segments filter_defaults rules_segment workhours_segment)
  apply (rule filter2.equality)
  apply (simp_all add: filter_clear_extension)
  done

section \<open>Properties\<close>

text \<open>
  a rule survives its XML form: parsing the node that \<open>xml_create\<close> builds, into any rule, gives
  the rule back with all its 41 members, although members at their default are not written. The
  texts must be C strings and the hash of a host the one \<open>set_host\<close> stores.
\<close>

theorem rule_xml_roundtrip:
  assumes "rule_xml_ok r"
  shows "xml_parse_node rule_xml (rule_xml_create r) False y = Some r"
  using rule_elem.create_parse [OF assms] by (simp add: rule_xml_def)

definition ex_xml_rule :: rule where
  "ex_xml_rule = (rule_make RULE_IP ''192.168.1.2'' ''255.255.255.0'' RULE_HOST ''0.0.0.0'' ''0.0.0.0'')
     \<lparr>rl_id := 7, rl_descr := ''dns'', rl_proto := 17, rl_action := - 1, dst_port := 53,
      dst_host := set_host (Some ''ns''), src_mac := ex_mac\<rparr>"

lemma ex_xml_rule_ok: "rule_xml_ok ex_xml_rule"
  by (simp add: rule_xml_ok_def ex_xml_rule_def rule_make_def rule_clear_def Let_def mac_wf_def mac_clear_def
      ex_mac_def MAX_ETHER_LENGTH_def host_ok_def hostname_clear_def set_host_def)

theorem rule_xml_roundtrip_witness:
  "map_option (\<lambda>r. (rl_proto r, sint (rl_action r), hs_host (dst_host r)))
     (xml_parse_node rule_xml (rule_xml_create ex_xml_rule) False rule_clear) = Some (17, -1, ''ns'')"
  using rule_xml_roundtrip [OF ex_xml_rule_ok, of rule_clear]
  by (simp add: ex_xml_rule_def set_host_def)

text \<open>
  a filter survives its XML form: parsing the node \<open>xml_create\<close> builds into any filter gives
  all 43 configuration members with the working hours and the rules in their order, and keeps the
  counters, the last reset and the sequence number of the filter parsed into.
\<close>

theorem filter_xml_roundtrip:
  assumes "filter_xml_ok f"
  shows "xml_parse_node filter_xml (filter_xml_create f) False g
    = Some (f\<lparr>seq_id := seq_id g, cnt_sent := cnt_sent g, cnt_recv := cnt_recv g, last_reset_ts := last_reset_ts g\<rparr>)"
  using filter_nodes_parse [OF assms, of g]
  by (simp add: xml_parse_node_def filter_xml_create_def node_children_def filter_xml_def)

definition ex_xml_filter :: filter2 where
  "ex_xml_filter = ex_filter\<lparr>m_szFilterName := ''lan'', m_nTrafficLimitMb := - 5, rules := [rule_clear, ex_xml_rule]\<rparr>"

theorem filter_xml_roundtrip_witness:
  "map_option (\<lambda>f. (m_szFilterName f, sint (m_nTrafficLimitMb f), m_nWorkHours f, map rl_id (rules f), seq_id f))
     (xml_parse_node filter_xml (filter_xml_create ex_xml_filter) False ((filter2_new 0 0)\<lparr>seq_id := 9\<rparr>))
   = Some (''lan'', -5, [0xFFFFFFFF, 0, 7, 0xABCDEF, 1, 2, 0xFF], [0, 7], 9)"
proof -
  have "rule_xml_ok rule_clear"
    by (simp add: rule_xml_ok_def rule_clear_def mac_wf_def mac_clear_def host_ok_def hostname_clear_def)
  then have "filter_xml_ok ex_xml_filter"
    using ex_xml_rule_ok
    by (simp add: filter_xml_ok_def ex_xml_filter_def ex_filter_def filter2_new_def filter_base_clear_def)
  from filter_xml_roundtrip [OF this] show ?thesis
    by (simp add: ex_xml_filter_def ex_filter_simps ex_xml_rule_def rule_clear_def)
qed

text \<open>
  numbers are read modulo the size of their type, whatever number of digits the text has:
  \<open>parse_unsigned\<close> and \<open>parse_signed\<close> never fail and do not detect an overflow.
\<close>

theorem numbers_read_modulo:
  "(parse_unsigned (print_u n) :: 'a::len word) = of_nat n
   \<and> (parse_signed (print_u n) :: 'a word) = of_nat n
   \<and> (parse_signed (CHR ''-'' # print_u n) :: 'a word) = - of_nat n"
  using print_u_hd [of n]
  by (simp add: parse_unsigned_def parse_signed_def skip_blanks_print_u parse_digits_print Let_def)

end
