(* ===== verification/IdSet.thy ===== *)
theory IdSet
  imports Prelude
begin

text \<open>
  \<open>utm/stringtools.h\<close> (splitting and joining texts) and \<open>utm/idset.h\<close> (sets and lists of
  identifiers and their text). \<open>std::set<unsigned int>\<close> is its ascending list.
  \<open>boost::lexical_cast<unsigned int>\<close> is the argument \<open>lexical\<close>, whose \<open>None\<close> is the exception.
\<close>

section \<open>Splitting and joining\<close>

text \<open>\<open>while (!iss.eof()) getline(iss, field, delimiter)\<close>: one more field than delimiters.\<close>

fun split_fields :: "char \<Rightarrow> string \<Rightarrow> string list" where
  "split_fields d [] = [[]]"
| "split_fields d (c # cs) =
     (if c = d then [] # split_fields d cs
      else (case split_fields d cs of [] \<Rightarrow> [[c]] | f # fs \<Rightarrow> (c # f) # fs))"

definition split_string :: "bool \<Rightarrow> char \<Rightarrow> string \<Rightarrow> string list" where
  "split_string no_empties d s =
     (if no_empties then filter (\<lambda>f. f \<noteq> []) (split_fields d s) else split_fields d s)"

fun join_strings :: "string \<Rightarrow> string list \<Rightarrow> string" where
  "join_strings d [] = []"
| "join_strings d [x] = x"
| "join_strings d (x # y # xs) = x @ d @ join_strings d (y # xs)"

lemma split_fields_not_Nil [simp]: "split_fields d s \<noteq> []"
  by (induction s) (auto split: list.splits)

lemma split_fields_plain: "d \<notin> set s \<Longrightarrow> split_fields d s = [s]"
  by (induction s) auto

lemma split_fields_delim: "d \<notin> set s \<Longrightarrow> split_fields d (s @ d # t) = s # split_fields d t"
  by (induction s) auto

lemma split_join:
  "xs \<noteq> [] \<Longrightarrow> list_all (\<lambda>x. d \<notin> set x) xs \<Longrightarrow> split_fields d (join_strings [d] xs) = xs"
  by (induction "[d]" xs rule: join_strings.induct) (simp_all add: split_fields_plain split_fields_delim)

lemma concat_split: "length (split_fields d s) = Suc (count_list s d)"
  by (induction s) (auto split: list.splits)

lemma set_join: "set (join_strings d xs) \<subseteq> set d \<union> \<Union> (set ` set xs)"
  by (induction d xs rule: join_strings.induct) auto

lemma join_not_Nil: "\<exists>x \<in> set xs. x \<noteq> [] \<Longrightarrow> join_strings d xs \<noteq> []"
  by (induction d xs rule: join_strings.induct) auto

section \<open>Sets of identifiers\<close>

definition idset_add :: "u32 \<Rightarrow> u32 list \<Rightarrow> u32 list" where
  "idset_add i ids = (if i \<in> set ids then ids else insort i ids)"

definition idset_remove :: "u32 \<Rightarrow> u32 list \<Rightarrow> u32 list" where
  "idset_remove i ids = remove1 i ids"

definition check_id :: "u32 \<Rightarrow> u32 list \<Rightarrow> bool" where "check_id i ids \<longleftrightarrow> i \<in> set ids"

definition idlist_add :: "u32 \<Rightarrow> u32 list \<Rightarrow> u32 list" where "idlist_add i ids = ids @ [i]"

definition idlist_remove :: "u32 \<Rightarrow> u32 list \<Rightarrow> u32 list" where
  "idlist_remove i ids = remove_first (\<lambda>j. i = j) ids"

definition ids_to_string :: "u32 list \<Rightarrow> string" where
  "ids_to_string ids = join_strings '' '' (map (\<lambda>i. print_u (unat i)) ids)"

text \<open>\<open>from_string\<close> with the \<open>add_id\<close> of its class; a field that is no number is skipped.\<close>

definition ids_from_string :: "(string \<Rightarrow> u32 option) \<Rightarrow> (u32 \<Rightarrow> u32 list \<Rightarrow> u32 list) \<Rightarrow> string \<Rightarrow> u32 list" where
  "ids_from_string lexical add p =
     fold (\<lambda>f ids. case lexical f of Some i \<Rightarrow> add i ids | None \<Rightarrow> ids) (split_string False CHR '' '' p) []"

definition idset_wf :: "u32 list \<Rightarrow> bool" where "idset_wf ids \<longleftrightarrow> sorted ids \<and> distinct ids"

lemma idset_add_wf [utm_inv]: "idset_wf ids \<Longrightarrow> idset_wf (idset_add i ids)"
  by (simp add: idset_wf_def idset_add_def sorted_insort distinct_insort)

lemma idset_remove_wf [utm_inv]: "idset_wf ids \<Longrightarrow> idset_wf (idset_remove i ids)"
  by (simp add: idset_wf_def idset_remove_def sorted_remove1)

lemma check_id_add: "check_id j (idset_add i ids) \<longleftrightarrow> j = i \<or> check_id j ids"
  by (auto simp: check_id_def idset_add_def set_insort_key)

lemma check_id_remove: "idset_wf ids \<Longrightarrow> check_id j (idset_remove i ids) \<longleftrightarrow> j \<noteq> i \<and> check_id j ids"
  by (auto simp: check_id_def idset_remove_def idset_wf_def)

section \<open>The text of a set\<close>

lemma blank_free: "list_all is_digit s \<Longrightarrow> CHR '' '' \<notin> set s"
  by (auto simp: list_all_iff is_digit_def dest!: bspec)

lemma split_ids:
  "ids \<noteq> [] \<Longrightarrow> split_string False CHR '' '' (ids_to_string ids) = map (\<lambda>i. print_u (unat i)) ids"
  unfolding split_string_def ids_to_string_def
  using split_join [of "map (\<lambda>i. print_u (unat i)) ids" "CHR '' ''"] blank_free print_u_digits
  by (simp add: list_all_iff)

lemma fold_idset_add:
  "idset_wf (ids @ more) \<Longrightarrow> fold idset_add more ids = ids @ more"
proof (induction more arbitrary: ids)
  case (Cons i more)
  have "sorted ids" "i \<notin> set ids" "\<forall>j \<in> set ids. j \<le> i"
    using Cons.prems by (auto simp: idset_wf_def sorted_append)
  then have "idset_add i ids = ids @ [i]" by (simp add: idset_add_def sorted_insort_is_snoc)
  then show ?case using Cons.IH [of "ids @ [i]"] Cons.prems by simp
qed simp

lemma fold_lexical:
  assumes "\<And>i. lexical (print_u (unat i)) = Some i"
  shows "fold (\<lambda>f ids. case lexical f of Some i \<Rightarrow> add i ids | None \<Rightarrow> ids) (map (\<lambda>i. print_u (unat i)) xs) ids
    = fold add xs ids"
  by (induction xs arbitrary: ids) (simp_all add: assms)

lemma idset_from_to_string:
  assumes "\<And>i. lexical (print_u (unat i)) = Some i" and "idset_wf ids" and "ids \<noteq> []"
  shows "ids_from_string lexical idset_add (ids_to_string ids) = ids"
  using assms(2) fold_idset_add [of "[]" ids]
  by (simp add: ids_from_string_def split_ids [OF assms(3)] fold_lexical [OF assms(1)])

lemma ids_to_string_text:
  "CHR 0x00 \<notin> set (ids_to_string ids)" "ids \<noteq> [] \<Longrightarrow> ids_to_string ids \<noteq> []"
proof -
  have "CHR 0x00 \<notin> set (print_u n)" for n
    using print_u_digits [of n] by (auto simp: list_all_iff is_digit_def dest!: bspec)
  then show "CHR 0x00 \<notin> set (ids_to_string ids)"
    using set_join [of "'' ''" "map (\<lambda>i. print_u (unat i)) ids"] by (auto simp: ids_to_string_def)
  show "ids \<noteq> [] \<Longrightarrow> ids_to_string ids \<noteq> []"
    unfolding ids_to_string_def by (rule join_not_Nil) (cases ids; auto simp: print_u_not_Nil)
qed

text \<open>A reader of decimal numbers, for the examples.\<close>

definition ex_lexical :: "string \<Rightarrow> u32 option" where
  "ex_lexical s = (if s \<noteq> [] \<and> list_all is_digit s then Some (of_nat (atoi s 0)) else None)"

lemma ex_lexical_print: "ex_lexical (print_u (unat i)) = Some i"
  by (simp add: ex_lexical_def print_u_not_Nil print_u_digits atoi_print_u)

end
