(* ===== verification/UrlFilter.thy ===== *)
theory UrlFilter
  imports IdSet Xml "HOL-Library.Sublist"
begin

text \<open>
  \<open>corefilters/urlfilter*.{h,cpp}\<close>: lists of URL rules. A rule is a piece of an address with the
  marks \<open>+\<close> (a positive match), \<open>^\<close> (the beginning), \<open>$\<close> (the end), \<open>*\<close> (a gap) and \<open>#\<close> (a
  comment). Texts are C strings. A result \<open>None\<close> is a read past the end of a string.
\<close>

definition URLFILTERING_NO_MATCH :: int where [utm_consts]: "URLFILTERING_NO_MATCH = 0"
definition URLFILTERING_POSITIVE_MATCH :: int where [utm_consts]: "URLFILTERING_POSITIVE_MATCH = 1"
definition URLFILTERING_BLOCK_MATCH :: int where [utm_consts]: "URLFILTERING_BLOCK_MATCH = 2"
definition URLFILTER_ADDRPART_ANY :: i32 where [utm_consts]: "URLFILTER_ADDRPART_ANY = 3"
definition URLFILTER_ADDRPART_HOST :: i32 where [utm_consts]: "URLFILTER_ADDRPART_HOST = 1"
definition URLFILTER_ADDRPART_URI :: i32 where [utm_consts]: "URLFILTER_ADDRPART_URI = 2"

record urlfilter =
  ufid :: u32
  uf_name :: string
  uf_file :: string
  is_disabled :: bool
  is_any_filter :: bool
  addr_part :: i32
  ext_file :: i32
  uf_fids :: "u32 list"
  urlrules :: "string list"

definition urlfilter_clear :: urlfilter where
  "urlfilter_clear = \<lparr>ufid = 0, uf_name = [], uf_file = [], is_disabled = False, is_any_filter = False,
     addr_part = URLFILTER_ADDRPART_ANY, ext_file = 0, uf_fids = [], urlrules = []\<rparr>"

definition urlfilter_eq :: "urlfilter \<Rightarrow> urlfilter \<Rightarrow> bool" where
  "urlfilter_eq a b \<longleftrightarrow> ufid a = ufid b \<and> uf_name a = uf_name b \<and> uf_file a = uf_file b
     \<and> is_disabled a = is_disabled b \<and> is_any_filter a = is_any_filter b
     \<and> addr_part a = addr_part b \<and> ext_file a = ext_file b \<and> uf_fids a = uf_fids b
     \<and> urlrules a = urlrules b"

section \<open>The text of the rules\<close>

definition get_urlrules_str :: "string \<Rightarrow> urlfilter \<Rightarrow> string" where
  "get_urlrules_str delimiter f = join_strings delimiter (urlrules f)"

definition parse_urlrules_str :: "string \<Rightarrow> char \<Rightarrow> urlfilter \<Rightarrow> urlfilter" where
  "parse_urlrules_str p delimiter f =
     f\<lparr>urlrules := filter (\<lambda>item. item \<noteq> []) (split_string False delimiter p)\<rparr>"

definition check_fid :: "u32 \<Rightarrow> urlfilter \<Rightarrow> bool" where "check_fid i f \<longleftrightarrow> check_id i (uf_fids f)"

section \<open>One rule\<close>

text \<open>\<open>strstr\<close>: the offset of the first occurrence.\<close>

fun strstr :: "string \<Rightarrow> string \<Rightarrow> nat option" where
  "strstr [] r = (if r = [] then Some 0 else None)"
| "strstr (c # cs) r = (if take (length r) (c # cs) = r then Some 0 else map_option Suc (strstr cs r))"

text \<open>
  \<open>while (is_matchend && p != NULL)\<close>: the search goes on at \<open>p + 1\<close>, which is outside the string
  when \<open>p\<close> is at its terminator.
\<close>

lemma strstr_bound: "strstr a r = Some k \<Longrightarrow> k + length r \<le> length a"
proof (induction a arbitrary: k)
  case (Cons c cs)
  show ?case
  proof (cases "take (length r) (c # cs) = r")
    case True
    then have "length r \<le> length (c # cs)" by (metis length_take min.absorb_iff2 min.commute)
    with True Cons.prems show ?thesis by simp
  next
    case False
    with Cons show ?thesis by auto
  qed
qed (simp split: if_splits)

function last_occurrence :: "string \<Rightarrow> string \<Rightarrow> nat \<Rightarrow> nat option" where
  "last_occurrence a r p =
     (if p \<ge> length a then None
      else case strstr (drop (p + 1) a) r of None \<Rightarrow> Some p | Some k \<Rightarrow> last_occurrence a r (p + 1 + k))"
  by pat_completeness auto
termination by (relation "measure (\<lambda>(a, r, p). length a - p)") auto

declare last_occurrence.simps [simp del]

text \<open>\<open>strncmp(s, t, n) == 0\<close> on strings without inner terminators.\<close>

definition strncmp_eq :: "nat \<Rightarrow> string \<Rightarrow> string \<Rightarrow> bool" where
  "strncmp_eq n s t \<longleftrightarrow> take n s = take n t"

text \<open>A rule without a gap: the result and the position of the occurrence.\<close>

definition match_plain :: "string \<Rightarrow> bool \<Rightarrow> bool \<Rightarrow> string \<Rightarrow> (int \<times> nat) option" where
  "match_plain r is_matchbegin is_matchend urladdr =
     (case strstr urladdr r of
        None \<Rightarrow> Some (URLFILTERING_NO_MATCH, 0)
      | Some p0 \<Rightarrow> do {
          p \<leftarrow> (if is_matchend then last_occurrence urladdr r p0 else Some p0);
          let flag = (is_matchbegin \<and> p \<noteq> 0 \<or> is_matchend \<and> p + length r \<noteq> length urladdr);
          Some (if flag then URLFILTERING_NO_MATCH else URLFILTERING_BLOCK_MATCH, p) })"

lemma length_left: "c \<in> set r \<Longrightarrow> length (takeWhile (\<lambda>x. x \<noteq> c) r) < length r"
  by (induction r) auto

lemma length_right: "c \<in> set r \<Longrightarrow> length (tl (dropWhile (\<lambda>x. x \<noteq> c) r)) < length r"
  by (induction r) auto

text \<open>The marks of a rule: positive, beginning, end, and the text \<open>r\<close> between them.\<close>

definition strip_mark :: "char \<Rightarrow> string \<Rightarrow> bool \<times> string" where
  "strip_mark c s = (if s \<noteq> [] \<and> hd s = c then (True, tl s) else (False, s))"

definition rule_marks :: "string \<Rightarrow> bool \<times> bool \<times> bool \<times> string" where
  "rule_marks rule_str =
     (let is_matchend = (rule_str \<noteq> [] \<and> last rule_str = CHR ''$'');
          tmp = (if is_matchend then butlast rule_str else rule_str);
          (is_positive, tmp1) = strip_mark CHR ''+'' tmp;
          (is_matchbegin, r) = strip_mark CHR ''^'' tmp1
      in (is_positive, is_matchbegin, is_matchend, r))"

lemma strip_mark_shorter: "strip_mark c s = (x, t) \<Longrightarrow> length t \<le> length s \<and> set t \<subseteq> set s"
  by (cases s) (auto simp: strip_mark_def split: if_splits)

lemma rule_marks_text:
  assumes "rule_marks s = (p, b, e, r)"
  shows "length r + of_bool e \<le> length s \<and> set r \<subseteq> set s \<and> (e \<longrightarrow> CHR ''$'' \<in> set s)"
proof -
  define u where "u = (if e then butlast s else s)"
  have e: "e \<longleftrightarrow> s \<noteq> [] \<and> last s = CHR ''$''" and r: "strip_mark CHR ''^'' (snd (strip_mark CHR ''+'' u)) = (b, r)"
    using assms by (auto simp: rule_marks_def u_def Let_def split: prod.splits)
  have "length r \<le> length u \<and> set r \<subseteq> set u"
    using strip_mark_shorter [OF r] strip_mark_shorter [of "CHR ''+''" u] by (metis order_trans prod.collapse)
  moreover have "length u + of_bool e \<le> length s" using e by (cases s) (auto simp: u_def)
  moreover have "set u \<subseteq> set s" by (auto simp: u_def dest: in_set_butlastD)
  moreover have "e \<longrightarrow> CHR ''$'' \<in> set s" using e by (metis last_in_set)
  ultimately show ?thesis by auto
qed

lemma rule_marks_length: "rule_marks s = (p, b, e, r) \<Longrightarrow> length r \<le> length s"
  using rule_marks_text by fastforce

text \<open>
  \<open>match_rule\<close>: the result and \<open>*poutpos\<close>. The two parts around the first gap are rules again.
  \<open>rightpart_len\<close> is computed as in the code, from the length of the whole rule.
\<close>

function match_rule :: "string \<Rightarrow> string \<Rightarrow> (int \<times> nat) option" where
  "match_rule rule_str urladdr =
     (if rule_str = [] then Some (URLFILTERING_NO_MATCH, 0)
      else if hd rule_str = CHR ''#'' then Some (URLFILTERING_NO_MATCH, 0)
      else case rule_marks rule_str of (is_positive, is_matchbegin, is_matchend, r) \<Rightarrow> do {
        (retval, pos) \<leftarrow>
          (if r = ''*'' then Some (URLFILTERING_BLOCK_MATCH, 0)
           else if CHR ''*'' \<in> set r then
             let leftpart = takeWhile (\<lambda>c. c \<noteq> CHR ''*'') r;
                 rightpart = tl (dropWhile (\<lambda>c. c \<noteq> CHR ''*'') r);
                 rightpart_len = length rule_str - length leftpart
             in do {
               leftpart_match \<leftarrow>
                 (if leftpart = [] then Some URLFILTERING_BLOCK_MATCH
                  else map_option (\<lambda>(m, q). if is_matchbegin \<and> m = URLFILTERING_BLOCK_MATCH \<and> q \<noteq> 0
                    then URLFILTERING_NO_MATCH else m) (match_rule leftpart urladdr));
               rightpart_match \<leftarrow>
                 (if rightpart_len = 0 then Some URLFILTERING_BLOCK_MATCH
                  else map_option (\<lambda>(m, q). if is_matchend \<and> m = URLFILTERING_BLOCK_MATCH
                      \<and> (length urladdr < rightpart_len
                         \<or> \<not> strncmp_eq rightpart_len (drop (length urladdr - rightpart_len) urladdr) rightpart)
                    then URLFILTERING_NO_MATCH else m) (match_rule rightpart urladdr));
               Some (if leftpart_match = URLFILTERING_BLOCK_MATCH \<and> rightpart_match = URLFILTERING_BLOCK_MATCH
                     then URLFILTERING_BLOCK_MATCH else URLFILTERING_NO_MATCH, 0) }
           else match_plain r is_matchbegin is_matchend urladdr);
        Some (if is_positive \<and> retval = URLFILTERING_BLOCK_MATCH then URLFILTERING_POSITIVE_MATCH else retval, pos) })"
  by pat_completeness auto
termination
proof (relation "measure (\<lambda>(r, a). length r)")
  show "wf (measure (\<lambda>(r, a). length r))" by simp
qed (use length_left length_right rule_marks_length in \<open>fastforce dest!: sym [of "(_, _)" "rule_marks _"] intro: order_less_le_trans\<close>)+

declare match_rule.simps [simp del]

text \<open>\<open>match\<close>: the part of the address, \<open>NULL\<close> being \<open>None\<close>, and the first rule that decides.\<close>

definition addr_of :: "urlfilter \<Rightarrow> string option \<Rightarrow> string option \<Rightarrow> string option \<Rightarrow> string option" where
  "addr_of f host uri hosturi =
     (if addr_part f AND URLFILTER_ADDRPART_HOST \<noteq> 0 \<and> addr_part f AND URLFILTER_ADDRPART_URI \<noteq> 0 then hosturi
      else if addr_part f AND URLFILTER_ADDRPART_URI \<noteq> 0 then uri
      else if addr_part f AND URLFILTER_ADDRPART_HOST \<noteq> 0 then host
      else None)"

fun match_rules :: "string list \<Rightarrow> string option \<Rightarrow> int option" where
  "match_rules [] p = Some URLFILTERING_NO_MATCH"
| "match_rules (r # rs) p =
     (case p of
        None \<Rightarrow> match_rules rs p
      | Some a \<Rightarrow> do {
          (n, pos) \<leftarrow> match_rule r a;
          if n \<noteq> URLFILTERING_NO_MATCH then Some n else match_rules rs p })"

definition urlfilter_match ::
  "urlfilter \<Rightarrow> string option \<Rightarrow> string option \<Rightarrow> string option \<Rightarrow> int option"
where
  "urlfilter_match f host uri hosturi =
     (if is_disabled f then Some URLFILTERING_NO_MATCH else match_rules (urlrules f) (addr_of f host uri hosturi))"

section \<open>Occurrences\<close>

definition occurs_at :: "string \<Rightarrow> string \<Rightarrow> nat \<Rightarrow> bool" where
  "occurs_at a r k \<longleftrightarrow> k + length r \<le> length a \<and> take (length r) (drop k a) = r"

lemma occurs_at_Suc: "occurs_at (c # cs) r (Suc k) = occurs_at cs r k"
  by (simp add: occurs_at_def)

lemma strstr_spec:
  "strstr a r = (if \<exists>k. occurs_at a r k then Some (LEAST k. occurs_at a r k) else None)"
proof (induction a)
  case Nil
  have "occurs_at [] r k \<longleftrightarrow> k = 0 \<and> r = []" for k by (auto simp: occurs_at_def)
  moreover from this have "(LEAST k. occurs_at [] r k) = 0" if "r = []" using that by (intro Least_eq_0) simp
  ultimately show ?case by simp
next
  case (Cons c cs)
  have z: "take (length r) (c # cs) = r \<longleftrightarrow> occurs_at (c # cs) r 0"
    by (auto simp: occurs_at_def dest: arg_cong [of _ _ length])
  show ?case
  proof (cases "occurs_at (c # cs) r 0")
    case True
    then have "(LEAST k. occurs_at (c # cs) r k) = 0" by (simp add: Least_eq_0)
    with True z show ?thesis by auto
  next
    case False
    have ex: "(\<exists>k. occurs_at (c # cs) r k) \<longleftrightarrow> (\<exists>k. occurs_at cs r k)"
      using False by (metis occurs_at_Suc not0_implies_Suc)
    have "(LEAST k. occurs_at (c # cs) r k) = Suc (LEAST k. occurs_at cs r k)" if ex: "\<exists>k. occurs_at cs r k"
    proof -
      obtain k where "occurs_at cs r k" using ex by blast
      then show ?thesis using Least_Suc [of "occurs_at (c # cs) r" "Suc k"] False by (simp add: occurs_at_Suc)
    qed
    with False z ex Cons.IH show ?thesis by simp
  qed
qed

lemma strstr_Some:
  assumes "strstr a r = Some k"
  shows "occurs_at a r k" "\<And>j. j < k \<Longrightarrow> \<not> occurs_at a r j"
  using assms unfolding strstr_spec by (auto split: if_splits intro: LeastI dest: not_less_Least)

lemma strstr_None: "strstr a r = None \<longleftrightarrow> (\<forall>k. \<not> occurs_at a r k)"
  by (simp add: strstr_spec)

lemma occurs_at_drop: "n \<le> length a \<Longrightarrow> occurs_at (drop n a) r k \<longleftrightarrow> occurs_at a r (n + k)"
  by (auto simp: occurs_at_def add.commute)

lemma occurs_at_append: "occurs_at a r k \<longleftrightarrow> (\<exists>p q. a = p @ r @ q \<and> length p = k)"
proof
  assume "occurs_at a r k"
  then have "a = take k a @ r @ drop (k + length r) a \<and> length (take k a) = k"
    unfolding occurs_at_def by (metis append_take_drop_id drop_drop add.commute length_take min.absorb2 add_leD1)
  then show "\<exists>p q. a = p @ r @ q \<and> length p = k" by blast
qed (auto simp: occurs_at_def)

lemma last_occurrence_spec:
  assumes "r \<noteq> []" and "occurs_at a r p"
  shows "\<exists>q. last_occurrence a r p = Some q \<and> occurs_at a r q \<and> (\<forall>k>q. \<not> occurs_at a r k)"
  using assms
proof (induction a r p rule: last_occurrence.induct)
  case (1 a r p)
  then have p: "p < length a" by (cases r) (auto simp: occurs_at_def)
  show ?case
  proof (cases "strstr (drop (p + 1) a) r")
    case None
    then have "\<not> occurs_at a r k" if "k > p" for k
      using that p by (auto simp: strstr_None occurs_at_drop dest!: spec [of _ "k - Suc p"])
    with None p 1(3) show ?thesis by (subst last_occurrence.simps) auto
  next
    case (Some k)
    then have "occurs_at a r (p + 1 + k)" using strstr_Some(1) [OF Some] p by (simp add: occurs_at_drop)
    from "1.IH" [OF _ Some "1.prems"(1) this] p Some show ?thesis by (subst last_occurrence.simps) auto
  qed
qed

lemma occurs_sublist: "(\<exists>k. occurs_at a r k) \<longleftrightarrow> sublist r a"
  by (auto simp: occurs_at_append sublist_def)

lemma occurs_prefix: "occurs_at a r 0 \<longleftrightarrow> prefix r a"
  by (auto simp: occurs_at_append prefix_def)

lemma occurs_suffix: "occurs_at a r k \<and> k + length r = length a \<longleftrightarrow> suffix r a \<and> k = length a - length r"
  by (auto simp: occurs_at_append suffix_def) (metis append_Nil2)

text \<open>What a plain rule accepts.\<close>

definition plain_accepts :: "bool \<Rightarrow> bool \<Rightarrow> string \<Rightarrow> string \<Rightarrow> bool" where
  "plain_accepts b e r a \<longleftrightarrow>
     (if b \<and> e then a = r else if b then prefix r a else if e then suffix r a else sublist r a)"

lemma match_plain_spec:
  assumes "r \<noteq> []"
  shows "map_option fst (match_plain r b e a) =
    Some (if plain_accepts b e r a then URLFILTERING_BLOCK_MATCH else URLFILTERING_NO_MATCH)"
proof (cases "strstr a r")
  case None
  then have n: "\<not> sublist r a" using occurs_sublist [of a r] by (simp add: strstr_None)
  then have "\<not> plain_accepts b e r a"
    by (auto simp: plain_accepts_def dest: prefix_imp_sublist suffix_imp_sublist)
  with None show ?thesis by (simp add: match_plain_def)
next
  case (Some p)
  note o = strstr_Some [OF Some]
  have sub: "sublist r a" using o(1) occurs_sublist by blast
  show ?thesis
  proof (cases e)
    case False
    have "p = 0 \<longleftrightarrow> prefix r a" using o occurs_prefix by (metis gr_zeroI)
    with False Some sub show ?thesis by (auto simp: match_plain_def plain_accepts_def)
  next
    case True
    obtain q where q: "last_occurrence a r p = Some q" "occurs_at a r q" "\<forall>k>q. \<not> occurs_at a r k"
      using last_occurrence_spec [OF assms o(1)] by blast
    have s: "q + length r = length a \<longleftrightarrow> suffix r a"
      using q(2,3) occurs_suffix [of a r q] occurs_suffix [of a r "length a - length r"]
      by (metis suffix_length_le le_add_diff_inverse2 not_less_iff_gr_or_eq occurs_at_def add_le_imp_le_right le_antisym linorder_not_le)
    have w: "q = 0 \<and> q + length r = length a \<longleftrightarrow> a = r"
      using q(2) s by (auto simp: occurs_at_def)
    show ?thesis using True Some q(1) s w by (auto simp: match_plain_def plain_accepts_def)
  qed
qed

section \<open>Rules without marks\<close>

text \<open>A text that can stand between the marks of a rule.\<close>

definition plain_text :: "string \<Rightarrow> bool" where
  "plain_text r \<longleftrightarrow> r \<noteq> [] \<and> CHR ''*'' \<notin> set r \<and> hd r \<notin> {CHR ''#'', CHR ''+'', CHR ''^''} \<and> last r \<noteq> CHR ''$''"

definition mark_rule :: "bool \<Rightarrow> bool \<Rightarrow> bool \<Rightarrow> string \<Rightarrow> string" where
  "mark_rule positive begins ends r =
     (if positive then ''+'' else []) @ (if begins then ''^'' else []) @ r @ (if ends then ''$'' else [])"

lemma rule_marks_mark:
  assumes "r \<noteq> []" and "hd r \<notin> {CHR ''+'', CHR ''^''}" and "last r \<noteq> CHR ''$''"
  shows "rule_marks (mark_rule p b e r) = (p, b, e, r)"
  using assms by (cases p; cases b; cases e) (auto simp: mark_rule_def rule_marks_def strip_mark_def Let_def butlast_append)

lemma mark_rule_start:
  assumes "r \<noteq> []" and "hd r \<noteq> CHR ''#''"
  shows "mark_rule p b e r \<noteq> []" "hd (mark_rule p b e r) \<noteq> CHR ''#''"
  using assms by (auto simp: mark_rule_def)

lemma match_marked:
  assumes "plain_text r"
  shows "map_option fst (match_rule (mark_rule p b e r) a) =
    Some (if plain_accepts b e r a then (if p then URLFILTERING_POSITIVE_MATCH else URLFILTERING_BLOCK_MATCH)
          else URLFILTERING_NO_MATCH)"
proof -
  have r: "r \<noteq> []" "CHR ''*'' \<notin> set r" "r \<noteq> ''*''" using assms by (auto simp: plain_text_def)
  have m: "rule_marks (mark_rule p b e r) = (p, b, e, r)"
    using assms by (intro rule_marks_mark) (simp_all add: plain_text_def)
  have s: "mark_rule p b e r \<noteq> []" "hd (mark_rule p b e r) \<noteq> CHR ''#''"
    using assms mark_rule_start [of r p b e] by (simp_all add: plain_text_def)
  obtain v pos where v: "match_plain r b e a = Some (v, pos)"
    "v = (if plain_accepts b e r a then URLFILTERING_BLOCK_MATCH else URLFILTERING_NO_MATCH)"
    using match_plain_spec [OF r(1), of b e a] by fastforce
  show ?thesis
    using s m r v by (subst match_rule.simps) (auto simp: utm_consts)
qed

lemma match_text:
  assumes "plain_text r"
  shows "map_option fst (match_rule r a) = Some (if sublist r a then URLFILTERING_BLOCK_MATCH else URLFILTERING_NO_MATCH)"
  using match_marked [OF assms, of False False False a] by (cases "sublist r a") (simp_all add: mark_rule_def plain_accepts_def)

section \<open>Gaps\<close>

text \<open>The two parts of a rule around its first gap.\<close>

lemma gap_parts:
  assumes "CHR ''*'' \<notin> set l"
  shows "takeWhile (\<lambda>c. c \<noteq> CHR ''*'') (l @ CHR ''*'' # r) = l" "tl (dropWhile (\<lambda>c. c \<noteq> CHR ''*'') (l @ CHR ''*'' # r)) = r"
  using assms by (induction l) auto

lemma match_gap:
  assumes "plain_text l" and "r \<noteq> []" and "last r \<noteq> CHR ''$''"
  shows "map_option fst (match_rule (l @ ''*'' @ r) a) =
    map_option (\<lambda>(m, q). if sublist l a \<and> m = URLFILTERING_BLOCK_MATCH then URLFILTERING_BLOCK_MATCH
      else URLFILTERING_NO_MATCH) (match_rule r a)"
proof -
  let ?s = "l @ ''*'' @ r"
  have m: "rule_marks ?s = (False, False, False, ?s)"
    using rule_marks_mark [of ?s False False False] assms by (simp add: plain_text_def mark_rule_def)
  have s: "?s \<noteq> []" "hd ?s \<noteq> CHR ''#''" "l \<noteq> []" "?s \<noteq> ''*''" "CHR ''*'' \<notin> set l"
    using assms by (auto simp: plain_text_def Cons_eq_append_conv append_eq_Cons_conv)
  obtain v pos where v: "match_rule l a = Some (v, pos)"
    "v = (if sublist l a then URLFILTERING_BLOCK_MATCH else URLFILTERING_NO_MATCH)"
    using match_text [OF assms(1), of a] by fastforce
  show ?thesis
    using s m v gap_parts [OF s(5), of r]
    by (subst match_rule.simps) (cases "match_rule r a"; auto simp: utm_consts)
qed

lemma join_gap_last:
  "xs \<noteq> [] \<Longrightarrow> list_all plain_text xs \<Longrightarrow> join_strings ''*'' xs \<noteq> [] \<and> last (join_strings ''*'' xs) \<noteq> CHR ''$''"
  by (induction "''*''" xs rule: join_strings.induct) (auto simp: plain_text_def)

lemma match_gaps:
  assumes "xs \<noteq> []" and "list_all plain_text xs"
  shows "map_option fst (match_rule (join_strings ''*'' xs) a) =
    Some (if \<forall>x \<in> set xs. sublist x a then URLFILTERING_BLOCK_MATCH else URLFILTERING_NO_MATCH)"
  using assms
proof (induction "''*''" xs rule: join_strings.induct)
  case (2 x)
  then show ?case using match_text [of x a] by simp
next
  case (3 x y xs)
  then have y: "join_strings ''*'' (y # xs) \<noteq> []" "last (join_strings ''*'' (y # xs)) \<noteq> CHR ''$''" "plain_text x"
    using join_gap_last [of "y # xs"] by simp_all
  obtain v q where v: "match_rule (join_strings ''*'' (y # xs)) a = Some (v, q)"
    "v = (if \<forall>x \<in> set (y # xs). sublist x a then URLFILTERING_BLOCK_MATCH else URLFILTERING_NO_MATCH)"
    using 3 by fastforce
  then show ?case using match_gap [OF y(3,1,2), of a] by (auto simp: utm_consts split: if_splits)
qed simp

section \<open>Rules that never match\<close>

text \<open>A gap in front of the end: the right part is empty, and an empty rule matches nothing.\<close>

lemma match_trailing_gap:
  assumes "plain_text l"
  shows "match_rule (l @ ''*'') a = Some (URLFILTERING_NO_MATCH, 0)"
proof -
  let ?s = "l @ ''*''"
  have m: "rule_marks ?s = (False, False, False, ?s)"
    using rule_marks_mark [of ?s False False False] assms by (simp add: plain_text_def mark_rule_def)
  have s: "?s \<noteq> []" "hd ?s \<noteq> CHR ''#''" "l \<noteq> []" "?s \<noteq> ''*''" "CHR ''*'' \<notin> set l"
    using assms by (auto simp: plain_text_def Cons_eq_append_conv append_eq_Cons_conv)
  obtain v pos where v: "match_rule l a = Some (v, pos)" using match_text [OF assms, of a] by fastforce
  have e: "match_rule [] a = Some (URLFILTERING_NO_MATCH, 0)" by (subst match_rule.simps) simp
  show ?thesis
    using s m v e gap_parts [OF s(5), of "[]"] by (subst match_rule.simps) (simp add: utm_consts)
qed

text \<open>A gap and the mark of the end: the suffix compared is longer than the right part.\<close>

lemma match_gap_end:
  assumes "rule_marks s = (p, b, True, r)" and "s \<noteq> []" and "hd s \<noteq> CHR ''#''" and "CHR ''*'' \<in> set r" and "r \<noteq> ''*''"
    and "match_rule s a = Some (v, q)"
  shows "v = URLFILTERING_NO_MATCH"
proof -
  define l where "l = takeWhile (\<lambda>c. c \<noteq> CHR ''*'') r"
  define t where "t = tl (dropWhile (\<lambda>c. c \<noteq> CHR ''*'') r)"
  define n where "n = length s - length l"
  have "length r < length s" using rule_marks_text [OF assms(1)] by simp
  moreover have "length r = length l + Suc (length t)"
    using assms(4) unfolding l_def t_def by (induction r) auto
  ultimately have n: "length t < n" "n \<noteq> 0" unfolding n_def by simp_all
  have "\<not> (n \<le> length a \<and> strncmp_eq n (drop (length a - n) a) t)"
    using n by (auto simp: strncmp_eq_def dest: arg_cong [of _ _ length])
  then have c: "length a < n \<or> \<not> strncmp_eq n (drop (length a - n) a) t" by linarith
  define lm where "lm = (if l = [] then Some URLFILTERING_BLOCK_MATCH
    else map_option (\<lambda>(m, q). if b \<and> m = URLFILTERING_BLOCK_MATCH \<and> q \<noteq> 0 then URLFILTERING_NO_MATCH else m) (match_rule l a))"
  have eq: "match_rule s a = do {
      leftpart_match \<leftarrow> lm;
      rightpart_match \<leftarrow> map_option (\<lambda>(m, q). if m = URLFILTERING_BLOCK_MATCH then URLFILTERING_NO_MATCH else m) (match_rule t a);
      Some (if p \<and> (if leftpart_match = URLFILTERING_BLOCK_MATCH \<and> rightpart_match = URLFILTERING_BLOCK_MATCH
              then URLFILTERING_BLOCK_MATCH else URLFILTERING_NO_MATCH) = URLFILTERING_BLOCK_MATCH
            then URLFILTERING_POSITIVE_MATCH
            else if leftpart_match = URLFILTERING_BLOCK_MATCH \<and> rightpart_match = URLFILTERING_BLOCK_MATCH
              then URLFILTERING_BLOCK_MATCH else URLFILTERING_NO_MATCH, 0) }"
    using assms(1-5) n(2) c
    by (subst match_rule.simps) (simp add: l_def [symmetric] t_def [symmetric] n_def [symmetric] lm_def [symmetric] Let_def
        del: diff_is_0_eq diff_is_0_eq')
  from eq assms(6) obtain x m k where x: "lm = Some x" and m: "match_rule t a = Some (m, k)"
    by (cases lm; cases "match_rule t a") auto
  have "URLFILTERING_NO_MATCH \<noteq> URLFILTERING_BLOCK_MATCH" by (simp add: utm_consts)
  with eq assms(6) show ?thesis unfolding x m by simp
qed

section \<open>Undefined rules\<close>

lemma last_occurrence_defined: "r \<noteq> [] \<Longrightarrow> strstr a r = Some p \<Longrightarrow> last_occurrence a r p \<noteq> None"
  using last_occurrence_spec strstr_Some(1) by (metis option.distinct(1))

lemma last_occurrence_empty: "last_occurrence a [] p = None"
proof (induction a "[] :: string" p rule: last_occurrence.induct)
  case (1 a p)
  have "strstr b [] = Some 0" for b by (cases b) simp_all
  with 1 show ?case by (subst last_occurrence.simps) simp
qed

lemma strstr_empty: "strstr a [] = Some 0" by (cases a) simp_all

lemma match_plain_defined: "r \<noteq> [] \<or> \<not> e \<Longrightarrow> match_plain r b e a \<noteq> None"
  using last_occurrence_defined [of r a] by (auto simp: match_plain_def Let_def split: option.splits)

lemma right_subset: "set (tl (dropWhile P r)) \<subseteq> set r"
  by (induction r) auto

lemma match_rule_defined: "CHR ''$'' \<notin> set s \<Longrightarrow> match_rule s a \<noteq> None"
proof (induction s rule: length_induct)
  case (1 s)
  obtain p b e r where m: "rule_marks s = (p, b, e, r)" by (metis prod_cases4)
  have r: "CHR ''$'' \<notin> set r" "\<not> e" "length r \<le> length s" using rule_marks_text [OF m] "1.prems" by auto
  define l where "l = takeWhile (\<lambda>c. c \<noteq> CHR ''*'') r"
  define t where "t = tl (dropWhile (\<lambda>c. c \<noteq> CHR ''*'') r)"
  have lt: "CHR ''$'' \<notin> set l" "CHR ''$'' \<notin> set t"
    using r(1) right_subset [of "\<lambda>c. c \<noteq> CHR ''*''" r] unfolding l_def t_def by (auto dest: set_takeWhileD)
  have IH: "\<exists>x. match_rule l a = Some x" "\<exists>x. match_rule t a = Some x" if "CHR ''*'' \<in> set r"
    using "1.IH" lt length_left [OF that] length_right [OF that] r(3) unfolding l_def t_def
    by (metis order_less_le_trans not_None_eq)+
  have mp: "\<exists>x. match_plain r b False a = Some x" using match_plain_defined [of r False b a] by auto
  show ?case
    using m r(2) IH mp
    by (subst match_rule.simps) (auto simp: l_def [symmetric] t_def [symmetric] Let_def)
qed

section \<open>The XML form\<close>

text \<open>The texts of identifiers and rules are the overrides of \<open>urlfilter\<close>.\<close>

definition urlfilter_nodes :: "urlfilter \<Rightarrow> xml list" where
  "urlfilter_nodes f =
     (let orig = urlfilter_clear in
       xml_append_value ''ufid'' out_unsigned (ufid f) (ufid orig)
     @ xml_append_value ''Name'' id (uf_name f) (uf_name orig)
     @ xml_append_value ''File'' id (uf_file f) (uf_file orig)
     @ xml_append_value ''Disabled'' bool_text (is_disabled f) (is_disabled orig)
     @ xml_append_value ''AnyFilter'' bool_text (is_any_filter f) (is_any_filter orig)
     @ xml_append_value ''AddrPart'' out_signed (addr_part f) (addr_part orig)
     @ xml_append_value ''ExtFile'' out_signed (ext_file f) (ext_file orig)
     @ xml_append_data ''Fids'' (ids_to_string (uf_fids f))
     @ xml_append_data ''Rules'' (get_urlrules_str '' '' f))"

definition urlfilter_xml_create :: "urlfilter \<Rightarrow> xml" where
  "urlfilter_xml_create f = Elem ''UrlFilter'' [] (urlfilter_nodes f)"

definition urlfilter_xml_catch_value :: "(string \<Rightarrow> u32 option) \<Rightarrow> string \<Rightarrow> string \<Rightarrow> urlfilter \<Rightarrow> urlfilter option" where
  "urlfilter_xml_catch_value lexical keyname v f =
     (if keyname = ''ufid'' then Some (f\<lparr>ufid := parse_unsigned v\<rparr>)
      else if keyname = ''Name'' then Some (f\<lparr>uf_name := v\<rparr>)
      else if keyname = ''File'' then Some (f\<lparr>uf_file := v\<rparr>)
      else if keyname = ''Disabled'' then Some (f\<lparr>is_disabled := read_bool v\<rparr>)
      else if keyname = ''AnyFilter'' then Some (f\<lparr>is_any_filter := read_bool v\<rparr>)
      else if keyname = ''AddrPart'' then Some (f\<lparr>addr_part := parse_signed v\<rparr>)
      else if keyname = ''ExtFile'' then Some (f\<lparr>ext_file := parse_signed v\<rparr>)
      else if keyname = ''Fids'' then Some (f\<lparr>uf_fids := ids_from_string lexical idset_add v\<rparr>)
      else if keyname = ''Rules'' then Some (parse_urlrules_str v CHR '' '' f)
      else Some f)"

definition urlfilter_xml :: "(string \<Rightarrow> u32 option) \<Rightarrow> urlfilter xml_class" where
  "urlfilter_xml lexical = \<lparr>xc_clear = (\<lambda>f. urlfilter_clear), xc_create = urlfilter_xml_create,
     xc_value = urlfilter_xml_catch_value lexical, xc_subnode = (\<lambda>k n f. Some f)\<rparr>"

definition urlfilter_xml_ok :: "urlfilter \<Rightarrow> bool" where
  "urlfilter_xml_ok f \<longleftrightarrow> CHR 0x00 \<notin> set (uf_name f) \<and> CHR 0x00 \<notin> set (uf_file f) \<and> idset_wf (uf_fids f)
     \<and> list_all (\<lambda>r. r \<noteq> [] \<and> CHR 0x00 \<notin> set r \<and> CHR '' '' \<notin> set r) (urlrules f)"

lemma urlfilter_segments:
  "ufid urlfilter_clear = ufid s \<Longrightarrow> xml_parse_allnodes (urlfilter_xml lx) (xml_append_value ''ufid'' out_unsigned u (ufid urlfilter_clear)) s = Some (s\<lparr>ufid := u\<rparr>)"
  "uf_name s = [] \<Longrightarrow> CHR 0x00 \<notin> set t \<Longrightarrow> xml_parse_allnodes (urlfilter_xml lx) (xml_append_value ''Name'' id t []) s = Some (s\<lparr>uf_name := t\<rparr>)"
  "uf_file s = [] \<Longrightarrow> CHR 0x00 \<notin> set t \<Longrightarrow> xml_parse_allnodes (urlfilter_xml lx) (xml_append_value ''File'' id t []) s = Some (s\<lparr>uf_file := t\<rparr>)"
  "is_disabled urlfilter_clear = is_disabled s \<Longrightarrow> xml_parse_allnodes (urlfilter_xml lx) (xml_append_value ''Disabled'' bool_text b (is_disabled urlfilter_clear)) s = Some (s\<lparr>is_disabled := b\<rparr>)"
  "is_any_filter urlfilter_clear = is_any_filter s \<Longrightarrow> xml_parse_allnodes (urlfilter_xml lx) (xml_append_value ''AnyFilter'' bool_text b (is_any_filter urlfilter_clear)) s = Some (s\<lparr>is_any_filter := b\<rparr>)"
  "addr_part urlfilter_clear = addr_part s \<Longrightarrow> xml_parse_allnodes (urlfilter_xml lx) (xml_append_value ''AddrPart'' out_signed i (addr_part urlfilter_clear)) s = Some (s\<lparr>addr_part := i\<rparr>)"
  "ext_file urlfilter_clear = ext_file s \<Longrightarrow> xml_parse_allnodes (urlfilter_xml lx) (xml_append_value ''ExtFile'' out_signed i (ext_file urlfilter_clear)) s = Some (s\<lparr>ext_file := i\<rparr>)"
  by (simp_all add: parse_value_if parse_text_if urlfilter_xml_def urlfilter_xml_catch_value_def)

lemma fids_segment:
  assumes "\<And>i. lexical (print_u (unat i)) = Some i" and "idset_wf ids" and "uf_fids s = []"
  shows "xml_parse_allnodes (urlfilter_xml lexical) (xml_append_data ''Fids'' (ids_to_string ids)) s = Some (s\<lparr>uf_fids := ids\<rparr>)"
proof (cases "ids = []")
  case True
  then show ?thesis using assms(3) by (simp add: ids_to_string_def parse_empty_data urlfilter_xml_def)
next
  case False
  then show ?thesis
    using ids_to_string_text [of ids] idset_from_to_string [OF assms(1,2) False]
    by (simp add: parse_data xml_text_def urlfilter_xml_def urlfilter_xml_catch_value_def)
qed

lemma rules_text_segment:
  assumes "list_all (\<lambda>r. r \<noteq> [] \<and> CHR 0x00 \<notin> set r \<and> CHR '' '' \<notin> set r) rs" and "urlrules s = []"
  shows "xml_parse_allnodes (urlfilter_xml lexical) (xml_append_data ''Rules'' (join_strings '' '' rs)) s = Some (s\<lparr>urlrules := rs\<rparr>)"
proof (cases "rs = []")
  case True
  then show ?thesis using assms(2) by (simp add: parse_empty_data urlfilter_xml_def)
next
  case False
  have "CHR 0x00 \<notin> set (join_strings '' '' rs)" using set_join [of "'' ''" rs] assms(1) by (auto simp: list_all_iff)
  moreover have "join_strings '' '' rs \<noteq> []" using False assms(1) by (intro join_not_Nil) (cases rs; auto)
  moreover have "split_fields CHR '' '' (join_strings '' '' rs) = rs"
    using assms(1) by (intro split_join [OF False]) (auto simp: list_all_iff)
  moreover have "filter (\<lambda>r. r \<noteq> []) rs = rs" using assms(1) by (simp add: list_all_iff)
  ultimately show ?thesis
    by (simp add: parse_data xml_text_def urlfilter_xml_def urlfilter_xml_catch_value_def parse_urlrules_str_def split_string_def)
qed

lemma urlfilter_nodes_parse:
  assumes "\<And>i. lexical (print_u (unat i)) = Some i" and "urlfilter_xml_ok f"
  shows "xml_parse_allnodes (urlfilter_xml lexical) (urlfilter_nodes f) urlfilter_clear = Some f"
proof -
  have c: "uf_name urlfilter_clear = []" "uf_file urlfilter_clear = []" "uf_fids urlfilter_clear = []" "urlrules urlfilter_clear = []"
    by (simp_all add: urlfilter_clear_def)
  show ?thesis
    using assms(2) unfolding urlfilter_nodes_def urlfilter_xml_ok_def Let_def
    by (simp add: parse_allnodes_append urlfilter_segments fids_segment [OF assms(1)] rules_text_segment
        get_urlrules_str_def c)
qed

lemma urlfilter_element:
  assumes "\<And>i. lexical (print_u (unat i)) = Some i"
  shows "xml_element (urlfilter_xml lexical) ''UrlFilter'' urlfilter_xml_ok"
proof
  show "node_name (xc_create (urlfilter_xml lexical) f) = ''UrlFilter''" for f
    by (simp add: urlfilter_xml_def urlfilter_xml_create_def node_name_def)
  show "node_text (xc_create (urlfilter_xml lexical) f) = []" for f
    by (simp add: urlfilter_xml_def urlfilter_xml_create_def node_text_def urlfilter_nodes_def Let_def find_append find_pcdata)
  show "xml_parse_node (urlfilter_xml lexical) (xc_create (urlfilter_xml lexical) f) False y = Some f"
    if "urlfilter_xml_ok f" for f y
    using urlfilter_nodes_parse [OF assms that]
    by (simp add: urlfilter_xml_def urlfilter_xml_create_def xml_parse_node_def node_children_def)
qed

section \<open>An example\<close>

definition ex_urlfilter :: urlfilter where
  "ex_urlfilter = urlfilter_clear\<lparr>ufid := 3, uf_name := ''ads'', addr_part := 1, uf_fids := [1, 2, 30],
     urlrules := [''+good.com'', ''ads*com'']\<rparr>"

section \<open>Properties\<close>

text \<open>
  C14: a rule is a text between its marks: \<open>^\<close> asks for a prefix of the address, \<open>$\<close> for a
  suffix, both for the whole address and none for a part of it; a leading \<open>+\<close> turns a match into a
  positive match. This holds for every text without \<open>*\<close> that does not itself look like a mark.
\<close>

theorem marked_rule_matches:
  assumes "plain_text r"
  shows "map_option fst (match_rule (mark_rule p b e r) a) =
    Some (if plain_accepts b e r a then (if p then URLFILTERING_POSITIVE_MATCH else URLFILTERING_BLOCK_MATCH)
          else URLFILTERING_NO_MATCH)"
  by (rule match_marked [OF assms])

theorem marked_rule_matches_witness:
  "map_option fst (match_rule ''+^mail.ru'' ''mail.ru.ru'') = Some URLFILTERING_POSITIVE_MATCH
   \<and> map_option fst (match_rule ''mail.ru$'' ''www.mail.ru.ru'') = Some URLFILTERING_NO_MATCH"
proof -
  have p: "plain_text ''mail.ru''" by (simp add: plain_text_def)
  have a: "plain_accepts True False ''mail.ru'' ''mail.ru.ru''" "\<not> plain_accepts False True ''mail.ru'' ''www.mail.ru.ru''"
    by (simp_all add: plain_accepts_def suffix_to_prefix)
  show ?thesis
    using marked_rule_matches [OF p, of True True False "''mail.ru.ru''"]
      marked_rule_matches [OF p, of False False True "''www.mail.ru.ru''"] a
    by (simp add: mark_rule_def)
qed

text \<open>
  a rule of texts separated by \<open>*\<close> matches exactly the addresses in which every one of the
  texts occurs. The texts may occur in any order and may overlap.
\<close>

theorem gap_rule_matches:
  assumes "xs \<noteq> []" and "list_all plain_text xs"
  shows "map_option fst (match_rule (join_strings ''*'' xs) a) =
    Some (if \<forall>x \<in> set xs. sublist x a then URLFILTERING_BLOCK_MATCH else URLFILTERING_NO_MATCH)"
  by (rule match_gaps [OF assms])

theorem gap_rule_matches_witness:
  "map_option fst (match_rule ''mail*ya'' ''ya.mail'') = Some URLFILTERING_BLOCK_MATCH"
proof -
  have "list_all plain_text [''mail'', ''ya'']" by (simp add: plain_text_def)
  moreover have "\<forall>x \<in> set [''mail'', ''ya'']. sublist x ''ya.mail''" by (simp add: sublist_code)
  ultimately show ?thesis using gap_rule_matches [of "[''mail'', ''ya'']" "''ya.mail''"] by simp
qed

text \<open>
  a rule that ends with \<open>*\<close>, and a rule with a \<open>*\<close> and the mark \<open>$\<close>, match no address at all:
  the length of the right part is computed from the whole rule, so it is never 0, and the suffix
  compared is always longer than the right part.
\<close>

theorem gap_rules_never_match:
  assumes "plain_text l"
  shows "match_rule (l @ ''*'') a = Some (URLFILTERING_NO_MATCH, 0)
    \<and> (match_rule (l @ ''*'' @ r @ ''$'') a = Some (v, q) \<longrightarrow> v = URLFILTERING_NO_MATCH)"
proof -
  let ?s = "l @ ''*'' @ r @ ''$''"
  have "rule_marks ?s = (False, False, True, l @ ''*'' @ r)"
    using assms by (auto simp: rule_marks_def strip_mark_def Let_def plain_text_def butlast_append)
  moreover have "?s \<noteq> []" "hd ?s \<noteq> CHR ''#''" "CHR ''*'' \<in> set (l @ ''*'' @ r)" "l @ ''*'' @ r \<noteq> ''*''"
    using assms by (auto simp: plain_text_def append_eq_Cons_conv)
  ultimately show ?thesis using match_trailing_gap [OF assms] match_gap_end by blast
qed

theorem gap_rules_never_match_witness:
  "match_rule ''mail*'' ''mail.ru'' = Some (URLFILTERING_NO_MATCH, 0)"
  using gap_rules_never_match [of "''mail''" "''mail.ru''"] by (simp add: plain_text_def)

text \<open>
  the rules \<open>$\<close>, \<open>+$\<close> and \<open>^$\<close> read past the end of every address (the search for the last
  occurrence of the empty text passes the terminator); a rule without a \<open>$\<close> is always defined.
\<close>

theorem only_end_marks_undefined:
  "match_rule ''$'' a = None \<and> match_rule ''+$'' a = None \<and> match_rule ''^$'' a = None
   \<and> (CHR ''$'' \<notin> set s \<longrightarrow> match_rule s a \<noteq> None)"
proof -
  have "match_plain [] b True a = None" for b
    by (simp add: match_plain_def strstr_empty last_occurrence_empty)
  then have "match_rule ''$'' a = None" "match_rule ''+$'' a = None" "match_rule ''^$'' a = None"
    by (subst match_rule.simps; simp add: rule_marks_def strip_mark_def)+
  then show ?thesis using match_rule_defined by blast
qed

theorem only_end_marks_undefined_witness: "match_rule ''^mail'' ''mail.ru'' \<noteq> None"
  using only_end_marks_undefined [of "''mail.ru''" "''^mail''"] by simp

text \<open>
  a URL filter survives its XML form with its identifiers and rules, for any conversion of
  decimal text to numbers that reads back what is printed. The rules must be non-empty texts without
  blanks, the separator of the list.
\<close>

theorem urlfilter_xml_roundtrip:
  assumes "\<And>i. lexical (print_u (unat i)) = Some i" and "urlfilter_xml_ok f"
  shows "xml_parse_node (urlfilter_xml lexical) (urlfilter_xml_create f) False y = Some f"
  using xml_element.create_parse [OF urlfilter_element [OF assms(1)] assms(2)] by (simp add: urlfilter_xml_def)

theorem urlfilter_xml_roundtrip_witness:
  "xml_parse_node (urlfilter_xml ex_lexical) (urlfilter_xml_create ex_urlfilter) False urlfilter_clear = Some ex_urlfilter"
  by (rule urlfilter_xml_roundtrip [OF ex_lexical_print])
    (simp add: urlfilter_xml_ok_def ex_urlfilter_def urlfilter_clear_def idset_wf_def)

end
