(* ===== verification/Base64.thy ===== *)
theory Base64
  imports Prelude
begin

text \<open>
  \<open>utm/base64.{h,cpp}\<close> and \<open>utm/blob.{h,cpp}\<close>: the base64 text of byte blocks. \<open>encode\<close> and
  \<open>decode\<close> append to the container they are given. Source texts are C strings. \<open>None\<close> is an index
  outside a table or a string.
\<close>

section \<open>Tables\<close>

definition base64enc :: string where
  "base64enc = ''ABCDEFGHIJKLMNOPQRSTUVWXYZabcdefghijklmnopqrstuvwxyz0123456789+/''"

text \<open>The entries are of type \<open>char\<close>; the code widens them to \<open>uint32_t\<close>, which keeps the sign.\<close>

definition base64dec :: "u32 list" where
  "base64dec = replicate 43 (- 1) @ [62] @ replicate 3 (- 1) @ [63]
     @ [52, 53, 54, 55, 56, 57, 58, 59, 60, 61] @ replicate 7 (- 1)
     @ [0, 1, 2, 3, 4, 5, 6, 7, 8, 9, 10, 11, 12, 13, 14, 15, 16, 17, 18, 19, 20, 21, 22, 23, 24, 25]
     @ replicate 6 (- 1)
     @ [26, 27, 28, 29, 30, 31, 32, 33, 34, 35, 36, 37, 38, 39, 40, 41, 42, 43, 44, 45, 46, 47, 48, 49, 50, 51]
     @ replicate 133 (- 1)"

definition b64_mod_table :: "nat list" where "b64_mod_table = [0, 2, 1]"

section \<open>Encoding\<close>

definition b64_char :: "u32 \<Rightarrow> nat \<Rightarrow> char" where
  "b64_char triple k = base64enc ! unat (drop_bit (k * 6) triple AND 0x3F)"

definition b64_quad :: "u8 \<Rightarrow> u8 \<Rightarrow> u8 \<Rightarrow> string" where
  "b64_quad c0 c1 c2 =
     (let triple = push_bit 16 (ucast c0) + push_bit 8 (ucast c1) + ucast c2
      in map (b64_char triple) [3, 2, 1, 0])"

text \<open>The loop: a byte past the end of the source counts as 0.\<close>

fun b64_encode_loop :: "u8 list \<Rightarrow> string \<Rightarrow> string" where
  "b64_encode_loop [] result = result"
| "b64_encode_loop [a] result = result @ b64_quad a 0 0"
| "b64_encode_loop [a, b] result = result @ b64_quad a b 0"
| "b64_encode_loop (a # b # c # src) result = b64_encode_loop src (result @ b64_quad a b c)"

definition b64_encode :: "u8 list \<Rightarrow> string \<Rightarrow> string" where
  "b64_encode src result =
     (let result_len = 4 * ((length src + 2) div 3)
      in fold (\<lambda>k r. r[result_len - 1 - k := CHR ''='']) [0 ..< b64_mod_table ! (length src mod 3)]
           (b64_encode_loop src result))"

section \<open>Decoding\<close>

text \<open>\<open>char\<close> is signed: an index from 128 on is negative.\<close>

definition b64_value :: "char \<Rightarrow> u32 option" where
  "b64_value c =
     (if c = CHR ''='' then Some 0
      else if (of_char c :: nat) < 128 then Some (base64dec ! of_char c) else None)"

definition b64_triple :: "u32 \<Rightarrow> u32 \<Rightarrow> u32 \<Rightarrow> u32 \<Rightarrow> u8 list" where
  "b64_triple s0 s1 s2 s3 =
     (let triple = push_bit 18 s0 + push_bit 12 s1 + push_bit 6 s2 + s3
      in map (\<lambda>k. ucast (drop_bit (k * 8) triple AND 0xFF)) [2, 1, 0])"

text \<open>The loop over groups of four; \<open>j\<close> counts the bytes, those from \<open>outlen\<close> on are dropped.\<close>

fun b64_decode_loop :: "string \<Rightarrow> nat \<Rightarrow> nat \<Rightarrow> u8 list \<Rightarrow> u8 list option" where
  "b64_decode_loop (c0 # c1 # c2 # c3 # src) j outlen result =
     (case (b64_value c0, b64_value c1, b64_value c2, b64_value c3) of
        (Some s0, Some s1, Some s2, Some s3) \<Rightarrow>
          b64_decode_loop src (j + 3) outlen (result @ take (outlen - j) (b64_triple s0 s1 s2 s3))
      | _ \<Rightarrow> None)"
| "b64_decode_loop _ j outlen result = Some result"

text \<open>With an empty source the padding test reads in front of the string.\<close>

definition b64_decode :: "string \<Rightarrow> bool \<Rightarrow> u8 list \<Rightarrow> (bool \<times> u8 list) option" where
  "b64_decode src append_zero result =
     (if length src mod 4 \<noteq> 0 then Some (False, result)
      else if src = [] then None
      else let outlen = length src div 4 * 3 - of_bool (src ! (length src - 1) = CHR ''='')
             - of_bool (src ! (length src - 2) = CHR ''='')
           in map_option (\<lambda>r. (True, if append_zero then r @ [0] else r)) (b64_decode_loop src 0 outlen result))"

section \<open>Blobs\<close>

text \<open>A blob is its bytes; without bytes it holds no block.\<close>

type_synonym blob = "u8 list"

definition blob_clear :: blob where "blob_clear = []"
definition blob_assign :: "blob \<Rightarrow> blob" where "blob_assign rhs = rhs"
definition blob_eq :: "blob \<Rightarrow> blob \<Rightarrow> bool" where
  "blob_eq a b \<longleftrightarrow> (if length a \<noteq> length b then False else if length a = 0 then True else a = b)"

text \<open>\<open>set(data, len)\<close>: a null pointer is \<open>None\<close>.\<close>

definition blob_set :: "u8 list option \<Rightarrow> blob" where
  "blob_set data = (case data of None \<Rightarrow> [] | Some d \<Rightarrow> d)"

definition blob_to_string :: "blob \<Rightarrow> string \<Rightarrow> string" where
  "blob_to_string b str = (if b \<noteq> [] then b64_encode b str else str)"

definition blob_from_string :: "string option \<Rightarrow> blob \<Rightarrow> blob option" where
  "blob_from_string str b = (case str of
      None \<Rightarrow> Some b
    | Some s \<Rightarrow> map_option (\<lambda>(_, v). if v \<noteq> [] then v else b) (b64_decode s False []))"

section \<open>The tables are inverse\<close>

lemma b64_tables:
  assumes "n < 64"
  shows "base64enc ! n \<noteq> CHR ''=''" "(of_char (base64enc ! n) :: nat) < 128"
    "base64dec ! of_char (base64enc ! n) = of_nat n"
proof -
  have "\<forall>n \<in> set [0..<64]. base64enc ! n \<noteq> CHR ''='' \<and> (of_char (base64enc ! n) :: nat) < 128
      \<and> base64dec ! of_char (base64enc ! n) = of_nat n"
    by code_simp
  then show "base64enc ! n \<noteq> CHR ''=''" "(of_char (base64enc ! n) :: nat) < 128"
    "base64dec ! of_char (base64enc ! n) = of_nat n" using assms by simp_all
qed

lemma unat_and_low: "unat (w AND 0x3F) = unat w mod 64" "unat (w AND 0xFF) = unat w mod 256" for w :: u32
proof -
  have "w AND 0x3F = take_bit 6 w" "w AND 0xFF = take_bit 8 w" by (simp_all add: take_bit_eq_mask mask_eq_exp_minus_1)
  then show "unat (w AND 0x3F) = unat w mod 64" "unat (w AND 0xFF) = unat w mod 256"
    by (simp_all only: unsigned_take_bit_eq) (simp_all add: take_bit_eq_mod)
qed

lemma unat_shift: "unat (drop_bit k w) = unat w div 2 ^ k" for w :: u32
  unfolding unat_drop_bit_eq by (simp only: drop_bit_eq_div)

lemma and_low_of_nat: "w AND 0x3F = of_nat (unat w mod 64)" for w :: u32
  by (rule word_unat_eq_iff [THEN iffD2]) (simp add: unat_and_low unat_of_nat)

lemma b64_value_char: "b64_value (b64_char t k) = Some (drop_bit (k * 6) t AND 0x3F)"
  using b64_tables [of "unat (drop_bit (k * 6) t AND 0x3F)"]
  by (simp add: b64_char_def b64_value_def unat_and_low(1)) (simp only: and_low_of_nat)

lemma b64_char_not_pad: "b64_char t k \<noteq> CHR ''=''"
  using b64_tables(1) [of "unat (drop_bit (k * 6) t AND 0x3F)"]
  by (simp add: b64_char_def unat_and_low)

lemma sextets:
  fixes t :: u32
  assumes "unat t < 2 ^ 24"
  shows "push_bit 18 (drop_bit 18 t AND 0x3F) + push_bit 12 (drop_bit 12 t AND 0x3F)
    + push_bit 6 (drop_bit 6 t AND 0x3F) + (t AND 0x3F) = t"
proof -
  have s: "(drop_bit k t AND 0x3F) = of_nat (unat t div 2 ^ k mod 64)" for k
    by (simp only: and_low_of_nat unat_shift)
  have "unat t div 262144 mod 64 * 262144 + unat t div 4096 mod 64 * 4096 + unat t div 64 mod 64 * 64
      + unat t mod 64 = unat t"
  proof -
    define q where "q = unat t div 64 div 64"
    have "unat t div 4096 = q" "unat t div 262144 = q div 64"
      by (simp_all add: q_def div_mult2_eq [symmetric])
    moreover have "q div 64 < 64" using assms by (simp add: q_def div_mult2_eq [symmetric] less_mult_imp_div_less)
    moreover have "q div 64 * 64 + q mod 64 = q" "q * 64 + unat t div 64 mod 64 = unat t div 64"
      "unat t div 64 * 64 + unat t mod 64 = unat t" by (simp_all add: q_def)
    ultimately show ?thesis by (simp only: mod_less)
  qed
  then have "t = of_nat (unat t div 262144 mod 64 * 262144 + unat t div 4096 mod 64 * 4096
      + unat t div 64 mod 64 * 64 + unat t mod 64)" by (simp only:) simp
  also have "\<dots> = push_bit 18 (of_nat (unat t div 262144 mod 64)) + push_bit 12 (of_nat (unat t div 4096 mod 64))
      + push_bit 6 (of_nat (unat t div 64 mod 64)) + of_nat (unat t mod 64)"
    by (simp only: of_nat_add of_nat_mult) (simp only: push_bit_eq_mult of_nat_numeral, simp)
  finally show ?thesis using s [of 18] s [of 12] s [of 6] s [of 0] by simp
qed

definition b64_word :: "u8 \<Rightarrow> u8 \<Rightarrow> u8 \<Rightarrow> u32" where
  "b64_word a b c = push_bit 16 (ucast a) + push_bit 8 (ucast b) + ucast c"

lemma b64_word_bytes:
  "unat (b64_word a b c) = unat a * 65536 + unat b * 256 + unat c"
proof -
  have "(ucast x :: u32) = of_nat (unat x)" for x :: u8 by simp
  then have "b64_word a b c = of_nat (unat a * 65536 + unat b * 256 + unat c)"
    by (simp add: b64_word_def push_bit_eq_mult)
  moreover have "unat a * 65536 + unat b * 256 + unat c < 2 ^ 32"
    using unat_u8_bound [of a] unat_u8_bound [of b] unat_u8_bound [of c] by simp
  ultimately show ?thesis by (simp only: unat_of_nat) simp
qed

lemma byte_of_word:
  fixes w :: u32
  shows "(ucast (drop_bit k w AND 0xFF) :: u8) = of_nat (unat w div 2 ^ k)"
proof (rule word_unat_eq_iff [THEN iffD2])
  show "unat (ucast (drop_bit k w AND 0xFF) :: u8) = unat (of_nat (unat w div 2 ^ k) :: u8)"
    by (simp only: unsigned_ucast_eq take_bit_eq_mod unat_and_low unat_shift unat_of_nat) simp
qed

lemma b64_triple_quad:
  "b64_triple (drop_bit 18 (b64_word a b c) AND 0x3F) (drop_bit 12 (b64_word a b c) AND 0x3F)
     (drop_bit 6 (b64_word a b c) AND 0x3F) (b64_word a b c AND 0x3F) = [a, b, c]"
proof -
  let ?t = "b64_word a b c"
  note u = unat_u8_bound [of a] unat_u8_bound [of b] unat_u8_bound [of c]
  have t: "unat ?t < 2 ^ 24" using u by (simp add: b64_word_bytes)
  have z: "(65536 :: u8) = 0" "(256 :: u8) = 0" by simp_all
  have "(ucast (?t AND 0xFF) :: u8) = c"
    using byte_of_word [of 0 ?t] by (simp only: b64_word_bytes drop_bit_0 id_apply) (simp add: z)
  moreover have "(ucast (drop_bit 8 ?t AND 0xFF) :: u8) = b"
  proof -
    have "(unat a * 65536 + unat b * 256 + unat c) div 2 ^ 8 = unat a * 256 + unat b" using u by simp
    then show ?thesis by (simp only: byte_of_word b64_word_bytes) (simp add: z)
  qed
  moreover have "(ucast (drop_bit 16 ?t AND 0xFF) :: u8) = a"
  proof -
    have "(unat a * 65536 + unat b * 256 + unat c) div 2 ^ 16 = unat a" using u by simp
    then show ?thesis by (simp only: byte_of_word b64_word_bytes) simp
  qed
  ultimately show ?thesis using sextets [OF t] by (simp add: b64_triple_def Let_def)
qed

section \<open>The encoding as a function\<close>

fun b64_text :: "u8 list \<Rightarrow> string" where
  "b64_text [] = []"
| "b64_text [a] = take 2 (b64_quad a 0 0) @ ''==''"
| "b64_text [a, b] = take 3 (b64_quad a b 0) @ ''=''"
| "b64_text (a # b # c # src) = b64_quad a b c @ b64_text src"

lemma b64_quad_text: "b64_quad a b c = map (b64_char (b64_word a b c)) [3, 2, 1, 0]"
  by (simp add: b64_quad_def b64_word_def Let_def)

lemma b64_quad_length: "length (b64_quad a b c) = 4"
  by (simp add: b64_quad_text)

lemma b64_encode_loop_append: "b64_encode_loop src (r @ result) = r @ b64_encode_loop src result"
  by (induction src result arbitrary: r rule: b64_encode_loop.induct) simp_all

text \<open>The padding marks replace the last characters.\<close>

lemma fold_update_append:
  "\<forall>k \<in> set ks. k < n \<Longrightarrow> fold (\<lambda>k r. r[length p + n - 1 - k := x]) ks (p @ s)
     = p @ fold (\<lambda>k r. r[n - 1 - k := x]) ks s"
proof (induction ks arbitrary: s)
  case (Cons k ks)
  then have k: "length p + n - 1 - k = length p + (n - 1 - k)" by auto
  have "fold (\<lambda>k r. r[length p + n - 1 - k := x]) (k # ks) (p @ s)
      = fold (\<lambda>k r. r[length p + n - 1 - k := x]) ks (p @ s[n - 1 - k := x])"
    unfolding fold_simps k by (simp add: list_update_append)
  also have "\<dots> = p @ fold (\<lambda>k r. r[n - 1 - k := x]) ks (s[n - 1 - k := x])" using Cons by simp
  finally show ?case by simp
qed simp

lemma b64_encode_text: "b64_encode src [] = b64_text src"
proof (induction src rule: b64_text.induct)
  case (4 a b c src)
  let ?n = "4 * ((length src + 2) div 3)" and ?q = "b64_quad a b c"
  have m: "length (a # b # c # src) mod 3 = length src mod 3" by simp
  have k: "\<forall>k \<in> set [0 ..< b64_mod_table ! (length src mod 3)]. k < ?n"
  proof (cases "src = []")
    case False
    then have "1 \<le> (length src + 2) div 3" by (cases src) auto
    moreover have "b64_mod_table ! (length src mod 3) \<le> 2"
    proof -
      have "length src mod 3 < 3" by simp
      then have "length src mod 3 = 0 \<or> length src mod 3 = 1 \<or> length src mod 3 = 2" by linarith
      then show ?thesis by (auto simp: b64_mod_table_def)
    qed
    ultimately show ?thesis by auto
  qed (simp add: b64_mod_table_def)
  have "b64_encode_loop (a # b # c # src) [] = ?q @ b64_encode_loop src []"
    using b64_encode_loop_append [of src ?q "[]"] by simp
  moreover have "4 * ((length (a # b # c # src) + 2) div 3) = length ?q + ?n"
    using div_add_self2 [of 3 "length src + 2"] by (simp add: b64_quad_length add.commute)
  ultimately have "b64_encode (a # b # c # src) [] =
      ?q @ fold (\<lambda>k r. r[?n - 1 - k := CHR ''='']) [0 ..< b64_mod_table ! (length src mod 3)] (b64_encode_loop src [])"
    unfolding b64_encode_def Let_def m using fold_update_append [OF k, of ?q "CHR ''=''"] by simp
  then show ?case using 4 by (simp add: b64_encode_def Let_def)
qed (simp_all add: b64_encode_def b64_mod_table_def b64_quad_text upt_rec)

section \<open>Decoding what was encoded\<close>

lemma b64_pad: "b64_value CHR ''='' = Some 0"
  by (simp add: b64_value_def)

lemma b64_low_zero:
  "drop_bit 6 (b64_word a 0 0) AND 0x3F = 0" "b64_word a 0 0 AND 0x3F = 0" "b64_word a b 0 AND 0x3F = 0"
proof -
  have m: "(x * 65536 + 0 * 256 + 0) div 2 ^ 6 mod 64 = 0" "(x * 65536 + y * 256 + 0) mod 64 = 0" for x y :: nat
    by simp_all
  show "drop_bit 6 (b64_word a 0 0) AND 0x3F = 0" "b64_word a 0 0 AND 0x3F = 0" "b64_word a b 0 AND 0x3F = 0"
    by (simp_all only: and_low_of_nat unat_shift b64_word_bytes unsigned_0 m) simp_all
qed

lemma b64_decode_text:
  assumes "outlen = j + length src"
  shows "b64_decode_loop (b64_text src) j outlen result = Some (result @ src)"
  using assms
proof (induction src arbitrary: j result rule: b64_text.induct)
  case 1
  then show ?case by simp
next
  case (2 a)
  then show ?case
    using b64_triple_quad [of a 0 0] b64_low_zero(1,2) [of a]
    by (simp add: b64_quad_text b64_value_char b64_pad)
next
  case (3 a b)
  then show ?case
    using b64_triple_quad [of a b 0] b64_low_zero(3) [of a b]
    by (simp add: b64_quad_text b64_value_char b64_pad)
next
  case (4 a b c src)
  have "b64_decode_loop (b64_text (a # b # c # src)) j outlen result =
      b64_decode_loop (b64_text src) (j + 3) outlen (result @ [a, b, c])"
    using 4 b64_triple_quad [of a b c] by (simp add: b64_quad_text b64_value_char)
  then show ?case using 4 by simp
qed

lemma b64_text_length: "length (b64_text src) = 4 * ((length src + 2) div 3)"
proof (induction src rule: b64_text.induct)
  case (4 a b c src)
  then show ?case using div_add_self2 [of 3 "length src + 2"] by (simp add: b64_quad_length add.commute)
qed (simp_all add: b64_quad_text)

lemma b64_text_long: "src \<noteq> [] \<Longrightarrow> 4 \<le> length (b64_text src)"
  by (cases src rule: b64_text.cases) (simp_all add: b64_quad_text)

lemma b64_text_end:
  "src \<noteq> [] \<Longrightarrow> of_bool (b64_text src ! (length (b64_text src) - 1) = CHR ''='')
     + of_bool (b64_text src ! (length (b64_text src) - 2) = CHR ''='')
     = length (b64_text src) div 4 * 3 - length src
   \<and> length src \<le> length (b64_text src) div 4 * 3"
proof (induction src rule: b64_text.induct)
  case (4 a b c src)
  show ?case
  proof (cases "src = []")
    case True
    then show ?thesis by (simp add: b64_quad_text b64_char_not_pad)
  next
    case False
    then have "4 \<le> length (b64_text src)" by (rule b64_text_long)
    then have "b64_text (a # b # c # src) ! (length (b64_text (a # b # c # src)) - k)
        = b64_text src ! (length (b64_text src) - k)" if "k = 1 \<or> k = 2" for k
      using that by (auto simp: nth_append b64_quad_length)
    moreover have "length (b64_text (a # b # c # src)) div 4 * 3 = length (b64_text src) div 4 * 3 + 3"
      using div_add_self1 [of 4 "length (b64_text src)"] by (simp add: b64_quad_length)
    ultimately show ?thesis using 4 False by simp
  qed
qed (simp_all add: b64_quad_text b64_char_not_pad)

lemma b64_decode_encode:
  assumes "src \<noteq> []"
  shows "b64_decode (b64_text src) False result = Some (True, result @ src)"
proof -
  obtain k where k: "length (b64_text src) = 4 * k" using b64_text_length by blast
  have "b64_text src \<noteq> []" using b64_text_long [OF assms] by auto
  with k have l: "length (b64_text src) mod 4 = 0" "b64_text src \<noteq> []" by simp_all
  moreover have "length (b64_text src) div 4 * 3 - of_bool (b64_text src ! (length (b64_text src) - 1) = CHR ''='')
      - of_bool (b64_text src ! (length (b64_text src) - 2) = CHR ''='') = length src"
    using b64_text_end [OF assms] by linarith
  ultimately show ?thesis using b64_decode_text [of "length src" 0 src result]
    by (simp add: b64_decode_def Let_def)
qed

lemma b64_decode_loop_defined:
  "length s mod 4 = 0 \<Longrightarrow> (b64_decode_loop s j outlen r \<noteq> None) = (\<forall>c \<in> set s. (of_char c :: nat) < 128)"
proof (induction s j outlen r rule: b64_decode_loop.induct)
  case (1 c0 c1 c2 c3 src j outlen result)
  have v: "(b64_value c \<noteq> None) = ((of_char c :: nat) < 128)" for c by (auto simp: b64_value_def)
  let ?rec = "\<lambda>s0 s1 s2 s3. b64_decode_loop src (j + 3) outlen (result @ take (outlen - j) (b64_triple s0 s1 s2 s3))"
  have IH: "(?rec s0 s1 s2 s3 \<noteq> None) = (\<forall>c \<in> set src. (of_char c :: nat) < 128)"
    if "b64_value c0 = Some s0" "b64_value c1 = Some s1" "b64_value c2 = Some s2" "b64_value c3 = Some s3"
    for s0 s1 s2 s3
    by (rule "1.IH") (use that "1.prems" in simp_all)
  have "(b64_decode_loop (c0 # c1 # c2 # c3 # src) j outlen result \<noteq> None) =
      (\<exists>s0 s1 s2 s3. b64_value c0 = Some s0 \<and> b64_value c1 = Some s1 \<and> b64_value c2 = Some s2
         \<and> b64_value c3 = Some s3 \<and> ?rec s0 s1 s2 s3 \<noteq> None)"
    by (simp split: option.split)
  also have "\<dots> = ((b64_value c0 \<noteq> None \<and> b64_value c1 \<noteq> None \<and> b64_value c2 \<noteq> None \<and> b64_value c3 \<noteq> None)
      \<and> (\<forall>c \<in> set src. (of_char c :: nat) < 128))"
    using IH by blast
  finally show ?case unfolding v by simp
qed simp_all

text \<open>The text of bytes is a C string.\<close>

lemma b64_char_enc: "b64_char w k \<in> set base64enc"
proof -
  have "drop_bit (k * 6) w AND 0x3F \<le> (0x3F :: u32)" by (rule word_and_le1)
  then have "unat (drop_bit (k * 6) w AND 0x3F) \<le> 63" by (simp add: word_le_nat_alt del: word_and_le1)
  then show ?thesis unfolding b64_char_def by (intro nth_mem) (simp add: base64enc_def)
qed

lemma b64_text_chars: "set (b64_text src) \<subseteq> insert CHR ''='' (set base64enc)"
proof -
  have "set (b64_quad a b c) \<subseteq> set base64enc" for a b c using b64_char_enc by (auto simp: b64_quad_text)
  moreover have "set (take n (b64_quad a b c)) \<subseteq> set (b64_quad a b c)" for n a b c by (rule set_take_subset)
  ultimately show ?thesis by (induction src rule: b64_text.induct) (force simp del: take_Suc_Cons)+
qed

lemma b64_text_plain: "CHR 0x00 \<notin> set (b64_text src)" "CHR '' '' \<notin> set (b64_text src)"
  using b64_text_chars [of src] by (auto simp: base64enc_def)

section \<open>Properties\<close>

text \<open>
  decoding is the inverse of encoding, and a blob survives its text. Only the empty blob does
  not: it has the empty text, for which the decoder reads in front of the string.
\<close>

theorem base64_roundtrip:
  assumes "src \<noteq> []"
  shows "b64_decode (b64_encode src []) False [] = Some (True, src)
    \<and> blob_from_string (Some (blob_to_string src [])) b = Some src
    \<and> blob_from_string (Some (blob_to_string blob_clear [])) b = None"
  using b64_decode_encode [OF assms, of "[]"] assms
  by (simp add: b64_encode_text blob_from_string_def blob_to_string_def blob_clear_def b64_decode_def)

theorem base64_roundtrip_witness:
  "b64_decode (b64_encode [72, 101, 108, 108] []) False [] = Some (True, [72, 101, 108, 108])"
  using base64_roundtrip [of "[72, 101, 108, 108]"] by simp

text \<open>
  which texts can be decoded. A text whose length is no multiple of four is rejected; any
  other text of 7-bit characters is accepted, also when it has characters that are no base64
  digits; the empty text and the other characters make the decoder read outside its tables.
\<close>

theorem base64_decode_defined:
  "(b64_decode s z r = Some (False, r)) = (length s mod 4 \<noteq> 0)
   \<and> ((\<exists>v. b64_decode s z r = Some (True, v))
      = (length s mod 4 = 0 \<and> s \<noteq> [] \<and> (\<forall>c \<in> set s. (of_char c :: nat) < 128)))"
proof (cases "length s mod 4 = 0 \<and> s \<noteq> []")
  case True
  define outlen where "outlen = length s div 4 * 3 - of_bool (s ! (length s - 1) = CHR ''='')
             - of_bool (s ! (length s - 2) = CHR ''='')"
  have "b64_decode s z r = map_option (\<lambda>r. (True, if z then r @ [0] else r)) (b64_decode_loop s 0 outlen r)"
    using True by (simp add: b64_decode_def outlen_def Let_def)
  then show ?thesis using True b64_decode_loop_defined [of s 0 outlen r] by (cases "b64_decode_loop s 0 outlen r") auto
qed (auto simp: b64_decode_def)

theorem base64_decode_defined_witness: "\<exists>v. b64_decode ''!!!!'' False [] = Some (True, v)"
  using base64_decode_defined [of "''!!!!''" False "[]"] by simp

end
