(* ===== verification/Md5.thy ===== *)
theory Md5
  imports AddrMac
begin

text \<open>
  \<open>utm/md5.{h,cpp}\<close>: the MD5 digest, in 32-bit arithmetic. Texts and blocks are lists of bytes,
  whose lengths are below 2^32. \<open>md5_reference\<close> is the digest of a whole message, padded at once;
  the code feeds the message in pieces through a buffer of 64 bytes.
\<close>

section \<open>The compression of a block\<close>

record md5_context =
  md5_total0 :: u32
  md5_total1 :: u32
  md5_state :: "u32 \<times> u32 \<times> u32 \<times> u32"
  md5_buffer :: "u8 list"

text \<open>The constructor leaves the buffer uninitialised: \<open>fresh\<close>.\<close>

definition md5_context_new :: "u8 list \<Rightarrow> md5_context" where
  "md5_context_new fresh = \<lparr>md5_total0 = 0, md5_total1 = 0,
     md5_state = (0x67452301, 0xEFCDAB89, 0x98BADCFE, 0x10325476), md5_buffer = fresh\<rparr>"

definition get_uint32 :: "u8 list \<Rightarrow> nat \<Rightarrow> u32" where
  "get_uint32 b i = ucast (b ! i) OR push_bit 8 (ucast (b ! (i + 1)))
     OR push_bit 16 (ucast (b ! (i + 2))) OR push_bit 24 (ucast (b ! (i + 3)))"

definition put_uint32 :: "u32 \<Rightarrow> u8 list" where
  "put_uint32 n = [ucast n, ucast (drop_bit 8 n), ucast (drop_bit 16 n), ucast (drop_bit 24 n)]"

definition md5_S :: "u32 \<Rightarrow> nat \<Rightarrow> u32" where
  "md5_S x n = push_bit n x OR drop_bit (32 - n) (x AND 0xFFFFFFFF)"

definition md5_F1 :: "u32 \<Rightarrow> u32 \<Rightarrow> u32 \<Rightarrow> u32" where "md5_F1 x y z = z XOR (x AND (y XOR z))"
definition md5_F2 :: "u32 \<Rightarrow> u32 \<Rightarrow> u32 \<Rightarrow> u32" where "md5_F2 x y z = y XOR (z AND (x XOR y))"
definition md5_F3 :: "u32 \<Rightarrow> u32 \<Rightarrow> u32 \<Rightarrow> u32" where "md5_F3 x y z = x XOR y XOR z"
definition md5_F4 :: "u32 \<Rightarrow> u32 \<Rightarrow> u32 \<Rightarrow> u32" where "md5_F4 x y z = y XOR (x OR NOT z)"

text \<open>
  One line \<open>P(a, b, c, d, k, s, t)\<close>. The four variables change places from line to line; the
  result lists them in the order of the next line.
\<close>

definition md5_P ::
  "(u32 \<Rightarrow> u32 \<Rightarrow> u32 \<Rightarrow> u32) \<Rightarrow> u32 list \<Rightarrow> nat \<times> nat \<times> u32 \<Rightarrow> u32 \<times> u32 \<times> u32 \<times> u32
     \<Rightarrow> u32 \<times> u32 \<times> u32 \<times> u32"
where
  "md5_P F X = (\<lambda>(k, s, t) (a, b, c, d). (d, md5_S (a + (F b c d + X ! k + t)) s + b, b, c))"

text \<open>The lines of the four rounds: \<open>k\<close>, \<open>s\<close>, \<open>t\<close>.\<close>

definition md5_round1 :: "(nat \<times> nat \<times> u32) list" where
  "md5_round1 =
     [(0, 7, 0xD76AA478), (1, 12, 0xE8C7B756), (2, 17, 0x242070DB), (3, 22, 0xC1BDCEEE),
      (4, 7, 0xF57C0FAF), (5, 12, 0x4787C62A), (6, 17, 0xA8304613), (7, 22, 0xFD469501),
      (8, 7, 0x698098D8), (9, 12, 0x8B44F7AF), (10, 17, 0xFFFF5BB1), (11, 22, 0x895CD7BE),
      (12, 7, 0x6B901122), (13, 12, 0xFD987193), (14, 17, 0xA679438E), (15, 22, 0x49B40821)]"

definition md5_round2 :: "(nat \<times> nat \<times> u32) list" where
  "md5_round2 =
     [(1, 5, 0xF61E2562), (6, 9, 0xC040B340), (11, 14, 0x265E5A51), (0, 20, 0xE9B6C7AA),
      (5, 5, 0xD62F105D), (10, 9, 0x02441453), (15, 14, 0xD8A1E681), (4, 20, 0xE7D3FBC8),
      (9, 5, 0x21E1CDE6), (14, 9, 0xC33707D6), (3, 14, 0xF4D50D87), (8, 20, 0x455A14ED),
      (13, 5, 0xA9E3E905), (2, 9, 0xFCEFA3F8), (7, 14, 0x676F02D9), (12, 20, 0x8D2A4C8A)]"

definition md5_round3 :: "(nat \<times> nat \<times> u32) list" where
  "md5_round3 =
     [(5, 4, 0xFFFA3942), (8, 11, 0x8771F681), (11, 16, 0x6D9D6122), (14, 23, 0xFDE5380C),
      (1, 4, 0xA4BEEA44), (4, 11, 0x4BDECFA9), (7, 16, 0xF6BB4B60), (10, 23, 0xBEBFBC70),
      (13, 4, 0x289B7EC6), (0, 11, 0xEAA127FA), (3, 16, 0xD4EF3085), (6, 23, 0x04881D05),
      (9, 4, 0xD9D4D039), (12, 11, 0xE6DB99E5), (15, 16, 0x1FA27CF8), (2, 23, 0xC4AC5665)]"

definition md5_round4 :: "(nat \<times> nat \<times> u32) list" where
  "md5_round4 =
     [(0, 6, 0xF4292244), (7, 10, 0x432AFF97), (14, 15, 0xAB9423A7), (5, 21, 0xFC93A039),
      (12, 6, 0x655B59C3), (3, 10, 0x8F0CCC92), (10, 15, 0xFFEFF47D), (1, 21, 0x85845DD1),
      (8, 6, 0x6FA87E4F), (15, 10, 0xFE2CE6E0), (6, 15, 0xA3014314), (13, 21, 0x4E0811A1),
      (4, 6, 0xF7537E82), (11, 10, 0xBD3AF235), (2, 15, 0x2AD7D2BB), (9, 21, 0xEB86D391)]"

definition md5_process :: "u32 \<times> u32 \<times> u32 \<times> u32 \<Rightarrow> u8 list \<Rightarrow> u32 \<times> u32 \<times> u32 \<times> u32" where
  "md5_process state data =
     (let X = map (get_uint32 data) [0, 4, 8, 12, 16, 20, 24, 28, 32, 36, 40, 44, 48, 52, 56, 60];
          r1 = fold (md5_P md5_F1 X) md5_round1 state;
          r2 = fold (md5_P md5_F2 X) md5_round2 r1;
          r3 = fold (md5_P md5_F3 X) md5_round3 r2;
          (A, B, C, D) = fold (md5_P md5_F4 X) md5_round4 r3;
          (a, b, c, d) = state
      in (a + A, b + B, c + C, d + D))"

section \<open>Feeding a message\<close>

text \<open>\<open>while (length >= 64)\<close>: the state and the rest of the input.\<close>

function md5_blocks :: "u32 \<times> u32 \<times> u32 \<times> u32 \<Rightarrow> u8 list \<Rightarrow> (u32 \<times> u32 \<times> u32 \<times> u32) \<times> u8 list" where
  "md5_blocks state input =
     (if length input \<ge> 64 then md5_blocks (md5_process state (take 64 input)) (drop 64 input)
      else (state, input))"
  by pat_completeness auto
termination by (relation "measure (\<lambda>(s, i). length i)") auto

declare md5_blocks.simps [simp del]

text \<open>\<open>memcpy(buffer + left, data, n)\<close>.\<close>

definition md5_copy :: "nat \<Rightarrow> u8 list \<Rightarrow> u8 list \<Rightarrow> u8 list" where
  "md5_copy left data buffer = take left buffer @ data @ drop (left + length data) buffer"

definition md5_update :: "u8 list \<Rightarrow> md5_context \<Rightarrow> md5_context" where
  "md5_update input ctx =
     (if input = [] then ctx
      else let left = unat (md5_total0 ctx AND 0x3F);
               fill = 64 - left;
               t0 = md5_total0 ctx + of_nat (length input);
               c1 = ctx\<lparr>md5_total0 := t0,
                        md5_total1 := (if t0 < of_nat (length input) then md5_total1 ctx + 1 else md5_total1 ctx)\<rparr>;
               (left1, input1, c2) =
                 (if left \<noteq> 0 \<and> length input \<ge> fill
                  then let buf = md5_copy left (take fill input) (md5_buffer c1)
                       in (0, drop fill input, c1\<lparr>md5_buffer := buf, md5_state := md5_process (md5_state c1) buf\<rparr>)
                  else (left, input, c1));
               (st, rest) = md5_blocks (md5_state c2) input1;
               c3 = c2\<lparr>md5_state := st\<rparr>
           in if rest \<noteq> [] then c3\<lparr>md5_buffer := md5_copy left1 rest (md5_buffer c3)\<rparr> else c3)"

definition md5_padding :: "u8 list" where "md5_padding = 0x80 # replicate 63 0"

definition md5_digest :: "u32 \<times> u32 \<times> u32 \<times> u32 \<Rightarrow> u8 list" where
  "md5_digest = (\<lambda>(a, b, c, d). put_uint32 a @ put_uint32 b @ put_uint32 c @ put_uint32 d)"

text \<open>The digest and its text.\<close>

definition md5_finish :: "md5_context \<Rightarrow> u8 list \<times> string" where
  "md5_finish ctx =
     (let high = drop_bit 29 (md5_total0 ctx) OR push_bit 3 (md5_total1 ctx);
          low = push_bit 3 (md5_total0 ctx);
          msglen = put_uint32 low @ put_uint32 high;
          last = unat (md5_total0 ctx AND 0x3F);
          padn = (if last < 56 then 56 - last else 120 - last);
          ctx' = md5_update msglen (md5_update (take padn md5_padding) ctx);
          digest = md5_digest (md5_state ctx')
      in (digest, concat (map byte_hex digest)))"

definition md5_string :: "u8 list \<Rightarrow> string \<Rightarrow> string" where
  "md5_string fresh input =
     snd (md5_finish (md5_update (map of_char input) (md5_context_new fresh)))"


section \<open>The digest of a whole message\<close>

definition md5_length :: "nat \<Rightarrow> u8 list" where
  "md5_length n = map (\<lambda>i. ucast (drop_bit (8 * i) (push_bit 3 (of_nat n :: u64)))) [0, 1, 2, 3, 4, 5, 6, 7]"

definition md5_pad :: "u8 list \<Rightarrow> u8 list" where
  "md5_pad m = m @ 0x80 # replicate ((119 - length m mod 64) mod 64) 0 @ md5_length (length m)"

definition md5_init :: "u32 \<times> u32 \<times> u32 \<times> u32" where
  "md5_init = md5_state (md5_context_new [])"

definition md5_reference :: "u8 list \<Rightarrow> u8 list" where
  "md5_reference m = md5_digest (fst (md5_blocks md5_init (md5_pad m)))"

section \<open>A context holds a message\<close>

lemma md5_blocks_append:
  "md5_blocks st (m @ x) = md5_blocks (fst (md5_blocks st m)) (snd (md5_blocks st m) @ x)"
proof (induction st m rule: md5_blocks.induct)
  case (1 st m)
  show ?case
  proof (cases "length m \<ge> 64")
    case True
    then have "md5_blocks st (m @ x) = md5_blocks (md5_process st (take 64 m)) (drop 64 m @ x)"
      by (subst md5_blocks.simps) simp
    also have "\<dots> = md5_blocks (fst (md5_blocks st m)) (snd (md5_blocks st m) @ x)"
      unfolding "1.IH" [OF True] using True md5_blocks.simps [of st m] by simp
    finally show ?thesis .
  next
    case False
    then show ?thesis using md5_blocks.simps [of st m] by simp
  qed
qed

lemma md5_blocks_rest: "length (snd (md5_blocks st m)) = length m mod 64"
proof (induction st m rule: md5_blocks.induct)
  case (1 st m)
  then show ?case by (subst md5_blocks.simps) (auto simp: le_mod_geq)
qed

lemma md5_blocks_one: "length b = 64 \<Longrightarrow> md5_blocks st (b @ x) = md5_blocks (md5_process st b) x"
  by (subst md5_blocks.simps) simp

lemma md5_blocks_short: "length x < 64 \<Longrightarrow> md5_blocks st x = (st, x)"
  by (subst md5_blocks.simps) simp

definition md5_holds :: "md5_context \<Rightarrow> u8 list \<Rightarrow> bool" where
  "md5_holds ctx m \<longleftrightarrow>
     (unat (md5_total0 ctx) + 2 ^ 32 * unat (md5_total1 ctx)) mod 2 ^ 64 = length m mod 2 ^ 64
     \<and> length (md5_buffer ctx) = 64
     \<and> md5_blocks md5_init m = (md5_state ctx, take (length m mod 64) (md5_buffer ctx))"

lemma md5_new_holds: "length fresh = 64 \<Longrightarrow> md5_holds (md5_context_new fresh) []"
  by (simp add: md5_holds_def md5_blocks_short md5_init_def md5_context_new_def)

lemma mod64: "x mod 2 ^ 64 mod 64 = x mod (64 :: nat)"
proof -
  have "(64 :: nat) dvd 2 ^ 64" by (rule dvdI [of _ _ "2 ^ 58"]) simp
  then show ?thesis by (rule mod_mod_cancel)
qed

lemma md5_left:
  assumes "md5_holds ctx m"
  shows "unat (md5_total0 ctx AND 0x3F) = length m mod 64"
proof -
  have "md5_total0 ctx AND 0x3F = take_bit 6 (md5_total0 ctx)" by (simp add: take_bit_eq_mask mask_eq_exp_minus_1)
  then have "unat (md5_total0 ctx AND 0x3F) = unat (md5_total0 ctx) mod 64"
    by (simp only: unsigned_take_bit_eq) (simp add: take_bit_eq_mod)
  also have "\<dots> = (unat (md5_total0 ctx) + 64 * (67108864 * unat (md5_total1 ctx))) mod 64"
    by (simp only: mod_mult_self2)
  also have "\<dots> = (unat (md5_total0 ctx) + 2 ^ 32 * unat (md5_total1 ctx)) mod 2 ^ 64 mod 64"
    by (simp only: mod64) simp
  also have "\<dots> = length m mod 2 ^ 64 mod 64" using assms unfolding md5_holds_def by (simp only:)
  also have "\<dots> = length m mod 64" by (rule mod64)
  finally show ?thesis .
qed

lemma u32_sum:
  fixes a :: u32
  assumes "l < 2 ^ 32"
  shows "unat (a + of_nat l) = (if unat a + l < 2 ^ 32 then unat a + l else unat a + l - 2 ^ 32)"
    and "(a + of_nat l < of_nat l) = (\<not> unat a + l < 2 ^ 32)"
proof -
  have l: "unat (of_nat l :: u32) = l" using assms by (simp add: unat_of_nat)
  have "unat (a + of_nat l) = (unat a + l) mod 2 ^ 32" unfolding unat_word_ariths l by simp
  then show s: "unat (a + of_nat l) = (if unat a + l < 2 ^ 32 then unat a + l else unat a + l - 2 ^ 32)"
    using assms unat_u32_bound [of a] by (simp add: mod_if)
  show "(a + of_nat l < of_nat l) = (\<not> unat a + l < 2 ^ 32)"
    using assms unat_u32_bound [of a] unfolding word_less_nat_alt l s by (cases "unat a + l < 2 ^ 32") auto
qed

lemma carry_mod:
  fixes M :: nat
  shows "(M * ((b + 1) mod M)) mod (M * M) = (M * (b + 1)) mod (M * M)"
  by (simp only: mult_mod_right mod_mod_trivial)

lemma md5_total_step:
  fixes a b :: u32
  assumes "(unat a + 2 ^ 32 * unat b) mod 2 ^ 64 = n mod 2 ^ 64" and "l < 2 ^ 32"
  shows "(unat (a + of_nat l) + 2 ^ 32 * unat (if a + of_nat l < of_nat l then b + 1 else b)) mod 2 ^ 64
    = (n + l) mod 2 ^ 64"
proof -
  define M :: nat where "M = 2 ^ 32"
  have M: "(2 :: nat) ^ 64 = M * M" unfolding M_def by simp
  have n: "(n + l) mod (M * M) = (unat a + l + M * unat b) mod (M * M)"
  proof -
    have "(unat a + M * unat b) mod (M * M) = n mod (M * M)"
      using assms(1) unfolding M M_def [symmetric] .
    from mod_add_cong [OF this refl, of l] show ?thesis by (simp only: ac_simps)
  qed
  note s = u32_sum [OF assms(2), of a, folded M_def]
  show ?thesis
  proof (cases "unat a + l < M")
    case True
    then show ?thesis unfolding M n by (simp only: s if_True not_True_eq_False if_False M_def [symmetric])
  next
    case False
    have b: "unat (b + 1) = (unat b + 1) mod M" unfolding unat_word_ariths M_def by simp
    have "unat a + l + M * unat b = (unat a + l - M) + M * (unat b + 1)"
      using False by (simp only: add_mult_distrib2 mult_1_right)
    then have "(n + l) mod (M * M) = ((unat a + l - M) + M * (unat b + 1)) mod (M * M)"
      unfolding n by (rule arg_cong)
    also have "\<dots> = ((unat a + l - M) + M * ((unat b + 1) mod M)) mod (M * M)"
      by (rule mod_add_cong [OF refl carry_mod [symmetric]])
    finally show ?thesis using False unfolding M by (simp only: s b if_False not_False_eq_True if_True M_def [symmetric])
  qed
qed

lemma md5_copy_length: "left + length d \<le> length b \<Longrightarrow> length (md5_copy left d b) = length b"
  by (simp add: md5_copy_def)

lemma take_md5_copy: "left + length d \<le> length b \<Longrightarrow> take (left + length d) (md5_copy left d b) = take left b @ d"
  by (simp add: md5_copy_def)

text \<open>Feeding a piece: the context then holds the message with the piece appended.\<close>

lemma md5_update_holds:
  assumes "md5_holds ctx m" and "length x < 2 ^ 32"
  shows "md5_holds (md5_update x ctx) (m @ x)"
proof (cases "x = []")
  case True
  then show ?thesis using assms(1) by (simp add: md5_update_def)
next
  case False
  let ?l = "length m mod 64" and ?st = "md5_state ctx" and ?r = "take (length m mod 64) (md5_buffer ctx)"
  have h: "length (md5_buffer ctx) = 64" "md5_blocks md5_init m = (?st, ?r)"
    using assms(1) by (simp_all add: md5_holds_def)
  have l: "?l < 64" by simp
  have r: "length ?r = ?l" using h(1) by simp
  have len: "length (m @ x) mod 64 = (?l + length x) mod 64" by (simp add: mod_add_left_eq)
  define t0 where "t0 = md5_total0 ctx + of_nat (length x)"
  define t1 where "t1 = (if t0 < of_nat (length x) then md5_total1 ctx + 1 else md5_total1 ctx)"
  have tot: "(unat t0 + 2 ^ 32 * unat t1) mod 2 ^ 64 = length (m @ x) mod 2 ^ 64"
    using md5_total_step [of "md5_total0 ctx" "md5_total1 ctx" "length m" "length x"] assms
    unfolding t0_def t1_def md5_holds_def by simp
  have blk: "md5_blocks md5_init (m @ x) = md5_blocks ?st (?r @ x)"
    using md5_blocks_append [of md5_init m x] by (simp add: h(2))
  obtain left1 input1 buf st1 where s:
    "(if ?l \<noteq> 0 \<and> length x \<ge> 64 - ?l
      then (0, drop (64 - ?l) x, md5_copy ?l (take (64 - ?l) x) (md5_buffer ctx),
            md5_process ?st (md5_copy ?l (take (64 - ?l) x) (md5_buffer ctx)))
      else (?l, x, md5_buffer ctx, ?st)) = (left1, input1, buf, st1)" by (metis prod_cases4)
  obtain st rest where b: "md5_blocks st1 input1 = (st, rest)" by fastforce
  have u: "md5_update x ctx = ctx\<lparr>md5_total0 := t0, md5_total1 := t1, md5_state := st,
      md5_buffer := (if rest \<noteq> [] then md5_copy left1 rest buf else buf)\<rparr>"
  proof (cases "?l \<noteq> 0 \<and> length x \<ge> 64 - ?l")
    case True
    then have "left1 = 0" "input1 = drop (64 - ?l) x" "buf = md5_copy ?l (take (64 - ?l) x) (md5_buffer ctx)"
      "st1 = md5_process ?st buf" using s by auto
    then show ?thesis using False True b
      by (simp add: md5_update_def md5_left [OF assms(1)] t0_def [symmetric] t1_def [symmetric] Let_def)
  next
    case c: False
    then have "left1 = ?l" "input1 = x" "buf = md5_buffer ctx" "st1 = ?st" using s by auto
    then show ?thesis using False c b
      by (auto simp: md5_update_def md5_left [OF assms(1)] t0_def [symmetric] t1_def [symmetric] Let_def)
  qed
  have key: "length buf = 64 \<and> md5_blocks ?st (?r @ x) = (st, take left1 buf @ rest)
      \<and> left1 + length rest = (?l + length x) mod 64 \<and> (rest = [] \<longrightarrow> left1 = 0)"
  proof (cases "?l \<noteq> 0 \<and> length x \<ge> 64 - ?l")
    case True
    let ?f = "take (64 - ?l) x"
    have f: "length ?f = 64 - ?l" using True by simp
    have buf: "buf = ?r @ ?f" "left1 = 0" "input1 = drop (64 - ?l) x" "st1 = md5_process ?st buf"
      using s True f h(1) by (auto simp: md5_copy_def)
    have "?r @ x = buf @ input1" unfolding buf by simp
    moreover have "length buf = 64" unfolding buf using f r l by simp
    ultimately have "md5_blocks ?st (?r @ x) = (st, rest)" using b buf(4) by (simp add: md5_blocks_one)
    moreover have "length rest = (?l + length x) mod 64"
      using md5_blocks_rest [of ?st "?r @ x"] calculation r by simp
    ultimately show ?thesis using \<open>length buf = 64\<close> buf(2) by simp
  next
    case False
    then have e: "left1 = ?l" "input1 = x" "buf = md5_buffer ctx" "st1 = ?st" using s by auto
    show ?thesis
    proof (cases "?l = 0")
      case True
      then show ?thesis using b e h(1) md5_blocks_rest [of ?st x] by simp
    next
      case nz: False
      with False have short: "?l + length x < 64" by linarith
      then have "md5_blocks ?st x = (?st, x)" by (simp add: md5_blocks_short)
      moreover have "md5_blocks ?st (?r @ x) = (?st, ?r @ x)" using short r by (intro md5_blocks_short) simp
      ultimately show ?thesis using b e h(1) short \<open>x \<noteq> []\<close> by simp
    qed
  qed
  have lb: "left1 + length rest \<le> length buf"
  proof -
    have "(?l + length x) mod 64 < 64" by simp
    then show ?thesis using key by linarith
  qed
  have "take (left1 + length rest) (if rest \<noteq> [] then md5_copy left1 rest buf else buf) = take left1 buf @ rest"
    using take_md5_copy [OF lb] by simp
  then have "md5_blocks md5_init (m @ x) = (st, take (length (m @ x) mod 64) (if rest \<noteq> [] then md5_copy left1 rest buf else buf))"
    using key blk len by simp
  moreover have "length (if rest \<noteq> [] then md5_copy left1 rest buf else buf) = 64"
    using md5_copy_length [OF lb] key by simp
  ultimately show ?thesis using tot unfolding u md5_holds_def by simp
qed

section \<open>Padding\<close>

definition total64 :: "md5_context \<Rightarrow> u64" where
  "total64 ctx = push_bit 32 (ucast (md5_total1 ctx)) OR ucast (md5_total0 ctx)"

lemma total64_length:
  assumes "md5_holds ctx m"
  shows "total64 ctx = of_nat (length m)"
proof -
  have "total64 ctx = push_bit 32 (ucast (md5_total1 ctx)) + ucast (md5_total0 ctx)"
    unfolding total64_def
    by (rule disjunctive_add_eq_or [symmetric]) (auto simp: bit_eq_iff bit_simps dest: bit_imp_le_length)
  also have "\<dots> = of_nat (2 ^ 32 * unat (md5_total1 ctx) + unat (md5_total0 ctx))"
    by (simp add: push_bit_eq_mult)
  also have "\<dots> = of_nat (length m)"
  proof (rule word_unat_eq_iff [THEN iffD2])
    show "unat (of_nat (2 ^ 32 * unat (md5_total1 ctx) + unat (md5_total0 ctx)) :: u64) = unat (of_nat (length m) :: u64)"
    proof -
      have p: "(2 :: nat) ^ LENGTH(64) = 2 ^ 64" by simp
      show ?thesis using assms unfolding md5_holds_def unat_of_nat p
        by (simp only: add.commute [of "2 ^ 32 * unat (md5_total1 ctx)"])
    qed
  qed
  finally show ?thesis .
qed

lemma md5_msglen:
  fixes t0 t1 :: u32
  defines "w \<equiv> push_bit 32 (ucast t1) OR ucast t0 :: u64"
  shows "put_uint32 (push_bit 3 t0) @ put_uint32 (drop_bit 29 t0 OR push_bit 3 t1)
    = map (\<lambda>i. ucast (drop_bit (8 * i) (push_bit 3 w))) [0, 1, 2, 3, 4, 5, 6, 7]"
  by (simp add: put_uint32_def w_def) (auto simp: bit_eq_iff bit_simps dest: bit_imp_le_length)

lemma pad_count:
  fixes n :: nat
  defines "l \<equiv> n mod 64"
  shows "(if l < 56 then 56 - l else 120 - l) = Suc ((119 - l) mod 64)"
    and "(n + Suc ((119 - l) mod 64) + 8) mod 64 = 0"
proof -
  have l: "l < 64" by (simp add: l_def)
  have z: "(119 - l) mod 64 = (if l < 56 then 55 - l else 119 - l)"
  proof (cases "l < 56")
    case True
    then have "119 - l = (55 - l) + 64" by simp
    then show ?thesis using True by (simp only: mod_add_self2 if_True) simp
  qed (use l in simp)
  show "(if l < 56 then 56 - l else 120 - l) = Suc ((119 - l) mod 64)"
    unfolding z using l by presburger
  have "(n + Suc ((119 - l) mod 64) + 8) mod 64 = (l + (9 + (119 - l) mod 64)) mod 64"
    unfolding l_def mod_add_left_eq by (simp add: ac_simps)
  also have "\<dots> = 0" using z l by (cases "l < 56") simp_all
  finally show "(n + Suc ((119 - l) mod 64) + 8) mod 64 = 0" .
qed

lemma md5_finish_holds:
  assumes "md5_holds ctx m"
  shows "md5_finish ctx = (md5_reference m, concat (map byte_hex (md5_reference m)))"
proof -
  let ?z = "(119 - length m mod 64) mod 64"
  define p where "p = (0x80 :: u8) # replicate ?z 0"
  have padn: "take (if length m mod 64 < 56 then 56 - length m mod 64 else 120 - length m mod 64) md5_padding = p"
    unfolding pad_count(1) p_def md5_padding_def by (simp add: min_def)
  have msg: "put_uint32 (push_bit 3 (md5_total0 ctx)) @ put_uint32 (drop_bit 29 (md5_total0 ctx) OR push_bit 3 (md5_total1 ctx))
      = md5_length (length m)"
    unfolding md5_msglen md5_length_def total64_def [symmetric] total64_length [OF assms] ..
  have "length p < 2 ^ 32"
  proof -
    have "length p \<le> 64" by (simp add: p_def)
    then show ?thesis by (rule order_le_less_trans) simp
  qed
  from md5_update_holds [OF md5_update_holds [OF assms this], of "md5_length (length m)"]
  have "md5_holds (md5_update (md5_length (length m)) (md5_update p ctx)) (md5_pad m)"
    by (simp add: md5_length_def md5_pad_def p_def)
  then have "md5_state (md5_update (md5_length (length m)) (md5_update p ctx)) = fst (md5_blocks md5_init (md5_pad m))"
    by (simp add: md5_holds_def)
  then show ?thesis
    by (simp only: md5_finish_def Let_def md5_left [OF assms] padn msg md5_reference_def)
qed

lemma fold_update_holds:
  "md5_holds ctx m \<Longrightarrow> list_all (\<lambda>x. length x < 2 ^ 32) xs \<Longrightarrow> md5_holds (fold md5_update xs ctx) (m @ concat xs)"
  by (induction xs arbitrary: ctx m) (simp_all add: md5_update_holds del: append_assoc add: append_assoc [symmetric])

lemma md5_pad_blocks: "length (md5_pad m) mod 64 = 0"
  using pad_count(2) [of "length m"] by (simp add: md5_pad_def md5_length_def)

text \<open>The digest of a known text, by evaluation.\<close>

lemma md5_abc: "md5_string (replicate 64 0) ''abc'' = ''900150983cd24fb0d6963f7d28e17f72''"
  by code_simp

section \<open>Properties\<close>

text \<open>
  C25: the digest does not depend on how the message is cut into pieces or on the contents of the
  fresh buffer: it is the digest of the whole message, padded to a multiple of 64 bytes and
  compressed block by block; the text is the digest in hexadecimal.
\<close>

theorem md5_streaming:
  assumes "length fresh = 64" and "list_all (\<lambda>x. length x < 2 ^ 32) xs"
  shows "md5_finish (fold md5_update xs (md5_context_new fresh)) =
      (md5_reference (concat xs), concat (map byte_hex (md5_reference (concat xs))))
    \<and> length (md5_pad (concat xs)) mod 64 = 0"
  using md5_finish_holds [OF fold_update_holds [OF md5_new_holds [OF assms(1)] assms(2)]] md5_pad_blocks by simp

theorem md5_streaming_witness:
  "fst (md5_finish (fold md5_update [[97], [98, 99]] (md5_context_new (replicate 64 7)))) = md5_reference [97, 98, 99]"
  using md5_streaming [of "replicate 64 7" "[[97], [98, 99]]"] by simp

end
