(* ===== verification/FsUser.thy ===== *)
theory FsUser
  imports IdSet Xml Md5 UTime UBaseList
begin

text \<open>
  \<open>corefilters/fsuser*.{h,cpp}\<close> and \<open>userlist.{h,cpp}\<close>: the users of a filter set, their
  expiry, their password check and their XML form.
\<close>

definition USER_ACCESS_SPECIFIED_FILTERS :: i32 where [utm_consts]: "USER_ACCESS_SPECIFIED_FILTERS = 0"
definition USER_ACCESS_ALL_FILTERS :: i32 where [utm_consts]: "USER_ACCESS_ALL_FILTERS = 1"
definition USER_AUTHMODE_NATIVE :: i32 where [utm_consts]: "USER_AUTHMODE_NATIVE = 0"
definition USER_AUTHMODE_DOMAIN :: i32 where [utm_consts]: "USER_AUTHMODE_DOMAIN = 1"
definition USER_ACCOUNT_ENABLED :: i32 where [utm_consts]: "USER_ACCOUNT_ENABLED = 0"
definition USER_ACCOUNT_DISABLED :: i32 where [utm_consts]: "USER_ACCOUNT_DISABLED = 1"
definition USER_ACCOUNT_WILLEXPIRE :: i32 where [utm_consts]: "USER_ACCOUNT_WILLEXPIRE = 2"

record fsuser =
  m_uid :: u32
  m_szName :: string
  m_szDescr :: string
  m_szPasswd :: string
  m_nAuthMode :: i32
  m_nStatus :: i32
  m_nExpireDt :: i32
  m_nManageFilters :: i32
  m_nType :: i32
  m_nDenyDoubleLogins :: i32
  us_fids :: "u32 list"

definition fsuser_clear :: fsuser where
  "fsuser_clear = \<lparr>m_uid = 0, m_szName = [], m_szDescr = [], m_szPasswd = [], 
     m_nAuthMode = 0, m_nStatus = 0, m_nExpireDt = 0, m_nManageFilters = 0, m_nType = 0, m_nDenyDoubleLogins = 0, us_fids = []\<rparr>"

definition fsuser_eq :: "fsuser \<Rightarrow> fsuser \<Rightarrow> bool" where
  "fsuser_eq a b \<longleftrightarrow> m_uid a = m_uid b \<and> m_szName a = m_szName b \<and> m_szDescr a = m_szDescr b \<and> m_szPasswd a = m_szPasswd b
     \<and> m_nAuthMode a = m_nAuthMode b \<and> m_nStatus a = m_nStatus b \<and> m_nExpireDt a = m_nExpireDt b \<and> m_nManageFilters a = m_nManageFilters b
     \<and> m_nType a = m_nType b \<and> m_nDenyDoubleLogins a = m_nDenyDoubleLogins b \<and> us_fids a = us_fids b"

definition fsuser_new :: "string \<Rightarrow> fsuser" where
  "fsuser_new username = fsuser_clear\<lparr>m_szName := username\<rparr>"

section \<open>Expiry\<close>

text \<open>
  The time as a number \<open>yMMddHHmm\<close> in an \<open>int\<close>. Where the sum leaves the type the compilers the
  program is built with wrap around.
\<close>

definition time_number :: "utime \<Rightarrow> i32" where
  "time_number now = of_nat (ut_minute now) + of_nat (ut_hour now) * 100 + of_nat (ut_day now) * 10000
     + of_nat (ut_month now) * 1000000 + (of_nat (ut_year now) - 2000) * 100000000"

definition is_user_expired :: "utime \<Rightarrow> fsuser \<Rightarrow> bool" where
  "is_user_expired now u \<longleftrightarrow> sint (m_nExpireDt u) < sint (time_number now)"

definition is_user_enabled :: "utime \<Rightarrow> fsuser \<Rightarrow> bool" where
  "is_user_enabled now u =
     (if m_nStatus u = USER_ACCOUNT_DISABLED then False
      else if m_nStatus u = USER_ACCOUNT_WILLEXPIRE \<and> is_user_expired now u then False
      else True)"

section \<open>The list of users\<close>

definition userlist_class :: "fsuser ubl_class" where
  "userlist_class = \<lparr>ubl_get_id = m_uid, ubl_set_id = (\<lambda>i u. u\<lparr>m_uid := i\<rparr>), ubl_get_name = m_szName,
     ubl_default = fsuser_clear, ubl_item_clear = (\<lambda>u. fsuser_clear), ubl_eq = fsuser_eq, ubl_protected = False\<rparr>"

interpretation userlist: ubl_element userlist_class
  by unfold_locales (simp add: userlist_class_def)

definition MD5_HASH_STRING_SIZE :: nat where [utm_consts]: "MD5_HASH_STRING_SIZE = 32"

text \<open>
  \<open>authenticate_user\<close> assigns \<open>founduser\<close> when the first user of that name has the password.
  \<open>ci\<close> is \<open>is_ci_equal\<close>, \<open>fresh\<close> the uninitialised buffer of the digest.
\<close>

definition password_ok :: "u8 list \<Rightarrow> string \<Rightarrow> string \<Rightarrow> bool" where
  "password_ok fresh saved userpass =
     (if length saved = MD5_HASH_STRING_SIZE \<and> length userpass = MD5_HASH_STRING_SIZE
        \<or> length saved \<noteq> MD5_HASH_STRING_SIZE \<and> length userpass \<noteq> MD5_HASH_STRING_SIZE
      then saved = userpass
      else if length userpass \<noteq> MD5_HASH_STRING_SIZE \<and> length saved = MD5_HASH_STRING_SIZE
      then saved = md5_string fresh userpass
      else False)"

fun authenticate_user ::
  "(string \<Rightarrow> string \<Rightarrow> bool) \<Rightarrow> u8 list \<Rightarrow> string \<Rightarrow> string \<Rightarrow> fsuser list \<Rightarrow> fsuser \<Rightarrow> fsuser"
where
  "authenticate_user ci fresh username userpass [] founduser = founduser"
| "authenticate_user ci fresh username userpass (u # us) founduser =
     (if ci (m_szName u) username
      then (if password_ok fresh (m_szPasswd u) userpass then u else founduser)
      else authenticate_user ci fresh username userpass us founduser)"

section \<open>The XML form\<close>

definition fsuser_nodes :: "fsuser \<Rightarrow> xml list" where
  "fsuser_nodes x =
     (let orig = fsuser_clear in
       xml_append_value ''uid'' out_unsigned (m_uid x) (m_uid orig)
     @ xml_append_value ''Name'' id (m_szName x) (m_szName orig)
     @ xml_append_value ''Descr'' id (m_szDescr x) (m_szDescr orig)
     @ xml_append_value ''Passwd'' id (m_szPasswd x) (m_szPasswd orig)
     @ xml_append_value ''Auth'' out_signed (m_nAuthMode x) (m_nAuthMode orig)
     @ xml_append_value ''Status'' out_signed (m_nStatus x) (m_nStatus orig)
     @ xml_append_value ''Expire'' out_signed (m_nExpireDt x) (m_nExpireDt orig)
     @ xml_append_value ''Mng'' out_signed (m_nManageFilters x) (m_nManageFilters orig)
     @ xml_append_value ''Type'' out_signed (m_nType x) (m_nType orig)
     @ xml_append_value ''Double'' out_signed (m_nDenyDoubleLogins x) (m_nDenyDoubleLogins orig)
     @ xml_append_data ''Fids'' (ids_to_string (us_fids x)))"

definition fsuser_xml_create :: "fsuser \<Rightarrow> xml" where
  "fsuser_xml_create x = Elem ''User'' [] (fsuser_nodes x)"

definition fsuser_xml_catch_value :: "(string \<Rightarrow> u32 option) \<Rightarrow> string \<Rightarrow> string \<Rightarrow> fsuser \<Rightarrow> fsuser option" where
  "fsuser_xml_catch_value lexical keyname v x =
     (if keyname = ''uid'' then Some (x\<lparr>m_uid := parse_unsigned v\<rparr>)
      else if keyname = ''Name'' then Some (x\<lparr>m_szName := v\<rparr>)
      else if keyname = ''Descr'' then Some (x\<lparr>m_szDescr := v\<rparr>)
      else if keyname = ''Passwd'' then Some (x\<lparr>m_szPasswd := v\<rparr>)
      else if keyname = ''Auth'' then Some (x\<lparr>m_nAuthMode := parse_signed v\<rparr>)
      else if keyname = ''Status'' then Some (x\<lparr>m_nStatus := parse_signed v\<rparr>)
      else if keyname = ''Expire'' then Some (x\<lparr>m_nExpireDt := parse_signed v\<rparr>)
      else if keyname = ''Mng'' then Some (x\<lparr>m_nManageFilters := parse_signed v\<rparr>)
      else if keyname = ''Type'' then Some (x\<lparr>m_nType := parse_signed v\<rparr>)
      else if keyname = ''Double'' then Some (x\<lparr>m_nDenyDoubleLogins := parse_signed v\<rparr>)
      else if keyname = ''Fids'' then Some (x\<lparr>us_fids := ids_from_string lexical idset_add v\<rparr>)
      else Some x)"

definition fsuser_xml :: "(string \<Rightarrow> u32 option) \<Rightarrow> fsuser xml_class" where
  "fsuser_xml lexical = \<lparr>xc_clear = (\<lambda>x. fsuser_clear), xc_create = fsuser_xml_create,
     xc_value = fsuser_xml_catch_value lexical, xc_subnode = (\<lambda>k n x. Some x)\<rparr>"

definition fsuser_xml_ok :: "fsuser \<Rightarrow> bool" where
  "fsuser_xml_ok x \<longleftrightarrow> CHR 0x00 \<notin> set (m_szName x)
     \<and> CHR 0x00 \<notin> set (m_szDescr x)
     \<and> CHR 0x00 \<notin> set (m_szPasswd x)
     \<and> idset_wf (us_fids x)"

lemma fsuser_segments:
  "m_uid fsuser_clear = m_uid s \<Longrightarrow> xml_parse_allnodes (fsuser_xml lexical) (xml_append_value ''uid'' out_unsigned u (m_uid fsuser_clear)) s = Some (s\<lparr>m_uid := u\<rparr>)"
  "m_szName s = [] \<Longrightarrow> CHR 0x00 \<notin> set t \<Longrightarrow> xml_parse_allnodes (fsuser_xml lexical) (xml_append_value ''Name'' id t []) s = Some (s\<lparr>m_szName := t\<rparr>)"
  "m_szDescr s = [] \<Longrightarrow> CHR 0x00 \<notin> set t \<Longrightarrow> xml_parse_allnodes (fsuser_xml lexical) (xml_append_value ''Descr'' id t []) s = Some (s\<lparr>m_szDescr := t\<rparr>)"
  "m_szPasswd s = [] \<Longrightarrow> CHR 0x00 \<notin> set t \<Longrightarrow> xml_parse_allnodes (fsuser_xml lexical) (xml_append_value ''Passwd'' id t []) s = Some (s\<lparr>m_szPasswd := t\<rparr>)"
  "m_nAuthMode fsuser_clear = m_nAuthMode s \<Longrightarrow> xml_parse_allnodes (fsuser_xml lexical) (xml_append_value ''Auth'' out_signed i (m_nAuthMode fsuser_clear)) s = Some (s\<lparr>m_nAuthMode := i\<rparr>)"
  "m_nStatus fsuser_clear = m_nStatus s \<Longrightarrow> xml_parse_allnodes (fsuser_xml lexical) (xml_append_value ''Status'' out_signed i (m_nStatus fsuser_clear)) s = Some (s\<lparr>m_nStatus := i\<rparr>)"
  "m_nExpireDt fsuser_clear = m_nExpireDt s \<Longrightarrow> xml_parse_allnodes (fsuser_xml lexical) (xml_append_value ''Expire'' out_signed i (m_nExpireDt fsuser_clear)) s = Some (s\<lparr>m_nExpireDt := i\<rparr>)"
  "m_nManageFilters fsuser_clear = m_nManageFilters s \<Longrightarrow> xml_parse_allnodes (fsuser_xml lexical) (xml_append_value ''Mng'' out_signed i (m_nManageFilters fsuser_clear)) s = Some (s\<lparr>m_nManageFilters := i\<rparr>)"
  "m_nType fsuser_clear = m_nType s \<Longrightarrow> xml_parse_allnodes (fsuser_xml lexical) (xml_append_value ''Type'' out_signed i (m_nType fsuser_clear)) s = Some (s\<lparr>m_nType := i\<rparr>)"
  "m_nDenyDoubleLogins fsuser_clear = m_nDenyDoubleLogins s \<Longrightarrow> xml_parse_allnodes (fsuser_xml lexical) (xml_append_value ''Double'' out_signed i (m_nDenyDoubleLogins fsuser_clear)) s = Some (s\<lparr>m_nDenyDoubleLogins := i\<rparr>)"
  by (simp_all add: parse_value_if parse_text_if parse_mac_if fsuser_xml_def fsuser_xml_catch_value_def)

lemma user_fids_segment:
  assumes "\<And>i. lexical (print_u (unat i)) = Some i" and "idset_wf ids" and "us_fids s = []"
  shows "xml_parse_allnodes (fsuser_xml lexical) (xml_append_data ''Fids'' (ids_to_string ids)) s = Some (s\<lparr>us_fids := ids\<rparr>)"
proof (cases "ids = []")
  case True
  then show ?thesis using assms(3) by (simp add: ids_to_string_def parse_empty_data fsuser_xml_def)
next
  case False
  then show ?thesis
    using ids_to_string_text [of ids] idset_from_to_string [OF assms(1,2) False]
    by (simp add: parse_data xml_text_def fsuser_xml_def fsuser_xml_catch_value_def)
qed

lemma fsuser_nodes_parse:
  assumes "\<And>i. lexical (print_u (unat i)) = Some i" and "fsuser_xml_ok u"
  shows "xml_parse_allnodes (fsuser_xml lexical) (fsuser_nodes u) fsuser_clear = Some u"
proof -
  have c: "m_szName fsuser_clear = []" "m_szDescr fsuser_clear = []" "m_szPasswd fsuser_clear = []" "us_fids fsuser_clear = []"
    by (simp_all add: fsuser_clear_def)
  show ?thesis
    using assms(2) unfolding fsuser_nodes_def fsuser_xml_ok_def Let_def
    by (simp add: parse_allnodes_append fsuser_segments user_fids_segment [OF assms(1)] c)
qed

lemma fsuser_element:
  assumes "\<And>i. lexical (print_u (unat i)) = Some i"
  shows "xml_element (fsuser_xml lexical) ''User'' fsuser_xml_ok"
proof
  show "node_name (xc_create (fsuser_xml lexical) u) = ''User''" for u
    by (simp add: fsuser_xml_def fsuser_xml_create_def node_name_def)
  show "node_text (xc_create (fsuser_xml lexical) u) = []" for u
    by (simp add: fsuser_xml_def fsuser_xml_create_def node_text_def fsuser_nodes_def Let_def find_append find_pcdata)
  show "xml_parse_node (fsuser_xml lexical) (xc_create (fsuser_xml lexical) u) False y = Some u"
    if "fsuser_xml_ok u" for u y
    using fsuser_nodes_parse [OF assms that]
    by (simp add: fsuser_xml_def fsuser_xml_create_def xml_parse_node_def node_children_def)
qed

definition userlist_xml :: "(string \<Rightarrow> u32 option) \<Rightarrow> fsuser list xml_class" where
  "userlist_xml lexical = xml_list_class ''UserList'' ''User'' (fsuser_xml lexical) fsuser_clear"

lemma userlist_xml_roundtrip:
  assumes "\<And>i. lexical (print_u (unat i)) = Some i" and "list_all fsuser_xml_ok us"
  shows "xml_parse_node (userlist_xml lexical) (xc_create (userlist_xml lexical) us) False y = Some us"
  unfolding userlist_xml_def by (rule xml_element.list_class_parse [OF fsuser_element [OF assms(1)] assms(2)])

section \<open>The order of time numbers\<close>

definition ut_wf :: "utime \<Rightarrow> bool" where
  "ut_wf t \<longleftrightarrow> 1 \<le> ut_month t \<and> ut_month t \<le> 12 \<and> 1 \<le> ut_day t \<and> ut_day t \<le> 31 \<and> ut_hour t < 24
     \<and> ut_minute t < 60"

text \<open>The calendar order to the minute.\<close>

definition earlier :: "utime \<Rightarrow> utime \<Rightarrow> bool" where
  "earlier a b \<longleftrightarrow> ut_year a < ut_year b \<or> ut_year a = ut_year b \<and>
     (ut_month a < ut_month b \<or> ut_month a = ut_month b \<and>
      (ut_day a < ut_day b \<or> ut_day a = ut_day b \<and>
       (ut_hour a < ut_hour b \<or> ut_hour a = ut_hour b \<and> ut_minute a < ut_minute b)))"

definition exact_number :: "utime \<Rightarrow> int" where
  "exact_number t = int (ut_minute t) + int (ut_hour t) * 100 + int (ut_day t) * 10000
     + int (ut_month t) * 1000000 + (int (ut_year t) - 2000) * 100000000"

lemma time_number_exact: "time_number t = of_int (exact_number t)"
  by (simp add: time_number_def exact_number_def)

definition clock_number :: "utime \<Rightarrow> int" where
  "clock_number t = int (ut_minute t) + int (ut_hour t) * 100 + int (ut_day t) * 10000 + int (ut_month t) * 1000000"

lemma clock_number_bounds: "ut_wf t \<Longrightarrow> 0 \<le> clock_number t \<and> clock_number t < 100000000"
  by (simp add: ut_wf_def clock_number_def)

lemma exact_clock: "exact_number t = clock_number t + (int (ut_year t) - 2000) * 100000000"
  by (simp add: exact_number_def clock_number_def)

lemma digit_less:
  fixes a b :: int
  assumes "0 \<le> a" "a < k" "0 \<le> b" "b < k"
  shows "(a + x * k < b + y * k) = (x < y \<or> x = y \<and> a < b)"
proof (cases x y rule: linorder_cases)
  case less
  then have "(x + 1) * k \<le> y * k" using assms by (intro mult_right_mono) auto
  then have "a + x * k < b + y * k" using assms by (simp add: algebra_simps)
  with less show ?thesis by simp
next
  case greater
  then have "(y + 1) * k \<le> x * k" using assms by (intro mult_right_mono) auto
  then have "\<not> a + x * k < b + y * k" using assms by (simp add: algebra_simps)
  with greater show ?thesis by simp
qed simp

lemma exact_less:
  assumes "ut_wf a" and "ut_wf b"
  shows "(exact_number a < exact_number b) = earlier a b"
proof -
  let ?h = "\<lambda>t. int (ut_minute t) + int (ut_hour t) * 100"
  let ?d = "\<lambda>t. ?h t + int (ut_day t) * 10000"
  have w: "int (ut_minute t) < 100" "0 \<le> ?h t" "?h t < 10000" "0 \<le> ?d t" "?d t < 1000000" if "ut_wf t" for t
    using that by (auto simp: ut_wf_def)
  have "(?h a < ?h b) = (ut_hour a < ut_hour b \<or> ut_hour a = ut_hour b \<and> ut_minute a < ut_minute b)"
    using digit_less [of "int (ut_minute a)" 100 "int (ut_minute b)" "int (ut_hour a)" "int (ut_hour b)"] w assms by simp
  moreover have "(?d a < ?d b) = (ut_day a < ut_day b \<or> ut_day a = ut_day b \<and> ?h a < ?h b)"
    using digit_less [of "?h a" 10000 "?h b" "int (ut_day a)" "int (ut_day b)"] w [OF assms(1)] w [OF assms(2)] by simp
  moreover have "(clock_number a < clock_number b) = (ut_month a < ut_month b \<or> ut_month a = ut_month b \<and> ?d a < ?d b)"
    using digit_less [of "?d a" 1000000 "?d b" "int (ut_month a)" "int (ut_month b)"] w [OF assms(1)] w [OF assms(2)]
    by (simp add: clock_number_def)
  moreover have "(exact_number a < exact_number b) = (ut_year a < ut_year b \<or> ut_year a = ut_year b \<and> clock_number a < clock_number b)"
    using digit_less [of "clock_number a" 100000000 "clock_number b" "int (ut_year a) - 2000" "int (ut_year b) - 2000"]
      clock_number_bounds [OF assms(1)] clock_number_bounds [OF assms(2)]
    by (simp add: exact_clock)
  ultimately show ?thesis by (simp add: earlier_def)
qed

lemma sint_of_int_i32:
  "sint (of_int k :: i32) = (if 0 \<le> k \<and> k < 2 ^ 31 then k else k - 2 ^ 32)" if "0 \<le> k" "k < 2 ^ 32" for k
proof (cases "k < 2 ^ 31")
  case True
  then show ?thesis using that by (simp add: signed_of_int signed_take_bit_int_eq_self)
next
  case False
  have z: "(of_int (2 ^ 32) :: i32) = 0" by simp
  have "sint (of_int k :: i32) = sint (of_int (k - 2 ^ 32) :: i32)" by (simp only: of_int_diff z diff_zero)
  also have "\<dots> = k - 2 ^ 32" using False that by (simp only: signed_of_int) (simp add: signed_take_bit_int_eq_self)
  finally show ?thesis using False by simp
qed

lemma time_number_value:
  assumes "ut_wf t" and "2000 \<le> ut_year t" and "ut_year t \<le> 2042"
  shows "sint (time_number t) = (if ut_year t \<le> 2021 then exact_number t else exact_number t - 2 ^ 32)"
    and "0 \<le> exact_number t" and "exact_number t < 2 ^ 32"
proof -
  let ?y = "int (ut_year t) - 2000"
  have c: "0 \<le> clock_number t" "clock_number t < 13 * 1000000"
    using assms(1) by (auto simp: clock_number_def ut_wf_def)
  have y: "0 \<le> ?y" "?y \<le> 42" using assms(2,3) by simp_all
  show b: "0 \<le> exact_number t" "exact_number t < 2 ^ 32"
    using c y by (simp_all add: exact_clock)
  have "(exact_number t < 2 ^ 31) = (ut_year t \<le> 2021)"
  proof
    assume "exact_number t < 2 ^ 31"
    then have "?y * 100000000 < 2 ^ 31" using c by (simp add: exact_clock)
    then show "ut_year t \<le> 2021" by simp
  next
    assume "ut_year t \<le> 2021"
    then have "?y \<le> 21" by simp
    then show "exact_number t < 2 ^ 31" using c by (simp add: exact_clock)
  qed
  then show "sint (time_number t) = (if ut_year t \<le> 2021 then exact_number t else exact_number t - 2 ^ 32)"
    using sint_of_int_i32 [OF b] b(1) by (simp add: time_number_exact)
qed

lemma authenticate_find:
  "authenticate_user ci fresh name pass us f =
     (case find (\<lambda>u. ci (m_szName u) name) us of
        None \<Rightarrow> f
      | Some u \<Rightarrow> if password_ok fresh (m_szPasswd u) pass then u else f)"
  by (induction us) simp_all

section \<open>An example\<close>

definition ex_user :: fsuser where
  "ex_user = fsuser_clear\<lparr>m_uid := 1, m_szName := ''ann'', m_szPasswd := ''900150983cd24fb0d6963f7d28e17f72'',
     m_nStatus := USER_ACCOUNT_WILLEXPIRE, m_nExpireDt := time_number (ut_set 2021 6 30 12 0 0), us_fids := [3, 8]\<rparr>"

section \<open>Properties\<close>

text \<open>
  up to the end of 2021 a user with an expiry time is enabled until that minute, in the order of
  the calendar.
\<close>

theorem user_expires_in_order:
  assumes "ut_wf e" "2000 \<le> ut_year e" "ut_year e \<le> 2021" and "ut_wf now" "2000 \<le> ut_year now" "ut_year now \<le> 2021"
    and "m_nExpireDt u = time_number e" and "m_nStatus u = USER_ACCOUNT_WILLEXPIRE"
  shows "is_user_expired now u = earlier e now \<and> is_user_enabled now u = (\<not> earlier e now)"
proof -
  have "is_user_expired now u = (exact_number e < exact_number now)"
    using assms time_number_value(1) [of e] time_number_value(1) [of now] by (simp add: is_user_expired_def)
  then have "is_user_expired now u = earlier e now" using exact_less [OF assms(1,4)] by simp
  then show ?thesis using assms(8) by (simp add: is_user_enabled_def utm_consts)
qed

theorem user_expires_in_order_witness:
  "is_user_enabled (ut_set 2021 6 30 12 0 59) ex_user \<and> \<not> is_user_enabled (ut_set 2021 7 1 0 0 0) ex_user"
  using user_expires_in_order [of "ut_set 2021 6 30 12 0 0" "ut_set 2021 6 30 12 0 59" ex_user]
    user_expires_in_order [of "ut_set 2021 6 30 12 0 0" "ut_set 2021 7 1 0 0 0" ex_user]
  by (simp add: ex_user_def ut_wf_def ut_set_def earlier_def)

text \<open>
  C30: from 2022 to 2042 the number of the current time overflows and is negative: a user that had
  expired at any time before is enabled again.
\<close>

theorem expired_user_returns:
  assumes "ut_wf e" "2000 \<le> ut_year e" "ut_year e \<le> 2021" and "ut_wf now" "2022 \<le> ut_year now" "ut_year now \<le> 2042"
    and "m_nExpireDt u = time_number e" and "m_nStatus u = USER_ACCOUNT_WILLEXPIRE"
  shows "earlier e now \<and> \<not> is_user_expired now u \<and> is_user_enabled now u"
proof -
  have "sint (time_number now) < 0" using assms(4-6) time_number_value [of now] by simp
  moreover have "0 \<le> sint (m_nExpireDt u)" using assms(1-3,7) time_number_value [of e] by simp
  ultimately have "\<not> is_user_expired now u" by (simp add: is_user_expired_def)
  then show ?thesis using assms by (simp add: is_user_enabled_def utm_consts earlier_def)
qed

theorem expired_user_returns_witness: "is_user_enabled (ut_set 2022 1 1 0 0 0) ex_user"
  using expired_user_returns [of "ut_set 2021 6 30 12 0 0" "ut_set 2022 1 1 0 0 0" ex_user]
  by (simp add: ex_user_def ut_wf_def ut_set_def)

text \<open>
  who is authenticated. Only the first user of the name counts; where its password is stored
  as a digest, the passwords accepted are those other than of 32 characters with this digest, and
  the text of the digest itself.
\<close>

theorem authenticate_accepts:
  assumes "find (\<lambda>u. ci (m_szName u) name) us = Some u" and "length (m_szPasswd u) = 32"
  shows "authenticate_user ci fresh name pass us f =
    (if pass = m_szPasswd u \<or> length pass \<noteq> 32 \<and> md5_string fresh pass = m_szPasswd u then u else f)"
  using assms by (auto simp: authenticate_find password_ok_def utm_consts)

theorem authenticate_accepts_witness:
  "authenticate_user (=) (replicate 64 0) ''ann'' ''abc'' [ex_user] fsuser_clear = ex_user
   \<and> authenticate_user (=) (replicate 64 0) ''ann'' ''900150983cd24fb0d6963f7d28e17f72'' [ex_user] fsuser_clear = ex_user"
  using authenticate_accepts [of "(=)" "''ann''" "[ex_user]" ex_user] by (simp add: ex_user_def md5_abc)

text \<open>
  a list of users survives its XML form, for any conversion of decimal text to numbers that
  reads back what is printed.
\<close>

theorem users_xml_roundtrip:
  assumes "\<And>i. lexical (print_u (unat i)) = Some i" and "list_all fsuser_xml_ok us"
  shows "xml_parse_node (userlist_xml lexical) (xc_create (userlist_xml lexical) us) False y = Some us"
  by (rule userlist_xml_roundtrip [OF assms])

theorem users_xml_roundtrip_witness:
  "xml_parse_node (userlist_xml ex_lexical) (xc_create (userlist_xml ex_lexical) [ex_user]) False []
   = Some [ex_user]"
  by (rule users_xml_roundtrip [OF ex_lexical_print])
    (simp_all add: fsuser_xml_ok_def ex_user_def fsuser_clear_def idset_wf_def)

end
