(* ===== verification/MonitorRange.thy ===== *)
theory MonitorRange
  imports Xml UBaseList
begin

text \<open>
  \<open>corefilters/monitor_range*.{h,cpp}\<close> and \<open>monitor_detail_*.{h,cpp}\<close>: the address ranges the
  network monitor polls, each with a list of remarks on single hosts, and their XML form.
\<close>

section \<open>Remarks\<close>

record monitor_detail =
  md_id :: u32
  md_flags :: u32
  md_ip :: addrip_v4
  md_mac :: addrmac
  md_comment :: string

definition monitor_detail_clear :: monitor_detail where
  "monitor_detail_clear = \<lparr>md_id = 0, md_flags = 0, md_ip = Addrip_v4 0, md_mac = mac_clear,
     md_comment = []\<rparr>"

definition monitor_detail_eq :: "monitor_detail \<Rightarrow> monitor_detail \<Rightarrow> bool" where
  "monitor_detail_eq a b \<longleftrightarrow> md_id a = md_id b \<and> md_flags a = md_flags b
     \<and> md_ip a = md_ip b \<and> mac_equal (md_mac a) (md_mac b) \<and> md_comment a = md_comment b"

definition monitor_detail_nodes :: "monitor_detail \<Rightarrow> xml list" where
  "monitor_detail_nodes x =
     (let orig = monitor_detail_clear in
       xml_append_value ''Id'' out_unsigned (md_id x) (md_id orig)
     @ xml_append_value ''Flag'' out_unsigned (md_flags x) (md_flags orig)
     @ xml_append_value ''Ip'' ip_to_string (md_ip x) (md_ip orig)
     @ xml_append_mac ''Mac'' (md_mac x) (md_mac orig)
     @ xml_append_value ''Comment'' id (md_comment x) (md_comment orig))"

definition monitor_detail_xml_create :: "monitor_detail \<Rightarrow> xml" where
  "monitor_detail_xml_create x = Elem ''Entry'' [] (monitor_detail_nodes x)"

definition monitor_detail_xml_catch_value :: "string \<Rightarrow> string \<Rightarrow> monitor_detail \<Rightarrow> monitor_detail option" where
  "monitor_detail_xml_catch_value keyname v x =
     (if keyname = ''Id'' then Some (x\<lparr>md_id := parse_unsigned v\<rparr>)
      else if keyname = ''Flag'' then Some (x\<lparr>md_flags := parse_unsigned v\<rparr>)
      else if keyname = ''Ip'' then Some (x\<lparr>md_ip := read_ip v\<rparr>)
      else if keyname = ''Mac'' then map_option (\<lambda>m. x\<lparr>md_mac := m\<rparr>) (read_mac v)
      else if keyname = ''Comment'' then Some (x\<lparr>md_comment := v\<rparr>)
      else Some x)"

definition monitor_detail_xml :: "monitor_detail xml_class" where
  "monitor_detail_xml = \<lparr>xc_clear = (\<lambda>x. monitor_detail_clear), xc_create = monitor_detail_xml_create,
     xc_value = monitor_detail_xml_catch_value, xc_subnode = (\<lambda>k n x. Some x)\<rparr>"

definition monitor_detail_xml_ok :: "monitor_detail \<Rightarrow> bool" where
  "monitor_detail_xml_ok x \<longleftrightarrow> CHR 0x00 \<notin> set (md_comment x)
     \<and> mac_wf (md_mac x)"

lemma monitor_detail_segments:
  "md_id monitor_detail_clear = md_id s \<Longrightarrow> xml_parse_allnodes monitor_detail_xml (xml_append_value ''Id'' out_unsigned u (md_id monitor_detail_clear)) s = Some (s\<lparr>md_id := u\<rparr>)"
  "md_flags monitor_detail_clear = md_flags s \<Longrightarrow> xml_parse_allnodes monitor_detail_xml (xml_append_value ''Flag'' out_unsigned u (md_flags monitor_detail_clear)) s = Some (s\<lparr>md_flags := u\<rparr>)"
  "md_ip monitor_detail_clear = md_ip s \<Longrightarrow> xml_parse_allnodes monitor_detail_xml (xml_append_value ''Ip'' ip_to_string a (md_ip monitor_detail_clear)) s = Some (s\<lparr>md_ip := a\<rparr>)"
  "md_mac monitor_detail_clear = md_mac s \<Longrightarrow> mac_wf m \<Longrightarrow> xml_parse_allnodes monitor_detail_xml (xml_append_mac ''Mac'' m (md_mac monitor_detail_clear)) s = Some (s\<lparr>md_mac := m\<rparr>)"
  "md_comment s = [] \<Longrightarrow> CHR 0x00 \<notin> set t \<Longrightarrow> xml_parse_allnodes monitor_detail_xml (xml_append_value ''Comment'' id t []) s = Some (s\<lparr>md_comment := t\<rparr>)"
  by (simp_all add: parse_value_if parse_text_if parse_mac_if monitor_detail_xml_def monitor_detail_xml_catch_value_def)

lemma monitor_detail_nodes_parse:
  assumes "monitor_detail_xml_ok x"
  shows "xml_parse_allnodes monitor_detail_xml (monitor_detail_nodes x) monitor_detail_clear = Some x"
proof -
  have c: "md_comment monitor_detail_clear = []"
    by (simp_all add: monitor_detail_clear_def)
  show ?thesis
    using assms unfolding monitor_detail_nodes_def monitor_detail_xml_ok_def Let_def
    by (simp add: parse_allnodes_append monitor_detail_segments c)
qed

interpretation monitor_detail_elem: xml_element monitor_detail_xml "''Entry''" monitor_detail_xml_ok
proof
  show "node_name (xc_create monitor_detail_xml x) = ''Entry''" for x
    by (simp add: monitor_detail_xml_def monitor_detail_xml_create_def node_name_def)
  show "node_text (xc_create monitor_detail_xml x) = []" for x
    by (simp add: monitor_detail_xml_def monitor_detail_xml_create_def node_text_def monitor_detail_nodes_def Let_def find_append find_pcdata)
  show "xml_parse_node monitor_detail_xml (xc_create monitor_detail_xml x) False y = Some x" if "monitor_detail_xml_ok x" for x y
    using monitor_detail_nodes_parse [OF that]
    by (simp add: monitor_detail_xml_def monitor_detail_xml_create_def xml_parse_node_def node_children_def)
qed

definition monitor_detail_list_class :: "monitor_detail ubl_class" where
  "monitor_detail_list_class = \<lparr>ubl_get_id = md_id, ubl_set_id = (\<lambda>i d. d\<lparr>md_id := i\<rparr>), ubl_get_name = md_comment,
     ubl_default = monitor_detail_clear, ubl_item_clear = (\<lambda>d. monitor_detail_clear), ubl_eq = monitor_detail_eq,
     ubl_protected = False\<rparr>"

interpretation monitor_details: ubl_element monitor_detail_list_class
  by unfold_locales (simp add: monitor_detail_list_class_def)

definition monitor_detail_list_xml :: "monitor_detail list xml_class" where
  "monitor_detail_list_xml = xml_list_class ''EntryList'' ''Entry'' monitor_detail_xml monitor_detail_clear"

section \<open>Ranges\<close>

text \<open>\<open>RGB(r, g, b)\<close> of the Windows headers.\<close>

definition rgb :: "u8 \<Rightarrow> u8 \<Rightarrow> u8 \<Rightarrow> u32" where
  "rgb r g b = ucast r OR push_bit 8 (ucast g) OR push_bit 16 (ucast b)"

definition PING_STATUS_UNKNOWN :: int where [utm_consts]: "PING_STATUS_UNKNOWN = 0"
definition PING_STATUS_OK :: int where [utm_consts]: "PING_STATUS_OK = 1"
definition PING_STATUS_OFFLINE :: int where [utm_consts]: "PING_STATUS_OFFLINE = 2"
definition PING_STATUS_QUALITYDROP :: int where [utm_consts]: "PING_STATUS_QUALITYDROP = 3"
definition PING_STATUS_UNKNOWN_COLOR :: u32 where "PING_STATUS_UNKNOWN_COLOR = rgb 255 255 255"
definition PING_STATUS_OK_COLOR :: u32 where "PING_STATUS_OK_COLOR = rgb 222 255 222"
definition PING_STATUS_OFFLINE_COLOR :: u32 where "PING_STATUS_OFFLINE_COLOR = rgb 255 222 222"
definition PING_STATUS_QUALITYDROP_COLOR :: u32 where "PING_STATUS_QUALITYDROP_COLOR = rgb 255 255 128"

record monitor_range =
  mr_id :: u32
  mr_attempts :: u32
  mr_poll_interval :: u32
  mr_active :: bool
  mr_location :: u32
  mr_rangetype :: u32
  mr_no_macaddr :: bool
  mr_no_macvend :: bool
  mr_reverse_lookup :: bool
  mr_dnsserver :: addrip_v4
  mr_comment :: string
  mr_table :: string
  mr_start_addr :: addrip_v4
  mr_end_addr :: addrip_v4
  mr_color0 :: u32
  mr_color1 :: u32
  mr_color2 :: u32
  mr_color3 :: u32
  mr_details :: "monitor_detail list"

definition monitor_range_clear :: monitor_range where
  "monitor_range_clear = \<lparr>mr_id = 0, mr_attempts = 0, mr_poll_interval = 0, mr_active = True,
     mr_location = 0, mr_rangetype = 0, mr_no_macaddr = False, mr_no_macvend = False,
     mr_reverse_lookup = False, mr_dnsserver = Addrip_v4 0, mr_comment = [], mr_table = [],
     mr_start_addr = Addrip_v4 0, mr_end_addr = Addrip_v4 0, mr_color0 = PING_STATUS_UNKNOWN_COLOR,
     mr_color1 = PING_STATUS_OK_COLOR, mr_color2 = PING_STATUS_OFFLINE_COLOR,
     mr_color3 = PING_STATUS_QUALITYDROP_COLOR, mr_details = []\<rparr>"

definition monitor_range_eq :: "monitor_range \<Rightarrow> monitor_range \<Rightarrow> bool" where
  "monitor_range_eq a b \<longleftrightarrow> mr_id a = mr_id b
     \<and> mr_attempts a = mr_attempts b \<and> mr_poll_interval a = mr_poll_interval b
     \<and> mr_active a = mr_active b \<and> mr_location a = mr_location b
     \<and> mr_rangetype a = mr_rangetype b \<and> mr_no_macaddr a = mr_no_macaddr b
     \<and> mr_no_macvend a = mr_no_macvend b \<and> mr_reverse_lookup a = mr_reverse_lookup b
     \<and> mr_dnsserver a = mr_dnsserver b \<and> mr_comment a = mr_comment b
     \<and> mr_table a = mr_table b \<and> mr_start_addr a = mr_start_addr b
     \<and> mr_end_addr a = mr_end_addr b \<and> mr_color0 a = mr_color0 b
     \<and> mr_color1 a = mr_color1 b \<and> mr_color2 a = mr_color2 b
     \<and> mr_color3 a = mr_color3 b \<and> list_all2 monitor_detail_eq (mr_details a) (mr_details b)"

definition monitor_range_nodes :: "monitor_range \<Rightarrow> xml list" where
  "monitor_range_nodes x =
     (let orig = monitor_range_clear in
       xml_append_value ''Id'' out_unsigned (mr_id x) (mr_id orig)
     @ xml_append_value ''Att'' out_unsigned (mr_attempts x) (mr_attempts orig)
     @ xml_append_value ''Poll'' out_unsigned (mr_poll_interval x) (mr_poll_interval orig)
     @ xml_append_value ''Enabled'' bool_text (mr_active x) (mr_active orig)
     @ xml_append_value ''Location'' out_unsigned (mr_location x) (mr_location orig)
     @ xml_append_value ''Type'' out_unsigned (mr_rangetype x) (mr_rangetype orig)
     @ xml_append_value ''NoMacAddr'' bool_text (mr_no_macaddr x) (mr_no_macaddr orig)
     @ xml_append_value ''NoMacVendor'' bool_text (mr_no_macvend x) (mr_no_macvend orig)
     @ xml_append_value ''ReverseLookup'' bool_text (mr_reverse_lookup x) (mr_reverse_lookup orig)
     @ xml_append_value ''DnsServer'' ip_to_string (mr_dnsserver x) (mr_dnsserver orig)
     @ xml_append_value ''Comment'' id (mr_comment x) (mr_comment orig)
     @ xml_append_value ''Table'' id (mr_table x) (mr_table orig)
     @ xml_append_value ''Start'' ip_to_string (mr_start_addr x) (mr_start_addr orig)
     @ xml_append_value ''End'' ip_to_string (mr_end_addr x) (mr_end_addr orig)
     @ xml_append_value ''Color0'' out_unsigned (mr_color0 x) (mr_color0 orig)
     @ xml_append_value ''Color1'' out_unsigned (mr_color1 x) (mr_color1 orig)
     @ xml_append_value ''Color2'' out_unsigned (mr_color2 x) (mr_color2 orig)
     @ xml_append_value ''Color3'' out_unsigned (mr_color3 x) (mr_color3 orig)
     @ xml_append_list monitor_detail_xml (mr_details x))"

definition get_ping_status_str :: "int \<Rightarrow> string" where
  "get_ping_status_str status =
     (if status = PING_STATUS_OK then ''OK''
      else if status = PING_STATUS_OFFLINE then ''Offline''
      else if status = PING_STATUS_QUALITYDROP then ''QualityDrop''
      else ''?'')"

definition get_ping_status_color :: "int \<Rightarrow> monitor_range \<Rightarrow> u32" where
  "get_ping_status_color status x =
     (if status = PING_STATUS_OK then mr_color1 x
      else if status = PING_STATUS_OFFLINE then mr_color2 x
      else if status = PING_STATUS_QUALITYDROP then mr_color3 x
      else mr_color0 x)"

definition set_ping_status_color :: "int \<Rightarrow> u32 \<Rightarrow> monitor_range \<Rightarrow> monitor_range" where
  "set_ping_status_color status color x =
     (if status = PING_STATUS_OK then x\<lparr>mr_color1 := color\<rparr>
      else if status = PING_STATUS_OFFLINE then x\<lparr>mr_color2 := color\<rparr>
      else if status = PING_STATUS_QUALITYDROP then x\<lparr>mr_color3 := color\<rparr>
      else if status = PING_STATUS_UNKNOWN then x\<lparr>mr_color0 := color\<rparr>
      else x)"

definition find_detail_by_mac :: "addrmac \<Rightarrow> monitor_range \<Rightarrow> monitor_detail option" where
  "find_detail_by_mac mac x = (if mac_is_zero mac then None else find (\<lambda>d. mac_equal (md_mac d) mac) (mr_details x))"

definition find_detail_by_ip :: "addrip_v4 \<Rightarrow> monitor_range \<Rightarrow> monitor_detail option" where
  "find_detail_by_ip ip x = (if m_addr ip = 0 then None else find (\<lambda>d. md_ip d = ip) (mr_details x))"

definition monitor_range_xml_create :: "monitor_range \<Rightarrow> xml" where
  "monitor_range_xml_create x = Elem ''Range'' [] (monitor_range_nodes x)"

definition monitor_range_xml_catch_value :: "string \<Rightarrow> string \<Rightarrow> monitor_range \<Rightarrow> monitor_range option" where
  "monitor_range_xml_catch_value keyname v x =
     (if keyname = ''Id'' then Some (x\<lparr>mr_id := parse_unsigned v\<rparr>)
      else if keyname = ''Att'' then Some (x\<lparr>mr_attempts := parse_unsigned v\<rparr>)
      else if keyname = ''Poll'' then Some (x\<lparr>mr_poll_interval := parse_unsigned v\<rparr>)
      else if keyname = ''Enabled'' then Some (x\<lparr>mr_active := read_bool v\<rparr>)
      else if keyname = ''Location'' then Some (x\<lparr>mr_location := parse_unsigned v\<rparr>)
      else if keyname = ''Type'' then Some (x\<lparr>mr_rangetype := parse_unsigned v\<rparr>)
      else if keyname = ''NoMacAddr'' then Some (x\<lparr>mr_no_macaddr := read_bool v\<rparr>)
      else if keyname = ''NoMacVendor'' then Some (x\<lparr>mr_no_macvend := read_bool v\<rparr>)
      else if keyname = ''ReverseLookup'' then Some (x\<lparr>mr_reverse_lookup := read_bool v\<rparr>)
      else if keyname = ''DnsServer'' then Some (x\<lparr>mr_dnsserver := read_ip v\<rparr>)
      else if keyname = ''Comment'' then Some (x\<lparr>mr_comment := v\<rparr>)
      else if keyname = ''Table'' then Some (x\<lparr>mr_table := v\<rparr>)
      else if keyname = ''Start'' then Some (x\<lparr>mr_start_addr := read_ip v\<rparr>)
      else if keyname = ''End'' then Some (x\<lparr>mr_end_addr := read_ip v\<rparr>)
      else if keyname = ''Color0'' then Some (x\<lparr>mr_color0 := parse_unsigned v\<rparr>)
      else if keyname = ''Color1'' then Some (x\<lparr>mr_color1 := parse_unsigned v\<rparr>)
      else if keyname = ''Color2'' then Some (x\<lparr>mr_color2 := parse_unsigned v\<rparr>)
      else if keyname = ''Color3'' then Some (x\<lparr>mr_color3 := parse_unsigned v\<rparr>)
      else if keyname = ''Entry'' then Some x
      else Some x)"

text \<open>
  \<open>xml_catch_subnode\<close>: a node \<open>Entry\<close> goes to \<open>details\<close>, which appends a new entry.
\<close>

definition monitor_range_xml_subnode :: "string \<Rightarrow> xml \<Rightarrow> monitor_range \<Rightarrow> monitor_range option" where
  "monitor_range_xml_subnode keyname n x =
     (if keyname = ''Entry''
      then map_option (\<lambda>d. x\<lparr>mr_details := mr_details x @ [d]\<rparr>) (xml_parse_node monitor_detail_xml n False monitor_detail_clear)
      else Some x)"

definition monitor_range_xml :: "monitor_range xml_class" where
  "monitor_range_xml = \<lparr>xc_clear = (\<lambda>x. monitor_range_clear), xc_create = monitor_range_xml_create,
     xc_value = monitor_range_xml_catch_value, xc_subnode = monitor_range_xml_subnode\<rparr>"

definition monitor_range_xml_ok :: "monitor_range \<Rightarrow> bool" where
  "monitor_range_xml_ok x \<longleftrightarrow> CHR 0x00 \<notin> set (mr_comment x)
     \<and> CHR 0x00 \<notin> set (mr_table x)
     \<and> list_all monitor_detail_xml_ok (mr_details x)"

lemma monitor_range_segments:
  "mr_id monitor_range_clear = mr_id s \<Longrightarrow> xml_parse_allnodes monitor_range_xml (xml_append_value ''Id'' out_unsigned u (mr_id monitor_range_clear)) s = Some (s\<lparr>mr_id := u\<rparr>)"
  "mr_attempts monitor_range_clear = mr_attempts s \<Longrightarrow> xml_parse_allnodes monitor_range_xml (xml_append_value ''Att'' out_unsigned u (mr_attempts monitor_range_clear)) s = Some (s\<lparr>mr_attempts := u\<rparr>)"
  "mr_poll_interval monitor_range_clear = mr_poll_interval s \<Longrightarrow> xml_parse_allnodes monitor_range_xml (xml_append_value ''Poll'' out_unsigned u (mr_poll_interval monitor_range_clear)) s = Some (s\<lparr>mr_poll_interval := u\<rparr>)"
  "mr_active monitor_range_clear = mr_active s \<Longrightarrow> xml_parse_allnodes monitor_range_xml (xml_append_value ''Enabled'' bool_text b (mr_active monitor_range_clear)) s = Some (s\<lparr>mr_active := b\<rparr>)"
  "mr_location monitor_range_clear = mr_location s \<Longrightarrow> xml_parse_allnodes monitor_range_xml (xml_append_value ''Location'' out_unsigned u (mr_location monitor_range_clear)) s = Some (s\<lparr>mr_location := u\<rparr>)"
  "mr_rangetype monitor_range_clear = mr_rangetype s \<Longrightarrow> xml_parse_allnodes monitor_range_xml (xml_append_value ''Type'' out_unsigned u (mr_rangetype monitor_range_clear)) s = Some (s\<lparr>mr_rangetype := u\<rparr>)"
  "mr_no_macaddr monitor_range_clear = mr_no_macaddr s \<Longrightarrow> xml_parse_allnodes monitor_range_xml (xml_append_value ''NoMacAddr'' bool_text b (mr_no_macaddr monitor_range_clear)) s = Some (s\<lparr>mr_no_macaddr := b\<rparr>)"
  "mr_no_macvend monitor_range_clear = mr_no_macvend s \<Longrightarrow> xml_parse_allnodes monitor_range_xml (xml_append_value ''NoMacVendor'' bool_text b (mr_no_macvend monitor_range_clear)) s = Some (s\<lparr>mr_no_macvend := b\<rparr>)"
  "mr_reverse_lookup monitor_range_clear = mr_reverse_lookup s \<Longrightarrow> xml_parse_allnodes monitor_range_xml (xml_append_value ''ReverseLookup'' bool_text b (mr_reverse_lookup monitor_range_clear)) s = Some (s\<lparr>mr_reverse_lookup := b\<rparr>)"
  "mr_dnsserver monitor_range_clear = mr_dnsserver s \<Longrightarrow> xml_parse_allnodes monitor_range_xml (xml_append_value ''DnsServer'' ip_to_string a (mr_dnsserver monitor_range_clear)) s = Some (s\<lparr>mr_dnsserver := a\<rparr>)"
  "mr_comment s = [] \<Longrightarrow> CHR 0x00 \<notin> set t \<Longrightarrow> xml_parse_allnodes monitor_range_xml (xml_append_value ''Comment'' id t []) s = Some (s\<lparr>mr_comment := t\<rparr>)"
  "mr_table s = [] \<Longrightarrow> CHR 0x00 \<notin> set t \<Longrightarrow> xml_parse_allnodes monitor_range_xml (xml_append_value ''Table'' id t []) s = Some (s\<lparr>mr_table := t\<rparr>)"
  "mr_start_addr monitor_range_clear = mr_start_addr s \<Longrightarrow> xml_parse_allnodes monitor_range_xml (xml_append_value ''Start'' ip_to_string a (mr_start_addr monitor_range_clear)) s = Some (s\<lparr>mr_start_addr := a\<rparr>)"
  "mr_end_addr monitor_range_clear = mr_end_addr s \<Longrightarrow> xml_parse_allnodes monitor_range_xml (xml_append_value ''End'' ip_to_string a (mr_end_addr monitor_range_clear)) s = Some (s\<lparr>mr_end_addr := a\<rparr>)"
  "mr_color0 monitor_range_clear = mr_color0 s \<Longrightarrow> xml_parse_allnodes monitor_range_xml (xml_append_value ''Color0'' out_unsigned u (mr_color0 monitor_range_clear)) s = Some (s\<lparr>mr_color0 := u\<rparr>)"
  "mr_color1 monitor_range_clear = mr_color1 s \<Longrightarrow> xml_parse_allnodes monitor_range_xml (xml_append_value ''Color1'' out_unsigned u (mr_color1 monitor_range_clear)) s = Some (s\<lparr>mr_color1 := u\<rparr>)"
  "mr_color2 monitor_range_clear = mr_color2 s \<Longrightarrow> xml_parse_allnodes monitor_range_xml (xml_append_value ''Color2'' out_unsigned u (mr_color2 monitor_range_clear)) s = Some (s\<lparr>mr_color2 := u\<rparr>)"
  "mr_color3 monitor_range_clear = mr_color3 s \<Longrightarrow> xml_parse_allnodes monitor_range_xml (xml_append_value ''Color3'' out_unsigned u (mr_color3 monitor_range_clear)) s = Some (s\<lparr>mr_color3 := u\<rparr>)"
  by (simp_all add: parse_value_if parse_text_if parse_mac_if monitor_range_xml_def monitor_range_xml_catch_value_def)

lemma details_segment:
  assumes "list_all monitor_detail_xml_ok ds"
  shows "xml_parse_allnodes monitor_range_xml (xml_append_list monitor_detail_xml ds) s
    = Some (s\<lparr>mr_details := mr_details s @ ds\<rparr>)"
proof -
  have "xc_subnode monitor_range_xml ''Entry'' n z =
      map_option (\<lambda>d. z\<lparr>mr_details := mr_details z @ [d]\<rparr>) (xml_parse_node monitor_detail_xml n False monitor_detail_clear)" for n z
    by (simp add: monitor_range_xml_def monitor_range_xml_subnode_def)
  from monitor_detail_elem.parse_list [OF this assms]
  have "xml_parse_allnodes monitor_range_xml (xml_append_list monitor_detail_xml ds) s =
      Some (fold (\<lambda>d z. z\<lparr>mr_details := mr_details z @ [d]\<rparr>) ds s)" .
  also have "fold (\<lambda>d z. z\<lparr>mr_details := mr_details z @ [d]\<rparr>) ds s = s\<lparr>mr_details := mr_details s @ ds\<rparr>"
    by (induction ds arbitrary: s) simp_all
  finally show ?thesis .
qed

lemma monitor_range_nodes_parse:
  assumes "monitor_range_xml_ok x"
  shows "xml_parse_allnodes monitor_range_xml (monitor_range_nodes x) monitor_range_clear = Some x"
proof -
  have c: "mr_comment monitor_range_clear = []" "mr_table monitor_range_clear = []" "mr_details monitor_range_clear = []"
    by (simp_all add: monitor_range_clear_def)
  show ?thesis
    using assms unfolding monitor_range_nodes_def monitor_range_xml_ok_def Let_def
    by (simp add: parse_allnodes_append monitor_range_segments c details_segment)
qed

lemma find_details: "find is_pcdata (xml_append_list monitor_detail_xml ds) = None"
  by (rule find_pcdata_list) (simp add: monitor_detail_elem.create_name)

interpretation monitor_range_elem: xml_element monitor_range_xml "''Range''" monitor_range_xml_ok
proof
  show "node_name (xc_create monitor_range_xml x) = ''Range''" for x
    by (simp add: monitor_range_xml_def monitor_range_xml_create_def node_name_def)
  show "node_text (xc_create monitor_range_xml x) = []" for x
    by (simp add: monitor_range_xml_def monitor_range_xml_create_def node_text_def monitor_range_nodes_def Let_def find_append find_pcdata find_details)
  show "xml_parse_node monitor_range_xml (xc_create monitor_range_xml x) False y = Some x" if "monitor_range_xml_ok x" for x y
    using monitor_range_nodes_parse [OF that]
    by (simp add: monitor_range_xml_def monitor_range_xml_create_def xml_parse_node_def node_children_def)
qed

definition monitor_range_list_class :: "monitor_range ubl_class" where
  "monitor_range_list_class = \<lparr>ubl_get_id = mr_id, ubl_set_id = (\<lambda>i x. x\<lparr>mr_id := i\<rparr>), ubl_get_name = mr_comment,
     ubl_default = monitor_range_clear, ubl_item_clear = (\<lambda>x. monitor_range_clear), ubl_eq = monitor_range_eq,
     ubl_protected = False\<rparr>"

interpretation monitor_ranges: ubl_element monitor_range_list_class
  by unfold_locales (simp add: monitor_range_list_class_def)

definition monitor_range_list_xml :: "monitor_range list xml_class" where
  "monitor_range_list_xml = xml_list_class ''RangeList'' ''Range'' monitor_range_xml monitor_range_clear"

end
