(* ===== verification/ProcNick.thy ===== *)
theory ProcNick
  imports Xml UBaseList
begin

text \<open>
  \<open>corefilters/procnickname*.{h,cpp}\<close>: the names of processes the rules use. The list begins
  with two predefined entries, whose identifiers are write-protected.
\<close>

record procnickname =
  pn_nid :: u32
  pn_nickname :: string
  pn_pathexe :: string

definition procnickname_clear :: procnickname where
  "procnickname_clear = \<lparr>pn_nid = 0, pn_nickname = [], pn_pathexe = []\<rparr>"

definition procnickname_eq :: "procnickname \<Rightarrow> procnickname \<Rightarrow> bool" where
  "procnickname_eq a b \<longleftrightarrow> pn_nid a = pn_nid b \<and> pn_nickname a = pn_nickname b \<and> pn_pathexe a = pn_pathexe b"

definition procnickname_new :: "string \<Rightarrow> string \<Rightarrow> procnickname" where
  "procnickname_new nick path = \<lparr>pn_nid = 0, pn_nickname = nick, pn_pathexe = path\<rparr>"

section \<open>The list\<close>

definition procnicknamelist_class :: "procnickname ubl_class" where
  "procnicknamelist_class = \<lparr>ubl_get_id = pn_nid, ubl_set_id = (\<lambda>i p. p\<lparr>pn_nid := i\<rparr>), ubl_get_name = pn_nickname,
     ubl_default = procnickname_clear, ubl_item_clear = (\<lambda>p. procnickname_clear), ubl_eq = procnickname_eq,
     ubl_protected = True\<rparr>"

interpretation procnicknames: ubl_element procnicknamelist_class
  by unfold_locales (simp add: procnicknamelist_class_def)

definition proc_system :: procnickname where
  "proc_system = procnickname_clear\<lparr>pn_nid := 2, pn_nickname := ''SYSTEM''\<rparr>"

definition proc_svchost :: procnickname where
  "proc_svchost = procnickname_clear\<lparr>pn_nid := 3, pn_nickname := ''SVCHOST''\<rparr>"

definition procnicknamelist_clear :: "procnickname list" where
  "procnicknamelist_clear = [proc_system, proc_svchost]"

text \<open>\<open>ci\<close> is \<open>is_ci_equal\<close> of \<open>gstring\<close>.\<close>

definition find_by_pathexe :: "(string \<Rightarrow> string \<Rightarrow> bool) \<Rightarrow> string \<Rightarrow> procnickname list \<Rightarrow> procnickname option" where
  "find_by_pathexe ci path ps = find (\<lambda>p. ci (pn_pathexe p) path) ps"

section \<open>The XML form\<close>

definition procnickname_nodes :: "procnickname \<Rightarrow> xml list" where
  "procnickname_nodes x =
     (let orig = procnickname_clear in
       xml_append_value ''nid'' out_unsigned (pn_nid x) (pn_nid orig)
     @ xml_append_value ''Nick'' id (pn_nickname x) (pn_nickname orig)
     @ xml_append_value ''Exe'' id (pn_pathexe x) (pn_pathexe orig))"

definition procnickname_xml_create :: "procnickname \<Rightarrow> xml" where
  "procnickname_xml_create x = Elem ''Proc'' [] (procnickname_nodes x)"

definition procnickname_xml_catch_value :: "string \<Rightarrow> string \<Rightarrow> procnickname \<Rightarrow> procnickname option" where
  "procnickname_xml_catch_value keyname v x =
     (if keyname = ''nid'' then Some (x\<lparr>pn_nid := parse_unsigned v\<rparr>)
      else if keyname = ''Nick'' then Some (x\<lparr>pn_nickname := v\<rparr>)
      else if keyname = ''Exe'' then Some (x\<lparr>pn_pathexe := v\<rparr>)
      else Some x)"

definition procnickname_xml :: "procnickname xml_class" where
  "procnickname_xml = \<lparr>xc_clear = (\<lambda>x. procnickname_clear), xc_create = procnickname_xml_create,
     xc_value = procnickname_xml_catch_value, xc_subnode = (\<lambda>k n x. Some x)\<rparr>"

definition procnickname_xml_ok :: "procnickname \<Rightarrow> bool" where
  "procnickname_xml_ok x \<longleftrightarrow> CHR 0x00 \<notin> set (pn_nickname x)
     \<and> CHR 0x00 \<notin> set (pn_pathexe x)"

lemma procnickname_segments:
  "pn_nid procnickname_clear = pn_nid s \<Longrightarrow> xml_parse_allnodes procnickname_xml (xml_append_value ''nid'' out_unsigned u (pn_nid procnickname_clear)) s = Some (s\<lparr>pn_nid := u\<rparr>)"
  "pn_nickname s = [] \<Longrightarrow> CHR 0x00 \<notin> set t \<Longrightarrow> xml_parse_allnodes procnickname_xml (xml_append_value ''Nick'' id t []) s = Some (s\<lparr>pn_nickname := t\<rparr>)"
  "pn_pathexe s = [] \<Longrightarrow> CHR 0x00 \<notin> set t \<Longrightarrow> xml_parse_allnodes procnickname_xml (xml_append_value ''Exe'' id t []) s = Some (s\<lparr>pn_pathexe := t\<rparr>)"
  by (simp_all add: parse_value_if parse_text_if parse_mac_if procnickname_xml_def procnickname_xml_catch_value_def)

lemma procnickname_nodes_parse:
  assumes "procnickname_xml_ok x"
  shows "xml_parse_allnodes procnickname_xml (procnickname_nodes x) procnickname_clear = Some x"
proof -
  have c: "pn_nickname procnickname_clear = []" "pn_pathexe procnickname_clear = []"
    by (simp_all add: procnickname_clear_def)
  show ?thesis
    using assms unfolding procnickname_nodes_def procnickname_xml_ok_def Let_def
    by (simp add: parse_allnodes_append procnickname_segments c)
qed

interpretation procnickname_elem: xml_element procnickname_xml "''Proc''" procnickname_xml_ok
proof
  show "node_name (xc_create procnickname_xml x) = ''Proc''" for x
    by (simp add: procnickname_xml_def procnickname_xml_create_def node_name_def)
  show "node_text (xc_create procnickname_xml x) = []" for x
    by (simp add: procnickname_xml_def procnickname_xml_create_def node_text_def procnickname_nodes_def Let_def find_append find_pcdata)
  show "xml_parse_node procnickname_xml (xc_create procnickname_xml x) False y = Some x" if "procnickname_xml_ok x" for x y
    using procnickname_nodes_parse [OF that]
    by (simp add: procnickname_xml_def procnickname_xml_create_def xml_parse_node_def node_children_def)
qed

text \<open>
  The list reads each node into its temporary item and commits it: an entry with a protected
  identifier that is already there, and the default entry, are dropped.
\<close>

definition procnicknamelist_commit :: "procnickname \<Rightarrow> procnickname list \<Rightarrow> procnickname list" where
  "procnicknamelist_commit p ps =
     ubl_items (commit_temp_item procnicknamelist_class \<lparr>ubl_items = ps, ubl_temp_item = p\<rparr>)"

definition procnicknamelist_xml :: "procnickname list xml_class" where
  "procnicknamelist_xml = \<lparr>xc_clear = (\<lambda>ps. procnicknamelist_clear),
     xc_create = (\<lambda>ps. Elem ''ProcNickNameList'' [] (xml_append_list procnickname_xml ps)),
     xc_value = (\<lambda>k v ps. Some ps),
     xc_subnode = (\<lambda>k n ps. if k = ''Proc''
       then map_option (\<lambda>p. procnicknamelist_commit p ps) (xml_parse_node procnickname_xml n False procnickname_clear)
       else Some ps)\<rparr>"

lemma commit_protected:
  assumes "p \<noteq> procnickname_clear" and "0 < pn_nid p" and "pn_nid p < 10" and "\<exists>q \<in> set ps. pn_nid q = pn_nid p"
  shows "procnicknamelist_commit p ps = ps"
proof -
  have "\<not> procnickname_eq procnickname_clear p" using assms(1) by (auto simp: procnickname_eq_def)
  moreover have "is_element_exist procnicknamelist_class ps (pn_nid p)"
    using assms(4) by (auto simp: is_element_exist_def list_ex_iff procnicknamelist_class_def)
  ultimately show ?thesis
    using assms(2,3) by (simp add: procnicknamelist_commit_def commit_temp_item_def clear_temp_def add_element_def
        insert_element_def procnicknamelist_class_def is_write_protected_def utm_consts)
qed

lemma commit_new:
  assumes "10 \<le> pn_nid p"
  shows "procnicknamelist_commit p ps = ps @ [p]"
proof -
  have nz: "0 < pn_nid p" "pn_nid p \<noteq> 0" "\<not> pn_nid p < 10"
    using assms by (auto simp: word_le_nat_alt word_less_nat_alt)
  then have "\<not> procnickname_eq procnickname_clear p" by (auto simp: procnickname_eq_def procnickname_clear_def)
  then show ?thesis
    using nz by (simp add: procnicknamelist_commit_def commit_temp_item_def clear_temp_def add_element_def
        insert_element_def Let_def procnicknamelist_class_def is_write_protected_def utm_consts)
qed

definition procs_ok :: "procnickname list \<Rightarrow> bool" where
  "procs_ok ps \<longleftrightarrow> take 2 ps = procnicknamelist_clear
     \<and> list_all (\<lambda>p. 10 \<le> pn_nid p \<and> procnickname_xml_ok p) (drop 2 ps)"

lemma procs_commit: "procs_ok ps \<Longrightarrow> fold procnicknamelist_commit ps procnicknamelist_clear = ps"
proof -
  assume ok: "procs_ok ps"
  define qs where "qs = drop 2 ps"
  have ps: "ps = proc_system # proc_svchost # qs"
    using ok append_take_drop_id [of 2 ps] by (simp add: procs_ok_def procnicknamelist_clear_def qs_def)
  have "procnicknamelist_commit proc_system procnicknamelist_clear = procnicknamelist_clear"
    "procnicknamelist_commit proc_svchost procnicknamelist_clear = procnicknamelist_clear"
    by (rule commit_protected; simp add: proc_system_def proc_svchost_def procnickname_clear_def procnicknamelist_clear_def)+
  moreover have "fold procnicknamelist_commit qs xs = xs @ qs" for xs
  proof -
    have "list_all (\<lambda>p. 10 \<le> pn_nid p) qs" using ok by (simp add: procs_ok_def qs_def list_all_iff)
    then show ?thesis by (induction qs arbitrary: xs) (simp_all add: commit_new)
  qed
  ultimately show ?thesis by (simp add: ps procnicknamelist_clear_def)
qed

lemma procs_xml_ok: "procs_ok ps \<Longrightarrow> list_all procnickname_xml_ok ps"
proof -
  assume ok: "procs_ok ps"
  then have "list_all procnickname_xml_ok (take 2 ps)" "list_all procnickname_xml_ok (drop 2 ps)"
    by (auto simp: procs_ok_def procnicknamelist_clear_def proc_system_def proc_svchost_def procnickname_clear_def
        procnickname_xml_ok_def list_all_iff)
  then have "list_all procnickname_xml_ok (take 2 ps @ drop 2 ps)" by (simp only: list_all_append)
  then show ?thesis by (simp only: append_take_drop_id)
qed

end
