(* ===== verification/Ufs.thy ===== *)
theory Ufs
  imports UTime
begin

text \<open>
  \<open>utm/ufs.{h,cpp}\<close>: file names. The text is in characters of one width; the strings of the
  Windows build are in \<open>wchar_t\<close>.
\<close>

section \<open>Folders and extensions\<close>

definition ufs_slash :: string where "ufs_slash = [CHR 0x5C]"

definition is_slash :: "char \<Rightarrow> bool" where "is_slash c \<longleftrightarrow> c = CHR ''/'' \<or> c = CHR 0x5C"

definition make_strong_directory_path :: "string \<Rightarrow> string" where
  "make_strong_directory_path path =
     (if path = [] then [] else if is_slash (last path) then path else path @ ufs_slash)"

definition pathname_from_current_directory :: "string \<Rightarrow> string \<Rightarrow> string" where
  "pathname_from_current_directory current subdir = current @ subdir @ [CHR 0x5C]"

text \<open>\<open>rfind\<close> of a character: what comes before its last occurrence.\<close>

definition before_last :: "char \<Rightarrow> string \<Rightarrow> string option" where
  "before_last c s =
     (let r = dropWhile (\<lambda>d. d \<noteq> c) (rev s) in if r = [] then None else Some (rev (tl r)))"

definition replace_file_extension :: "string \<Rightarrow> string \<Rightarrow> string" where
  "replace_file_extension filename newext = (case before_last (CHR ''.'') filename of
      None \<Rightarrow> filename
    | Some name \<Rightarrow> name @ ''.'' @ newext)"

definition make_full_filepath :: "string \<Rightarrow> string \<Rightarrow> string" where
  "make_full_filepath folder filename =
     (if folder = [] then filename
      else if is_slash (last folder) then folder @ filename
      else folder @ ufs_slash @ filename)"

definition make_full_filepath_ext :: "string \<Rightarrow> string \<Rightarrow> string \<Rightarrow> string" where
  "make_full_filepath_ext folder filename newext =
     make_full_filepath folder (replace_file_extension filename newext)"

section \<open>Names with a date\<close>

text \<open>
  The text a pattern character stands for. The copies of four and two characters are of the
  text of a \<open>boost\<close> year, 1400 to 9999, and of two-digit texts.
\<close>

definition pattern_text :: "utime \<Rightarrow> char \<Rightarrow> string option" where
  "pattern_text t c =
     (if c = CHR ''Y'' then Some (take 4 (ut_get_year_str t))
      else if c = CHR ''y'' then Some (take 2 (drop 2 (ut_get_year_str t)))
      else if c = CHR ''T'' then Some (get_month_long t [])
      else if c = CHR ''M'' then Some (get_month_short t [])
      else if c = CHR ''m'' then Some (take 2 (ut_get_month_str t))
      else if c = CHR ''d'' then Some (take 2 (ut_get_day_str t))
      else None)"

text \<open>\<open>gstring::find\<close> of a character from a position, and \<open>gstring::at\<close>.\<close>

definition find_char :: "char \<Rightarrow> string \<Rightarrow> nat \<Rightarrow> nat option" where
  "find_char c s pos =
     (let k = length (takeWhile (\<lambda>d. d \<noteq> c) (drop pos s)) in
      if pos + k < length s then Some (pos + k) else None)"

definition gstring_at :: "string \<Rightarrow> nat \<Rightarrow> char" where
  "gstring_at s pos = (if pos < length s then s ! pos else CHR 0x00)"

lemma digits_no_percent: "list_all is_digit s \<Longrightarrow> CHR ''%'' \<notin> set s"
  by (auto simp: list_all_iff is_digit_def dest!: bspec)

lemma month_names_no_percent:
  "list_all (\<lambda>s. CHR ''%'' \<notin> set s \<and> s \<noteq> []) (month_names @ month_short_names)"
  by (simp add: month_names_def month_short_names_def)

lemma month_switch_no_percent:
  assumes "list_all (\<lambda>s. CHR ''%'' \<notin> set s \<and> s \<noteq> []) names" and "length names = 12"
  shows "CHR ''%'' \<notin> set (month_switch names t [])"
    and "1 \<le> ut_month t \<Longrightarrow> ut_month t \<le> 12 \<Longrightarrow> month_switch names t [] \<noteq> []"
  using assms by (auto simp: month_switch_def list_all_length)

lemma pattern_no_percent: "pattern_text t c = Some s \<Longrightarrow> CHR ''%'' \<notin> set s"
proof -
  assume p: "pattern_text t c = Some s"
  have d: "CHR ''%'' \<notin> set (print_u n)" for n using digits_no_percent [OF print_u_digits] .
  have dn: "CHR ''%'' \<notin> set (take k (print_u n))" "CHR ''%'' \<notin> set (take k (drop l (print_u n)))" for k l n
    using d [of n] by (meson in_set_takeD in_set_dropD)+
  have tw: "CHR ''%'' \<notin> set (take k (format_twodigit_ushort n))" for k n
    using d [of n] by (auto simp: format_twodigit_ushort_def dest: in_set_takeD)
  have m: "CHR ''%'' \<notin> set (get_month_long t [])" "CHR ''%'' \<notin> set (get_month_short t [])"
    using month_switch_no_percent(1) month_names_no_percent
    by (simp_all add: get_month_long_def get_month_short_def) (simp_all add: month_names_def month_short_names_def)
  show ?thesis
    using p dn tw m by (auto simp: pattern_text_def ut_get_year_str_def ut_get_month_str_def ut_get_day_str_def split: if_splits)
qed

lemma find_char_Some:
  assumes "find_char c s pos = Some p"
  shows "p < length s" "pos \<le> p" "s ! p = c" "c \<notin> set (take (p - pos) (drop pos s))"
proof -
  let ?k = "length (takeWhile (\<lambda>d. d \<noteq> c) (drop pos s))"
  have p: "p = pos + ?k" "p < length s" using assms by (auto simp: find_char_def Let_def split: if_splits)
  then have "?k < length (drop pos s)" by simp
  then have "drop pos s ! ?k = c" using nth_length_takeWhile by blast
  then show "p < length s" "pos \<le> p" "s ! p = c" using p by simp_all
  have "take (p - pos) (drop pos s) = takeWhile (\<lambda>d. d \<noteq> c) (drop pos s)"
    using p by (simp add: takeWhile_eq_take [symmetric])
  then show "c \<notin> set (take (p - pos) (drop pos s))" by (auto dest: set_takeWhileD)
qed

lemma count_drop_less:
  fixes s :: string
  assumes "p < length s" "pos \<le> p" "s ! p = c"
  shows "count_list (drop (Suc p) s) c < count_list (drop pos s) c"
proof -
  have "drop pos s = take (p - pos) (drop pos s) @ s ! p # drop (Suc p) s"
    using assms by (metis append_take_drop_id drop_drop Cons_nth_drop_Suc le_add_diff_inverse2)
  then have "count_list (drop pos s) c = count_list (take (p - pos) (drop pos s)) c + Suc (count_list (drop (Suc p) s) c)"
    using assms(3) by (metis count_list.simps(2) count_list_append Suc_eq_plus1)
  then show ?thesis by simp
qed

lemma count_drop_le: "count_list (drop k s) c \<le> count_list s c"
  by (metis append_take_drop_id count_list_append le_add2)

function derive_loop :: "utime \<Rightarrow> string \<Rightarrow> nat \<Rightarrow> string" where
  "derive_loop t retval pos = (case find_char (CHR ''%'') retval pos of
      None \<Rightarrow> retval
    | Some p \<Rightarrow>
        let c = gstring_at retval (p + 1) in
        if c = CHR 0x00 then retval
        else (case pattern_text t c of
            None \<Rightarrow> derive_loop t retval (p + 1)
          | Some str \<Rightarrow> derive_loop t (take p retval @ str @ drop (p + 2) retval) (p + 1)))"
  by auto

termination
proof (relation "measure (\<lambda>(t, retval, pos). count_list (drop pos retval) (CHR ''%''))", goal_cases)
  case (2 t retval pos p c)
  then show ?case using find_char_Some [OF 2(1)] count_drop_less by simp
next
  case (3 t retval pos p c str)
  note f = find_char_Some [OF 3(1)]
  have z: "count_list str (CHR ''%'') = 0" using pattern_no_percent [OF 3(4)] by (simp add: count_list_0_iff)
  have "count_list (drop (p + 1) (take p retval @ str @ drop (p + 2) retval)) (CHR ''%'')
      = count_list (drop 1 (str @ drop (p + 2) retval)) (CHR ''%'')" using f(1) by simp
  also have "\<dots> \<le> count_list (drop (p + 2) retval) (CHR ''%'')"
    using count_drop_le [of 1 "str @ drop (p + 2) retval" "CHR ''%''"] by (simp add: z)
  also have "\<dots> \<le> count_list (drop (Suc p) retval) (CHR ''%'')"
    using count_drop_le [of 1 "drop (Suc p) retval" "CHR ''%''"] by simp
  also have "\<dots> < count_list (drop pos retval) (CHR ''%'')" using f(1-3) by (rule count_drop_less)
  finally show ?case by simp
qed simp

declare derive_loop.simps [simp del]

text \<open>\<open>timestamp\<close> is \<open>None\<close> when it is not valid; \<open>now\<close> is the current time.\<close>

definition derive_fullpath :: "utime \<Rightarrow> utime option \<Rightarrow> string \<Rightarrow> string \<Rightarrow> bool \<times> string" where
  "derive_fullpath now timestamp filename retval =
     (if filename = [] then (False, retval)
      else (True, derive_loop (case timestamp of None \<Rightarrow> now | Some t \<Rightarrow> t) filename 0))"

section \<open>The names as a substitution\<close>

text \<open>One pass over the name that replaces every pattern.\<close>

fun expand_patterns :: "utime \<Rightarrow> string \<Rightarrow> string" where
  "expand_patterns t (c # d # s) =
     (if c \<noteq> CHR ''%'' then c # expand_patterns t (d # s)
      else if d = CHR 0x00 then c # d # s
      else case pattern_text t d of
          None \<Rightarrow> c # expand_patterns t (d # s)
        | Some str \<Rightarrow> str @ expand_patterns t s)"
| "expand_patterns t s = s"

lemma expand_no_percent: "CHR ''%'' \<notin> set u \<Longrightarrow> expand_patterns t (u @ s) = u @ expand_patterns t s"
proof (induction u)
  case (Cons c u)
  then show ?case by (cases "u @ s") auto
qed simp

lemma expand_NUL: "s = [] \<or> hd s = CHR 0x00 \<Longrightarrow> expand_patterns t (CHR ''%'' # s) = CHR ''%'' # s"
  by (cases s) auto

lemma expand_pattern:
  "d \<noteq> CHR 0x00 \<Longrightarrow> expand_patterns t (CHR ''%'' # d # s) = (case pattern_text t d of
     None \<Rightarrow> CHR ''%'' # expand_patterns t (d # s) | Some str \<Rightarrow> str @ expand_patterns t s)"
  by simp

definition patterns_ok :: "utime \<Rightarrow> bool" where
  "patterns_ok t \<longleftrightarrow> 1 \<le> ut_month t \<and> ut_month t \<le> 12 \<and> 1000 \<le> ut_year t"

lemma print_u_long: "1000 \<le> n \<Longrightarrow> 4 \<le> length (print_u n)"
proof -
  assume n: "1000 \<le> n"
  have "print_u n = print_u (n div 10) @ [digit_char (n mod 10)]"
    "print_u (n div 10) = print_u (n div 10 div 10) @ [digit_char (n div 10 mod 10)]"
    "print_u (n div 10 div 10) = print_u (n div 10 div 10 div 10) @ [digit_char (n div 10 div 10 mod 10)]"
    using n by (subst print_u.simps, simp)+
  then have "length (print_u n) = 3 + length (print_u (n div 10 div 10 div 10))" by simp
  moreover have "print_u (n div 10 div 10 div 10) \<noteq> []" by (rule print_u_not_Nil)
  then have "1 \<le> length (print_u (n div 10 div 10 div 10))" by (simp add: Suc_le_eq)
  ultimately show ?thesis by linarith
qed

lemma pattern_not_Nil: "patterns_ok t \<Longrightarrow> pattern_text t c \<noteq> Some []"
proof -
  assume ok: "patterns_ok t"
  then have m: "get_month_long t [] \<noteq> []" "get_month_short t [] \<noteq> []"
    using month_switch_no_percent(2) month_names_no_percent
    by (simp_all add: patterns_ok_def get_month_long_def get_month_short_def)
      (simp_all add: month_names_def month_short_names_def)
  have "4 \<le> length (ut_get_year_str t)" using ok print_u_long by (simp add: patterns_ok_def ut_get_year_str_def)
  moreover from this have "ut_get_year_str t \<noteq> []" by auto
  moreover have "format_twodigit_ushort n \<noteq> []" for n by (simp add: format_twodigit_ushort_def print_u_not_Nil)
  ultimately show ?thesis using m by (auto simp: pattern_text_def ut_get_month_str_def ut_get_day_str_def)
qed

lemma derive_loop_expands:
  assumes "patterns_ok t"
  shows "pos \<le> length retval \<Longrightarrow> derive_loop t retval pos = take pos retval @ expand_patterns t (drop pos retval)"
  using assms
proof (induction t retval pos rule: derive_loop.induct)
  case (1 t retval pos)
  show ?case
  proof (cases "find_char (CHR ''%'') retval pos")
    case None
    then have "length (takeWhile (\<lambda>d. d \<noteq> CHR ''%'') (drop pos retval)) = length (drop pos retval)"
      using length_takeWhile_le [of "\<lambda>d. d \<noteq> CHR ''%''" "drop pos retval"] 1(3)
      by (simp add: find_char_def Let_def split: if_splits)
    then have "takeWhile (\<lambda>d. d \<noteq> CHR ''%'') (drop pos retval) = drop pos retval"
      by (subst takeWhile_eq_take) simp
    then have "CHR ''%'' \<notin> set (drop pos retval)" by (metis (mono_tags, lifting) set_takeWhileD)
    from expand_no_percent [OF this, of t "[]"] None show ?thesis
      by (simp add: derive_loop.simps [of t retval pos])
  next
    case (Some p)
    note f = find_char_Some [OF Some]
    define u where "u = take (p - pos) (drop pos retval)"
    have d: "drop pos retval = u @ CHR ''%'' # drop (p + 1) retval"
      using f by (metis u_def append_take_drop_id drop_drop Cons_nth_drop_Suc le_add_diff_inverse2 Suc_eq_plus1)
    have pu: "take pos retval @ u = take p retval"
      using f(2) by (metis u_def le_add_diff_inverse take_add)
    have p1: "take (p + 1) retval = take p retval @ ''%''" using f(1,3) by (simp add: take_Suc_conv_app_nth)
    have ex: "take pos retval @ expand_patterns t (drop pos retval)
        = take p retval @ expand_patterns t (CHR ''%'' # drop (p + 1) retval)"
      unfolding d using expand_no_percent f(4) pu by (metis u_def append.assoc)
    let ?c = "gstring_at retval (p + 1)"
    show ?thesis
    proof (cases "?c = CHR 0x00")
      case True
      then have "drop (p + 1) retval = [] \<or> hd (drop (p + 1) retval) = CHR 0x00"
        by (auto simp: gstring_at_def hd_drop_conv_nth split: if_splits)
      then have "take pos retval @ expand_patterns t (drop pos retval) = retval"
        using p1 by (simp only: ex expand_NUL) (metis append.assoc append_Cons append_Nil append_take_drop_id)
      then show ?thesis using Some True by (simp add: derive_loop.simps [of t retval pos])
    next
      case False
      then have l: "p + 1 < length retval" by (auto simp: gstring_at_def split: if_splits)
      have d1: "drop (p + 1) retval = ?c # drop (p + 2) retval"
        using l by (simp add: gstring_at_def Cons_nth_drop_Suc)
      show ?thesis
      proof (cases "pattern_text t ?c")
        case None
        have "derive_loop t retval pos = derive_loop t retval (p + 1)"
          using Some False None by (simp add: derive_loop.simps [of t retval pos])
        also have "\<dots> = take (p + 1) retval @ expand_patterns t (drop (p + 1) retval)"
          by (rule 1(1) [OF Some refl False None]) (use l 1(4) in simp_all)
        also have "\<dots> = take pos retval @ expand_patterns t (drop pos retval)"
          unfolding ex d1 using None False p1 by (simp add: expand_pattern)
        finally show ?thesis .
      next
        case (Some str)
        note str = Some
        have ne: "str \<noteq> []" using pattern_not_Nil [OF 1(4)] str by auto
        let ?r = "take p retval @ str @ drop (p + 2) retval"
        have r: "take (p + 1) ?r = take p retval @ [hd str]" "drop (p + 1) ?r = tl str @ drop (p + 2) retval"
          using ne f(1) by (cases str; simp)+
        have "CHR ''%'' \<notin> set (tl str)" using pattern_no_percent [OF str] ne by (meson list.set_sel(2))
        note skip = expand_no_percent [OF this, of t "drop (p + 2) retval"]
        have "derive_loop t retval pos = derive_loop t ?r (p + 1)"
          using \<open>find_char _ _ _ = Some p\<close> False str by (simp add: derive_loop.simps [of t retval pos])
        also have "\<dots> = take (p + 1) ?r @ expand_patterns t (drop (p + 1) ?r)"
          by (rule 1(2) [OF \<open>find_char _ _ _ = Some p\<close> refl False str]) (use ne f(1) 1(4) in \<open>simp_all add: Suc_le_eq\<close>)
        also have "\<dots> = take p retval @ str @ expand_patterns t (drop (p + 2) retval)"
          unfolding r skip using ne by simp
        also have "\<dots> = take pos retval @ expand_patterns t (drop pos retval)"
          unfolding ex d1 using str False by (simp add: expand_pattern)
        finally show ?thesis .
      qed
    qed
  qed
qed

section \<open>Properties\<close>

text \<open>
  C39: the names of dated files. For every date \<open>boost\<close> knows the loop ends with the file name in
  which every pattern is replaced in one pass; patterns are not looked for in replaced text.
\<close>

theorem derive_fullpath_expands:
  assumes "patterns_ok (case timestamp of None \<Rightarrow> now | Some t \<Rightarrow> t)"
  shows "derive_fullpath now timestamp filename retval =
    (if filename = [] then (False, retval)
     else (True, expand_patterns (case timestamp of None \<Rightarrow> now | Some t \<Rightarrow> t) filename))"
  using derive_loop_expands [OF assms, of 0 filename] by (simp add: derive_fullpath_def)

theorem derive_fullpath_expands_witness:
  "derive_fullpath (ut_set 2000 1 1 0 0 0) (Some (ut_set 2012 12 31 23 59 30)) ''%Y_%m_%d %y*%T 50%%M'' []
   = (True, ''2012_12_31 12*December 50%Dec'')"
proof -
  have p: "print_u 2012 = ''2012''" "print_u 12 = ''12''" "print_u 31 = ''31''"
    by code_simp+
  have "patterns_ok (ut_set 2012 12 31 23 59 30)" by (simp add: patterns_ok_def ut_set_def)
  then show ?thesis
    using derive_fullpath_expands [of "ut_set 2000 1 1 0 0 0" "Some (ut_set 2012 12 31 23 59 30)" "''%Y_%m_%d %y*%T 50%%M''" "[]"]
    by (simp add: pattern_text_def ut_set_def p ut_get_year_str_def ut_get_month_str_def ut_get_day_str_def
        format_twodigit_ushort_def get_month_long_def get_month_short_def month_switch_def month_names_def month_short_names_def)
qed

text \<open>
  the extension of a name is looked for in its folders too. A file name without a dot in a
  folder with one loses the rest of the folder's name and itself.
\<close>

theorem extension_of_dotted_folder:
  assumes "CHR ''.'' \<notin> set name"
  shows "replace_file_extension (folder @ ''.'' @ name) newext = folder @ ''.'' @ newext"
proof -
  have "dropWhile (\<lambda>d. d \<noteq> CHR ''.'') (rev name @ ''.'' @ rev folder) = ''.'' @ rev folder"
    using assms by (simp add: dropWhile_append)
  then show ?thesis by (simp add: replace_file_extension_def before_last_def)
qed

theorem extension_of_dotted_folder_witness:
  "replace_file_extension ''c:/utm.d/rules'' ''bak'' = ''c:/utm.bak''"
  using extension_of_dotted_folder [of "''d/rules''" "''c:/utm''" "''bak''"] by simp

end
