(* ===== verification/FilterSet.thy ===== *)
theory FilterSet
  imports AddrTable FilterSetData FilterMatch UrlFilter FsUser MonitorRange ProcNick Ufs
begin

unbundle bit_operations_syntax

text \<open>
  \<open>corefilters/filterset.{h,cpp}\<close>, \<open>filterset_base.{h,cpp}\<close>, \<open>filterlist.{h,cpp}\<close>: the
  configuration of the traffic filter with the counters of its filters. Clocks and the file
  system are arguments; the files written are returned.
\<close>

section \<open>State\<close>

record filterset_base =
  fs_revision :: i32
  fs_filters :: "filter2 list"
  fs_table_lat :: addrtable
  fs_table_mat :: "addrtablemaprec list"
  fs_users :: "fsuser list"
  fs_urlfilters :: "urlfilter list"
  fs_procs :: "procnickname list"
  fs_ranges :: "monitor_range list"
  m_nUserProfileAuthMode :: i32
  m_nUserProfileStatus :: i32
  m_nUserProfileManageFilters :: i32
  m_nUserProfileType :: i32
  m_nUserProfileDenyDoubleLogins :: i32
  m_bUseMiB :: bool
  fs_filterset_file :: string
  fs_descr :: string
  fs_adodb_conn_string :: string
  m_bKeepCounters :: bool
  m_nLogCntFlushPeriod :: u32
  m_szLogCntFolder1 :: string
  m_szLogCntFolder2 :: string
  m_szLogCntXSLFile1 :: string
  m_bLogCntDbEnable :: bool
  m_nLogCntDbFlushPeriod :: u32
  m_szLogCntDbTable :: string
  m_nLogCntDbSamples :: u32

record filterset = filterset_base +
  fs_fdata :: filterset_data
  fs_is_proc_used :: bool
  fs_is_shaper_used :: bool

text \<open>\<open>clear\<close> of the base class; the time points and the usage flags are not touched.\<close>

definition filterset_clear :: "'a filterset_base_scheme \<Rightarrow> 'a filterset_base_scheme" where
  "filterset_clear s = s\<lparr>fs_revision := 0, fs_filters := [], fs_table_lat := addrtable_clear, fs_table_mat := [],
     fs_users := [], fs_urlfilters := [], fs_procs := procnicknamelist_clear, fs_ranges := [],
     m_nUserProfileAuthMode := 0, m_nUserProfileStatus := 0, m_nUserProfileManageFilters := 0,
     m_nUserProfileType := 0, m_nUserProfileDenyDoubleLogins := 0, m_bUseMiB := True,
     fs_filterset_file := [], fs_descr := [], fs_adodb_conn_string := [], m_bKeepCounters := True,
     m_nLogCntFlushPeriod := 10, m_szLogCntFolder1 := [], m_szLogCntFolder2 := [], m_szLogCntXSLFile1 := [],
     m_bLogCntDbEnable := False, m_nLogCntDbFlushPeriod := 20, m_szLogCntDbTable := [], m_nLogCntDbSamples := 20\<rparr>"

text \<open>
  \<open>operator==\<close> compares the lists element by element with the comparison of the elements, and
  the address tables by their ranges.
\<close>

definition filterset_eq :: "'a filterset_base_scheme \<Rightarrow> 'a filterset_base_scheme \<Rightarrow> bool" where
  "filterset_eq a b \<longleftrightarrow> fs_revision a = fs_revision b
     \<and> list_all2 filter_base_eq (fs_filters a) (fs_filters b)
     \<and> at_items (fs_table_lat a) = at_items (fs_table_lat b)
     \<and> list_all2 addrtablemaprec_eq (fs_table_mat a) (fs_table_mat b)
     \<and> list_all2 fsuser_eq (fs_users a) (fs_users b)
     \<and> list_all2 urlfilter_eq (fs_urlfilters a) (fs_urlfilters b)
     \<and> list_all2 procnickname_eq (fs_procs a) (fs_procs b)
     \<and> list_all2 monitor_range_eq (fs_ranges a) (fs_ranges b)
     \<and> m_nUserProfileAuthMode a = m_nUserProfileAuthMode b \<and> m_nUserProfileStatus a = m_nUserProfileStatus b
     \<and> m_nUserProfileManageFilters a = m_nUserProfileManageFilters b \<and> m_nUserProfileType a = m_nUserProfileType b
     \<and> m_nUserProfileDenyDoubleLogins a = m_nUserProfileDenyDoubleLogins b \<and> m_bUseMiB a = m_bUseMiB b
     \<and> fs_filterset_file a = fs_filterset_file b \<and> fs_descr a = fs_descr b
     \<and> fs_adodb_conn_string a = fs_adodb_conn_string b \<and> m_bKeepCounters a = m_bKeepCounters b
     \<and> m_nLogCntFlushPeriod a = m_nLogCntFlushPeriod b \<and> m_szLogCntFolder1 a = m_szLogCntFolder1 b
     \<and> m_szLogCntFolder2 a = m_szLogCntFolder2 b \<and> m_szLogCntXSLFile1 a = m_szLogCntXSLFile1 b
     \<and> m_bLogCntDbEnable a = m_bLogCntDbEnable b \<and> m_nLogCntDbFlushPeriod a = m_nLogCntDbFlushPeriod b
     \<and> m_szLogCntDbTable a = m_szLogCntDbTable b \<and> m_nLogCntDbSamples a = m_nLogCntDbSamples b"

text \<open>The elements of a \<open>filterlist\<close>; \<open>u\<close> and \<open>v\<close> are left uninitialised by the constructor.\<close>

definition filterlist_class :: "u32 \<Rightarrow> u32 \<Rightarrow> filter2 ubl_class" where
  "filterlist_class u v = \<lparr>ubl_get_id = m_id, ubl_set_id = (\<lambda>i f. f\<lparr>m_id := i\<rparr>), ubl_get_name = m_szFilterName,
     ubl_default = filter2_new u v, ubl_item_clear = filter_clear False, ubl_eq = filter_base_eq,
     ubl_protected = False\<rparr>"

interpretation filterlist: ubl_element "filterlist_class u v" for u v
  by unfold_locales (simp add: filterlist_class_def)

section \<open>Counters\<close>

text \<open>Finding a filter does not depend on the uninitialised members.\<close>

definition find_filter :: "u32 \<Rightarrow> 'a filterset_base_scheme \<Rightarrow> filter2 option" where
  "find_filter i s = find_by_id (filterlist_class 0 0) i (fs_filters s)"

definition copy_counters :: "filterset \<Rightarrow> filterset \<Rightarrow> filterset" where
  "copy_counters src s = s\<lparr>fs_fdata := fs_fdata src,
     fs_filters := map (\<lambda>g. case find_filter (m_id g) src of None \<Rightarrow> g | Some f \<Rightarrow> copy_filter_counters f g)
       (fs_filters s)\<rparr>"

definition reset_all_counters :: "'a filterset_base_scheme \<Rightarrow> 'a filterset_base_scheme" where
  "reset_all_counters s = s\<lparr>fs_filters := map (reset_filter_counters True) (fs_filters s)\<rparr>"

text \<open>\<open>reset_on_schedule\<close>: the text lists the identifiers of the filters that were reset.\<close>

definition filterset_reset_on_schedule ::
  "standard_timeset \<Rightarrow> bool \<Rightarrow> 'a filterset_base_scheme \<Rightarrow> string \<times> 'a filterset_base_scheme"
where
  "filterset_reset_on_schedule stimeset reset_history s =
     (let rs = map (reset_on_schedule stimeset reset_history) (fs_filters s);
          zeroed = [m_id f. (f, r) \<leftarrow> zip (fs_filters s) rs, fst r]
      in (ids_to_string zeroed, s\<lparr>fs_filters := map snd rs\<rparr>))"

section \<open>What the filters use\<close>

definition prepare_proc_usage :: "filterset \<Rightarrow> filterset" where
  "prepare_proc_usage s = s\<lparr>fs_is_proc_used := list_ex (\<lambda>f. list_ex (\<lambda>r.
       src_type r = RULE_PROCNAME \<or> src_type r = RULE_PROCUSER
       \<or> dst_type r = RULE_PROCNAME \<or> dst_type r = RULE_PROCUSER) (rules f)) (fs_filters s)\<rparr>"

definition prepare_shaper_usage :: "filterset \<Rightarrow> filterset" where
  "prepare_shaper_usage s =
     s\<lparr>fs_is_shaper_used := list_ex (\<lambda>f. sint (get_actual_speed f) > 0) (fs_filters s)\<rparr>"

definition is_addrtable_used :: "u32 \<Rightarrow> 'a filterset_base_scheme \<Rightarrow> bool" where
  "is_addrtable_used atkey s = list_ex (\<lambda>f. list_ex (\<lambda>r.
       src_type r = RULE_ADDRGRP \<and> src_atkey r = atkey
       \<or> dst_type r = RULE_ADDRGRP \<and> dst_atkey r = atkey) (rules f)) (fs_filters s)"

section \<open>Flag files\<close>

text \<open>
  \<open>opens p\<close> says that the file \<open>p\<close> can be opened for writing; the result lists the files written
  with their text. One flag, \<open>limit\<close> or \<open>warn\<close>, of one filter is handled as follows.
\<close>

definition flag_text :: "string \<Rightarrow> filter2 \<Rightarrow> string" where
  "flag_text nowstr f = nowstr @ '' '' @ out_signed (cnt (cnt_sent f)) @ ''/'' @ out_signed (cnt (cnt_recv f))"

definition process_flag ::
  "(string \<Rightarrow> bool) \<Rightarrow> string \<Rightarrow> string \<Rightarrow> string \<Rightarrow> u16 \<Rightarrow> bool \<Rightarrow> filter2 \<Rightarrow> (string \<times> string) list \<times> filter2"
where
  "process_flag opens nowstr flagfolder stem bitmask exceeded f =
     (if \<not> exceeded then ([], f\<lparr>m_wTrafficLimitFlags := m_wTrafficLimitFlags f AND NOT bitmask\<rparr>)
      else if m_wTrafficLimitFlags f AND bitmask \<noteq> 0 then ([], f)
      else let flagfile = make_full_filepath flagfolder (stem @ out_unsigned (m_id f)) in
        (if opens flagfile then [(flagfile, flag_text nowstr f)] else [],
         f\<lparr>m_wTrafficLimitFlags := m_wTrafficLimitFlags f OR bitmask\<rparr>))"

definition process_filter_flags ::
  "(string \<Rightarrow> bool) \<Rightarrow> string \<Rightarrow> string \<Rightarrow> filter2 \<Rightarrow> (string \<times> string) list \<times> filter2"
where
  "process_filter_flags opens nowstr flagfolder f =
     (let (w1, f1) = process_flag opens nowstr flagfolder ''limit_'' 0x0001
                       (is_traffic_limit_exceeded 1048576 False f) f;
          (w2, f2) = process_flag opens nowstr flagfolder ''warn_'' 0x0002
                       (is_traffic_limitwarn_exceeded 1048576 f) f1
      in (w1 @ w2, f2))"

definition process_traffic_limit_flags ::
  "(string \<Rightarrow> bool) \<Rightarrow> utime \<Rightarrow> string \<Rightarrow> 'a filterset_base_scheme \<Rightarrow> (string \<times> string) list \<times> 'a filterset_base_scheme"
where
  "process_traffic_limit_flags opens now flagfolder s =
     (let rs = map (process_filter_flags opens (ut_to_string format_log None now) flagfolder) (fs_filters s)
      in (concat (map fst rs), s\<lparr>fs_filters := map snd rs\<rparr>))"

section \<open>Users and units\<close>

text \<open>\<open>std::map::insert\<close> keeps an existing entry.\<close>

definition select_users_by_filter_id ::
  "u32 \<Rightarrow> 'a filterset_base_scheme \<Rightarrow> (u32 \<times> string) list \<Rightarrow> (u32 \<times> string) list"
where
  "select_users_by_filter_id filter_id s selected =
     fold (\<lambda>u m. if filter_id \<in> set (us_fids u) \<and> sm_find (m_uid u) m = None then sm_set (m_uid u) (m_szName u) m else m)
       (fs_users s) selected"

definition get_kilobytes :: "'a filterset_base_scheme \<Rightarrow> u32" where
  "get_kilobytes s = (if m_bUseMiB s then 1024 else 1000)"
definition get_megabytes :: "'a filterset_base_scheme \<Rightarrow> u32" where
  "get_megabytes s = (if m_bUseMiB s then 1048576 else 1000000)"
definition get_gigabytes :: "'a filterset_base_scheme \<Rightarrow> u32" where
  "get_gigabytes s = (if m_bUseMiB s then 1073741824 else 1000000000)"

text \<open>The texts of the local address table and their parser.\<close>

definition get_lat :: "'a filterset_base_scheme \<Rightarrow> string list" where
  "get_lat s = map addr_pair_xml (at_items (fs_table_lat s))"

definition parse_lat_string :: "string option \<Rightarrow> 'a filterset_base_scheme \<Rightarrow> 'a filterset_base_scheme" where
  "parse_lat_string lat_string s = (case lat_string of
      None \<Rightarrow> s
    | Some t \<Rightarrow> s\<lparr>fs_table_lat := (fs_table_lat s)\<lparr>at_items := catch_addr_value t (at_items (fs_table_lat s))\<rparr>\<rparr>)"

section \<open>Deleting an address table\<close>

definition names_table :: "u32 \<Rightarrow> rule \<Rightarrow> bool" where
  "names_table k r \<longleftrightarrow> (src_type r = RULE_ADDRGRP \<or> src_type r = RULE_ADDRGRP_NO) \<and> src_atkey r = k
     \<or> (dst_type r = RULE_ADDRGRP \<or> dst_type r = RULE_ADDRGRP_NO) \<and> dst_atkey r = k"

definition delete_table :: "u32 \<Rightarrow> match_filter_input \<Rightarrow> match_filter_input" where
  "delete_table k d = d\<lparr>mi_mat := map_option (\<lambda>mat. snd (delete_element (addrtablemap_class 0) k mat)) (mi_mat d)\<rparr>"

lemma delete_element_other:
  assumes "j \<noteq> i"
  shows "find_by_id c j (snd (delete_element c i xs)) = find_by_id c j xs"
proof -
  have "find (\<lambda>e. ubl_get_id c e = j) (remove_first (\<lambda>x. ubl_get_id c x = i) xs) = find (\<lambda>e. ubl_get_id c e = j) xs"
    using assms by (induction xs) auto
  then show ?thesis by (simp add: delete_element_def find_by_id_def)
qed

lemma table_of_delete: "\<not> ((t = RULE_ADDRGRP \<or> t = RULE_ADDRGRP_NO) \<and> j = k) \<Longrightarrow> table_of (delete_table k d) t j = table_of d t j"
  by (auto simp: table_of_def delete_table_def delete_element_other split: option.splits)

lemma input_delete:
  "mi_ip (delete_table k d) = mi_ip d" "mi_lt (delete_table k d) = mi_lt d"
  "mi_mbytes (delete_table k d) = mi_mbytes d" "mi_nNicAlias (delete_table k d) = mi_nNicAlias d"
  "mi_nPrevFilter (delete_table k d) = mi_nPrevFilter d" "mi_bWithNat (delete_table k d) = mi_bWithNat d"
  "mi_nModifyCounter (delete_table k d) = mi_nModifyCounter d"
  "mi_nPreCheckAddrTables (delete_table k d) = mi_nPreCheckAddrTables d" "mi_host2ip (delete_table k d) = mi_host2ip d"
  "mi_nPacketDirection (delete_table k d) = mi_nPacketDirection d" "mi_uptime (delete_table k d) = mi_uptime d"
  "mi_user_conn (delete_table k d) = mi_user_conn d" "mi_dwProcNickIdSrc (delete_table k d) = mi_dwProcNickIdSrc d"
  "mi_dwProcNickIdDst (delete_table k d) = mi_dwProcNickIdDst d" "mi_uidSrc (delete_table k d) = mi_uidSrc d"
  "mi_uidDst (delete_table k d) = mi_uidDst d"
  by (simp_all add: delete_table_def)

lemma checks_delete:
  "ports_check (delete_table k d) r e = ports_check d r e" "options_check (delete_table k d) r c = options_check d r c"
  "condition_check (delete_table k d) r f = condition_check d r f" "time_check (delete_table k d) r = time_check d r"
  "mac_check (delete_table k d) r e = mac_check d r e" "prevfilter_check (delete_table k d) r = prevfilter_check d r"
  "on_match (delete_table k d) r c m g v = on_match d r c m g v" "rule_skipped (delete_table k d) r = rule_skipped d r"
  unfolding ports_check_def options_check_def condition_check_def time_check_def mac_check_def prevfilter_check_def
    on_match_def count_packet_def limit_denies_def rule_skipped_def input_delete
  by (rule refl)+

lemma dir_match_delete:
  assumes "\<not> names_table k r"
  shows "dir_match tmo (delete_table k d) f r c = dir_match tmo d f r c"
proof -
  have t: "table_of (delete_table k d) (src_type r) (src_atkey r) = table_of d (src_type r) (src_atkey r)"
    "table_of (delete_table k d) (dst_type r) (dst_atkey r) = table_of d (dst_type r) (dst_atkey r)"
    using assms by (auto simp: names_table_def intro!: table_of_delete)
  have "src_check tmo (delete_table k d) r c e = src_check tmo d r c e"
    "dst_check tmo (delete_table k d) r c e = dst_check tmo d r c e" for e
    unfolding src_check_def dst_check_def t input_delete by (rule refl)+
  then show ?thesis unfolding dir_match_def checks_delete input_delete by (simp cong: if_cong)
qed

lemma dir_loop_delete:
  "\<not> names_table k r \<Longrightarrow> dir_loop tmo (delete_table k d) f r cs = dir_loop tmo d f r cs"
  by (induction cs) (simp_all add: dir_match_delete cong: if_cong)

lemma rules_loop_delete:
  "list_all (\<lambda>r. \<not> names_table k r) rs \<Longrightarrow> rules_loop tmo (delete_table k d) rs n f res = rules_loop tmo d rs n f res"
  by (induction rs arbitrary: n) (simp_all add: dir_loop_delete checks_delete del: dir_loop.simps cong: if_cong)

lemma match_filter_delete:
  "list_all (\<lambda>r. \<not> names_table k r) (rules f) \<Longrightarrow> match_filter tmo (delete_table k d) f res = match_filter tmo d f res"
  unfolding match_filter_def input_delete by (simp add: rules_loop_delete cong: if_cong)

section \<open>Flags over time\<close>

text \<open>
  The same filter in a sequence of calls: each state has the counters and the limits it has at
  that time, the flags are carried over. The result lists what each call writes.
\<close>

fun flag_run :: "(string \<Rightarrow> bool) \<Rightarrow> string \<Rightarrow> u16 \<Rightarrow> (string \<times> filter2) list \<Rightarrow> (string \<times> string) list list" where
  "flag_run opens folder flags [] = []"
| "flag_run opens folder flags ((nowstr, f) # rest) =
     (let (written, f') = process_filter_flags opens nowstr folder (f\<lparr>m_wTrafficLimitFlags := flags\<rparr>)
      in written # flag_run opens folder (m_wTrafficLimitFlags f') rest)"

definition limit_reached :: "filter2 \<Rightarrow> bool" where "limit_reached f = is_traffic_limit_exceeded 1048576 False f"
definition warn_reached :: "filter2 \<Rightarrow> bool" where "warn_reached f = is_traffic_limitwarn_exceeded 1048576 f"

definition flags_are :: "u16 \<Rightarrow> bool \<Rightarrow> bool \<Rightarrow> bool" where
  "flags_are flags l w \<longleftrightarrow> (flags AND 1 \<noteq> 0) = l \<and> (flags AND 2 \<noteq> 0) = w"

definition edge_files :: "string \<Rightarrow> string \<Rightarrow> filter2 \<Rightarrow> bool \<Rightarrow> bool \<Rightarrow> (string \<times> string) list" where
  "edge_files folder nowstr f l w =
     (if limit_reached f \<and> \<not> l then [(make_full_filepath folder (''limit_'' @ out_unsigned (m_id f)), flag_text nowstr f)] else [])
   @ (if warn_reached f \<and> \<not> w then [(make_full_filepath folder (''warn_'' @ out_unsigned (m_id f)), flag_text nowstr f)] else [])"

lemma flag_bits:
  fixes x :: u16
  shows "(x AND NOT 1) AND 1 = 0" "(x AND NOT 2) AND 2 = 0"
    "(x AND NOT 1) AND 2 = x AND 2" "(x AND NOT 2) AND 1 = x AND 1"
    "(x OR 1) AND 1 = 1" "(x OR 2) AND 2 = 2" "(x OR 1) AND 2 = x AND 2" "(x OR 2) AND 1 = x AND 1"
proof -
  have b: "bit (1 :: u16) n = (n = 0)" "bit (2 :: u16) n = (n = 1)" for n
    by (auto simp: bit_simps bit_2_iff)
  show "(x AND NOT 1) AND 1 = 0" "(x AND NOT 2) AND 2 = 0"
    "(x AND NOT 1) AND 2 = x AND 2" "(x AND NOT 2) AND 1 = x AND 1"
    "(x OR 1) AND 1 = 1" "(x OR 2) AND 2 = 2" "(x OR 1) AND 2 = x AND 2" "(x OR 2) AND 1 = x AND 1"
    by (rule bit_word_eqI; use b in \<open>auto simp: bit_simps\<close>)+
qed

lemma limits_ignore_flags:
  "limit_reached (f\<lparr>m_wTrafficLimitFlags := x\<rparr>) = limit_reached f"
  "warn_reached (f\<lparr>m_wTrafficLimitFlags := x\<rparr>) = warn_reached f"
  "flag_text t (f\<lparr>m_wTrafficLimitFlags := x\<rparr>) = flag_text t f"
  by (simp_all add: limit_reached_def warn_reached_def is_traffic_limit_exceeded_def is_traffic_limitwarn_exceeded_def
      counters_reach_def limit_bytes_def warn_bytes_def flag_text_def Let_def)

lemma process_flag_step:
  fixes b :: u16
  assumes "b = 1 \<or> b = 2" and "\<And>x. flag_text t (f\<lparr>m_wTrafficLimitFlags := x\<rparr>) = flag_text t f"
  shows "\<exists>x. process_flag (\<lambda>p. True) t folder stem b e (f\<lparr>m_wTrafficLimitFlags := flags\<rparr>)
      = (if e \<and> flags AND b = 0 then [(make_full_filepath folder (stem @ out_unsigned (m_id f)), flag_text t f)] else [],
         f\<lparr>m_wTrafficLimitFlags := x\<rparr>)
    \<and> (x AND b \<noteq> 0) = e \<and> x AND (3 - b) = flags AND (3 - b)"
proof -
  let ?x = "if \<not> e then flags AND NOT b else if flags AND b \<noteq> 0 then flags else flags OR b"
  have "(?x AND b \<noteq> 0) = e \<and> ?x AND (3 - b) = flags AND (3 - b)"
    using assms(1) by (auto simp: flag_bits flag_bits [simplified])
  then show ?thesis
    by (intro exI [of _ ?x]) (simp add: process_flag_def assms(2) Let_def)
qed

lemma process_filter_flags_step:
  assumes "flags_are flags l w"
  shows "\<exists>x. process_filter_flags (\<lambda>p. True) t folder (f\<lparr>m_wTrafficLimitFlags := flags\<rparr>)
      = (edge_files folder t f l w, f\<lparr>m_wTrafficLimitFlags := x\<rparr>)
    \<and> flags_are x (limit_reached f) (warn_reached f)"
proof -
  note ft = limits_ignore_flags(3)
  obtain x where x: "process_flag (\<lambda>p. True) t folder ''limit_'' 1 (limit_reached f) (f\<lparr>m_wTrafficLimitFlags := flags\<rparr>)
      = (if limit_reached f \<and> flags AND 1 = 0 then [(make_full_filepath folder (''limit_'' @ out_unsigned (m_id f)), flag_text t f)] else [],
         f\<lparr>m_wTrafficLimitFlags := x\<rparr>)" "(x AND 1 \<noteq> 0) = limit_reached f" "x AND (3 - 1) = flags AND (3 - 1)"
    using process_flag_step [of 1 t f folder "''limit_''" "limit_reached f" flags, OF disjI1 [OF refl] ft] by blast
  obtain y where y: "process_flag (\<lambda>p. True) t folder ''warn_'' 2 (warn_reached f) (f\<lparr>m_wTrafficLimitFlags := x\<rparr>)
      = (if warn_reached f \<and> x AND 2 = 0 then [(make_full_filepath folder (''warn_'' @ out_unsigned (m_id f)), flag_text t f)] else [],
         f\<lparr>m_wTrafficLimitFlags := y\<rparr>)" "(y AND 2 \<noteq> 0) = warn_reached f" "y AND (3 - 2) = x AND (3 - 2)"
    using process_flag_step [of 2 t f folder "''warn_''" "warn_reached f" x, OF disjI2 [OF refl] ft] by blast
  have c: "(flags AND 1 = 0) = (\<not> l)" "(x AND 2 = 0) = (\<not> w)"
    using assms x(3) by (auto simp: flags_are_def)
  have "process_filter_flags (\<lambda>p. True) t folder (f\<lparr>m_wTrafficLimitFlags := flags\<rparr>)
      = (edge_files folder t f l w, f\<lparr>m_wTrafficLimitFlags := y\<rparr>)"
    unfolding process_filter_flags_def limit_reached_def [symmetric] warn_reached_def [symmetric] Let_def
    unfolding limits_ignore_flags(1,2) numeral_One x(1) prod.case y(1) edge_files_def c by (rule refl)
  moreover have "y AND 1 = x AND 1" using y(3) by simp
  ultimately show ?thesis using x(2) y(2) by (intro exI [of _ y]) (simp only: flags_are_def)
qed

lemma flag_run_edges:
  assumes "flags_are flags l w" and "k < length fs"
  shows "flag_run (\<lambda>p. True) folder flags fs ! k = edge_files folder (fst (fs ! k)) (snd (fs ! k))
    (if k = 0 then l else limit_reached (snd (fs ! (k - 1))))
    (if k = 0 then w else warn_reached (snd (fs ! (k - 1))))"
  using assms
proof (induction fs arbitrary: flags l w k)
  case (Cons p fs)
  obtain nowstr f where p: "p = (nowstr, f)" by fastforce
  obtain x where x: "process_filter_flags (\<lambda>p. True) nowstr folder (f\<lparr>m_wTrafficLimitFlags := flags\<rparr>)
      = (edge_files folder nowstr f l w, f\<lparr>m_wTrafficLimitFlags := x\<rparr>)"
    "flags_are x (limit_reached f) (warn_reached f)"
    using process_filter_flags_step [OF Cons.prems(1)] by blast
  show ?case
  proof (cases k)
    case (Suc j)
    with Cons.IH [OF x(2), of j] Cons.prems(2) show ?thesis by (cases j) (simp_all add: p x(1))
  qed (simp add: p x(1))
qed simp

section \<open>Lookup after the copy of counters\<close>

lemma find_map_id:
  assumes "\<And>g. m_id (h g) = m_id g"
  shows "find (\<lambda>e. m_id e = i) (map h fs) = map_option h (find (\<lambda>e. m_id e = i) fs)"
  by (induction fs) (simp_all add: assms)

section \<open>An example\<close>

definition ex_set_filter :: "u32 \<Rightarrow> i64 \<Rightarrow> filter2" where
  "ex_set_filter i sent = (filter2_new 0 0)\<lparr>m_id := i, m_nTrafficLimitMb := 1, m_nTrafficLimitType := TRAFFICLIMIT_SENT,
     m_wTrafficLimitWarnLevel := 50, cnt_sent := (filtercnt_new 0)\<lparr>cnt := sent\<rparr>\<rparr>"

definition ex_filterset :: "filter2 list \<Rightarrow> filterset" where
  "ex_filterset fs = filterset_clear
     \<lparr>fs_revision = 0, fs_filters = [], fs_table_lat = addrtable_clear, fs_table_mat = [], fs_users = [], fs_urlfilters = [],
      fs_procs = [], fs_ranges = [], m_nUserProfileAuthMode = 0, m_nUserProfileStatus = 0, m_nUserProfileManageFilters = 0,
      m_nUserProfileType = 0, m_nUserProfileDenyDoubleLogins = 0, m_bUseMiB = True, fs_filterset_file = [], fs_descr = [],
      fs_adodb_conn_string = [], m_bKeepCounters = True, m_nLogCntFlushPeriod = 0, m_szLogCntFolder1 = [],
      m_szLogCntFolder2 = [], m_szLogCntXSLFile1 = [], m_bLogCntDbEnable = False, m_nLogCntDbFlushPeriod = 0,
      m_szLogCntDbTable = [], m_nLogCntDbSamples = 0, fs_fdata = fd_clear, fs_is_proc_used = False, fs_is_shaper_used = False\<rparr>
     \<lparr>fs_filters := fs\<rparr>"

lemma ex_set_filter_simps:
  "m_id (ex_set_filter i s) = i" "cnt (cnt_sent (ex_set_filter i s)) = s" "m_bRevers (ex_set_filter i s) = False"
  "m_nTrafficLimitMb (ex_set_filter i s) = 1" "m_nTrafficLimitType (ex_set_filter i s) = TRAFFICLIMIT_SENT"
  "m_wTrafficLimitWarnLevel (ex_set_filter i s) = 50" "m_wTrafficLimitFlags (ex_set_filter i s) = 0"
  "cnt (cnt_recv (ex_set_filter i s)) = 0"
  by (simp_all add: ex_set_filter_def filter2_new_def filter_base_clear_def filtercnt_new_def cnt_reset_def Let_def)

lemma ex_set_filter_limits:
  "limit_reached (ex_set_filter i s) = (sint s \<ge> 1048576)" "warn_reached (ex_set_filter i s) = (sint s \<ge> 524288)"
  by (simp_all add: limit_reached_def warn_reached_def is_traffic_limit_exceeded_def is_traffic_limitwarn_exceeded_def
      counters_reach_def limit_bytes_def warn_bytes_def ex_set_filter_simps utm_consts Let_def signed_divide_int_def)

section \<open>Properties\<close>

text \<open>
  the flag files over time. When the files can be opened, a call writes the file of the limit,
  or of the warning level, exactly when it is reached and was not reached at the call before,
  with the time and the counters of the call; the first call goes by the stored flags.
\<close>

theorem flag_files_on_edges:
  assumes "k < length fs"
  shows "flag_run (\<lambda>p. True) folder flags fs ! k = edge_files folder (fst (fs ! k)) (snd (fs ! k))
    (if k = 0 then flags AND 1 \<noteq> 0 else limit_reached (snd (fs ! (k - 1))))
    (if k = 0 then flags AND 2 \<noteq> 0 else warn_reached (snd (fs ! (k - 1))))"
proof -
  have "flags_are flags (flags AND 1 \<noteq> 0) (flags AND 2 \<noteq> 0)" unfolding flags_are_def by blast
  from flag_run_edges [OF this assms] show ?thesis .
qed

theorem flag_files_on_edges_witness:
  "flag_run (\<lambda>p. True) ''c:/f'' 0 [(''t0'', ex_set_filter 7 600000), (''t1'', ex_set_filter 7 2000000)] ! 1
    = [(''c:/f'' @ ufs_slash @ ''limit_7'', ''t1 2000000/0'')]"
proof -
  have p: "out_unsigned (7 :: u32) = ''7''" "out_signed (2000000 :: i64) = ''2000000''" "out_signed (0 :: i64) = ''0''"
  proof -
    have "print_u 7 = ''7''" "print_u 2000000 = ''2000000''" "print_u 0 = ''0''"
      by (simp_all add: print_u.simps digit_char_def char_of_def bit_0)
    then show "out_unsigned (7 :: u32) = ''7''" "out_signed (2000000 :: i64) = ''2000000''" "out_signed (0 :: i64) = ''0''"
      by (simp_all add: out_unsigned_def out_signed_def)
  qed
  show ?thesis
    using flag_files_on_edges [of 1 "[(''t0'', ex_set_filter 7 600000), (''t1'', ex_set_filter 7 2000000)]" "''c:/f''" 0]
    by (simp add: edge_files_def ex_set_filter_limits ex_set_filter_simps flag_text_def make_full_filepath_def
        is_slash_def p)
qed

text \<open>
  counters move by identifier. After \<open>copy_counters\<close> a filter has the counters, the sequence
  number and the time of the last reset of the first filter of the source with its identifier,
  or its own when there is none; the configuration of the filters stays.
\<close>

theorem copy_counters_by_id:
  "find_filter i (copy_counters src s) = map_option (\<lambda>g. case find_filter i src of
      None \<Rightarrow> g
    | Some f \<Rightarrow> g\<lparr>cnt_sent := cnt_copy (cnt_sent f) (cnt_sent g), cnt_recv := cnt_copy (cnt_recv f) (cnt_recv g),
                 seq_id := seq_id f, last_reset_ts := last_reset_ts f\<rparr>) (find_filter i s)
   \<and> fs_fdata (copy_counters src s) = fs_fdata src
   \<and> map filter_base.truncate (fs_filters (copy_counters src s)) = map filter_base.truncate (fs_filters s)"
proof -
  let ?h = "\<lambda>g. case find_filter (m_id g) src of None \<Rightarrow> g | Some f \<Rightarrow> copy_filter_counters f g"
  have m: "m_id (?h g) = m_id g" "filter_base.truncate (?h g) = filter_base.truncate g" for g
    by (cases g; simp add: copy_filter_counters_def filter_base.truncate_def split: option.splits)+
  have "find_filter i (copy_counters src s) = map_option ?h (find_filter i s)"
    using find_map_id [of ?h, OF m(1), of i "fs_filters s"]
    by (simp add: find_filter_def [of i] copy_counters_def find_by_id_def filterlist_class_def)
  also have "\<dots> = map_option (\<lambda>g. case find_filter i src of None \<Rightarrow> g
      | Some f \<Rightarrow> g\<lparr>cnt_sent := cnt_copy (cnt_sent f) (cnt_sent g), cnt_recv := cnt_copy (cnt_recv f) (cnt_recv g),
                 seq_id := seq_id f, last_reset_ts := last_reset_ts f\<rparr>) (find_filter i s)"
    using find_by_id_Some [of "filterlist_class 0 0" i "fs_filters s"]
    by (cases "find_filter i s") (auto simp: find_filter_def filterlist_class_def copy_filter_counters_def split: option.splits)
  finally show ?thesis using m(2) by (simp add: copy_counters_def)
qed

text \<open>
  which counters a schedule resets. The text names, in order, the filters whose period began
  after their last reset; exactly these are reset and every other filter is unchanged.
\<close>

theorem schedule_resets_named:
  "filterset_reset_on_schedule st h s =
    (let due = (\<lambda>f. 0 < period_start st (m_nResetCnt f) \<and> ts (last_reset_ts f) < period_start st (m_nResetCnt f))
     in (ids_to_string (map m_id (filter due (fs_filters s))),
         s\<lparr>fs_filters := map (\<lambda>f. if due f
             then (reset_filter_counters h f)\<lparr>last_reset_ts := \<lparr>ts = sts_time_point st\<rparr>\<rparr> else f) (fs_filters s)\<rparr>))"
proof -
  let ?due = "\<lambda>f. 0 < period_start st (m_nResetCnt f) \<and> ts (last_reset_ts f) < period_start st (m_nResetCnt f)"
  have r: "reset_on_schedule st h f = (?due f, if ?due f
      then (reset_filter_counters h f)\<lparr>last_reset_ts := \<lparr>ts = sts_time_point st\<rparr>\<rparr> else f)" for f
    by (simp add: reset_on_schedule_def ts_less_def Let_def)
  have "[m_id f. (f, r) \<leftarrow> zip fs (map (reset_on_schedule st h) fs), fst r] = map m_id (filter ?due fs)" for fs
    by (induction fs) (simp_all add: r)
  then show ?thesis by (simp add: filterset_reset_on_schedule_def r Let_def comp_def)
qed

text \<open>
  a table no rule names, not as a table and not as the complement of one, can be deleted:
  every packet is matched as before.
\<close>

theorem unnamed_table_deletable:
  assumes "f \<in> set (fs_filters s)" and "\<not> is_addrtable_used k s"
    and "\<forall>g \<in> set (fs_filters s). \<forall>r \<in> set (rules g). src_type r \<noteq> RULE_ADDRGRP_NO \<and> dst_type r \<noteq> RULE_ADDRGRP_NO"
  shows "match_filter tmo (delete_table k d) f res = match_filter tmo d f res"
proof (rule match_filter_delete)
  show "list_all (\<lambda>r. \<not> names_table k r) (rules f)"
    using assms by (auto simp: is_addrtable_used_def names_table_def list_ex_iff list_all_iff)
qed

theorem unnamed_table_deletable_witness:
  "match_filter 60 (delete_table 5 ex_input) (ex_set_filter 7 0) match_result_clear
    = match_filter 60 ex_input (ex_set_filter 7 0) match_result_clear"
  by (rule unnamed_table_deletable [of _ "ex_filterset [ex_set_filter 7 0]"])
    (simp_all add: ex_filterset_def is_addrtable_used_def ex_set_filter_def filter2_new_def filter_base_clear_def)

text \<open>
  a table of which a rule names the complement counts as unused. Deleting it turns the rule
  off: an address outside the table matched before and never matches again.
\<close>

theorem complement_not_counted:
  assumes "fs_filters s = [f]" and "rules f = [r]" and "src_type r = RULE_ADDRGRP_NO" and "src_atkey r = k"
    and "dst_type r \<noteq> RULE_ADDRGRP" and "mi_mat d = Some [\<lparr>atr_key = k, atr_addrtable = t\<rparr>]"
    and "\<not> CheckAddrRange (at_items t) (Addrip_v4 (pe_src_ip e))"
  shows "\<not> is_addrtable_used k s \<and> src_check tmo d r c e = Some True
    \<and> src_check tmo (delete_table k d) r c e = Some False"
proof -
  have "src_type r \<notin> {RULE_MYIP, RULE_IP, RULE_RANGE, RULE_LAN, RULE_WAN, RULE_MAC, RULE_HOST, RULE_ADDRGRP}"
    using assms(3) by (simp add: utm_consts)
  moreover have "table_of d RULE_ADDRGRP_NO k = Some (at_items t)" "table_of (delete_table k d) RULE_ADDRGRP_NO k = None"
    using assms(6) by (simp_all add: table_of_def delete_table_def find_by_id_def delete_element_def addrtablemap_class_def)
  ultimately show ?thesis
    using assms by (simp add: src_check_def is_addrtable_used_def Let_def)
qed

theorem complement_not_counted_witness:
  "let r = rule_clear\<lparr>src_type := RULE_ADDRGRP_NO, src_atkey := 5\<rparr>; f = (ex_set_filter 7 0)\<lparr>rules := [r]\<rparr>
   in \<not> is_addrtable_used 5 (ex_filterset [f])"
proof -
  define r where "r = rule_clear\<lparr>src_type := RULE_ADDRGRP_NO, src_atkey := 5\<rparr>"
  define f where "f = (ex_set_filter 7 0)\<lparr>rules := [r]\<rparr>"
  have "\<not> is_addrtable_used 5 (ex_filterset [f])
    \<and> src_check 60 (ex_input\<lparr>mi_mat := Some [\<lparr>atr_key = 5, atr_addrtable = addrtable_clear\<rparr>]\<rparr>) r 0
        (packet_ends_of (mi_ip ex_input) 0) = Some True
    \<and> src_check 60 (delete_table 5 (ex_input\<lparr>mi_mat := Some [\<lparr>atr_key = 5, atr_addrtable = addrtable_clear\<rparr>]\<rparr>)) r 0
        (packet_ends_of (mi_ip ex_input) 0) = Some False"
  proof (rule complement_not_counted [of _ f r 5 _ addrtable_clear])
    show "\<not> CheckAddrRange (at_items addrtable_clear) (Addrip_v4 (pe_src_ip (packet_ends_of (mi_ip ex_input) 0)))"
      by (simp add: addrtable_clear_def CheckAddrRange_def lookup_near_def)
  qed (simp_all add: ex_filterset_def f_def r_def rule_clear_def utm_consts)
  then show ?thesis by (simp only: f_def r_def Let_def simp_thms)
qed

end
