(* ===== verification/FilterSetXml.thy ===== *)
theory FilterSetXml
  imports FilterSet FilterXml
begin

text \<open>
  \<open>filterset_base::xml_create\<close>, \<open>xml_catch_value\<close>, \<open>filterset::xml_catch_subnode\<close> and
  \<open>xml_catch_subnode_finished\<close>, \<open>addrtablemaprec\<close> in \<open>utm/addrtablemap.h\<close>: the XML form of the
  whole configuration. \<open>lexical\<close> is the conversion of a text to a number; \<open>u1\<close> to \<open>u3\<close> are
  members the constructors leave uninitialised.
\<close>

section \<open>Address tables\<close>

definition matrec_nodes :: "addrtablemaprec \<Rightarrow> xml list" where
  "matrec_nodes x =
     (let t = atr_addrtable x; orig = addrtable_clear in
       xml_append_data ''Key'' (out_unsigned (atr_key x))
     @ xml_append_value ''Type'' out_signed (at_type_id t) (at_type_id orig)
     @ xml_append_value ''Descr'' id (at_descr t) (at_descr orig)
     @ xml_append_value ''File'' id (at_filename t) (at_filename orig)
     @ xml_append_value ''DataId'' out_signed (at_data_id t) (at_data_id orig)
     @ xml_append_strings ''Addr'' (map addr_pair_xml (at_items t)))"

definition matrec_xml_create :: "addrtablemaprec \<Rightarrow> xml" where
  "matrec_xml_create x = Elem ''MAT'' [] (matrec_nodes x)"

definition matrec_xml_catch_value :: "string \<Rightarrow> string \<Rightarrow> addrtablemaprec \<Rightarrow> addrtablemaprec option" where
  "matrec_xml_catch_value keyname v x =
     (let t = atr_addrtable x; put = (\<lambda>t. Some (x\<lparr>atr_addrtable := t\<rparr>)) in
      if keyname = ''Key'' then Some (x\<lparr>atr_key := parse_unsigned v\<rparr>)
      else if keyname = ''Type'' then put (t\<lparr>at_type_id := parse_signed v\<rparr>)
      else if keyname = ''Descr'' then put (t\<lparr>at_descr := v\<rparr>)
      else if keyname = ''File'' then put (t\<lparr>at_filename := v\<rparr>)
      else if keyname = ''DataId'' then put (t\<lparr>at_data_id := parse_signed v\<rparr>)
      else if keyname = ''Addr'' then put (t\<lparr>at_items := catch_addr_value v (at_items t)\<rparr>)
      else Some x)"

definition matrec_xml :: "addrtablemaprec xml_class" where
  "matrec_xml = \<lparr>xc_clear = addrtablemaprec_clear, xc_create = matrec_xml_create,
     xc_value = matrec_xml_catch_value, xc_subnode = (\<lambda>k n x. Some x)\<rparr>"

text \<open>The sort order and the time of the file are not written.\<close>

definition addrtable_saved :: "addrtable \<Rightarrow> bool" where
  "addrtable_saved t \<longleftrightarrow> sm_wf (at_items t) \<and> at_sort_order t = 0 \<and> at_last_file_write_time t = ts_clear"

definition matrec_xml_ok :: "addrtablemaprec \<Rightarrow> bool" where
  "matrec_xml_ok x \<longleftrightarrow> addrtable_saved (atr_addrtable x)
     \<and> CHR 0x00 \<notin> set (at_descr (atr_addrtable x)) \<and> CHR 0x00 \<notin> set (at_filename (atr_addrtable x))"

lemma addr_pair_text: "xml_text (addr_pair_xml p)"
  using ip_text by (auto simp: addr_pair_xml_def xml_text_def)

lemma pairs_segment:
  assumes "\<And>p z. xc_value c k (addr_pair_xml p) z = Some (app p z)"
  shows "xml_parse_allnodes c (xml_append_strings k (map addr_pair_xml ps)) s = Some (fold app ps s)"
  by (induction ps arbitrary: s)
    (simp_all add: xml_append_strings_def parse_allnodes_append parse_data addr_pair_text assms)

lemma addr_segment:
  assumes "sm_wf ps" and "at_items (atr_addrtable s) = []"
  shows "xml_parse_allnodes matrec_xml (xml_append_strings ''Addr'' (map addr_pair_xml ps)) s
    = Some (s\<lparr>atr_addrtable := (atr_addrtable s)\<lparr>at_items := ps\<rparr>\<rparr>)"
proof -
  let ?app = "\<lambda>p z. z\<lparr>atr_addrtable := (atr_addrtable z)\<lparr>at_items := catch_addr_value (addr_pair_xml p) (at_items (atr_addrtable z))\<rparr>\<rparr>"
  have f: "fold ?app ps z = z\<lparr>atr_addrtable := (atr_addrtable z)\<lparr>at_items :=
      fold (\<lambda>p. catch_addr_value (addr_pair_xml p)) ps (at_items (atr_addrtable z))\<rparr>\<rparr>" for z
    by (induction ps arbitrary: z) simp_all
  have "xml_parse_allnodes matrec_xml (xml_append_strings ''Addr'' (map addr_pair_xml ps)) s = Some (fold ?app ps s)"
    by (rule pairs_segment) (simp add: matrec_xml_def matrec_xml_catch_value_def Let_def)
  also have "fold ?app ps s = s\<lparr>atr_addrtable := (atr_addrtable s)\<lparr>at_items := ps\<rparr>\<rparr>"
    unfolding f using addr_pairs_parse [of "[]" ps] assms by simp
  finally show ?thesis .
qed

lemma matrec_nodes_parse:
  assumes "matrec_xml_ok x"
  shows "xml_parse_allnodes matrec_xml (matrec_nodes x) (addrtablemaprec_clear y) = Some x"
proof -
  have c: "matrec_xml_ok x" "xc_value matrec_xml = matrec_xml_catch_value" by (simp_all add: assms matrec_xml_def)
  show ?thesis
    using assms unfolding matrec_nodes_def Let_def
    by (cases x)
      (simp add: parse_allnodes_append parse_data parse_value_if parse_text_if addr_segment c matrec_xml_catch_value_def
        addrtablemaprec_clear_def addrtable_clear_def matrec_xml_ok_def addrtable_saved_def Let_def)
qed

interpretation matrec_elem: xml_element matrec_xml "''MAT''" matrec_xml_ok
proof
  show "node_name (xc_create matrec_xml x) = ''MAT''" for x
    by (simp add: matrec_xml_def matrec_xml_create_def node_name_def)
  have "find is_pcdata (xml_append_strings k vs) = None" for k vs
    by (induction vs) (simp_all add: xml_append_strings_def find_append find_pcdata)
  then show "node_text (xc_create matrec_xml x) = []" for x
    by (simp add: matrec_xml_def matrec_xml_create_def node_text_def matrec_nodes_def Let_def find_append find_pcdata)
  show "xml_parse_node matrec_xml (xc_create matrec_xml x) False y = Some x" if "matrec_xml_ok x" for x y
    using matrec_nodes_parse [OF that]
    by (simp add: matrec_xml_def matrec_xml_create_def xml_parse_node_def node_children_def)
qed

section \<open>The configuration\<close>

definition urlfilterlist_class :: "urlfilter ubl_class" where
  "urlfilterlist_class = \<lparr>ubl_get_id = ufid, ubl_set_id = (\<lambda>i f. f\<lparr>ufid := i\<rparr>), ubl_get_name = uf_name,
     ubl_default = urlfilter_clear, ubl_item_clear = (\<lambda>f. urlfilter_clear), ubl_eq = urlfilter_eq,
     ubl_protected = False\<rparr>"

interpretation urlfilterlist: ubl_element urlfilterlist_class
  by unfold_locales (simp add: urlfilterlist_class_def)

definition filterset_nodes :: "(string \<Rightarrow> u32 option) \<Rightarrow> filterset \<Rightarrow> xml list" where
  "filterset_nodes lexical x =
     (let orig = filterset_clear x in
       xml_append_value ''FiltersetRevision'' out_signed (fs_revision x) (fs_revision orig)
     @ xml_append_list filter_xml (fs_filters x)
     @ xml_append_strings ''LAT'' (get_lat x)
     @ xml_append_list matrec_xml (fs_table_mat x)
     @ xml_append_list (fsuser_xml lexical) (fs_users x)
     @ xml_append_list (urlfilter_xml lexical) (fs_urlfilters x)
     @ xml_append_list procnickname_xml (fs_procs x)
     @ xml_append_list monitor_range_xml (fs_ranges x)
     @ xml_append_value ''UserProfileAuthMode'' out_signed (m_nUserProfileAuthMode x) (m_nUserProfileAuthMode orig)
     @ xml_append_value ''UserProfileStatus'' out_signed (m_nUserProfileStatus x) (m_nUserProfileStatus orig)
     @ xml_append_value ''UserProfileManagerFilters'' out_signed (m_nUserProfileManageFilters x) (m_nUserProfileManageFilters orig)
     @ xml_append_value ''UserProfileType'' out_signed (m_nUserProfileType x) (m_nUserProfileType orig)
     @ xml_append_value ''UserProfileDenyDoubleLogins'' out_signed (m_nUserProfileDenyDoubleLogins x) (m_nUserProfileDenyDoubleLogins orig)
     @ xml_append_value ''UseMebiBytes'' bool_text (m_bUseMiB x) (m_bUseMiB orig)
     @ xml_append_value ''File'' id (fs_filterset_file x) (fs_filterset_file orig)
     @ xml_append_value ''FiltersetDescription'' id (fs_descr x) (fs_descr orig)
     @ xml_append_value ''DbConnString'' id (fs_adodb_conn_string x) (fs_adodb_conn_string orig)
     @ xml_append_value ''RestoreCounters'' bool_text (m_bKeepCounters x) (m_bKeepCounters orig)
     @ xml_append_value ''LogCntXmlReportsFlushPeriod'' out_unsigned (m_nLogCntFlushPeriod x) (m_nLogCntFlushPeriod orig)
     @ xml_append_value ''LogCntXmlReportsFolder'' id (m_szLogCntFolder1 x) (m_szLogCntFolder1 orig)
     @ xml_append_value ''LogCntBackupReportsFolder'' id (m_szLogCntFolder2 x) (m_szLogCntFolder2 orig)
     @ xml_append_value ''LogCntXmlReportsXsl'' id (m_szLogCntXSLFile1 x) (m_szLogCntXSLFile1 orig)
     @ xml_append_value ''LogCntDbEnable'' bool_text (m_bLogCntDbEnable x) (m_bLogCntDbEnable orig)
     @ xml_append_value ''LogCntDbFlushPeriod'' out_unsigned (m_nLogCntDbFlushPeriod x) (m_nLogCntDbFlushPeriod orig)
     @ xml_append_value ''LogCntDbTable'' id (m_szLogCntDbTable x) (m_szLogCntDbTable orig)
     @ xml_append_value ''LogCntDbSamples'' out_unsigned (m_nLogCntDbSamples x) (m_nLogCntDbSamples orig))"

definition filterset_xml_create :: "(string \<Rightarrow> u32 option) \<Rightarrow> filterset \<Rightarrow> xml" where
  "filterset_xml_create lexical x = Elem ''FilterSet'' [] (filterset_nodes lexical x)"

definition filterset_xml_catch_value :: "string \<Rightarrow> string \<Rightarrow> filterset \<Rightarrow> filterset option" where
  "filterset_xml_catch_value keyname v x =
     (if keyname = ''FiltersetRevision'' then Some (x\<lparr>fs_revision := parse_signed v\<rparr>)
      else if keyname = ''Filter'' then Some x
      else if keyname = ''LAT'' then Some (parse_lat_string (Some v) x)
      else if keyname = ''MAT'' then Some x
      else if keyname = ''User'' then Some x
      else if keyname = ''UrlFilter'' then Some x
      else if keyname = ''Proc'' then Some x
      else if keyname = ''Range'' then Some x
      else if keyname = ''UserProfileAuthMode'' then Some (x\<lparr>m_nUserProfileAuthMode := parse_signed v\<rparr>)
      else if keyname = ''UserProfileStatus'' then Some (x\<lparr>m_nUserProfileStatus := parse_signed v\<rparr>)
      else if keyname = ''UserProfileManagerFilters'' then Some (x\<lparr>m_nUserProfileManageFilters := parse_signed v\<rparr>)
      else if keyname = ''UserProfileType'' then Some (x\<lparr>m_nUserProfileType := parse_signed v\<rparr>)
      else if keyname = ''UserProfileDenyDoubleLogins'' then Some (x\<lparr>m_nUserProfileDenyDoubleLogins := parse_signed v\<rparr>)
      else if keyname = ''UseMebiBytes'' then Some (x\<lparr>m_bUseMiB := read_bool v\<rparr>)
      else if keyname = ''File'' then Some (x\<lparr>fs_filterset_file := v\<rparr>)
      else if keyname = ''FiltersetDescription'' then Some (x\<lparr>fs_descr := v\<rparr>)
      else if keyname = ''DbConnString'' then Some (x\<lparr>fs_adodb_conn_string := v\<rparr>)
      else if keyname = ''RestoreCounters'' then Some (x\<lparr>m_bKeepCounters := read_bool v\<rparr>)
      else if keyname = ''LogCntXmlReportsFlushPeriod'' then Some (x\<lparr>m_nLogCntFlushPeriod := parse_unsigned v\<rparr>)
      else if keyname = ''LogCntXmlReportsFolder'' then Some (x\<lparr>m_szLogCntFolder1 := v\<rparr>)
      else if keyname = ''LogCntBackupReportsFolder'' then Some (x\<lparr>m_szLogCntFolder2 := v\<rparr>)
      else if keyname = ''LogCntXmlReportsXsl'' then Some (x\<lparr>m_szLogCntXSLFile1 := v\<rparr>)
      else if keyname = ''LogCntDbEnable'' then Some (x\<lparr>m_bLogCntDbEnable := read_bool v\<rparr>)
      else if keyname = ''LogCntDbFlushPeriod'' then Some (x\<lparr>m_nLogCntDbFlushPeriod := parse_unsigned v\<rparr>)
      else if keyname = ''LogCntDbTable'' then Some (x\<lparr>m_szLogCntDbTable := v\<rparr>)
      else if keyname = ''LogCntDbSamples'' then Some (x\<lparr>m_nLogCntDbSamples := parse_unsigned v\<rparr>)
      else Some x)"

text \<open>
  \<open>xml_catch_subnode\<close> hands out the cleared temporary item of a list, which is parsed;
  \<open>xml_catch_subnode_finished\<close> commits it.
\<close>

definition commit_item :: "'a ubl_class \<Rightarrow> 'a \<Rightarrow> 'a list \<Rightarrow> 'a list" where
  "commit_item c e xs = ubl_items (commit_temp_item c \<lparr>ubl_items = xs, ubl_temp_item = e\<rparr>)"

definition filterset_xml_subnode ::
  "(string \<Rightarrow> u32 option) \<Rightarrow> u32 \<Rightarrow> u32 \<Rightarrow> u32 \<Rightarrow> string \<Rightarrow> xml \<Rightarrow> filterset \<Rightarrow> filterset option"
where
  "filterset_xml_subnode lexical u1 u2 u3 keyname n s =
     (if keyname = ''Filter''
      then map_option (\<lambda>f. s\<lparr>fs_filters := commit_item (filterlist_class u1 u2) f (fs_filters s)\<rparr>)
             (xml_parse_node filter_xml n False (filter_clear False (filter2_new u1 u2)))
      else if keyname = ''MAT''
      then map_option (\<lambda>r. s\<lparr>fs_table_mat := commit_item (addrtablemap_class u3) r (fs_table_mat s)\<rparr>)
             (xml_parse_node matrec_xml n False \<lparr>atr_key = 0, atr_addrtable = addrtable_clear\<rparr>)
      else if keyname = ''User''
      then map_option (\<lambda>u. s\<lparr>fs_users := commit_item userlist_class u (fs_users s)\<rparr>)
             (xml_parse_node (fsuser_xml lexical) n False fsuser_clear)
      else if keyname = ''UrlFilter''
      then map_option (\<lambda>f. s\<lparr>fs_urlfilters := commit_item urlfilterlist_class f (fs_urlfilters s)\<rparr>)
             (xml_parse_node (urlfilter_xml lexical) n False urlfilter_clear)
      else if keyname = ''Proc''
      then map_option (\<lambda>p. s\<lparr>fs_procs := procnicknamelist_commit p (fs_procs s)\<rparr>)
             (xml_parse_node procnickname_xml n False procnickname_clear)
      else if keyname = ''Range''
      then map_option (\<lambda>r. s\<lparr>fs_ranges := commit_item monitor_range_list_class r (fs_ranges s)\<rparr>)
             (xml_parse_node monitor_range_xml n False monitor_range_clear)
      else Some s)"

definition filterset_xml ::
  "(string \<Rightarrow> u32 option) \<Rightarrow> u32 \<Rightarrow> u32 \<Rightarrow> u32 \<Rightarrow> filterset xml_class"
where
  "filterset_xml lexical u1 u2 u3 = \<lparr>xc_clear = filterset_clear, xc_create = filterset_xml_create lexical,
     xc_value = filterset_xml_catch_value, xc_subnode = filterset_xml_subnode lexical u1 u2 u3\<rparr>"

section \<open>Lists of the configuration\<close>

lemma commit_item_new:
  assumes "ubl_get_id c e \<noteq> 0" and "\<not> ubl_protected c" and "\<not> ubl_eq c (ubl_default c) e"
    and "ubl_set_id c (ubl_get_id c e) e = e"
  shows "commit_item c e xs = xs @ [e]"
  using assms
  by (simp add: commit_item_def commit_temp_item_def clear_temp_def add_element_def insert_element_def
      is_write_protected_def word_neq_0_conv Let_def)

lemma commit_filter: "m_id f \<noteq> 0 \<Longrightarrow> commit_item (filterlist_class u1 u2) f xs = xs @ [f]"
  by (rule commit_item_new) (simp_all add: filterlist_class_def filter_base_eq_def filter2_new_def filter_base_clear_def)

lemma commit_matrec:
  "atr_key r \<noteq> 0 \<Longrightarrow> \<not> (atr_key r = u3 \<and> at_items (atr_addrtable r) = []) \<Longrightarrow> commit_item (addrtablemap_class u3) r xs = xs @ [r]"
  by (rule commit_item_new) (auto simp: addrtablemap_class_def addrtablemaprec_eq_def addrtable_clear_def)

lemma commit_user: "m_uid u \<noteq> 0 \<Longrightarrow> commit_item userlist_class u xs = xs @ [u]"
  by (rule commit_item_new) (simp_all add: userlist_class_def fsuser_eq_def fsuser_clear_def)

lemma commit_urlfilter: "ufid f \<noteq> 0 \<Longrightarrow> commit_item urlfilterlist_class f xs = xs @ [f]"
  by (rule commit_item_new) (simp_all add: urlfilterlist_class_def urlfilter_eq_def urlfilter_clear_def)

lemma commit_range: "mr_id r \<noteq> 0 \<Longrightarrow> commit_item monitor_range_list_class r xs = xs @ [r]"
  by (rule commit_item_new) (simp_all add: monitor_range_list_class_def monitor_range_eq_def monitor_range_clear_def)

text \<open>What a filter looks like after it was read: its counters are those of a new filter.\<close>

definition fresh_counters :: "u32 \<Rightarrow> u32 \<Rightarrow> filter2 \<Rightarrow> filter2" where
  "fresh_counters u1 u2 f = f\<lparr>seq_id := 0, cnt_sent := filtercnt_new u1, cnt_recv := filtercnt_new u2,
     last_reset_ts := ts_clear\<rparr>"

lemma filters_segment:
  assumes "list_all (\<lambda>f. filter_xml_ok f \<and> m_id f \<noteq> 0) fs"
  shows "xml_parse_allnodes (filterset_xml lexical u1 u2 u3) (xml_append_list filter_xml fs) s
    = Some (s\<lparr>fs_filters := fs_filters s @ map (fresh_counters u1 u2) fs\<rparr>)"
  using assms
proof (induction fs arbitrary: s)
  case (Cons f fs)
  have n: "xc_create filter_xml f = filter_xml_create f" by (simp add: filter_xml_def)
  have "xml_parse_node filter_xml (filter_xml_create f) False (filter_clear False (filter2_new u1 u2)) = Some (fresh_counters u1 u2 f)"
    using filter_nodes_parse [of f "filter_clear False (filter2_new u1 u2)"] Cons.prems
    by (simp add: xml_parse_node_def filter_xml_create_def node_children_def filter_xml_def fresh_counters_def
        filter_clear_def filter2_new_def filter_base_clear_def)
  moreover have "node_name (filter_xml_create f) = ''Filter''" by (simp add: filter_xml_create_def node_name_def)
  moreover have "node_text (filter_xml_create f) = []"
    by (simp add: filter_xml_create_def node_text_def filter_nodes_def Let_def find_append find_pcdata
        find_pcdata_list rule_elem.create_name)
  moreover have "m_id (fresh_counters u1 u2 f) \<noteq> 0" using Cons.prems by (simp add: fresh_counters_def)
  ultimately show ?case
    using Cons by (simp add: xml_append_list_def n filterset_xml_def filterset_xml_subnode_def commit_filter)
qed (simp add: xml_append_list_def)

lemma mats_segment:
  assumes "list_all (\<lambda>r. matrec_xml_ok r \<and> atr_key r \<noteq> 0 \<and> \<not> (atr_key r = u3 \<and> at_items (atr_addrtable r) = [])) rs"
  shows "xml_parse_allnodes (filterset_xml lexical u1 u2 u3) (xml_append_list matrec_xml rs) s
    = Some (s\<lparr>fs_table_mat := fs_table_mat s @ rs\<rparr>)"
proof -
  let ?app = "\<lambda>r s. s\<lparr>fs_table_mat := commit_item (addrtablemap_class u3) r (fs_table_mat s)\<rparr>"
  have "xml_parse_allnodes (filterset_xml lexical u1 u2 u3) (xml_append_list matrec_xml rs) s = Some (fold ?app rs s)"
    by (rule matrec_elem.parse_list [where new = "\<lparr>atr_key = 0, atr_addrtable = addrtable_clear\<rparr>"])
      (use assms in \<open>simp_all add: filterset_xml_def filterset_xml_subnode_def list_all_iff\<close>)
  also have "fold ?app rs s = s\<lparr>fs_table_mat := fs_table_mat s @ rs\<rparr>"
    using assms by (induction rs arbitrary: s) (simp_all add: commit_matrec)
  finally show ?thesis .
qed

lemma users_segment:
  assumes "list_all (\<lambda>x. fsuser_xml_ok x \<and> m_uid x \<noteq> 0) xs"
    and "\<And>i. lexical (print_u (unat i)) = Some i"
  shows "xml_parse_allnodes (filterset_xml lexical u1 u2 u3) (xml_append_list (fsuser_xml lexical) xs) s = Some (s\<lparr>fs_users := fs_users s @ xs\<rparr>)"
proof -
  let ?app = "\<lambda>x s. s\<lparr>fs_users := commit_item userlist_class x (fs_users s)\<rparr>"
  have "xml_parse_allnodes (filterset_xml lexical u1 u2 u3) (xml_append_list (fsuser_xml lexical) xs) s = Some (fold ?app xs s)"
    by (rule xml_element.parse_list [OF fsuser_element [OF assms(2)], where new = fsuser_clear])
      (use assms(1) in \<open>simp_all add: filterset_xml_def filterset_xml_subnode_def list_all_iff\<close>)
  also have "fold ?app xs s = s\<lparr>fs_users := fs_users s @ xs\<rparr>"
    using assms(1) by (induction xs arbitrary: s) (simp_all add: commit_user)
  finally show ?thesis .
qed

lemma urlfilters_segment:
  assumes "list_all (\<lambda>x. urlfilter_xml_ok x \<and> ufid x \<noteq> 0) xs"
    and "\<And>i. lexical (print_u (unat i)) = Some i"
  shows "xml_parse_allnodes (filterset_xml lexical u1 u2 u3) (xml_append_list (urlfilter_xml lexical) xs) s = Some (s\<lparr>fs_urlfilters := fs_urlfilters s @ xs\<rparr>)"
proof -
  let ?app = "\<lambda>x s. s\<lparr>fs_urlfilters := commit_item urlfilterlist_class x (fs_urlfilters s)\<rparr>"
  have "xml_parse_allnodes (filterset_xml lexical u1 u2 u3) (xml_append_list (urlfilter_xml lexical) xs) s = Some (fold ?app xs s)"
    by (rule xml_element.parse_list [OF urlfilter_element [OF assms(2)], where new = urlfilter_clear])
      (use assms(1) in \<open>simp_all add: filterset_xml_def filterset_xml_subnode_def list_all_iff\<close>)
  also have "fold ?app xs s = s\<lparr>fs_urlfilters := fs_urlfilters s @ xs\<rparr>"
    using assms(1) by (induction xs arbitrary: s) (simp_all add: commit_urlfilter)
  finally show ?thesis .
qed

lemma ranges_segment:
  assumes "list_all (\<lambda>x. monitor_range_xml_ok x \<and> mr_id x \<noteq> 0) xs"
  shows "xml_parse_allnodes (filterset_xml lexical u1 u2 u3) (xml_append_list monitor_range_xml xs) s = Some (s\<lparr>fs_ranges := fs_ranges s @ xs\<rparr>)"
proof -
  let ?app = "\<lambda>x s. s\<lparr>fs_ranges := commit_item monitor_range_list_class x (fs_ranges s)\<rparr>"
  have "xml_parse_allnodes (filterset_xml lexical u1 u2 u3) (xml_append_list monitor_range_xml xs) s = Some (fold ?app xs s)"
    by (rule monitor_range_elem.parse_list [where new = monitor_range_clear])
      (use assms(1) in \<open>simp_all add: filterset_xml_def filterset_xml_subnode_def list_all_iff\<close>)
  also have "fold ?app xs s = s\<lparr>fs_ranges := fs_ranges s @ xs\<rparr>"
    using assms(1) by (induction xs arbitrary: s) (simp_all add: commit_range)
  finally show ?thesis .
qed

lemma procs_segment:
  assumes "procs_ok ps" and "fs_procs s = procnicknamelist_clear"
  shows "xml_parse_allnodes (filterset_xml lexical u1 u2 u3) (xml_append_list procnickname_xml ps) s = Some (s\<lparr>fs_procs := ps\<rparr>)"
proof -
  let ?app = "\<lambda>x s. s\<lparr>fs_procs := procnicknamelist_commit x (fs_procs s)\<rparr>"
  have "xml_parse_allnodes (filterset_xml lexical u1 u2 u3) (xml_append_list procnickname_xml ps) s = Some (fold ?app ps s)"
    by (rule procnickname_elem.parse_list [where new = procnickname_clear])
      (simp_all add: filterset_xml_def filterset_xml_subnode_def procs_xml_ok [OF assms(1)])
  also have "fold ?app ps s = s\<lparr>fs_procs := fold procnicknamelist_commit ps (fs_procs s)\<rparr>"
    by (induction ps arbitrary: s) simp_all
  finally show ?thesis by (simp add: assms procs_commit)
qed

lemma lat_segment:
  assumes "addrtable_saved t" and "fs_table_lat s = addrtable_clear"
    and "at_descr t = []" "at_filename t = []" "at_type_id t = ADDR_TABLE_ORIGINAL" "at_data_id t = 0"
  shows "xml_parse_allnodes (filterset_xml lexical u1 u2 u3) (xml_append_strings ''LAT'' (map addr_pair_xml (at_items t))) s
    = Some (s\<lparr>fs_table_lat := t\<rparr>)"
proof -
  let ?app = "\<lambda>p z. parse_lat_string (Some (addr_pair_xml p)) z"
  have "fold ?app ps z = z\<lparr>fs_table_lat := (fs_table_lat z)\<lparr>at_items :=
      fold (\<lambda>p. catch_addr_value (addr_pair_xml p)) ps (at_items (fs_table_lat z))\<rparr>\<rparr>" for ps and z :: filterset
    by (induction ps arbitrary: z) (simp_all add: parse_lat_string_def)
  moreover have "fold (\<lambda>p. catch_addr_value (addr_pair_xml p)) (at_items t) [] = at_items t"
    using addr_pairs_parse [of "[]" "at_items t"] assms(1) by (simp add: addrtable_saved_def)
  moreover have "addrtable_clear\<lparr>at_items := at_items t\<rparr> = t"
    using assms by (cases t) (simp add: addrtable_saved_def addrtable_clear_def)
  ultimately show ?thesis
    using assms(2)
    by (simp add: pairs_segment [where app = ?app] filterset_xml_def filterset_xml_catch_value_def)
      (simp add: addrtable_clear_def)
qed

lemma filterset_segments:
  "fs_revision s = 0 \<Longrightarrow> xml_parse_allnodes (filterset_xml lexical u1 u2 u3) (xml_append_value ''FiltersetRevision'' out_signed i 0) s = Some (s\<lparr>fs_revision := i\<rparr>)"
  "m_nUserProfileAuthMode s = 0 \<Longrightarrow> xml_parse_allnodes (filterset_xml lexical u1 u2 u3) (xml_append_value ''UserProfileAuthMode'' out_signed i 0) s = Some (s\<lparr>m_nUserProfileAuthMode := i\<rparr>)"
  "m_nUserProfileStatus s = 0 \<Longrightarrow> xml_parse_allnodes (filterset_xml lexical u1 u2 u3) (xml_append_value ''UserProfileStatus'' out_signed i 0) s = Some (s\<lparr>m_nUserProfileStatus := i\<rparr>)"
  "m_nUserProfileManageFilters s = 0 \<Longrightarrow> xml_parse_allnodes (filterset_xml lexical u1 u2 u3) (xml_append_value ''UserProfileManagerFilters'' out_signed i 0) s = Some (s\<lparr>m_nUserProfileManageFilters := i\<rparr>)"
  "m_nUserProfileType s = 0 \<Longrightarrow> xml_parse_allnodes (filterset_xml lexical u1 u2 u3) (xml_append_value ''UserProfileType'' out_signed i 0) s = Some (s\<lparr>m_nUserProfileType := i\<rparr>)"
  "m_nUserProfileDenyDoubleLogins s = 0 \<Longrightarrow> xml_parse_allnodes (filterset_xml lexical u1 u2 u3) (xml_append_value ''UserProfileDenyDoubleLogins'' out_signed i 0) s = Some (s\<lparr>m_nUserProfileDenyDoubleLogins := i\<rparr>)"
  "m_bUseMiB s = True \<Longrightarrow> xml_parse_allnodes (filterset_xml lexical u1 u2 u3) (xml_append_value ''UseMebiBytes'' bool_text b True) s = Some (s\<lparr>m_bUseMiB := b\<rparr>)"
  "fs_filterset_file s = [] \<Longrightarrow> CHR 0x00 \<notin> set t \<Longrightarrow> xml_parse_allnodes (filterset_xml lexical u1 u2 u3) (xml_append_value ''File'' id t []) s = Some (s\<lparr>fs_filterset_file := t\<rparr>)"
  "fs_descr s = [] \<Longrightarrow> CHR 0x00 \<notin> set t \<Longrightarrow> xml_parse_allnodes (filterset_xml lexical u1 u2 u3) (xml_append_value ''FiltersetDescription'' id t []) s = Some (s\<lparr>fs_descr := t\<rparr>)"
  "fs_adodb_conn_string s = [] \<Longrightarrow> CHR 0x00 \<notin> set t \<Longrightarrow> xml_parse_allnodes (filterset_xml lexical u1 u2 u3) (xml_append_value ''DbConnString'' id t []) s = Some (s\<lparr>fs_adodb_conn_string := t\<rparr>)"
  "m_bKeepCounters s = True \<Longrightarrow> xml_parse_allnodes (filterset_xml lexical u1 u2 u3) (xml_append_value ''RestoreCounters'' bool_text b True) s = Some (s\<lparr>m_bKeepCounters := b\<rparr>)"
  "m_nLogCntFlushPeriod s = 10 \<Longrightarrow> xml_parse_allnodes (filterset_xml lexical u1 u2 u3) (xml_append_value ''LogCntXmlReportsFlushPeriod'' out_unsigned u 10) s = Some (s\<lparr>m_nLogCntFlushPeriod := u\<rparr>)"
  "m_szLogCntFolder1 s = [] \<Longrightarrow> CHR 0x00 \<notin> set t \<Longrightarrow> xml_parse_allnodes (filterset_xml lexical u1 u2 u3) (xml_append_value ''LogCntXmlReportsFolder'' id t []) s = Some (s\<lparr>m_szLogCntFolder1 := t\<rparr>)"
  "m_szLogCntFolder2 s = [] \<Longrightarrow> CHR 0x00 \<notin> set t \<Longrightarrow> xml_parse_allnodes (filterset_xml lexical u1 u2 u3) (xml_append_value ''LogCntBackupReportsFolder'' id t []) s = Some (s\<lparr>m_szLogCntFolder2 := t\<rparr>)"
  "m_szLogCntXSLFile1 s = [] \<Longrightarrow> CHR 0x00 \<notin> set t \<Longrightarrow> xml_parse_allnodes (filterset_xml lexical u1 u2 u3) (xml_append_value ''LogCntXmlReportsXsl'' id t []) s = Some (s\<lparr>m_szLogCntXSLFile1 := t\<rparr>)"
  "m_bLogCntDbEnable s = False \<Longrightarrow> xml_parse_allnodes (filterset_xml lexical u1 u2 u3) (xml_append_value ''LogCntDbEnable'' bool_text b False) s = Some (s\<lparr>m_bLogCntDbEnable := b\<rparr>)"
  "m_nLogCntDbFlushPeriod s = 20 \<Longrightarrow> xml_parse_allnodes (filterset_xml lexical u1 u2 u3) (xml_append_value ''LogCntDbFlushPeriod'' out_unsigned u 20) s = Some (s\<lparr>m_nLogCntDbFlushPeriod := u\<rparr>)"
  "m_szLogCntDbTable s = [] \<Longrightarrow> CHR 0x00 \<notin> set t \<Longrightarrow> xml_parse_allnodes (filterset_xml lexical u1 u2 u3) (xml_append_value ''LogCntDbTable'' id t []) s = Some (s\<lparr>m_szLogCntDbTable := t\<rparr>)"
  "m_nLogCntDbSamples s = 20 \<Longrightarrow> xml_parse_allnodes (filterset_xml lexical u1 u2 u3) (xml_append_value ''LogCntDbSamples'' out_unsigned u 20) s = Some (s\<lparr>m_nLogCntDbSamples := u\<rparr>)"
  by (simp_all add: parse_value_if parse_text_if filterset_xml_def filterset_xml_catch_value_def)

lemma filterset_defaults:
  "fs_revision (filterset_clear x) = 0"
  "m_nUserProfileAuthMode (filterset_clear x) = 0"
  "m_nUserProfileStatus (filterset_clear x) = 0"
  "m_nUserProfileManageFilters (filterset_clear x) = 0"
  "m_nUserProfileType (filterset_clear x) = 0"
  "m_nUserProfileDenyDoubleLogins (filterset_clear x) = 0"
  "m_bUseMiB (filterset_clear x) = True"
  "fs_filterset_file (filterset_clear x) = []"
  "fs_descr (filterset_clear x) = []"
  "fs_adodb_conn_string (filterset_clear x) = []"
  "m_bKeepCounters (filterset_clear x) = True"
  "m_nLogCntFlushPeriod (filterset_clear x) = 10"
  "m_szLogCntFolder1 (filterset_clear x) = []"
  "m_szLogCntFolder2 (filterset_clear x) = []"
  "m_szLogCntXSLFile1 (filterset_clear x) = []"
  "m_bLogCntDbEnable (filterset_clear x) = False"
  "m_nLogCntDbFlushPeriod (filterset_clear x) = 20"
  "m_szLogCntDbTable (filterset_clear x) = []"
  "m_nLogCntDbSamples (filterset_clear x) = 20"
  "fs_filters (filterset_clear x) = []"
  "fs_table_lat (filterset_clear x) = addrtable_clear"
  "fs_table_mat (filterset_clear x) = []"
  "fs_users (filterset_clear x) = []"
  "fs_urlfilters (filterset_clear x) = []"
  "fs_procs (filterset_clear x) = procnicknamelist_clear"
  "fs_ranges (filterset_clear x) = []"
  by (simp_all add: filterset_clear_def)

section \<open>The whole document\<close>

definition filterset_xml_ok :: "u32 \<Rightarrow> filterset \<Rightarrow> bool" where
  "filterset_xml_ok u3 s \<longleftrightarrow>
     list_all (\<lambda>f. filter_xml_ok f \<and> m_id f \<noteq> 0) (fs_filters s)
     \<and> addrtable_saved (fs_table_lat s) \<and> at_descr (fs_table_lat s) = [] \<and> at_filename (fs_table_lat s) = []
     \<and> at_type_id (fs_table_lat s) = ADDR_TABLE_ORIGINAL \<and> at_data_id (fs_table_lat s) = 0
     \<and> list_all (\<lambda>r. matrec_xml_ok r \<and> atr_key r \<noteq> 0 \<and> \<not> (atr_key r = u3 \<and> at_items (atr_addrtable r) = []))
         (fs_table_mat s)
     \<and> list_all (\<lambda>x. fsuser_xml_ok x \<and> m_uid x \<noteq> 0) (fs_users s)
     \<and> list_all (\<lambda>x. urlfilter_xml_ok x \<and> ufid x \<noteq> 0) (fs_urlfilters s)
     \<and> procs_ok (fs_procs s)
     \<and> list_all (\<lambda>x. monitor_range_xml_ok x \<and> mr_id x \<noteq> 0) (fs_ranges s)
     \<and> list_all (\<lambda>t. CHR 0x00 \<notin> set t)
         [fs_filterset_file s, fs_descr s, fs_adodb_conn_string s, m_szLogCntFolder1 s, m_szLogCntFolder2 s,
          m_szLogCntXSLFile1 s, m_szLogCntDbTable s]"

lemma filterset_clear_extension:
  "fs_fdata (filterset_clear y) = fs_fdata y" "fs_is_proc_used (filterset_clear y) = fs_is_proc_used y"
  "fs_is_shaper_used (filterset_clear y) = fs_is_shaper_used y"
  by (simp_all add: filterset_clear_def)

section \<open>Properties\<close>

text \<open>
  C40: a configuration survives its XML form: the node \<open>xml_create\<close> builds, parsed into any filter
  set, gives all its members, tables, users, filters and rules in their order. Members that are
  not written keep what the set had; the counters of the filters are those of new filters.
\<close>

theorem filterset_xml_roundtrip:
  assumes "\<And>i. lexical (print_u (unat i)) = Some i" and "filterset_xml_ok u3 s"
  shows "xml_parse_node (filterset_xml lexical u1 u2 u3) (filterset_xml_create lexical s) False y
    = Some (s\<lparr>fs_filters := map (fresh_counters u1 u2) (fs_filters s), fs_fdata := fs_fdata y,
             fs_is_proc_used := fs_is_proc_used y, fs_is_shaper_used := fs_is_shaper_used y\<rparr>)"
proof -
  have "xml_parse_node (filterset_xml lexical u1 u2 u3) (filterset_xml_create lexical s) False y
      = xml_parse_allnodes (filterset_xml lexical u1 u2 u3) (filterset_nodes lexical s) (filterset_clear y)"
    by (simp add: xml_parse_node_def filterset_xml_create_def node_children_def filterset_xml_def)
  also have "\<dots> = Some (s\<lparr>fs_filters := map (fresh_counters u1 u2) (fs_filters s), fs_fdata := fs_fdata y,
             fs_is_proc_used := fs_is_proc_used y, fs_is_shaper_used := fs_is_shaper_used y\<rparr>)"
    using assms(2) unfolding filterset_xml_ok_def filterset_nodes_def Let_def get_lat_def
    apply (simp add: parse_allnodes_append filterset_segments filterset_defaults filters_segment lat_segment mats_segment
        users_segment [OF _ assms(1)] urlfilters_segment [OF _ assms(1)] procs_segment ranges_segment)
    apply (rule filterset.equality)
    apply (simp_all add: filterset_clear_extension)
    done
  finally show ?thesis .
qed

definition ex_config :: filterset where
  "ex_config = (ex_filterset [ex_xml_filter\<lparr>m_id := 4\<rparr>])\<lparr>fs_revision := - 3, fs_procs := procnicknamelist_clear,
     fs_table_lat := addrtable_clear\<lparr>at_items := ex_ranges\<rparr>,
     fs_table_mat := [\<lparr>atr_key = 5, atr_addrtable = addrtable_clear\<lparr>at_items := ex_ranges, at_descr := ''net''\<rparr>\<rparr>],
     fs_users := [ex_user\<lparr>m_uid := 9\<rparr>], fs_urlfilters := [ex_urlfilter], m_bUseMiB := False, m_nLogCntDbSamples := 7\<rparr>"

theorem filterset_xml_roundtrip_witness:
  "map_option (\<lambda>s. (fs_revision s, at_items (fs_table_lat s), fs_users s, fs_urlfilters s, m_bUseMiB s))
     (xml_parse_node (filterset_xml ex_lexical 0 0 0) (filterset_xml_create ex_lexical ex_config) False (ex_filterset []))
   = Some (- 3, ex_ranges, [ex_user\<lparr>m_uid := 9\<rparr>], [ex_urlfilter], False)"
proof -
  have "sm_wf ex_ranges" using ex_ranges_table by (simp add: range_table_def)
  moreover have "rule_xml_ok rule_clear"
    by (simp add: rule_xml_ok_def rule_clear_def mac_wf_def mac_clear_def host_ok_def hostname_clear_def)
  then have "filter_xml_ok (ex_xml_filter\<lparr>m_id := 4\<rparr>)"
    using ex_xml_rule_ok
    by (simp add: filter_xml_ok_def ex_xml_filter_def ex_filter_def filter2_new_def filter_base_clear_def)
  moreover have "procs_ok procnicknamelist_clear" by (simp add: procs_ok_def procnicknamelist_clear_def)
  moreover have "fsuser_xml_ok (ex_user\<lparr>m_uid := 9\<rparr>)"
    by (simp add: fsuser_xml_ok_def ex_user_def fsuser_clear_def idset_wf_def)
  moreover have "urlfilter_xml_ok ex_urlfilter" "ufid ex_urlfilter \<noteq> 0"
    by (simp_all add: urlfilter_xml_ok_def ex_urlfilter_def urlfilter_clear_def idset_wf_def)
  ultimately have "filterset_xml_ok 0 ex_config"
    by (simp add: filterset_xml_ok_def ex_config_def ex_filterset_def filterset_defaults addrtable_saved_def
        matrec_xml_ok_def addrtable_clear_def)
  from filterset_xml_roundtrip [OF ex_lexical_print this] show ?thesis
    by (simp add: ex_config_def)
qed

text \<open>
  a table without ranges may be lost. The element a list compares with is built by a
  constructor that leaves its key as it finds it; when that value is the key of a table without
  ranges, reading the configuration drops the table.
\<close>

theorem empty_table_lost:
  assumes "at_items (atr_addrtable r) = []" and "matrec_xml_ok r"
  shows "xml_parse_allnodes (filterset_xml lexical u1 u2 (atr_key r)) [matrec_xml_create r] s = Some s"
proof -
  have "xml_parse_node matrec_xml (matrec_xml_create r) False \<lparr>atr_key = 0, atr_addrtable = addrtable_clear\<rparr> = Some r"
    using matrec_elem.create_parse [OF assms(2)] by (simp add: matrec_xml_def)
  moreover have "node_name (matrec_xml_create r) = ''MAT''" "node_text (matrec_xml_create r) = []"
    using matrec_elem.create_name [of r] matrec_elem.create_text [of r] by (simp_all add: matrec_xml_def)
  moreover have "commit_item (addrtablemap_class (atr_key r)) r xs = xs" for xs
    using assms(1) by (simp add: commit_item_def commit_temp_item_def clear_temp_def addrtablemap_class_def
        addrtablemaprec_eq_def addrtable_clear_def)
  ultimately show ?thesis by (simp add: filterset_xml_def filterset_xml_subnode_def)
qed

theorem empty_table_lost_witness:
  "xml_parse_allnodes (filterset_xml ex_lexical 0 0 5) [matrec_xml_create \<lparr>atr_key = 5, atr_addrtable = addrtable_clear\<rparr>]
     (ex_filterset []) = Some (ex_filterset [])"
  using empty_table_lost [of "\<lparr>atr_key = 5, atr_addrtable = addrtable_clear\<rparr>" ex_lexical 0 0 "ex_filterset []"]
  by (simp add: matrec_xml_ok_def addrtable_saved_def addrtable_clear_def sm_wf_def)

end
