(* ===== verification/FilterSetCons.thy ===== *)
theory FilterSetCons
  imports FilterSetXml Base64
begin

text \<open>
  \<open>corefilters/filtercons*.{h,cpp}\<close>, \<open>filtersetcons*.{h,cpp}\<close>: what the server sends to a
  console that shows the counters and the speed histories of the filters. Arrays travel as
  blobs of little-endian words. A read outside a blob is \<open>None\<close>.
\<close>

section \<open>Messages\<close>

record filtercons =
  fc_id :: u32
  fc_sent :: i64
  fc_recv :: i64
  fc_speed :: blob

definition filtercons_clear :: filtercons where
  "filtercons_clear = \<lparr>fc_id = 0, fc_sent = 0, fc_recv = 0, fc_speed = blob_clear\<rparr>"

definition filtercons_eq :: "filtercons \<Rightarrow> filtercons \<Rightarrow> bool" where
  "filtercons_eq a b \<longleftrightarrow> fc_id a = fc_id b \<and> fc_sent a = fc_sent b \<and> fc_recv a = fc_recv b
     \<and> blob_eq (fc_speed a) (fc_speed b)"

text \<open>\<open>operator<<\<close> of a blob writes its text, \<open>operator>>\<close> takes all characters of the stream.\<close>

definition blob_text :: "blob \<Rightarrow> string" where "blob_text b = blob_to_string b []"

definition filtercons_nodes :: "filtercons \<Rightarrow> xml list" where
  "filtercons_nodes x =
     (let orig = filtercons_clear in
       xml_append_value ''I'' out_unsigned (fc_id x) (fc_id orig)
     @ xml_append_value ''S'' out_signed (fc_sent x) (fc_sent orig)
     @ xml_append_value ''R'' out_signed (fc_recv x) (fc_recv orig)
     @ xml_append_value ''SP'' blob_text (fc_speed x) (fc_speed orig))"

definition filtercons_xml_create :: "filtercons \<Rightarrow> xml" where
  "filtercons_xml_create x = Elem ''F'' [] (filtercons_nodes x)"

definition filtercons_xml_catch_value :: "string \<Rightarrow> string \<Rightarrow> filtercons \<Rightarrow> filtercons option" where
  "filtercons_xml_catch_value keyname v x =
     (if keyname = ''I'' then Some (x\<lparr>fc_id := parse_unsigned v\<rparr>)
      else if keyname = ''S'' then Some (x\<lparr>fc_sent := parse_signed v\<rparr>)
      else if keyname = ''R'' then Some (x\<lparr>fc_recv := parse_signed v\<rparr>)
      else if keyname = ''SP'' then map_option (\<lambda>b. x\<lparr>fc_speed := b\<rparr>) (blob_from_string (Some v) (fc_speed x))
      else Some x)"

definition filtercons_xml :: "filtercons xml_class" where
  "filtercons_xml = \<lparr>xc_clear = (\<lambda>x. filtercons_clear), xc_create = filtercons_xml_create,
     xc_value = filtercons_xml_catch_value, xc_subnode = (\<lambda>k n x. Some x)\<rparr>"

text \<open>The elements of a \<open>filterconslist\<close> have no name.\<close>

definition filterconslist_class :: "filtercons ubl_class" where
  "filterconslist_class = \<lparr>ubl_get_id = fc_id, ubl_set_id = (\<lambda>i c. c\<lparr>fc_id := i\<rparr>), ubl_get_name = (\<lambda>c. []),
     ubl_default = filtercons_clear, ubl_item_clear = (\<lambda>c. filtercons_clear), ubl_eq = filtercons_eq,
     ubl_protected = False\<rparr>"

definition filterconslist_xml :: "filtercons list xml_class" where
  "filterconslist_xml = xml_list_class ''TrafficConsFakeRootNode'' ''F'' filtercons_xml filtercons_clear"

interpretation filterconslist: ubl_element filterconslist_class
  by unfold_locales (simp add: filterconslist_class_def)

record filtersetcons =
  fsc_total_bytes_captured :: i64
  fsc_total_bytes_speed :: u32
  fsc_total_packets_captured :: i64
  fsc_total_packets_speed :: u32
  fsc_total_netflow_packets_captured :: u32
  fsc_total_points :: u32
  fsc_next_seqnum :: u32
  fsc_diff_size :: u32
  fsc_start_diffindex :: u32
  fsc_diff_seqnum :: blob
  fsc_diff_time :: blob
  fsc_filters :: "filtercons list"

definition filtersetcons_clear :: filtersetcons where
  "filtersetcons_clear = \<lparr>fsc_total_bytes_captured = 0, fsc_total_bytes_speed = 0,
     fsc_total_packets_captured = 0, fsc_total_packets_speed = 0, fsc_total_netflow_packets_captured = 0,
     fsc_total_points = 0, fsc_next_seqnum = 0, fsc_diff_size = 0, fsc_start_diffindex = 0,
     fsc_diff_seqnum = blob_clear, fsc_diff_time = blob_clear, fsc_filters = []\<rparr>"

definition filtersetcons_eq :: "filtersetcons \<Rightarrow> filtersetcons \<Rightarrow> bool" where
  "filtersetcons_eq a b \<longleftrightarrow> fsc_total_bytes_captured a = fsc_total_bytes_captured b
     \<and> fsc_total_bytes_speed a = fsc_total_bytes_speed b
     \<and> fsc_total_packets_captured a = fsc_total_packets_captured b
     \<and> fsc_total_packets_speed a = fsc_total_packets_speed b
     \<and> fsc_total_netflow_packets_captured a = fsc_total_netflow_packets_captured b
     \<and> fsc_total_points a = fsc_total_points b \<and> fsc_next_seqnum a = fsc_next_seqnum b
     \<and> fsc_diff_size a = fsc_diff_size b \<and> fsc_start_diffindex a = fsc_start_diffindex b
     \<and> blob_eq (fsc_diff_seqnum a) (fsc_diff_seqnum b) \<and> blob_eq (fsc_diff_time a) (fsc_diff_time b)
     \<and> list_all2 filtercons_eq (fsc_filters a) (fsc_filters b)"

definition filtersetcons_nodes :: "filtersetcons \<Rightarrow> xml list" where
  "filtersetcons_nodes x =
     (let orig = filtersetcons_clear in
       xml_append_value ''TB'' out_signed (fsc_total_bytes_captured x) (fsc_total_bytes_captured orig)
     @ xml_append_value ''TBS'' out_unsigned (fsc_total_bytes_speed x) (fsc_total_bytes_speed orig)
     @ xml_append_value ''TP'' out_signed (fsc_total_packets_captured x) (fsc_total_packets_captured orig)
     @ xml_append_value ''TPS'' out_unsigned (fsc_total_packets_speed x) (fsc_total_packets_speed orig)
     @ xml_append_value ''TN'' out_unsigned (fsc_total_netflow_packets_captured x) (fsc_total_netflow_packets_captured orig)
     @ xml_append_value ''totpnt'' out_unsigned (fsc_total_points x) (fsc_total_points orig)
     @ xml_append_value ''nseq'' out_unsigned (fsc_next_seqnum x) (fsc_next_seqnum orig)
     @ xml_append_value ''dsize'' out_unsigned (fsc_diff_size x) (fsc_diff_size orig)
     @ xml_append_value ''dindex'' out_unsigned (fsc_start_diffindex x) (fsc_start_diffindex orig)
     @ xml_append_value ''SN'' blob_text (fsc_diff_seqnum x) (fsc_diff_seqnum orig)
     @ xml_append_value ''TM'' blob_text (fsc_diff_time x) (fsc_diff_time orig)
     @ xml_append_list filtercons_xml (fsc_filters x))"

definition filtersetcons_xml_create :: "filtersetcons \<Rightarrow> xml" where
  "filtersetcons_xml_create x = Elem ''TrafficConsole'' [] (filtersetcons_nodes x)"

definition filtersetcons_xml_catch_value :: "string \<Rightarrow> string \<Rightarrow> filtersetcons \<Rightarrow> filtersetcons option" where
  "filtersetcons_xml_catch_value keyname v x =
     (if keyname = ''TB'' then Some (x\<lparr>fsc_total_bytes_captured := parse_signed v\<rparr>)
      else if keyname = ''TBS'' then Some (x\<lparr>fsc_total_bytes_speed := parse_unsigned v\<rparr>)
      else if keyname = ''TP'' then Some (x\<lparr>fsc_total_packets_captured := parse_signed v\<rparr>)
      else if keyname = ''TPS'' then Some (x\<lparr>fsc_total_packets_speed := parse_unsigned v\<rparr>)
      else if keyname = ''TN'' then Some (x\<lparr>fsc_total_netflow_packets_captured := parse_unsigned v\<rparr>)
      else if keyname = ''totpnt'' then Some (x\<lparr>fsc_total_points := parse_unsigned v\<rparr>)
      else if keyname = ''nseq'' then Some (x\<lparr>fsc_next_seqnum := parse_unsigned v\<rparr>)
      else if keyname = ''dsize'' then Some (x\<lparr>fsc_diff_size := parse_unsigned v\<rparr>)
      else if keyname = ''dindex'' then Some (x\<lparr>fsc_start_diffindex := parse_unsigned v\<rparr>)
      else if keyname = ''SN'' then map_option (\<lambda>b. x\<lparr>fsc_diff_seqnum := b\<rparr>) (blob_from_string (Some v) (fsc_diff_seqnum x))
      else if keyname = ''TM'' then map_option (\<lambda>b. x\<lparr>fsc_diff_time := b\<rparr>) (blob_from_string (Some v) (fsc_diff_time x))
      else if keyname = ''F'' then Some x
      else Some x)"

definition filtersetcons_xml_subnode :: "string \<Rightarrow> xml \<Rightarrow> filtersetcons \<Rightarrow> filtersetcons option" where
  "filtersetcons_xml_subnode keyname n x =
     (if keyname = ''F''
      then map_option (\<lambda>c. x\<lparr>fsc_filters := commit_item filterconslist_class c (fsc_filters x)\<rparr>)
             (xml_parse_node filtercons_xml n False filtercons_clear)
      else Some x)"

definition filtersetcons_xml :: "filtersetcons xml_class" where
  "filtersetcons_xml = \<lparr>xc_clear = (\<lambda>x. filtersetcons_clear), xc_create = filtersetcons_xml_create,
     xc_value = filtersetcons_xml_catch_value, xc_subnode = filtersetcons_xml_subnode\<rparr>"

section \<open>Filling and applying a message\<close>

text \<open>The two halves of the array \<open>diff\<close>: the speeds sent, then the speeds received.\<close>

definition speed_bytes :: "(u16 \<times> u16) list \<Rightarrow> u8 list" where
  "speed_bytes ds = concat (map (le_bytes 2) (map fst ds @ map snd ds))"

definition filter_message :: "u32 \<Rightarrow> u32 \<Rightarrow> filter2 \<Rightarrow> filtercons" where
  "filter_message diff_size start_diffindex f =
     \<lparr>fc_id = m_id f, fc_sent = of_int (get_cnt (cnt_sent f)), fc_recv = of_int (get_cnt (cnt_recv f)),
      fc_speed = blob_set (Some (speed_bytes (select_diffspeed diff_size start_diffindex f)))\<rparr>"

text \<open>The first \<open>diff_size\<close> words of an array as bytes.\<close>

definition array_bytes :: "nat \<Rightarrow> u32 list \<Rightarrow> u8 list" where
  "array_bytes n a = concat (map (le_bytes 4) (take n a))"

definition fill_from_filterset :: "filterset \<Rightarrow> u32 \<Rightarrow> filtersetcons \<Rightarrow> unit + filtersetcons" where
  "fill_from_filterset fs seqnum x =
     (case create_diff (fs_fdata fs) seqnum fd_clear of
        Inl e \<Rightarrow> Inl e
      | Inr (diff_size, start, fdata) \<Rightarrow>
          Inr (x\<lparr>fsc_diff_size := of_nat diff_size, fsc_start_diffindex := of_nat start,
                 fsc_total_points := total_points fdata, fsc_next_seqnum := next_seqnum fdata,
                 fsc_diff_seqnum := blob_set (Some (array_bytes diff_size (seqnum_array fdata))),
                 fsc_diff_time := blob_set (Some (array_bytes diff_size (time_array fdata))),
                 fsc_filters := fsc_filters x
                   @ map (filter_message (of_nat diff_size) (of_nat start)) (fs_filters fs)\<rparr>))"

definition word_at :: "nat \<Rightarrow> nat \<Rightarrow> blob \<Rightarrow> 'a::len word option" where
  "word_at k i b = (if k * i + k \<le> length b then Some (le_word (bytes_at (k * i) k b)) else None)"

text \<open>The loop over the points; the list is the indices still to come.\<close>

fun apply_points :: "blob \<Rightarrow> blob \<Rightarrow> nat list \<Rightarrow> filterset_data \<Rightarrow> filterset_data option" where
  "apply_points tb sb [] fd = Some fd"
| "apply_points tb sb (i # is) fd =
     do { t \<leftarrow> (word_at 4 i tb :: u32 option);
          s \<leftarrow> word_at 4 i sb;
          fd' \<leftarrow> goto_next_point (uint t) s fd;
          apply_points tb sb is fd' }"

definition diff_speeds :: "blob \<Rightarrow> (u16 \<times> u16) list" where
  "diff_speeds b =
     (let points = length b div 2
      in map (\<lambda>i. (le_word (bytes_at (2 * i) 2 b), le_word (bytes_at (2 * (points div 2 + i)) 2 b)))
           [0 ..< points div 2])"

definition apply_filtercons :: "u32 \<Rightarrow> filtercons \<Rightarrow> filter2 \<Rightarrow> filter2" where
  "apply_filtercons np c f =
     apply_diffspeed (diff_speeds (fc_speed c)) np
       (f\<lparr>cnt_recv := set_cnt (fc_recv c) (cnt_recv f), cnt_sent := set_cnt (fc_sent c) (cnt_sent f)\<rparr>)"

text \<open>
  The loop over the filters of the message. \<open>k\<close> is the position of \<open>filter_iter\<close>: while the
  identifiers agree, both lists are walked together; from the first difference on every filter
  is searched.
\<close>

fun apply_filters :: "u32 \<Rightarrow> filtercons list \<Rightarrow> bool \<Rightarrow> nat \<Rightarrow> filter2 list \<Rightarrow> filter2 list" where
  "apply_filters np [] plain_mode k fs = fs"
| "apply_filters np (c # cs) plain_mode k fs =
     (if plain_mode \<and> k < length fs \<and> m_id (fs ! k) = fc_id c
      then apply_filters np cs plain_mode (Suc k) (fs[k := apply_filtercons np c (fs ! k)])
      else case findptr_by_id (filterlist_class 0 0) (fc_id c) fs of
          None \<Rightarrow> apply_filters np cs False k fs
        | Some j \<Rightarrow> apply_filters np cs False k (fs[j := apply_filtercons np c (fs ! j)]))"

definition apply_to_filterset :: "filtersetcons \<Rightarrow> filterset \<Rightarrow> filterset option" where
  "apply_to_filterset x fs =
     (let np = next_point (fs_fdata fs);
          seqnum_points = length (fsc_diff_seqnum x) div 4
      in map_option (\<lambda>fd. fs\<lparr>fs_fdata := fd, fs_filters := apply_filters np (fsc_filters x) True 0 (fs_filters fs)\<rparr>)
           (apply_points (fsc_diff_time x) (fsc_diff_seqnum x) [0 ..< seqnum_points] (fs_fdata fs)))"

section \<open>Messages as XML\<close>

lemma blob_text_read:
  "b \<noteq> [] \<Longrightarrow> blob_from_string (Some (blob_text b)) c = Some b"
  using b64_decode_encode [of b "[]"] by (simp add: blob_text_def blob_from_string_def blob_to_string_def b64_encode_text)

lemma blob_text_xml: "b \<noteq> [] \<Longrightarrow> xml_text (blob_text b)"
  using b64_text_long [of b] by (auto simp: blob_text_def blob_to_string_def b64_encode_text xml_text_def b64_text_plain(1))

lemma filtercons_segments:
  "fc_id s = 0 \<Longrightarrow> xml_parse_allnodes filtercons_xml (xml_append_value ''I'' out_unsigned u 0) s = Some (s\<lparr>fc_id := u\<rparr>)"
  "fc_sent s = 0 \<Longrightarrow> xml_parse_allnodes filtercons_xml (xml_append_value ''S'' out_signed i 0) s = Some (s\<lparr>fc_sent := i\<rparr>)"
  "fc_recv s = 0 \<Longrightarrow> xml_parse_allnodes filtercons_xml (xml_append_value ''R'' out_signed i 0) s = Some (s\<lparr>fc_recv := i\<rparr>)"
  "fc_speed s = [] \<Longrightarrow> xml_parse_allnodes filtercons_xml (xml_append_value ''SP'' blob_text b []) s = Some (s\<lparr>fc_speed := b\<rparr>)"
  by (simp_all add: parse_value_if blob_text_xml blob_text_read filtercons_xml_def filtercons_xml_catch_value_def)

interpretation filtercons_elem: xml_element filtercons_xml "''F''" "\<lambda>c. True"
proof
  show "node_name (xc_create filtercons_xml x) = ''F''" for x
    by (simp add: filtercons_xml_def filtercons_xml_create_def node_name_def)
  show "node_text (xc_create filtercons_xml x) = []" for x
    by (simp add: filtercons_xml_def filtercons_xml_create_def node_text_def filtercons_nodes_def Let_def find_append find_pcdata)
  have "xml_parse_allnodes filtercons_xml (filtercons_nodes x) filtercons_clear = Some x" for x
    by (cases x) (simp add: filtercons_nodes_def filtercons_clear_def blob_clear_def parse_allnodes_append filtercons_segments Let_def)
  then show "xml_parse_node filtercons_xml (xc_create filtercons_xml x) False y = Some x" for x y
    by (simp add: filtercons_xml_def filtercons_xml_create_def xml_parse_node_def node_children_def)
qed

lemma commit_filtercons: "fc_id c \<noteq> 0 \<Longrightarrow> commit_item filterconslist_class c xs = xs @ [c]"
  by (rule commit_item_new) (simp_all add: filterconslist_class_def filtercons_eq_def filtercons_clear_def)

definition filtersetcons_ok :: "filtersetcons \<Rightarrow> bool" where
  "filtersetcons_ok x \<longleftrightarrow> (\<forall>c \<in> set (fsc_filters x). fc_id c \<noteq> 0)"

lemma filters_of_message:
  assumes "\<forall>c \<in> set cs. fc_id c \<noteq> 0"
  shows "xml_parse_allnodes filtersetcons_xml (xml_append_list filtercons_xml cs) s
    = Some (s\<lparr>fsc_filters := fsc_filters s @ cs\<rparr>)"
proof -
  let ?app = "\<lambda>c s. s\<lparr>fsc_filters := commit_item filterconslist_class c (fsc_filters s)\<rparr>"
  have "xml_parse_allnodes filtersetcons_xml (xml_append_list filtercons_xml cs) s = Some (fold ?app cs s)"
    by (rule filtercons_elem.parse_list [where new = filtercons_clear])
      (simp_all add: filtersetcons_xml_def filtersetcons_xml_subnode_def list_all_iff)
  also have "fold ?app cs s = s\<lparr>fsc_filters := fsc_filters s @ cs\<rparr>"
    using assms by (induction cs arbitrary: s) (simp_all add: commit_filtercons)
  finally show ?thesis .
qed

lemma filtersetcons_segments:
  "fsc_total_bytes_captured s = 0 \<Longrightarrow> xml_parse_allnodes filtersetcons_xml (xml_append_value ''TB'' out_signed i 0) s = Some (s\<lparr>fsc_total_bytes_captured := i\<rparr>)"
  "fsc_total_bytes_speed s = 0 \<Longrightarrow> xml_parse_allnodes filtersetcons_xml (xml_append_value ''TBS'' out_unsigned u 0) s = Some (s\<lparr>fsc_total_bytes_speed := u\<rparr>)"
  "fsc_total_packets_captured s = 0 \<Longrightarrow> xml_parse_allnodes filtersetcons_xml (xml_append_value ''TP'' out_signed i 0) s = Some (s\<lparr>fsc_total_packets_captured := i\<rparr>)"
  "fsc_total_packets_speed s = 0 \<Longrightarrow> xml_parse_allnodes filtersetcons_xml (xml_append_value ''TPS'' out_unsigned u 0) s = Some (s\<lparr>fsc_total_packets_speed := u\<rparr>)"
  "fsc_total_netflow_packets_captured s = 0 \<Longrightarrow> xml_parse_allnodes filtersetcons_xml (xml_append_value ''TN'' out_unsigned u 0) s = Some (s\<lparr>fsc_total_netflow_packets_captured := u\<rparr>)"
  "fsc_total_points s = 0 \<Longrightarrow> xml_parse_allnodes filtersetcons_xml (xml_append_value ''totpnt'' out_unsigned u 0) s = Some (s\<lparr>fsc_total_points := u\<rparr>)"
  "fsc_next_seqnum s = 0 \<Longrightarrow> xml_parse_allnodes filtersetcons_xml (xml_append_value ''nseq'' out_unsigned u 0) s = Some (s\<lparr>fsc_next_seqnum := u\<rparr>)"
  "fsc_diff_size s = 0 \<Longrightarrow> xml_parse_allnodes filtersetcons_xml (xml_append_value ''dsize'' out_unsigned u 0) s = Some (s\<lparr>fsc_diff_size := u\<rparr>)"
  "fsc_start_diffindex s = 0 \<Longrightarrow> xml_parse_allnodes filtersetcons_xml (xml_append_value ''dindex'' out_unsigned u 0) s = Some (s\<lparr>fsc_start_diffindex := u\<rparr>)"
  "fsc_diff_seqnum s = [] \<Longrightarrow> xml_parse_allnodes filtersetcons_xml (xml_append_value ''SN'' blob_text b []) s = Some (s\<lparr>fsc_diff_seqnum := b\<rparr>)"
  "fsc_diff_time s = [] \<Longrightarrow> xml_parse_allnodes filtersetcons_xml (xml_append_value ''TM'' blob_text b []) s = Some (s\<lparr>fsc_diff_time := b\<rparr>)"
  by (simp_all add: parse_value_if blob_text_xml blob_text_read filtersetcons_xml_def filtersetcons_xml_catch_value_def)

lemma filtersetcons_parse:
  assumes "filtersetcons_ok x"
  shows "xml_parse_node filtersetcons_xml (filtersetcons_xml_create x) False y = Some x"
proof -
  have "xml_parse_allnodes filtersetcons_xml (filtersetcons_nodes x) filtersetcons_clear = Some x"
    using filters_of_message [of "fsc_filters x"] assms
    by (cases x) (simp add: filtersetcons_nodes_def filtersetcons_clear_def blob_clear_def parse_allnodes_append
        filtersetcons_segments filtersetcons_ok_def Let_def)
  then show ?thesis
    by (simp add: filtersetcons_xml_def filtersetcons_xml_create_def xml_parse_node_def node_children_def)
qed

section \<open>Arrays as blobs\<close>

lemma bytes_at_concat:
  "i < length ws \<Longrightarrow> bytes_at (k * i) k (concat (map (le_bytes k) ws)) = le_bytes k (ws ! i)"
proof (induction ws arbitrary: i)
  case (Cons w ws)
  show ?case
  proof (cases i)
    case (Suc j)
    then have "bytes_at (k * i) k (concat (map (le_bytes k) (w # ws))) = bytes_at (k * j) k (concat (map (le_bytes k) ws))"
      by (simp add: bytes_at_append(2))
    then show ?thesis using Cons Suc by simp
  qed (simp add: bytes_at_append(3))
qed simp

lemma length_words [simp]: "length (concat (map (le_bytes k) ws)) = k * length ws"
  by (induction ws) simp_all

lemma word_at_array:
  "i < length ws \<Longrightarrow> 8 * k \<ge> LENGTH('a) \<Longrightarrow> word_at k i (concat (map (le_bytes k) ws)) = Some (ws ! i :: 'a::len word)"
proof -
  assume i: "i < length ws" and k: "8 * k \<ge> LENGTH('a)"
  have "k * Suc i \<le> k * length ws" using i by (intro mult_le_mono) simp_all
  then show ?thesis using i k by (simp add: word_at_def bytes_at_concat)
qed

lemma diff_speeds_bytes: "diff_speeds (speed_bytes ds) = ds"
proof -
  let ?ws = "map fst ds @ map snd ds"
  have "bytes_at (2 * i) 2 (speed_bytes ds) = le_bytes 2 (fst (ds ! i))"
    "bytes_at (2 * (length ds + i)) 2 (speed_bytes ds) = le_bytes 2 (snd (ds ! i))" if "i < length ds" for i
    using that bytes_at_concat [of i ?ws 2] bytes_at_concat [of "length ds + i" ?ws 2]
    by (simp_all add: speed_bytes_def nth_append del: concat_append)
  moreover have "length (speed_bytes ds) = 4 * length ds"
    using length_words [of 2 ?ws] by (simp add: speed_bytes_def del: length_words)
  ultimately show ?thesis
    by (intro nth_equalityI) (simp_all add: diff_speeds_def)
qed

primrec goto_points :: "(u32 \<times> u32) list \<Rightarrow> filterset_data \<Rightarrow> filterset_data option" where
  "goto_points [] fd = Some fd"
| "goto_points (p # ps) fd = do { fd' \<leftarrow> goto_next_point (uint (snd p)) (fst p) fd; goto_points ps fd' }"

lemma apply_points_goto:
  assumes "k \<le> length ps"
  shows "apply_points (concat (map (le_bytes 4) (map snd ps))) (concat (map (le_bytes 4) (map fst ps))) [k ..< length ps] fd
    = goto_points (drop k ps) fd"
  using assms
proof (induction k arbitrary: fd rule: inc_induct)
  case (step k)
  have "[k ..< length ps] = k # [Suc k ..< length ps]" using step(2) by (rule upt_conv_Cons)
  moreover have "drop k ps = ps ! k # drop (Suc k) ps" using step(2) by (simp add: Cons_nth_drop_Suc)
  moreover have "apply_points (concat (map (le_bytes 4) (map snd ps))) (concat (map (le_bytes 4) (map fst ps))) [Suc k ..< length ps]
      = goto_points (drop (Suc k) ps)"
    by (rule ext) (rule step.IH)
  ultimately show ?case
    using step(2) word_at_array [of k "map snd ps" 4] word_at_array [of k "map fst ps" 4] by simp
qed simp

section \<open>Windows of points and speeds\<close>

text \<open>The speeds of a filter at the points of the ring.\<close>

definition filter_speeds :: "filterset_data \<Rightarrow> filter2 \<Rightarrow> (u16 \<times> u16) list" where
  "filter_speeds fd f = ring_points fd (\<lambda>n. (cnt_set (cnt_sent f) ! n, cnt_set (cnt_recv f) ! n))"

definition speeds_wf :: "filter2 \<Rightarrow> bool" where
  "speeds_wf f \<longleftrightarrow> length (cnt_set (cnt_sent f)) = MAXVALUES \<and> length (cnt_set (cnt_recv f)) = MAXVALUES"

lemma window_step:
  assumes "fd_wf fd"
  shows "(if is_point_array_full fd then tl (ring_points fd g) else ring_points fd g) @ [p]
    = lastn MAXVALUES (ring_points fd g @ [p])"
proof (cases "is_point_array_full fd")
  case True
  then have "length (ring_points fd g) = MAXVALUES"
    using assms by (simp add: is_point_array_full_def) (simp add: fd_wf_def)
  then show ?thesis using True MAXVALUES_pos by (simp add: lastn_def drop_Suc)
next
  case False
  then have "length (ring_points fd g) < MAXVALUES" using assms by (simp add: is_point_array_full_def)
  then show ?thesis using False by (simp add: lastn_all)
qed

lemma window_all: "fd_wf fd \<Longrightarrow> lastn MAXVALUES (ring_points fd g) = ring_points fd g"
  by (rule lastn_all) (simp, simp add: fd_wf_def)

lemma goto_points_window:
  assumes "fd_wf fd" and "\<forall>p \<in> set ps. fst p \<noteq> 0"
  obtains fd' where "goto_points ps fd = Some fd'" "fd_wf fd'"
    "fd_points fd' = lastn MAXVALUES (fd_points fd @ ps)"
    "next_seqnum fd' = (if ps = [] then next_seqnum fd else fst (last ps) + 1)"
proof -
  have "\<exists>fd'. goto_points ps fd = Some fd' \<and> fd_wf fd' \<and> fd_points fd' = lastn MAXVALUES (fd_points fd @ ps)
    \<and> next_seqnum fd' = (if ps = [] then next_seqnum fd else fst (last ps) + 1)"
    using assms
  proof (induction ps arbitrary: fd)
    case Nil
    then show ?case by (simp add: window_all fd_points_def)
  next
    case (Cons p ps)
    obtain fd1 where fd1: "goto_next_point (uint (snd p)) (fst p) fd = Some fd1" "fd_wf fd1"
      "next_seqnum fd1 = fst p + 1"
      by (rule goto_next_point_step [OF Cons.prems(1), of "uint (snd p)" "fst p"]) (use Cons.prems(2) in simp)
    have "fd_points fd1 = lastn MAXVALUES (fd_points fd @ [p])"
      using goto_next_point_refines [OF Cons.prems(1), of "uint (snd p)" "fst p"] fd1(1) Cons.prems(2)
        window_step [OF Cons.prems(1), of "fd_slot fd" p]
      by (auto simp: fd_points_def)
    then show ?case
      using Cons.IH [OF fd1(2)] fd1(1,3) Cons.prems(2) lastn_append [of MAXVALUES "fd_points fd @ [p]" ps]
      by auto
  qed
  then show ?thesis using that by blast
qed

lemma next_index:
  fixes start :: u32
  assumes "unat start mod MAXVALUES = unat (next_point fd)" and "unat start + 1 < 2 ^ 32" and "fd_wf fd"
    and "next_point fd' = (if unat (next_point fd) \<ge> MAXVALUES - 1 then 0 else next_point fd + 1)"
  shows "unat (start + 1) mod MAXVALUES = unat (next_point fd')"
proof -
  have n: "unat (next_point fd) < MAXVALUES" using assms(3) by (simp add: fd_wf_def)
  have "unat (start + 1) = Suc (unat start)"
    using assms(2) unat_add_no_overflow [of start 1] by simp
  moreover have "unat (next_point fd') = (if unat (next_point fd) = MAXVALUES - 1 then 0 else Suc (unat (next_point fd)))"
    using n by (auto simp: assms(4) utm_consts unat_add_no_overflow)
  ultimately show ?thesis using assms(1) MAXVALUES_pos by (auto simp: mod_Suc)
qed

lemma apply_diff_loop_same:
  "m_id (apply_diff_loop ds start f) = m_id f" "cnt (cnt_sent (apply_diff_loop ds start f)) = cnt (cnt_sent f)"
  "cnt (cnt_recv (apply_diff_loop ds start f)) = cnt (cnt_recv f)"
  "speeds_wf (apply_diff_loop ds start f) = speeds_wf f"
  by (induction ds start f rule: apply_diff_loop.induct) (simp_all add: Let_def speeds_wf_def)

lemma apply_diff_loop_window:
  assumes "fd_wf fd" and "speeds_wf f" and "length ds = length ps" and "goto_points ps fd = Some fd'"
    and "unat start mod MAXVALUES = unat (next_point fd)" and "unat start + length ds < 2 ^ 32"
  shows "filter_speeds fd' (apply_diff_loop ds start f) = lastn MAXVALUES (filter_speeds fd f @ ds)"
  using assms
proof (induction ds arbitrary: ps fd start f)
  case Nil
  then show ?case by (simp add: filter_speeds_def window_all)
next
  case (Cons d ds)
  obtain s r where d: "d = (s, r)" by (cases d)
  obtain p ps' where ps: "ps = p # ps'" using Cons.prems(3) by (cases ps) auto
  let ?n = "unat (start mod of_nat MAXVALUES)"
  let ?f = "f\<lparr>cnt_sent := (cnt_sent f)\<lparr>cnt_set := (cnt_set (cnt_sent f))[?n := s]\<rparr>,
              cnt_recv := (cnt_recv f)\<lparr>cnt_set := (cnt_set (cnt_recv f))[?n := r]\<rparr>\<rparr>"
  have n: "?n = unat (next_point fd)" using Cons.prems(5) by (simp add: unat_mod utm_consts)
  have lt: "unat (next_point fd) < MAXVALUES" using Cons.prems(1) by (simp add: fd_wf_def)
  obtain fd1 where fd1: "goto_next_point (uint (snd p)) (fst p) fd = Some fd1" "fd_wf fd1"
    and st: "total_points fd1 = (if unat (total_points fd) < MAXVALUES then total_points fd + 1 else total_points fd)"
      "next_point fd1 = (if unat (next_point fd) \<ge> MAXVALUES - 1 then 0 else next_point fd + 1)"
    by (rule goto_next_point_step [OF Cons.prems(1), of "uint (snd p)" "fst p"])
  have "filter_speeds fd1 ?f = (if is_point_array_full fd then tl (filter_speeds fd f) else filter_speeds fd f) @ [d]"
    unfolding filter_speeds_def n
    by (rule ring_step [OF Cons.prems(1) st]) (use Cons.prems(2) lt in \<open>simp_all add: speeds_wf_def d\<close>)
  also have "\<dots> = lastn MAXVALUES (filter_speeds fd f @ [d])"
    unfolding filter_speeds_def by (rule window_step [OF Cons.prems(1)])
  finally have one: "filter_speeds fd1 ?f = lastn MAXVALUES (filter_speeds fd f @ [d])" .
  have wf: "speeds_wf ?f" using Cons.prems(2) by (simp add: speeds_wf_def)
  have next1: "unat (start + 1) mod MAXVALUES = unat (next_point fd1)"
    by (rule next_index [OF Cons.prems(5) _ Cons.prems(1) st(2)]) (use Cons.prems(6) in simp)
  have "unat (start + 1) + length ds < 2 ^ 32"
    using Cons.prems(6) by (simp add: unat_add_no_overflow)
  moreover have "length ds = length ps'" "goto_points ps' fd1 = Some fd'"
    using Cons.prems(3,4) fd1(1) by (simp_all add: ps)
  ultimately have "filter_speeds fd' (apply_diff_loop ds (start + 1) ?f) = lastn MAXVALUES (filter_speeds fd1 ?f @ ds)"
    by (intro Cons.IH [OF fd1(2) wf _ _ next1])
  then show ?case
    using lastn_append [of MAXVALUES "filter_speeds fd f @ [d]" ds] by (simp add: one d Let_def)
qed

section \<open>What the server selects\<close>

lemma create_diff_loop_start:
  assumes "s0 \<le> last_index" and "create_diff_loop fd seqnum last_index [s0 ..< last_index] r = Inr (n, start, r')"
  shows "n = 0 \<or> s0 \<le> start \<and> start < last_index \<and> n = last_index - start"
  using assms
proof (induction s0 rule: inc_induct)
  case (step i)
  have "[i ..< last_index] = i # [Suc i ..< last_index]" using step(2) by (rule upt_conv_Cons)
  then show ?case using step by (auto simp: Let_def split: if_splits)
qed simp

lemma copy_points_lengths:
  "length (seqnum_array (copy_points fd m k i r)) = length (seqnum_array r)"
  "length (time_array (copy_points fd m k i r)) = length (time_array r)"
  by (induction fd m k i r rule: copy_points.induct) simp_all

lemma create_diff_loop_lengths:
  "create_diff_loop fd seqnum last_index is r = Inr (n, start, r') \<Longrightarrow>
     length (seqnum_array r') = length (seqnum_array r) \<and> length (time_array r') = length (time_array r)"
  by (induction fd seqnum last_index "is" r rule: create_diff_loop.induct)
    (auto simp: Let_def copy_points_lengths split: if_splits)

lemma dropWhile_lastn: "\<exists>n \<le> length xs. dropWhile P xs = lastn n xs \<and> n = length (dropWhile P xs)"
  by (intro exI [of _ "length (dropWhile P xs)"])
    (simp add: lastn_def dropWhile_eq_drop length_takeWhile_le)

lemma select_speeds:
  assumes "calc_start_last_index (total_points fd) (next_point fd) 0 = (s0, last_index)" and "fd_wf fd"
    and "n = 0 \<or> s0 \<le> start \<and> start < last_index \<and> n = last_index - start"
  shows "select_diffspeed (of_nat n) (of_nat start) f = lastn n (filter_speeds fd f)"
proof (cases "n = 0")
  case False
  have "unat (next_point fd) < MAXVALUES" "unat (total_points fd) \<le> MAXVALUES" using assms(2) by (auto simp: fd_wf_def)
  then have b: "s0 \<le> start" "start < last_index" "n = last_index - start" "last_index < 2 * MAXVALUES"
    using assms(1,3) False MAXVALUES_pos by (auto simp: calc_start_last_index_def split: if_splits)
  let ?g = "\<lambda>n. (cnt_set (cnt_sent f) ! n, cnt_set (cnt_recv f) ! n)"
  have "unat ((of_nat start + of_nat i) mod of_nat MAXVALUES :: u32) = (start + i) mod MAXVALUES" if "i < n" for i
  proof -
    have "start + i < 2800" using that b by (simp add: utm_consts)
    then have "unat (of_nat start + of_nat i :: u32) = start + i"
      using unat_of_nat [of "start + i", where 'a = 32] by (simp add: take_bit_nat_eq_self)
    then show ?thesis by (simp add: unat_mod utm_consts)
  qed
  moreover have "unat (of_nat n :: u32) = n"
  proof -
    have "n < 2800" using b by (simp add: utm_consts)
    then show ?thesis by (simp add: unat_of_nat take_bit_nat_eq_self)
  qed
  ultimately have "select_diffspeed (of_nat n) (of_nat start) f = map (\<lambda>i. ?g ((start + i) mod MAXVALUES)) [0 ..< n]"
    by (simp add: select_diffspeed_def Let_def)
  also have "\<dots> = map (\<lambda>i. ?g (i mod MAXVALUES)) [start ..< last_index]"
    using b by (intro nth_equalityI) simp_all
  also have "\<dots> = lastn n (filter_speeds fd f)"
    using b by (simp add: filter_speeds_def ring_points_def assms(1) lastn_def drop_map)
  finally show ?thesis .
qed (simp add: select_diffspeed_def lastn_def)

lemma fill_from_filterset_message:
  assumes "fd_wf (fs_fdata fs)"
  obtains m ps n where "fill_from_filterset fs seqnum filtersetcons_clear = Inr m"
    "ps = dropWhile (\<lambda>p. \<not> seqnum < fst p) (fd_points (fs_fdata fs))" "n = length ps"
    "fsc_diff_seqnum m = concat (map (le_bytes 4) (map fst ps))"
    "fsc_diff_time m = concat (map (le_bytes 4) (map snd ps))"
    "fsc_filters m = map (\<lambda>f. \<lparr>fc_id = m_id f, fc_sent = cnt (cnt_sent f), fc_recv = cnt (cnt_recv f),
        fc_speed = speed_bytes (lastn n (filter_speeds (fs_fdata fs) f))\<rparr>) (fs_filters fs)"
proof -
  let ?fd = "fs_fdata fs"
  obtain s0 last_index where sl: "calc_start_last_index (total_points ?fd) (next_point ?fd) 0 = (s0, last_index)"
    by fastforce
  then have b: "s0 \<le> last_index" "last_index - s0 \<le> MAXVALUES"
    by (auto simp: calc_start_last_index_def split: if_splits)
  let ?r = "fd_clear\<lparr>total_points := total_points ?fd, next_point := next_point ?fd, next_seqnum := next_seqnum ?fd\<rparr>"
  have rl: "length (seqnum_array ?r) = MAXVALUES" "length (time_array ?r) = MAXVALUES" by (simp_all add: fd_clear_def)
  obtain n start r where d: "create_diff_loop ?fd seqnum last_index [s0 ..< last_index] ?r = Inr (n, start, r)"
    "map (fd_slot r) [0 ..< n] = dropWhile (\<lambda>p. \<not> seqnum < fst p) (map (fd_point ?fd) [s0 ..< last_index])"
    "n \<le> MAXVALUES"
    using create_diff_loop_window [OF rl b, of ?fd seqnum] by blast
  let ?ps = "map (fd_slot r) [0 ..< n]"
  have ps: "?ps = dropWhile (\<lambda>p. \<not> seqnum < fst p) (fd_points ?fd)"
    using d(2) by (simp add: fd_points_window sl)
  have len: "length (seqnum_array r) = MAXVALUES" "length (time_array r) = MAXVALUES"
    using create_diff_loop_lengths [OF d(1)] rl by simp_all
  have arr: "take n (seqnum_array r) = map fst ?ps" "take n (time_array r) = map snd ?ps"
    using d(3) len by (auto simp: fd_slot_def intro!: nth_equalityI)
  have sel: "select_diffspeed (of_nat n) (of_nat start) f = lastn n (filter_speeds ?fd f)" for f
    by (rule select_speeds [OF sl assms create_diff_loop_start [OF b(1) d(1)]])
  have "create_diff ?fd seqnum fd_clear = Inr (n, start, r)" using d(1) by (simp add: create_diff_def sl Let_def)
  then obtain m where "fill_from_filterset fs seqnum filtersetcons_clear = Inr m"
    and m: "fsc_diff_seqnum m = concat (map (le_bytes 4) (map fst ?ps))"
      "fsc_diff_time m = concat (map (le_bytes 4) (map snd ?ps))"
      "fsc_filters m = map (filter_message (of_nat n) (of_nat start)) (fs_filters fs)"
    by (simp add: fill_from_filterset_def array_bytes_def arr blob_set_def filtersetcons_clear_def del: map_map)
  then show ?thesis
    by (intro that [of m ?ps n, OF _ ps _ m(1,2)]) (simp_all add: filter_message_def blob_set_def sel get_cnt_def)
qed

section \<open>What the console changes\<close>

lemma apply_filtercons_same [simp]: "m_id (apply_filtercons np c f) = m_id f"
  by (simp add: apply_filtercons_def apply_diffspeed_def apply_diff_loop_same Let_def)

text \<open>
  With distinct identifiers the two ways of finding a filter agree: each entry of the message
  changes the filter with its identifier.
\<close>

definition apply_entry :: "u32 \<Rightarrow> filtercons \<Rightarrow> filter2 \<Rightarrow> filter2" where
  "apply_entry np c f = (if m_id f = fc_id c then apply_filtercons np c f else f)"

lemma apply_filters_fold:
  assumes "distinct (map m_id fs)"
  shows "apply_filters np cs plain_mode k fs = map (fold (apply_entry np) cs) fs"
  using assms
proof (induction cs arbitrary: plain_mode k fs)
  case (Cons c cs)
  have ids: "map m_id (map (apply_entry np c) fs) = map m_id fs" by (simp add: apply_entry_def)
  have upd: "fs[j := apply_filtercons np c (fs ! j)] = map (apply_entry np c) fs"
    if "j < length fs" "m_id (fs ! j) = fc_id c" for j
    using update_by_id [OF Cons.prems that(1), of "apply_filtercons np c"] that(2) by (simp add: apply_entry_def)
  have IH: "apply_filters np cs pm i (map (apply_entry np c) fs) = map (fold (apply_entry np) (c # cs)) fs" for pm i
  proof -
    have "distinct (map m_id (map (apply_entry np c) fs))" unfolding ids by (rule Cons.prems)
    from Cons.IH [OF this, of pm i] show ?thesis by simp
  qed
  show ?case
  proof (cases "findptr_by_id (filterlist_class 0 0) (fc_id c) fs")
    case None
    then have none: "fc_id c \<notin> m_id ` set fs" by (simp add: findptr_None filterlist_class_def)
    then have "map (apply_entry np c) fs = fs" by (intro map_idI) (metis apply_entry_def imageI)
    moreover have "\<not> (k < length fs \<and> m_id (fs ! k) = fc_id c)" using none by (metis image_eqI nth_mem)
    ultimately show ?thesis using None IH [of False k] by auto
  next
    case (Some j)
    then have "j < length fs" "m_id (fs ! j) = fc_id c"
      using findptr_Some [OF Some] by (simp_all add: filterlist_class_def)
    then show ?thesis using Some upd IH [of False k] IH [of True "Suc k"] by auto
  qed
qed simp

lemma fold_apply_entry:
  assumes "distinct (map fc_id cs)"
  shows "fold (apply_entry np) cs f =
    (case find (\<lambda>c. fc_id c = m_id f) cs of None \<Rightarrow> f | Some c \<Rightarrow> apply_filtercons np c f)"
  using fold_by_key [of fc_id cs m_id "apply_filtercons np" f] assms by (simp add: apply_entry_def [abs_def])

lemma apply_filtercons_speeds:
  assumes "fd_wf fd" and "speeds_wf f" and "length ds = length ps" and "goto_points ps fd = Some fd'"
    and "length ds \<le> MAXVALUES" and "fc_speed c = speed_bytes ds"
  shows "filter_speeds fd' (apply_filtercons (next_point fd) c f) = lastn MAXVALUES (filter_speeds fd f @ ds)
    \<and> speeds_wf (apply_filtercons (next_point fd) c f)
    \<and> cnt (cnt_sent (apply_filtercons (next_point fd) c f)) = fc_sent c
    \<and> cnt (cnt_recv (apply_filtercons (next_point fd) c f)) = fc_recv c"
proof -
  let ?f = "f\<lparr>cnt_recv := set_cnt (fc_recv c) (cnt_recv f), cnt_sent := set_cnt (fc_sent c) (cnt_sent f)\<rparr>"
  have wf: "speeds_wf ?f" using assms(2) by (simp add: speeds_wf_def set_cnt_def)
  have n: "unat (next_point fd) < MAXVALUES" using assms(1) by (simp add: fd_wf_def)
  have "filter_speeds fd' (apply_diff_loop ds (next_point fd) ?f) = lastn MAXVALUES (filter_speeds fd ?f @ ds)"
    by (rule apply_diff_loop_window [OF assms(1) wf assms(3,4)]) (use n assms(5) in \<open>simp_all add: utm_consts\<close>)
  moreover have "filter_speeds fd ?f = filter_speeds fd f" by (simp add: filter_speeds_def set_cnt_def)
  moreover have "speeds_wf (apply_diff_loop ds (next_point fd) ?f)" by (simp add: apply_diff_loop_same wf)
  ultimately show ?thesis
    by (cases "ds = []")
      (simp_all add: apply_filtercons_def apply_diffspeed_def assms(6) diff_speeds_bytes Let_def filter_speeds_def
        speeds_wf_def apply_diff_loop_same set_cnt_def)
qed

section \<open>A console follows its server\<close>

text \<open>
  The history of a server: the points \<open>P\<close> with their ascending sequence numbers, and the speeds
  of each filter at them. A filter set shows its first \<open>k\<close> points when its ring and the ring
  of every filter hold the last \<open>MAXVALUES\<close> of them.
\<close>

definition history :: "(u32 \<times> u32) list \<Rightarrow> (u32 \<Rightarrow> (u16 \<times> u16) list) \<Rightarrow> bool" where
  "history P S \<longleftrightarrow> sorted_wrt (<) (0 # map fst P) \<and> (\<forall>p \<in> set P. fst p < 0xFFFFFFFF) \<and> (\<forall>i. length (S i) = length P)"

definition seq_at :: "(u32 \<times> u32) list \<Rightarrow> nat \<Rightarrow> u32" where
  "seq_at P k = (if k = 0 then 0 else fst (P ! (k - 1)))"

definition shows_history :: "(u32 \<times> u32) list \<Rightarrow> (u32 \<Rightarrow> (u16 \<times> u16) list) \<Rightarrow> nat \<Rightarrow> filterset \<Rightarrow> bool" where
  "shows_history P S k fs \<longleftrightarrow> fd_wf (fs_fdata fs)
     \<and> fd_points (fs_fdata fs) = lastn MAXVALUES (take k P)
     \<and> get_current_seqnum (fs_fdata fs) = seq_at P k
     \<and> (\<forall>f \<in> set (fs_filters fs). speeds_wf f
          \<and> filter_speeds (fs_fdata fs) f = lastn MAXVALUES (take k (S (m_id f))))"

lemma dropWhile_drop:
  assumes "\<And>i. i < k \<Longrightarrow> i < length xs \<Longrightarrow> Q (xs ! i)" and "\<And>i. k \<le> i \<Longrightarrow> i < length xs \<Longrightarrow> \<not> Q (xs ! i)"
  shows "dropWhile Q (drop j xs) = drop (max j k) xs"
proof -
  have head: "dropWhile Q (drop i xs) = drop i xs" if "k \<le> i" for i
    using assms(2) [OF that] by (cases "i < length xs") (simp_all add: Cons_nth_drop_Suc [symmetric])
  show ?thesis
  proof (cases "j \<le> k")
    case True
    have "drop j xs = take (k - j) (drop j xs) @ drop k xs"
      using True by (metis append_take_drop_id drop_drop le_add_diff_inverse2)
    moreover have "\<forall>x \<in> set (take (k - j) (drop j xs)). Q x"
      using assms(1) by (auto simp: in_set_conv_nth)
    ultimately have "dropWhile Q (drop j xs) = dropWhile Q (drop k xs)" by (metis dropWhile_append2)
    then show ?thesis using head [of k] True by (simp add: max_absorb2)
  qed (use head [of j] in simp)
qed

lemma seq_at_less:
  assumes "history P S" and "k \<le> length P" and "i < length P"
  shows "seq_at P k < fst (P ! i) \<longleftrightarrow> k \<le> i"
proof -
  have s: "\<And>i j. i < j \<Longrightarrow> j < length P \<Longrightarrow> fst (P ! i) < fst (P ! j)" and pos: "\<And>i. i < length P \<Longrightarrow> 0 < fst (P ! i)"
    using assms(1) sorted_wrt_nth_less [of "(<)" "map fst P"] by (simp_all add: history_def)
  show ?thesis
  proof (cases "k = 0")
    case False
    then have k: "k - 1 < length P" using assms(2) by simp
    consider "i < k - 1" | "i = k - 1" | "k - 1 < i" by linarith
    then show ?thesis
    proof cases
      case 1
      then have "\<not> fst (P ! (k - 1)) < fst (P ! i)" using s [OF 1 k] by (metis order_less_asym)
      then show ?thesis using 1 False by (simp add: seq_at_def)
    next
      case 2
      then show ?thesis using False by (simp add: seq_at_def)
    next
      case 3
      then show ?thesis using s [OF 3 assms(3)] False by (simp add: seq_at_def)
    qed
  qed (simp add: seq_at_def pos assms(3))
qed

text \<open>The points the console lacks are the last ones of the server's window.\<close>

lemma missing_points:
  assumes "history P S" and "k \<le> length P"
  shows "dropWhile (\<lambda>p. \<not> seq_at P k < fst p) (lastn m P) = lastn (min m (length P - k)) P"
proof -
  have "dropWhile (\<lambda>p. \<not> seq_at P k < fst p) (lastn m P) = drop (max (length P - m) k) P"
    unfolding lastn_def by (rule dropWhile_drop) (use seq_at_less [OF assms] in auto)
  also have "max (length P - m) k = length P - min m (length P - k)" using assms(2) by (auto simp: max_def min_def)
  finally show ?thesis by (simp add: lastn_def)
qed

lemma lastn_joined:
  assumes "k \<le> length xs"
  shows "lastn m (lastn m (take k xs) @ lastn (min m (length xs - k)) xs) = lastn m xs"
proof -
  have "lastn m (take k xs @ lastn (min m (length xs - k)) xs) = lastn m xs"
  proof (cases "length xs - k \<le> m")
    case True
    then have "lastn (min m (length xs - k)) xs = drop k xs" using assms by (simp add: lastn_def min_absorb2)
    then show ?thesis by simp
  next
    case False
    then have "length (lastn m xs) = m" by simp
    then have "lastn m (take k xs @ lastn m xs) = lastn m xs" by (simp only: lastn_def length_append) simp
    then show ?thesis using False by (simp add: min_absorb1)
  qed
  then show ?thesis by (simp add: lastn_append)
qed

lemma sync_points:
  assumes "history P S" and "k \<le> length P" and "shows_history P S (length P) srv" and "shows_history P S k con"
    and "ps = dropWhile (\<lambda>p. \<not> get_current_seqnum (fs_fdata con) < fst p) (fd_points (fs_fdata srv))"
  obtains fd where "goto_points ps (fs_fdata con) = Some fd" "fd_wf fd" "fd_points fd = lastn MAXVALUES P"
    "get_current_seqnum fd = seq_at P (length P)" "length ps = min MAXVALUES (length P - k)"
proof -
  let ?n = "min MAXVALUES (length P - k)"
  have ps: "ps = lastn ?n P"
    using assms(3-5) missing_points [OF assms(1,2)] by (simp add: shows_history_def)
  then have sub: "set ps \<subseteq> set P" using set_lastn by metis
  moreover have "\<forall>p \<in> set P. fst p \<noteq> 0" using assms(1) by (auto simp: history_def)
  ultimately have nz: "\<forall>p \<in> set ps. fst p \<noteq> 0" by blast
  have wf: "fd_wf (fs_fdata con)" using assms(4) by (simp add: shows_history_def)
  obtain fd where fd: "goto_points ps (fs_fdata con) = Some fd" "fd_wf fd"
    "fd_points fd = lastn MAXVALUES (fd_points (fs_fdata con) @ ps)"
    "next_seqnum fd = (if ps = [] then next_seqnum (fs_fdata con) else fst (last ps) + 1)"
    using goto_points_window [OF wf nz] by blast
  have "fd_points fd = lastn MAXVALUES P"
    using fd(3) assms(4) lastn_joined [OF assms(2)] by (simp add: shows_history_def ps)
  moreover have len: "length ps = ?n" by (simp add: ps)
  moreover have "get_current_seqnum fd = seq_at P (length P)"
  proof (cases "ps = []")
    case True
    then have "k = length P" using len assms(2) MAXVALUES_pos by simp
    moreover have "get_current_seqnum fd = get_current_seqnum (fs_fdata con)"
      using True fd(4) by (simp add: get_current_seqnum_def)
    ultimately show ?thesis using assms(4) by (simp add: shows_history_def)
  next
    case False
    then have "P \<noteq> []" "last ps = last P" by (auto simp: ps lastn_def)
    then have "seq_at P (length P) = fst (last ps)" "fst (last ps) < 0xFFFFFFFF"
      using assms(1) by (auto simp: seq_at_def last_conv_nth history_def)
    moreover have "(- 1 :: u32) = 0xFFFFFFFF" by simp
    then have "fst (last ps) + 1 \<noteq> 0" using calculation(2) by (metis add_eq_0_iff2 order_less_irrefl)
    ultimately show ?thesis using False fd(4) by (simp add: get_current_seqnum_def)
  qed
  ultimately show ?thesis using that fd(1,2) by blast
qed

text \<open>One filter of the console after the sync.\<close>

lemma synced_filter:
  assumes "history P S" and "k \<le> length P" and "shows_history P S (length P) srv" and "shows_history P S k con"
    and wf: "fd_wf (fs_fdata con)" and f: "f \<in> set (fs_filters con)" and g: "g \<in> set (fs_filters srv)" "m_id g = m_id f"
    and ps: "goto_points ps (fs_fdata con) = Some fd" "length ps = min MAXVALUES (length P - k)"
    and c: "c = \<lparr>fc_id = m_id g, fc_sent = cnt (cnt_sent g), fc_recv = cnt (cnt_recv g),
        fc_speed = speed_bytes (lastn (length ps) (filter_speeds (fs_fdata srv) g))\<rparr>"
  shows "filter_speeds fd (apply_filtercons (next_point (fs_fdata con)) c f) = lastn MAXVALUES (S (m_id f))
    \<and> speeds_wf (apply_filtercons (next_point (fs_fdata con)) c f)
    \<and> cnt (cnt_sent (apply_filtercons (next_point (fs_fdata con)) c f)) = cnt (cnt_sent g)
    \<and> cnt (cnt_recv (apply_filtercons (next_point (fs_fdata con)) c f)) = cnt (cnt_recv g)"
proof -
  let ?S = "S (m_id f)" and ?ds = "lastn (length ps) (filter_speeds (fs_fdata srv) g)"
  have len: "length ?S = length P" using assms(1) by (simp add: history_def)
  have "filter_speeds (fs_fdata srv) g = lastn MAXVALUES ?S"
    using assms(3) g len by (auto simp: shows_history_def)
  then have ds: "?ds = lastn (min MAXVALUES (length ?S - k)) ?S" "length ?ds = length ps"
    using ps(2) len by (simp_all add: lastn_def max_def min_def)
  have sf: "filter_speeds (fs_fdata con) f = lastn MAXVALUES (take k ?S)" "speeds_wf f"
    using assms(4) f by (auto simp: shows_history_def)
  show ?thesis
    using apply_filtercons_speeds [OF wf sf(2) ds(2) ps(1), of c] ds ps(2)
      lastn_joined [of k ?S MAXVALUES] len assms(2) by (simp add: sf(1) c)
qed

text \<open>Every filter the message names is changed by its entry.\<close>

lemma entry_applied:
  assumes "distinct (map m_id gs)" and "m_id f \<in> m_id ` set gs" and "\<And>g. fc_id (h g) = m_id g"
  shows "\<exists>g \<in> set gs. m_id g = m_id f \<and> fold (apply_entry np) (map h gs) f = apply_filtercons np (h g) f"
proof -
  have "distinct (map fc_id (map h gs))" using assms(1,3) by (simp add: comp_def)
  moreover have "find (\<lambda>g. m_id g = m_id f) gs \<noteq> None"
    using assms(2) unfolding find_None_iff by (metis image_iff)
  then obtain g where g: "find (\<lambda>g. m_id g = m_id f) gs = Some g" by blast
  then have "find (\<lambda>c. fc_id c = m_id f) (map h gs) = Some (h g)"
    using find_map_key [of fc_id h m_id "m_id f" gs] assms(3) by simp
  ultimately show ?thesis using g by (auto simp: fold_apply_entry dest!: find_Some_set)
qed

text \<open>
  C33: a console follows its server. Let the server show all points of its history, and the console
  the first of them, with the same filters (possibly in another order). The message the server
  fills for the console's last sequence number is never refused, is read back unchanged from its
  XML, and after applying it the console shows the same points and the same speeds of every
  filter as the server, has its byte counters, and asks for the points after the last one.
\<close>

theorem console_follows_server:
  assumes "history P S" and "k \<le> length P" and "shows_history P S (length P) srv" and "shows_history P S k con"
    and "distinct (map m_id (fs_filters srv))" and "distinct (map m_id (fs_filters con))"
    and "m_id ` set (fs_filters con) \<subseteq> m_id ` set (fs_filters srv)" and "0 \<notin> m_id ` set (fs_filters srv)"
  shows "\<exists>m con'. fill_from_filterset srv (get_current_seqnum (fs_fdata con)) filtersetcons_clear = Inr m
    \<and> xml_parse_node filtersetcons_xml (filtersetcons_xml_create m) False y = Some m
    \<and> apply_to_filterset m con = Some con' \<and> shows_history P S (length P) con'
    \<and> map m_id (fs_filters con') = map m_id (fs_filters con)
    \<and> (\<forall>f \<in> set (fs_filters con'). \<exists>g \<in> set (fs_filters srv). m_id g = m_id f
         \<and> cnt (cnt_sent f) = cnt (cnt_sent g) \<and> cnt (cnt_recv f) = cnt (cnt_recv g))"
proof -
  let ?fd = "fs_fdata con"
  have wf: "fd_wf (fs_fdata srv)" "fd_wf ?fd" using assms(3,4) by (simp_all add: shows_history_def)
  obtain m ps n where m: "fill_from_filterset srv (get_current_seqnum ?fd) filtersetcons_clear = Inr m"
    and ps: "ps = dropWhile (\<lambda>p. \<not> get_current_seqnum ?fd < fst p) (fd_points (fs_fdata srv))" "n = length ps"
    and mp: "fsc_diff_seqnum m = concat (map (le_bytes 4) (map fst ps))"
      "fsc_diff_time m = concat (map (le_bytes 4) (map snd ps))"
    and mf: "fsc_filters m = map (\<lambda>f. \<lparr>fc_id = m_id f, fc_sent = cnt (cnt_sent f), fc_recv = cnt (cnt_recv f),
        fc_speed = speed_bytes (lastn n (filter_speeds (fs_fdata srv) f))\<rparr>) (fs_filters srv)"
      (is "_ = map ?h _")
    by (rule fill_from_filterset_message [OF wf(1)])
  obtain fd where fd: "goto_points ps ?fd = Some fd" "fd_wf fd" "fd_points fd = lastn MAXVALUES P"
    "get_current_seqnum fd = seq_at P (length P)" "length ps = min MAXVALUES (length P - k)"
    by (rule sync_points [OF assms(1-4) ps(1)])
  have xml: "xml_parse_node filtersetcons_xml (filtersetcons_xml_create m) False y = Some m"
    by (rule filtersetcons_parse) (use assms(8) in \<open>auto simp: filtersetcons_ok_def mf\<close>)
  have "apply_points (fsc_diff_time m) (fsc_diff_seqnum m) [0 ..< length ps] ?fd = Some fd"
    using apply_points_goto [of 0 ps ?fd] fd(1) by (simp add: mp)
  moreover have "length (fsc_diff_seqnum m) div 4 = length ps" unfolding mp length_words by simp
  ultimately have app: "apply_to_filterset m con = Some (con\<lparr>fs_fdata := fd,
      fs_filters := map (fold (apply_entry (next_point ?fd)) (fsc_filters m)) (fs_filters con)\<rparr>)" (is "_ = Some ?con")
    by (simp add: apply_to_filterset_def apply_filters_fold [OF assms(6)] Let_def)
  have upd: "\<exists>g \<in> set (fs_filters srv). m_id g = m_id f \<and> fold (apply_entry (next_point ?fd)) (fsc_filters m) f
      = apply_filtercons (next_point ?fd) (?h g) f" if f: "f \<in> set (fs_filters con)" for f
    unfolding mf by (rule entry_applied [OF assms(5)]) (use f assms(7) in auto)
  have all: "\<exists>f \<in> set (fs_filters con). \<exists>g \<in> set (fs_filters srv). m_id g = m_id f
      \<and> f' = apply_filtercons (next_point ?fd) (?h g) f" if "f' \<in> set (fs_filters ?con)" for f'
    using that upd by fastforce
  have ids: "map m_id (fs_filters ?con) = map m_id (fs_filters con)"
    using upd by fastforce
  have new: "speeds_wf f' \<and> filter_speeds fd f' = lastn MAXVALUES (take (length P) (S (m_id f')))
      \<and> (\<exists>g \<in> set (fs_filters srv). m_id g = m_id f' \<and> cnt (cnt_sent f') = cnt (cnt_sent g) \<and> cnt (cnt_recv f') = cnt (cnt_recv g))"
    if f': "f' \<in> set (fs_filters ?con)" for f'
  proof -
    obtain f g where fg: "f \<in> set (fs_filters con)" "g \<in> set (fs_filters srv)" "m_id g = m_id f"
      "f' = apply_filtercons (next_point ?fd) (?h g) f"
      using all [OF f'] by blast
    have "length (S (m_id f)) = length P" using assms(1) by (simp add: history_def)
    then show ?thesis
      using synced_filter [OF assms(1-4) wf(2) fg(1-3) fd(1,5) refl] fg(2-4) by (auto simp: ps(2))
  qed
  then have "shows_history P S (length P) ?con"
    unfolding shows_history_def using fd(2-4) by simp
  moreover have "\<forall>f \<in> set (fs_filters ?con). \<exists>g \<in> set (fs_filters srv). m_id g = m_id f
         \<and> cnt (cnt_sent f) = cnt (cnt_sent g) \<and> cnt (cnt_recv f) = cnt (cnt_recv g)"
    using new by blast
  ultimately show ?thesis using m xml app ids by blast
qed

definition ex_speeds_filter :: filter2 where
  "ex_speeds_filter = (ex_set_filter 4 5000)\<lparr>cnt_sent := (filtercnt_new 0)\<lparr>cnt := 5000,
     cnt_set := (replicate MAXVALUES 0)[0 := 5, 1 := 6, 2 := 7]\<rparr>\<rparr>"

definition ex_server :: filterset where
  "ex_server = (ex_filterset [ex_speeds_filter])\<lparr>fs_fdata := ex_fd\<rparr>"

lemma ex_server_simps:
  "fs_fdata ex_server = ex_fd" "fs_filters ex_server = [ex_speeds_filter]" "m_id ex_speeds_filter = 4"
  "fs_fdata (ex_filterset fs) = fd_clear" "fs_filters (ex_filterset fs) = fs" "cnt (cnt_sent ex_speeds_filter) = 5000"
  by (simp_all add: ex_server_def ex_filterset_def filterset_clear_def ex_speeds_filter_def ex_set_filter_simps)

lemma ex_server_history:
  defines "P \<equiv> [(1, 1001), (2, 1002), (3, 1003)]" and "S \<equiv> \<lambda>i. [(5, 0), (6, 0), (7, 0)]"
  shows "history P S" "shows_history P S 3 ex_server" "shows_history P S 0 (ex_filterset [ex_set_filter 4 0])"
proof -
  show "history P S" by (simp add: P_def S_def history_def)
  have "[0 ..< 3] = [0, 1, 2 :: nat]" by (simp add: eval_nat_numeral)
  then have r: "ring_points ex_fd g = [g 0, g 1, g 2]" for g :: "nat \<Rightarrow> 'a"
    by (simp add: ring_points_def calc_start_last_index_def ex_fd_def utm_consts)
  have "fd_wf ex_fd" by (simp add: fd_wf_def ex_fd_def fd_clear_def utm_consts)
  moreover have "fd_points ex_fd = P"
    unfolding fd_points_def r by (simp add: P_def fd_slot_def ex_fd_def fd_clear_def utm_consts)
  moreover have "get_current_seqnum ex_fd = 3" by (simp add: get_current_seqnum_def ex_fd_def)
  moreover have "speeds_wf ex_speeds_filter" "filter_speeds ex_fd ex_speeds_filter = [(5, 0), (6, 0), (7, 0)]"
    by (simp_all add: speeds_wf_def filter_speeds_def r ex_speeds_filter_def ex_set_filter_def filter2_new_def
        filter_base_clear_def filtercnt_new_def cnt_reset_def utm_consts)
  ultimately show "shows_history P S 3 ex_server"
    by (simp add: shows_history_def ex_server_simps seq_at_def P_def S_def lastn_def utm_consts)
  have "speeds_wf (ex_set_filter 4 0)"
    by (simp add: speeds_wf_def ex_set_filter_def filter2_new_def filter_base_clear_def filtercnt_new_def cnt_reset_def)
  then show "shows_history P S 0 (ex_filterset [ex_set_filter 4 0])"
    using fd_clear_wf by (simp add: shows_history_def ex_server_simps seq_at_def lastn_def get_current_seqnum_def
        filter_speeds_def ring_points_def calc_start_last_index_def fd_clear_def utm_consts)
qed

theorem console_follows_server_witness:
  "\<exists>m con'. fill_from_filterset ex_server 0 filtersetcons_clear = Inr m
    \<and> apply_to_filterset m (ex_filterset [ex_set_filter 4 0]) = Some con'
    \<and> fd_points (fs_fdata con') = [(1, 1001), (2, 1002), (3, 1003)]
    \<and> (\<forall>f \<in> set (fs_filters con'). cnt (cnt_sent f) = 5000)"
proof -
  have c: "get_current_seqnum (fs_fdata (ex_filterset [ex_set_filter 4 0])) = 0"
    by (simp add: get_current_seqnum_def fd_clear_def ex_server_simps)
  have "shows_history [(1, 1001), (2, 1002), (3, 1003)] (\<lambda>i. [(5, 0), (6, 0), (7, 0)])
      (length [(1 :: u32, 1001 :: u32), (2, 1002), (3, 1003)]) ex_server"
    using ex_server_history(2) by (simp add: numeral_3_eq_3)
  from console_follows_server [OF ex_server_history(1) _ this ex_server_history(3), where y = filtersetcons_clear]
  obtain m con' where m: "fill_from_filterset ex_server 0 filtersetcons_clear = Inr m"
    "apply_to_filterset m (ex_filterset [ex_set_filter 4 0]) = Some con'"
    and h: "shows_history [(1, 1001), (2, 1002), (3, 1003)] (\<lambda>i. [(5, 0), (6, 0), (7, 0)])
      (length [(1 :: u32, 1001 :: u32), (2, 1002), (3, 1003)]) con'"
    and f: "\<forall>f \<in> set (fs_filters con'). \<exists>g \<in> set (fs_filters ex_server). m_id g = m_id f
         \<and> cnt (cnt_sent f) = cnt (cnt_sent g) \<and> cnt (cnt_recv f) = cnt (cnt_recv g)"
    unfolding c by (auto simp: ex_server_simps ex_set_filter_simps)
  have "fd_points (fs_fdata con') = [(1, 1001), (2, 1002), (3, 1003)]"
    using h by (simp add: shows_history_def lastn_all utm_consts)
  moreover have "\<forall>f \<in> set (fs_filters con'). cnt (cnt_sent f) = 5000"
    using f by (simp add: ex_server_simps)
  ultimately show ?thesis using m by blast
qed

end
