(* ===== verification/FilterSetState.thy ===== *)
theory FilterSetState
  imports FilterSetCons
begin

text \<open>
  \<open>corefilters/filterstate*.{h,cpp}\<close>, \<open>filtersetstate*.{h,cpp}\<close>: the counters of the filters
  saved to a file and restored after a restart. \<open>timet\<close> is \<open>boost::posix_time::time_from_string\<close>
  and \<open>lexical\<close> is \<open>boost::lexical_cast\<close> (\<open>None\<close> for an exception); \<open>localtime\<close> and \<open>mktime\<close>
  are those of the C library, with the flag of daylight saving time.
\<close>

section \<open>States\<close>

record filterstate =
  st_filter_id :: u32
  st_filter_name :: string
  st_bytes_sent :: i64
  st_bytes_recv :: i64
  st_limflags :: u16
  st_lastreset :: utime

definition filterstate_clear :: filterstate where
  "filterstate_clear = \<lparr>st_filter_id = 0, st_filter_name = [], st_bytes_sent = 0, st_bytes_recv = 0,
     st_limflags = 0, st_lastreset = ut_clear\<rparr>"

definition filterstate_eq :: "filterstate \<Rightarrow> filterstate \<Rightarrow> bool" where
  "filterstate_eq a b \<longleftrightarrow> st_filter_id a = st_filter_id b \<and> st_filter_name a = st_filter_name b
     \<and> st_bytes_sent a = st_bytes_sent b \<and> st_bytes_recv a = st_bytes_recv b
     \<and> st_limflags a = st_limflags b \<and> st_lastreset a = st_lastreset b"

text \<open>\<open>operator<<\<close> of a \<open>utime\<close>.\<close>

definition time_text :: "utime \<Rightarrow> string" where "time_text t = ut_to_string format_log None t"

definition filterstate_nodes :: "filterstate \<Rightarrow> xml list" where
  "filterstate_nodes x =
     (let orig = filterstate_clear in
       xml_append_value ''Id'' out_unsigned (st_filter_id x) (st_filter_id orig)
     @ xml_append_value ''Name'' id (st_filter_name x) (st_filter_name orig)
     @ xml_append_value ''Sent'' out_signed (st_bytes_sent x) (st_bytes_sent orig)
     @ xml_append_value ''Recv'' out_signed (st_bytes_recv x) (st_bytes_recv orig)
     @ xml_append_value ''LimFlags'' out_unsigned (st_limflags x) (st_limflags orig)
     @ xml_append_value ''LastReset'' time_text (st_lastreset x) (st_lastreset orig))"

definition filterstate_xml_create :: "filterstate \<Rightarrow> xml" where
  "filterstate_xml_create x = Elem ''Filter'' [] (filterstate_nodes x)"

definition filterstate_xml_catch_value ::
  "(string \<Rightarrow> utime option) \<Rightarrow> string \<Rightarrow> string \<Rightarrow> filterstate \<Rightarrow> filterstate option"
where
  "filterstate_xml_catch_value timet keyname v x =
     (if keyname = ''Id'' then Some (x\<lparr>st_filter_id := parse_unsigned v\<rparr>)
      else if keyname = ''Name'' then Some (x\<lparr>st_filter_name := v\<rparr>)
      else if keyname = ''Sent'' then Some (x\<lparr>st_bytes_sent := parse_signed v\<rparr>)
      else if keyname = ''Recv'' then Some (x\<lparr>st_bytes_recv := parse_signed v\<rparr>)
      else if keyname = ''LimFlags'' then Some (x\<lparr>st_limflags := parse_unsigned v\<rparr>)
      else if keyname = ''LastReset'' then map_option (\<lambda>t. x\<lparr>st_lastreset := t\<rparr>) (timet v)
      else Some x)"

definition filterstate_xml :: "(string \<Rightarrow> utime option) \<Rightarrow> filterstate xml_class" where
  "filterstate_xml timet = \<lparr>xc_clear = (\<lambda>x. filterstate_clear), xc_create = filterstate_xml_create,
     xc_value = filterstate_xml_catch_value timet, xc_subnode = (\<lambda>k n x. Some x)\<rparr>"

text \<open>\<open>_strnicmp(attrname, "Id", 2)\<close> looks at the first two characters only, in any case.\<close>

definition filterstate_attribute :: "(string \<Rightarrow> u32 option) \<Rightarrow> string \<Rightarrow> string \<Rightarrow> filterstate \<Rightarrow> filterstate option" where
  "filterstate_attribute lexical attrname v x =
     (if take 2 attrname \<in> {''Id'', ''ID'', ''id'', ''iD''}
      then map_option (\<lambda>i. x\<lparr>st_filter_id := i\<rparr>) (lexical v) else Some x)"

fun filterstate_attributes :: "(string \<Rightarrow> u32 option) \<Rightarrow> (string \<times> string) list \<Rightarrow> filterstate \<Rightarrow> filterstate option" where
  "filterstate_attributes lexical [] x = Some x"
| "filterstate_attributes lexical ((k, v) # as) x =
     Option.bind (filterstate_attribute lexical k v x) (filterstate_attributes lexical as)"

definition filterstatelist_class :: "filterstate ubl_class" where
  "filterstatelist_class = \<lparr>ubl_get_id = st_filter_id, ubl_set_id = (\<lambda>i s. s\<lparr>st_filter_id := i\<rparr>),
     ubl_get_name = st_filter_name, ubl_default = filterstate_clear, ubl_item_clear = (\<lambda>s. filterstate_clear),
     ubl_eq = filterstate_eq, ubl_protected = False\<rparr>"

definition filterstatelist_xml :: "(string \<Rightarrow> utime option) \<Rightarrow> filterstate list xml_class" where
  "filterstatelist_xml timet = xml_list_class ''TrafficCountersFakeRootNode'' ''Filter'' (filterstate_xml timet) filterstate_clear"

interpretation filterstatelist: ubl_element filterstatelist_class
  by unfold_locales (simp add: filterstatelist_class_def)

record filtersetstate =
  ss_comment :: string
  ss_filtersetfile :: string
  ss_filterstates :: "filterstate list"
  ss_lastmodified :: utime

definition filtersetstate_clear :: filtersetstate where
  "filtersetstate_clear = \<lparr>ss_comment = [], ss_filtersetfile = [], ss_filterstates = [], ss_lastmodified = ut_clear\<rparr>"

definition filtersetstate_eq :: "filtersetstate \<Rightarrow> filtersetstate \<Rightarrow> bool" where
  "filtersetstate_eq a b \<longleftrightarrow> ss_comment a = ss_comment b \<and> ss_filtersetfile a = ss_filtersetfile b
     \<and> list_all2 filterstate_eq (ss_filterstates a) (ss_filterstates b) \<and> ss_lastmodified a = ss_lastmodified b"

definition filtersetstate_nodes :: "(string \<Rightarrow> utime option) \<Rightarrow> filtersetstate \<Rightarrow> xml list" where
  "filtersetstate_nodes timet x =
     (let orig = filtersetstate_clear in
       xml_append_value ''Comment'' id (ss_comment x) (ss_comment orig)
     @ xml_append_value ''FiltersetFile'' id (ss_filtersetfile x) (ss_filtersetfile orig)
     @ xml_append_list (filterstate_xml timet) (ss_filterstates x)
     @ xml_append_value ''LastModification'' time_text (ss_lastmodified x) (ss_lastmodified orig))"

definition filtersetstate_xml_create :: "(string \<Rightarrow> utime option) \<Rightarrow> filtersetstate \<Rightarrow> xml" where
  "filtersetstate_xml_create timet x = Elem ''TrafficCounters'' [] (filtersetstate_nodes timet x)"

definition filtersetstate_xml_catch_value ::
  "(string \<Rightarrow> utime option) \<Rightarrow> string \<Rightarrow> string \<Rightarrow> filtersetstate \<Rightarrow> filtersetstate option"
where
  "filtersetstate_xml_catch_value timet keyname v x =
     (if keyname = ''Comment'' then Some (x\<lparr>ss_comment := v\<rparr>)
      else if keyname = ''FiltersetFile'' then Some (x\<lparr>ss_filtersetfile := v\<rparr>)
      else if keyname = ''Filter'' then Some x
      else if keyname = ''LastModification'' then map_option (\<lambda>t. x\<lparr>ss_lastmodified := t\<rparr>) (timet v)
      else Some x)"

definition filtersetstate_xml_subnode ::
  "(string \<Rightarrow> utime option) \<Rightarrow> (string \<Rightarrow> u32 option) \<Rightarrow> string \<Rightarrow> xml \<Rightarrow> filtersetstate \<Rightarrow> filtersetstate option"
where
  "filtersetstate_xml_subnode timet lexical keyname n x =
     (if keyname = ''Filter''
      then map_option (\<lambda>f. x\<lparr>ss_filterstates := commit_item filterstatelist_class f (ss_filterstates x)\<rparr>)
             (Option.bind (xml_parse_node (filterstate_xml timet) n False filterstate_clear)
               (filterstate_attributes lexical (node_attrs n)))
      else Some x)"

definition filtersetstate_xml :: "(string \<Rightarrow> utime option) \<Rightarrow> (string \<Rightarrow> u32 option) \<Rightarrow> filtersetstate xml_class" where
  "filtersetstate_xml timet lexical = \<lparr>xc_clear = (\<lambda>x. filtersetstate_clear), xc_create = filtersetstate_xml_create timet,
     xc_value = filtersetstate_xml_catch_value timet, xc_subnode = filtersetstate_xml_subnode timet lexical\<rparr>"

section \<open>Saving and restoring\<close>

definition state_comment :: string where
  "state_comment = ''This file contains the current traffic counters of your filterset. This is not a final report, it is just temporary file. Don't delete it or modify it!''"

definition state_of_filter :: "(int \<Rightarrow> utime \<times> int) \<Rightarrow> filter2 \<Rightarrow> filterstate" where
  "state_of_filter localtime f = \<lparr>st_filter_id = m_id f, st_filter_name = m_szFilterName f,
     st_bytes_sent = of_int (get_cnt (cnt_sent f)), st_bytes_recv = of_int (get_cnt (cnt_recv f)),
     st_limflags = m_wTrafficLimitFlags f, st_lastreset = utime_from_time_t localtime (ts (last_reset_ts f))\<rparr>"

definition create_from_filterset :: "(int \<Rightarrow> utime \<times> int) \<Rightarrow> filterset \<Rightarrow> filtersetstate" where
  "create_from_filterset localtime fs = filtersetstate_clear
     \<lparr>ss_comment := state_comment, ss_filtersetfile := fs_filterset_file fs,
      ss_filterstates := fold (\<lambda>f xs. snd (add_element filterstatelist_class (state_of_filter localtime f) 0 xs))
        (fs_filters fs) []\<rparr>"

definition restore_filter :: "(utime \<Rightarrow> int \<Rightarrow> int) \<Rightarrow> filterstate \<Rightarrow> filter2 \<Rightarrow> filter2" where
  "restore_filter mktime x f = f\<lparr>cnt_recv := set_cnt (st_bytes_recv x) (cnt_recv f),
     cnt_sent := set_cnt (st_bytes_sent x) (cnt_sent f), m_wTrafficLimitFlags := st_limflags x,
     last_reset_ts := \<lparr>ts = utime_to_time_t mktime (st_lastreset x)\<rparr>\<rparr>"

definition restore_one :: "(utime \<Rightarrow> int \<Rightarrow> int) \<Rightarrow> filterstate \<Rightarrow> filter2 list \<Rightarrow> filter2 list" where
  "restore_one mktime x fs = (case findptr_by_id (filterlist_class 0 0) (st_filter_id x) fs of
      None \<Rightarrow> fs | Some j \<Rightarrow> fs[j := restore_filter mktime x (fs ! j)])"

definition apply_state :: "(utime \<Rightarrow> int \<Rightarrow> int) \<Rightarrow> filtersetstate \<Rightarrow> filterset \<Rightarrow> filterset" where
  "apply_state mktime x fs = fs\<lparr>fs_filters := fold (restore_one mktime) (ss_filterstates x) (fs_filters fs)\<rparr>"

section \<open>States as XML\<close>

lemma time_text_xml: "xml_text (time_text t)"
  using print_u_text by (auto simp: time_text_def ut_to_string_def ut_date_def ut_clock_def zpad_def xml_text_def)

definition state_ok :: "(string \<Rightarrow> utime option) \<Rightarrow> filterstate \<Rightarrow> bool" where
  "state_ok timet x \<longleftrightarrow> CHR 0x00 \<notin> set (st_filter_name x) \<and> timet (time_text (st_lastreset x)) = Some (st_lastreset x)"

lemma filterstate_segments:
  "st_filter_id s = 0 \<Longrightarrow> xml_parse_allnodes (filterstate_xml timet) (xml_append_value ''Id'' out_unsigned u 0) s = Some (s\<lparr>st_filter_id := u\<rparr>)"
  "st_filter_name s = [] \<Longrightarrow> CHR 0x00 \<notin> set t \<Longrightarrow> xml_parse_allnodes (filterstate_xml timet) (xml_append_value ''Name'' id t []) s = Some (s\<lparr>st_filter_name := t\<rparr>)"
  "st_bytes_sent s = 0 \<Longrightarrow> xml_parse_allnodes (filterstate_xml timet) (xml_append_value ''Sent'' out_signed i 0) s = Some (s\<lparr>st_bytes_sent := i\<rparr>)"
  "st_bytes_recv s = 0 \<Longrightarrow> xml_parse_allnodes (filterstate_xml timet) (xml_append_value ''Recv'' out_signed i 0) s = Some (s\<lparr>st_bytes_recv := i\<rparr>)"
  "st_limflags s = 0 \<Longrightarrow> xml_parse_allnodes (filterstate_xml timet) (xml_append_value ''LimFlags'' out_unsigned w 0) s = Some (s\<lparr>st_limflags := w\<rparr>)"
  "st_lastreset s = ut_clear \<Longrightarrow> timet (time_text r) = Some r \<Longrightarrow>
     xml_parse_allnodes (filterstate_xml timet) (xml_append_value ''LastReset'' time_text r ut_clear) s = Some (s\<lparr>st_lastreset := r\<rparr>)"
  by (simp_all add: parse_value_if parse_text_if time_text_xml filterstate_xml_def filterstate_xml_catch_value_def)

interpretation filterstate_elem: xml_element "filterstate_xml timet" "''Filter''" "state_ok timet" for timet
proof
  show "node_name (xc_create (filterstate_xml timet) x) = ''Filter''" for x
    by (simp add: filterstate_xml_def filterstate_xml_create_def node_name_def)
  show "node_text (xc_create (filterstate_xml timet) x) = []" for x
    by (simp add: filterstate_xml_def filterstate_xml_create_def node_text_def filterstate_nodes_def Let_def find_append find_pcdata)
  have "xml_parse_allnodes (filterstate_xml timet) (filterstate_nodes x) filterstate_clear = Some x" if "state_ok timet x" for x
    using that by (cases x) (simp add: filterstate_nodes_def filterstate_clear_def parse_allnodes_append
        filterstate_segments state_ok_def Let_def)
  then show "xml_parse_node (filterstate_xml timet) (xc_create (filterstate_xml timet) x) False y = Some x"
    if "state_ok timet x" for x y
    using that by (simp add: filterstate_xml_def filterstate_xml_create_def xml_parse_node_def node_children_def)
qed

lemma commit_filterstate: "st_filter_id x \<noteq> 0 \<Longrightarrow> commit_item filterstatelist_class x xs = xs @ [x]"
  by (rule commit_item_new) (simp_all add: filterstatelist_class_def filterstate_eq_def filterstate_clear_def)

lemma states_segment:
  assumes "list_all (\<lambda>x. state_ok timet x \<and> st_filter_id x \<noteq> 0) xs"
  shows "xml_parse_allnodes (filtersetstate_xml timet lexical) (xml_append_list (filterstate_xml timet) xs) s
    = Some (s\<lparr>ss_filterstates := ss_filterstates s @ xs\<rparr>)"
  using assms
proof (induction xs arbitrary: s)
  case (Cons x xs)
  have "node_attrs (xc_create (filterstate_xml timet) x) = []"
    by (simp add: filterstate_xml_def filterstate_xml_create_def node_attrs_def)
  then show ?case
    using Cons by (simp add: xml_append_list_def filterstate_elem.create_name filterstate_elem.create_text
        filterstate_elem.create_parse filtersetstate_xml_def filtersetstate_xml_subnode_def commit_filterstate)
qed (simp add: xml_append_list_def)

lemma filtersetstate_segments:
  "ss_comment s = [] \<Longrightarrow> CHR 0x00 \<notin> set t \<Longrightarrow> xml_parse_allnodes (filtersetstate_xml timet lexical) (xml_append_value ''Comment'' id t []) s = Some (s\<lparr>ss_comment := t\<rparr>)"
  "ss_filtersetfile s = [] \<Longrightarrow> CHR 0x00 \<notin> set t \<Longrightarrow> xml_parse_allnodes (filtersetstate_xml timet lexical) (xml_append_value ''FiltersetFile'' id t []) s = Some (s\<lparr>ss_filtersetfile := t\<rparr>)"
  "ss_lastmodified s = ut_clear \<Longrightarrow> timet (time_text r) = Some r \<Longrightarrow>
     xml_parse_allnodes (filtersetstate_xml timet lexical) (xml_append_value ''LastModification'' time_text r ut_clear) s = Some (s\<lparr>ss_lastmodified := r\<rparr>)"
  by (simp_all add: parse_value_if parse_text_if time_text_xml filtersetstate_xml_def filtersetstate_xml_catch_value_def)

definition filtersetstate_ok :: "(string \<Rightarrow> utime option) \<Rightarrow> filtersetstate \<Rightarrow> bool" where
  "filtersetstate_ok timet x \<longleftrightarrow> CHR 0x00 \<notin> set (ss_comment x) \<and> CHR 0x00 \<notin> set (ss_filtersetfile x)
     \<and> list_all (\<lambda>x. state_ok timet x \<and> st_filter_id x \<noteq> 0) (ss_filterstates x)
     \<and> (ss_lastmodified x \<noteq> ut_clear \<longrightarrow> timet (time_text (ss_lastmodified x)) = Some (ss_lastmodified x))"

lemma lastmodified_segment:
  "ss_lastmodified s = ut_clear \<Longrightarrow> r \<noteq> ut_clear \<longrightarrow> timet (time_text r) = Some r \<Longrightarrow>
     xml_parse_allnodes (filtersetstate_xml timet lexical) (xml_append_value ''LastModification'' time_text r ut_clear) s = Some (s\<lparr>ss_lastmodified := r\<rparr>)"
  by (cases "r = ut_clear") (simp_all add: filtersetstate_segments, simp add: xml_append_value_def)

lemma filtersetstate_parse:
  assumes "filtersetstate_ok timet x"
  shows "xml_parse_node (filtersetstate_xml timet lexical) (filtersetstate_xml_create timet x) False y = Some x"
proof -
  have "xml_parse_allnodes (filtersetstate_xml timet lexical) (filtersetstate_nodes timet x) filtersetstate_clear = Some x"
    using assms by (cases x) (simp add: filtersetstate_nodes_def filtersetstate_clear_def parse_allnodes_append
        filtersetstate_segments(1,2) lastmodified_segment states_segment filtersetstate_ok_def Let_def)
  then show ?thesis
    by (simp add: filtersetstate_xml_def filtersetstate_xml_create_def xml_parse_node_def node_children_def)
qed

section \<open>What is restored\<close>

lemma restore_filter_id [simp]: "m_id (restore_filter mktime x f) = m_id f"
  by (simp add: restore_filter_def)

lemma restore_one_map:
  assumes "distinct (map m_id fs)"
  shows "restore_one mktime x fs = map (\<lambda>f. if m_id f = st_filter_id x then restore_filter mktime x f else f) fs"
proof (cases "findptr_by_id (filterlist_class 0 0) (st_filter_id x) fs")
  case None
  then have "st_filter_id x \<notin> m_id ` set fs" by (simp add: findptr_None filterlist_class_def)
  then have "map (\<lambda>f. if m_id f = st_filter_id x then restore_filter mktime x f else f) fs = fs"
    by (intro map_idI) (metis imageI)
  then show ?thesis using None by (simp add: restore_one_def)
next
  case (Some j)
  then have "j < length fs" "m_id (fs ! j) = st_filter_id x"
    using findptr_Some [OF Some] by (simp_all add: filterlist_class_def)
  then show ?thesis
    using Some update_by_id [OF assms, of j "restore_filter mktime x"] by (simp add: restore_one_def)
qed

lemma restore_all:
  assumes "distinct (map m_id fs)"
  shows "fold (restore_one mktime) xs fs = map (fold (\<lambda>x f. if m_id f = st_filter_id x then restore_filter mktime x f else f) xs) fs"
  using assms
proof (induction xs arbitrary: fs)
  case (Cons x xs)
  have "map m_id (restore_one mktime x fs) = map m_id fs"
    using Cons.prems by (simp add: restore_one_map)
  then have "distinct (map m_id (restore_one mktime x fs))" using Cons.prems by simp
  from Cons.IH [OF this] show ?case using Cons.prems by (simp add: restore_one_map)
qed simp

lemma add_filterstate:
  "st_filter_id x \<noteq> 0 \<Longrightarrow> snd (add_element filterstatelist_class x 0 xs) = xs @ [x]"
  by (simp add: add_element_def insert_element_def is_write_protected_def filterstatelist_class_def word_neq_0_conv Let_def)

lemma saved_states:
  assumes "0 \<notin> m_id ` set (fs_filters fs)"
  shows "ss_filterstates (create_from_filterset localtime fs) = map (state_of_filter localtime) (fs_filters fs)"
proof -
  have "fold (\<lambda>f xs. snd (add_element filterstatelist_class (state_of_filter localtime f) 0 xs)) gs xs
      = xs @ map (state_of_filter localtime) gs" if "0 \<notin> m_id ` set gs" for gs xs
    using that by (induction gs arbitrary: xs) (auto simp: add_filterstate state_of_filter_def)
  then show ?thesis using assms by (simp add: create_from_filterset_def)
qed

lemma saved_state_ok:
  assumes "0 \<notin> m_id ` set (fs_filters fs)" and "CHR 0x00 \<notin> set (fs_filterset_file fs)"
    and "\<forall>f \<in> set (fs_filters fs). state_ok timet (state_of_filter localtime f)"
  shows "filtersetstate_ok timet (create_from_filterset localtime fs)"
proof -
  have "CHR 0x00 \<notin> set state_comment" by (simp add: state_comment_def)
  moreover have "ss_comment (create_from_filterset localtime fs) = state_comment"
    "ss_filtersetfile (create_from_filterset localtime fs) = fs_filterset_file fs"
    "ss_lastmodified (create_from_filterset localtime fs) = ut_clear"
    by (simp_all add: create_from_filterset_def filtersetstate_clear_def)
  moreover have "st_filter_id (state_of_filter localtime f) \<noteq> 0" if "f \<in> set (fs_filters fs)" for f
    using that assms(1) by (auto simp: state_of_filter_def)
  ultimately show ?thesis
    using assms by (auto simp: filtersetstate_ok_def saved_states list_all_iff)
qed

section \<open>Properties\<close>

text \<open>
  C38: the counters survive a restart. The state of a filter set is read back from its XML, and applied to a
  filter set with any of the filters, in any order, it gives each of them the byte counters and the limit
  flags it had. The time of the last reset is the one it had if that was standard time; if daylight saving
  time was in force at it, it is later by the shift, since \<open>to_time_t\<close> takes every time for standard time.
  The times are assumed to obey the laws of \<open>mktime\<close> and \<open>localtime\<close>, and \<open>time_from_string\<close> to read the
  texts of these times back (in \<open>state_ok\<close>).
\<close>

theorem state_survives_restart:
  assumes "distinct (map m_id (fs_filters fs))" and "0 \<notin> m_id ` set (fs_filters fs)"
    and "distinct (map m_id (fs_filters fs'))" and "CHR 0x00 \<notin> set (fs_filterset_file fs)"
    and "\<forall>f \<in> set (fs_filters fs). state_ok timet (state_of_filter localtime f)"
    and "\<forall>f \<in> set (fs_filters fs). clock_laws bias mktime localtime (ts (last_reset_ts f))"
  shows "\<exists>x. xml_parse_node (filtersetstate_xml timet lexical)
      (filtersetstate_xml_create timet (create_from_filterset localtime fs)) False y = Some x
    \<and> map m_id (fs_filters (apply_state mktime x fs')) = map m_id (fs_filters fs')
    \<and> (\<forall>f' \<in> set (fs_filters (apply_state mktime x fs')). \<forall>f \<in> set (fs_filters fs). m_id f = m_id f' \<longrightarrow>
         cnt (cnt_sent f') = cnt (cnt_sent f) \<and> cnt (cnt_recv f') = cnt (cnt_recv f)
         \<and> m_wTrafficLimitFlags f' = m_wTrafficLimitFlags f
         \<and> ts (last_reset_ts f') = ts (last_reset_ts f) + (if snd (localtime (ts (last_reset_ts f))) = 1 then bias else 0))"
proof (intro exI conjI)
  let ?x = "create_from_filterset localtime fs" and ?st = "state_of_filter localtime"
  let ?one = "\<lambda>f'. case find (\<lambda>x. st_filter_id x = m_id f') (map ?st (fs_filters fs)) of
      None \<Rightarrow> f' | Some x \<Rightarrow> restore_filter mktime x f'"
  show "xml_parse_node (filtersetstate_xml timet lexical) (filtersetstate_xml_create timet ?x) False y = Some ?x"
    by (rule filtersetstate_parse [OF saved_state_ok [OF assms(2,4,5)]])
  have "distinct (map st_filter_id (map ?st (fs_filters fs)))"
    using assms(1) by (simp add: comp_def state_of_filter_def)
  then have app: "fs_filters (apply_state mktime ?x fs') = map ?one (fs_filters fs')"
    unfolding apply_state_def by (simp add: restore_all [OF assms(3)] saved_states [OF assms(2)] fold_by_key del: map_map)
  show "map m_id (fs_filters (apply_state mktime ?x fs')) = map m_id (fs_filters fs')"
    unfolding app by (auto split: option.splits)
  have "cnt (cnt_sent (?one g)) = cnt (cnt_sent f) \<and> cnt (cnt_recv (?one g)) = cnt (cnt_recv f)
      \<and> m_wTrafficLimitFlags (?one g) = m_wTrafficLimitFlags f
      \<and> ts (last_reset_ts (?one g)) = ts (last_reset_ts f) + (if snd (localtime (ts (last_reset_ts f))) = 1 then bias else 0)"
    if f: "f \<in> set (fs_filters fs)" "m_id f = m_id g" for f g :: filter2
  proof -
    obtain k where k: "k < length (fs_filters fs)" "fs_filters fs ! k = f" using f(1) by (auto simp: in_set_conv_nth)
    have "find (\<lambda>e. m_id e = m_id g) (fs_filters fs) = Some f"
      using find_nth_distinct [OF assms(1) k(1)] k(2) f(2) by simp
    then have "find (\<lambda>x. st_filter_id x = m_id g) (map ?st (fs_filters fs)) = Some (?st f)"
      using find_map_key [of st_filter_id ?st m_id "m_id g" "fs_filters fs"] by (simp add: state_of_filter_def)
    moreover have "clock_laws bias mktime localtime (ts (last_reset_ts f))" using assms(6) f(1) by blast
    ultimately show ?thesis
      by (simp add: restore_filter_def state_of_filter_def set_cnt_def get_cnt_def time_t_roundtrip)
  qed
  moreover have "m_id (?one g) = m_id g" for g by (simp split: option.splits)
  ultimately show "\<forall>f' \<in> set (fs_filters (apply_state mktime ?x fs')). \<forall>f \<in> set (fs_filters fs). m_id f = m_id f' \<longrightarrow>
         cnt (cnt_sent f') = cnt (cnt_sent f) \<and> cnt (cnt_recv f') = cnt (cnt_recv f)
         \<and> m_wTrafficLimitFlags f' = m_wTrafficLimitFlags f
         \<and> ts (last_reset_ts f') = ts (last_reset_ts f) + (if snd (localtime (ts (last_reset_ts f))) = 1 then bias else 0)"
    unfolding app by simp
qed

text \<open>A clock with one time in daylight saving time; its shift is an hour.\<close>

definition ex_summer :: utime where "ex_summer = ut_set 2010 7 1 12 0 0"

definition ex_localtime :: "int \<Rightarrow> utime \<times> int" where
  "ex_localtime t = (if t = 1277971200 then (ex_summer, 1) else (ut_clear, 0))"

definition ex_mktime :: "utime \<Rightarrow> int \<Rightarrow> int" where
  "ex_mktime u dst = (if u = ex_summer then 1277974800 else 946728000) - (if dst = 1 then 3600 else 0)"

definition ex_reset_filter :: filter2 where
  "ex_reset_filter = (ex_set_filter 4 5000)\<lparr>last_reset_ts := \<lparr>ts = 1277971200\<rparr>\<rparr>"

theorem state_survives_restart_witness:
  "\<exists>x. xml_parse_node (filtersetstate_xml (\<lambda>s. Some ex_summer) (\<lambda>s. None))
      (filtersetstate_xml_create (\<lambda>s. Some ex_summer) (create_from_filterset ex_localtime (ex_filterset [ex_reset_filter])))
      False filtersetstate_clear = Some x
    \<and> (\<forall>f' \<in> set (fs_filters (apply_state ex_mktime x (ex_filterset [ex_set_filter 9 7, ex_set_filter 4 0]))).
         m_id f' = 4 \<longrightarrow> cnt (cnt_sent f') = 5000 \<and> ts (last_reset_ts f') = 1277974800)"
proof -
  have "fs_filters (ex_filterset gs) = gs" "fs_filterset_file (ex_filterset gs) = []" for gs
    by (simp_all add: ex_filterset_def filterset_clear_def)
  moreover have "state_ok (\<lambda>s. Some ex_summer) (state_of_filter ex_localtime ex_reset_filter)"
    by (simp add: state_ok_def state_of_filter_def ex_reset_filter_def ex_set_filter_def filter2_new_def filter_base_clear_def
        from_time_t_fields ex_localtime_def)
  moreover have "clock_laws 3600 ex_mktime ex_localtime (ts (last_reset_ts ex_reset_filter))"
    by (simp add: clock_laws_def ex_localtime_def ex_mktime_def ex_reset_filter_def)
  moreover have "m_id ex_reset_filter = 4" "cnt (cnt_sent ex_reset_filter) = 5000" "ts (last_reset_ts ex_reset_filter) = 1277971200"
    "snd (ex_localtime 1277971200) = 1"
    by (simp_all add: ex_reset_filter_def ex_set_filter_simps ex_localtime_def)
  ultimately show ?thesis
    using state_survives_restart [of "ex_filterset [ex_reset_filter]" "ex_filterset [ex_set_filter 9 7, ex_set_filter 4 0]"
        "\<lambda>s. Some ex_summer" ex_localtime 3600 ex_mktime "\<lambda>s. None" filtersetstate_clear]
    by (auto simp: ex_set_filter_simps)
qed

text \<open>
  restored bytes are counted as new ones. \<open>set_cnt\<close> leaves \<open>cnt_prev\<close> as it is (0 after loading the
  configuration), so the first refresh after a restart reports the whole restored counter: it is
  added to the traffic of the reports and the database, and taken for the speed of one interval.
\<close>

theorem restored_bytes_reported_again:
  assumes "cnt_prev (cnt_sent f) = 0" and "0 \<le> sint (st_bytes_sent x)"
    and "do_refresh tp np (cnt_sent (restore_filter mktime x f)) = Some c"
  shows "cnt_xml c = cnt_xml (cnt_sent f) + st_bytes_sent x \<and> cnt_xml2 c = cnt_xml2 (cnt_sent f) + st_bytes_sent x
    \<and> cnt_logdb c = cnt_logdb (cnt_sent f) + st_bytes_sent x \<and> cnt_speed c = of_int (sint (st_bytes_sent x) sdiv 2)"
proof -
  let ?f = "cnt_sent (restore_filter mktime x f)"
  have "cnt ?f = st_bytes_sent x" "cnt_prev ?f = 0" "cnt_xml ?f = cnt_xml (cnt_sent f)"
    "cnt_xml2 ?f = cnt_xml2 (cnt_sent f)" "cnt_logdb ?f = cnt_logdb (cnt_sent f)"
    using assms(1) by (simp_all add: restore_filter_def set_cnt_def)
  then show ?thesis
    using assms(2,3) by (cases "st_bytes_sent x = 0")
      (auto simp: do_refresh_def Let_def add_xml_def add_xml2_def add_logdb_def REFRESH_INTERVAL_def split: if_splits)
qed

theorem restored_bytes_reported_again_witness:
  "\<exists>c. do_refresh 0 0 (cnt_sent (restore_filter (\<lambda>t dst. 0) (filterstate_clear\<lparr>st_bytes_sent := 5000\<rparr>) (ex_set_filter 4 0))) = Some c
     \<and> cnt_xml c = 5000 \<and> cnt_speed c = 2500"
proof -
  have f: "cnt_sent (ex_set_filter 4 0) = (filtercnt_new 0)\<lparr>cnt := 0\<rparr>"
    by (simp add: ex_set_filter_def filter2_new_def filter_base_clear_def)
  have p: "cnt_prev (cnt_sent (ex_set_filter 4 0)) = 0" "cnt_xml (cnt_sent (ex_set_filter 4 0)) = 0"
    unfolding f by (simp_all add: filtercnt_new_def cnt_reset_def)
  obtain c where "do_refresh 0 0 (cnt_sent (restore_filter (\<lambda>t dst. 0) (filterstate_clear\<lparr>st_bytes_sent := 5000\<rparr>) (ex_set_filter 4 0))) = Some c"
    by (simp add: restore_filter_def set_cnt_def f filterstate_clear_def do_refresh_def Let_def filtercnt_new_def
        cnt_reset_def add_xml_def add_xml2_def add_logdb_def utm_consts)
  then show ?thesis
    using restored_bytes_reported_again [OF p(1), of "filterstate_clear\<lparr>st_bytes_sent := 5000\<rparr>" 0 0 "\<lambda>t dst. 0" c] p(2)
    by (simp add: signed_divide_int_def)
qed

end
