(* ===== verification/XmlTyping.thy ===== *)
theory XmlTyping
  imports FilterSetCons
begin

text \<open>
  What parsing promises of any XML tree, also one this program did not write: if the parser
  returns, the configuration it returns is well-formed. The locale \<open>typed_xml\<close> is the contract
  of a class of elements; it is interpreted for every class a configuration is made of.
\<close>

section \<open>The contract of a class of elements\<close>



section \<open>Values\<close>






section \<open>Elements\<close>



















section \<open>Configurations\<close>





section \<open>Where parsing is defined\<close>















section \<open>Property\<close>




end
