(* ===== verification/AddrUrl.thy ===== *)
theory AddrUrl
  imports UrlFilter StdMap "HOL-Library.List_Lexorder" "HOL-Library.Char_ord"
begin

text \<open>
  \<open>proxyserver/addrurl.h\<close>, \<open>addrurl.cpp\<close>: the parts of a URL, the second and third level domain of
  its host, percent-decoding and the parameters of a query. \<open>std::string\<close> is a list of characters;
  \<open>npos\<close> is \<open>None\<close>. The CRC of boost is the argument \<open>crc\<close>.
\<close>

section \<open>Searching a string\<close>

definition str_find :: "string \<Rightarrow> string \<Rightarrow> nat \<Rightarrow> nat option" where
  "str_find s r pos = (if pos \<le> length s then map_option (\<lambda>k. pos + k) (strstr (drop pos s) r) else None)"

definition find_last_of :: "char \<Rightarrow> string \<Rightarrow> nat \<Rightarrow> nat option" where
  "find_last_of c s cur = (let t = take (Suc cur) s in
     if c \<in> set t then Some (length (dropWhile (\<lambda>x. x \<noteq> c) (rev t)) - 1) else None)"

definition substr :: "string \<Rightarrow> nat \<Rightarrow> nat \<Rightarrow> string" where "substr s pos n = take n (drop pos s)"

section \<open>URLs\<close>

datatype domain_depth = depth_unknown | depth_second | depth_third

record addrurl =
  original_addrurl :: string
  au_protocol :: string
  au_host :: string
  second_level_domain :: string
  third_level_domain :: string
  second_level_host :: string
  au_port :: string
  au_path :: string
  au_query :: string
  au_depth :: domain_depth
  is_ipaddr :: bool
  second_level_domain_crc :: u32

definition PROTO_END :: string where [utm_consts]: "PROTO_END = ''://''"
definition HTTPS_PORT :: string where [utm_consts]: "HTTPS_PORT = ''443''"
definition HTTPS_PROTOCOL :: string where [utm_consts]: "HTTPS_PROTOCOL = ''https''"
definition HTTP_PROTOCOL :: string where [utm_consts]: "HTTP_PROTOCOL = ''http''"
definition HTTP_PORT :: string where [utm_consts]: "HTTP_PORT = ''80''"
definition MAX_URL_DOTS :: nat where [utm_consts]: "MAX_URL_DOTS = 3"

definition addrurl_new :: addrurl where
  "addrurl_new = \<lparr>original_addrurl = [], au_protocol = [], au_host = [], second_level_domain = [],
     third_level_domain = [], second_level_host = [], au_port = [], au_path = [], au_query = [],
     au_depth = depth_unknown, is_ipaddr = False, second_level_domain_crc = 0\<rparr>"

definition get_port :: "addrurl \<Rightarrow> string" where
  "get_port u = (if au_port u \<noteq> [] then au_port u else HTTP_PORT)"

definition check_is_host_ipaddr :: "string \<Rightarrow> bool" where
  "check_is_host_ipaddr s \<longleftrightarrow> list_all (\<lambda>c. is_digit c \<or> c = CHR ''.'') (c_str s)"

text \<open>The loop over the dots: their positions from the right, at most \<open>MAX_URL_DOTS\<close>.\<close>

fun dots_loop :: "nat \<Rightarrow> string \<Rightarrow> nat \<Rightarrow> nat list" where
  "dots_loop 0 host cur = []"
| "dots_loop (Suc k) host cur =
     (case find_last_of CHR ''.'' host cur of
        None \<Rightarrow> []
      | Some pos \<Rightarrow> pos # (if pos = 0 then [] else dots_loop k host (pos - 1)))"

definition extract_domains :: "addrurl \<Rightarrow> addrurl" where
  "extract_domains u =
     (let u = u\<lparr>is_ipaddr := check_is_host_ipaddr (au_host u)\<rparr>; host = au_host u in
      if is_ipaddr u then u
      else let dots = dots_loop MAX_URL_DOTS host (length host) in
        if dots = [] then u
        else if length dots = 1 \<and> dots ! 0 = 0 then u
        else
          let u1 = (if length dots = 1 then u\<lparr>au_depth := depth_second\<rparr>
                    else u\<lparr>au_depth := depth_third,
                           third_level_domain := (if length dots = 2 then host else drop (dots ! 2 + 1) host)\<rparr>);
              secpos = (if length dots = 1 then 0 else dots ! 1 + 1)
          in u1\<lparr>second_level_domain := drop secpos host,
                second_level_host := substr host secpos (dots ! 0 - secpos)\<rparr>)"

text \<open>
  The host, protocol and port of a URL that does not start with \<open>/\<close>. The result is the URL with
  \<open>host_finish\<close>. \<open>https_pos - 1\<close> wraps around to \<open>npos\<close> when the digits stand at the start.
\<close>

definition parse_host :: "string \<Rightarrow> nat \<Rightarrow> addrurl \<Rightarrow> addrurl \<times> nat option" where
  "parse_host url proto_pos u =
     (let host_start = (if proto_pos \<noteq> 0 then proto_pos + length PROTO_END else 0);
          protocol = (if proto_pos \<noteq> 0 then take proto_pos url else HTTP_PROTOCOL);
          host_finish = str_find url ''/'' host_start;
          host = (case host_finish of None \<Rightarrow> drop host_start url
                  | Some e \<Rightarrow> substr url host_start (e - host_start));
          u1 = u\<lparr>au_protocol := protocol, au_host := host\<rparr>
      in (case str_find host '':'' 0 of
            None \<Rightarrow> u1
          | Some p \<Rightarrow> u1\<lparr>au_port := drop (p + 1) host, au_host := take p host\<rparr>, host_finish))"

definition parse_authority :: "string \<Rightarrow> addrurl \<Rightarrow> addrurl \<times> nat option" where
  "parse_authority url u =
     (case str_find url PROTO_END 0 of
        Some proto_pos \<Rightarrow> parse_host url proto_pos u
      | None \<Rightarrow>
          (case str_find url HTTPS_PORT 0 of
             Some https_pos \<Rightarrow>
               (u\<lparr>au_protocol := HTTPS_PROTOCOL,
                  au_host := (if https_pos = 0 then url else take (https_pos - 1) url),
                  au_port := HTTPS_PORT\<rparr>, None)
           | None \<Rightarrow> parse_host url 0 u))"

definition parse_path :: "string \<Rightarrow> nat \<Rightarrow> addrurl \<Rightarrow> addrurl" where
  "parse_path url host_finish u =
     (case str_find url ''?'' host_finish of
        None \<Rightarrow> u\<lparr>au_path := drop host_finish url\<rparr>
      | Some q \<Rightarrow> u\<lparr>au_path := substr url host_finish (q - host_finish), au_query := drop (q + 1) url\<rparr>)"

definition parse_addrurl :: "(string \<Rightarrow> u32) \<Rightarrow> string \<Rightarrow> addrurl \<Rightarrow> addrurl" where
  "parse_addrurl crc url u =
     (let u = u\<lparr>original_addrurl := trim url\<rparr> in
      if url = [] then u
      else if hd url \<noteq> CHR ''/'' then
        (case parse_authority url u of
           (u1, host_finish) \<Rightarrow>
             let u2 = extract_domains u1; u3 = u2\<lparr>second_level_domain_crc := crc (second_level_domain u2)\<rparr>
             in (case host_finish of None \<Rightarrow> u3 | Some e \<Rightarrow> parse_path url e u3))
      else parse_path url 0 u)"

section \<open>Percent-decoding\<close>

definition hex_digit_value :: "char \<Rightarrow> nat option" where
  "hex_digit_value c =
     (let n = (of_char c :: nat) in
      if 48 \<le> n \<and> n \<le> 57 then Some (n - 48)
      else if 65 \<le> n \<and> n \<le> 70 then Some (n - 55)
      else if 97 \<le> n \<and> n \<le> 102 then Some (n - 87) else None)"

text \<open>\<open>urldecode\<close>: the argument is \<open>state == STATE_CONVERTING\<close>, a percent sign having been read.\<close>

fun urldecode_from :: "bool \<Rightarrow> string \<Rightarrow> string" where
  "urldecode_from converting [] = []"
| "urldecode_from False (c # s) =
     (if c \<noteq> CHR ''%'' then (if c = CHR ''+'' then CHR '' '' else c) # urldecode_from False s
      else urldecode_from True s)"
| "urldecode_from True [c] = []"
| "urldecode_from True (c # d # s) =
     (case (hex_digit_value c, hex_digit_value d) of
        (Some a, Some b) \<Rightarrow> char_of (16 * a + b) # urldecode_from False s
      | _ \<Rightarrow> urldecode_from False (d # s))"

definition urldecode :: "string \<Rightarrow> string" where "urldecode s = urldecode_from False s"

section \<open>Parameters of a query\<close>

definition param_of :: "string \<Rightarrow> string \<times> string" where
  "param_of item = (case str_find item ''='' 0 of
      None \<Rightarrow> (item, [])
    | Some pos \<Rightarrow> (take pos item, urldecode (drop (pos + 1) item)))"

definition parse_params :: "string \<Rightarrow> (string \<times> string) list \<Rightarrow> (string \<times> string) list" where
  "parse_params q ps =
     fold (\<lambda>item ps. case param_of item of (k, v) \<Rightarrow> sm_insert k v ps) (split_string True CHR ''&'' q) ps"

definition find_param :: "string \<Rightarrow> (string \<times> string) list \<Rightarrow> string option" where
  "find_param name ps = sm_find name ps"

definition get_param :: "(string \<Rightarrow> 'a option) \<Rightarrow> string \<Rightarrow> 'a \<Rightarrow> (string \<times> string) list \<Rightarrow> 'a" where
  "get_param lexical name d ps =
     (case find_param name ps of None \<Rightarrow> d | Some v \<Rightarrow> (case lexical v of None \<Rightarrow> d | Some x \<Rightarrow> x))"

section \<open>Occurrences\<close>

lemma strstr_absent: "r \<noteq> [] \<Longrightarrow> hd r \<notin> set s \<Longrightarrow> strstr s r = None"
  by (induction s) (cases r; auto)+

lemma strstr_first: "r \<noteq> [] \<Longrightarrow> hd r \<notin> set p \<Longrightarrow> strstr (p @ r @ q) r = Some (length p)"
proof (induction p)
  case Nil
  then show ?case by (cases r) (simp_all add: strstr.simps)
next
  case (Cons c p)
  then show ?case by (cases r) auto
qed

lemma str_find_absent: "r \<noteq> [] \<Longrightarrow> hd r \<notin> set (drop pos s) \<Longrightarrow> str_find s r pos = None"
  by (simp add: str_find_def strstr_absent)

lemma str_find_first:
  "r \<noteq> [] \<Longrightarrow> hd r \<notin> set q \<Longrightarrow> str_find (p @ q @ r @ t) r (length p) = Some (length p + length q)"
  by (simp add: str_find_def strstr_first)

lemma str_find_first0: "r \<noteq> [] \<Longrightarrow> hd r \<notin> set q \<Longrightarrow> str_find (q @ r @ t) r 0 = Some (length q)"
  using str_find_first [of r q "[]" t] by simp

section \<open>Domains\<close>

lemma find_last_of_split:
  assumes "c \<notin> set b" and "length a + length b \<le> cur"
  shows "find_last_of c (a @ c # b) cur = Some (length a)"
proof -
  have "dropWhile (\<lambda>x. x \<noteq> c) (rev b @ c # rev a) = c # rev a"
    using assms(1) by (subst dropWhile_append2) auto
  then show ?thesis using assms(2) by (simp add: find_last_of_def)
qed

lemma find_last_of_absent: "c \<notin> set s \<Longrightarrow> find_last_of c s cur = None"
  by (auto simp: find_last_of_def Let_def dest: in_set_takeD)

lemma find_last_of_prefix: "cur < length a \<Longrightarrow> find_last_of c (a @ b) cur = find_last_of c a cur"
  by (simp add: find_last_of_def)

lemma find_last_of_bound: "find_last_of c s cur = Some p \<Longrightarrow> p \<le> cur"
proof -
  assume "find_last_of c s cur = Some p"
  moreover have "length (dropWhile (\<lambda>x. x \<noteq> c) (rev (take (Suc cur) s))) \<le> Suc cur"
    by (rule order.trans [OF length_dropWhile_le]) simp
  ultimately show ?thesis by (auto simp: find_last_of_def Let_def split: if_splits)
qed

lemma dots_loop_prefix: "cur < length a \<Longrightarrow> dots_loop k (a @ b) cur = dots_loop k a cur"
proof (induction k arbitrary: cur)
  case (Suc k)
  show ?case
    using Suc.prems Suc.IH find_last_of_bound [of "CHR ''.''" a cur]
    by (force simp: find_last_of_prefix split: option.split)
qed simp

lemma dots_loop_absent: "CHR ''.'' \<notin> set s \<Longrightarrow> dots_loop k s cur = []"
  by (cases k) (simp_all add: find_last_of_absent)

lemma dots_loop_split:
  assumes "CHR ''.'' \<notin> set b" and "length a + length b \<le> cur"
  shows "dots_loop (Suc k) (a @ CHR ''.'' # b) cur
    = length a # (if a = [] then [] else dots_loop k a (length a - 1))"
  using assms by (simp add: find_last_of_split dots_loop_prefix)

lemma dots_loop_end: "dots_loop k a (length a) = dots_loop k a (length a - 1)"
  by (cases k; cases a) (simp_all add: find_last_of_def)

declare dots_loop.simps(2) [simp del]

lemma join_snoc: "xs \<noteq> [] \<Longrightarrow> join_strings d (xs @ [x]) = join_strings d xs @ d @ x"
  by (induction d xs rule: join_strings.induct) simp_all

lemma two_labels:
  assumes "CHR ''.'' \<notin> set a" and "CHR ''.'' \<notin> set b"
  shows "dots_loop 3 (a @ CHR ''.'' # b) (length (a @ CHR ''.'' # b)) = [length a]"
  using assms dots_loop_split [of b a "length (a @ CHR ''.'' # b)" 2]
  by (simp add: numeral_3_eq_3 numeral_2_eq_2 dots_loop_absent)

lemma more_labels:
  assumes "CHR ''.'' \<notin> set b" and "CHR ''.'' \<notin> set c"
  shows "dots_loop 3 (a @ CHR ''.'' # b @ CHR ''.'' # c) (length (a @ CHR ''.'' # b @ CHR ''.'' # c))
    = [length a + 1 + length b, length a] @ (if a = [] then [] else dots_loop 1 a (length a - 1))"
  using assms dots_loop_split [of c "a @ CHR ''.'' # b" "length (a @ CHR ''.'' # b @ CHR ''.'' # c)" 2]
    dots_loop_split [of b a "length a + length b" 1]
  by (simp add: numeral_3_eq_3 numeral_2_eq_2)

definition labels :: "string list \<Rightarrow> bool" where
  "labels ls \<longleftrightarrow> list_all (\<lambda>l. CHR ''.'' \<notin> set l) ls \<and> \<not> check_is_host_ipaddr (join_strings ''.'' ls)"

lemma domains_of_two:
  assumes "labels [a, b]" and "au_host u = join_strings ''.'' [a, b]" and "a \<noteq> []"
  shows "extract_domains u = u\<lparr>is_ipaddr := False, au_depth := depth_second, second_level_domain := au_host u,
    second_level_host := a\<rparr>"
  using assms two_labels [of a b]
  by (simp add: labels_def extract_domains_def Let_def MAX_URL_DOTS_def substr_def)

lemma domains_of_three:
  assumes "labels [a, b, c]" and "au_host u = join_strings ''.'' [a, b, c]"
  shows "extract_domains u = u\<lparr>is_ipaddr := False, au_depth := depth_third, third_level_domain := au_host u,
    second_level_domain := join_strings ''.'' [b, c], second_level_host := b\<rparr>"
  using assms more_labels [of b c a]
  by (simp add: labels_def extract_domains_def Let_def MAX_URL_DOTS_def substr_def dots_loop_absent)

lemma domains_of_more:
  assumes "labels (ms @ [a, b, c])" and "au_host u = join_strings ''.'' (ms @ [a, b, c])" and "ms \<noteq> []"
  shows "extract_domains u = u\<lparr>is_ipaddr := False, au_depth := depth_third,
    third_level_domain := join_strings ''.'' [a, b, c],
    second_level_domain := join_strings ''.'' [b, c], second_level_host := b\<rparr>"
proof -
  let ?m = "join_strings ''.'' ms" and ?a = "join_strings ''.'' ms @ CHR ''.'' # a"
  have h: "join_strings ''.'' (ms @ [a, b, c]) = ?a @ CHR ''.'' # b @ CHR ''.'' # c"
    using join_snoc [of "ms @ [a, b]" "''.''" c] join_snoc [of "ms @ [a]" "''.''" b] join_snoc [of ms "''.''" a] assms(3)
    by simp
  have l: "CHR ''.'' \<notin> set a" "CHR ''.'' \<notin> set b" "CHR ''.'' \<notin> set c" "\<not> check_is_host_ipaddr (au_host u)"
    using assms(1,2) by (simp_all add: labels_def)
  have "dots_loop 1 ?a (length ?a - 1) = [length ?m]"
    using dots_loop_split [of a ?m "length ?m + length a" 0] l(1) by simp
  then have "dots_loop 3 (au_host u) (length (au_host u))
      = [length ?a + 1 + length b, length ?a, length ?m]"
    using more_labels [OF l(2,3), of ?a] by (simp add: assms(2) h)
  then show ?thesis using l(4)
    by (simp add: extract_domains_def Let_def MAX_URL_DOTS_def substr_def) (simp add: assms(2) h)
qed

lemma extract_domains_parts:
  "au_protocol (extract_domains u) = au_protocol u" "au_host (extract_domains u) = au_host u"
  "au_port (extract_domains u) = au_port u" "au_path (extract_domains u) = au_path u"
  "au_query (extract_domains u) = au_query u" "original_addrurl (extract_domains u) = original_addrurl u"
  "is_ipaddr (extract_domains u) = check_is_host_ipaddr (au_host u)"
  by (simp_all add: extract_domains_def Let_def)

lemma original_addrurl_keep:
  "original_addrurl (parse_path url n u) = original_addrurl u"
  "original_addrurl (fst (parse_host url n u)) = original_addrurl u"
  "original_addrurl (fst (parse_authority url u)) = original_addrurl u"
proof -
  show h: "original_addrurl (fst (parse_host url n u)) = original_addrurl u" for n
    by (simp add: parse_host_def Let_def split: option.split)
  show "original_addrurl (parse_path url n u) = original_addrurl u" by (simp add: parse_path_def split: option.split)
  show "original_addrurl (fst (parse_authority url u)) = original_addrurl u"
    by (simp add: parse_authority_def h split: option.split)
qed

lemma original_addrurl_parse: "original_addrurl (parse_addrurl crc url u) = trim url"
  by (simp add: parse_addrurl_def Let_def original_addrurl_keep extract_domains_parts case_prod_beta split: option.split)

section \<open>Parts\<close>

lemma parse_host_parts:
  assumes "proto \<noteq> []" and "CHR ''/'' \<notin> set host" and "CHR '':'' \<notin> set host" and "CHR ''/'' \<notin> set port"
    and "rest = [] \<or> hd rest = CHR ''/''"
  shows "parse_host (proto @ ''://'' @ host @ (if port = [] then [] else CHR '':'' # port) @ rest) (length proto) u
    = (u\<lparr>au_protocol := proto, au_host := host, au_port := (if port = [] then au_port u else port)\<rparr>,
       if rest = [] then None
       else Some (length proto + 3 + length host + (if port = [] then 0 else Suc (length port))))"
proof -
  let ?hp = "host @ (if port = [] then [] else CHR '':'' # port)"
  let ?url = "proto @ ''://'' @ ?hp @ rest"
  have hp: "CHR ''/'' \<notin> set ?hp" using assms by simp
  have find_slash: "str_find (proto @ ''://'' @ hp @ rest) ''/'' (length proto + 3) =
      (if rest = [] then None else Some (length proto + 3 + length hp))" if hp: "CHR ''/'' \<notin> set hp" for hp
  proof (cases rest)
    case Nil
    then show ?thesis using hp by (simp add: str_find_absent)
  next
    case (Cons c cs)
    then have c: "c = CHR ''/''" using assms(5) by simp
    show ?thesis using str_find_first [of "''/''" hp "proto @ ''://''" cs] hp
      by (simp add: Cons c numeral_3_eq_3)
  qed
  note slash = find_slash [OF hp]
  have colon: "str_find ?hp '':'' 0 = (if port = [] then None else Some (length host))"
    using assms(3) str_find_first0 [of "'':''" host port] by (simp add: str_find_absent)
  define hp url where "hp = ?hp" and "url = ?url"
  have h: "(case str_find url ''/'' (length proto + 3) of None \<Rightarrow> drop (length proto + 3) url
      | Some e \<Rightarrow> substr url (length proto + 3) (e - (length proto + 3))) = hp"
    unfolding slash url_def hp_def by (simp add: substr_def numeral_3_eq_3)
  have t: "take (length proto) url = proto" "length ''://'' = 3" "(length proto = 0) = False"
    using assms(1) by (simp_all add: url_def)
  have "parse_host url (length proto) u
      = (let u1 = u\<lparr>au_protocol := proto, au_host := hp\<rparr> in
         (case str_find hp '':'' 0 of None \<Rightarrow> u1
          | Some p \<Rightarrow> u1\<lparr>au_port := drop (p + 1) hp, au_host := take p hp\<rparr>,
          str_find url ''/'' (length proto + 3)))"
    unfolding parse_host_def Let_def PROTO_END_def t(2) by (simp only: t h not_False_eq_True if_True)
  then show ?thesis unfolding hp_def url_def slash colon Let_def by simp
qed

lemma parse_path_parts:
  assumes "drop n url = path @ (case query of None \<Rightarrow> [] | Some q \<Rightarrow> CHR ''?'' # q)" and "n \<le> length url"
    and "CHR ''?'' \<notin> set path"
  shows "parse_path url n w = w\<lparr>au_path := path, au_query := (case query of None \<Rightarrow> au_query w | Some q \<Rightarrow> q)\<rparr>"
proof (cases query)
  case None
  then have "str_find url ''?'' n = None" using assms by (intro str_find_absent) simp_all
  then show ?thesis using None assms(1) by (simp add: parse_path_def)
next
  case (Some q)
  have "strstr (drop n url) ''?'' = Some (length path)"
    using strstr_first [of "''?''" path q] assms(1,3) by (simp add: Some)
  then have f: "str_find url ''?'' n = Some (n + length path)" using assms(2) by (simp add: str_find_def)
  have "drop (n + length path + 1) url = drop (length path + 1) (drop n url)" by (simp add: add.commute)
  then have "drop (n + length path + 1) url = q" using assms(1) by (simp add: Some)
  then show ?thesis using f assms(1) by (simp add: parse_path_def substr_def Some)
qed

lemma parse_parts:
  assumes "proto \<noteq> []" and "CHR '':'' \<notin> set proto" and "hd proto \<noteq> CHR ''/''"
    and "CHR ''/'' \<notin> set host" and "CHR '':'' \<notin> set host" and "CHR ''/'' \<notin> set port"
    and "path = [] \<or> hd path = CHR ''/''" and "CHR ''?'' \<notin> set path" and "query = None \<or> path \<noteq> []"
    and "u = parse_addrurl crc (proto @ ''://'' @ host @ (if port = [] then [] else CHR '':'' # port)
      @ path @ (case query of None \<Rightarrow> [] | Some q \<Rightarrow> CHR ''?'' # q)) addrurl_new"
  shows "au_protocol u = proto \<and> au_host u = host \<and> au_port u = port \<and> au_path u = path
    \<and> au_query u = (case query of None \<Rightarrow> [] | Some q \<Rightarrow> q)
    \<and> is_ipaddr u = check_is_host_ipaddr host
    \<and> (\<exists>v. au_host v = host \<and> second_level_domain u = second_level_domain (extract_domains v)
         \<and> second_level_host u = second_level_host (extract_domains v)
         \<and> third_level_domain u = third_level_domain (extract_domains v))"
proof -
  let ?q = "case query of None \<Rightarrow> [] | Some q \<Rightarrow> CHR ''?'' # q"
  let ?pre = "proto @ ''://'' @ host @ (if port = [] then [] else CHR '':'' # port)"
  let ?n = "length proto + 3 + length host + (if port = [] then 0 else Suc (length port))"
  let ?url = "proto @ ''://'' @ host @ (if port = [] then [] else CHR '':'' # port) @ path @ ?q"
  let ?v = "addrurl_new\<lparr>original_addrurl := trim ?url\<rparr>"
  have url: "?url \<noteq> []" "hd ?url \<noteq> CHR ''/''" using assms(1,3) by auto
  have n: "length ?pre = ?n" by simp
  have "str_find ?url PROTO_END 0 = Some (length proto)"
    using str_find_first0 [of "''://''" proto] assms(2) by (simp add: PROTO_END_def)
  moreover have "path @ ?q = [] \<or> hd (path @ ?q) = CHR ''/''"
    using assms(7,9) by (cases path) auto
  ultimately have a: "parse_authority ?url ?v = (?v\<lparr>au_protocol := proto, au_host := host, au_port := port\<rparr>,
      if path @ ?q = [] then None else Some ?n)"
    using parse_host_parts [OF assms(1,4,5,6), of "path @ ?q" ?v]
    by (simp add: parse_authority_def addrurl_new_def)
  have "?url = ?pre @ path @ ?q" by simp
  then have d: "drop ?n ?url = path @ ?q" "?n \<le> length ?url" using n by (metis append_eq_conv_conj, metis length_append le_add1)
  have p: "parse_path ?url ?n w = w\<lparr>au_path := path, au_query := (case query of None \<Rightarrow> au_query w | Some q \<Rightarrow> q)\<rparr>" for w
    using assms(8) by (rule parse_path_parts [OF d])
  have "u = (let u2 = extract_domains (?v\<lparr>au_protocol := proto, au_host := host, au_port := port\<rparr>);
                 u3 = u2\<lparr>second_level_domain_crc := crc (second_level_domain u2)\<rparr>
             in (case (if path @ ?q = [] then None else Some ?n) of None \<Rightarrow> u3 | Some e \<Rightarrow> parse_path ?url e u3))"
    unfolding assms(10) parse_addrurl_def Let_def a using url by simp
  then show ?thesis
    using p assms(9)
    by (cases query)
      (auto simp: Let_def extract_domains_parts addrurl_new_def
        intro!: exI [where x = "?v\<lparr>au_protocol := proto, au_host := host, au_port := port\<rparr>"])
qed

section \<open>The target of a CONNECT request\<close>

lemma strstr_before:
  assumes "strstr a r = Some k"
  shows "strstr (a @ b) r = Some k"
  using assms
proof (induction a arbitrary: k)
  case Nil
  then show ?case by (cases b) (simp_all split: if_splits)
next
  case (Cons c a)
  show ?case
  proof (cases "take (length r) (c # a) = r")
    case True
    then have "length r \<le> length (c # a)" by (metis length_take min.absorb_iff2 min.commute)
    then have "take (length r) (c # a @ b) = take (length r) (c # a)" by (cases r) simp_all
    then show ?thesis using Cons.prems True by simp
  next
    case False
    then obtain j where j: "strstr a r = Some j" "k = Suc j" using Cons.prems by auto
    have "j + length r \<le> length a" using strstr_bound [OF j(1)] .
    then have "take (length r) (c # a @ b) = take (length r) (c # a)" by (cases r) simp_all
    then show ?thesis using Cons.IH [OF j(1)] False j(2) by simp
  qed
qed

lemma strstr_behind:
  assumes "strstr a r = None" and "c \<notin> set r" and "r \<noteq> []"
  shows "strstr (a @ c # t) r = map_option (\<lambda>k. Suc (length a) + k) (strstr t r)"
  using assms(1)
proof (induction a)
  case Nil
  have "take (length r) (c # t) \<noteq> r" using assms(2,3) by (cases r) auto
  then show ?case by (cases "strstr t r") simp_all
next
  case (Cons x a)
  have "take (length r) (x # a @ c # t) \<noteq> r"
  proof (cases "length r \<le> length (x # a)")
    case True
    then have "take (length r) (x # a @ c # t) = take (length r) (x # a)" by (cases r) simp_all
    then show ?thesis using Cons.prems by (simp split: if_splits)
  next
    case False
    then have "c \<in> set (take (length r) ((x # a) @ c # t))"
      by (subst take_append) (auto simp: take_Cons' Suc_diff_le)
    then show ?thesis using assms(2) by auto
  qed
  then show ?case using Cons by (cases "strstr t r") (auto split: if_splits)
qed

definition connect_host :: "string \<Rightarrow> string" where
  "connect_host h = (case strstr h ''443'' of None \<Rightarrow> h | Some 0 \<Rightarrow> h @ '':443'' | Some (Suc k) \<Rightarrow> take k h)"

lemma no_scheme: "CHR '':'' \<notin> set h \<Longrightarrow> strstr (h @ '':443'') ''://'' = None"
  by (induction h) (auto simp: take_Cons' split: if_splits)

lemma connect_authority:
  assumes "CHR '':'' \<notin> set h"
  shows "parse_authority (h @ '':443'') u
    = (u\<lparr>au_protocol := ''https'', au_host := connect_host h, au_port := ''443''\<rparr>, None)"
proof -
  have p: "str_find (h @ '':443'') PROTO_END 0 = None"
    using no_scheme [OF assms] by (simp add: str_find_def PROTO_END_def)
  show ?thesis
  proof (cases "strstr h ''443''")
    case None
    then have "strstr (h @ CHR '':'' # ''443'') ''443'' = Some (Suc (length h))"
      by (subst strstr_behind) simp_all
    then have "str_find (h @ '':443'') HTTPS_PORT 0 = Some (Suc (length h))"
      by (simp add: str_find_def HTTPS_PORT_def)
    then show ?thesis using p None
      by (simp add: parse_authority_def connect_host_def HTTPS_PROTOCOL_def HTTPS_PORT_def)
  next
    case (Some k)
    have "k + 3 \<le> length h" using strstr_bound [OF Some] by simp
    moreover have "str_find (h @ '':443'') HTTPS_PORT 0 = Some k"
      using strstr_before [OF Some] by (simp add: str_find_def HTTPS_PORT_def)
    ultimately show ?thesis using p Some
      by (cases k) (simp_all add: parse_authority_def connect_host_def HTTPS_PROTOCOL_def HTTPS_PORT_def)
  qed
qed

section \<open>Queries\<close>

definition hex_char :: "nat \<Rightarrow> char" where "hex_char n = char_of (if n < 10 then 48 + n else 55 + n)"

definition percent_quote :: "(char \<Rightarrow> bool) \<Rightarrow> string \<Rightarrow> string" where
  "percent_quote plain s = concat (map (\<lambda>c. if plain c then [c]
     else [CHR ''%'', hex_char (of_char c div 16), hex_char (of_char c mod 16)]) s)"

definition plain_class :: "(char \<Rightarrow> bool) \<Rightarrow> bool" where
  "plain_class plain \<longleftrightarrow> (\<forall>c. plain c \<longrightarrow> c \<notin> set ''%+&'')"

lemma hex_char_value: "n < 16 \<Longrightarrow> hex_digit_value (hex_char n) = Some n"
  by (auto simp: hex_digit_value_def hex_char_def Let_def take_bit_eq_mod)

lemma of_char_div: "(of_char c :: nat) div 16 < 16"
  using less_mult_imp_div_less [of "of_char c" 16 16] nat_of_char_less_256 [of c] by simp

lemma urldecode_quote: "plain_class plain \<Longrightarrow> urldecode (percent_quote plain s) = s"
proof (induction s)
  case (Cons c s)
  let ?n = "of_char c :: nat"
  have "?n div 16 < 16" by (rule of_char_div)
  then show ?case
    using Cons by (auto simp: urldecode_def percent_quote_def plain_class_def hex_char_value)
qed (simp add: urldecode_def percent_quote_def)

lemma sm_find_inserts:
  "sm_wf m \<Longrightarrow> sm_find j (fold (\<lambda>(k, v). sm_insert k v) kvs m)
    = (case sm_find j m of Some v \<Rightarrow> Some v | None \<Rightarrow> map_of kvs j)"
  by (induction kvs arbitrary: m) (auto simp: sm_insert_wf sm_find_insert split: option.splits)

definition query_item :: "(char \<Rightarrow> bool) \<Rightarrow> string \<times> string \<Rightarrow> string" where
  "query_item plain kv = fst kv @ ''='' @ percent_quote plain (snd kv)"

definition query_keys :: "(string \<times> string) list \<Rightarrow> bool" where
  "query_keys kvs \<longleftrightarrow> list_all (\<lambda>kv. set (fst kv) \<inter> set ''=&'' = {}) kvs"

lemma hex_char_plain: "n < 16 \<Longrightarrow> hex_char n \<noteq> CHR ''&''"
proof
  assume "n < 16" "hex_char n = CHR ''&''"
  then show False using hex_char_value [of n] by (simp add: hex_digit_value_def)
qed

lemma quote_chars: "plain_class plain \<Longrightarrow> CHR ''&'' \<notin> set (percent_quote plain s)"
proof (induction s)
  case (Cons c s)
  have "hex_char (of_char c div 16) \<noteq> CHR ''&'' \<and> hex_char (of_char c mod 16) \<noteq> CHR ''&''"
    using hex_char_plain of_char_div by simp
  then show ?case using Cons by (auto simp: percent_quote_def plain_class_def)
qed (simp add: percent_quote_def)

lemma param_of_item:
  assumes "plain_class plain" and "CHR ''='' \<notin> set k"
  shows "param_of (query_item plain (k, v)) = (k, v)"
  using str_find_first0 [of "''=''" k "percent_quote plain v"] assms
  by (simp add: param_of_def query_item_def urldecode_quote)

lemma parse_query:
  assumes "plain_class plain" and "query_keys kvs"
  shows "parse_params (join_strings ''&'' (map (query_item plain) kvs)) ps = fold (\<lambda>(k, v). sm_insert k v) kvs ps"
proof (cases "kvs = []")
  case True
  then show ?thesis by (simp add: parse_params_def split_string_def)
next
  case False
  have "list_all (\<lambda>x. CHR ''&'' \<notin> set x) (map (query_item plain) kvs)"
    using assms quote_chars by (auto simp: list_all_iff query_keys_def query_item_def)
  then have "split_fields CHR ''&'' (join_strings ''&'' (map (query_item plain) kvs)) = map (query_item plain) kvs"
    by (intro split_join) (use False in simp_all)
  moreover have "filter (\<lambda>f. f \<noteq> []) (map (query_item plain) kvs) = map (query_item plain) kvs"
    by (rule filter_True) (auto simp: query_item_def)
  ultimately have "split_string True CHR ''&'' (join_strings ''&'' (map (query_item plain) kvs)) = map (query_item plain) kvs"
    by (simp add: split_string_def)
  moreover have "fold (\<lambda>item ps. case param_of item of (k, v) \<Rightarrow> sm_insert k v ps) (map (query_item plain) kvs) qs
      = fold (\<lambda>(k, v). sm_insert k v) kvs qs" for qs
    using assms(2)
  proof (induction kvs arbitrary: qs)
    case (Cons kv kvs)
    then show ?case using param_of_item [OF assms(1), of "fst kv" "snd kv"]
      by (simp add: query_keys_def split_def)
  qed simp
  ultimately show ?thesis by (simp add: parse_params_def)
qed

section \<open>Properties\<close>

text \<open>
  the parts of a URL are the parts it was put together from, and the second and third level
  domain of its host are the last two and the last three labels of the name.
\<close>

theorem url_parts_and_domains:
  assumes "proto \<noteq> []" and "CHR '':'' \<notin> set proto" and "hd proto \<noteq> CHR ''/''"
    and "labels (ms @ [a, b, c])" and "host = join_strings ''.'' (ms @ [a, b, c])"
    and "CHR ''/'' \<notin> set host" and "CHR '':'' \<notin> set host" and "CHR ''/'' \<notin> set port"
    and "path = [] \<or> hd path = CHR ''/''" and "CHR ''?'' \<notin> set path" and "query = None \<or> path \<noteq> []"
    and "u = parse_addrurl crc (proto @ ''://'' @ host @ (if port = [] then [] else CHR '':'' # port)
      @ path @ (case query of None \<Rightarrow> [] | Some q \<Rightarrow> CHR ''?'' # q)) addrurl_new"
  shows "au_protocol u = proto \<and> au_host u = host \<and> get_port u = (if port = [] then ''80'' else port)
    \<and> au_path u = path \<and> au_query u = (case query of None \<Rightarrow> [] | Some q \<Rightarrow> q)
    \<and> second_level_domain u = join_strings ''.'' [b, c] \<and> second_level_host u = b
    \<and> third_level_domain u = join_strings ''.'' [a, b, c]"
proof -
  note p = parse_parts [OF assms(1-3,6-12)]
  obtain v where v: "au_host v = host" "second_level_domain u = second_level_domain (extract_domains v)"
    "second_level_host u = second_level_host (extract_domains v)"
    "third_level_domain u = third_level_domain (extract_domains v)"
    using p by blast
  have "second_level_domain u = join_strings ''.'' [b, c] \<and> second_level_host u = b
    \<and> third_level_domain u = join_strings ''.'' [a, b, c]"
    using v assms(4,5) domains_of_more [of ms a b c v] domains_of_three [of a b c v] by (cases "ms = []") simp_all
  then show ?thesis using p by (simp add: get_port_def HTTP_PORT_def)
qed

theorem url_parts_and_domains_witness:
  "\<exists>u. u = parse_addrurl (\<lambda>s. 0) ''http://www.news.bbc.uk:81/a?b'' addrurl_new \<and> au_host u = ''www.news.bbc.uk''
    \<and> get_port u = ''81'' \<and> au_path u = ''/a'' \<and> au_query u = ''b'' \<and> second_level_host u = ''bbc''
    \<and> third_level_domain u = ''news.bbc.uk''"
proof -
  have "labels ([''www''] @ [''news'', ''bbc'', ''uk''])"
    by (simp add: labels_def check_is_host_ipaddr_def c_str_def is_digit_def)
  from url_parts_and_domains [OF _ _ _ this refl, of "''http''" "''81''" "''/a''" "Some ''b''", OF _ _ _ _ _ _ _ _ _ refl]
  show ?thesis by simp
qed

text \<open>
  C4: the host of a CONNECT request is the name before \<open>:443\<close> only when the name does not contain the
  digits \<open>443\<close> itself: otherwise the name is cut one character before them, and the proxy decides on and
  connects to another host, whose domains it also takes from the cut name.
\<close>

theorem connect_request_host:
  assumes "h \<noteq> []" and "CHR '':'' \<notin> set h" and "hd h \<noteq> CHR ''/''"
  shows "(let u = parse_addrurl crc (h @ '':443'') addrurl_new in
      au_protocol u = ''https'' \<and> au_port u = ''443'' \<and> au_path u = [] \<and> au_host u = connect_host h)
    \<and> (connect_host h = h \<longleftrightarrow> \<not> sublist ''443'' h)"
proof
  let ?u = "parse_addrurl crc (h @ '':443'') addrurl_new"
  show "let u = ?u in au_protocol u = ''https'' \<and> au_port u = ''443'' \<and> au_path u = [] \<and> au_host u = connect_host h"
    using assms
    by (simp add: parse_addrurl_def connect_authority Let_def extract_domains_parts addrurl_new_def)
  have "connect_host h \<noteq> h" if s: "strstr h ''443'' = Some k" for k
  proof -
    have "k + 3 \<le> length h" using strstr_bound [OF s] by simp
    then have "length (connect_host h) \<noteq> length h" using s by (simp add: connect_host_def split: nat.split)
    then show ?thesis by metis
  qed
  then show "connect_host h = h \<longleftrightarrow> \<not> sublist ''443'' h"
    using strstr_None [of h "''443''"] occurs_sublist [of h "''443''"]
    by (cases "strstr h ''443''") (auto simp: connect_host_def)
qed

theorem connect_request_host_witness:
  "au_host (parse_addrurl (\<lambda>s. 0) ''my443shop.com:443'' addrurl_new) = ''m''"
proof -
  have "connect_host ''my443shop.com'' = ''m''" by (simp add: connect_host_def)
  then show ?thesis using connect_request_host [of "''my443shop.com''" "\<lambda>s. 0"] by (simp add: Let_def)
qed

text \<open>
  reading a query gives back the parameters it was written from: of a name written twice the
  first value is kept, values are percent-decoded, whatever characters the writer escaped.
\<close>

theorem query_roundtrip:
  assumes "plain_class plain" and "query_keys kvs"
  shows "find_param k (parse_params (join_strings ''&'' (map (query_item plain) kvs)) []) = map_of kvs k"
  using sm_find_inserts [of "[]" k kvs] by (simp add: parse_query [OF assms] find_param_def sm_wf_def sm_find_def)

theorem query_roundtrip_witness:
  "find_param ''q'' (parse_params (join_strings ''&'' (map (query_item is_digit) [(''q'', ''1&a''), (''q'', ''2'')])) [])
    = Some ''1&a''"
proof -
  have "plain_class is_digit" by (auto simp: plain_class_def is_digit_def)
  moreover have "query_keys [(''q'', ''1&a''), (''q'', ''2'')]" by (simp add: query_keys_def)
  ultimately show ?thesis
    using query_roundtrip [of is_digit "[(''q'', ''1&a''), (''q'', ''2'')]" "''q''"] by simp
qed

end
