(* ===== verification/HtmlDoc.thy ===== *)
theory HtmlDoc
  imports StdMap UrlFilter AddrUrl
begin

text \<open>
  \<open>proxyserver/html_document.h\<close>, \<open>html_document.cpp\<close>: title and meta tags of the page a response
  carries. The parser is called again with the whole text whenever more of it has arrived and starts
  behind the last tag it has read. The conversion from the character set of the page
  (\<open>gstring::convert\<close>, Windows) is the argument \<open>convert\<close>; \<open>None\<close> is a read behind the text.
\<close>

definition META_TAG_MAX_SIZE :: nat where [utm_consts]: "META_TAG_MAX_SIZE = 16384"
definition CONTENT_SIGNATURE_SINGLE :: string where "CONTENT_SIGNATURE_SINGLE = ''content='' @ [CHR 0x27]"
definition CONTENT_SIGNATURE_DOUBLE :: string where "CONTENT_SIGNATURE_DOUBLE = ''content='' @ [CHR 0x22]"

record html_document =
  has_body_tag :: bool
  hd_title :: string
  meta_tags :: "(string \<times> string) list"
  last_processed_tag :: nat

definition html_document_clear :: html_document where
  "html_document_clear = \<lparr>has_body_tag = False, hd_title = [], meta_tags = [], last_processed_tag = 0\<rparr>"

definition get_has_body_tag :: "html_document \<Rightarrow> bool" where "get_has_body_tag d = has_body_tag d"

section \<open>Tags\<close>

definition to_upper :: "char \<Rightarrow> char" where
  "to_upper c = (let n = (of_char c :: nat) in if 97 \<le> n \<and> n \<le> 122 then char_of (n - 32) else c)"

text \<open>\<open>ci_check_tag\<close>: the second argument is the text from \<open>content\<close> up to \<open>contentlen\<close>.\<close>

fun ci_check_tag :: "string \<Rightarrow> string \<Rightarrow> bool" where
  "ci_check_tag [] content = (case content of [] \<Rightarrow> False | c # cs \<Rightarrow> c = CHR '' '' \<or> c = CHR ''>'')"
| "ci_check_tag (t # tag) [] = False"
| "ci_check_tag (t # tag) (c # content) =
     (if of_char c = (0 :: nat) \<or> 128 \<le> (of_char c :: nat) then False
      else if c \<noteq> t \<and> c \<noteq> to_upper t then False else ci_check_tag tag content)"

definition str_rfind_char :: "char \<Rightarrow> string \<Rightarrow> nat option" where
  "str_rfind_char c s = find_last_of c s (length s)"

definition put_meta :: "string \<Rightarrow> string \<Rightarrow> html_document \<Rightarrow> html_document" where
  "put_meta key value d = d\<lparr>meta_tags :=
     (case sm_find key (meta_tags d) of
        Some oldvalue \<Rightarrow> sm_set key (oldvalue @ value) (meta_tags d)
      | None \<Rightarrow> sm_insert key value (meta_tags d))\<rparr>"

definition find_meta ::
  "(string \<Rightarrow> string) \<Rightarrow> string \<Rightarrow> string \<Rightarrow> char \<Rightarrow> html_document \<Rightarrow> bool \<times> html_document"
where
  "find_meta convert mymeta content_signature quote_char d =
     (case str_find mymeta content_signature 0 of
        None \<Rightarrow> (False, d)
      | Some start \<Rightarrow>
          (case str_rfind_char quote_char mymeta of
             None \<Rightarrow> (False, d)
           | Some finish \<Rightarrow>
               let inner = take (length mymeta - 1 - (finish + 1)) (drop (finish + 1) mymeta);
                   from = start + length content_signature
               in if list_all (\<lambda>r. r = CHR '' '' \<or> r = CHR ''/'') inner
                  then (True,
                    if from \<le> finish \<and> finish - from < META_TAG_MAX_SIZE
                    then put_meta (if start = 0 then mymeta else take (start - 1) mymeta)
                           (convert (substr mymeta from (finish - from))) d
                    else d)
                  else (False, d)))"

section \<open>The parser\<close>

text \<open>
  \<open>std::string(begin + title_start_pos, n)\<close>: \<open>begin\<close> already points at the last tag. The
  text and its terminator can be read.
\<close>

definition read_title :: "string \<Rightarrow> nat \<Rightarrow> nat \<Rightarrow> nat \<Rightarrow> string option" where
  "read_title s begin pos n = (let t = s @ [CHR 0x00] in
     if begin + pos + n \<le> length t then Some (substr t (begin + pos) n) else None)"

text \<open>The loop: \<open>p\<close> is the text not yet read, \<open>i\<close> its position.\<close>

fun html_loop ::
  "(string \<Rightarrow> string) \<Rightarrow> string \<Rightarrow> nat \<Rightarrow> string \<Rightarrow> nat \<Rightarrow> nat option \<Rightarrow> nat option \<Rightarrow> html_document \<Rightarrow> html_document option"
where
  "html_loop convert s begin [] i in_title in_meta d = Some d"
| "html_loop convert s begin (c # p) k in_title in_meta d =
     (let i = Suc k in
      if c \<noteq> CHR ''<'' \<and> c \<noteq> CHR ''>'' then html_loop convert s begin p i in_title in_meta d
      else if in_meta = None \<and> c = CHR ''<'' \<and> ci_check_tag ''title'' p
      then html_loop convert s begin p i (Some (i + 6)) in_meta d
      else if in_meta = None \<and> c = CHR ''<'' \<and> in_title \<noteq> None \<and> ci_check_tag ''/title'' p
      then do {
        mytitle \<leftarrow> read_title s begin (the in_title) (i - the in_title - 1);
        html_loop convert s begin p i None in_meta (d\<lparr>hd_title := convert mytitle, last_processed_tag := i\<rparr>) }
      else if in_meta = None \<and> c = CHR ''<'' \<and> ci_check_tag ''meta'' p
      then html_loop convert s begin p i in_title (Some (i + 5)) d
      else if in_meta = None \<and> c = CHR ''<'' \<and> ci_check_tag ''body'' p
      then Some (d\<lparr>last_processed_tag := i, has_body_tag := True\<rparr>)
      else if in_meta \<noteq> None \<and> c = CHR ''>''
      then
        let mymeta = substr s (the in_meta) (i - the in_meta);
            (found, d1) = find_meta convert mymeta CONTENT_SIGNATURE_DOUBLE CHR 0x22 d;
            (found, d1) = (if found then (True, d1) else find_meta convert mymeta CONTENT_SIGNATURE_SINGLE CHR 0x27 d)
        in if found then html_loop convert s begin p i in_title None (d1\<lparr>last_processed_tag := i\<rparr>)
           else html_loop convert s begin p i in_title in_meta d
      else html_loop convert s begin p i in_title in_meta d)"

definition html_parse :: "(string \<Rightarrow> string) \<Rightarrow> string \<Rightarrow> html_document \<Rightarrow> html_document option" where
  "html_parse convert s d =
     (if s = [] then Some d
      else if has_body_tag d then Some d
      else html_loop convert s (last_processed_tag d) (drop (last_processed_tag d) s) (last_processed_tag d) None None d)"

definition find_title :: "string \<Rightarrow> html_document \<Rightarrow> bool" where
  "find_title search_text d = (str_find (hd_title d) search_text 0 \<noteq> None)"

definition find_meta_text :: "string \<Rightarrow> html_document \<Rightarrow> bool" where
  "find_meta_text search_text d = list_ex (\<lambda>(k, v). str_find v search_text 0 \<noteq> None) (meta_tags d)"

section \<open>Reading a title\<close>

text \<open>A text that opens no tag the parser looks for.\<close>

fun quiet :: "string \<Rightarrow> string \<Rightarrow> bool" where
  "quiet [] rest = True"
| "quiet (c # p) rest \<longleftrightarrow> quiet p rest \<and> (c = CHR ''<'' \<longrightarrow>
     \<not> ci_check_tag ''title'' (p @ rest) \<and> \<not> ci_check_tag ''meta'' (p @ rest) \<and> \<not> ci_check_tag ''body'' (p @ rest))"

lemma html_loop_quiet:
  "quiet p rest \<Longrightarrow> html_loop convert s b (p @ rest) k None None d = html_loop convert s b rest (k + length p) None None d"
  by (induction p arbitrary: k) (auto simp: Let_def)

lemma html_loop_text:
  "CHR ''<'' \<notin> set p \<Longrightarrow> html_loop convert s b (p @ rest) k t None d = html_loop convert s b rest (k + length p) t None d"
  by (induction p arbitrary: k) (auto simp: Let_def)

lemma upper_letters:
  "to_upper CHR ''t'' = CHR ''T''" "to_upper CHR ''m'' = CHR ''M''" "to_upper CHR ''b'' = CHR ''B''"
  "to_upper CHR ''/'' = CHR ''/''" "to_upper CHR ''i'' = CHR ''I''" "to_upper CHR ''l'' = CHR ''L''"
  "to_upper CHR ''e'' = CHR ''E''" "to_upper CHR ''a'' = CHR ''A''" "to_upper CHR ''o'' = CHR ''O''"
  "to_upper CHR ''d'' = CHR ''D''" "to_upper CHR ''y'' = CHR ''Y''"
  by code_simp+

lemma html_loop_open:
  "html_loop convert s b (''<title>'' @ rest) k None None d = html_loop convert s b rest (k + 7) (Some (k + 7)) None d"
proof -
  have "html_loop convert s b (CHR ''<'' # ''title>'' @ rest) k None None d
      = html_loop convert s b (''title>'' @ rest) (Suc k) (Some (Suc k + 6)) None d"
    by (subst html_loop.simps) (simp add: Let_def)
  also have "\<dots> = html_loop convert s b rest (Suc k + length ''title>'') (Some (Suc k + 6)) None d"
    by (rule html_loop_text) simp
  finally show ?thesis by (simp add: eval_nat_numeral)
qed

lemma html_loop_body:
  "html_loop convert s b (''<body>'' @ post) k None None d = Some (d\<lparr>last_processed_tag := Suc k, has_body_tag := True\<rparr>)"
proof -
  have "html_loop convert s b (CHR ''<'' # ''body>'' @ post) k None None d
      = Some (d\<lparr>last_processed_tag := Suc k, has_body_tag := True\<rparr>)"
    by (subst html_loop.simps) (simp add: Let_def upper_letters)
  then show ?thesis by simp
qed

lemma html_loop_close:
  "html_loop convert s b (''</title><body>'' @ post) k (Some j) None d =
     (case read_title s b j (k - j) of None \<Rightarrow> None
      | Some t \<Rightarrow> Some (d\<lparr>hd_title := convert t, last_processed_tag := k + 9, has_body_tag := True\<rparr>))"
proof -
  have "html_loop convert s b (CHR ''<'' # ''/title>'' @ ''<body>'' @ post) k (Some j) None d
      = do { t \<leftarrow> read_title s b j (k - j);
             html_loop convert s b (''/title>'' @ ''<body>'' @ post) (Suc k) None None (d\<lparr>hd_title := convert t, last_processed_tag := Suc k\<rparr>) }"
    by (subst html_loop.simps) (simp add: Let_def upper_letters)
  moreover have "html_loop convert s b (''/title>'' @ ''<body>'' @ post) (Suc k) None None e
      = Some (e\<lparr>last_processed_tag := k + 9, has_body_tag := True\<rparr>)" for e
    using html_loop_text [of "''/title>''" convert s b "''<body>'' @ post" "Suc k" None e]
      html_loop_body [of convert s b post "Suc k + 7" e] by (simp add: eval_nat_numeral)
  ultimately show ?thesis by (simp split: option.split)
qed

text \<open>
  the title of a page whose text is parsed for the first time is the text between its tags; but once
  another tag of the page has been read, the position of the title is counted from that tag and used from
  it again: the title is taken from elsewhere, and from behind the text when little of the page follows.
\<close>

theorem title_position:
  assumes "\<not> has_body_tag d" and "last_processed_tag d = length pre" and "quiet mid (''<title>'' @ t @ ''</title><body>'' @ post)"
    and "CHR ''<'' \<notin> set t" and "s = pre @ mid @ ''<title>'' @ t @ ''</title><body>'' @ post"
  shows "(pre = [] \<longrightarrow> map_option hd_title (html_parse convert s d) = Some (convert t))
    \<and> (length post + 15 < length pre \<longrightarrow> html_parse convert s d = None)"
proof -
  let ?n = "length pre + length mid + 7"
  have "html_parse convert s d = html_loop convert s (length pre) (mid @ ''<title>'' @ t @ ''</title><body>'' @ post) (length pre) None None d"
    using assms(1,2) by (simp add: html_parse_def assms(5))
  also have "\<dots> = html_loop convert s (length pre) (''</title><body>'' @ post) (?n + length t) (Some ?n) None d"
    by (simp only: html_loop_quiet [OF assms(3)] html_loop_open html_loop_text [OF assms(4)] add.assoc)
  finally have r: "html_parse convert s d = (case read_title s (length pre) ?n (length t) of None \<Rightarrow> None
      | Some x \<Rightarrow> Some (d\<lparr>hd_title := convert x, last_processed_tag := ?n + length t + 9, has_body_tag := True\<rparr>))"
    by (simp only: html_loop_close) simp
  have "read_title s 0 (length mid + 7) (length t) = Some t" if "pre = []"
    using that by (simp add: read_title_def substr_def assms(5) eval_nat_numeral)
  moreover have "read_title s (length pre) ?n (length t) = None" if "length post + 15 < length pre"
    using that by (simp add: read_title_def assms(5))
  ultimately show ?thesis by (auto simp: r)
qed

definition ex_meta_page :: string where
  "ex_meta_page = ''<meta name='' @ [CHR 0x22] @ ''a'' @ [CHR 0x22] @ '' content='' @ [CHR 0x22] @ ''b'' @ [CHR 0x22] @ ''>''"

lemma ex_meta_page_read:
  "map_option (\<lambda>d. (has_body_tag d, last_processed_tag d)) (html_parse id ex_meta_page html_document_clear)
    = Some (False, length ex_meta_page)"
  by code_simp

theorem title_position_witness:
  "map_option hd_title (html_parse id (''<html><title>hi</title><body>'') html_document_clear) = Some ''hi''
   \<and> (\<exists>d. html_parse id ex_meta_page html_document_clear = Some d
       \<and> html_parse id (ex_meta_page @ ''<title>hi</title><body>'') d = None)"
proof
  show "map_option hd_title (html_parse id (''<html><title>hi</title><body>'') html_document_clear) = Some ''hi''"
    using title_position [of html_document_clear "[]" "''<html>''" "''hi''" "[]" _ id]
    by (simp add: html_document_clear_def upper_letters)
  obtain d where d: "html_parse id ex_meta_page html_document_clear = Some d" "\<not> has_body_tag d"
    "last_processed_tag d = length ex_meta_page"
    using ex_meta_page_read by auto
  then have "html_parse id (ex_meta_page @ ''<title>hi</title><body>'') d = None"
    using title_position [of d ex_meta_page "[]" "''hi''" "[]" _ id] by (simp add: ex_meta_page_def)
  with d show "\<exists>d. html_parse id ex_meta_page html_document_clear = Some d
       \<and> html_parse id (ex_meta_page @ ''<title>hi</title><body>'') d = None" by blast
qed

end
