(* ===== verification/HttpHeaders.thy ===== *)
theory HttpHeaders
  imports Base64 Xml HtmlDoc
begin

text \<open>
  \<open>proxyserver/http_headers.h\<close>, \<open>http_headers.cpp\<close>, the header of a request or a response: its
  lines, the set of fields, the request that is sent to the server. The searches of \<open>boost::regex\<close>
  are arguments: \<open>first_line_of\<close> gives the three groups of the first line of a request,
  \<open>is_https\<close> tells whether \<open>(.*?):443\<close> is found.
\<close>

section \<open>Fields\<close>

record header_field =
  hf_key :: string
  hf_name :: string
  hf_value :: string

definition tolower :: "char \<Rightarrow> char" where
  "tolower c = (let n = (of_char c :: nat) in if 65 \<le> n \<and> n \<le> 90 then char_of (n + 32) else c)"

definition header_field_new :: "string \<Rightarrow> string \<Rightarrow> header_field" where
  "header_field_new name v = \<lparr>hf_key = map tolower name, hf_name = name, hf_value = v\<rparr>"

record http_headers =
  hh_original :: string
  first_line :: string
  hh_version :: string
  headers_set :: "header_field list"
  contentlen :: i32

definition http_headers_clear :: "'a http_headers_scheme \<Rightarrow> 'a http_headers_scheme" where
  "http_headers_clear h = h\<lparr>hh_original := [], first_line := [], hh_version := [], headers_set := [], contentlen := -1\<rparr>"

definition HEADER_DELIMITER :: string where [utm_consts]: "HEADER_DELIMITER = '': ''"

text \<open>\<open>boost::split(tokens, original, is_any_of(CRLF))\<close>: every carriage return and line feed ends a token.\<close>

fun split_any :: "(char \<Rightarrow> bool) \<Rightarrow> string \<Rightarrow> string list" where
  "split_any P [] = [[]]"
| "split_any P (c # s) =
     (if P c then [] # split_any P s
      else (case split_any P s of [] \<Rightarrow> [[c]] | t # ts \<Rightarrow> (c # t) # ts))"

definition is_crlf :: "char \<Rightarrow> bool" where "is_crlf c \<longleftrightarrow> c = CHR 0x0D \<or> c = CHR 0x0A"

definition parse_header_line :: "string \<Rightarrow> 'a http_headers_scheme \<Rightarrow> 'a http_headers_scheme" where
  "parse_header_line line h =
     (case str_find line HEADER_DELIMITER 0 of
        None \<Rightarrow> h
      | Some pos \<Rightarrow>
          let name = trim (take pos line); v = trim (drop (pos + length HEADER_DELIMITER) line) in
          if name \<noteq> [] \<and> v \<noteq> []
          then let f = header_field_new name v; h1 = h\<lparr>headers_set := headers_set h @ [f]\<rparr> in
            (if hf_key f = ''content-length'' then h1\<lparr>contentlen := parse_signed (hf_value f)\<rparr> else h1)
          else h)"

definition parse_headers :: "'a http_headers_scheme \<Rightarrow> 'a http_headers_scheme" where
  "parse_headers h =
     (let tokens = split_any is_crlf (hh_original h);
          h1 = (if hd tokens = [] then h else h\<lparr>first_line := hd tokens\<rparr>)
      in fold parse_header_line (filter (\<lambda>t. t \<noteq> []) (tl tokens)) h1)"

definition find_header :: "string \<Rightarrow> 'a http_headers_scheme \<Rightarrow> string option" where
  "find_header key h = map_option hf_value (find (\<lambda>f. hf_key f = key) (headers_set h))"

definition find_header_lower :: "string \<Rightarrow> bool \<Rightarrow> 'a http_headers_scheme \<Rightarrow> string" where
  "find_header_lower key lower h =
     (case find_header key h of None \<Rightarrow> [] | Some v \<Rightarrow> if lower then map tolower v else v)"

definition get_header :: "(string \<Rightarrow> 'b option) \<Rightarrow> string \<Rightarrow> 'b \<Rightarrow> 'a http_headers_scheme \<Rightarrow> 'b" where
  "get_header lexical key d h =
     (case find_header key h of None \<Rightarrow> d | Some v \<Rightarrow> (case lexical v of None \<Rightarrow> d | Some x \<Rightarrow> x))"

definition set_header :: "header_field \<Rightarrow> 'a http_headers_scheme \<Rightarrow> 'a http_headers_scheme" where
  "set_header f h =
     (if list_ex (\<lambda>g. hf_key g = hf_key f) (headers_set h)
      then h\<lparr>headers_set := update_first (\<lambda>g. hf_key g = hf_key f) (\<lambda>g. g\<lparr>hf_value := hf_value f\<rparr>) (headers_set h)\<rparr>
      else h\<lparr>headers_set := headers_set h @ [f]\<rparr>)"

definition remove_header :: "string \<Rightarrow> 'a http_headers_scheme \<Rightarrow> 'a http_headers_scheme" where
  "remove_header key h = h\<lparr>headers_set := remove_first (\<lambda>g. hf_key g = key) (headers_set h)\<rparr>"

section \<open>Requests\<close>

datatype request_types = request_unknown | http_thru_proxy | https_thru_proxy | direct_http
datatype connection_types = connection_unknown | connection_close | connection_keepalive

text \<open>The address of the client is \<open>None\<close> when it is no IPv4 address.\<close>

record request_http_headers = http_headers +
  reqtype :: request_types
  conntype :: connection_types
  client_addr :: "u32 option"
  client_port :: u16
  rq_method :: string
  original_url :: string
  rq_version :: string
  rq_url :: addrurl
  rq_referer :: addrurl
  postdata_raw :: "u8 list"
  request_for_server :: string

definition request_clear :: "request_http_headers \<Rightarrow> request_http_headers" where
  "request_clear r = (http_headers_clear r)\<lparr>reqtype := request_unknown, conntype := connection_unknown,
     client_port := 0, rq_method := [], original_url := [], postdata_raw := [], request_for_server := []\<rparr>"

definition get_hostname :: "request_http_headers \<Rightarrow> string" where
  "get_hostname r =
     (if reqtype r = direct_http then (case find_header ''host'' r of None \<Rightarrow> [] | Some h \<Rightarrow> h)
      else au_host (rq_url r))"

definition get_hostport :: "request_http_headers \<Rightarrow> string" where
  "get_hostport r = (if rq_method r = ''CONNECT'' then ''443'' else get_port (rq_url r))"

definition crlf :: string where "crlf = [CHR 0x0D, CHR 0x0A]"

definition header_line :: "header_field \<Rightarrow> string" where
  "header_line f = hf_name f @ '': '' @ hf_value f @ crlf"

definition request_line :: "request_http_headers \<Rightarrow> string" where
  "request_line r = rq_method r @ '' ''
     @ (if reqtype r = http_thru_proxy
        then au_path (rq_url r) @ (if au_query (rq_url r) \<noteq> [] then ''?'' @ au_query (rq_url r) else []) @ '' HTTP/1.1''
        else [])
     @ (if reqtype r = direct_http then original_url r @ '' HTTP/'' @ rq_version r else [])"

definition make_request_for_server :: "request_http_headers \<Rightarrow> request_http_headers" where
  "make_request_for_server r =
     (let r1 = (if reqtype r \<noteq> https_thru_proxy
                then remove_header ''proxy-connection'' (set_header (header_field_new ''Connection'' ''close'') r)
                else r)
      in r1\<lparr>request_for_server := request_line r1 @ crlf @ concat (map header_line (headers_set r1)) @ crlf\<rparr>)"

definition finish_request :: "(string \<Rightarrow> u32) \<Rightarrow> request_http_headers \<Rightarrow> request_http_headers" where
  "finish_request crc r =
     (let r1 = make_request_for_server r;
          conn = find_header_lower ''connection'' True r1;
          r2 = (if conn = ''close'' then r1\<lparr>conntype := connection_close\<rparr> else r1);
          r3 = (if conn = ''keepalive'' then r2\<lparr>conntype := connection_keepalive\<rparr> else r2)
      in r3\<lparr>rq_referer := parse_addrurl crc (find_header_lower ''referer'' True r3) (rq_referer r3)\<rparr>)"

definition parse_request ::
  "(string \<Rightarrow> u32) \<Rightarrow> (string \<Rightarrow> (string \<times> string \<times> string) option) \<Rightarrow> (string \<Rightarrow> bool)
     \<Rightarrow> request_http_headers \<Rightarrow> bool \<times> request_http_headers"
where
  "parse_request crc first_line_of is_https r0 =
     (let r = parse_headers r0;
          r = (case first_line_of (first_line r) of None \<Rightarrow> r
               | Some (m, u, v) \<Rightarrow> r\<lparr>rq_method := m, original_url := u, rq_version := v\<rparr>)
      in if rq_method r \<noteq> ''CONNECT''
         then if take 7 (original_url r) = ''http://''
              then (True, finish_request crc (r\<lparr>reqtype := http_thru_proxy, rq_url := parse_addrurl crc (original_url r) (rq_url r)\<rparr>))
              else let r = r\<lparr>reqtype := direct_http\<rparr> in
                (True, finish_request crc (r\<lparr>rq_url := parse_addrurl crc (''http://'' @ get_hostname r @ original_url r) (rq_url r)\<rparr>))
         else if is_https (original_url r)
              then let u = parse_addrurl crc (original_url r) (rq_url r) in
                (True, finish_request crc (r\<lparr>reqtype := https_thru_proxy, rq_url := parse_addrurl crc (original_url r) u\<rparr>))
              else (False, r))"

text \<open>\<open>decode_basic_authorization\<close>: user name and password, or the values passed in.\<close>

definition decode_basic_authorization :: "string option \<Rightarrow> string \<times> string \<Rightarrow> (string \<times> string) option" where
  "decode_basic_authorization auth up =
     (case auth of
        Some a \<Rightarrow>
          if take 6 a = ''Basic ''
          then do {
            (ok, bytes) \<leftarrow> b64_decode (dropWhile (\<lambda>c. c = CHR '' '') (drop 6 a)) False [];
            let t = map byte_char bytes;
            Some (case str_find t '':'' 0 of None \<Rightarrow> up | Some pos \<Rightarrow> (take pos t, drop (pos + 1) t)) }
          else Some up
      | None \<Rightarrow> Some up)"

section \<open>Fields of a text\<close>

definition no_break :: "string \<Rightarrow> bool" where "no_break s \<longleftrightarrow> list_all (\<lambda>c. \<not> is_crlf c) s"

definition trimmed :: "string \<Rightarrow> bool" where "trimmed s \<longleftrightarrow> s \<noteq> [] \<and> \<not> is_space (hd s) \<and> \<not> is_space (last s)"

definition field_ok :: "header_field \<Rightarrow> bool" where
  "field_ok f \<longleftrightarrow> hf_key f = map tolower (hf_name f) \<and> trimmed (hf_name f) \<and> trimmed (hf_value f)
     \<and> CHR '':'' \<notin> set (hf_name f) \<and> no_break (hf_name f) \<and> no_break (hf_value f)"

definition field_text :: "header_field \<Rightarrow> string" where "field_text f = hf_name f @ '': '' @ hf_value f"

lemma field_text_not_Nil: "field_text f \<noteq> []" by (simp add: field_text_def)

lemma header_line_text: "header_line f = field_text f @ crlf"
  by (simp add: header_line_def field_text_def)

lemma split_any_not_Nil [simp]: "split_any P s \<noteq> []"
  by (induction s) (auto split: list.splits)

lemma split_any_line: "list_all (\<lambda>c. \<not> P c) s \<Longrightarrow> P c \<Longrightarrow> split_any P (s @ c # t) = s # split_any P t"
  by (induction s) auto

lemma split_crlf: "no_break s \<Longrightarrow> split_any is_crlf (s @ crlf @ t) = s # [] # split_any is_crlf t"
  using split_any_line [of is_crlf s "CHR 0x0D" "CHR 0x0A # t"]
  by (simp add: no_break_def crlf_def is_crlf_def)

lemma split_header_lines:
  "list_all field_ok fs \<Longrightarrow> filter (\<lambda>t. t \<noteq> []) (split_any is_crlf (concat (map header_line fs) @ crlf))
    = map field_text fs"
proof (induction fs)
  case Nil
  show ?case using split_crlf [of "[]" "[]"] by (simp add: no_break_def)
next
  case (Cons f fs)
  have "no_break (field_text f)"
    using Cons.prems by (simp add: field_text_def field_ok_def no_break_def is_crlf_def)
  from split_crlf [OF this, of "concat (map header_line fs) @ crlf"] Cons show ?case
    by (simp add: header_line_text [of f] field_text_not_Nil)
qed

lemma read_field:
  assumes "field_ok f"
  shows "headers_set (parse_header_line (field_text f) h) = headers_set h @ [f]
    \<and> first_line (parse_header_line (field_text f) h) = first_line h"
proof -
  have "str_find (hf_name f @ '': '' @ hf_value f) HEADER_DELIMITER 0 = Some (length (hf_name f))"
    using str_find_first0 [of "'': ''" "hf_name f" "hf_value f"] assms by (simp add: field_ok_def HEADER_DELIMITER_def)
  moreover have "trim (hf_name f) = hf_name f" "trim (hf_value f) = hf_value f" "hf_name f \<noteq> []" "hf_value f \<noteq> []"
    using assms trim_id by (simp_all add: field_ok_def trimmed_def)
  moreover have "header_field_new (hf_name f) (hf_value f) = f"
    using assms by (simp add: header_field_new_def field_ok_def)
  ultimately show ?thesis by (simp add: parse_header_line_def HEADER_DELIMITER_def Let_def field_text_def)
qed

lemma read_fields:
  "list_all field_ok fs \<Longrightarrow>
   headers_set (fold parse_header_line (map field_text fs) h) = headers_set h @ fs
   \<and> first_line (fold parse_header_line (map field_text fs) h) = first_line h"
  by (induction fs arbitrary: h) (simp_all add: read_field)

lemma read_header_text:
  assumes "no_break l" and "l \<noteq> []" and "list_all field_ok fs"
    and "hh_original h = l @ crlf @ concat (map header_line fs) @ crlf"
  shows "headers_set (parse_headers h) = headers_set h @ fs" "first_line (parse_headers h) = l"
proof -
  have "split_any is_crlf (hh_original h) = l # [] # split_any is_crlf (concat (map header_line fs) @ crlf)"
    using split_crlf [OF assms(1)] by (simp add: assms(4))
  then have "parse_headers h = fold parse_header_line (map field_text fs) (h\<lparr>first_line := l\<rparr>)"
    using assms(2) split_header_lines [OF assms(3)] by (simp add: parse_headers_def Let_def)
  then show "headers_set (parse_headers h) = headers_set h @ fs" "first_line (parse_headers h) = l"
    using read_fields [OF assms(3), of "h\<lparr>first_line := l\<rparr>"] by auto
qed

section \<open>Setting and removing fields\<close>

lemma find_header_set:
  "find_header k (set_header f h) = (if k = hf_key f then Some (hf_value f) else find_header k h)"
proof (cases "list_ex (\<lambda>g. hf_key g = hf_key f) (headers_set h)")
  case True
  have "map_option hf_value (find (\<lambda>g. hf_key g = k) (update_first (\<lambda>g. hf_key g = hf_key f) (\<lambda>g. g\<lparr>hf_value := hf_value f\<rparr>) gs))
      = (if k = hf_key f then Some (hf_value f) else map_option hf_value (find (\<lambda>g. hf_key g = k) gs))"
    if "list_ex (\<lambda>g. hf_key g = hf_key f) gs"
    for gs :: "header_field list" using that by (induction gs) auto
  then show ?thesis using True by (simp add: set_header_def find_header_def)
next
  case False
  then have "find (\<lambda>g. hf_key g = hf_key f) (headers_set h) = None"
    by (simp add: find_None_set list_ex_iff)
  then show ?thesis using False by (auto simp: set_header_def find_header_def find_append split: option.splits)
qed

lemma set_header_keys:
  "map hf_key (headers_set (set_header f h)) = map hf_key (headers_set h)
    @ (if list_ex (\<lambda>g. hf_key g = hf_key f) (headers_set h) then [] else [hf_key f])"
proof -
  have "map hf_key (update_first P (\<lambda>g. g\<lparr>hf_value := v\<rparr>) gs) = map hf_key gs" for P v and gs :: "header_field list"
    by (induction gs) auto
  then show ?thesis by (simp add: set_header_def)
qed

lemma set_header_ok: "field_ok f \<Longrightarrow> list_all field_ok (headers_set h) \<Longrightarrow> list_all field_ok (headers_set (set_header f h))"
proof -
  assume f: "field_ok f" and h: "list_all field_ok (headers_set h)"
  have "list_all field_ok (update_first P (\<lambda>g. g\<lparr>hf_value := hf_value f\<rparr>) gs)" if "list_all field_ok gs" for P gs
    using that f by (induction gs) (auto simp: field_ok_def)
  with f h show ?thesis by (simp add: set_header_def)
qed

lemma find_header_remove:
  assumes "distinct (map hf_key (headers_set h))"
  shows "find_header k (remove_header j h) = (if k = j then None else find_header k h)"
proof -
  have "map_option hf_value (find (\<lambda>g. hf_key g = k) (remove_first (\<lambda>g. hf_key g = j) gs))
      = (if k = j then None else map_option hf_value (find (\<lambda>g. hf_key g = k) gs))" if "distinct (map hf_key gs)"
    for gs :: "header_field list"
    using that
  proof (induction gs)
    case (Cons g gs)
    have "find (\<lambda>f. hf_key f = hf_key g) gs = None" using Cons.prems by (auto simp: find_None_set) (metis imageI)
    then show ?case using Cons by auto
  qed simp
  with assms show ?thesis by (simp add: remove_header_def find_header_def)
qed

section \<open>Properties\<close>

text \<open>
  C35: the request the proxy writes for the server is read back with the same fields: only
  \<open>Connection\<close>, which is \<open>close\<close>, and \<open>Proxy-Connection\<close>, which is gone, differ from what the client sent.
\<close>

theorem forwarded_request_read_back:
  assumes "reqtype r = http_thru_proxy" and "no_break (request_line r)"
    and "list_all field_ok (headers_set r)" and "distinct (map hf_key (headers_set r))"
    and "headers_set h = []" and "hh_original h = request_for_server (make_request_for_server r)"
  shows "first_line (parse_headers h) = request_line r
    \<and> find_header k (parse_headers h) = (if k = ''connection'' then Some ''close''
        else if k = ''proxy-connection'' then None else find_header k r)"
proof -
  let ?f = "header_field_new ''Connection'' ''close''"
  let ?r = "remove_header ''proxy-connection'' (set_header ?f r)"
  have key: "hf_key ?f = ''connection''" "hf_value ?f = ''close''" by (simp_all add: header_field_new_def) (code_simp)
  have "field_ok ?f" unfolding field_ok_def by (auto simp: key) (code_simp)+
  then have ok: "list_all field_ok (headers_set (set_header ?f r))" by (rule set_header_ok [OF _ assms(3)])
  then have ok': "list_all field_ok (headers_set ?r)"
    using set_remove_first [of _ "headers_set (set_header ?f r)"] by (auto simp: remove_header_def list_all_iff)
  have "request_line ?r = request_line r"
    by (simp add: request_line_def remove_header_def set_header_def)
  moreover have "request_for_server (make_request_for_server r)
      = request_line ?r @ crlf @ concat (map header_line (headers_set ?r)) @ crlf"
    using assms(1) by (simp add: make_request_for_server_def Let_def)
  moreover have "request_line r \<noteq> []" by (simp add: request_line_def)
  ultimately have h: "headers_set (parse_headers h) = headers_set ?r" "first_line (parse_headers h) = request_line r"
    using read_header_text [OF assms(2) _ ok', of h] assms(5,6) by simp_all
  have "distinct (map hf_key (headers_set (set_header ?f r)))"
    using assms(4) by (auto simp: set_header_keys list_ex_iff)
  from find_header_remove [OF this, of k "''proxy-connection''"]
  have "find_header k ?r = (if k = ''connection'' then Some ''close''
        else if k = ''proxy-connection'' then None else find_header k r)"
    by (simp add: find_header_set key)
  with h show ?thesis by (simp add: find_header_def)
qed

theorem forwarded_request_read_back_witness:
  "\<exists>r. find_header ''host'' (parse_headers (r\<lparr>headers_set := [], hh_original := request_for_server (make_request_for_server r)\<rparr>))
      = Some ''h''
    \<and> find_header ''connection'' (parse_headers (r\<lparr>headers_set := [], hh_original := request_for_server (make_request_for_server r)\<rparr>))
      = Some ''close''"
proof -
  let ?r = "\<lparr>hh_original = [], first_line = [], hh_version = [], headers_set =
      [header_field_new ''Host'' ''h'', header_field_new ''Proxy-Connection'' ''x''], contentlen = -1,
      reqtype = http_thru_proxy, conntype = connection_unknown, client_addr = None, client_port = 0,
      rq_method = ''GET'', original_url = [], rq_version = [], rq_url = addrurl_new\<lparr>au_path := ''/a''\<rparr>,
      rq_referer = addrurl_new, postdata_raw = [], request_for_server = []\<rparr>"
  have fs: "header_field_new ''Host'' ''h'' = \<lparr>hf_key = ''host'', hf_name = ''Host'', hf_value = ''h''\<rparr>"
    "header_field_new ''Proxy-Connection'' ''x'' = \<lparr>hf_key = ''proxy-connection'', hf_name = ''Proxy-Connection'', hf_value = ''x''\<rparr>"
    by code_simp+
  have ok: "list_all field_ok [header_field_new ''Host'' ''h'', header_field_new ''Proxy-Connection'' ''x'']" by code_simp
  have l: "no_break (request_line ?r)" by code_simp
  have "find_header k (parse_headers (?r\<lparr>headers_set := [], hh_original := request_for_server (make_request_for_server ?r)\<rparr>))
      = (if k = ''connection'' then Some ''close'' else if k = ''proxy-connection'' then None else find_header k ?r)" for k
    using forwarded_request_read_back [of ?r "?r\<lparr>headers_set := [], hh_original := request_for_server (make_request_for_server ?r)\<rparr>" k] ok l
    by (simp add: fs)
  from this [of "''host''"] this [of "''connection''"] show ?thesis
    by (intro exI [of _ ?r]) (simp add: find_header_def fs)
qed

text \<open>
  the user name and the password a browser sends in an \<open>Authorization\<close> field arrive as they are,
  the password also with colons; a field without any credentials makes the decoder read in front of
  the text.
\<close>

theorem basic_authorization_read:
  assumes "CHR '':'' \<notin> set user"
  shows "decode_basic_authorization (Some (''Basic '' @ b64_encode (bytes_of (user @ '':'' @ password)) [])) up
      = Some (user, password)
    \<and> decode_basic_authorization (Some ''Basic '') up = None"
proof -
  let ?t = "user @ '':'' @ password"
  let ?b = "bytes_of ?t"
  have "dropWhile (\<lambda>c. c = CHR '' '') (b64_text ?b) = b64_text ?b"
    using b64_text_plain(2) by (intro dropWhile_none) metis
  moreover have "b64_decode (b64_text ?b) False [] = Some (True, ?b)"
    using b64_decode_encode [of ?b "[]"] by (simp add: bytes_of_def)
  moreover have "map byte_char (bytes_of s) = s" for s by (induction s) (simp_all add: bytes_of_def byte_char_of)
  moreover have "str_find ?t '':'' 0 = Some (length user)"
    using str_find_first0 [of "'':''" user password] assms by simp
  ultimately show ?thesis
    by (simp add: decode_basic_authorization_def b64_encode_text Let_def b64_decode_def [of "[]"] del: map_map)
qed

theorem basic_authorization_read_witness:
  "decode_basic_authorization (Some (''Basic '' @ b64_encode (bytes_of ''me:a:b'') [])) ([], []) = Some (''me'', ''a:b'')"
  using basic_authorization_read [of "''me''" "''a:b''" "([], [])"] by simp

end
