(* ===== verification/HttpBody.thy ===== *)
theory HttpBody
  imports HttpHeaders
begin

text \<open>
  \<open>proxyserver/http_headers.h\<close>, \<open>http_headers.cpp\<close>, the class \<open>response_http_headers\<close>: the status line,
  the body that arrives in buffers and is taken out of its chunks, and the pages the proxy writes itself.
  \<open>size_t\<close> is a natural number, \<open>unsigned int\<close> a word of 32 bits. The inflater of zlib is the argument
  \<open>gunzip\<close>, from all the bytes so far to their text; \<open>convert\<close> is the character conversion. The result
  \<open>None\<close> is a read outside the text by the parser of pages.
\<close>

section \<open>Responses\<close>

datatype content_transfer_encodings = encoding_none | encoding_chunked | encoding_compress | encoding_deflate
  | encoding_gzip | encoding_identity | encoding_unknown

definition parse_content_transfer_encoding :: "string \<Rightarrow> content_transfer_encodings" where
  "parse_content_transfer_encoding p =
     (if c_str p = [] then encoding_none
      else if c_str p = ''chunked'' then encoding_chunked
      else if c_str p = ''compress'' then encoding_compress
      else if c_str p = ''deflate'' then encoding_deflate
      else if c_str p = ''gzip'' then encoding_gzip
      else if c_str p = ''identity'' then encoding_identity
      else encoding_unknown)"

record chunk =
  ck_datasize :: u32
  ck_headersize :: u32
  ck_footersize :: u32

record response_http_headers = http_headers +
  transfer_encoding :: content_transfer_encodings
  content_encoding :: content_transfer_encodings
  response_code :: i32
  mime_type :: string
  rs_charset :: string
  is_html :: bool
  keep_connection :: bool
  in_chunk :: bool
  current_chunk_pos :: nat
  current_chunk_header :: string
  got_last_chunk :: bool
  rs_chunks :: "chunk list"
  chunks_total_length :: u32
  response_raw :: string
  response_unchunked :: string
  response_uncompressed :: string
  rs_doc :: html_document

text \<open>\<open>clear\<close> keeps \<open>current_chunk_header\<close> and \<open>doc\<close>.\<close>

definition response_clear :: "response_http_headers \<Rightarrow> response_http_headers" where
  "response_clear r = (http_headers_clear r)\<lparr>response_code := 0, transfer_encoding := encoding_none,
     content_encoding := encoding_none, got_last_chunk := False, in_chunk := False, current_chunk_pos := 0,
     rs_chunks := [], chunks_total_length := 0, mime_type := [], rs_charset := [], response_raw := [],
     response_unchunked := [], response_uncompressed := [], is_html := False, keep_connection := False\<rparr>"

definition response_new :: response_http_headers where
  "response_new = response_clear \<lparr>hh_original = [], first_line = [], hh_version = [], headers_set = [], contentlen = -1,
     transfer_encoding = encoding_none, content_encoding = encoding_none, response_code = 0, mime_type = [],
     rs_charset = [], is_html = False, keep_connection = False, in_chunk = False, current_chunk_pos = 0,
     current_chunk_header = [], got_last_chunk = False, rs_chunks = [], chunks_total_length = 0, response_raw = [],
     response_unchunked = [], response_uncompressed = [], rs_doc = html_document_clear\<rparr>"

text \<open>\<open>HTTP/(\d\.\d)\s+(\d\d\d)\s+(.*)\<close> at the start of a text, and its first occurrence.\<close>

definition status_here :: "string \<Rightarrow> (string \<times> string) option" where
  "status_here s =
     (case drop 5 s of
        a # dot # b # t \<Rightarrow>
          (case dropWhile is_space t of
             x # y # z # u \<Rightarrow>
               if take 5 s = ''HTTP/'' \<and> is_digit a \<and> dot = CHR ''.'' \<and> is_digit b \<and> is_space (hd t)
                 \<and> is_digit x \<and> is_digit y \<and> is_digit z \<and> u \<noteq> [] \<and> is_space (hd u)
               then Some ([a, dot, b], [x, y, z]) else None
           | _ \<Rightarrow> None)
      | _ \<Rightarrow> None)"

fun find_status :: "string \<Rightarrow> (string \<times> string) option" where
  "find_status [] = None"
| "find_status (c # s) = (case status_here (c # s) of Some m \<Rightarrow> Some m | None \<Rightarrow> find_status s)"

text \<open>\<open>(.*?);\s*charset=(.*)\<close>\<close>

fun find_charset :: "string \<Rightarrow> (string \<times> string) option" where
  "find_charset [] = None"
| "find_charset (c # s) =
     (let t = dropWhile is_space s in
      if c = CHR '';'' \<and> take 8 t = ''charset='' then Some ([], drop 8 t)
      else map_option (\<lambda>(m, ch). (c # m, ch)) (find_charset s))"

definition parse_response :: "response_http_headers \<Rightarrow> bool \<times> response_http_headers" where
  "parse_response r =
     (let r1 = parse_headers r in
      case find_status (first_line r1) of
        None \<Rightarrow> (False, r1)
      | Some (v, code) \<Rightarrow>
          let r2 = r1\<lparr>hh_version := v, response_code := parse_signed code,
                transfer_encoding := parse_content_transfer_encoding (find_header_lower ''transfer-encoding'' True r1),
                content_encoding := parse_content_transfer_encoding (find_header_lower ''content-encoding'' True r1)\<rparr>;
              content_type = find_header_lower ''content-type'' True r2
          in (True, case find_charset content_type of
                None \<Rightarrow> r2\<lparr>mime_type := content_type\<rparr>
              | Some (m, ch) \<Rightarrow> r2\<lparr>mime_type := m, rs_charset := ch, is_html := (m = ''text/html'' \<or> is_html r2)\<rparr>))"

definition parse_raw_response :: "string \<Rightarrow> response_http_headers \<Rightarrow> bool \<times> response_http_headers" where
  "parse_raw_response response r =
     (case strstr (c_str response) (crlf @ crlf) of
        None \<Rightarrow> (False, r)
      | Some n \<Rightarrow> parse_response (r\<lparr>hh_original := take (n + 4) response\<rparr>))"

section \<open>The body\<close>

definition LAST_CHUNK_SIGNATURE :: string where "LAST_CHUNK_SIGNATURE = ''0'' @ crlf @ crlf"

definition chunk_header_allowed :: "char \<Rightarrow> bool" where
  "chunk_header_allowed c \<longleftrightarrow> hex_digit_value c \<noteq> None \<or> c = CHR 0x0D \<or> c = CHR 0x0A"

definition addchunk :: "u32 \<Rightarrow> u32 \<Rightarrow> u32 \<Rightarrow> response_http_headers \<Rightarrow> response_http_headers" where
  "addchunk datasize headersize footersize r =
     r\<lparr>rs_chunks := rs_chunks r @ [\<lparr>ck_datasize = datasize, ck_headersize = headersize, ck_footersize = footersize\<rparr>],
       chunks_total_length := chunks_total_length r + datasize + headersize + footersize\<rparr>"

text \<open>\<open>ss >> std::hex >> datasize\<close>: the leading digits; a number that does not fit gives the largest.\<close>

fun hex_number :: "nat \<Rightarrow> string \<Rightarrow> nat" where
  "hex_number n [] = n"
| "hex_number n (c # s) = (case hex_digit_value c of None \<Rightarrow> n | Some d \<Rightarrow> hex_number (16 * n + d) s)"

definition read_hex_u32 :: "string \<Rightarrow> u32" where
  "read_hex_u32 s = (let n = hex_number 0 s in if int n < 0x100000000 then of_nat n else -1)"

record body_env =
  gunzip :: "string \<Rightarrow> string"
  html_convert :: "string \<Rightarrow> string \<Rightarrow> string"

definition parse_html :: "body_env \<Rightarrow> response_http_headers \<Rightarrow> (bool \<times> response_http_headers) option" where
  "parse_html e r = map_option (\<lambda>d. (True, r\<lparr>rs_doc := d\<rparr>))
     (html_parse (html_convert e (rs_charset r)) (response_uncompressed r) (rs_doc r))"

definition uncompress_gzip :: "body_env \<Rightarrow> string \<Rightarrow> response_http_headers \<Rightarrow> response_http_headers" where
  "uncompress_gzip e data r = r\<lparr>response_uncompressed := gunzip e data\<rparr>"

text \<open>\<open>add_rawbody\<close>: the first argument tells whether \<open>data\<close> is \<open>response_raw\<close>.\<close>

definition add_rawbody :: "body_env \<Rightarrow> bool \<Rightarrow> string \<Rightarrow> response_http_headers \<Rightarrow> (bool \<times> response_http_headers) option" where
  "add_rawbody e raw body r =
     (if body = [] \<or> \<not> is_html r then Some (True, r)
      else
        let data = (if raw then response_raw r else response_unchunked r) @ body;
            r1 = (if raw then r\<lparr>response_raw := data\<rparr> else r\<lparr>response_unchunked := data\<rparr>)
        in if raw \<and> transfer_encoding r = encoding_chunked then Some (True, r1)
           else if get_has_body_tag (rs_doc r1) then Some (True, r1)
           else
             let r2 = (if content_encoding r1 = encoding_gzip then uncompress_gzip e data r1 else r1);
                 r3 = (if content_encoding r2 = encoding_none \<or> content_encoding r2 = encoding_identity
                       then r2\<lparr>response_uncompressed := response_uncompressed r2 @ body\<rparr> else r2)
             in parse_html e r3)"

text \<open>What \<open>add_rawbody\<close> changes; it never refuses a body.\<close>

lemma add_rawbody_Some:
  assumes "add_rawbody e raw b r = Some (ok, r')"
  shows "ok \<and> (\<exists>u d. r' = r\<lparr>response_raw := if raw \<and> is_html r then response_raw r @ b else response_raw r,
    response_unchunked := if raw \<or> \<not> is_html r then response_unchunked r else response_unchunked r @ b,
    response_uncompressed := u, rs_doc := d\<rparr> \<and> (has_body_tag (rs_doc r) \<longrightarrow> d = rs_doc r))"
  using assms
  by (cases r; cases raw) (auto simp: add_rawbody_def parse_html_def uncompress_gzip_def get_has_body_tag_def Let_def split: if_splits)

lemma add_rawbody_in_chunk: "add_rawbody e raw b r = Some (ok, r') \<Longrightarrow> in_chunk r' = in_chunk r"
  using add_rawbody_Some by fastforce

text \<open>The loop of \<open>process_rawbody\<close>: \<open>s\<close> is the text from \<open>begin + pos\<close> on, \<open>len\<close> the length of the buffer.\<close>

function rawbody_loop ::
  "body_env \<Rightarrow> nat \<Rightarrow> string \<Rightarrow> response_http_headers \<Rightarrow> (bool \<times> response_http_headers) option"
where
  "rawbody_loop e len s r =
     (if s = [] then Some (True, r)
      else if in_chunk r then
        (if rs_chunks r = [] then None
         else let datasize = unat (ck_datasize (last (rs_chunks r))) in
         if datasize < current_chunk_pos r + len then
           let copylen = min (datasize - current_chunk_pos r) (length s) in
           (case add_rawbody e False (take copylen s) (r\<lparr>in_chunk := False, current_chunk_header := []\<rparr>) of
              None \<Rightarrow> None
            | Some (ok, r') \<Rightarrow> if \<not> ok then Some (False, r') else rawbody_loop e len (drop copylen s) r')
         else add_rawbody e False s (r\<lparr>current_chunk_pos := current_chunk_pos r + length s\<rparr>))
      else
        let c = hd s;
            header = (if (current_chunk_header r \<noteq> [] \<or> \<not> is_crlf c) \<and> chunk_header_allowed c
                      then current_chunk_header r @ [c] else current_chunk_header r);
            r1 = r\<lparr>current_chunk_header := header\<rparr>
        in case str_find header crlf 0 of
             None \<Rightarrow> rawbody_loop e len (tl s) r1
           | Some p \<Rightarrow>
               if str_find header LAST_CHUNK_SIGNATURE 0 \<noteq> None
               then Some (True, addchunk 0 5 0 (r1\<lparr>got_last_chunk := True\<rparr>))
               else let datasize = read_hex_u32 (take p header) in
                 rawbody_loop e len (tl s)
                   (if 0 < datasize
                    then (addchunk datasize (of_nat (length header)) 2 r1)\<lparr>in_chunk := True, current_chunk_pos := 0\<rparr>
                    else r1))"
  by pat_completeness auto
termination
proof (relation "measure (\<lambda>(e, len, s, r). 2 * length s + (if in_chunk r then 1 else 0))", goal_cases)
  case (2 e len s r datasize copylen res ok r')
  then show ?case by (auto dest!: add_rawbody_in_chunk simp: min_def)
next
  case (3 e len s r)
  then show ?case by (cases s) auto
next
  case (4 e len s r)
  then show ?case by (cases s) auto
qed simp

definition process_rawbody :: "body_env \<Rightarrow> string \<Rightarrow> response_http_headers \<Rightarrow> (bool \<times> response_http_headers) option" where
  "process_rawbody e s r =
     (case add_rawbody e True s r of
        None \<Rightarrow> None
      | Some (ok, r1) \<Rightarrow>
          if transfer_encoding r1 \<noteq> encoding_chunked then Some (ok, r1) else rawbody_loop e (length s) s r1)"

section \<open>Pages of the proxy\<close>

definition create_http_response :: "string \<Rightarrow> string \<Rightarrow> string option \<Rightarrow> bool \<Rightarrow> string \<Rightarrow> string" where
  "create_http_response code content_type wwwauth keep data =
     ''HTTP/1.1 '' @ code @ crlf @ ''Content type: '' @ content_type @ crlf
     @ (case wwwauth of None \<Rightarrow> [] | Some a \<Rightarrow> ''WWW-Authenticate: Basic realm='' @ [CHR 0x22] @ a @ [CHR 0x22] @ crlf)
     @ ''Expires: Thu, 01 Dec 1994 16:00:00 GMT'' @ crlf
     @ ''Content-Length: '' @ print_u (length data) @ crlf
     @ (if \<not> keep then ''Connection: close'' @ crlf @ crlf else [])
     @ data"

definition error_page :: "nat \<Rightarrow> string \<times> string" where
  "error_page code =
     (if code = 401 then ('' Authentication Required'',
        ''<html><body><p>Valid username and password is needed.</p><p>HTTP 401 Authentication Required</p></body></html>'')
      else if code = 404 then ('' Not Found'',
        ''<html><body><p>Unfortunately, the requested file is not found.</p><p>HTTP 404 Not Found</p></body></html>'')
      else if code = 500 then ('' Internal Server Error'',
        ''<html><body><p>There are internal error on server side.</p><p>HTTP 500 Internal Server Error</p></body></html>'')
      else if code = 501 then ('' Not Implemented'',
        ''<html><body><p>Method is not implemented.</p><p>HTTP 501 Not Implemented.</p></body></html>'')
      else ([], []))"

definition create_error_response :: "nat \<Rightarrow> string option \<Rightarrow> response_http_headers \<Rightarrow> response_http_headers" where
  "create_error_response code wwwauth req = req\<lparr>response_raw := create_http_response
     (print_u code @ fst (error_page code)) ''text/html'' wwwauth (keep_connection req) (snd (error_page code))\<rparr>"

section \<open>Taking a body out of its chunks\<close>

declare rawbody_loop.simps [simp del]

definition chunk_size_ok :: "string \<Rightarrow> nat \<Rightarrow> bool" where
  "chunk_size_ok h n \<longleftrightarrow> h \<noteq> [] \<and> (\<forall>c \<in> set h. hex_digit_value c \<noteq> None) \<and> hex_number 0 h = n \<and> 0 < n \<and> n < 2 ^ 32"

definition chunk_text :: "string \<times> string \<Rightarrow> string" where
  "chunk_text = (\<lambda>(h, d). h @ crlf @ d @ crlf)"

definition chunked_text :: "(string \<times> string) list \<Rightarrow> string" where
  "chunked_text cs = concat (map chunk_text cs) @ LAST_CHUNK_SIGNATURE"

lemma hex_not_crlf: "hex_digit_value c \<noteq> None \<Longrightarrow> \<not> is_crlf c \<and> c \<noteq> CHR 0x0D \<and> c \<noteq> CHR 0x0A"
  by (auto simp: hex_digit_value_def is_crlf_def)

lemma crlf_chars: "hd crlf = CHR 0x0D" "crlf \<noteq> []" "length crlf = 2" by (simp_all add: crlf_def)

lemma str_find_crlf_absent: "CHR 0x0D \<notin> set s \<Longrightarrow> str_find s crlf 0 = None"
  using str_find_absent [of crlf 0 s] by (simp add: crlf_chars)

lemma str_find_crlf_half: "CHR 0x0A \<notin> set s \<Longrightarrow> str_find s crlf 0 = None"
proof -
  assume s: "CHR 0x0A \<notin> set s"
  have "\<not> sublist crlf s" using s by (auto simp: sublist_def crlf_def)
  then have "strstr s crlf = None" using occurs_sublist [of s crlf] by (auto simp: strstr_None)
  then show ?thesis by (simp add: str_find_def)
qed

lemma loop_char:
  assumes "\<not> in_chunk r"
    and "h = (if (current_chunk_header r \<noteq> [] \<or> \<not> is_crlf c) \<and> chunk_header_allowed c
              then current_chunk_header r @ [c] else current_chunk_header r)"
    and "str_find h crlf 0 = None"
  shows "rawbody_loop e len (c # s) r = rawbody_loop e len s (r\<lparr>current_chunk_header := h\<rparr>)"
  by (subst rawbody_loop.simps) (use assms in \<open>simp add: Let_def del: rawbody_loop.simps\<close>)

lemma scan_size_digits:
  "\<lbrakk>\<forall>c \<in> set p. hex_digit_value c \<noteq> None; \<not> in_chunk r; CHR 0x0D \<notin> set (current_chunk_header r)\<rbrakk> \<Longrightarrow>
   rawbody_loop e len (p @ t) r = rawbody_loop e len t (r\<lparr>current_chunk_header := current_chunk_header r @ p\<rparr>)"
proof (induction p arbitrary: r)
  case (Cons c p)
  have c: "\<not> is_crlf c" "c \<noteq> CHR 0x0D" "chunk_header_allowed c"
    using Cons.prems(1) hex_not_crlf [of c] by (auto simp: chunk_header_allowed_def)
  then have "str_find (current_chunk_header r @ [c]) crlf 0 = None"
    using Cons.prems(3) by (intro str_find_crlf_absent) simp
  then have "rawbody_loop e len (c # p @ t) r = rawbody_loop e len (p @ t) (r\<lparr>current_chunk_header := current_chunk_header r @ [c]\<rparr>)"
    using c Cons.prems(2) by (intro loop_char) simp_all
  then show ?case using Cons.IH [of "r\<lparr>current_chunk_header := current_chunk_header r @ [c]\<rparr>"] Cons.prems c by simp
qed simp

lemma read_hex_size: "chunk_size_ok h n \<Longrightarrow> read_hex_u32 h = of_nat n"
  by (simp add: chunk_size_ok_def read_hex_u32_def Let_def)

lemma chunk_size_word:
  assumes "0 < n" and "n < 2 ^ 32"
  shows "(0 :: u32) < of_nat n" and "unat (of_nat n :: u32) = n"
proof -
  have "\<not> 2 ^ 32 dvd n" using assms nat_dvd_not_less by blast
  then show "(0 :: u32) < of_nat n" by (simp add: word_gt_0 word_of_nat_eq_0_iff)
  show "unat (of_nat n :: u32) = n" using assms(2) by (simp add: unat_of_nat take_bit_nat_eq_self)
qed

lemma last_chunk_absent: "CHR 0x0D \<notin> set h \<Longrightarrow> str_find (h @ crlf) LAST_CHUNK_SIGNATURE 0 = None"
proof -
  assume h: "CHR 0x0D \<notin> set h"
  have "\<not> sublist LAST_CHUNK_SIGNATURE (h @ crlf)"
  proof
    assume "sublist LAST_CHUNK_SIGNATURE (h @ crlf)"
    then obtain u v where "h @ crlf = u @ LAST_CHUNK_SIGNATURE @ v" by (auto simp: sublist_def)
    then have "length (filter (\<lambda>c. c = CHR 0x0D) (h @ crlf)) = length (filter (\<lambda>c. c = CHR 0x0D) (u @ LAST_CHUNK_SIGNATURE @ v))"
      by (rule arg_cong)
    moreover have "filter (\<lambda>c. c = CHR 0x0D) h = []" using h by (auto simp: filter_empty_conv)
    ultimately show False by (simp add: LAST_CHUNK_SIGNATURE_def crlf_def)
  qed
  then have "strstr (h @ crlf) LAST_CHUNK_SIGNATURE = None"
    using occurs_sublist [of "h @ crlf" LAST_CHUNK_SIGNATURE] by (auto simp: strstr_None)
  then show ?thesis by (simp add: str_find_def)
qed

lemma loop_header_end:
  assumes "chunk_size_ok h n" and "\<not> in_chunk r" and "current_chunk_header r = h @ [CHR 0x0D]"
  shows "rawbody_loop e len (CHR 0x0A # t) r = rawbody_loop e len t
    ((addchunk (of_nat n) (of_nat (length h + 2)) 2 (r\<lparr>current_chunk_header := h @ crlf\<rparr>))
       \<lparr>in_chunk := True, current_chunk_pos := 0\<rparr>)"
proof -
  have "\<forall>c \<in> set h. hex_digit_value c \<noteq> None" using assms(1) by (simp add: chunk_size_ok_def)
  then have cr: "CHR 0x0D \<notin> set h" using hex_not_crlf by blast
  have a: "chunk_header_allowed CHR 0x0A" by (simp add: chunk_header_allowed_def)
  have f: "str_find (h @ crlf) crlf 0 = Some (length h)"
    using str_find_first0 [of crlf h "[]"] cr by (simp add: crlf_chars)
  have p: "read_hex_u32 h = of_nat n" "(0 :: u32) < of_nat n"
    using assms(1) read_hex_size [OF assms(1)] chunk_size_word by (auto simp: chunk_size_ok_def)
  have c: "h @ [CHR 0x0D, CHR 0x0A] = h @ crlf" by (simp add: crlf_def)
  show ?thesis
    by (subst rawbody_loop.simps)
      (use assms(2,3) a p f last_chunk_absent [OF cr] in \<open>simp add: Let_def c crlf_chars\<close>)
qed

lemma scan_header:
  assumes "chunk_size_ok h n" and "\<not> in_chunk r" and "current_chunk_header r = []"
  shows "rawbody_loop e len (h @ crlf @ t) r = rawbody_loop e len t
    ((addchunk (of_nat n) (of_nat (length h + 2)) 2 (r\<lparr>current_chunk_header := h @ crlf\<rparr>))
       \<lparr>in_chunk := True, current_chunk_pos := 0\<rparr>)"
proof -
  have h: "\<forall>c \<in> set h. hex_digit_value c \<noteq> None" "h \<noteq> []" using assms(1) by (auto simp: chunk_size_ok_def)
  then have cr: "CHR 0x0A \<notin> set h" using hex_not_crlf by blast
  have a: "chunk_header_allowed CHR 0x0D" by (simp add: chunk_header_allowed_def)
  let ?r = "r\<lparr>current_chunk_header := h\<rparr>" and ?r' = "r\<lparr>current_chunk_header := h @ [CHR 0x0D]\<rparr>"
  have "rawbody_loop e len (h @ crlf @ t) r = rawbody_loop e len (CHR 0x0D # CHR 0x0A # t) ?r"
    using scan_size_digits [OF h(1) assms(2), of e len "crlf @ t"] assms(3) by (simp add: crlf_def)
  also have "\<dots> = rawbody_loop e len (CHR 0x0A # t) ?r'"
    using loop_char [of ?r "h @ [CHR 0x0D]" "CHR 0x0D" e len "CHR 0x0A # t"] assms(2) h(2) a cr str_find_crlf_half [of "h @ [CHR 0x0D]"]
    by simp
  finally show ?thesis using loop_header_end [OF assms(1), of ?r' e len t] assms(2) by simp
qed

lemma skip_crlf:
  assumes "\<not> in_chunk r" and "current_chunk_header r = []"
  shows "rawbody_loop e len (crlf @ t) r = rawbody_loop e len t r"
proof -
  have r: "r\<lparr>current_chunk_header := []\<rparr> = r" using assms(2) by (cases r) simp
  have "str_find [] crlf 0 = None" by code_simp
  then have "rawbody_loop e len (c # s) r = rawbody_loop e len s r" if "is_crlf c" for c s
    using loop_char [of r "[]" c e len s] assms that r by simp
  then show ?thesis by (simp add: crlf_def is_crlf_def)
qed

text \<open>The data of a chunk that a buffer holds, all of it (\<open>t\<close> is what follows) or up to its end.\<close>

lemma take_data:
  assumes "in_chunk r" and "rs_chunks r \<noteq> []" and "unat (ck_datasize (last (rs_chunks r))) = current_chunk_pos r + n"
    and "n < len" and "length d = n \<or> length d < n \<and> t = []" and "d \<noteq> []"
  shows "rawbody_loop e len (d @ t) r =
    (case add_rawbody e False d (r\<lparr>in_chunk := False, current_chunk_header := []\<rparr>) of
       None \<Rightarrow> None | Some (ok, r') \<Rightarrow> if \<not> ok then Some (False, r') else rawbody_loop e len t r')"
proof -
  have "take (min n (length (d @ t))) (d @ t) = d" "drop (min n (length (d @ t))) (d @ t) = t" using assms(5) by auto
  then show ?thesis
    by (subst rawbody_loop.simps)
      (use assms(1-4,6) in \<open>simp add: Let_def del: take_append drop_append length_append split: option.split\<close>)
qed

lemma hold_data:
  assumes "in_chunk r" and "rs_chunks r \<noteq> []" and "current_chunk_pos r + len \<le> unat (ck_datasize (last (rs_chunks r)))"
    and "d \<noteq> []"
  shows "rawbody_loop e len d r = add_rawbody e False d (r\<lparr>current_chunk_pos := current_chunk_pos r + length d\<rparr>)"
  by (subst rawbody_loop.simps) (use assms in \<open>simp add: Let_def\<close>)

text \<open>\<open>r'\<close> is \<open>r\<close> after the body \<open>d\<close> has been taken out of its chunks.\<close>

definition body_taken :: "string \<Rightarrow> response_http_headers \<Rightarrow> response_http_headers \<Rightarrow> bool" where
  "body_taken d r r' \<longleftrightarrow> is_html r' = is_html r
     \<and> response_unchunked r' = (if is_html r then response_unchunked r @ d else response_unchunked r)
     \<and> (has_body_tag (rs_doc r) \<longrightarrow> has_body_tag (rs_doc r'))"

definition page_unread :: "response_http_headers \<Rightarrow> bool" where
  "page_unread r \<longleftrightarrow> is_html r \<and> \<not> has_body_tag (rs_doc r)"

lemma add_rawbody_result:
  "case add_rawbody e False d r of None \<Rightarrow> page_unread r
   | Some (ok, r') \<Rightarrow> ok \<and> body_taken d r r' \<and> in_chunk r' = in_chunk r \<and> current_chunk_pos r' = current_chunk_pos r
       \<and> current_chunk_header r' = current_chunk_header r \<and> got_last_chunk r' = got_last_chunk r \<and> rs_chunks r' = rs_chunks r
       \<and> transfer_encoding r' = transfer_encoding r"
proof (cases "add_rawbody e False d r")
  case None
  then show ?thesis by (auto simp: page_unread_def add_rawbody_def get_has_body_tag_def Let_def split: if_splits)
next
  case (Some x)
  then obtain ok r' where x: "add_rawbody e False d r = Some (ok, r')" by (cases x) simp
  show ?thesis using add_rawbody_Some [OF x] by (auto simp: x body_taken_def)
qed

definition decoder_idle :: "response_http_headers \<Rightarrow> bool" where
  "decoder_idle r \<longleftrightarrow> \<not> in_chunk r \<and> current_chunk_header r = []"

lemma one_chunk:
  assumes "chunk_size_ok h (length d)" and "decoder_idle r" and "length d < len"
  shows "rawbody_loop e len (chunk_text (h, d) @ t) r = None \<and> page_unread r
    \<or> (\<exists>r'. rawbody_loop e len (chunk_text (h, d) @ t) r = rawbody_loop e len t r' \<and> decoder_idle r' \<and> body_taken d r r'
        \<and> got_last_chunk r' = got_last_chunk r)"
proof -
  let ?r = "(addchunk (of_nat (length d)) (of_nat (length h + 2)) 2 (r\<lparr>current_chunk_header := h @ crlf\<rparr>))
       \<lparr>in_chunk := True, current_chunk_pos := 0\<rparr>"
  let ?q = "?r\<lparr>in_chunk := False, current_chunk_header := []\<rparr>"
  have n: "d \<noteq> []" "unat (of_nat (length d) :: u32) = length d"
    using assms(1) chunk_size_word(2) [of "length d"] by (auto simp: chunk_size_ok_def)
  have "rawbody_loop e len (chunk_text (h, d) @ t) r = rawbody_loop e len (d @ crlf @ t) ?r"
    using scan_header [OF assms(1), of r e len "d @ crlf @ t"] assms(2) by (simp add: chunk_text_def decoder_idle_def)
  also have "\<dots> = (case add_rawbody e False d ?q of None \<Rightarrow> None
      | Some (ok, r') \<Rightarrow> if \<not> ok then Some (False, r') else rawbody_loop e len (crlf @ t) r')"
    using n assms(3) by (intro take_data [where n = "length d"]) (simp_all add: addchunk_def)
  finally have l: "rawbody_loop e len (chunk_text (h, d) @ t) r = \<dots>" .
  note q = add_rawbody_result [where e = e and d = d and r = ?q]
  show ?thesis
  proof (cases "add_rawbody e False d ?q")
    case None
    then show ?thesis using q l by (simp add: page_unread_def addchunk_def)
  next
    case (Some x)
    then obtain ok r' where x: "add_rawbody e False d ?q = Some (ok, r')" by (cases x) simp
    then have r': "ok" "body_taken d r r'" "decoder_idle r'" "got_last_chunk r' = got_last_chunk r"
      using q by (simp_all add: body_taken_def decoder_idle_def addchunk_def)
    have "rawbody_loop e len (chunk_text (h, d) @ t) r = rawbody_loop e len t r'"
      using l x r'(1,3) skip_crlf [of r' e len t] by (simp add: decoder_idle_def)
    then show ?thesis using r' by blast
  qed
qed

definition chunks_ok :: "(string \<times> string) list \<Rightarrow> bool" where
  "chunks_ok cs \<longleftrightarrow> list_all (\<lambda>(h, d). chunk_size_ok h (length d)) cs"

lemma body_chunks:
  "\<lbrakk>chunks_ok cs; decoder_idle r; \<forall>x \<in> set cs. length (snd x) < len\<rbrakk> \<Longrightarrow>
   rawbody_loop e len (concat (map chunk_text cs) @ t) r = None \<and> page_unread r
    \<or> (\<exists>r'. rawbody_loop e len (concat (map chunk_text cs) @ t) r = rawbody_loop e len t r' \<and> decoder_idle r'
        \<and> body_taken (concat (map snd cs)) r r' \<and> got_last_chunk r' = got_last_chunk r)"
proof (induction cs arbitrary: r)
  case Nil
  then show ?case by (auto simp: body_taken_def)
next
  case (Cons x cs)
  obtain h d where x: "x = (h, d)" by (cases x)
  let ?t = "concat (map chunk_text cs) @ t"
  have c: "chunk_size_ok h (length d)" "chunks_ok cs" "length d < len" "\<forall>x \<in> set cs. length (snd x) < len"
    using Cons.prems by (auto simp: chunks_ok_def x)
  from one_chunk [OF c(1) Cons.prems(2) c(3), of e ?t] show ?case
  proof
    assume "rawbody_loop e len (chunk_text (h, d) @ ?t) r = None \<and> page_unread r"
    then show ?thesis by (simp add: x)
  next
    assume "\<exists>r'. rawbody_loop e len (chunk_text (h, d) @ ?t) r = rawbody_loop e len ?t r' \<and> decoder_idle r' \<and> body_taken d r r'
        \<and> got_last_chunk r' = got_last_chunk r"
    then obtain r' where r': "rawbody_loop e len (chunk_text (h, d) @ ?t) r = rawbody_loop e len ?t r'" "decoder_idle r'"
      "body_taken d r r'" "got_last_chunk r' = got_last_chunk r" by blast
    from Cons.IH [OF c(2) r'(2) c(4)] show ?thesis
    proof
      assume "rawbody_loop e len ?t r' = None \<and> page_unread r'"
      then show ?thesis using r' by (auto simp: x page_unread_def body_taken_def)
    next
      assume "\<exists>q. rawbody_loop e len ?t r' = rawbody_loop e len t q \<and> decoder_idle q \<and> body_taken (concat (map snd cs)) r' q
        \<and> got_last_chunk q = got_last_chunk r'"
      then obtain q where q: "rawbody_loop e len ?t r' = rawbody_loop e len t q" "decoder_idle q"
        "body_taken (concat (map snd cs)) r' q" "got_last_chunk q = got_last_chunk r'" by blast
      have "body_taken (concat (map snd (x # cs))) r q" using r'(3) q(3) by (auto simp: body_taken_def x)
      then show ?thesis using r' q by (auto simp: x)
    qed
  qed
qed

lemma last_chunk_text: "LAST_CHUNK_SIGNATURE = [CHR ''0'', CHR 0x0D, CHR 0x0A, CHR 0x0D, CHR 0x0A]"
  by (simp add: LAST_CHUNK_SIGNATURE_def crlf_def)

lemma last_chunk_allowed: "chunk_header_allowed CHR ''0''" "chunk_header_allowed CHR 0x0D" "chunk_header_allowed CHR 0x0A"
    "\<not> is_crlf CHR ''0''"
  by code_simp+

lemma last_chunk_found:
  "str_find [CHR ''0''] crlf 0 = None" "str_find [CHR ''0'', CHR 0x0D] crlf 0 = None"
  "str_find [CHR ''0'', CHR 0x0D, CHR 0x0A] crlf 0 = Some 1" "str_find [CHR ''0'', CHR 0x0D, CHR 0x0A, CHR 0x0D] crlf 0 = Some 1"
  "str_find LAST_CHUNK_SIGNATURE crlf 0 = Some 1" "str_find [CHR ''0'', CHR 0x0D, CHR 0x0A] LAST_CHUNK_SIGNATURE 0 = None"
  "str_find [CHR ''0'', CHR 0x0D, CHR 0x0A, CHR 0x0D] LAST_CHUNK_SIGNATURE 0 = None"
  "str_find LAST_CHUNK_SIGNATURE LAST_CHUNK_SIGNATURE 0 = Some 0" "read_hex_u32 ''0'' = 0"
  by code_simp+

lemma last_chunk_step:
  assumes "\<not> in_chunk r"
  shows "current_chunk_header r = [CHR ''0'', CHR 0x0D] \<Longrightarrow>
      rawbody_loop e len (CHR 0x0A # t) r = rawbody_loop e len t (r\<lparr>current_chunk_header := [CHR ''0'', CHR 0x0D, CHR 0x0A]\<rparr>)"
    and "current_chunk_header r = [CHR ''0'', CHR 0x0D, CHR 0x0A] \<Longrightarrow>
      rawbody_loop e len (CHR 0x0D # t) r = rawbody_loop e len t (r\<lparr>current_chunk_header := [CHR ''0'', CHR 0x0D, CHR 0x0A, CHR 0x0D]\<rparr>)"
    and "current_chunk_header r = [CHR ''0'', CHR 0x0D, CHR 0x0A, CHR 0x0D] \<Longrightarrow>
      rawbody_loop e len (CHR 0x0A # t) r
        = Some (True, addchunk 0 5 0 (r\<lparr>current_chunk_header := LAST_CHUNK_SIGNATURE, got_last_chunk := True\<rparr>))"
  by (subst rawbody_loop.simps;
      use assms last_chunk_allowed last_chunk_found in \<open>simp add: Let_def last_chunk_text [symmetric]\<close>)+

lemma last_chunk:
  assumes "decoder_idle r"
  shows "rawbody_loop e len (LAST_CHUNK_SIGNATURE @ t) r =
    Some (True, addchunk 0 5 0 (r\<lparr>current_chunk_header := LAST_CHUNK_SIGNATURE, got_last_chunk := True\<rparr>))"
  using assms last_chunk_allowed last_chunk_found unfolding last_chunk_text decoder_idle_def
  by (simp add: loop_char [of _ "[CHR ''0'']"] loop_char [of _ "[CHR ''0'', CHR 0x0D]"] last_chunk_step last_chunk_text)

lemma process_raw:
  assumes "transfer_encoding r = encoding_chunked"
  shows "\<exists>raw. process_rawbody e s r = rawbody_loop e (length s) s (r\<lparr>response_raw := raw\<rparr>)"
proof -
  have r: "r\<lparr>response_raw := response_raw r\<rparr> = r" by simp
  have "\<exists>raw. add_rawbody e True s r = Some (True, r\<lparr>response_raw := raw\<rparr>)"
    using assms by (auto simp: add_rawbody_def Let_def intro: exI [of _ "response_raw r"])
  then show ?thesis using assms by (auto simp: process_rawbody_def)
qed

text \<open>
  C11: a chunked body that arrives in one buffer is taken out of its chunks whole, and its last chunk is seen.
\<close>

theorem chunked_body_in_one_buffer:
  assumes "transfer_encoding r = encoding_chunked" and "decoder_idle r" and "chunks_ok cs"
  shows "case process_rawbody e (chunked_text cs) r of
      None \<Rightarrow> is_html r \<and> \<not> has_body_tag (rs_doc r)
    | Some (ok, r') \<Rightarrow> ok \<and> got_last_chunk r'
        \<and> response_unchunked r' = response_unchunked r @ (if is_html r then concat (map snd cs) else [])"
proof -
  obtain raw where p: "process_rawbody e (chunked_text cs) r
      = rawbody_loop e (length (chunked_text cs)) (chunked_text cs) (r\<lparr>response_raw := raw\<rparr>)"
    using process_raw [OF assms(1)] by blast
  have "length (snd x) < length (chunked_text cs)" if "x \<in> set cs" for x
  proof -
    from split_list [OF that] obtain as bs where "cs = as @ x # bs" by blast
    then show ?thesis by (cases x) (simp add: chunked_text_def chunk_text_def LAST_CHUNK_SIGNATURE_def)
  qed
  moreover have "decoder_idle (r\<lparr>response_raw := raw\<rparr>)" using assms(2) by (simp add: decoder_idle_def)
  ultimately have "rawbody_loop e (length (chunked_text cs)) (chunked_text cs) (r\<lparr>response_raw := raw\<rparr>) = None \<and> page_unread r
    \<or> (\<exists>r'. rawbody_loop e (length (chunked_text cs)) (chunked_text cs) (r\<lparr>response_raw := raw\<rparr>)
          = rawbody_loop e (length (chunked_text cs)) LAST_CHUNK_SIGNATURE r' \<and> decoder_idle r'
        \<and> body_taken (concat (map snd cs)) r r')"
    using body_chunks [OF assms(3), of "r\<lparr>response_raw := raw\<rparr>" "length (chunked_text cs)" e LAST_CHUNK_SIGNATURE]
    by (auto simp: chunked_text_def page_unread_def body_taken_def)
  then show ?thesis
    unfolding p using last_chunk [of _ e "length (chunked_text cs)" "[]"]
    by (auto simp: page_unread_def body_taken_def addchunk_def)
qed

definition ex_page :: "response_http_headers" where
  "ex_page = response_new\<lparr>transfer_encoding := encoding_chunked, is_html := True,
     rs_doc := html_document_clear\<lparr>has_body_tag := True\<rparr>\<rparr>"

definition ex_env :: body_env where "ex_env = \<lparr>gunzip = id, html_convert = (\<lambda>c. id)\<rparr>"

lemma ex_page_idle: "decoder_idle ex_page" "transfer_encoding ex_page = encoding_chunked" "is_html ex_page"
    "has_body_tag (rs_doc ex_page)" "response_unchunked ex_page = []" by code_simp+

lemma ex_chunk_ok: "chunk_size_ok ''5'' (length ''hello'')" "chunk_size_ok ''C'' (length '' brave world'')"
  by (simp_all add: chunk_size_ok_def hex_digit_value_def)

theorem chunked_body_in_one_buffer_witness:
  "\<exists>r'. process_rawbody ex_env (chunked_text [(''5'', ''hello''), (''C'', '' brave world'')]) ex_page = Some (True, r')
     \<and> got_last_chunk r' \<and> response_unchunked r' = ''hello brave world''"
proof -
  have "chunks_ok [(''5'', ''hello''), (''C'', '' brave world'')]" using ex_chunk_ok by (simp add: chunks_ok_def)
  from chunked_body_in_one_buffer [OF ex_page_idle(2,1) this, of ex_env] show ?thesis
    using ex_page_idle by (auto split: option.splits)
qed

section \<open>Bodies cut into buffers\<close>

lemma take_data_end:
  assumes "in_chunk r" and "rs_chunks r \<noteq> []" and "unat (ck_datasize (last (rs_chunks r))) = current_chunk_pos r + n"
    and "n < len" and "length d < n" and "d \<noteq> []"
  shows "rawbody_loop e len d r = add_rawbody e False d (r\<lparr>in_chunk := False, current_chunk_header := []\<rparr>)"
proof -
  have "rawbody_loop e len d r =
    (case add_rawbody e False d (r\<lparr>in_chunk := False, current_chunk_header := []\<rparr>) of
       None \<Rightarrow> None | Some (ok, r') \<Rightarrow> if \<not> ok then Some (False, r') else rawbody_loop e len [] r')"
    using take_data [OF assms(1-4) _ assms(6), of "[]"] assms(5) by simp
  then show ?thesis
    by (auto simp: rawbody_loop.simps [of e len "[]"] split: option.split)
qed

text \<open>
  C29: a buffer that ends inside a chunk leaves the decoder in the chunk only when the whole buffer is not
  longer than the chunk; otherwise what is left of the chunk is read as the size of another one.
\<close>

theorem chunk_cut_by_buffer:
  assumes "transfer_encoding r = encoding_chunked" and "decoder_idle r" and "chunks_ok cs"
    and "chunk_size_ok h (length (d1 @ d2))" and "d1 \<noteq> []" and "d2 \<noteq> []"
    and "buf = concat (map chunk_text cs) @ h @ crlf @ d1"
  shows "case process_rawbody e buf r of
      None \<Rightarrow> is_html r \<and> \<not> has_body_tag (rs_doc r)
    | Some (ok, r') \<Rightarrow> ok \<and> (in_chunk r' \<longleftrightarrow> length buf \<le> length (d1 @ d2))
        \<and> response_unchunked r' = response_unchunked r @ (if is_html r then concat (map snd cs) @ d1 else [])"
proof -
  let ?n = "length (d1 @ d2)"
  obtain raw where p: "process_rawbody e buf r = rawbody_loop e (length buf) buf (r\<lparr>response_raw := raw\<rparr>)"
    using process_raw [OF assms(1)] by blast
  have "length (snd x) < length buf" if "x \<in> set cs" for x
  proof -
    from split_list [OF that] obtain as bs where "cs = as @ x # bs" by blast
    then show ?thesis by (cases x) (simp add: assms(7) chunk_text_def crlf_def)
  qed
  moreover have "decoder_idle (r\<lparr>response_raw := raw\<rparr>)" using assms(2) by (simp add: decoder_idle_def)
  ultimately consider "rawbody_loop e (length buf) buf (r\<lparr>response_raw := raw\<rparr>) = None" "page_unread r"
    | q where "rawbody_loop e (length buf) buf (r\<lparr>response_raw := raw\<rparr>) = rawbody_loop e (length buf) (h @ crlf @ d1) q"
        "decoder_idle q" "body_taken (concat (map snd cs)) r q"
    using body_chunks [OF assms(3), of "r\<lparr>response_raw := raw\<rparr>" "length buf" e "h @ crlf @ d1"]
    by (auto simp: assms(7) page_unread_def body_taken_def)
  then show ?thesis
  proof cases
    case 1
    then show ?thesis by (simp add: p page_unread_def)
  next
    case (2 q)
    let ?q = "(addchunk (of_nat ?n) (of_nat (length h + 2)) 2 (q\<lparr>current_chunk_header := h @ crlf\<rparr>))
       \<lparr>in_chunk := True, current_chunk_pos := 0\<rparr>"
    have n: "unat (of_nat ?n :: u32) = ?n" using assms(4) chunk_size_word(2) [of ?n] by (simp add: chunk_size_ok_def)
    have q: "in_chunk ?q" "rs_chunks ?q \<noteq> []" "unat (ck_datasize (last (rs_chunks ?q))) = current_chunk_pos ?q + ?n"
      using n by (simp_all add: addchunk_def)
    have l: "process_rawbody e buf r = rawbody_loop e (length buf) d1 ?q"
      using p 2(1) scan_header [OF assms(4), of q e "length buf" d1] 2(2) by (simp add: decoder_idle_def)
    define s where "s = (if length buf \<le> ?n then ?q\<lparr>current_chunk_pos := length d1\<rparr> else ?q\<lparr>in_chunk := False, current_chunk_header := []\<rparr>)"
    have "rawbody_loop e (length buf) d1 ?q = add_rawbody e False d1 s"
    proof (cases "length buf \<le> ?n")
      case True
      then have "current_chunk_pos ?q + length buf \<le> unat (ck_datasize (last (rs_chunks ?q)))" using n by (simp add: addchunk_def)
      from hold_data [OF q(1,2) this assms(5)] show ?thesis using True by (simp add: s_def)
    next
      case False
      then show ?thesis using take_data_end [OF q _ _ assms(5), of "length buf" e] assms(6) by (simp add: s_def)
    qed
    moreover have "page_unread s = page_unread q" "is_html s = is_html q" "response_unchunked s = response_unchunked q"
      "in_chunk s = (length buf \<le> ?n)" by (simp_all add: s_def page_unread_def addchunk_def)
    ultimately show ?thesis
      using l 2(3) add_rawbody_result [where e = e and d = d1 and r = s]
      by (auto simp: page_unread_def body_taken_def split: option.splits)
  qed
qed

theorem chunk_cut_by_buffer_witness:
  "\<exists>r'. process_rawbody ex_env (''5'' @ crlf @ ''abcd'') ex_page = Some (True, r') \<and> \<not> in_chunk r'
    \<and> (\<exists>q. process_rawbody ex_env (''e'' @ crlf @ LAST_CHUNK_SIGNATURE) r' = Some (True, q) \<and> \<not> got_last_chunk q
          \<and> response_unchunked q = ''abcd'' @ LAST_CHUNK_SIGNATURE)"
proof -
  have c: "case process_rawbody ex_env (''5'' @ crlf @ ''abcd'') ex_page of None \<Rightarrow> False
    | Some (ok, r') \<Rightarrow> (case process_rawbody ex_env (''e'' @ crlf @ LAST_CHUNK_SIGNATURE) r' of None \<Rightarrow> False
        | Some (ok, q) \<Rightarrow> ok \<and> \<not> got_last_chunk q \<and> response_unchunked q = ''abcd'' @ LAST_CHUNK_SIGNATURE)"
    by code_simp
  have "chunk_size_ok ''5'' (length (''abcd'' @ ''e''))" "chunks_ok []" using ex_chunk_ok by (simp_all add: chunks_ok_def)
  from chunk_cut_by_buffer [OF ex_page_idle(2,1) this(2,1) _ _ refl, of ex_env] c show ?thesis
    by (auto simp: crlf_chars split: option.splits)
qed

section \<open>Pages of the proxy read back\<close>

text \<open>
  a page the proxy writes for an error is read back with its code and the length of its body, but has
  no content type; when the connection is to be kept, its header has no end.
\<close>

theorem error_pages_read_back:
  "\<forall>code \<in> set [401, 404, 500, 501].
     (case parse_raw_response (response_raw (create_error_response code None (response_new\<lparr>keep_connection := k\<rparr>))) response_new of
        (ok, r) \<Rightarrow> ok = (\<not> k) \<and> (\<not> k \<longrightarrow> response_code r = of_nat code
          \<and> contentlen r = of_nat (length (snd (error_page code))) \<and> mime_type r = []))"
  by (cases k; simp only:; code_simp)

section \<open>Bodies that arrive byte by byte\<close>

text \<open>The calls of \<open>http_server_read_body\<close>, which stops at a body that is refused.\<close>

fun process_buffers :: "body_env \<Rightarrow> string list \<Rightarrow> response_http_headers \<Rightarrow> (bool \<times> response_http_headers) option" where
  "process_buffers e [] r = Some (True, r)"
| "process_buffers e (b # bs) r =
     (case process_rawbody e b r of
        None \<Rightarrow> None
      | Some (ok, r') \<Rightarrow> if ok then process_buffers e bs r' else Some (False, r'))"

text \<open>The bytes of \<open>s\<close>, one in each buffer, lead from \<open>r\<close> to \<open>P\<close>, or to a page that cannot be read.\<close>

definition bytes_lead :: "body_env \<Rightarrow> string \<Rightarrow> response_http_headers \<Rightarrow> (response_http_headers \<Rightarrow> bool) \<Rightarrow> bool" where
  "bytes_lead e s r P \<longleftrightarrow> (case process_buffers e (map (\<lambda>c. [c]) s) r of
     None \<Rightarrow> page_unread r
   | Some (ok, r') \<Rightarrow> ok \<and> P r' \<and> is_html r' = is_html r \<and> (has_body_tag (rs_doc r) \<longrightarrow> has_body_tag (rs_doc r')))"

lemma bytes_lead_append:
  assumes "bytes_lead e s r P" and "\<And>q. P q \<Longrightarrow> bytes_lead e t q Q"
  shows "bytes_lead e (s @ t) r Q"
proof -
  have a: "process_buffers e (bs @ cs) r = (case process_buffers e bs r of None \<Rightarrow> None
      | Some (ok, r') \<Rightarrow> if ok then process_buffers e cs r' else Some (False, r'))" for bs cs r
    by (induction bs arbitrary: r) (auto split: option.split)
  show ?thesis
  proof (cases "process_buffers e (map (\<lambda>c. [c]) s) r")
    case None
    then show ?thesis using assms(1) by (simp add: bytes_lead_def a)
  next
    case (Some x)
    then obtain q where q: "process_buffers e (map (\<lambda>c. [c]) s) r = Some (True, q)" "P q" "is_html q = is_html r"
      "has_body_tag (rs_doc r) \<longrightarrow> has_body_tag (rs_doc q)"
      using assms(1) by (cases x) (auto simp: bytes_lead_def)
    then show ?thesis
      using assms(2) [OF q(2)] by (auto simp: bytes_lead_def a page_unread_def split: option.splits)
  qed
qed

lemma bytes_lead_Nil: "P r \<Longrightarrow> bytes_lead e [] r P"
  by (simp add: bytes_lead_def)

text \<open>The decoder between chunks, with a part of a header, and inside a chunk; \<open>u\<close> is the body taken so far.\<close>

definition between :: "string \<Rightarrow> string \<Rightarrow> string \<Rightarrow> response_http_headers \<Rightarrow> bool" where
  "between u0 h u r \<longleftrightarrow> \<not> in_chunk r \<and> current_chunk_header r = h \<and> transfer_encoding r = encoding_chunked
     \<and> response_unchunked r = u0 @ (if is_html r then u else [])"

definition inside :: "string \<Rightarrow> nat \<Rightarrow> nat \<Rightarrow> string \<Rightarrow> response_http_headers \<Rightarrow> bool" where
  "inside u0 n k u r \<longleftrightarrow> in_chunk r \<and> rs_chunks r \<noteq> [] \<and> unat (ck_datasize (last (rs_chunks r))) = n
     \<and> current_chunk_pos r = k \<and> transfer_encoding r = encoding_chunked
     \<and> response_unchunked r = u0 @ (if is_html r then u else [])"

lemma byte_lead:
  assumes "transfer_encoding r = encoding_chunked"
    and "\<And>raw. rawbody_loop e 1 [c] (r\<lparr>response_raw := raw\<rparr>) = Some (True, f raw)"
    and "\<And>raw. P (f raw) \<and> is_html (f raw) = is_html r \<and> rs_doc (f raw) = rs_doc r"
  shows "bytes_lead e [c] r P"
proof -
  obtain raw where "process_rawbody e [c] r = rawbody_loop e 1 [c] (r\<lparr>response_raw := raw\<rparr>)"
    using process_raw [OF assms(1), of e "[c]"] by auto
  then show ?thesis using assms(2,3) by (simp add: bytes_lead_def)
qed

lemma byte_between:
  assumes "between u0 h u r"
    and "h' = (if (h \<noteq> [] \<or> \<not> is_crlf c) \<and> chunk_header_allowed c then h @ [c] else h)" and "str_find h' crlf 0 = None"
  shows "bytes_lead e [c] r (between u0 h' u)"
proof (rule byte_lead)
  show "transfer_encoding r = encoding_chunked" using assms(1) by (simp add: between_def)
  show "rawbody_loop e 1 [c] (r\<lparr>response_raw := raw\<rparr>) = Some (True, r\<lparr>response_raw := raw, current_chunk_header := h'\<rparr>)" for raw
  proof -
    have "rawbody_loop e 1 [c] (r\<lparr>response_raw := raw\<rparr>) = rawbody_loop e 1 [] (r\<lparr>response_raw := raw, current_chunk_header := h'\<rparr>)"
      by (rule loop_char) (use assms in \<open>simp_all add: between_def\<close>)
    then show ?thesis by (simp add: rawbody_loop.simps [of e _ "[]"])
  qed
qed (use assms(1) in \<open>simp add: between_def\<close>)

lemma bytes_digits:
  "\<lbrakk>between u0 h u r; \<forall>c \<in> set p. hex_digit_value c \<noteq> None; CHR 0x0D \<notin> set h\<rbrakk> \<Longrightarrow> bytes_lead e p r (between u0 (h @ p) u)"
proof (induction p arbitrary: r h)
  case (Cons c p)
  have c: "\<not> is_crlf c" "c \<noteq> CHR 0x0D" "chunk_header_allowed c"
    using Cons.prems(2) hex_not_crlf [of c] by (auto simp: chunk_header_allowed_def)
  have "bytes_lead e [c] r (between u0 (h @ [c]) u)"
    by (rule byte_between [OF Cons.prems(1)]) (use c Cons.prems(3) in \<open>auto intro: str_find_crlf_absent\<close>)
  moreover have "bytes_lead e p q (between u0 (h @ c # p) u)" if "between u0 (h @ [c]) u q" for q
    using Cons.IH [OF that] Cons.prems c by simp
  ultimately show ?case using bytes_lead_append [of e "[c]" r _ p] by simp
qed (simp add: bytes_lead_Nil)

lemma bytes_header:
  assumes "between u0 [] u r" and "chunk_size_ok h n"
  shows "bytes_lead e (h @ crlf) r (inside u0 n 0 u)"
proof -
  have h: "\<forall>c \<in> set h. hex_digit_value c \<noteq> None" "h \<noteq> []" "0 < n" "n < 2 ^ 32" using assms(2) by (auto simp: chunk_size_ok_def)
  then have lf: "CHR 0x0A \<notin> set h" using hex_not_crlf by blast
  have a: "chunk_header_allowed CHR 0x0D" by (simp add: chunk_header_allowed_def)
  have 1: "bytes_lead e h r (between u0 h u)" using bytes_digits [OF assms(1) h(1)] by simp
  have 2: "bytes_lead e [CHR 0x0D] q (between u0 (h @ [CHR 0x0D]) u)" if "between u0 h u q" for q
    by (rule byte_between [OF that _ str_find_crlf_half]) (use h(2) a lf in simp_all)
  have 3: "bytes_lead e [CHR 0x0A] q (inside u0 n 0 u)" if q: "between u0 (h @ [CHR 0x0D]) u q" for q
  proof (rule byte_lead)
    show "transfer_encoding q = encoding_chunked" using q by (simp add: between_def)
    show "rawbody_loop e 1 [CHR 0x0A] (q\<lparr>response_raw := raw\<rparr>) = Some (True,
      (addchunk (of_nat n) (of_nat (length h + 2)) 2 (q\<lparr>response_raw := raw, current_chunk_header := h @ crlf\<rparr>))
         \<lparr>in_chunk := True, current_chunk_pos := 0\<rparr>)" for raw
      using loop_header_end [OF assms(2), of "q\<lparr>response_raw := raw\<rparr>" e 1 "[]"] q
      by (simp add: between_def rawbody_loop.simps [of e _ "[]"])
  qed (use q h chunk_size_word in \<open>auto simp: between_def inside_def addchunk_def\<close>)
  have "bytes_lead e (h @ [CHR 0x0D] @ [CHR 0x0A]) r (inside u0 n 0 u)"
    using 1 2 3 bytes_lead_append by metis
  then show ?thesis by (simp add: crlf_def)
qed

lemma byte_inside:
  assumes "inside u0 n k u r" and "k < n"
  shows "bytes_lead e [c] r (inside u0 n (Suc k) (u @ [c]))"
proof -
  obtain raw where raw: "process_rawbody e [c] r = rawbody_loop e 1 [c] (r\<lparr>response_raw := raw\<rparr>)"
    using process_raw [of r e "[c]"] assms(1) by (auto simp: inside_def)
  let ?r = "r\<lparr>response_raw := raw, current_chunk_pos := Suc k\<rparr>"
  have "rawbody_loop e 1 [c] (r\<lparr>response_raw := raw\<rparr>) = add_rawbody e False [c] ?r"
    using hold_data [of "r\<lparr>response_raw := raw\<rparr>" 1 "[c]" e] assms by (simp add: inside_def)
  then show ?thesis
    using add_rawbody_result [where e = e and d = "[c]" and r = ?r] assms(1)
    by (auto simp: bytes_lead_def raw page_unread_def body_taken_def inside_def split: option.splits)
qed

lemma bytes_inside:
  "\<lbrakk>inside u0 n k u r; k + length d \<le> n\<rbrakk> \<Longrightarrow> bytes_lead e d r (inside u0 n (k + length d) (u @ d))"
proof (induction d arbitrary: r k u)
  case (Cons c d)
  have "bytes_lead e [c] r (inside u0 n (Suc k) (u @ [c]))" using byte_inside [OF Cons.prems(1)] Cons.prems(2) by simp
  moreover have "bytes_lead e d q (inside u0 n (k + length (c # d)) (u @ c # d))" if "inside u0 n (Suc k) (u @ [c]) q" for q
    using Cons.IH [OF that] Cons.prems(2) by simp
  ultimately show ?case using bytes_lead_append [of e "[c]" r _ d] by simp
qed (simp add: bytes_lead_Nil)

lemma bytes_crlf:
  assumes "inside u0 n n u r"
  shows "bytes_lead e crlf r (between u0 [] u)"
proof -
  have f: "str_find [] crlf 0 = None" by code_simp
  have i: "is_crlf CHR 0x0D" "is_crlf CHR 0x0A" by (simp_all add: is_crlf_def)
  have 1: "bytes_lead e [CHR 0x0D] r (between u0 [] u)"
  proof (rule byte_lead)
    show "transfer_encoding r = encoding_chunked" using assms by (simp add: inside_def)
    let ?q = "\<lambda>raw. r\<lparr>response_raw := raw, in_chunk := False, current_chunk_header := []\<rparr>"
    have "rawbody_loop e 1 [CHR 0x0D] (r\<lparr>response_raw := raw\<rparr>) = rawbody_loop e 1 [CHR 0x0D] (?q raw)" for raw
      by (subst rawbody_loop.simps) (use assms in \<open>simp add: inside_def Let_def add_rawbody_def\<close>)
    also have "\<dots> raw = rawbody_loop e 1 [] (?q raw)" for raw
      using loop_char [of "?q raw" "[]" "CHR 0x0D" e 1 "[]"] f i by simp
    finally show "rawbody_loop e 1 [CHR 0x0D] (r\<lparr>response_raw := raw\<rparr>) = Some (True, ?q raw)" for raw
      by (simp add: rawbody_loop.simps [of e _ "[]"])
  qed (use assms in \<open>simp add: inside_def between_def\<close>)
  have 2: "bytes_lead e [CHR 0x0A] q (between u0 [] u)" if "between u0 [] u q" for q
    by (rule byte_between [OF that _ f]) (simp add: i)
  have "bytes_lead e ([CHR 0x0D] @ [CHR 0x0A]) r (between u0 [] u)" using 1 2 by (rule bytes_lead_append)
  then show ?thesis by (simp add: crlf_def)
qed

lemma bytes_chunk:
  assumes "between u0 [] u r" and "chunk_size_ok h (length d)"
  shows "bytes_lead e (chunk_text (h, d)) r (between u0 [] (u @ d))"
proof -
  have "bytes_lead e d q (inside u0 (length d) (length d) (u @ d))" if "inside u0 (length d) 0 u q" for q
    using bytes_inside [OF that, of d e] by simp
  then have "bytes_lead e ((h @ crlf) @ d) r (inside u0 (length d) (length d) (u @ d))"
    by (rule bytes_lead_append [OF bytes_header [OF assms]])
  then have "bytes_lead e (((h @ crlf) @ d) @ crlf) r (between u0 [] (u @ d))"
    by (rule bytes_lead_append) (rule bytes_crlf)
  then show ?thesis by (simp add: chunk_text_def)
qed

lemma bytes_chunks:
  "\<lbrakk>between u0 [] u r; chunks_ok cs\<rbrakk> \<Longrightarrow>
   bytes_lead e (concat (map chunk_text cs)) r (between u0 [] (u @ concat (map snd cs)))"
proof (induction cs arbitrary: r u)
  case (Cons x cs)
  obtain h d where x: "x = (h, d)" by (cases x)
  have "bytes_lead e (chunk_text (h, d)) r (between u0 [] (u @ d))"
    by (rule bytes_chunk [OF Cons.prems(1)]) (use Cons.prems(2) in \<open>simp add: chunks_ok_def x\<close>)
  moreover have "bytes_lead e (concat (map chunk_text cs)) q (between u0 [] ((u @ d) @ concat (map snd cs)))"
    if "between u0 [] (u @ d) q" for q
    using Cons.IH [OF that] Cons.prems(2) by (simp add: chunks_ok_def)
  ultimately show ?case using bytes_lead_append [of e "chunk_text (h, d)" r _ "concat (map chunk_text cs)"] by (simp add: x)
qed (simp add: bytes_lead_Nil)

lemma bytes_last:
  assumes "between u0 [] u r"
  shows "bytes_lead e LAST_CHUNK_SIGNATURE r (\<lambda>q. got_last_chunk q \<and> response_unchunked q = u0 @ (if is_html q then u else []))"
    (is "bytes_lead e _ r ?P")
proof -
  let ?z = "CHR ''0''" and ?c = "CHR 0x0D" and ?n = "CHR 0x0A"
  note l = last_chunk_allowed last_chunk_found
  have 1: "bytes_lead e [?z] r (between u0 [?z] u)"
    by (rule byte_between [OF assms]) (simp_all add: l)
  have 2: "bytes_lead e [?c] q (between u0 [?z, ?c] u)" if "between u0 [?z] u q" for q
    by (rule byte_between [OF that]) (simp_all add: l)
  have 3: "bytes_lead e [?n] q (between u0 [?z, ?c, ?n] u)" if "between u0 [?z, ?c] u q" for q
    by (rule byte_lead [where f = "\<lambda>raw. q\<lparr>response_raw := raw, current_chunk_header := [?z, ?c, ?n]\<rparr>"])
      (use that in \<open>simp_all add: between_def last_chunk_step rawbody_loop.simps [of e _ "[]"]\<close>)
  have 4: "bytes_lead e [?c] q (between u0 [?z, ?c, ?n, ?c] u)" if "between u0 [?z, ?c, ?n] u q" for q
    by (rule byte_lead [where f = "\<lambda>raw. q\<lparr>response_raw := raw, current_chunk_header := [?z, ?c, ?n, ?c]\<rparr>"])
      (use that in \<open>simp_all add: between_def last_chunk_step rawbody_loop.simps [of e _ "[]"]\<close>)
  have 5: "bytes_lead e [?n] q ?P" if "between u0 [?z, ?c, ?n, ?c] u q" for q
    by (rule byte_lead [where f = "\<lambda>raw. addchunk 0 5 0 (q\<lparr>response_raw := raw, current_chunk_header := LAST_CHUNK_SIGNATURE, got_last_chunk := True\<rparr>)"])
      (use that in \<open>simp_all add: between_def last_chunk_step addchunk_def\<close>)
  have "bytes_lead e ([?z] @ [?c] @ [?n] @ [?c] @ [?n]) r ?P"
    by (rule bytes_lead_append [OF 1], rule bytes_lead_append [OF 2], assumption, rule bytes_lead_append [OF 3], assumption,
        rule bytes_lead_append [OF 4], assumption, rule 5)
  then show ?thesis by (simp add: last_chunk_text)
qed

text \<open>
  a chunked body that arrives byte by byte is taken out of its chunks as one that arrives in one buffer.
\<close>

theorem chunked_body_byte_by_byte:
  assumes "transfer_encoding r = encoding_chunked" and "decoder_idle r" and "chunks_ok cs"
  shows "case process_buffers e (map (\<lambda>c. [c]) (chunked_text cs)) r of
      None \<Rightarrow> is_html r \<and> \<not> has_body_tag (rs_doc r)
    | Some (ok, r') \<Rightarrow> ok \<and> got_last_chunk r'
        \<and> response_unchunked r' = response_unchunked r @ (if is_html r then concat (map snd cs) else [])"
proof -
  have "between (response_unchunked r) [] [] r" using assms(1,2) by (simp add: between_def decoder_idle_def)
  from bytes_lead_append [OF bytes_chunks [OF this assms(3)] bytes_last]
  have "bytes_lead e (chunked_text cs) r (\<lambda>q. got_last_chunk q
      \<and> response_unchunked q = response_unchunked r @ (if is_html q then concat (map snd cs) else []))"
    by (simp add: chunked_text_def)
  then show ?thesis by (auto simp: bytes_lead_def page_unread_def split: option.splits)
qed

theorem chunked_body_byte_by_byte_witness:
  "\<exists>r'. process_buffers ex_env (map (\<lambda>c. [c]) (chunked_text [(''5'', ''hello'')])) ex_page = Some (True, r')
     \<and> got_last_chunk r' \<and> response_unchunked r' = ''hello''"
proof -
  have "chunks_ok [(''5'', ''hello'')]" using ex_chunk_ok by (simp add: chunks_ok_def)
  from chunked_body_byte_by_byte [OF ex_page_idle(2,1) this, of ex_env] show ?thesis
    using ex_page_idle by (auto split: option.splits)
qed

end
