(* ===== verification/ProxyRule.thy ===== *)
theory ProxyRule
  imports HttpHeaders AddrTable
begin

text \<open>
  \<open>proxyserver/conditem.*\<close>, \<open>conditem_addrip.*\<close>, \<open>conditem_addrurl.*\<close>, \<open>conditem_sitecategory.*\<close>,
  \<open>proxyrule_item.*\<close>, \<open>proxyrule.*\<close>: the conditions on a request and the rules made of them. The class
  of a condition object is the datatype \<open>cond_class\<close>; a shared pointer is the address of the object and the
  object, which no operation changes once it is shared. The category of a site, asked from the network,
  is the argument \<open>whatsite\<close> of a request.
\<close>

section \<open>Conditions\<close>

datatype condtypes = condtype_none | condtype_srcip | condtype_sitecategory | condtype_urlpath
  | condtype_urlhost | condtype_urlhostpath
datatype condclasses = condclass_none | condclass_addrip | condclass_addrurl | condclass_sitecategory
datatype addrtypes = addr_none | addr_any | addr_single | addr_network | addr_range
datatype urlparts = urlpart_none | urlpart_any | urlpart_host | urlpart_path
datatype categories = category_none | category_all | category_ipaddr | category_https | category_googlesex
  | category_googlesuspicious | category_googleok

datatype cond_class = Cond_plain | Cond_addrip addrtypes addrip_v4 addrip_v4 | Cond_addrurl urlparts "string list"
  | Cond_sitecategory categories

record conditem =
  condtype :: condtypes
  condname :: string
  condvalue :: string
  cond_data :: cond_class

text \<open>\<open>enumhelper\<close>: the tables of names, searched from the front, also without regard to case.\<close>

definition enum_to_str :: "(string \<times> 'a) list \<Rightarrow> 'a \<Rightarrow> string option" where
  "enum_to_str tab v = map_option fst (find (\<lambda>p. snd p = v) tab)"

definition enum_from_str_ci :: "(string \<times> 'a) list \<Rightarrow> string \<Rightarrow> 'a \<Rightarrow> 'a" where
  "enum_from_str_ci tab s d =
     (case find (\<lambda>p. map tolower (fst p) = map tolower s) tab of None \<Rightarrow> d | Some p \<Rightarrow> snd p)"

definition condtypes_tab :: "(string \<times> condtypes) list" where
  "condtypes_tab = [([], condtype_none), (''srcip'', condtype_srcip), (''sitecategory'', condtype_sitecategory),
     (''urlpath'', condtype_urlpath), (''urlhost'', condtype_urlhost), (''urlhostpath'', condtype_urlhostpath)]"

definition categories_tab :: "(string \<times> categories) list" where
  "categories_tab = [([], category_none), (''all'', category_all), (''ipaddr'', category_ipaddr),
     (''https'', category_https), (''googlesex'', category_googlesex),
     (''googlesuspicious'', category_googlesuspicious), (''googleok'', category_googleok)]"

fun get_condclass_by_condtype :: "condtypes \<Rightarrow> condclasses" where
  "get_condclass_by_condtype condtype_srcip = condclass_addrip"
| "get_condclass_by_condtype condtype_urlpath = condclass_addrurl"
| "get_condclass_by_condtype condtype_urlhost = condclass_addrurl"
| "get_condclass_by_condtype condtype_urlhostpath = condclass_addrurl"
| "get_condclass_by_condtype condtype_sitecategory = condclass_sitecategory"
| "get_condclass_by_condtype condtype_none = condclass_none"

fun get_urlpart_from_conditem_type :: "condtypes \<Rightarrow> urlparts" where
  "get_urlpart_from_conditem_type condtype_urlhostpath = urlpart_any"
| "get_urlpart_from_conditem_type condtype_urlhost = urlpart_host"
| "get_urlpart_from_conditem_type condtype_urlpath = urlpart_path"
| "get_urlpart_from_conditem_type _ = urlpart_none"

fun get_conditem_type :: "conditem \<Rightarrow> condtypes" where
  "get_conditem_type ci = (case cond_data ci of
      Cond_plain \<Rightarrow> condtype ci
    | Cond_addrip _ _ _ \<Rightarrow> condtype_srcip
    | Cond_addrurl urlpart_any _ \<Rightarrow> condtype_urlhostpath
    | Cond_addrurl urlpart_host _ \<Rightarrow> condtype_urlhost
    | Cond_addrurl urlpart_path _ \<Rightarrow> condtype_urlpath
    | Cond_addrurl urlpart_none _ \<Rightarrow> condtype_none
    | Cond_sitecategory _ \<Rightarrow> condtype_sitecategory)"

definition conditem_eq :: "conditem \<Rightarrow> conditem \<Rightarrow> bool" where
  "conditem_eq a b \<longleftrightarrow> get_conditem_type a = get_conditem_type b \<and> condname a = condname b \<and> condvalue a = condvalue b"

definition conditem_clear :: conditem where
  "conditem_clear = \<lparr>condtype = condtype_none, condname = [], condvalue = [], cond_data = Cond_plain\<rparr>"

text \<open>The constructors the factory calls: \<open>clear\<close>, and for URLs the part with no URL.\<close>

definition create_conditem_type :: "condtypes \<Rightarrow> conditem option" where
  "create_conditem_type ctype = (case get_condclass_by_condtype ctype of
      condclass_addrip \<Rightarrow> Some (conditem_clear\<lparr>cond_data := Cond_addrip addr_none (Addrip_v4 0) (Addrip_v4 0)\<rparr>)
    | condclass_addrurl \<Rightarrow> Some (conditem_clear\<lparr>cond_data := Cond_addrurl (get_urlpart_from_conditem_type ctype) []\<rparr>)
    | condclass_sitecategory \<Rightarrow> Some (conditem_clear\<lparr>cond_data := Cond_sitecategory category_none\<rparr>)
    | condclass_none \<Rightarrow> None)"

definition copy_my_properties :: "conditem \<Rightarrow> conditem \<Rightarrow> conditem" where
  "copy_my_properties rhs ci = ci\<lparr>condtype := condtype rhs, condname := condname rhs, condvalue := condvalue rhs\<rparr>"

definition copy_properties :: "conditem \<Rightarrow> conditem \<Rightarrow> conditem" where
  "copy_properties rhs ci = copy_my_properties rhs (ci\<lparr>cond_data := cond_data rhs\<rparr>)"

text \<open>\<open>get_this_class_name() == get_this_class_name()\<close>: the names are compared as pointers.\<close>

fun same_class :: "cond_class \<Rightarrow> cond_class \<Rightarrow> bool" where
  "same_class Cond_plain Cond_plain = True"
| "same_class (Cond_addrip _ _ _) (Cond_addrip _ _ _) = True"
| "same_class (Cond_addrurl _ _) (Cond_addrurl _ _) = True"
| "same_class (Cond_sitecategory _) (Cond_sitecategory _) = True"
| "same_class _ _ = False"

definition create_conditem :: "conditem \<Rightarrow> conditem option" where
  "create_conditem pre = map_option (\<lambda>ci.
      if \<not> same_class (cond_data ci) (cond_data pre) then copy_my_properties pre ci else copy_properties pre ci)
     (create_conditem_type (get_conditem_type pre))"

definition create_description :: "conditem \<Rightarrow> string \<Rightarrow> string" where
  "create_description ci descr =
     descr @ (case enum_to_str condtypes_tab (get_conditem_type ci) of None \<Rightarrow> [] | Some s \<Rightarrow> s) @ ''('' @ condvalue ci @ '')''"

definition generate_condname :: "string \<Rightarrow> nat \<Rightarrow> conditem \<Rightarrow> conditem" where
  "generate_condname now instances_created ci = ci\<lparr>condname :=
     (case enum_to_str condtypes_tab (get_conditem_type ci) of None \<Rightarrow> [] | Some s \<Rightarrow> s)
     @ ''_'' @ now @ ''_'' @ print_u instances_created\<rparr>"

section \<open>Texts of conditions\<close>

definition addrip_cond_text :: "addrtypes \<Rightarrow> addrip_v4 \<Rightarrow> addrip_v4 \<Rightarrow> string" where
  "addrip_cond_text ty a b = (case ty of
      addr_any \<Rightarrow> ''any''
    | addr_single \<Rightarrow> ip_to_string a
    | addr_network \<Rightarrow> ip_to_string a @ ''/'' @ ip_to_string b
    | addr_range \<Rightarrow> ip_to_string a @ ''-'' @ ip_to_string b
    | addr_none \<Rightarrow> [])"

definition cond_to_string :: "conditem \<Rightarrow> string" where
  "cond_to_string ci = (case cond_data ci of
      Cond_plain \<Rightarrow> []
    | Cond_addrip ty a b \<Rightarrow> addrip_cond_text ty a b
    | Cond_addrurl part us \<Rightarrow> join_strings '' '' us
    | Cond_sitecategory cat \<Rightarrow> (case enum_to_str categories_tab cat of None \<Rightarrow> [] | Some s \<Rightarrow> s))"

definition set_conditem_addrip :: "addrtypes \<Rightarrow> addrip_v4 \<Rightarrow> addrip_v4 \<Rightarrow> conditem \<Rightarrow> conditem" where
  "set_conditem_addrip ty a b ci = ci\<lparr>cond_data := Cond_addrip ty a b, condvalue := addrip_cond_text ty a b\<rparr>"

definition parse_addrip_cond :: "string \<Rightarrow> addrtypes \<Rightarrow> addrip_v4 \<Rightarrow> addrip_v4 \<Rightarrow> bool \<times> cond_class" where
  "parse_addrip_cond s ty addr1 addr2 =
     (if s = ''any'' then (True, Cond_addrip addr_any addr1 addr2)
      else case (str_find s ''/'' 0, str_find s ''-'' 0) of
        (Some _, Some _) \<Rightarrow> (False, Cond_addrip ty addr1 addr2)
      | (None, None) \<Rightarrow>
          (case ip_from_string (Some s) True of
             (True, a1) \<Rightarrow> (True, Cond_addrip addr_single a1 a1)
           | (False, _) \<Rightarrow> (False, Cond_addrip ty addr1 addr2))
      | (slashpos, hypenpos) \<Rightarrow>
          let (pos, ty') = (case slashpos of Some p \<Rightarrow> (p, addr_network) | None \<Rightarrow> (the hypenpos, addr_range));
              (ok1, ip1) = ip_from_string (Some (take pos s)) True;
              (ok2, ip2) = ip_from_string (Some (drop (pos + 1) s)) True
          in if ok1 \<and> ok2 then (True, Cond_addrip ty' ip1 ip2) else (False, Cond_addrip ty' addr1 addr2))"

definition parse_addrurl_cond :: "string \<Rightarrow> urlparts \<Rightarrow> string list \<Rightarrow> bool \<times> cond_class" where
  "parse_addrurl_cond s part us =
     (if s = [] then (False, Cond_addrurl part us)
      else if hd s \<noteq> CHR 0x22 then (True, Cond_addrurl part (us @ split_string True CHR '' '' s))
      else (True, Cond_addrurl part us))"

definition parse_cond :: "string \<Rightarrow> conditem \<Rightarrow> bool \<times> conditem" where
  "parse_cond s ci = (case cond_data ci of
      Cond_plain \<Rightarrow> (False, ci)
    | Cond_addrip ty a b \<Rightarrow> map_prod id (\<lambda>d. ci\<lparr>cond_data := d\<rparr>) (parse_addrip_cond s ty a b)
    | Cond_addrurl part us \<Rightarrow> map_prod id (\<lambda>d. ci\<lparr>cond_data := d\<rparr>) (parse_addrurl_cond s part us)
    | Cond_sitecategory _ \<Rightarrow>
        let cat = enum_from_str_ci categories_tab s category_none
        in (cat \<noteq> category_none, ci\<lparr>cond_data := Cond_sitecategory cat\<rparr>))"

definition set_conditem_addrurl :: "urlparts \<Rightarrow> string option \<Rightarrow> conditem \<Rightarrow> conditem" where
  "set_conditem_addrurl part u ci = (case u of
      None \<Rightarrow> ci\<lparr>cond_data := Cond_addrurl part []\<rparr>
    | Some t \<Rightarrow> (snd (parse_cond t (ci\<lparr>cond_data := Cond_addrurl part []\<rparr>)))\<lparr>condvalue := t\<rparr>)"

definition set_conditem_sitecategory :: "categories \<Rightarrow> conditem \<Rightarrow> conditem" where
  "set_conditem_sitecategory cat ci = ci\<lparr>cond_data := Cond_sitecategory cat,
     condvalue := (case enum_to_str categories_tab cat of None \<Rightarrow> [] | Some s \<Rightarrow> s)\<rparr>"

section \<open>Checks\<close>

record proxyrequest_params =
  pp_request :: request_http_headers
  pp_whatsite :: "(request_http_headers \<Rightarrow> i32) option"

definition GOOGLE_SEX :: i32 where [utm_consts]: "GOOGLE_SEX = 1"
definition GOOGLE_SUSPICIOUS :: i32 where [utm_consts]: "GOOGLE_SUSPICIOUS = 2"
definition GOOGLE_OK :: i32 where [utm_consts]: "GOOGLE_OK = 3"

definition check_addrip :: "addrtypes \<Rightarrow> addrip_v4 \<Rightarrow> addrip_v4 \<Rightarrow> u32 option \<Rightarrow> bool" where
  "check_addrip ty addr1 addr2 client =
     (if ty = addr_any then True
      else case client of
        None \<Rightarrow> False
      | Some ac \<Rightarrow>
          if ty = addr_single then ac = m_addr addr1
          else if ty = addr_network then m_addr addr1 = (ac AND m_addr addr2)
          else if ty = addr_range then m_addr addr1 \<le> ac \<and> ac \<le> m_addr addr2
          else False)"

definition str_rfind :: "string \<Rightarrow> string \<Rightarrow> nat option" where
  "str_rfind s r = (if r = [] then Some (length s)
     else case strstr s r of None \<Rightarrow> None | Some p \<Rightarrow> last_occurrence s r p)"

definition do_check_url :: "urlparts \<Rightarrow> string \<Rightarrow> addrurl \<Rightarrow> bool" where
  "do_check_url part url u =
     (if url = [] then False
      else case (case part of urlpart_any \<Rightarrow> Some (original_addrurl u) | urlpart_host \<Rightarrow> Some (au_host u)
                 | urlpart_path \<Rightarrow> Some (au_path u) | urlpart_none \<Rightarrow> None) of
        None \<Rightarrow> False
      | Some s \<Rightarrow>
          if last url \<noteq> CHR ''$'' then str_find s url 0 \<noteq> None
          else let pattern = butlast url in
            (case str_rfind s pattern of None \<Rightarrow> False | Some pos \<Rightarrow> pos + length pattern = length s))"

definition ci_find_substr :: "string \<Rightarrow> string \<Rightarrow> nat option" where
  "ci_find_substr s r = (if r = [] then (if s = [] then None else Some 0) else strstr (map tolower s) (map tolower r))"

definition check_sitecategory :: "categories \<Rightarrow> proxyrequest_params \<Rightarrow> bool" where
  "check_sitecategory cat p =
     (let u = rq_url (pp_request p) in
      if cat = category_all then True
      else if cat = category_ipaddr then is_ipaddr u
      else if cat = category_https then ci_find_substr (au_protocol u) ''https'' \<noteq> None
      else if cat \<in> {category_googlesex, category_googlesuspicious, category_googleok}
      then if is_ipaddr u then False
           else (case pp_whatsite p of
             None \<Rightarrow> True
           | Some f \<Rightarrow>
               let code = f (pp_request p) in
               if cat = category_googlesex then code = GOOGLE_SEX
               else if cat = category_googlesuspicious then code = GOOGLE_SEX \<or> code = GOOGLE_SUSPICIOUS
               else code = GOOGLE_OK)
      else False)"

definition do_check :: "conditem \<Rightarrow> proxyrequest_params \<Rightarrow> bool" where
  "do_check ci p = (case cond_data ci of
      Cond_plain \<Rightarrow> False
    | Cond_addrip ty a b \<Rightarrow> check_addrip ty a b (client_addr (pp_request p))
    | Cond_addrurl part us \<Rightarrow> list_ex (\<lambda>url. do_check_url part url (rq_url (pp_request p))) us
    | Cond_sitecategory cat \<Rightarrow> check_sitecategory cat p)"

section \<open>Rules\<close>

type_synonym cond_ref = "nat \<times> conditem"

record proxyrule_item =
  pi_invert :: bool
  pi_condname :: string
  pi_ci :: "cond_ref option"

definition proxyrule_item_clear :: proxyrule_item where
  "proxyrule_item_clear = \<lparr>pi_invert = False, pi_condname = [], pi_ci = None\<rparr>"

definition item_copy_properties :: "proxyrule_item \<Rightarrow> proxyrule_item \<Rightarrow> proxyrule_item" where
  "item_copy_properties rhs x = x\<lparr>pi_invert := pi_invert rhs, pi_condname := pi_condname rhs\<rparr>"

definition proxyrule_item_eq :: "proxyrule_item \<Rightarrow> proxyrule_item \<Rightarrow> bool" where
  "proxyrule_item_eq a b =
     (if pi_invert a \<noteq> pi_invert b then False
      else case (pi_ci a, pi_ci b) of
        (None, None) \<Rightarrow> True
      | (Some x, Some y) \<Rightarrow> conditem_eq (snd x) (snd y)
      | _ \<Rightarrow> False)"

definition item_check :: "proxyrequest_params \<Rightarrow> proxyrule_item \<Rightarrow> bool" where
  "item_check p x = (case pi_ci x of
      None \<Rightarrow> False
    | Some r \<Rightarrow> let v = do_check (snd r) p in if pi_invert x then \<not> v else v)"

text \<open>A null pointer is followed in \<open>create_description\<close>: \<open>None\<close>.\<close>

definition item_create_description :: "proxyrule_item \<Rightarrow> string \<Rightarrow> string option" where
  "item_create_description x descr =
     map_option (\<lambda>r. create_description (snd r) (if pi_invert x then descr @ ''!'' else descr)) (pi_ci x)"

definition action_none :: i32 where [utm_consts]: "action_none = -1"
definition action_deny :: i32 where [utm_consts]: "action_deny = 0"
definition action_allow :: i32 where [utm_consts]: "action_allow = 1"

record proxyrule =
  pr_enabled :: bool
  nolog_access :: bool
  rulename :: string
  pr_action :: i32
  pr_items :: "proxyrule_item list"
  rulename4log :: string
  rulename4web :: string

definition proxyrule_clear :: "proxyrule \<Rightarrow> proxyrule" where
  "proxyrule_clear r = r\<lparr>pr_enabled := True, nolog_access := False, rulename := [], pr_action := action_none, pr_items := []\<rparr>"

definition proxyrule_new :: proxyrule where
  "proxyrule_new = \<lparr>pr_enabled = True, nolog_access = False, rulename = [], pr_action = action_none, pr_items = [],
     rulename4log = [], rulename4web = []\<rparr>"

text \<open>\<open>names\<close> gives the multi-byte and the UTF-8 text of a name.\<close>

definition prepare_rulename :: "(string \<Rightarrow> string \<times> string) \<Rightarrow> proxyrule \<Rightarrow> proxyrule" where
  "prepare_rulename names r = r\<lparr>
     rulename4log := map (\<lambda>c. if c = CHR '' '' then CHR ''_'' else c) (fst (names (rulename r))),
     rulename4web := snd (names (rulename r))\<rparr>"

definition rule_copy_properties :: "(string \<Rightarrow> string \<times> string) \<Rightarrow> proxyrule \<Rightarrow> proxyrule \<Rightarrow> proxyrule" where
  "rule_copy_properties names rhs r = prepare_rulename names (r\<lparr>pr_enabled := pr_enabled rhs,
     nolog_access := nolog_access rhs, rulename := rulename rhs, pr_action := pr_action rhs\<rparr>)"

definition proxyrule_eq :: "proxyrule \<Rightarrow> proxyrule \<Rightarrow> bool option" where
  "proxyrule_eq a b =
     (if pr_enabled a \<noteq> pr_enabled b \<or> nolog_access a \<noteq> nolog_access b \<or> rulename a \<noteq> rulename b
        \<or> pr_action a \<noteq> pr_action b \<or> length (pr_items a) \<noteq> length (pr_items b) then Some False
      else fold (\<lambda>(x, y) acc. case acc of
          Some True \<Rightarrow> (case (pi_ci x, pi_ci y) of (Some c, Some d) \<Rightarrow> Some (conditem_eq (snd c) (snd d)) | _ \<Rightarrow> None)
        | _ \<Rightarrow> acc) (zip (pr_items a) (pr_items b)) (Some True))"

definition item_get :: "nat \<Rightarrow> proxyrule \<Rightarrow> proxyrule_item option" where
  "item_get index r = (if index < length (pr_items r) then Some (pr_items r ! index) else None)"

definition item_add :: "proxyrule_item \<Rightarrow> proxyrule \<Rightarrow> proxyrule" where
  "item_add x r = r\<lparr>pr_items := pr_items r @ [x]\<rparr>"

definition item_replace :: "proxyrule_item \<Rightarrow> nat \<Rightarrow> proxyrule \<Rightarrow> proxyrule" where
  "item_replace x index r = r\<lparr>pr_items := (pr_items r)[index := x]\<rparr>"

definition item_delete :: "nat \<Rightarrow> proxyrule \<Rightarrow> proxyrule" where
  "item_delete index r = r\<lparr>pr_items := take index (pr_items r) @ drop (Suc index) (pr_items r)\<rparr>"

definition rule_process_request :: "proxyrequest_params \<Rightarrow> proxyrule \<Rightarrow> i32" where
  "rule_process_request p r =
     (if pr_enabled r \<and> pr_items r \<noteq> [] \<and> list_all (item_check p) (pr_items r) then pr_action r else action_none)"

fun items_description :: "proxyrule_item list \<Rightarrow> string \<Rightarrow> string option" where
  "items_description [] descr = Some descr"
| "items_description (x # xs) descr =
     do { d \<leftarrow> item_create_description x [];
          items_description xs ((if descr \<noteq> [] then descr @ '' & '' else descr) @ d) }"

definition rule_create_description :: "proxyrule \<Rightarrow> string \<Rightarrow> string option" where
  "rule_create_description r descr = items_description (pr_items r) descr"

section \<open>Properties\<close>

lemma str_rfind_suffix:
  "(case str_rfind s r of None \<Rightarrow> False | Some pos \<Rightarrow> pos + length r = length s) \<longleftrightarrow> suffix r s"
proof (cases "r = []")
  case False
  show ?thesis
  proof (cases "strstr s r")
    case None
    then have "\<not> suffix r s" using occurs_suffix [of s r] by (auto simp: strstr_None)
    then show ?thesis using None False by (simp add: str_rfind_def)
  next
    case (Some p)
    obtain q where q: "last_occurrence s r p = Some q" "occurs_at s r q" "\<forall>k>q. \<not> occurs_at s r k"
      using last_occurrence_spec [OF False strstr_Some(1) [OF Some]] by blast
    have "q + length r = length s \<longleftrightarrow> suffix r s"
    proof
      assume "q + length r = length s"
      then show "suffix r s" using q(2) occurs_suffix [of s r q] by simp
    next
      assume r: "suffix r s"
      then have o: "occurs_at s r (length s - length r)" "length s - length r + length r = length s"
        using occurs_suffix [of s r "length s - length r"] by simp_all
      have "q + length r \<le> length s" using q(2) by (simp add: occurs_at_def)
      moreover have "length s - length r \<le> q" using q(3) o(1) by (meson not_le)
      ultimately show "q + length r = length s" using o(2) by linarith
    qed
    then show ?thesis using Some False q(1) by (simp add: str_rfind_def)
  qed
qed (simp add: str_rfind_def)

definition url_text :: "urlparts \<Rightarrow> addrurl \<Rightarrow> string option" where
  "url_text part u = (case part of urlpart_any \<Rightarrow> Some (original_addrurl u) | urlpart_host \<Rightarrow> Some (au_host u)
     | urlpart_path \<Rightarrow> Some (au_path u) | urlpart_none \<Rightarrow> None)"

text \<open>
  a condition on the URL holds when one of its texts occurs in the part of the URL it names, or,
  for a text that ends with a dollar sign, when that part ends with the text before the sign; a lone
  dollar sign matches every request.
\<close>

theorem url_condition_matches:
  assumes "cond_data ci = Cond_addrurl part us"
  shows "do_check ci p \<longleftrightarrow> (\<exists>s. url_text part (rq_url (pp_request p)) = Some s \<and>
     (\<exists>url \<in> set us. url \<noteq> [] \<and> (if last url = CHR ''$'' then suffix (butlast url) s else sublist url s)))"
proof -
  have f: "str_find s url 0 \<noteq> None \<longleftrightarrow> sublist url s" for s url
    using strstr_None [of s url] occurs_sublist [of s url] by (auto simp: str_find_def)
  have "do_check_url part url u \<longleftrightarrow> (\<exists>s. url_text part u = Some s \<and> url \<noteq> []
      \<and> (if last url = CHR ''$'' then suffix (butlast url) s else sublist url s))" for url u
    unfolding do_check_url_def url_text_def [symmetric] f Let_def str_rfind_suffix
    by (cases "url_text part u") auto
  then show ?thesis using assms by (auto simp: do_check_def list_ex_iff)
qed

definition ex_request :: "string \<Rightarrow> u32 option \<Rightarrow> request_http_headers" where
  "ex_request host client = \<lparr>hh_original = [], first_line = [], hh_version = [], headers_set = [], contentlen = -1,
     reqtype = http_thru_proxy, conntype = connection_unknown, client_addr = client, client_port = 0,
     rq_method = ''GET'', original_url = [], rq_version = [], rq_url = addrurl_new\<lparr>au_host := host, au_path := ''/v.swf''\<rparr>,
     rq_referer = addrurl_new, postdata_raw = [], request_for_server = []\<rparr>"

theorem url_condition_matches_witness:
  "do_check (set_conditem_addrurl urlpart_path (Some ''mp3 swf$'') conditem_clear)
      \<lparr>pp_request = ex_request ''a.com'' None, pp_whatsite = None\<rparr>
   \<and> \<not> do_check (set_conditem_addrurl urlpart_host (Some ''a.com'') conditem_clear)
      \<lparr>pp_request = ex_request ''A.COM'' None, pp_whatsite = None\<rparr>"
proof -
  have d: "cond_data (set_conditem_addrurl urlpart_path (Some ''mp3 swf$'') conditem_clear) = Cond_addrurl urlpart_path [''mp3'', ''swf$'']"
    "cond_data (set_conditem_addrurl urlpart_host (Some ''a.com'') conditem_clear) = Cond_addrurl urlpart_host [''a.com'']"
    by (simp_all add: set_conditem_addrurl_def parse_cond_def parse_addrurl_cond_def split_string_def)
  have "\<not> sublist ''a.com'' ''A.COM''" by code_simp
  moreover have "suffix ''swf'' ''/v.swf''" by code_simp
  ultimately show ?thesis
    using url_condition_matches [OF d(1)] url_condition_matches [OF d(2)]
    by (simp add: url_text_def ex_request_def)
qed

end
