(* ===== verification/EventLog.thy ===== *)
theory EventLog
  imports Ufs Xml
begin

text \<open>
  \<open>utm/loggingparams.{h,cpp}\<close> and the file side of \<open>utm/event_holder.h\<close>: where the log is
  written and how its files are rotated. The static \<open>common_directory\<close> is the argument
  \<open>common\<close>. \<open>size_t\<close> has 32 bits. The file system is reached through \<open>boost::filesystem\<close> and
  streams; what the code calls of them is the record \<open>fs_ops\<close>, over any state of files.
\<close>

section \<open>Parameters of a log\<close>

record loggingparams =
  lp_facility :: string
  lp_enable_file :: bool
  lp_enable_console :: bool
  lp_fullpath :: string
  lp_directory :: string
  lp_filename :: string
  lp_maxlogsize :: u32
  lp_maxlogrotate :: u32

text \<open>The constructor leaves both numbers as it finds them.\<close>

definition loggingparamsbase_new :: "u32 \<Rightarrow> u32 \<Rightarrow> loggingparams" where
  "loggingparamsbase_new u1 u2 = \<lparr>lp_facility = [], lp_enable_file = False, lp_enable_console = False,
     lp_fullpath = [], lp_directory = [], lp_filename = [], lp_maxlogsize = u1, lp_maxlogrotate = u2\<rparr>"

definition lp_clear :: "loggingparams \<Rightarrow> loggingparams" where
  "lp_clear p = p\<lparr>lp_facility := [], lp_enable_file := False, lp_enable_console := False,
     lp_directory := [], lp_filename := [], lp_maxlogsize := 10, lp_maxlogrotate := 8\<rparr>"

definition lp_eq :: "loggingparams \<Rightarrow> loggingparams \<Rightarrow> bool" where
  "lp_eq a b \<longleftrightarrow> lp_facility a = lp_facility b \<and> lp_enable_file a = lp_enable_file b
     \<and> lp_enable_console a = lp_enable_console b \<and> lp_directory a = lp_directory b
     \<and> lp_filename a = lp_filename b \<and> lp_maxlogsize a = lp_maxlogsize b
     \<and> lp_maxlogrotate a = lp_maxlogrotate b"

definition get_directory :: "string \<Rightarrow> loggingparams \<Rightarrow> string" where
  "get_directory common p = (if lp_directory p = [] then common else lp_directory p)"

definition make_fullpath :: "string \<Rightarrow> loggingparams \<Rightarrow> loggingparams" where
  "make_fullpath common p = p\<lparr>lp_fullpath := get_directory common p @ lp_filename p\<rparr>"

definition set_commondirectory :: "string \<Rightarrow> loggingparams \<Rightarrow> string \<times> loggingparams" where
  "set_commondirectory dir p =
     (let common = make_strong_directory_path dir in (common, make_fullpath common p))"

definition set_directory :: "string \<Rightarrow> string \<Rightarrow> loggingparams \<Rightarrow> loggingparams" where
  "set_directory common dir p = make_fullpath common (p\<lparr>lp_directory := make_strong_directory_path dir\<rparr>)"

definition set_filename :: "string \<Rightarrow> string \<Rightarrow> loggingparams \<Rightarrow> loggingparams" where
  "set_filename common fname p = make_fullpath common (p\<lparr>lp_filename := fname\<rparr>)"

definition set_params :: "string \<Rightarrow> string \<Rightarrow> string \<Rightarrow> u32 \<Rightarrow> u32 \<Rightarrow> loggingparams \<Rightarrow> loggingparams" where
  "set_params common dir fname msize mrotate p =
     (set_filename common fname (set_directory common dir p))\<lparr>lp_maxlogsize := msize, lp_maxlogrotate := mrotate\<rparr>"

definition copy_params_from :: "string \<Rightarrow> loggingparams \<Rightarrow> loggingparams \<Rightarrow> loggingparams" where
  "copy_params_from common params p =
     (set_filename common (lp_filename params) (set_directory common (get_directory common params) p))
       \<lparr>lp_maxlogsize := lp_maxlogsize params, lp_maxlogrotate := lp_maxlogrotate params,
        lp_enable_file := lp_enable_file params, lp_enable_console := lp_enable_console params\<rparr>"

lemma make_strong_idem [simp]: "make_strong_directory_path (make_strong_directory_path d) = make_strong_directory_path d"
  by (simp add: make_strong_directory_path_def ufs_slash_def is_slash_def)

lemma make_strong_Nil [simp]: "make_strong_directory_path d = [] \<longleftrightarrow> d = []"
  by (simp add: make_strong_directory_path_def ufs_slash_def)

lemma set_params_path:
  "lp_fullpath (set_params common dir fname msize mrotate p)
     = (if dir = [] then common else make_strong_directory_path dir) @ fname"
  by (simp add: set_params_def set_filename_def set_directory_def make_fullpath_def get_directory_def)

lemma copy_params_path:
  "lp_fullpath (copy_params_from common params p)
     = make_strong_directory_path (get_directory common params) @ lp_filename params"
proof -
  have "lp_fullpath (set_filename common f (set_directory common d p)) = make_strong_directory_path d @ f"
    if "d = [] \<Longrightarrow> common = []" for d f
    using that by (auto simp: set_filename_def set_directory_def make_fullpath_def get_directory_def make_strong_directory_path_def)
  moreover have "get_directory common params = [] \<Longrightarrow> common = []" by (simp add: get_directory_def split: if_splits)
  ultimately show ?thesis by (simp add: copy_params_from_def)
qed

subsection \<open>XML form\<close>

definition lp_nodes :: "loggingparams \<Rightarrow> xml list" where
  "lp_nodes p = xml_append_data ''Facility'' (lp_facility p)
     @ xml_append_data ''ConsoleEnable'' (bool_text (lp_enable_console p))
     @ xml_append_data ''FileEnable'' (bool_text (lp_enable_file p))
     @ xml_append_data ''FileDirectory'' (lp_directory p)
     @ xml_append_data ''FileName'' (lp_filename p)
     @ xml_append_data ''FileSize'' (out_unsigned (lp_maxlogsize p))
     @ xml_append_data ''FileRotate'' (out_unsigned (lp_maxlogrotate p))"

definition lp_xml_create :: "loggingparams \<Rightarrow> xml" where
  "lp_xml_create p = Elem ''Logging'' [] (lp_nodes p)"

definition lp_xml_catch_value :: "string \<Rightarrow> string \<Rightarrow> loggingparams \<Rightarrow> loggingparams option" where
  "lp_xml_catch_value keyname v p = Some
     (if keyname = ''Facility'' then p\<lparr>lp_facility := v\<rparr>
      else if keyname = ''ConsoleEnable'' then p\<lparr>lp_enable_console := read_bool v\<rparr>
      else if keyname = ''FileEnable'' then p\<lparr>lp_enable_file := read_bool v\<rparr>
      else if keyname = ''FileDirectory'' then p\<lparr>lp_directory := v\<rparr>
      else if keyname = ''FileName'' then p\<lparr>lp_filename := v\<rparr>
      else if keyname = ''FileSize'' then p\<lparr>lp_maxlogsize := parse_unsigned v\<rparr>
      else if keyname = ''FileRotate'' then p\<lparr>lp_maxlogrotate := parse_unsigned v\<rparr>
      else p)"

definition lp_xml :: "loggingparams xml_class" where
  "lp_xml = \<lparr>xc_clear = lp_clear, xc_create = lp_xml_create,
     xc_value = lp_xml_catch_value, xc_subnode = (\<lambda>k n p. Some p)\<rparr>"

lemma lp_text_node:
  "CHR 0x00 \<notin> set t \<Longrightarrow>
   xml_parse_allnodes lp_xml (xml_append_data k t) p = (if t = [] then Some p else lp_xml_catch_value k t p)"
  by (simp add: parse_empty_data parse_data xml_text_def lp_xml_def)

lemma lp_segments:
  "CHR 0x00 \<notin> set t \<Longrightarrow> lp_facility s = [] \<Longrightarrow> xml_parse_allnodes lp_xml (xml_append_data ''Facility'' t) s = Some (s\<lparr>lp_facility := t\<rparr>)"
  "CHR 0x00 \<notin> set t \<Longrightarrow> lp_directory s = [] \<Longrightarrow> xml_parse_allnodes lp_xml (xml_append_data ''FileDirectory'' t) s = Some (s\<lparr>lp_directory := t\<rparr>)"
  "CHR 0x00 \<notin> set t \<Longrightarrow> lp_filename s = [] \<Longrightarrow> xml_parse_allnodes lp_xml (xml_append_data ''FileName'' t) s = Some (s\<lparr>lp_filename := t\<rparr>)"
  "xml_parse_allnodes lp_xml (xml_append_data ''ConsoleEnable'' (bool_text b)) s = Some (s\<lparr>lp_enable_console := b\<rparr>)"
  "xml_parse_allnodes lp_xml (xml_append_data ''FileEnable'' (bool_text b)) s = Some (s\<lparr>lp_enable_file := b\<rparr>)"
  "xml_parse_allnodes lp_xml (xml_append_data ''FileSize'' (out_unsigned n)) s = Some (s\<lparr>lp_maxlogsize := n\<rparr>)"
  "xml_parse_allnodes lp_xml (xml_append_data ''FileRotate'' (out_unsigned n)) s = Some (s\<lparr>lp_maxlogrotate := n\<rparr>)"
  by (simp_all add: lp_text_node parse_data) (simp_all add: lp_xml_def lp_xml_catch_value_def)

section \<open>Files\<close>

record 'fs fs_ops =
  fso_parent_path :: "string \<Rightarrow> string"
  fso_is_directory :: "'fs \<Rightarrow> string \<Rightarrow> bool"
  fso_create_directories :: "string \<Rightarrow> 'fs \<Rightarrow> 'fs option"
  fso_file_size :: "'fs \<Rightarrow> string \<Rightarrow> nat option"
  fso_rename :: "string \<Rightarrow> string \<Rightarrow> 'fs \<Rightarrow> 'fs"
  fso_append :: "string \<Rightarrow> string \<Rightarrow> 'fs \<Rightarrow> 'fs"

text \<open>
  \<open>file_size\<close> is \<open>None\<close> for what is no regular file. \<open>rename\<close> that throws, and \<open>open\<close> that
  fails, leave the files as they are; \<open>create_directories\<close> that throws is \<open>None\<close>.
\<close>

definition get_filesize :: "'fs fs_ops \<Rightarrow> string \<Rightarrow> 'fs \<Rightarrow> u32" where
  "get_filesize ops path s = (case fso_file_size ops s path of None \<Rightarrow> 0 | Some n \<Rightarrow> of_nat (n div 1048576))"

definition rotated_name :: "string \<Rightarrow> nat \<Rightarrow> string" where
  "rotated_name path i = path @ ''.'' @ print_u i"

text \<open>The loop counts down from \<open>logfile_rotate - 1\<close> and ends after the file of number 0.\<close>

fun rotate_loop :: "'fs fs_ops \<Rightarrow> string \<Rightarrow> nat \<Rightarrow> 'fs \<Rightarrow> 'fs" where
  "rotate_loop ops path 0 s = fso_rename ops path (rotated_name path 0) s"
| "rotate_loop ops path (Suc i) s =
     rotate_loop ops path i (fso_rename ops (rotated_name path i) (rotated_name path (Suc i)) s)"

definition rotate_files :: "'fs fs_ops \<Rightarrow> string \<Rightarrow> u32 \<Rightarrow> 'fs \<Rightarrow> 'fs" where
  "rotate_files ops path logfile_rotate s = rotate_loop ops path (unat (logfile_rotate - 1)) s"

definition LOGFILE_ROTATE_CHECK_INTERVAL :: u32 where [utm_consts]: "LOGFILE_ROTATE_CHECK_INTERVAL = 25"

text \<open>
  \<open>write_log\<close>: the world is the state of the files and the lines printed on the console; the
  counter is \<open>rotate_check_counter\<close>. \<open>None\<close> is an exception of \<open>create_directories\<close>.
\<close>

record 'fs log_world =
  lw_fs :: 'fs
  lw_console :: "string list"

definition write_log_file ::
  "'fs fs_ops \<Rightarrow> utime \<Rightarrow> loggingparams \<Rightarrow> string \<Rightarrow> u32 \<Rightarrow> 'fs \<Rightarrow> (u32 \<times> 'fs) option"
where
  "write_log_file ops now p msg counter s =
     (case derive_fullpath now (Some now) (lp_fullpath p) [] of
        (False, filename) \<Rightarrow> Some (counter, s)
      | (True, filename) \<Rightarrow>
          do { let dir = fso_parent_path ops filename;
               s1 \<leftarrow> (if fso_is_directory ops s dir then Some s else fso_create_directories ops dir s);
               let (counter1, s2) =
                 (if lp_maxlogrotate p > 0 then
                    (if counter + 1 \<ge> LOGFILE_ROTATE_CHECK_INTERVAL then
                       (0, if get_filesize ops filename s1 \<ge> lp_maxlogsize p
                           then rotate_files ops filename (lp_maxlogrotate p) s1 else s1)
                     else (counter + 1, s1))
                  else (counter, s1));
               Some (counter1, fso_append ops filename (msg @ [CHR 0x0A]) s2) })"

definition write_log ::
  "'fs fs_ops \<Rightarrow> utime \<Rightarrow> loggingparams \<Rightarrow> string \<Rightarrow> u32 \<Rightarrow> 'fs log_world \<Rightarrow> (u32 \<times> 'fs log_world) option"
where
  "write_log ops now p msg counter w =
     (if lp_enable_file p \<or> lp_enable_console p then
        do { (counter1, s1) \<leftarrow> (if lp_enable_file p then write_log_file ops now p msg counter (lw_fs w)
                                else Some (counter, lw_fs w));
             let w1 = w\<lparr>lw_fs := s1\<rparr>;
             Some (counter1, if lp_enable_console p then w1\<lparr>lw_console := lw_console w1 @ [msg]\<rparr> else w1) }
      else Some (counter, w))"

section \<open>Properties\<close>

text \<open>
  the parameters of a log survive their XML form, except the path that is made of them: a
  parsed object keeps the path it had, so it names no file before its parameters are copied.
\<close>

theorem loggingparams_roundtrip:
  assumes "CHR 0x00 \<notin> set (lp_facility p)" and "CHR 0x00 \<notin> set (lp_directory p)" and "CHR 0x00 \<notin> set (lp_filename p)"
  shows "xml_parse_node lp_xml (lp_xml_create p) False q = Some (p\<lparr>lp_fullpath := lp_fullpath q\<rparr>)"
proof -
  have "xml_parse_allnodes lp_xml (lp_nodes p) (lp_clear q) = Some (p\<lparr>lp_fullpath := lp_fullpath q\<rparr>)"
    using assms by (simp add: lp_nodes_def parse_allnodes_append lp_segments lp_clear_def)
  then show ?thesis by (simp add: xml_parse_node_def lp_xml_def lp_xml_create_def node_children_def)
qed

definition ex_log :: loggingparams where
  "ex_log = \<lparr>lp_facility = ''squid'', lp_enable_file = True, lp_enable_console = False, lp_fullpath = ''logs/utm.txt'',
     lp_directory = ''logs/'', lp_filename = ''utm.txt'', lp_maxlogsize = 3, lp_maxlogrotate = 2\<rparr>"

theorem loggingparams_roundtrip_witness:
  "xml_parse_node lp_xml (lp_xml_create ex_log) False (loggingparamsbase_new 7 7) = Some (ex_log\<lparr>lp_fullpath := []\<rparr>)"
proof -
  have "lp_fullpath (loggingparamsbase_new 7 7) = []" by (simp add: loggingparamsbase_new_def)
  moreover have "CHR 0x00 \<notin> set (lp_facility ex_log)" "CHR 0x00 \<notin> set (lp_directory ex_log)"
    "CHR 0x00 \<notin> set (lp_filename ex_log)" by (simp_all add: ex_log_def)
  ultimately show ?thesis using loggingparams_roundtrip [of ex_log "loggingparamsbase_new 7 7"] by metis
qed

section \<open>Rotation\<close>

lemma print_u_inj: "print_u a = print_u b \<Longrightarrow> a = b"
  using atoi_print_u by metis

lemma rotated_name_inj [simp]: "rotated_name path i = rotated_name path j \<longleftrightarrow> i = j"
  by (auto simp: rotated_name_def dest: print_u_inj)

lemma rotated_name_other [simp]: "rotated_name path i \<noteq> path" "path \<noteq> rotated_name path i"
  by (simp_all add: rotated_name_def)

text \<open>What the files are called before: the log itself, then the numbered files.\<close>

fun older :: "string \<Rightarrow> nat \<Rightarrow> string" where
  "older path 0 = path"
| "older path (Suc i) = rotated_name path i"

definition rename_law :: "'fs fs_ops \<Rightarrow> ('fs \<Rightarrow> string \<Rightarrow> 'c option) \<Rightarrow> bool" where
  "rename_law ops content \<longleftrightarrow> (\<forall>a b s. content (fso_rename ops a b s)
     = (case content s a of None \<Rightarrow> content s | Some v \<Rightarrow> (content s)(a := None, b := Some v)))"

lemma rotate_loop_log:
  "rename_law ops content \<Longrightarrow> content (rotate_loop ops path n s) path = None"
  by (induction n arbitrary: s) (auto simp: rename_law_def split: option.splits)

lemma rotate_loop_other:
  "rename_law ops content \<Longrightarrow> f \<noteq> path \<Longrightarrow> f \<notin> rotated_name path ` {..n} \<Longrightarrow>
   content (rotate_loop ops path n s) f = content s f"
  by (induction n arbitrary: s) (auto simp: rename_law_def atMost_Suc split: option.splits)

lemma rotate_loop_numbered:
  assumes "rename_law ops content" and "i \<le> n"
  shows "content (rotate_loop ops path n s) (rotated_name path i) =
    (case content s (older path i) of Some v \<Rightarrow> Some v
     | None \<Rightarrow> if i = n then content s (rotated_name path i) else None)"
  using assms(2)
proof (induction n arbitrary: s)
  case 0
  then show ?case using assms(1) by (simp add: rename_law_def split: option.splits)
next
  case (Suc n)
  let ?s = "fso_rename ops (rotated_name path n) (rotated_name path (Suc n)) s"
  have r: "content ?s f = (case content s (rotated_name path n) of None \<Rightarrow> content s f
      | Some v \<Rightarrow> if f = rotated_name path (Suc n) then Some v else if f = rotated_name path n then None else content s f)" for f
    using assms(1) by (simp add: rename_law_def split: option.splits)
  show ?case
  proof (cases "i = Suc n")
    case True
    have "content (rotate_loop ops path n ?s) (rotated_name path (Suc n)) = content ?s (rotated_name path (Suc n))"
      using assms(1) by (intro rotate_loop_other) auto
    then show ?thesis using True by (simp add: r split: option.splits)
  next
    case False
    have "content ?s (older path i) = content s (older path i)"
      using False Suc.prems by (cases i) (simp_all add: r split: option.splits)
    then show ?thesis
      using False Suc.prems Suc.IH [of ?s] by (simp add: r split: option.splits)
  qed
qed

text \<open>
  rotation. Every file of the log takes the name of the next older one; only the oldest is
  lost, and only when the one before it exists. Files of other names stay.
\<close>

theorem rotate_shifts:
  assumes "rename_law ops content" and "n > 0"
  shows "content (rotate_files ops path n s) path = None
    \<and> (\<forall>i < unat n. content (rotate_files ops path n s) (rotated_name path i) =
         (case content s (older path i) of Some v \<Rightarrow> Some v
          | None \<Rightarrow> if Suc i = unat n then content s (rotated_name path i) else None))
    \<and> (\<forall>f. f \<noteq> path \<longrightarrow> f \<notin> rotated_name path ` {..<unat n} \<longrightarrow> content (rotate_files ops path n s) f = content s f)"
proof (intro conjI allI impI)
  have n: "unat (n - 1) = unat n - 1" "unat n > 0" using assms(2) by (simp_all add: unat_minus_one unat_gt_0 word_gt_0)
  show "content (rotate_files ops path n s) path = None"
    by (simp add: rotate_files_def rotate_loop_log [OF assms(1)])
  show "content (rotate_files ops path n s) (rotated_name path i) =
       (case content s (older path i) of Some v \<Rightarrow> Some v
        | None \<Rightarrow> if Suc i = unat n then content s (rotated_name path i) else None)" if "i < unat n" for i
    using n that rotate_loop_numbered [OF assms(1), of i "unat n - 1" path s] by (auto simp: rotate_files_def split: option.splits)
  show "content (rotate_files ops path n s) f = content s f" if "f \<noteq> path" "f \<notin> rotated_name path ` {..<unat n}" for f
    using n that by (auto simp: rotate_files_def intro!: rotate_loop_other [OF assms(1)])
qed

definition ex_fs_ops :: "(string \<Rightarrow> string option) fs_ops" where
  "ex_fs_ops = \<lparr>fso_parent_path = (\<lambda>p. []), fso_is_directory = (\<lambda>s p. True), fso_create_directories = (\<lambda>p s. Some s),
     fso_file_size = (\<lambda>s p. map_option length (s p)),
     fso_rename = (\<lambda>a b s. case s a of None \<Rightarrow> s | Some v \<Rightarrow> s(a := None, b := Some v)),
     fso_append = (\<lambda>p t s. s(p := Some ((case s p of None \<Rightarrow> [] | Some v \<Rightarrow> v) @ t)))\<rparr>"

theorem rotate_shifts_witness:
  "let s' = rotate_files ex_fs_ops ''log'' 3 [''log'' \<mapsto> ''new'', rotated_name ''log'' 0 \<mapsto> ''old'']
   in s' ''log'' = None \<and> s' (rotated_name ''log'' 0) = Some ''new'' \<and> s' (rotated_name ''log'' 1) = Some ''old''
     \<and> s' (rotated_name ''log'' 2) = None"
proof -
  have "rename_law ex_fs_ops id" by (simp add: rename_law_def ex_fs_ops_def split: option.splits)
  moreover have n: "(3::u32) > 0" "unat (3::u32) = 3" by simp_all
  ultimately have r: "rotate_files ex_fs_ops ''log'' 3 s ''log'' = None"
    "\<And>i. i < 3 \<Longrightarrow> rotate_files ex_fs_ops ''log'' 3 s (rotated_name ''log'' i) =
       (case s (older ''log'' i) of Some v \<Rightarrow> Some v | None \<Rightarrow> if Suc i = 3 then s (rotated_name ''log'' i) else None)" for s
    using rotate_shifts [of ex_fs_ops id 3] unfolding id_apply by (simp_all split: option.splits)
  have "older ''log'' 1 = rotated_name ''log'' 0" "older ''log'' 2 = rotated_name ''log'' 1"
    by (simp_all add: numeral_2_eq_2)
  then show ?thesis by (simp add: Let_def r)
qed

end
