(* ===== verification/ProxyMsg.thy ===== *)
theory ProxyMsg
  imports HttpHeaders UTime
begin

text \<open>
  \<open>proxyserver/proxymsg.h\<close>, \<open>proxymsg.cpp\<close>: the messages shown instead of a page. Texts are UTF-8; the
  Russian texts of the header, which are in the code page of the file, are an argument. \<open>int\<close> is an integer:
  message types and codes are small. \<open>get_lang\<close> is virtual, the class of the object is \<open>pm_lang\<close>.
\<close>

datatype msglangs = lang_eng | lang_rus

record replymsg =
  rm_msg :: string
  http_code :: int

record proxymsg =
  pm_lang :: msglangs
  pm_messages :: "(int, replymsg) std_map"
  pm_header :: string
  pm_footer :: string

record message_texts =
  mt_messages :: "string list"
  mt_header :: string
  mt_footer :: string

definition msgtypes_int :: "int list" where "msgtypes_int = [0, 10, 20, 30, 40, 50]"

definition REPLY_CODE :: int where "REPLY_CODE = 403"

definition eng_texts :: message_texts where
  "eng_texts = \<lparr>
     mt_messages = [''None'', ''Configuration is not defined. Requests are not served.'',
       ''Accepting connections are not allowing because configuration is being updating. Please, try to reload page later.'',
       ''Access to site '%site%' is prohibited by proxy rule '%rule%'.'',
       ''Unfortunatenaly, host '%site%' has been not resolved. Check your Internet connection and ensure that you typed hostname properly.'',
       ''There are network error while trying to reach google servers when check a status of host '%site%'.''],
     mt_header = ''<HTML><TITLE>Access denied</TITLE><meta http-equiv=\"Content-Type\" content=\"text/html; charset=utf-8\"><style type=\"text/css\">h3 {font-family: Verdana, Arial; font-style:bold font-size:18pt;} p {font-family: Verdana, Arial; font-size:14pt;} td.h1 { font-family:Verdana,Arial; font-size:12pt; font-style:italic; text-align:left; border-top:1px solid black; } </style><BODY><h3>Sorry</h3><p>'',
     mt_footer = ''</p><table width=\"100%\" border=\"0\" cellspacing=\"0\" cellpadding=\"0\"><tr><td class=\"h1\">Generated at %host%@%timestamp%</h1><td></tr></table></BODY></HTML>''\<rparr>"

definition texts_of :: "message_texts \<Rightarrow> msglangs \<Rightarrow> message_texts" where
  "texts_of rus lang = (if lang = lang_eng then eng_texts else rus)"

definition proxymsg_eq :: "proxymsg \<Rightarrow> proxymsg \<Rightarrow> bool" where
  "proxymsg_eq a b \<longleftrightarrow> length (pm_messages a) = length (pm_messages b)
     \<and> list_all (\<lambda>(x, y). x = y) (zip (pm_messages a) (pm_messages b))"

definition set_message :: "int \<Rightarrow> string \<Rightarrow> int \<Rightarrow> proxymsg \<Rightarrow> proxymsg" where
  "set_message msgtype msg code m = m\<lparr>pm_messages :=
     (let v = \<lparr>rm_msg = msg, http_code = code\<rparr> in
      if sm_find msgtype (pm_messages m) = None then sm_insert msgtype v (pm_messages m)
      else sm_set msgtype v (pm_messages m))\<rparr>"

definition fill_by_default :: "message_texts \<Rightarrow> proxymsg \<Rightarrow> proxymsg" where
  "fill_by_default rus m =
     (let t = texts_of rus (pm_lang m);
          m1 = fold (\<lambda>(ty, s). set_message ty s REPLY_CODE) (zip msgtypes_int (mt_messages t)) m
      in m1\<lparr>pm_header := mt_header t, pm_footer := mt_footer t\<rparr>)"

text \<open>
  The constructor of \<open>proxymsg\<close> runs before the object is a \<open>proxymsg_rus\<close>: it fills in the English texts.
\<close>

definition proxymsg_new :: "message_texts \<Rightarrow> msglangs \<Rightarrow> proxymsg" where
  "proxymsg_new rus lang =
     (let m = fill_by_default rus \<lparr>pm_lang = lang_eng, pm_messages = [], pm_header = [], pm_footer = []\<rparr>
      in if lang = lang_eng then m else fill_by_default rus (m\<lparr>pm_lang := lang_rus\<rparr>))"

definition proxymsg_clear :: "proxymsg \<Rightarrow> proxymsg" where "proxymsg_clear m = m\<lparr>pm_messages := []\<rparr>"

section \<open>Texts of messages\<close>

definition replace_pattern :: "string \<Rightarrow> string \<Rightarrow> string \<Rightarrow> string" where
  "replace_pattern pattern rep s = (case str_find s pattern 0 of
      None \<Rightarrow> s | Some pos \<Rightarrow> take pos s @ rep @ drop (pos + length pattern) s)"

text \<open>\<open>host\<close> is the name of the machine when \<open>gethostname\<close> gives one.\<close>

definition format_message ::
  "utime \<Rightarrow> string option \<Rightarrow> string \<Rightarrow> string \<Rightarrow> string \<Rightarrow> string option \<Rightarrow> string option \<Rightarrow> string"
where
  "format_message now host message header footer requestedsite proxyrulename =
     (let r1 = replace_pattern ''%timestamp%'' (ut_to_string format_log None now) (header @ message @ footer);
          r2 = (case host of None \<Rightarrow> r1 | Some h \<Rightarrow> replace_pattern ''%host%'' h r1);
          r3 = replace_pattern ''%site%'' (case requestedsite of None \<Rightarrow> [] | Some s \<Rightarrow> s) r2
      in replace_pattern ''%rule%'' (case proxyrulename of None \<Rightarrow> [] | Some s \<Rightarrow> s) r3)"

definition get_message ::
  "message_texts \<Rightarrow> utime \<Rightarrow> string option \<Rightarrow> int \<Rightarrow> string option \<Rightarrow> string option \<Rightarrow> proxymsg \<Rightarrow> string \<times> int"
where
  "get_message rus now host msgtype requestedsite proxyrulename m =
     (let (p, code) = (case sm_find msgtype (pm_messages m) of
          Some r \<Rightarrow> (rm_msg r, http_code r)
        | None \<Rightarrow> (hd (mt_messages (texts_of rus (pm_lang m))), REPLY_CODE))
      in (format_message now host p (pm_header m) (pm_footer m) requestedsite proxyrulename, code))"

text \<open>\<open>*(r--)\<close> reads the character at \<open>r\<close>, the letter that was found.\<close>

definition parse_browser_language :: "string option \<Rightarrow> msglangs" where
  "parse_browser_language browserlang =
     (case browserlang of
        None \<Rightarrow> lang_eng
      | Some s \<Rightarrow>
          let b = filter (\<lambda>c. c \<noteq> CHR 0x20) (c_str s) in
          (case strstr b ''ru'' of
             None \<Rightarrow> lang_eng
           | Some r \<Rightarrow> if r = 0 then lang_rus else if b ! r = CHR '','' then lang_rus else lang_eng))"

text \<open>For a type without a message the text is left as it is.\<close>

definition get_default_message ::
  "message_texts \<Rightarrow> utime \<Rightarrow> string option \<Rightarrow> int \<Rightarrow> string option \<Rightarrow> string \<Rightarrow> string \<times> int"
where
  "get_default_message rus now host msgtype browserlang msg =
     (let t = texts_of rus (parse_browser_language browserlang) in
      (case find (\<lambda>p. fst p = msgtype) (zip msgtypes_int (mt_messages t)) of
         None \<Rightarrow> msg
       | Some p \<Rightarrow> format_message now host (snd p) (mt_header t) (mt_footer t) None None, REPLY_CODE))"

section \<open>XML form\<close>

definition print_int :: "int \<Rightarrow> string" where
  "print_int k = (if k < 0 then CHR ''-'' # print_u (nat (- k)) else print_u (nat k))"

definition c_atoi :: "string \<Rightarrow> int" where
  "c_atoi s = (let t = dropWhile is_space s in
     if t \<noteq> [] \<and> hd t = CHR ''-'' then - int (atoi (tl t) 0)
     else if t \<noteq> [] \<and> hd t = CHR ''+'' then int (atoi (tl t) 0) else int (atoi t 0))"

definition replymsg_text :: "int \<times> replymsg \<Rightarrow> string" where
  "replymsg_text = (\<lambda>(k, r). print_int k @ ''|'' @ print_int (http_code r) @ ''|'' @ rm_msg r)"

definition proxymsg_xml_create :: "proxymsg \<Rightarrow> xml" where
  "proxymsg_xml_create m = Elem (if pm_lang m = lang_eng then ''MsgEng'' else ''MsgRus'') []
     (xml_append_data ''Header'' (pm_header m) @ xml_append_data ''Footer'' (pm_footer m)
      @ xml_append_strings ''M'' (map replymsg_text (pm_messages m)))"

definition proxymsg_catch_value :: "string \<Rightarrow> string \<Rightarrow> proxymsg \<Rightarrow> proxymsg option" where
  "proxymsg_catch_value keyname v m = Some
     (if keyname = ''Header'' then m\<lparr>pm_header := v\<rparr>
      else if keyname = ''Footer'' then m\<lparr>pm_footer := v\<rparr>
      else if keyname = ''M'' then
        (case split_string True CHR ''|'' (c_str v) of
           [a, b, c] \<Rightarrow> set_message (c_atoi a) c (c_atoi b) m
         | _ \<Rightarrow> m)
      else m)"

definition proxymsg_xml :: "proxymsg xml_class" where
  "proxymsg_xml = \<lparr>xc_clear = proxymsg_clear, xc_create = proxymsg_xml_create,
     xc_value = proxymsg_catch_value, xc_subnode = (\<lambda>k n m. Some m)\<rparr>"

section \<open>The language of a browser\<close>

text \<open>
  a browser is answered in Russian exactly when its list of languages starts with \<open>ru\<close>; Russian in
  another place of the list is not seen.
\<close>

theorem browser_language_first:
  "parse_browser_language (Some s) = lang_rus \<longleftrightarrow> take 2 (filter (\<lambda>c. c \<noteq> CHR 0x20) (c_str s)) = ''ru''"
proof -
  define b where "b = filter (\<lambda>c. c \<noteq> CHR 0x20) (c_str s)"
  have p: "parse_browser_language (Some s) = (case strstr b ''ru'' of None \<Rightarrow> lang_eng
      | Some r \<Rightarrow> if r = 0 then lang_rus else if b ! r = CHR '','' then lang_rus else lang_eng)"
    unfolding parse_browser_language_def b_def Let_def by (simp only: option.case)
  show ?thesis unfolding b_def [symmetric] p
  proof (cases "strstr b ''ru''")
    case None
    then have "\<not> occurs_at b ''ru'' 0" using strstr_None [of b "''ru''"] by simp
    then have "take 2 b \<noteq> ''ru''" by (auto simp: occurs_at_def numeral_2_eq_2 dest: arg_cong [of _ _ length])
    then show "((case strstr b ''ru'' of None \<Rightarrow> lang_eng
      | Some r \<Rightarrow> if r = 0 then lang_rus else if b ! r = CHR '','' then lang_rus else lang_eng) = lang_rus) = (take 2 b = ''ru'')"
      using None by simp
  next
    case (Some r)
    have o: "occurs_at b ''ru'' r" "\<And>j. j < r \<Longrightarrow> \<not> occurs_at b ''ru'' j" using strstr_Some [OF Some] by blast+
    have t: "take 2 (drop r b) = ''ru''" using o(1) by (simp add: occurs_at_def numeral_2_eq_2)
    moreover have "r < length b" using o(1) by (simp add: occurs_at_def)
    ultimately have "b ! r = ''ru'' ! 0" unfolding t [symmetric] by simp
    then have "b ! r = CHR ''r''" by simp
    moreover have "(r = 0) = (take 2 b = ''ru'')"
      using o(1) o(2) [of 0] by (cases "r = 0") (auto simp: occurs_at_def numeral_2_eq_2 dest: arg_cong [of _ _ length])
    ultimately show "((case strstr b ''ru'' of None \<Rightarrow> lang_eng
      | Some r \<Rightarrow> if r = 0 then lang_rus else if b ! r = CHR '','' then lang_rus else lang_eng) = lang_rus) = (take 2 b = ''ru'')"
      using Some by simp
  qed
qed

section \<open>Messages read back\<close>

text \<open>What a file gives back of a message: a bar separates fields, and a message is one field.\<close>

definition msg_kept :: "int \<times> replymsg \<Rightarrow> (int \<times> replymsg) option" where
  "msg_kept = (\<lambda>(k, r). case filter (\<lambda>f. f \<noteq> []) (split_fields CHR ''|'' (rm_msg r)) of
     [s] \<Rightarrow> Some (k, r\<lparr>rm_msg := s\<rparr>) | _ \<Rightarrow> None)"

lemma print_int_chars: "c \<in> set (print_int k) \<Longrightarrow> is_digit c \<or> c = CHR ''-''" "print_int k \<noteq> []"
proof -
  have "is_digit c" if "c \<in> set (print_u n)" for c n using that print_u_digits [of n] by (simp add: list_all_iff)
  then show "c \<in> set (print_int k) \<Longrightarrow> is_digit c \<or> c = CHR ''-''" by (auto simp: print_int_def split: if_splits)
qed (simp add: print_int_def print_u_not_Nil)

lemma print_int_char_class: "c \<in> set (print_int k) \<Longrightarrow> \<not> is_space c \<and> c \<noteq> CHR ''|'' \<and> c \<noteq> CHR 0x00"
  using print_int_chars(1) [of c k] by (auto simp: is_digit_def is_space_def)

lemma c_atoi_print: "c_atoi (print_int k) = k"
proof -
  have d: "dropWhile is_space (print_int k) = print_int k"
    using print_int_char_class by (intro dropWhile_none) blast
  have "hd (print_u n) \<noteq> CHR ''+''" for n
    using print_u_digits [of n] print_u_not_Nil [of n] by (cases "print_u n") (auto simp: is_digit_def)
  then show ?thesis
    unfolding c_atoi_def d Let_def using print_u_hd by (auto simp: print_int_def atoi_print_u print_u_not_Nil)
qed

lemma msg_fields:
  "split_string True CHR ''|'' (replymsg_text (k, r))
     = print_int k # print_int (http_code r) # filter (\<lambda>f. f \<noteq> []) (split_fields CHR ''|'' (rm_msg r))"
proof -
  have b: "CHR ''|'' \<notin> set (print_int j)" for j using print_int_char_class by blast
  have "replymsg_text (k, r) = print_int k @ CHR ''|'' # (print_int (http_code r) @ CHR ''|'' # rm_msg r)"
    by (simp add: replymsg_text_def)
  then show ?thesis by (simp add: split_string_def split_fields_delim b print_int_chars(2))
qed

lemma replymsg_text_xml: "CHR 0x00 \<notin> set (rm_msg r) \<Longrightarrow> xml_text (replymsg_text (k, r))"
  using print_int_char_class [of "CHR 0x00"] by (auto simp: xml_text_def replymsg_text_def)

lemma catch_message:
  assumes "CHR 0x00 \<notin> set (rm_msg r)"
  shows "proxymsg_catch_value ''M'' (replymsg_text (k, r)) m = Some (case msg_kept (k, r) of
    None \<Rightarrow> m | Some p \<Rightarrow> set_message (fst p) (rm_msg (snd p)) (http_code (snd p)) m)"
proof -
  have "c_str (replymsg_text (k, r)) = replymsg_text (k, r)"
    using replymsg_text_xml [OF assms] by (intro c_str_text) (simp add: xml_text_def)
  then show ?thesis
    by (simp add: proxymsg_catch_value_def msg_fields c_atoi_print msg_kept_def split: list.split)
qed

lemma set_message_last:
  assumes "\<forall>q \<in> set (pm_messages m). fst q < fst p"
  shows "set_message (fst p) (rm_msg (snd p)) (http_code (snd p)) m = m\<lparr>pm_messages := pm_messages m @ [p]\<rparr>"
    and "p = (k, r) \<Longrightarrow> set_message k (rm_msg r) (http_code r) m = m\<lparr>pm_messages := pm_messages m @ [(k, r)]\<rparr>"
proof -
  have "sm_find (fst p) (pm_messages m) = None"
    using assms by (auto simp: sm_find_def map_of_eq_None_iff)
  moreover have "\<lparr>rm_msg = rm_msg (snd p), http_code = http_code (snd p)\<rparr> = snd p" by simp
  ultimately show l: "set_message (fst p) (rm_msg (snd p)) (http_code (snd p)) m = m\<lparr>pm_messages := pm_messages m @ [p]\<rparr>"
    using sm_insert_last [OF assms] by (simp only: set_message_def Let_def if_True simp_thms)
  show "p = (k, r) \<Longrightarrow> set_message k (rm_msg r) (http_code r) m = m\<lparr>pm_messages := pm_messages m @ [(k, r)]\<rparr>" using l by simp
qed

lemma messages_read:
  "\<lbrakk>sm_wf ms; \<forall>p \<in> set (pm_messages m). \<forall>q \<in> set ms. fst p < fst q; \<forall>p \<in> set ms. CHR 0x00 \<notin> set (rm_msg (snd p))\<rbrakk> \<Longrightarrow>
   xml_parse_allnodes proxymsg_xml (xml_append_strings ''M'' (map replymsg_text ms)) m
     = Some (m\<lparr>pm_messages := pm_messages m @ List.map_filter msg_kept ms\<rparr>)"
proof (induction ms arbitrary: m)
  case Nil
  then show ?case by (simp add: xml_append_strings_def map_filter_simps)
next
  case (Cons p ms)
  obtain k r where p: "p = (k, r)" by (cases p)
  let ?m = "case msg_kept p of None \<Rightarrow> m | Some q \<Rightarrow> m\<lparr>pm_messages := pm_messages m @ [q]\<rparr>"
  have k: "msg_kept p = Some q \<Longrightarrow> fst q = k" for q by (auto simp: msg_kept_def p split: list.splits)
  have "xml_parse_allnodes proxymsg_xml (xml_append_data ''M'' (replymsg_text p)) m = Some ?m"
    using Cons.prems replymsg_text_xml [of r k] catch_message [of r k m] k
    by (auto simp: parse_data proxymsg_xml_def p set_message_last(2) [OF _ refl] split: option.split)
  moreover have "xml_parse_allnodes proxymsg_xml (xml_append_strings ''M'' (map replymsg_text ms)) ?m
      = Some (?m\<lparr>pm_messages := pm_messages ?m @ List.map_filter msg_kept ms\<rparr>)"
    using Cons.prems k by (intro Cons.IH) (auto simp: sm_wf_Cons p split: option.split)
  ultimately show ?case
    by (simp add: xml_append_strings_def parse_allnodes_append map_filter_simps split: option.split)
qed

text \<open>
  messages are saved and loaded but for those a bar divides into several parts, and empty ones, which are lost;
  bars at the ends of a message are cut off.
\<close>

theorem messages_reloaded:
  assumes "sm_wf (pm_messages m)" and "\<forall>p \<in> set (pm_messages m). CHR 0x00 \<notin> set (rm_msg (snd p))"
    and "xml_text (pm_header m)" and "xml_text (pm_footer m)"
  shows "xml_parse_node proxymsg_xml (proxymsg_xml_create m) False m0
    = Some (m0\<lparr>pm_header := pm_header m, pm_footer := pm_footer m, pm_messages := List.map_filter msg_kept (pm_messages m)\<rparr>)"
proof -
  have v: "xc_value proxymsg_xml = proxymsg_catch_value" "xc_clear proxymsg_xml = proxymsg_clear"
    by (simp_all add: proxymsg_xml_def)
  let ?m = "m0\<lparr>pm_messages := [], pm_header := pm_header m, pm_footer := pm_footer m\<rparr>"
  show ?thesis
    using messages_read [OF assms(1), of ?m] assms(2)
    by (simp add: xml_parse_node_def proxymsg_xml_create_def node_children_def parse_allnodes_append
        parse_data assms(3,4) v proxymsg_catch_value_def proxymsg_clear_def)
qed

definition ex_msgs :: proxymsg where
  "ex_msgs = \<lparr>pm_lang = lang_eng, pm_messages = [(10, \<lparr>rm_msg = ''no'', http_code = 403\<rparr>), (30, \<lparr>rm_msg = ''a|b'', http_code = 403\<rparr>),
     (40, \<lparr>rm_msg = ''|c'', http_code = 500\<rparr>)], pm_header = ''<p>'', pm_footer = ''</p>''\<rparr>"

theorem messages_reloaded_witness:
  "map_option pm_messages (xml_parse_node proxymsg_xml (proxymsg_xml_create ex_msgs) False ex_msgs)
     = Some [(10, \<lparr>rm_msg = ''no'', http_code = 403\<rparr>), (40, \<lparr>rm_msg = ''c'', http_code = 500\<rparr>)]"
proof -
  have "List.map_filter msg_kept (pm_messages ex_msgs)
      = [(10, \<lparr>rm_msg = ''no'', http_code = 403\<rparr>), (40, \<lparr>rm_msg = ''c'', http_code = 500\<rparr>)]" by code_simp
  then show ?thesis
    using messages_reloaded [of ex_msgs ex_msgs] by (simp add: ex_msgs_def sm_wf_def xml_text_def)
qed

end
