(* ===== verification/ConfigProxy.thy ===== *)
theory ConfigProxy
  imports ProxyRule EventLog ProxyMsg
begin

text \<open>
  \<open>proxyserver/configproxy.h\<close>, \<open>configproxy.cpp\<close>: the conditions and rules of the proxy, the decision
  on a request, editing and copying. New objects get the addresses from \<open>fresh\<close> on; \<open>rus\<close> are the
  Russian texts of messages.
\<close>

datatype proxy_error = Empty_condname | Condition_not_found | Rule_not_found | Cannot_be_moved

record configproxy =
  cp_enabled :: bool
  webserver_mode :: bool
  max_threads :: u16
  listen_port :: u16
  dbmask :: u16
  dbprefix :: string
  denybody :: string
  denycode :: string
  webserver_hostname :: string
  third_level_domains :: "string list"
  askgoogle_site :: string
  askgoogle_lang :: string
  askgoogle_useragent :: string
  conditems :: "cond_ref option list"
  cp_rules :: "proxyrule list"
  cp_logging :: "loggingparams list"
  messages_eng :: proxymsg
  messages_rus :: proxymsg

definition configproxy_clear :: "configproxy \<Rightarrow> configproxy" where
  "configproxy_clear c = c\<lparr>cp_enabled := False, webserver_mode := False, max_threads := 16, listen_port := 3128,
     dbmask := 4, dbprefix := [], webserver_hostname := [], third_level_domains := [], askgoogle_site := [],
     askgoogle_lang := [], askgoogle_useragent := []\<rparr>"

definition configproxy_new :: "message_texts \<Rightarrow> configproxy" where
  "configproxy_new rus = configproxy_clear \<lparr>cp_enabled = False, webserver_mode = False, max_threads = 0, listen_port = 0,
     dbmask = 0, dbprefix = [], denybody = [], denycode = [], webserver_hostname = [], third_level_domains = [],
     askgoogle_site = [], askgoogle_lang = [], askgoogle_useragent = [], conditems = [], cp_rules = [], cp_logging = [],
     messages_eng = proxymsg_new rus lang_eng, messages_rus = proxymsg_new rus lang_rus\<rparr>"

definition get_askgoogle_site :: "configproxy \<Rightarrow> string" where
  "get_askgoogle_site c = (if askgoogle_site c = [] then ''www.google.com'' else askgoogle_site c)"

definition get_askgoogle_lang :: "configproxy \<Rightarrow> string" where
  "get_askgoogle_lang c = (if askgoogle_lang c = [] then ''en'' else askgoogle_lang c)"

definition get_askgoogle_useragent :: "configproxy \<Rightarrow> string" where
  "get_askgoogle_useragent c = (if askgoogle_useragent c = []
     then ''User-Agent: Opera/9.80 (Windows NT 6.1; U; ru) Presto/2.10.229 Version/11.61'' else askgoogle_useragent c)"

section \<open>Comparing and default values\<close>

text \<open>Null pointers are followed: \<open>None\<close>.\<close>

definition all_equal :: "('a \<Rightarrow> 'a \<Rightarrow> bool option) \<Rightarrow> 'a list \<Rightarrow> 'a list \<Rightarrow> bool option" where
  "all_equal eq xs ys = (if length xs \<noteq> length ys then Some False
     else fold (\<lambda>(x, y) acc. case acc of Some True \<Rightarrow> eq x y | _ \<Rightarrow> acc) (zip xs ys) (Some True))"

definition configproxy_eq :: "configproxy \<Rightarrow> configproxy \<Rightarrow> bool option" where
  "configproxy_eq a b =
     (if cp_enabled a \<noteq> cp_enabled b \<or> webserver_mode a \<noteq> webserver_mode b \<or> max_threads a \<noteq> max_threads b
        \<or> listen_port a \<noteq> listen_port b \<or> dbmask a \<noteq> dbmask b \<or> dbprefix a \<noteq> dbprefix b \<or> denybody a \<noteq> denybody b
        \<or> denycode a \<noteq> denycode b \<or> webserver_hostname a \<noteq> webserver_hostname b
        \<or> third_level_domains a \<noteq> third_level_domains b then Some False
      else do {
        cs \<leftarrow> all_equal (\<lambda>x y. case (x, y) of (Some c, Some d) \<Rightarrow> Some (conditem_eq (snd c) (snd d)) | _ \<Rightarrow> None)
               (conditems a) (conditems b);
        rs \<leftarrow> (if cs then all_equal proxyrule_eq (cp_rules a) (cp_rules b) else Some False);
        ls \<leftarrow> (if rs then all_equal (\<lambda>x y. Some (lp_eq x y)) (cp_logging a) (cp_logging b) else Some False);
        Some (ls \<and> proxymsg_eq (messages_eng a) (messages_eng b) \<and> proxymsg_eq (messages_rus a) (messages_rus b)) })"

definition loggingparams_new :: loggingparams where "loggingparams_new = lp_clear (loggingparamsbase_new 0 0)"

definition load_default_logfacilities :: "string \<Rightarrow> configproxy \<Rightarrow> configproxy" where
  "load_default_logfacilities common =
     fold (\<lambda>f c. if list_ex (\<lambda>p. c_str (lp_facility p) = f) (cp_logging c) then c
        else c\<lparr>cp_logging := cp_logging c @ [(set_filename common (''Logs'' @ [CHR 0x5C] @ f @ ''_%Y_%m.txt'')
               (loggingparams_new\<lparr>lp_facility := f\<rparr>))\<lparr>lp_maxlogsize := 10, lp_maxlogrotate := 8\<rparr>]\<rparr>)
       [''access'', ''squid'', ''google'']"

definition load_default_thirdleveldomains :: "configproxy \<Rightarrow> configproxy" where
  "load_default_thirdleveldomains c = c\<lparr>third_level_domains := split_string True CHR '' ''
     ''co.jp co.kr com.ua asn.au com.au net.au id.au org.au co.uk ltd.uk me.uk mod.uk net.uk nic.uk org.uk''\<rparr>"

definition get_denyresponse ::
  "message_texts \<Rightarrow> utime \<Rightarrow> string option \<Rightarrow> int \<Rightarrow> string option \<Rightarrow> string option \<Rightarrow> string option \<Rightarrow> configproxy
     \<Rightarrow> string \<times> string"
where
  "get_denyresponse rus now host msgtype browserlang requestedsite proxyrulename c =
     map_prod id print_int (get_message rus now host msgtype requestedsite proxyrulename
       (if parse_browser_language browserlang = lang_eng then messages_eng c else messages_rus c))"

section \<open>The decision\<close>

text \<open>What a request is told about the rule that was looked at last.\<close>

record verdict =
  v_rulename4log :: string
  v_rulename4web :: string
  v_nolog_access :: bool
  v_action :: i32

definition verdict_of :: "proxyrule \<Rightarrow> verdict" where
  "verdict_of r = \<lparr>v_rulename4log = rulename4log r, v_rulename4web = rulename4web r,
     v_nolog_access = nolog_access r, v_action = pr_action r\<rparr>"

text \<open>A denial is waived when the page was reached from a host of the same name under another domain.\<close>

definition referer_waives :: "request_http_headers \<Rightarrow> bool" where
  "referer_waives q \<longleftrightarrow> original_addrurl (rq_referer q) \<noteq> []
     \<and> second_level_host (rq_url q) = second_level_host (rq_referer q)
     \<and> second_level_domain (rq_url q) \<noteq> second_level_domain (rq_referer q)"

fun rules_loop_proxy :: "proxyrequest_params \<Rightarrow> proxyrule list \<Rightarrow> verdict option \<Rightarrow> i32 \<Rightarrow> i32 \<times> verdict option" where
  "rules_loop_proxy p [] v retval = (retval, v)"
| "rules_loop_proxy p (r # rs) v retval =
     (let v' = Some (verdict_of r); retval' = rule_process_request p r in
      if retval' = action_none then rules_loop_proxy p rs v' retval'
      else if retval' = action_deny \<and> referer_waives (pp_request p) then rules_loop_proxy p rs v' action_none
      else (retval', v'))"

definition config_process_request :: "proxyrequest_params \<Rightarrow> configproxy \<Rightarrow> bool \<times> verdict option" where
  "config_process_request p c =
     (case rules_loop_proxy p (cp_rules c) None action_none of (retval, v) \<Rightarrow> (retval \<noteq> action_deny, v))"

section \<open>Editing\<close>

definition find_conditem :: "string \<Rightarrow> cond_ref option list \<Rightarrow> cond_ref option" where
  "find_conditem name cs = (case find (\<lambda>c. case c of None \<Rightarrow> False | Some r \<Rightarrow> condname (snd r) = name) cs of
      Some (Some r) \<Rightarrow> Some r | _ \<Rightarrow> None)"

fun resolve_items :: "cond_ref option list \<Rightarrow> proxyrule_item list \<Rightarrow> proxy_error + proxyrule_item list" where
  "resolve_items cs [] = Inr []"
| "resolve_items cs (x # xs) =
     (if pi_condname x = [] then Inl Empty_condname
      else case find_conditem (pi_condname x) cs of
        None \<Rightarrow> Inl Condition_not_found
      | Some r \<Rightarrow> map_sum id ((#) ((item_copy_properties x proxyrule_item_clear)\<lparr>pi_ci := Some r\<rparr>)) (resolve_items cs xs))"

definition proxyrule_get :: "nat \<Rightarrow> proxyrule \<Rightarrow> configproxy \<Rightarrow> proxy_error + proxyrule" where
  "proxyrule_get index prule c =
     (if index < length (cp_rules c) then Inr (cp_rules c ! index)
      else if index = length (cp_rules c) then Inr prule else Inl Rule_not_found)"

definition proxyrule_add :: "(string \<Rightarrow> string \<times> string) \<Rightarrow> proxyrule \<Rightarrow> nat \<Rightarrow> configproxy \<Rightarrow> proxy_error + configproxy" where
  "proxyrule_add names prule insert_pos c =
     map_sum id (\<lambda>xs.
        let r = (rule_copy_properties names prule proxyrule_new)\<lparr>pr_items := xs\<rparr>; rs = cp_rules c
        in c\<lparr>cp_rules := (if length rs < insert_pos then rs @ [r] else take insert_pos rs @ r # drop insert_pos rs)\<rparr>)
       (resolve_items (conditems c) (pr_items prule))"

definition conditem_used :: "proxyrule list \<Rightarrow> cond_ref option \<Rightarrow> bool" where
  "conditem_used rs c \<longleftrightarrow> list_ex (\<lambda>r. list_ex (\<lambda>x. map_option fst (pi_ci x) = map_option fst c) (pr_items r)) rs"

definition purge_conditems :: "configproxy \<Rightarrow> configproxy" where
  "purge_conditems c = c\<lparr>conditems := filter (conditem_used (cp_rules c)) (conditems c)\<rparr>"

definition proxyrule_delete :: "nat \<Rightarrow> configproxy \<Rightarrow> configproxy" where
  "proxyrule_delete index c = purge_conditems (c\<lparr>cp_rules := take index (cp_rules c) @ drop (Suc index) (cp_rules c)\<rparr>)"

definition proxyrule_replace :: "(string \<Rightarrow> string \<times> string) \<Rightarrow> proxyrule \<Rightarrow> nat \<Rightarrow> configproxy \<Rightarrow> proxy_error + configproxy" where
  "proxyrule_replace names prule index c = map_sum id (proxyrule_delete (index + 1)) (proxyrule_add names prule index c)"

definition swap_rules :: "nat \<Rightarrow> nat \<Rightarrow> configproxy \<Rightarrow> configproxy" where
  "swap_rules i j c = c\<lparr>cp_rules := (cp_rules c)[i := cp_rules c ! j, j := cp_rules c ! i]\<rparr>"

definition rule_moveup :: "nat \<Rightarrow> configproxy \<Rightarrow> proxy_error + configproxy" where
  "rule_moveup index c =
     (if index = 0 \<or> length (cp_rules c) < 2 \<or> length (cp_rules c) \<le> index then Inl Cannot_be_moved
      else Inr (swap_rules index (index - 1) c))"

definition rule_movedown :: "nat \<Rightarrow> configproxy \<Rightarrow> proxy_error + configproxy" where
  "rule_movedown index c =
     (if length (cp_rules c) < 2 \<or> length (cp_rules c) - 1 \<le> index then Inl Cannot_be_moved
      else Inr (swap_rules index (index + 1) c))"

section \<open>Copying\<close>

fun copy_conditems :: "nat \<Rightarrow> cond_ref option list \<Rightarrow> cond_ref option list" where
  "copy_conditems fresh [] = []"
| "copy_conditems fresh (None # cs) = copy_conditems fresh cs"
| "copy_conditems fresh (Some r # cs) =
     map_option (\<lambda>ci. (fresh, ci)) (create_conditem (snd r)) # copy_conditems (Suc fresh) cs"

fun add_rules :: "(string \<Rightarrow> string \<times> string) \<Rightarrow> proxyrule list \<Rightarrow> configproxy \<Rightarrow> proxy_error + configproxy" where
  "add_rules names [] c = Inr c"
| "add_rules names (r # rs) c =
     (case proxyrule_add names r 0x7FFFFFFF c of Inl e \<Rightarrow> Inl e | Inr c' \<Rightarrow> add_rules names rs c')"

definition configproxy_assign ::
  "(string \<Rightarrow> string \<times> string) \<Rightarrow> nat \<Rightarrow> configproxy \<Rightarrow> configproxy \<Rightarrow> proxy_error + configproxy"
where
  "configproxy_assign names fresh rhs c =
     map_sum id (\<lambda>c'. c'\<lparr>cp_logging := cp_logging rhs, messages_eng := messages_eng rhs, messages_rus := messages_rus rhs\<rparr>)
       (add_rules names (cp_rules rhs)
          (c\<lparr>cp_enabled := cp_enabled rhs, webserver_mode := webserver_mode rhs, max_threads := max_threads rhs,
             listen_port := listen_port rhs, dbmask := dbmask rhs, dbprefix := dbprefix rhs, denybody := denybody rhs,
             denycode := denycode rhs, webserver_hostname := webserver_hostname rhs,
             third_level_domains := third_level_domains rhs, askgoogle_site := askgoogle_site rhs,
             askgoogle_lang := askgoogle_lang rhs, askgoogle_useragent := askgoogle_useragent rhs,
             conditems := copy_conditems fresh (conditems rhs), cp_rules := []\<rparr>))"

section \<open>Loading\<close>

text \<open>
  \<open>xml_catch_subnode_finished\<close>: a condition that has been read is made into an object of its class,
  whose text is parsed; the items of a rule that has been read are given their conditions.
\<close>

definition conditem_finished :: "nat \<Rightarrow> conditem \<Rightarrow> configproxy \<Rightarrow> configproxy" where
  "conditem_finished addr conditem_fake c =
     (case create_conditem conditem_fake of
        None \<Rightarrow> c
      | Some ci \<Rightarrow> c\<lparr>conditems := conditems c @ [Some (addr, snd (parse_cond (trim (condvalue conditem_fake)) ci))]\<rparr>)"

definition link_item :: "cond_ref option list \<Rightarrow> proxyrule_item \<Rightarrow> proxyrule_item" where
  "link_item cs x =
     (if pi_condname x \<noteq> [] \<and> pi_ci x = None
      then (case find_conditem (pi_condname x) cs of None \<Rightarrow> x | Some r \<Rightarrow> x\<lparr>pi_ci := Some r\<rparr>) else x)"

definition proxyrule_finished :: "configproxy \<Rightarrow> configproxy" where
  "proxyrule_finished c =
     (if cp_rules c = [] then c
      else let r = last (cp_rules c)
           in c\<lparr>cp_rules := butlast (cp_rules c) @ [r\<lparr>pr_items := map (link_item (conditems c)) (pr_items r)\<rparr>]\<rparr>)"

section \<open>Deciding\<close>

text \<open>
  What the conditions, the rules and the waived denials mean, without the functions that check them. The
  category of a site is the answer of the network, and stays what the code asks.
\<close>

definition cond_holds :: "proxyrequest_params \<Rightarrow> conditem \<Rightarrow> bool" where
  "cond_holds p ci = (case cond_data ci of
      Cond_plain \<Rightarrow> False
    | Cond_addrip ty a b \<Rightarrow> ty = addr_any \<or> (\<exists>c. client_addr (pp_request p) = Some c \<and>
        (ty = addr_single \<and> c = m_addr a \<or> ty = addr_network \<and> c AND m_addr b = m_addr a
         \<or> ty = addr_range \<and> c \<in> {m_addr a..m_addr b}))
    | Cond_addrurl part us \<Rightarrow> (\<exists>s. url_text part (rq_url (pp_request p)) = Some s \<and>
        (\<exists>url \<in> set us. url \<noteq> [] \<and> (if last url = CHR ''$'' then suffix (butlast url) s else sublist url s)))
    | Cond_sitecategory cat \<Rightarrow> check_sitecategory cat p)"

definition rule_holds :: "proxyrequest_params \<Rightarrow> proxyrule \<Rightarrow> bool" where
  "rule_holds p r \<longleftrightarrow> pr_enabled r \<and> pr_items r \<noteq> []
     \<and> (\<forall>x \<in> set (pr_items r). \<exists>a ci. pi_ci x = Some (a, ci) \<and> cond_holds p ci \<noteq> pi_invert x)"

definition decides :: "proxyrequest_params \<Rightarrow> proxyrule \<Rightarrow> bool" where
  "decides p r \<longleftrightarrow> rule_holds p r \<and> pr_action r \<noteq> action_none
     \<and> \<not> (pr_action r = action_deny \<and> original_addrurl (rq_referer (pp_request p)) \<noteq> []
          \<and> second_level_host (rq_url (pp_request p)) = second_level_host (rq_referer (pp_request p))
          \<and> second_level_domain (rq_url (pp_request p)) \<noteq> second_level_domain (rq_referer (pp_request p)))"

lemma do_check_holds: "do_check ci p \<longleftrightarrow> cond_holds p ci"
proof (cases "cond_data ci")
  case (Cond_addrurl part us)
  then show ?thesis using url_condition_matches [OF Cond_addrurl, of p] by (simp add: cond_holds_def)
qed (auto simp: do_check_def cond_holds_def check_addrip_def split: option.split)

lemma rule_process_holds: "rule_process_request p r = (if rule_holds p r then pr_action r else action_none)"
proof -
  have "item_check p x \<longleftrightarrow> (\<exists>a ci. pi_ci x = Some (a, ci) \<and> cond_holds p ci \<noteq> pi_invert x)" for x
    by (cases "pi_ci x") (auto simp: item_check_def Let_def do_check_holds)
  then show ?thesis by (simp add: rule_process_request_def rule_holds_def list_all_iff)
qed

lemma decides_iff: "decides p r \<longleftrightarrow> rule_process_request p r \<noteq> action_none
     \<and> \<not> (rule_process_request p r = action_deny \<and> referer_waives (pp_request p))"
  by (auto simp: decides_def rule_process_holds referer_waives_def action_none_def action_deny_def)

lemma rules_loop_first:
  "rules_loop_proxy p rs v a = (case find (decides p) rs of
      Some r \<Rightarrow> (rule_process_request p r, Some (verdict_of r))
    | None \<Rightarrow> if rs = [] then (a, v) else (action_none, Some (verdict_of (last rs))))"
  by (induction rs arbitrary: v a) (auto simp: decides_iff Let_def split: option.splits)

lemma find_split: "find P (us @ r # vs) = Some r" if "P r" "\<forall>u \<in> set us. \<not> P u"
  using that by (induction us) auto

lemma find_Some_split: "find P xs = Some r \<Longrightarrow> \<exists>us vs. xs = us @ r # vs \<and> P r \<and> (\<forall>u \<in> set us. \<not> P u)"
proof (induction xs)
  case (Cons x xs)
  show ?case
  proof (cases "P x")
    case True
    then show ?thesis using Cons.prems by (auto intro: exI [of _ "[]"])
  next
    case False
    then obtain us vs where "xs = us @ r # vs" "P r" "\<forall>u \<in> set us. \<not> P u" using Cons by auto
    then show ?thesis using False by (intro exI [of _ "x # us"] exI [of _ vs]) simp
  qed
qed simp

text \<open>
  C3: a request is denied exactly when the first rule that decides on it denies it, and the log names the
  rule that decides; when no rule decides, the request passes and the log names the last rule of the list.
  A rule decides when it is enabled, has conditions, each of them holds or, inverted, does not hold, its
  action is to deny or to allow, and it is no denial of a request whose referer names a host of the same
  second level under another domain.
\<close>

theorem first_rule_decides:
  "(\<not> fst (config_process_request p c) \<longleftrightarrow> (\<exists>us r vs. cp_rules c = us @ r # vs \<and> decides p r
       \<and> pr_action r = action_deny \<and> (\<forall>u \<in> set us. \<not> decides p u)))
   \<and> (\<forall>us r vs. cp_rules c = us @ r # vs \<and> decides p r \<and> (\<forall>u \<in> set us. \<not> decides p u)
       \<longrightarrow> snd (config_process_request p c) = Some (verdict_of r))
   \<and> ((\<forall>r \<in> set (cp_rules c). \<not> decides p r) \<longrightarrow> snd (config_process_request p c)
       = (if cp_rules c = [] then None else Some (verdict_of (last (cp_rules c)))))"
proof -
  have a: "rule_process_request p r = pr_action r" if "decides p r" for r
    using that by (simp add: decides_iff rule_process_holds split: if_splits)
  have l: "config_process_request p c = (case find (decides p) (cp_rules c) of
        Some r \<Rightarrow> (pr_action r \<noteq> action_deny, Some (verdict_of r))
      | None \<Rightarrow> (True, if cp_rules c = [] then None else Some (verdict_of (last (cp_rules c)))))"
    unfolding config_process_request_def rules_loop_first
    using a find_Some_set [of "decides p" "cp_rules c"]
    by (auto simp: action_none_def action_deny_def split: option.splits)
  show ?thesis
  proof (cases "find (decides p) (cp_rules c)")
    case None
    then have "\<forall>r \<in> set (cp_rules c). \<not> decides p r" by (simp add: find_None_iff)
    then have n: "\<not> decides p r" if "cp_rules c = us @ r # vs" for us r vs using that by simp
    have "config_process_request p c = (True, if cp_rules c = [] then None else Some (verdict_of (last (cp_rules c))))"
      using l None by simp
    then show ?thesis using n by (intro conjI allI impI) auto
  next
    case (Some r)
    obtain us vs where s: "cp_rules c = us @ r # vs" "decides p r" "\<forall>u \<in> set us. \<not> decides p u"
      using find_Some_split [OF Some] by blast
    have u: "r' = r" if "cp_rules c = us' @ r' # vs'" "decides p r'" "\<forall>u \<in> set us'. \<not> decides p u" for us' r' vs'
      using find_split [of "decides p", OF that(2,3), of vs'] that(1) Some by simp
    have "config_process_request p c = (pr_action r \<noteq> action_deny, Some (verdict_of r))" using l Some by simp
    moreover have "(\<exists>us r vs. cp_rules c = us @ r # vs \<and> decides p r \<and> pr_action r = action_deny
        \<and> (\<forall>u \<in> set us. \<not> decides p u)) \<longleftrightarrow> pr_action r = action_deny" using s u by metis
    moreover have "\<not> (\<forall>q \<in> set (cp_rules c). \<not> decides p q)" using s(1,2) by simp
    moreover have "cp_rules c \<noteq> []" using s(1) by simp
    ultimately show ?thesis using u by auto
  qed
qed

text \<open>
  C16: no configuration of the proxy denies a request that names as its referer a host of the same second
  level under another domain; the referer is a field the client writes.
\<close>

theorem referer_defeats_denials:
  assumes "second_level_host (rq_url q) = b" and "second_level_domain (rq_url q) \<noteq> b @ ''.'' @ x"
    and "rq_referer q = parse_addrurl crc (''http://'' @ b @ ''.'' @ x) addrurl_new"
    and "b \<noteq> []" and "labels [b, x]" and "set (b @ x) \<inter> set ''/:?'' = {}"
  shows "fst (config_process_request \<lparr>pp_request = q, pp_whatsite = w\<rparr> c)"
proof -
  let ?r = "parse_addrurl crc (''http://'' @ b @ ''.'' @ x) addrurl_new"
  have h: "CHR ''/'' \<notin> set (b @ ''.'' @ x)" "CHR '':'' \<notin> set (b @ ''.'' @ x)" using assms(6) by auto
  have u: "?r = parse_addrurl crc (''http'' @ ''://'' @ (b @ ''.'' @ x) @ (if [] = [] then [] else CHR '':'' # []) @ []
      @ (case None of None \<Rightarrow> [] | Some y \<Rightarrow> CHR ''?'' # y)) addrurl_new" by simp
  obtain v where v: "au_host v = b @ ''.'' @ x" "second_level_domain ?r = second_level_domain (extract_domains v)"
    "second_level_host ?r = second_level_host (extract_domains v)"
    using parse_parts [OF _ _ _ h _ _ _ _ u] by auto
  have "extract_domains v = v\<lparr>is_ipaddr := False, au_depth := depth_second, second_level_domain := au_host v, second_level_host := b\<rparr>"
    by (rule domains_of_two [OF assms(5) _ assms(4)]) (simp add: v(1))
  then have d: "second_level_host ?r = b" "second_level_domain ?r = b @ ''.'' @ x" using v by simp_all
  have "CHR ''h'' \<in> set (''http://'' @ b @ ''.'' @ x)" "\<not> is_space CHR ''h''" by (simp_all add: is_space_def)
  then have "original_addrurl ?r \<noteq> []" using trim_some by (simp only: original_addrurl_parse) blast
  then have "referer_waives q" using assms(1-3) d by (simp add: referer_waives_def)
  then have "rule_process_request \<lparr>pp_request = q, pp_whatsite = w\<rparr> r \<noteq> action_deny"
    if "find (decides \<lparr>pp_request = q, pp_whatsite = w\<rparr>) (cp_rules c) = Some r" for r
    using find_Some_set [OF that] by (simp add: decides_iff)
  then show ?thesis
    unfolding config_process_request_def rules_loop_first
    by (simp add: action_none_def action_deny_def split: option.split)
qed

definition ex_deny_config :: configproxy where
  "ex_deny_config = (configproxy_new eng_texts)\<lparr>cp_rules := [proxyrule_new\<lparr>pr_action := action_deny,
     pr_items := [\<lparr>pi_invert = False, pi_condname = ''a'',
       pi_ci = Some (0, set_conditem_addrip addr_any (Addrip_v4 0) (Addrip_v4 0) conditem_clear)\<rparr>]\<rparr>]\<rparr>"

definition ex_referred :: "string \<Rightarrow> request_http_headers" where
  "ex_referred referer = (ex_request ''www.site.net'' None)\<lparr>
     rq_url := parse_addrurl (\<lambda>s. 0) ''http://www.site.net/'' addrurl_new,
     rq_referer := parse_addrurl (\<lambda>s. 0) referer addrurl_new\<rparr>"

theorem referer_defeats_denials_witness:
  "fst (config_process_request \<lparr>pp_request = ex_referred ''http://site.x'', pp_whatsite = None\<rparr> ex_deny_config)
   \<and> \<not> fst (config_process_request \<lparr>pp_request = ex_referred [], pp_whatsite = None\<rparr> ex_deny_config)"
proof
  have h: "second_level_host (rq_url (ex_referred ''http://site.x'')) = ''site''"
    "second_level_domain (rq_url (ex_referred ''http://site.x'')) \<noteq> ''site'' @ ''.'' @ ''x''" by code_simp+
  have r: "rq_referer (ex_referred ''http://site.x'') = parse_addrurl (\<lambda>s. 0) (''http://'' @ ''site'' @ ''.'' @ ''x'') addrurl_new"
    by (simp add: ex_referred_def)
  have l: "labels [''site'', ''x'']" "set (''site'' @ ''x'') \<inter> set ''/:?'' = {}" by code_simp+
  show "fst (config_process_request \<lparr>pp_request = ex_referred ''http://site.x'', pp_whatsite = None\<rparr> ex_deny_config)"
    by (rule referer_defeats_denials [OF h r _ l]) simp
  show "\<not> fst (config_process_request \<lparr>pp_request = ex_referred [], pp_whatsite = None\<rparr> ex_deny_config)" by code_simp
qed

definition ex_two_rules :: configproxy where
  "ex_two_rules = ex_deny_config\<lparr>cp_rules := map (\<lambda>r. r\<lparr>pr_enabled := False, pr_action := action_allow\<rparr>)
     (cp_rules ex_deny_config) @ cp_rules ex_deny_config\<rparr>"

theorem first_rule_decides_witness:
  "\<not> fst (config_process_request \<lparr>pp_request = ex_referred [], pp_whatsite = None\<rparr> ex_two_rules)"
proof -
  let ?p = "\<lparr>pp_request = ex_referred [], pp_whatsite = None\<rparr>" and ?d = "hd (cp_rules ex_deny_config)"
  have r: "cp_rules ex_two_rules = [?d\<lparr>pr_enabled := False, pr_action := action_allow\<rparr>] @ ?d # []"
    by (simp add: ex_two_rules_def ex_deny_config_def)
  have "original_addrurl (rq_referer (ex_referred [])) = []" by code_simp
  then have d: "decides ?p ?d" "pr_action ?d = action_deny"
    by (simp_all add: decides_def rule_holds_def cond_holds_def ex_deny_config_def proxyrule_new_def
        set_conditem_addrip_def conditem_clear_def action_deny_def action_none_def)
  have "\<forall>u \<in> set [?d\<lparr>pr_enabled := False, pr_action := action_allow\<rparr>]. \<not> decides ?p u"
    by (simp add: decides_def rule_holds_def)
  with r d show ?thesis
    by (subst conjunct1 [OF first_rule_decides]) blast
qed

section \<open>Saving and loading a condition\<close>

definition conditem_nodes :: "conditem \<Rightarrow> xml list" where
  "conditem_nodes ci =
     (let ctype = get_conditem_type ci in
      if ctype = condtype_none then []
      else [Elem ''Conditem'' []
        (xml_append_data ''Type'' (case enum_to_str condtypes_tab ctype of None \<Rightarrow> [] | Some s \<Rightarrow> s)
         @ xml_append_data ''Name'' (condname ci) @ xml_append_data ''Value'' (condvalue ci))])"

definition conditem_catch_value :: "string \<Rightarrow> string \<Rightarrow> conditem \<Rightarrow> conditem option" where
  "conditem_catch_value keyname v ci = Some
     (if keyname = ''Type'' then ci\<lparr>condtype := enum_from_str_ci condtypes_tab v condtype_none\<rparr>
      else if keyname = ''Name'' then ci\<lparr>condname := v\<rparr>
      else if keyname = ''Value'' then ci\<lparr>condvalue := v\<rparr> else ci)"

definition conditem_xml :: "conditem xml_class" where
  "conditem_xml = \<lparr>xc_clear = (\<lambda>ci. conditem_clear), xc_create = (\<lambda>ci. Elem [] [] (conditem_nodes ci)),
     xc_value = conditem_catch_value, xc_subnode = (\<lambda>k n ci. Some ci)\<rparr>"

text \<open>The part of \<open>xml_catch_subnode\<close> for conditions: \<open>conditem_fake\<close> is parsed and finished.\<close>

definition catch_conditem :: "nat \<Rightarrow> xml \<Rightarrow> configproxy \<Rightarrow> configproxy option" where
  "catch_conditem addr n c = map_option (\<lambda>f. conditem_finished addr f c) (xml_parse_node conditem_xml n False conditem_clear)"

lemma enum_condtypes: "\<exists>s. enum_to_str condtypes_tab t = Some s \<and> CHR 0x00 \<notin> set s \<and> (t \<noteq> condtype_none \<longrightarrow> s \<noteq> [])
   \<and> enum_from_str_ci condtypes_tab s condtype_none = t"
proof -
  have "case enum_to_str condtypes_tab t of None \<Rightarrow> False | Some s \<Rightarrow> CHR 0x00 \<notin> set s \<and> (t \<noteq> condtype_none \<longrightarrow> s \<noteq> [])
     \<and> enum_from_str_ci condtypes_tab s condtype_none = t"
    by (cases t; simp only:; code_simp)
  then show ?thesis by (auto split: option.splits)
qed

lemma conditem_loaded:
  assumes "get_conditem_type ci \<noteq> condtype_none" and "CHR 0x00 \<notin> set (condname ci @ condvalue ci)"
  shows "\<exists>n. conditem_nodes ci = [n] \<and> catch_conditem addr n c = Some (conditem_finished addr
    \<lparr>condtype = get_conditem_type ci, condname = condname ci, condvalue = condvalue ci, cond_data = Cond_plain\<rparr> c)"
proof -
  obtain s where s: "enum_to_str condtypes_tab (get_conditem_type ci) = Some s" "CHR 0x00 \<notin> set s" "s \<noteq> []"
    "enum_from_str_ci condtypes_tab s condtype_none = get_conditem_type ci"
    using enum_condtypes [of "get_conditem_type ci"] assms(1) by blast
  have d: "xml_parse_allnodes conditem_xml (xml_append_data k t) x = (if t = [] then Some x else conditem_catch_value k t x)"
    if "CHR 0x00 \<notin> set t" for k t x
    using that parse_data [of t conditem_xml k x] parse_empty_data [of conditem_xml k x]
    by (auto simp: xml_text_def conditem_xml_def)
  show ?thesis
    using assms s
    by (simp add: conditem_nodes_def catch_conditem_def xml_parse_node_def node_children_def Let_def parse_allnodes_append d)
      (simp add: conditem_xml_def conditem_clear_def conditem_catch_value_def)
qed

lemma addrip_cond_text_chars:
  assumes "c \<in> set (ip_to_string a)"
  shows "\<not> is_space c \<and> c \<noteq> CHR 0x00 \<and> c \<noteq> CHR ''/'' \<and> c \<noteq> CHR ''-'' \<and> c \<noteq> CHR ''a''"
  using ip_to_string_chars [of a] assms by (auto simp: list_all_iff is_space_def is_digit_def)

lemma parse_addrip_saved:
  "parse_addrip_cond (addrip_cond_text ty a b) addr_none x y = (case ty of
      addr_any \<Rightarrow> (True, Cond_addrip addr_any x y)
    | addr_none \<Rightarrow> parse_addrip_cond [] addr_none x y
    | addr_single \<Rightarrow> (False, Cond_addrip addr_none x y)
    | _ \<Rightarrow> (False, Cond_addrip ty x y))"
proof -
  have n: "ip_to_string u \<noteq> ''any''" "ip_to_string u @ v \<noteq> ''any''" for u v
  proof -
    obtain h t where h: "ip_to_string u = h # t" using ip_to_string_not_Nil [of u] by (cases "ip_to_string u") auto
    then have "h \<noteq> CHR ''a''" using addrip_cond_text_chars [of h u] by auto
    then show "ip_to_string u \<noteq> ''any''" "ip_to_string u @ v \<noteq> ''any''" using h by auto
  qed
  have c: "CHR ''/'' \<notin> set (ip_to_string u)" "CHR ''-'' \<notin> set (ip_to_string u)" for u
    using addrip_cond_text_chars by blast+
  have s: "str_find (ip_to_string u) ''/'' 0 = None" "str_find (ip_to_string u) ''-'' 0 = None" for u
    using c by (auto intro!: str_find_absent)
  have f: "str_find (ip_to_string u @ CHR ''/'' # ip_to_string v) ''/'' 0 = Some (length (ip_to_string u))"
    "str_find (ip_to_string u @ CHR ''-'' # ip_to_string v) ''-'' 0 = Some (length (ip_to_string u))"
    "str_find (ip_to_string u @ CHR ''/'' # ip_to_string v) ''-'' 0 = None"
    "str_find (ip_to_string u @ CHR ''-'' # ip_to_string v) ''/'' 0 = None" for u v
    using c str_find_first0 [of "''/''" "ip_to_string u" "ip_to_string v"]
      str_find_first0 [of "''-''" "ip_to_string u" "ip_to_string v"]
    by (auto intro!: str_find_absent)
  show ?thesis
    by (cases ty) (simp_all add: parse_addrip_cond_def addrip_cond_text_def n s f ip_text_false)
qed

text \<open>
  C5: a condition on the address of the client does not survive a file: the addresses of its text are not
  read, so a network becomes every IPv4 client, a range the address 0.0.0.0, and a single address nobody.
\<close>

theorem saved_addrip_condition:
  assumes "ty \<noteq> addr_none" and "CHR 0x00 \<notin> set (condname ci)"
  shows "\<exists>n d. conditem_nodes (set_conditem_addrip ty a b ci) = [n]
    \<and> catch_conditem addr n c = Some (c\<lparr>conditems := conditems c @ [Some (addr, d)]\<rparr>)
    \<and> do_check d p = (case ty of addr_any \<Rightarrow> True | addr_network \<Rightarrow> client_addr (pp_request p) \<noteq> None
        | addr_range \<Rightarrow> client_addr (pp_request p) = Some 0 | _ \<Rightarrow> False)"
proof -
  let ?ci = "set_conditem_addrip ty a b ci" and ?t = "addrip_cond_text ty a b"
  have t: "\<forall>c \<in> set ?t. \<not> is_space c \<and> c \<noteq> CHR 0x00"
    using addrip_cond_text_chars by (auto simp: addrip_cond_text_def is_space_def split: addrtypes.split)
  then have tr: "trim ?t = ?t" by (simp add: trim_def dropWhile_none)
  have ty: "get_conditem_type ?ci = condtype_srcip" by (simp add: set_conditem_addrip_def)
  obtain n where n: "conditem_nodes ?ci = [n]" "catch_conditem addr n c = Some (conditem_finished addr
      \<lparr>condtype = condtype_srcip, condname = condname ci, condvalue = ?t, cond_data = Cond_plain\<rparr> c)"
    using conditem_loaded [of ?ci addr c] assms(2) t ty by (auto simp: set_conditem_addrip_def)
  define d where "d = snd (parse_cond ?t \<lparr>condtype = condtype_srcip, condname = condname ci, condvalue = ?t,
      cond_data = Cond_addrip addr_none (Addrip_v4 0) (Addrip_v4 0)\<rparr>)"
  have "catch_conditem addr n c = Some (c\<lparr>conditems := conditems c @ [Some (addr, d)]\<rparr>)"
    by (simp add: n(2) conditem_finished_def create_conditem_def create_conditem_type_def copy_my_properties_def
        conditem_clear_def tr d_def)
  moreover have "do_check d p = (case ty of addr_any \<Rightarrow> True | addr_network \<Rightarrow> client_addr (pp_request p) \<noteq> None
        | addr_range \<Rightarrow> client_addr (pp_request p) = Some 0 | _ \<Rightarrow> False)"
    using assms(1) unfolding d_def parse_cond_def
    by (cases ty) (auto simp: parse_addrip_saved do_check_def check_addrip_def split: option.split)
  ultimately show ?thesis using n(1) by blast
qed

theorem saved_addrip_condition_witness:
  "\<exists>n d. conditem_nodes (set_conditem_addrip addr_network (Addrip_v4 0x0A000000) (Addrip_v4 0xFF000000) conditem_clear) = [n]
    \<and> catch_conditem 1 n (configproxy_new eng_texts) = Some ((configproxy_new eng_texts)\<lparr>conditems := conditems (configproxy_new eng_texts) @ [Some (1, d)]\<rparr>)
    \<and> do_check d \<lparr>pp_request = ex_request ''a.com'' (Some 0x08080808), pp_whatsite = None\<rparr>"
  using saved_addrip_condition [of addr_network conditem_clear "Addrip_v4 0x0A000000" "Addrip_v4 0xFF000000" 1
      "configproxy_new eng_texts" "\<lparr>pp_request = ex_request ''a.com'' (Some 0x08080808), pp_whatsite = None\<rparr>"]
  by (simp add: conditem_clear_def ex_request_def)

section \<open>Editing keeps a configuration in order\<close>

text \<open>
  Every condition is an object of a class the factory makes, no two have the same name or address, and
  every item of a rule points to the condition it names.
\<close>

definition conditem_ok :: "conditem \<Rightarrow> bool" where
  "conditem_ok ci \<longleftrightarrow> cond_data ci \<noteq> Cond_plain \<and> get_conditem_type ci \<noteq> condtype_none \<and> condname ci \<noteq> []"

definition item_ok :: "cond_ref list \<Rightarrow> proxyrule_item \<Rightarrow> bool" where
  "item_ok rs x \<longleftrightarrow> (\<exists>r \<in> set rs. pi_ci x = Some r \<and> pi_condname x = condname (snd r))"

definition config_ok :: "configproxy \<Rightarrow> bool" where
  "config_ok c \<longleftrightarrow> (\<exists>rs. conditems c = map Some rs \<and> distinct (map fst rs) \<and> distinct (map (condname \<circ> snd) rs)
     \<and> (\<forall>r \<in> set rs. conditem_ok (snd r)) \<and> (\<forall>p \<in> set (cp_rules c). \<forall>x \<in> set (pr_items p). item_ok rs x))"

datatype config_edit = Add_rule proxyrule nat | Delete_rule nat | Replace_rule proxyrule nat
  | Move_up nat | Move_down nat

fun config_edit_step :: "(string \<Rightarrow> string \<times> string) \<Rightarrow> config_edit \<Rightarrow> configproxy \<Rightarrow> proxy_error + configproxy" where
  "config_edit_step names (Add_rule r pos) c = proxyrule_add names r pos c"
| "config_edit_step names (Delete_rule i) c = Inr (proxyrule_delete i c)"
| "config_edit_step names (Replace_rule r i) c = proxyrule_replace names r i c"
| "config_edit_step names (Move_up i) c = rule_moveup i c"
| "config_edit_step names (Move_down i) c = rule_movedown i c"

inductive config_reach :: "(string \<Rightarrow> string \<times> string) \<Rightarrow> configproxy \<Rightarrow> configproxy \<Rightarrow> bool" for names c where
  start: "config_reach names c c"
| edit: "config_reach names c d \<Longrightarrow> config_edit_step names e d = Inr d' \<Longrightarrow> config_reach names c d'"
| refused: "config_reach names c d \<Longrightarrow> config_edit_step names e d = Inl err \<Longrightarrow> config_reach names c d"

lemma find_conditem_Some:
  "find_conditem name (map Some rs) = find (\<lambda>r. condname (snd r) = name) rs"
  by (induction rs) (auto simp: find_conditem_def)

lemma resolve_items_ok:
  "resolve_items (map Some rs) xs = Inr ys \<Longrightarrow> \<forall>y \<in> set ys. item_ok rs y"
proof (induction xs arbitrary: ys)
  case (Cons x xs)
  then obtain r zs where r: "find (\<lambda>r. condname (snd r) = pi_condname x) rs = Some r"
    "resolve_items (map Some rs) xs = Inr zs"
    "ys = (item_copy_properties x proxyrule_item_clear)\<lparr>pi_ci := Some r\<rparr> # zs"
    by (cases "resolve_items (map Some rs) xs")
      (auto simp: find_conditem_Some split: if_splits option.splits)
  then show ?case
    using Cons.IH find_Some_set [OF r(1)] by (auto simp: item_ok_def item_copy_properties_def)
qed simp

lemma config_ok_rules:
  assumes "config_ok c"
    and "\<And>rs p x. \<lbrakk>conditems c = map Some rs; p \<in> set ps; p \<notin> set (cp_rules c); x \<in> set (pr_items p)\<rbrakk> \<Longrightarrow> item_ok rs x"
  shows "config_ok (c\<lparr>cp_rules := ps\<rparr>)"
proof -
  obtain rs where rs: "conditems c = map Some rs" "distinct (map fst rs)" "distinct (map (condname \<circ> snd) rs)"
    "\<forall>r \<in> set rs. conditem_ok (snd r)" "\<forall>p \<in> set (cp_rules c). \<forall>x \<in> set (pr_items p). item_ok rs x"
    using assms(1) unfolding config_ok_def by blast
  then have "item_ok rs x" if "p \<in> set ps" "x \<in> set (pr_items p)" for p x
    using assms(2) [OF rs(1) that(1) _ that(2)] that by blast
  then show ?thesis using rs(1-4) unfolding config_ok_def by auto
qed

lemma config_ok_subset: "\<lbrakk>config_ok c; set ps \<subseteq> set (cp_rules c)\<rbrakk> \<Longrightarrow> config_ok (c\<lparr>cp_rules := ps\<rparr>)"
  by (rule config_ok_rules) auto

lemma proxyrule_add_ok:
  assumes "config_ok c" and "proxyrule_add names r pos c = Inr c'"
  shows "config_ok c'"
proof -
  obtain xs where xs: "resolve_items (conditems c) (pr_items r) = Inr xs"
    using assms(2) by (cases "resolve_items (conditems c) (pr_items r)") (auto simp: proxyrule_add_def)
  let ?r = "(rule_copy_properties names r proxyrule_new)\<lparr>pr_items := xs\<rparr>"
  let ?ps = "if length (cp_rules c) < pos then cp_rules c @ [?r] else take pos (cp_rules c) @ ?r # drop pos (cp_rules c)"
  have c': "c' = c\<lparr>cp_rules := ?ps\<rparr>" using assms(2) by (simp add: proxyrule_add_def xs Let_def)
  have "set ?ps \<subseteq> insert ?r (set (cp_rules c))" by (auto dest: in_set_takeD in_set_dropD)
  then have new: "p \<in> set ?ps \<Longrightarrow> p \<notin> set (cp_rules c) \<Longrightarrow> p = ?r" for p by blast
  show ?thesis unfolding c'
  proof (rule config_ok_rules [OF assms(1)])
    fix rs p x
    assume a: "conditems c = map Some rs" "p \<in> set ?ps" "p \<notin> set (cp_rules c)" "x \<in> set (pr_items p)"
    have "x \<in> set xs" using new [OF a(2,3)] a(4) by simp
    then show "item_ok rs x" using resolve_items_ok [of rs "pr_items r" xs] xs a(1) by auto
  qed
qed

lemma purge_ok:
  assumes "config_ok c"
  shows "config_ok (purge_conditems c) \<and> (\<forall>r \<in> set (conditems (purge_conditems c)). conditem_used (cp_rules c) r)"
proof -
  obtain rs where rs: "conditems c = map Some rs" "distinct (map fst rs)" "distinct (map (condname \<circ> snd) rs)"
    "\<forall>r \<in> set rs. conditem_ok (snd r)" "\<forall>p \<in> set (cp_rules c). \<forall>x \<in> set (pr_items p). item_ok rs x"
    using assms unfolding config_ok_def by blast
  let ?rs = "filter (\<lambda>r. conditem_used (cp_rules c) (Some r)) rs"
  have "filter (conditem_used (cp_rules c)) (map Some rs) = map Some ?rs" by (simp add: filter_map comp_def)
  moreover have "item_ok ?rs x" if "p \<in> set (cp_rules c)" "x \<in> set (pr_items p)" for p x
  proof -
    have "item_ok rs x" using rs(5) that by blast
    then obtain r where r: "r \<in> set rs" "pi_ci x = Some r" "pi_condname x = condname (snd r)"
      unfolding item_ok_def by blast
    moreover have "conditem_used (cp_rules c) (Some r)"
      unfolding conditem_used_def list_ex_iff by (intro bexI [of _ p] bexI [of _ x] that) (simp add: r(2))
    ultimately show ?thesis unfolding item_ok_def by auto
  qed
  moreover have "distinct (map fst ?rs)" "distinct (map (condname \<circ> snd) ?rs)"
    using rs(2,3) by (simp_all add: distinct_map_filter)
  ultimately have "config_ok (purge_conditems c)"
    unfolding config_ok_def by (intro exI [where x = ?rs]) (use rs(1,4) in \<open>auto simp: purge_conditems_def\<close>)
  then show ?thesis by (simp add: purge_conditems_def)
qed

lemma proxyrule_delete_ok: "config_ok c \<Longrightarrow> config_ok (proxyrule_delete i c)"
proof -
  assume c: "config_ok c"
  have "set (take i (cp_rules c) @ drop (Suc i) (cp_rules c)) \<subseteq> set (cp_rules c)"
    using set_take_subset [of i "cp_rules c"] set_drop_subset [of "Suc i" "cp_rules c"] by simp
  then show ?thesis unfolding proxyrule_delete_def using purge_ok [OF config_ok_subset [OF c]] by blast
qed

lemma swap_rules_ok:
  assumes "config_ok c" and "i < length (cp_rules c)" and "j < length (cp_rules c)"
  shows "config_ok (swap_rules i j c)"
  unfolding swap_rules_def
proof (rule config_ok_subset [OF assms(1)])
  show "set ((cp_rules c)[i := cp_rules c ! j, j := cp_rules c ! i]) \<subseteq> set (cp_rules c)"
    using assms(2,3) by (intro set_update_subsetI) auto
qed

lemma config_edit_ok:
  assumes "config_ok c" and "config_edit_step names e c = Inr c'"
  shows "config_ok c'"
  using assms
proof (cases e)
  case (Replace_rule r i)
  then show ?thesis
    using assms proxyrule_add_ok proxyrule_delete_ok
    by (cases "proxyrule_add names r i c") (auto simp: proxyrule_replace_def)
qed (auto simp: rule_moveup_def rule_movedown_def split: if_splits
      intro: proxyrule_add_ok proxyrule_delete_ok intro!: swap_rules_ok)

text \<open>
  C19: whatever editing does, every condition keeps a name of its own and every item of a rule points to
  the condition it names; a deleted rule takes the conditions nothing else uses with it.
\<close>

theorem editing_keeps_order:
  assumes "config_reach names c d" and "config_ok c"
  shows "config_ok d \<and> (\<forall>i. \<forall>r \<in> set (conditems (proxyrule_delete i d)). conditem_used (cp_rules (proxyrule_delete i d)) r)"
proof -
  have d: "config_ok d" using assms by (induction rule: config_reach.induct) (auto intro: config_edit_ok)
  moreover have "\<forall>r \<in> set (conditems (proxyrule_delete i d)). conditem_used (cp_rules (proxyrule_delete i d)) r" for i
    by (simp add: proxyrule_delete_def purge_conditems_def)
  ultimately show ?thesis by blast
qed

definition ex_edit_config :: configproxy where
  "ex_edit_config = (configproxy_new eng_texts)\<lparr>conditems := [Some (0, (set_conditem_addrip addr_any (Addrip_v4 0) (Addrip_v4 0)
     conditem_clear)\<lparr>condname := ''a''\<rparr>)]\<rparr>"

definition ex_edit_rule :: proxyrule where
  "ex_edit_rule = proxyrule_new\<lparr>pr_action := action_deny, pr_items := [proxyrule_item_clear\<lparr>pi_condname := ''a''\<rparr>]\<rparr>"

lemma ex_edit_ok: "config_ok ex_edit_config"
  unfolding config_ok_def
  by (intro exI [where x = "[(0, (set_conditem_addrip addr_any (Addrip_v4 0) (Addrip_v4 0)
     conditem_clear)\<lparr>condname := ''a''\<rparr>)]"])
    (simp add: ex_edit_config_def configproxy_new_def configproxy_clear_def conditem_ok_def set_conditem_addrip_def)

theorem editing_keeps_order_witness:
  "\<exists>d. config_edit_step (\<lambda>s. (s, s)) (Add_rule ex_edit_rule 0) ex_edit_config = Inr d \<and> config_ok d \<and> length (cp_rules d) = 1"
proof -
  have "case config_edit_step (\<lambda>s. (s, s)) (Add_rule ex_edit_rule 0) ex_edit_config of Inl e \<Rightarrow> False
     | Inr d \<Rightarrow> length (cp_rules d) = 1" by code_simp
  then obtain d where d: "config_edit_step (\<lambda>s. (s, s)) (Add_rule ex_edit_rule 0) ex_edit_config = Inr d"
    "length (cp_rules d) = 1" by (auto split: sum.splits)
  have "config_reach (\<lambda>s. (s, s)) ex_edit_config d" by (rule config_reach.edit [OF config_reach.start d(1)])
  then show ?thesis using editing_keeps_order [OF _ ex_edit_ok] d by blast
qed

section \<open>A copy decides alike\<close>

definition link_to :: "cond_ref list \<Rightarrow> proxyrule_item \<Rightarrow> proxyrule_item" where
  "link_to rs x = x\<lparr>pi_ci := find (\<lambda>r. condname (snd r) = pi_condname x) rs\<rparr>"

lemma create_conditem_ok: "conditem_ok ci \<Longrightarrow> create_conditem ci = Some ci"
  unfolding conditem_ok_def create_conditem_def create_conditem_type_def copy_properties_def copy_my_properties_def
  by (cases ci; cases "cond_data ci") (auto simp: conditem_clear_def split: urlparts.splits)

lemma copy_conditems_ok:
  "\<forall>r \<in> set rs. conditem_ok (snd r) \<Longrightarrow>
   copy_conditems fresh (map Some rs) = map Some (zip [fresh..<fresh + length rs] (map snd rs))"
proof (induction rs arbitrary: fresh)
  case (Cons r rs)
  have "[fresh..<fresh + length (r # rs)] = fresh # [Suc fresh..<Suc fresh + length rs]" by (simp add: upt_rec)
  then show ?case using Cons by (simp add: create_conditem_ok)
qed simp

lemma find_copied:
  assumes "map snd rs' = map snd rs" and "distinct (map (condname \<circ> snd) rs)" and "r \<in> set rs"
  shows "\<exists>a. find (\<lambda>x. condname (snd x) = condname (snd r)) rs' = Some (a, snd r)"
proof -
  have "snd r \<in> snd ` set rs'" using assms(1,3) by (metis image_eqI set_map)
  then obtain a where "(a, snd r) \<in> set rs'" by auto
  moreover have "map (condname \<circ> snd) rs' = map condname (map snd rs')" "map (condname \<circ> snd) rs = map condname (map snd rs)"
    by simp_all
  then have "distinct (map (condname \<circ> snd) rs')" using assms(1,2) by metis
  ultimately show ?thesis using find_distinct_map [of "condname \<circ> snd" rs' "(a, snd r)"] by auto
qed

lemma link_copied:
  assumes "map snd rs' = map snd rs" and "distinct (map (condname \<circ> snd) rs)" and "item_ok rs x"
  shows "\<exists>r a. r \<in> set rs \<and> pi_ci x = Some r \<and> pi_condname x = condname (snd r) \<and> pi_ci (link_to rs' x) = Some (a, snd r)
     \<and> (a, snd r) \<in> set rs'"
proof -
  obtain r where r: "r \<in> set rs" "pi_ci x = Some r" "pi_condname x = condname (snd r)"
    using assms(3) unfolding item_ok_def by blast
  obtain a where a: "find (\<lambda>x. condname (snd x) = condname (snd r)) rs' = Some (a, snd r)"
    using find_copied [OF assms(1,2) r(1)] by blast
  then show ?thesis using r find_Some_set [OF a] by (intro exI [of _ r] exI [of _ a]) (simp add: link_to_def)
qed

lemma resolve_items_link:
  assumes "map snd rs' = map snd rs" and "distinct (map (condname \<circ> snd) rs)" and "\<forall>r \<in> set rs. conditem_ok (snd r)"
    and "\<forall>x \<in> set xs. item_ok rs x"
  shows "resolve_items (map Some rs') xs = Inr (map (link_to rs') xs)"
  using assms(4)
proof (induction xs)
  case (Cons x xs)
  obtain r a where r: "r \<in> set rs" "pi_condname x = condname (snd r)" "pi_ci (link_to rs' x) = Some (a, snd r)"
    using link_copied [OF assms(1,2)] Cons.prems by (metis list.set_intros(1))
  have "pi_condname x \<noteq> []" using assms(3) r by (auto simp: conditem_ok_def)
  moreover have "(item_copy_properties x proxyrule_item_clear)\<lparr>pi_ci := Some (a, snd r)\<rparr> = link_to rs' x"
    using r(3) by (simp add: link_to_def item_copy_properties_def proxyrule_item_clear_def)
  ultimately show ?case
    using Cons r(3) by (simp add: find_conditem_Some link_to_def)
qed simp

lemma copied_rule: "(rule_copy_properties names r proxyrule_new)\<lparr>pr_items := xs\<rparr> = (prepare_rulename names r)\<lparr>pr_items := xs\<rparr>"
  by (simp add: rule_copy_properties_def prepare_rulename_def proxyrule_new_def)

lemma add_rules_all:
  assumes "\<forall>r \<in> set ps. resolve_items (conditems c) (pr_items r) = Inr (map f (pr_items r))"
    and "length (cp_rules c) + length ps \<le> 0x7FFFFFFF"
  shows "add_rules names ps c = Inr (c\<lparr>cp_rules := cp_rules c
    @ map (\<lambda>r. (prepare_rulename names r)\<lparr>pr_items := map f (pr_items r)\<rparr>) ps\<rparr>)"
  using assms
proof (induction ps arbitrary: c)
  case (Cons r ps)
  let ?r = "(prepare_rulename names r)\<lparr>pr_items := map f (pr_items r)\<rparr>"
  have "proxyrule_add names r 0x7FFFFFFF c = Inr (c\<lparr>cp_rules := cp_rules c @ [?r]\<rparr>)"
    using Cons.prems by (simp add: proxyrule_add_def copied_rule)
  then show ?case using Cons.IH [of "c\<lparr>cp_rules := cp_rules c @ [?r]\<rparr>"] Cons.prems by simp
qed simp

lemma rules_loop_cong:
  assumes "\<forall>r \<in> set rs. rule_process_request p (f r) = rule_process_request p (g r) \<and> verdict_of (f r) = verdict_of (g r)"
  shows "rules_loop_proxy p (map f rs) v a = rules_loop_proxy p (map g rs) v a"
  using assms by (induction rs arbitrary: v a) (simp_all add: Let_def)

lemma linked_rule_decides:
  assumes "map snd rs' = map snd rs" and "distinct (map (condname \<circ> snd) rs)" and "\<forall>x \<in> set (pr_items r). item_ok rs x"
  shows "rule_process_request p (r'\<lparr>pr_items := map (link_to rs') (pr_items r)\<rparr>) = rule_process_request p (r'\<lparr>pr_items := pr_items r\<rparr>)"
proof -
  have "item_check p (link_to rs' x) = item_check p x" if "x \<in> set (pr_items r)" for x
  proof -
    have "item_ok rs x" using assms(3) that by blast
    then obtain r a where "pi_ci x = Some r" "pi_ci (link_to rs' x) = Some (a, snd r)"
      using link_copied [OF assms(1,2)] by blast
    moreover have "pi_invert (link_to rs' x) = pi_invert x" by (simp add: link_to_def)
    ultimately show ?thesis by (simp add: item_check_def)
  qed
  then have "list_all (item_check p) (map (link_to rs') (pr_items r)) = list_all (item_check p) (pr_items r)"
    by (simp add: list_all_iff)
  then show ?thesis by (simp add: rule_process_request_def)
qed

text \<open>
  C9: the copy the proxy takes of a configuration has conditions of its own, is in order, and decides
  on every request as the original does.
\<close>

theorem copy_decides_alike:
  assumes "config_ok rhs" and "length (cp_rules rhs) \<le> 0x7FFFFFFF"
  shows "\<exists>c'. configproxy_assign names fresh rhs c = Inr c' \<and> config_ok c'
    \<and> (\<forall>p. config_process_request p c' = config_process_request p (rhs\<lparr>cp_rules := map (prepare_rulename names) (cp_rules rhs)\<rparr>))"
proof -
  obtain rs where rs: "conditems rhs = map Some rs" "distinct (map fst rs)" "distinct (map (condname \<circ> snd) rs)"
    "\<forall>r \<in> set rs. conditem_ok (snd r)" "\<forall>p \<in> set (cp_rules rhs). \<forall>x \<in> set (pr_items p). item_ok rs x"
    using assms(1) unfolding config_ok_def by blast
  define rs' where "rs' = zip [fresh..<fresh + length rs] (map snd rs)"
  have rs': "map snd rs' = map snd rs" "map fst rs' = [fresh..<fresh + length rs]" by (simp_all add: rs'_def)
  define f where "f = (\<lambda>r. (prepare_rulename names r)\<lparr>pr_items := map (link_to rs') (pr_items r)\<rparr>)"
  obtain c' where c': "configproxy_assign names fresh rhs c = Inr c'" "conditems c' = map Some rs'" "cp_rules c' = map f (cp_rules rhs)"
  proof -
    have "\<forall>r \<in> set (cp_rules rhs). resolve_items (map Some rs') (pr_items r) = Inr (map (link_to rs') (pr_items r))"
      using resolve_items_link [OF rs'(1) rs(3,4)] rs(5) by blast
    then show ?thesis
      using that assms(2) copy_conditems_ok [OF rs(4)]
      by (simp add: configproxy_assign_def add_rules_all [where f = "link_to rs'"] rs(1) rs'_def [symmetric] f_def)
  qed
  have "config_process_request p c' = config_process_request p (rhs\<lparr>cp_rules := map (prepare_rulename names) (cp_rules rhs)\<rparr>)" for p
  proof -
    have "rule_process_request p (f r) = rule_process_request p (prepare_rulename names r) \<and> verdict_of (f r) = verdict_of (prepare_rulename names r)"
      if "r \<in> set (cp_rules rhs)" for r
      using linked_rule_decides [OF rs'(1) rs(3), of r p "prepare_rulename names r"] rs(5) that
      by (simp add: f_def verdict_of_def prepare_rulename_def)
    then show ?thesis by (simp add: config_process_request_def c'(3) rules_loop_cong [of _ p f "prepare_rulename names"])
  qed
  moreover have "config_ok c'"
    unfolding config_ok_def
  proof (intro exI [where x = rs'] conjI)
    have "map (condname \<circ> snd) rs' = map (condname \<circ> snd) rs" using rs'(1) by (metis map_map)
    then show "distinct (map (condname \<circ> snd) rs')" using rs(3) by simp
    have "snd ` set rs' = snd ` set rs" using rs'(1) by (metis set_map)
    then show "\<forall>r \<in> set rs'. conditem_ok (snd r)" using rs(4) by (metis image_iff)
    have "item_ok rs' (link_to rs' x)" if "item_ok rs x" for x
      using link_copied [OF rs'(1) rs(3) that] by (auto simp: item_ok_def link_to_def)
    then show "\<forall>p \<in> set (cp_rules c'). \<forall>x \<in> set (pr_items p). item_ok rs' x"
      using rs(5) by (auto simp: c'(3) f_def)
  qed (simp_all add: c'(2) rs'(2))
  ultimately show ?thesis using c'(1) by blast
qed

theorem copy_decides_alike_witness:
  "\<exists>c'. configproxy_assign (\<lambda>s. (s, s)) 7 ex_edit_config (configproxy_new eng_texts) = Inr c' \<and> config_ok c'
    \<and> (\<forall>p. config_process_request p c' = config_process_request p
       (ex_edit_config\<lparr>cp_rules := map (prepare_rulename (\<lambda>s. (s, s))) (cp_rules ex_edit_config)\<rparr>))"
proof -
  have "length (cp_rules ex_edit_config) \<le> 0x7FFFFFFF" by (simp add: ex_edit_config_def configproxy_new_def configproxy_clear_def)
  then show ?thesis using copy_decides_alike [OF ex_edit_ok] by blast
qed

end
