(* ===== verification/ConfigXml.thy ===== *)
theory ConfigXml
  imports ConfigProxy
begin

text \<open>
  The XML form of \<open>proxyserver/configproxy.cpp\<close>, \<open>proxyrule.cpp\<close> and \<open>proxyrule_item.cpp\<close>. Writing follows
  the pointer to the condition of an item: \<open>None\<close> for a null pointer. A new condition gets an address no other
  condition has.
\<close>

section \<open>Writing\<close>

definition item_node :: "proxyrule_item \<Rightarrow> xml option" where
  "item_node x = map_option (\<lambda>r. Elem ''Item'' []
     (xml_append_data ''Invert'' (bool_text (pi_invert x)) @ xml_append_data ''Condition'' (condname (snd r)))) (pi_ci x)"

definition rule_node :: "proxyrule \<Rightarrow> xml option" where
  "rule_node r = map_option (\<lambda>is. Elem ''Proxyrule'' []
     (xml_append_data ''Enabled'' (bool_text (pr_enabled r)) @ xml_append_data ''NologAccess'' (bool_text (nolog_access r))
      @ xml_append_data ''Name'' (rulename r) @ xml_append_data ''Action'' (out_signed (pr_action r)) @ is))
     (those (map item_node (pr_items r)))"

definition config_values :: "configproxy \<Rightarrow> (string \<times> string) list" where
  "config_values c =
     [(''Enabled'', bool_text (cp_enabled c)), (''WebserverMode'', bool_text (webserver_mode c)),
      (''MaxThreads'', out_unsigned (max_threads c)), (''Port'', out_unsigned (listen_port c)),
      (''DbMask'', out_unsigned (dbmask c)), (''DbPrefix'', dbprefix c), (''Denybody'', denybody c),
      (''Denycode'', denycode c), (''WebserverHostname'', webserver_hostname c),
      (''Thirddom'', join_strings '' '' (third_level_domains c)), (''AskSite'', askgoogle_site c),
      (''AskLang'', askgoogle_lang c), (''AskUserAgent'', askgoogle_useragent c)]"

definition config_xml_create :: "configproxy \<Rightarrow> xml option" where
  "config_xml_create c = do {
     cs \<leftarrow> those (map (map_option (\<lambda>r. conditem_nodes (snd r))) (conditems c));
     rs \<leftarrow> those (map rule_node (cp_rules c));
     Some (Elem ''Proxy'' []
       (concat (map (\<lambda>(k, t). xml_append_data k t) (config_values c)) @ concat cs @ rs
        @ map lp_xml_create (cp_logging c)
        @ [proxymsg_xml_create (messages_eng c), proxymsg_xml_create (messages_rus c)])) }"

section \<open>Reading\<close>

definition item_catch_value :: "string \<Rightarrow> string \<Rightarrow> proxyrule_item \<Rightarrow> proxyrule_item option" where
  "item_catch_value keyname v x = Some
     (if keyname = ''Invert'' then x\<lparr>pi_invert := read_bool v\<rparr>
      else if keyname = ''Condition'' then x\<lparr>pi_condname := v\<rparr> else x)"

definition item_xml :: "proxyrule_item xml_class" where
  "item_xml = \<lparr>xc_clear = (\<lambda>x. proxyrule_item_clear), xc_create = (\<lambda>x. the (item_node x)),
     xc_value = item_catch_value, xc_subnode = (\<lambda>k n x. Some x)\<rparr>"

definition rule_catch_value :: "string \<Rightarrow> string \<Rightarrow> proxyrule \<Rightarrow> proxyrule option" where
  "rule_catch_value keyname v r = Some
     (if keyname = ''Enabled'' then r\<lparr>pr_enabled := read_bool v\<rparr>
      else if keyname = ''NologAccess'' then r\<lparr>nolog_access := read_bool v\<rparr>
      else if keyname = ''Name'' then r\<lparr>rulename := v\<rparr>
      else if keyname = ''Action'' then r\<lparr>pr_action := parse_signed v\<rparr> else r)"

definition rule_catch_subnode :: "string \<Rightarrow> xml \<Rightarrow> proxyrule \<Rightarrow> proxyrule option" where
  "rule_catch_subnode keyname n r =
     (if keyname = ''Item''
      then map_option (\<lambda>x. r\<lparr>pr_items := pr_items r @ [x]\<rparr>) (xml_parse_node item_xml n False proxyrule_item_clear)
      else Some r)"

definition proxyrule_xml :: "proxyrule xml_class" where
  "proxyrule_xml = \<lparr>xc_clear = proxyrule_clear, xc_create = (\<lambda>r. the (rule_node r)),
     xc_value = rule_catch_value, xc_subnode = rule_catch_subnode\<rparr>"

definition config_catch_value :: "string \<Rightarrow> string \<Rightarrow> configproxy \<Rightarrow> configproxy option" where
  "config_catch_value keyname v c = Some
     (if keyname = ''Enabled'' then c\<lparr>cp_enabled := read_bool v\<rparr>
      else if keyname = ''WebserverMode'' then c\<lparr>webserver_mode := read_bool v\<rparr>
      else if keyname = ''MaxThreads'' then c\<lparr>max_threads := ucast (parse_unsigned v :: u32)\<rparr>
      else if keyname = ''Port'' then c\<lparr>listen_port := ucast (parse_unsigned v :: u32)\<rparr>
      else if keyname = ''DbMask'' then c\<lparr>dbmask := ucast (parse_unsigned v :: u32)\<rparr>
      else if keyname = ''DbPrefix'' then c\<lparr>dbprefix := v\<rparr>
      else if keyname = ''Denybody'' then c\<lparr>denybody := v\<rparr>
      else if keyname = ''Denycode'' then c\<lparr>denycode := v\<rparr>
      else if keyname = ''WebserverHostname'' then c\<lparr>webserver_hostname := v\<rparr>
      else if keyname = ''Thirddom''
      then c\<lparr>third_level_domains := third_level_domains c @ split_string True CHR '' '' v\<rparr>
      else if keyname = ''AskSite'' then c\<lparr>askgoogle_site := v\<rparr>
      else if keyname = ''AskLang'' then c\<lparr>askgoogle_lang := v\<rparr>
      else if keyname = ''AskUserAgent'' then c\<lparr>askgoogle_useragent := v\<rparr>
      else c)"

definition fresh_address :: "configproxy \<Rightarrow> nat" where
  "fresh_address c = Suc (fold (\<lambda>x m. case x of None \<Rightarrow> m | Some r \<Rightarrow> max m (fst r)) (conditems c) 0)"

definition config_catch_subnode :: "string \<Rightarrow> xml \<Rightarrow> configproxy \<Rightarrow> configproxy option" where
  "config_catch_subnode keyname n c =
     (if keyname = ''Conditem'' then catch_conditem (fresh_address c) n c
      else if keyname = ''Proxyrule''
      then map_option (\<lambda>r. proxyrule_finished (c\<lparr>cp_rules := cp_rules c @ [r]\<rparr>)) (xml_parse_node proxyrule_xml n False proxyrule_new)
      else if keyname = ''Logging''
      then map_option (\<lambda>p. c\<lparr>cp_logging := cp_logging c @ [p]\<rparr>) (xml_parse_node lp_xml n False loggingparams_new)
      else if keyname = ''MsgEng''
      then map_option (\<lambda>m. c\<lparr>messages_eng := m\<rparr>) (xml_parse_node proxymsg_xml n False (proxymsg_clear (messages_eng c)))
      else if keyname = ''MsgRus''
      then map_option (\<lambda>m. c\<lparr>messages_rus := m\<rparr>) (xml_parse_node proxymsg_xml n False (proxymsg_clear (messages_rus c)))
      else Some c)"

definition config_xml :: "configproxy xml_class" where
  "config_xml = \<lparr>xc_clear = configproxy_clear, xc_create = (\<lambda>c. the (config_xml_create c)),
     xc_value = config_catch_value, xc_subnode = config_catch_subnode\<rparr>"

section \<open>Rules read back\<close>

lemma append_data_text:
  assumes "CHR 0x00 \<notin> set t" and "\<And>n. t = [] \<Longrightarrow> xc_subnode c k n x = Some x"
  shows "xml_parse_allnodes c (xml_append_data k t) x = (if t = [] then Some x else xc_value c k t x)"
  using assms by (auto simp: parse_data parse_empty_data xml_text_def)

definition item_read :: "proxyrule_item \<Rightarrow> proxyrule_item" where "item_read x = x\<lparr>pi_ci := None\<rparr>"

lemma item_node_read:
  assumes "item_ok rs x" and "\<forall>r \<in> set rs. conditem_ok (snd r) \<and> CHR 0x00 \<notin> set (condname (snd r))"
  shows "\<exists>n. item_node x = Some n \<and> node_name n = ''Item'' \<and> node_text n = []
    \<and> xml_parse_node item_xml n False proxyrule_item_clear = Some (item_read x)"
proof -
  obtain r where r: "r \<in> set rs" "pi_ci x = Some r" "pi_condname x = condname (snd r)" using assms(1) unfolding item_ok_def by blast
  then have t: "xml_text (condname (snd r))" using assms(2) by (simp add: conditem_ok_def xml_text_def)
  have v: "xc_value item_xml = item_catch_value" "xc_clear item_xml y = proxyrule_item_clear" for y by (simp_all add: item_xml_def)
  show ?thesis
    using r t
    by (simp add: item_node_def xml_parse_node_def node_name_def node_children_def node_text_def find_append find_pcdata
        parse_allnodes_append parse_data v item_catch_value_def proxyrule_item_clear_def item_read_def)
qed

lemma items_read:
  assumes "\<forall>r \<in> set rs. conditem_ok (snd r) \<and> CHR 0x00 \<notin> set (condname (snd r))"
  shows "\<forall>x \<in> set xs. item_ok rs x \<Longrightarrow> \<exists>ns. those (map item_node xs) = Some ns \<and> find is_pcdata ns = None
    \<and> xml_parse_allnodes proxyrule_xml ns r = Some (r\<lparr>pr_items := pr_items r @ map item_read xs\<rparr>)"
proof (induction xs arbitrary: r)
  case (Cons x xs)
  obtain n where n: "item_node x = Some n" "node_name n = ''Item''" "node_text n = []"
    "xml_parse_node item_xml n False proxyrule_item_clear = Some (item_read x)"
    using item_node_read [OF _ assms] Cons.prems by auto
  let ?r = "r\<lparr>pr_items := pr_items r @ [item_read x]\<rparr>"
  obtain ns where ns: "those (map item_node xs) = Some ns" "find is_pcdata ns = None"
    "xml_parse_allnodes proxyrule_xml ns ?r = Some (?r\<lparr>pr_items := pr_items ?r @ map item_read xs\<rparr>)"
    using Cons.IH [of ?r] Cons.prems by auto
  have "xml_parse_allnodes proxyrule_xml (n # ns) r = Some (r\<lparr>pr_items := pr_items r @ map item_read (x # xs)\<rparr>)"
    using n ns(3) by (simp add: proxyrule_xml_def rule_catch_subnode_def)
  moreover have "\<not> is_pcdata n" using n(2) by (intro named_not_pcdata) simp
  ultimately show ?case using n(1) ns(1,2) by auto
qed simp

definition rule_read :: "proxyrule \<Rightarrow> proxyrule" where
  "rule_read r = r\<lparr>pr_items := map item_read (pr_items r), rulename4log := [], rulename4web := []\<rparr>"

lemma rule_node_read:
  assumes "\<forall>x \<in> set (pr_items r). item_ok rs x" and "\<forall>r \<in> set rs. conditem_ok (snd r) \<and> CHR 0x00 \<notin> set (condname (snd r))"
    and "CHR 0x00 \<notin> set (rulename r)"
  shows "\<exists>n. rule_node r = Some n \<and> node_name n = ''Proxyrule'' \<and> node_text n = []
    \<and> xml_parse_node proxyrule_xml n False proxyrule_new = Some (rule_read r)"
proof -
  let ?r = "proxyrule_new\<lparr>pr_enabled := pr_enabled r, nolog_access := nolog_access r, rulename := rulename r, pr_action := pr_action r\<rparr>"
  obtain ns where ns: "those (map item_node (pr_items r)) = Some ns" "find is_pcdata ns = None"
    "xml_parse_allnodes proxyrule_xml ns ?r = Some (?r\<lparr>pr_items := pr_items ?r @ map item_read (pr_items r)\<rparr>)"
    using items_read [OF assms(2,1), of ?r] by auto
  have v: "xc_value proxyrule_xml = rule_catch_value" "xc_clear proxyrule_xml = proxyrule_clear" "xc_subnode proxyrule_xml ''Name'' n y = Some y" for n y
    by (simp_all add: proxyrule_xml_def rule_catch_subnode_def)
  have nm: "xml_parse_allnodes proxyrule_xml (xml_append_data ''Name'' (rulename r)) y = Some (y\<lparr>rulename := rulename r\<rparr>)"
    if "rulename y = []" for y
    using append_data_text [of "rulename r" proxyrule_xml "''Name''" y] assms(3) that by (cases y) (auto simp: v rule_catch_value_def)
  have e: "(?r\<lparr>pr_items := pr_items ?r @ map item_read (pr_items r)\<rparr>) = rule_read r"
    by (simp add: rule_read_def proxyrule_new_def)
  show ?thesis
    using ns(1,2) ns(3) [unfolded e]
    by (simp add: rule_node_def xml_parse_node_def node_name_def node_children_def node_text_def find_append find_pcdata
        parse_allnodes_append parse_data v proxyrule_clear_def nm rule_catch_value_def proxyrule_new_def)
qed

section \<open>A configuration read back\<close>

definition same_rules :: "configproxy \<Rightarrow> configproxy \<Rightarrow> bool" where
  "same_rules c d \<longleftrightarrow> conditems d = conditems c \<and> cp_rules d = cp_rules c"

lemma config_value_keeps: "\<exists>d. config_catch_value k v c = Some d \<and> same_rules c d"
  by (simp add: config_catch_value_def same_rules_def)

lemma allnodes_total:
  assumes "\<And>k v y. xc_value c k v y \<noteq> None" and "\<And>k n y. xc_subnode c k n y \<noteq> None"
  shows "xml_parse_allnodes c ns x \<noteq> None"
proof (induction ns arbitrary: x)
  case (Cons n ns)
  have "(if node_text n = [] then xc_subnode c (node_name n) n x else xc_value c (node_name n) (node_text n) x) \<noteq> None"
    using assms by simp
  then show ?case using Cons.IH by auto
qed simp

lemma logging_total: "xml_parse_node lp_xml n False p \<noteq> None"
  unfolding xml_parse_node_def by (rule allnodes_total) (simp_all add: lp_xml_def lp_xml_catch_value_def)

lemma messages_total: "xml_parse_node proxymsg_xml n False m \<noteq> None"
  unfolding xml_parse_node_def by (rule allnodes_total) (simp_all add: proxymsg_xml_def proxymsg_catch_value_def)

lemma config_plain_subnode: "k \<notin> {''Conditem'', ''Proxyrule''} \<Longrightarrow> \<exists>d. config_catch_subnode k n c = Some d \<and> same_rules c d"
proof -
  assume k: "k \<notin> {''Conditem'', ''Proxyrule''}"
  obtain l where "xml_parse_node lp_xml n False loggingparams_new = Some l" using logging_total by (meson not_None_eq)
  moreover obtain m where "xml_parse_node proxymsg_xml n False (proxymsg_clear (messages_eng c)) = Some m"
    using messages_total by (meson not_None_eq)
  moreover obtain m' where "xml_parse_node proxymsg_xml n False (proxymsg_clear (messages_rus c)) = Some m'"
    using messages_total by (meson not_None_eq)
  ultimately show ?thesis using k by (simp add: config_catch_subnode_def same_rules_def)
qed

text \<open>Nodes that are neither conditions nor rules.\<close>

lemma config_plain_nodes:
  "\<forall>n \<in> set ns. node_name n \<notin> {''Conditem'', ''Proxyrule''} \<Longrightarrow> \<exists>d. xml_parse_allnodes config_xml ns c = Some d \<and> same_rules c d"
proof (induction ns arbitrary: c)
  case (Cons n ns)
  have "\<exists>d. (if node_text n = [] then xc_subnode config_xml (node_name n) n c
      else xc_value config_xml (node_name n) (node_text n) c) = Some d \<and> same_rules c d"
    using Cons.prems config_value_keeps config_plain_subnode by (simp add: config_xml_def)
  then obtain d where d: "(if node_text n = [] then xc_subnode config_xml (node_name n) n c
      else xc_value config_xml (node_name n) (node_text n) c) = Some d" "same_rules c d" by blast
  obtain d' where "xml_parse_allnodes config_xml ns d = Some d'" "same_rules d d'" using Cons by auto
  then show ?case using d by (auto simp: same_rules_def)
qed (simp add: same_rules_def)

text \<open>The conditions that read their own text back.\<close>

definition cond_fake :: "conditem \<Rightarrow> conditem" where
  "cond_fake ci = \<lparr>condtype = get_conditem_type ci, condname = condname ci, condvalue = condvalue ci, cond_data = Cond_plain\<rparr>"

definition cond_reloads :: "conditem \<Rightarrow> bool" where
  "cond_reloads ci \<longleftrightarrow> CHR 0x00 \<notin> set (condname ci @ condvalue ci)
     \<and> (case create_conditem (cond_fake ci) of None \<Rightarrow> False
        | Some f \<Rightarrow> \<forall>p. do_check (snd (parse_cond (trim (condvalue ci)) f)) p = do_check ci p)"

definition cond_alike :: "cond_ref \<Rightarrow> cond_ref \<Rightarrow> bool" where
  "cond_alike r s \<longleftrightarrow> condname (snd s) = condname (snd r) \<and> (\<forall>p. do_check (snd s) p = do_check (snd r) p)"

lemma parse_cond_name: "condname (snd (parse_cond s ci)) = condname ci"
  by (cases "cond_data ci") (simp_all add: parse_cond_def Let_def)

lemma created_name: "create_conditem pre = Some ci \<Longrightarrow> condname ci = condname pre"
  by (auto simp: create_conditem_def copy_properties_def copy_my_properties_def split: if_splits)

lemma condition_read:
  assumes "conditem_ok (snd r)" and "cond_reloads (snd r)"
  shows "\<exists>n s. conditem_nodes (snd r) = [n] \<and> node_name n = ''Conditem'' \<and> node_text n = [] \<and> cond_alike r s
    \<and> xml_parse_allnodes config_xml [n] c = Some (c\<lparr>conditems := conditems c @ [Some s]\<rparr>)"
proof -
  obtain f where f: "create_conditem (cond_fake (snd r)) = Some f"
    "\<And>p. do_check (snd (parse_cond (trim (condvalue (snd r))) f)) p = do_check (snd r) p"
    using assms(2) by (auto simp: cond_reloads_def split: option.splits)
  let ?s = "(fresh_address c, snd (parse_cond (trim (condvalue (snd r))) f))"
  have t: "get_conditem_type (snd r) \<noteq> condtype_none" using assms(1) by (simp add: conditem_ok_def)
  obtain n where n: "conditem_nodes (snd r) = [n]"
    "catch_conditem (fresh_address c) n c = Some (conditem_finished (fresh_address c) (cond_fake (snd r)) c)"
    using conditem_loaded [OF t, of "fresh_address c" c] assms(2) by (auto simp: cond_reloads_def cond_fake_def)
  have nm: "node_name n = ''Conditem''" "node_text n = []"
    using n(1) t by (auto simp: conditem_nodes_def Let_def node_name_def node_text_def find_append find_pcdata)
  have "condname f = condname (snd r)" using created_name [OF f(1)] by (simp add: cond_fake_def)
  then have "cond_alike r ?s" using f(2) by (simp add: cond_alike_def parse_cond_name)
  moreover have "xml_parse_allnodes config_xml [n] c = Some (c\<lparr>conditems := conditems c @ [Some ?s]\<rparr>)"
    using n(2) nm f(1) by (simp add: config_xml_def config_catch_subnode_def conditem_finished_def cond_fake_def)
  ultimately show ?thesis using n(1) nm by blast
qed

lemma conditions_read:
  "\<forall>r \<in> set rs. conditem_ok (snd r) \<and> cond_reloads (snd r) \<Longrightarrow> \<exists>new d. list_all2 cond_alike rs new
    \<and> xml_parse_allnodes config_xml (concat (map (\<lambda>r. conditem_nodes (snd r)) rs)) c = Some d
    \<and> conditems d = conditems c @ map Some new \<and> cp_rules d = cp_rules c"
proof (induction rs arbitrary: c)
  case (Cons r rs)
  obtain n s where n: "conditem_nodes (snd r) = [n]" "cond_alike r s"
    "xml_parse_allnodes config_xml [n] c = Some (c\<lparr>conditems := conditems c @ [Some s]\<rparr>)"
    using condition_read [of r c] Cons.prems by auto
  obtain new d where new: "list_all2 cond_alike rs new"
    "xml_parse_allnodes config_xml (concat (map (\<lambda>r. conditem_nodes (snd r)) rs)) (c\<lparr>conditems := conditems c @ [Some s]\<rparr>) = Some d"
    "conditems d = conditems c @ Some s # map Some new" "cp_rules d = cp_rules c"
    using Cons.IH [of "c\<lparr>conditems := conditems c @ [Some s]\<rparr>"] Cons.prems by auto
  have "xml_parse_allnodes config_xml (concat (map (\<lambda>r. conditem_nodes (snd r)) (r # rs))) c = Some d"
    using new(2) n parse_allnodes_append [of config_xml "[n]" "concat (map (\<lambda>r. conditem_nodes (snd r)) rs)" c]
    by (simp del: xml_parse_allnodes.simps)
  then show ?case using n(2) new by (intro exI [of _ "s # new"] exI [of _ d]) simp
qed auto

text \<open>The rules, whose items find their conditions among those read.\<close>

lemma linked_alike:
  assumes "list_all2 cond_alike rs new" and "distinct (map (condname \<circ> snd) rs)" and "item_ok rs x"
  shows "\<exists>r s. r \<in> set rs \<and> pi_ci x = Some r \<and> pi_condname x = condname (snd r) \<and> cond_alike r s
    \<and> find (\<lambda>y. condname (snd y) = pi_condname x) new = Some s"
proof -
  obtain r where r: "r \<in> set rs" "pi_ci x = Some r" "pi_condname x = condname (snd r)" using assms(3) unfolding item_ok_def by blast
  obtain i where i: "i < length rs" "rs ! i = r" using r(1) by (metis in_set_conv_nth)
  have len: "length new = length rs" using list_all2_lengthD [OF assms(1)] by simp
  have s: "cond_alike r (new ! i)" using list_all2_nthD [OF assms(1) i(1)] i(2) by simp
  have "map (condname \<circ> snd) new = map (condname \<circ> snd) rs"
    using len list_all2_nthD [OF assms(1)] by (intro nth_equalityI) (simp_all add: cond_alike_def)
  then have "distinct (map (condname \<circ> snd) new)" using assms(2) by simp
  moreover have "new ! i \<in> set new" using i(1) len by simp
  ultimately have "find (\<lambda>y. (condname \<circ> snd) y = (condname \<circ> snd) (new ! i)) new = Some (new ! i)" by (rule find_distinct_map)
  then have "find (\<lambda>y. condname (snd y) = pi_condname x) new = Some (new ! i)" using s r(3) by (simp add: cond_alike_def)
  then show ?thesis using r s by blast
qed

definition rule_linked :: "cond_ref list \<Rightarrow> proxyrule \<Rightarrow> proxyrule" where
  "rule_linked new r = (let q = rule_read r in q\<lparr>pr_items := map (link_item (map Some new)) (pr_items q)\<rparr>)"

lemma item_linked_check:
  assumes "list_all2 cond_alike rs new" and "distinct (map (condname \<circ> snd) rs)" and "item_ok rs x"
    and "\<forall>r \<in> set rs. conditem_ok (snd r)"
  shows "item_check p (link_item (map Some new) (item_read x)) = item_check p x"
proof -
  obtain r s where r: "r \<in> set rs" "pi_ci x = Some r" "pi_condname x = condname (snd r)" "cond_alike r s"
    "find (\<lambda>y. condname (snd y) = pi_condname x) new = Some s"
    using linked_alike [OF assms(1-3)] by blast
  then have "pi_condname x \<noteq> []" using assms(4) by (simp add: conditem_ok_def)
  then show ?thesis using r by (simp add: link_item_def item_read_def find_conditem_Some item_check_def cond_alike_def)
qed

lemma rule_linked_decides:
  assumes "list_all2 cond_alike rs new" and "distinct (map (condname \<circ> snd) rs)" and "\<forall>r \<in> set rs. conditem_ok (snd r)"
    and "\<forall>x \<in> set (pr_items r). item_ok rs x"
  shows "rule_process_request p (rule_linked new r) = rule_process_request p r"
proof -
  have "list_all (item_check p) (map (link_item (map Some new) \<circ> item_read) (pr_items r)) = list_all (item_check p) (pr_items r)"
    using item_linked_check [OF assms(1,2) _ assms(3)] assms(4) by (simp add: list_all_iff)
  then show ?thesis by (simp add: rule_process_request_def rule_linked_def rule_read_def Let_def)
qed

lemma rules_read:
  assumes "\<forall>r \<in> set rs. conditem_ok (snd r) \<and> CHR 0x00 \<notin> set (condname (snd r))"
  shows "\<lbrakk>\<forall>r \<in> set ps. CHR 0x00 \<notin> set (rulename r) \<and> (\<forall>x \<in> set (pr_items r). item_ok rs x); conditems c = map Some new\<rbrakk> \<Longrightarrow>
   \<exists>ns. those (map rule_node ps) = Some ns
     \<and> xml_parse_allnodes config_xml ns c = Some (c\<lparr>cp_rules := cp_rules c @ map (rule_linked new) ps\<rparr>)"
proof (induction ps arbitrary: c)
  case (Cons r ps)
  obtain n where n: "rule_node r = Some n" "node_name n = ''Proxyrule''" "node_text n = []"
    "xml_parse_node proxyrule_xml n False proxyrule_new = Some (rule_read r)"
    using rule_node_read [OF _ assms, of r] Cons.prems(1) by auto
  let ?c = "c\<lparr>cp_rules := cp_rules c @ [rule_linked new r]\<rparr>"
  obtain ns where ns: "those (map rule_node ps) = Some ns"
    "xml_parse_allnodes config_xml ns ?c = Some (?c\<lparr>cp_rules := cp_rules ?c @ map (rule_linked new) ps\<rparr>)"
    using Cons.IH [of ?c] Cons.prems by auto
  have "config_catch_subnode (node_name n) n c = Some ?c"
    using n Cons.prems(2) by (simp add: config_catch_subnode_def proxyrule_finished_def rule_linked_def Let_def)
  then have "xml_parse_allnodes config_xml (n # ns) c = Some (c\<lparr>cp_rules := cp_rules c @ map (rule_linked new) (r # ps)\<rparr>)"
    using n(3) ns(2) by (simp add: config_xml_def)
  then show ?case using n(1) ns(1) by simp
qed simp

lemma rules_loop_alike:
  assumes "\<forall>r \<in> set rs. rule_process_request p (f r) = rule_process_request p r"
  shows "fst (rules_loop_proxy p (map f rs) v a) = fst (rules_loop_proxy p rs w a)"
  using assms by (induction rs arbitrary: v w a) (simp_all add: Let_def)

text \<open>A condition on URLs or on the category of the site reads its text back.\<close>

lemma url_cond_reloads:
  assumes "trim t = t" and "part \<noteq> urlpart_none" and "CHR 0x00 \<notin> set (condname ci @ t)"
  shows "cond_reloads (set_conditem_addrurl part (Some t) ci)"
proof -
  have "get_urlpart_from_conditem_type (case part of urlpart_any \<Rightarrow> condtype_urlhostpath | urlpart_host \<Rightarrow> condtype_urlhost
      | urlpart_path \<Rightarrow> condtype_urlpath | urlpart_none \<Rightarrow> condtype_none) = part"
    by (cases part) simp_all
  then show ?thesis
    using assms
    by (cases part) (auto simp: cond_reloads_def cond_fake_def create_conditem_def create_conditem_type_def
        set_conditem_addrurl_def parse_cond_def parse_addrurl_cond_def conditem_clear_def copy_my_properties_def do_check_def)
qed

lemma config_values_names: "\<forall>n \<in> set (concat (map (\<lambda>(k, t). xml_append_data k t) (config_values c))).
    node_name n \<notin> {''Conditem'', ''Proxyrule''}"
  by (simp add: config_values_def xml_append_data_def node_name_def)

lemma config_last_names: "\<forall>n \<in> set (map lp_xml_create ls @ [proxymsg_xml_create m, proxymsg_xml_create m']).
    node_name n \<notin> {''Conditem'', ''Proxyrule''}"
  by (simp add: lp_xml_create_def proxymsg_xml_create_def node_name_def)

text \<open>
  C10: a configuration in order, whose conditions read their own text back, is saved and loaded into one that
  decides on every request as it does.
\<close>

theorem config_reloaded:
  assumes "config_ok c" and "\<forall>r \<in> set (conditems c). case r of None \<Rightarrow> False | Some s \<Rightarrow> cond_reloads (snd s)"
    and "\<forall>r \<in> set (cp_rules c). CHR 0x00 \<notin> set (rulename r)"
  shows "\<exists>n d. config_xml_create c = Some n \<and> xml_parse_node config_xml n False (configproxy_new rus) = Some d
    \<and> (\<forall>p. fst (config_process_request p d) = fst (config_process_request p c))"
proof -
  obtain rs where rs: "conditems c = map Some rs" "distinct (map (condname \<circ> snd) rs)"
    "\<forall>r \<in> set rs. conditem_ok (snd r)" "\<forall>p \<in> set (cp_rules c). \<forall>x \<in> set (pr_items p). item_ok rs x"
    using assms(1) unfolding config_ok_def by blast
  have rl: "\<forall>r \<in> set rs. conditem_ok (snd r) \<and> cond_reloads (snd r)" using rs(1,3) assms(2) by simp
  then have nm: "\<forall>r \<in> set rs. conditem_ok (snd r) \<and> CHR 0x00 \<notin> set (condname (snd r))" by (simp add: cond_reloads_def)
  let ?vs = "concat (map (\<lambda>(k, t). xml_append_data k t) (config_values c))"
  let ?cs = "concat (map (\<lambda>r. conditem_nodes (snd r)) rs)"
  let ?ls = "map lp_xml_create (cp_logging c) @ [proxymsg_xml_create (messages_eng c), proxymsg_xml_create (messages_rus c)]"
  let ?c0 = "configproxy_clear (configproxy_new rus)"
  obtain c1 where c1: "xml_parse_allnodes config_xml ?vs ?c0 = Some c1" "same_rules ?c0 c1"
    using config_plain_nodes [OF config_values_names] by blast
  have e: "conditems c1 = []" "cp_rules c1 = []"
    using c1(2) by (simp_all add: same_rules_def configproxy_clear_def configproxy_new_def)
  obtain new c2 where c2: "list_all2 cond_alike rs new" "xml_parse_allnodes config_xml ?cs c1 = Some c2"
    "conditems c2 = map Some new" "cp_rules c2 = []"
    using conditions_read [OF rl, of c1] e by auto
  let ?c3 = "c2\<lparr>cp_rules := map (rule_linked new) (cp_rules c)\<rparr>"
  obtain ns where ns: "those (map rule_node (cp_rules c)) = Some ns" "xml_parse_allnodes config_xml ns c2 = Some ?c3"
    using rules_read [OF nm, of "cp_rules c" c2 new] assms(3) rs(4) c2(3,4) by auto
  obtain d where d: "xml_parse_allnodes config_xml ?ls ?c3 = Some d" "same_rules ?c3 d"
    using config_plain_nodes [OF config_last_names] by blast
  have "those (map (map_option (\<lambda>r. conditem_nodes (snd r))) (conditems c)) = Some (map (\<lambda>r. conditem_nodes (snd r)) rs)"
    unfolding rs(1) by (induction rs) simp_all
  then have n: "config_xml_create c = Some (Elem ''Proxy'' [] (?vs @ ?cs @ ns @ ?ls))"
    using ns(1) by (simp add: config_xml_create_def)
  have x: "xc_clear config_xml = configproxy_clear" by (simp add: config_xml_def)
  have "xml_parse_allnodes config_xml (?vs @ ?cs @ ns @ ?ls) ?c0 = Some d"
    by (simp only: parse_allnodes_append [of config_xml ?vs "?cs @ ns @ ?ls"]
      parse_allnodes_append [of config_xml ?cs "ns @ ?ls"] parse_allnodes_append [of config_xml ns ?ls]
      c1(1) c2(2) ns(2) d(1) Option.bind.simps)
  then have "xml_parse_node config_xml (Elem ''Proxy'' [] (?vs @ ?cs @ ns @ ?ls)) False (configproxy_new rus) = Some d"
    by (simp only: xml_parse_node_def node_children_def xml.case x if_False)
  moreover have "cp_rules d = map (rule_linked new) (cp_rules c)" using d(2) by (simp add: same_rules_def)
  then have "fst (config_process_request p d) = fst (config_process_request p c)" for p
  proof -
    have "\<forall>r \<in> set (cp_rules c). rule_process_request p (rule_linked new r) = rule_process_request p r"
      using rule_linked_decides [OF c2(1) rs(2,3)] rs(4) by simp
    from rules_loop_alike [OF this]
    have "fst (rules_loop_proxy p (map (rule_linked new) (cp_rules c)) None action_none)
      = fst (rules_loop_proxy p (cp_rules c) None action_none)" .
    then show ?thesis using \<open>cp_rules d = map (rule_linked new) (cp_rules c)\<close>
      by (simp add: config_process_request_def case_prod_beta Let_def)
  qed
  ultimately show ?thesis using n by blast
qed

definition ex_url_cond :: conditem where
  "ex_url_cond = set_conditem_addrurl urlpart_host (Some ''a.com'') (conditem_clear\<lparr>condname := ''a''\<rparr>)"

definition ex_url_config :: configproxy where
  "ex_url_config = (configproxy_new eng_texts)\<lparr>conditems := [Some (1, ex_url_cond)],
     cp_rules := [proxyrule_new\<lparr>pr_action := action_deny,
       pr_items := [\<lparr>pi_invert = False, pi_condname = ''a'', pi_ci = Some (1, ex_url_cond)\<rparr>]\<rparr>]\<rparr>"

theorem config_reloaded_witness:
  "\<exists>n d. config_xml_create ex_url_config = Some n \<and> xml_parse_node config_xml n False (configproxy_new eng_texts) = Some d
    \<and> \<not> fst (config_process_request \<lparr>pp_request = ex_request ''www.a.com'' None, pp_whatsite = None\<rparr> d)
    \<and> fst (config_process_request \<lparr>pp_request = ex_request ''www.b.com'' None, pp_whatsite = None\<rparr> d)"
proof -
  have r: "\<not> fst (config_process_request \<lparr>pp_request = ex_request ''www.a.com'' None, pp_whatsite = None\<rparr> ex_url_config)"
    "fst (config_process_request \<lparr>pp_request = ex_request ''www.b.com'' None, pp_whatsite = None\<rparr> ex_url_config)" by code_simp+
  have ci: "conditem_ok ex_url_cond" "condname ex_url_cond = ''a''"
    by (simp_all add: conditem_ok_def ex_url_cond_def set_conditem_addrurl_def parse_cond_def parse_addrurl_cond_def)
  have "conditems ex_url_config = map Some [(1, ex_url_cond)]" by (simp add: ex_url_config_def)
  then have "config_ok ex_url_config"
    unfolding config_ok_def using ci
    by (intro exI [where x = "[(1, ex_url_cond)]"]) (simp add: ex_url_config_def item_ok_def)
  moreover have "trim ''a.com'' = ''a.com''" by code_simp
  then have "cond_reloads ex_url_cond"
    unfolding ex_url_cond_def by (rule url_cond_reloads) (simp_all add: conditem_clear_def)
  then have "\<forall>r \<in> set (conditems ex_url_config). case r of None \<Rightarrow> False | Some s \<Rightarrow> cond_reloads (snd s)"
    by (simp add: ex_url_config_def)
  moreover have "\<forall>r \<in> set (cp_rules ex_url_config). CHR 0x00 \<notin> set (rulename r)"
    by (simp add: ex_url_config_def proxyrule_new_def)
  ultimately show ?thesis using config_reloaded [of ex_url_config eng_texts] r by metis
qed

end
