(* ===== verification/Shaper.thy ===== *)
theory Shaper
  imports PktQueue FilterSet
begin

text \<open>
  \<open>corefilters/pkt_queue_filterset.{h,cpp}\<close>: the packet queues of a filter set, two for each
  filter (sent and received). \<open>fresh\<close> are the bytes of new blocks. Copying a container copies
  its queues with their \<open>operator=\<close>; the copies the vector makes when it grows are left out
  (\<open>pkt_queue_assign_same\<close> shows that a copy of a queue is the queue).
\<close>

section \<open>The queues\<close>

definition MAX_FILTERQUEUE_PACKETS :: u32 where [utm_consts]: "MAX_FILTERQUEUE_PACKETS = 200"
definition MAX_FILTERSETQUEUE_PACKETS :: u32 where [utm_consts]: "MAX_FILTERSETQUEUE_PACKETS = 1000"
definition MAX_FILTERQUEUES :: nat where [utm_consts]: "MAX_FILTERQUEUES = 2"

record pkt_queue_filter =
  pqf_filterid :: u32
  pqf_q :: "pkt_queue list"

definition pqf_new :: pkt_queue_filter where
  "pqf_new = \<lparr>pqf_filterid = 0, pqf_q = replicate MAX_FILTERQUEUES pkt_queue_new\<rparr>"

definition pqf_init :: "(nat \<Rightarrow> u8 list) \<Rightarrow> u32 \<Rightarrow> u32 \<Rightarrow> pkt_queue_filter \<Rightarrow> pkt_queue_filter" where
  "pqf_init fresh maxp bufsize f = f\<lparr>pqf_q := map (pkt_queue_init fresh maxp bufsize) (pqf_q f)\<rparr>"

definition pqf_assign :: "pkt_queue_filter \<Rightarrow> pkt_queue_filter" where
  "pqf_assign rhs = \<lparr>pqf_filterid = pqf_filterid rhs, pqf_q = map pkt_queue_assign (pqf_q rhs)\<rparr>"

record pkt_queue_filterset =
  pqs_filterids :: "u32 list"
  pqs_pq :: "pkt_queue_filter list option"

definition pqs_new :: pkt_queue_filterset where
  "pqs_new = \<lparr>pqs_filterids = [], pqs_pq = None\<rparr>"

definition pqs_init_default :: "(nat \<Rightarrow> u8 list) \<Rightarrow> u32 \<Rightarrow> pkt_queue_filterset \<Rightarrow> pkt_queue_filterset" where
  "pqs_init_default fresh bufsize s =
     s\<lparr>pqs_pq := Some [pqf_init fresh MAX_FILTERSETQUEUE_PACKETS bufsize (pqf_assign pqf_new)]\<rparr>"

text \<open>The queues of one filter: those it had, or new ones.\<close>

definition pqf_of_filter ::
  "(nat \<Rightarrow> u8 list) \<Rightarrow> u32 \<Rightarrow> pkt_queue_filter list option \<Rightarrow> u32 \<Rightarrow> pkt_queue_filter"
where
  "pqf_of_filter fresh bufsize pq i =
     (case (case pq of None \<Rightarrow> None | Some fs \<Rightarrow> find (\<lambda>f. pqf_filterid f = i) fs) of
        Some f \<Rightarrow> pqf_assign f
      | None \<Rightarrow> pqf_init fresh MAX_FILTERQUEUE_PACKETS bufsize ((pqf_assign pqf_new)\<lparr>pqf_filterid := i\<rparr>))"

definition pqs_init :: "(nat \<Rightarrow> u8 list) \<Rightarrow> filterset \<Rightarrow> u32 \<Rightarrow> pkt_queue_filterset \<Rightarrow> pkt_queue_filterset" where
  "pqs_init fresh fs bufsize s =
     (let ids = map m_id (fs_filters fs) in
      if pqs_filterids s = ids then s
      else \<lparr>pqs_filterids = ids, pqs_pq = Some (map (\<lambda>f. pqf_of_filter fresh bufsize (pqs_pq s) (m_id f)) (fs_filters fs))\<rparr>)"

text \<open>
  \<open>throw std::exception\<close> for a queue number out of range, and \<open>std::out_of_range\<close> of
  \<open>vector::at\<close>. In the results, \<open>None\<close> is an access outside a queue's block.
\<close>

datatype pqs_error = Invalid_queue_number | Out_of_range

definition pqs_queue :: "pkt_queue_filter list \<Rightarrow> u32 \<Rightarrow> u32 \<Rightarrow> pkt_queue" where
  "pqs_queue fs sid qn = pqf_q (fs ! unat sid) ! unat qn"

definition pqs_update :: "u32 \<Rightarrow> u32 \<Rightarrow> pkt_queue \<Rightarrow> pkt_queue_filter list \<Rightarrow> pkt_queue_filter list" where
  "pqs_update sid qn q fs =
     fs[unat sid := (fs ! unat sid)\<lparr>pqf_q := (pqf_q (fs ! unat sid))[unat qn := q]\<rparr>]"

definition pqs_put_packet ::
  "(nat \<Rightarrow> u8 list) \<Rightarrow> u32 \<Rightarrow> u32 \<Rightarrow> u8 list \<Rightarrow> u32 \<Rightarrow> u8 list option \<Rightarrow> pkt_queue_filterset
     \<Rightarrow> pqs_error + (int \<times> pkt_queue_filterset) option"
where
  "pqs_put_packet fresh sid qn pkt bufsize ppkt_data s =
     (if unat qn \<ge> MAX_FILTERQUEUES then Inl Invalid_queue_number
      else let s1 = (if pqs_pq s = None then pqs_init_default fresh bufsize s else s) in
        case pqs_pq s1 of
          None \<Rightarrow> Inr None
        | Some fs \<Rightarrow>
            if length fs > unat sid
            then Inr (map_option (\<lambda>(r, q). (r, s1\<lparr>pqs_pq := Some (pqs_update sid qn q fs)\<rparr>))
                        (put_packet (pqs_queue fs sid qn) pkt bufsize ppkt_data))
            else Inr (Some (PKTQUEUE_NOSPACE, s1)))"

definition pqs_get_packet ::
  "u32 \<Rightarrow> u32 \<Rightarrow> u32 \<Rightarrow> pkt_queue_filterset
     \<Rightarrow> pqs_error + ((u8 list \<times> u8 list) option \<times> pkt_queue_filterset) option"
where
  "pqs_get_packet sid qn bufsize s =
     (if unat qn \<ge> MAX_FILTERQUEUES then Inl Invalid_queue_number
      else case pqs_pq s of
          None \<Rightarrow> Inr (Some (None, s))
        | Some fs \<Rightarrow>
            if length fs > unat sid
            then Inr (map_option (\<lambda>(r, q). (r, s\<lparr>pqs_pq := Some (pqs_update sid qn q fs)\<rparr>))
                        (get_packet (pqs_queue fs sid qn) bufsize))
            else Inr (Some (None, s)))"

text \<open>
  The state functions do not ask for the size of the container. Their output parameters keep
  their values (the last argument) without a container.
\<close>

definition pqs_at :: "u32 \<Rightarrow> u32 \<Rightarrow> 'a \<Rightarrow> (pkt_queue_filter list \<Rightarrow> pkt_queue \<Rightarrow> 'a) \<Rightarrow> pkt_queue_filterset \<Rightarrow> pqs_error + 'a" where
  "pqs_at sid qn d f s =
     (if unat qn \<ge> MAX_FILTERQUEUES then Inl Invalid_queue_number
      else case pqs_pq s of
          None \<Rightarrow> Inr d
        | Some fs \<Rightarrow> if unat sid < length fs then Inr (f fs (pqs_queue fs sid qn)) else Inl Out_of_range)"

definition get_queue_stat :: "u32 \<Rightarrow> u32 \<Rightarrow> pkt_queue_filterset \<Rightarrow> u64 \<times> u64 \<times> u32 \<Rightarrow> pqs_error + u64 \<times> u64 \<times> u32" where
  "get_queue_stat sid qn s d = pqs_at sid qn d (\<lambda>fs q. get_stat q) s"

definition get_queue_state :: "u32 \<Rightarrow> u32 \<Rightarrow> pkt_queue_filterset \<Rightarrow> int \<times> int \<times> u32 \<Rightarrow> pqs_error + int \<times> int \<times> u32" where
  "get_queue_state sid qn s d =
     pqs_at sid qn d (\<lambda>fs q. (ticks_left q, adjust_speed_value q, adjust_speed_seqnum q)) s"

definition set_queue_state ::
  "u32 \<Rightarrow> u32 \<Rightarrow> int \<Rightarrow> int \<Rightarrow> u32 \<Rightarrow> pkt_queue_filterset \<Rightarrow> pqs_error + pkt_queue_filterset"
where
  "set_queue_state sid qn ticks speed seqnum s =
     pqs_at sid qn s (\<lambda>fs q. s\<lparr>pqs_pq := Some (pqs_update sid qn
       (q\<lparr>ticks_left := ticks, adjust_speed_value := speed, adjust_speed_seqnum := seqnum\<rparr>) fs)\<rparr>) s"

definition get_queue_qty :: "pkt_queue_filterset \<Rightarrow> nat" where
  "get_queue_qty s = (case pqs_pq s of None \<Rightarrow> 0 | Some fs \<Rightarrow> length fs)"

section \<open>Waiting packets of a filter\<close>

text \<open>The queues of direction \<open>d\<close> of the filter with identifier \<open>i\<close>, as a function of both.\<close>

definition waiting :: "pkt_queue_filterset \<Rightarrow> u32 \<Rightarrow> nat \<Rightarrow> (u8 list \<times> u8 list) list" where
  "waiting s i d = (case pqs_pq s of
      None \<Rightarrow> []
    | Some fs \<Rightarrow> (case find (\<lambda>f. pqf_filterid f = i) fs of None \<Rightarrow> [] | Some f \<Rightarrow> pq_list (pqf_q f ! d)))"

definition pqf_wf :: "u32 \<Rightarrow> pkt_queue_filter \<Rightarrow> bool" where
  "pqf_wf bufsize f \<longleftrightarrow> length (pqf_q f) = MAX_FILTERQUEUES
     \<and> (\<forall>q \<in> set (pqf_q f). pq_inv q \<and> packetbuf_size q = bufsize)"

definition pqs_wf :: "u32 \<Rightarrow> pkt_queue_filterset \<Rightarrow> bool" where
  "pqs_wf bufsize s \<longleftrightarrow> (case pqs_pq s of
      None \<Rightarrow> pqs_filterids s = []
    | Some fs \<Rightarrow> list_all (pqf_wf bufsize) fs
        \<and> (map pqf_filterid fs = pqs_filterids s \<and> distinct (pqs_filterids s)
           \<or> map pqf_filterid fs = [0] \<and> pqs_filterids s = []))"

lemma pkt_queue_assign_same:
  assumes "pq_inv q"
  shows "pkt_queue_assign q = q"
proof -
  obtain b where b: "pq_data q = Some b" "length b = unat (maxpackets q) * pq_stride q"
    "unat (maxpackets q) * pq_stride q < 2 ^ 32" "0 < unat (maxpackets q)"
    using assms by (auto simp: pq_inv_def)
  have "1 * pq_stride q \<le> unat (maxpackets q) * pq_stride q" using b(4) by (intro mult_le_mono1) simp
  then have "pq_stride q < 2 ^ 32" using b(3) by linarith
  then have "unat (packetbuf_size q + of_nat sizeof_pkt_additional_data) = pq_stride q"
    by (subst unat_add_no_overflow) (simp_all add: pq_stride_def sizeof_pkt_additional_data_def)
  then have "get_datasize q = length b"
    using b by (simp add: get_datasize_def unat_mult_no_overflow)
  then show ?thesis using b(1) by (cases q) (simp add: pkt_queue_assign_def)
qed

definition bufsize_ok :: "u32 \<Rightarrow> bool" where
  "bufsize_ok bufsize \<longleftrightarrow> 1000 * (unat bufsize + 8) < 2 ^ 32"

lemma new_queue:
  assumes "bufsize_ok bufsize" and "\<And>n. length (fresh n) = n"
    and "maxp = MAX_FILTERQUEUE_PACKETS \<or> maxp = MAX_FILTERSETQUEUE_PACKETS"
  shows "pq_inv (pkt_queue_init fresh maxp bufsize (pkt_queue_assign pkt_queue_new))
    \<and> pq_list (pkt_queue_init fresh maxp bufsize (pkt_queue_assign pkt_queue_new)) = []
    \<and> packetbuf_size (pkt_queue_init fresh maxp bufsize (pkt_queue_assign pkt_queue_new)) = bufsize"
proof -
  have e: "pkt_queue_init fresh maxp bufsize (pkt_queue_assign pkt_queue_new) = pkt_queue_init fresh maxp bufsize pkt_queue_new"
    by (simp add: pkt_queue_init_def pkt_queue_assign_def pkt_queue_new_def get_datasize_def)
  have "0 < unat maxp" "unat maxp * (unat bufsize + sizeof_pkt_additional_data) < 2 ^ 32"
    using assms(1,3) by (auto simp: utm_consts bufsize_ok_def sizeof_pkt_additional_data_def)
  from pkt_queue_init_inv [of maxp bufsize fresh, OF this assms(2)] show ?thesis
    unfolding e by (simp add: pkt_queue_init_def Let_def)
qed

lemma new_filter:
  assumes "bufsize_ok bufsize" and "\<And>n. length (fresh n) = n"
    and "maxp = MAX_FILTERQUEUE_PACKETS \<or> maxp = MAX_FILTERSETQUEUE_PACKETS"
    and "f = pqf_init fresh maxp bufsize ((pqf_assign pqf_new)\<lparr>pqf_filterid := i\<rparr>)"
  shows "pqf_wf bufsize f \<and> pqf_filterid f = i \<and> (d < MAX_FILTERQUEUES \<longrightarrow> pq_list (pqf_q f ! d) = [])"
  using new_queue [of bufsize fresh maxp, OF assms(1-3)]
  by (auto simp: assms(4) pqf_wf_def pqf_init_def pqf_assign_def pqf_new_def)

lemma assign_filter: "pqf_wf bufsize f \<Longrightarrow> pqf_assign f = f"
  by (cases f) (auto simp: pqf_assign_def pqf_wf_def pkt_queue_assign_same intro!: map_idI)

lemma default_wf:
  assumes "bufsize_ok bufsize" and "\<And>n. length (fresh n) = n" and "pqs_filterids s = []"
  shows "pqs_wf bufsize (pqs_init_default fresh bufsize s)"
    and "d < MAX_FILTERQUEUES \<Longrightarrow> waiting (pqs_init_default fresh bufsize s) i d = []"
proof -
  have e: "(pqf_assign pqf_new)\<lparr>pqf_filterid := 0\<rparr> = pqf_assign pqf_new" by (simp add: pqf_assign_def pqf_new_def)
  let ?f = "pqf_init fresh MAX_FILTERSETQUEUE_PACKETS bufsize (pqf_assign pqf_new)"
  have "pqf_wf bufsize ?f \<and> pqf_filterid ?f = 0 \<and> (d < MAX_FILTERQUEUES \<longrightarrow> pq_list (pqf_q ?f ! d) = [])"
    using new_filter [OF assms(1,2), of MAX_FILTERSETQUEUE_PACKETS _ 0 d] unfolding e by blast
  then show "pqs_wf bufsize (pqs_init_default fresh bufsize s)"
    and "d < MAX_FILTERQUEUES \<Longrightarrow> waiting (pqs_init_default fresh bufsize s) i d = []"
    using assms(3) by (auto simp: pqs_wf_def pqs_init_default_def waiting_def)
qed

text \<open>Reconfiguration: the packets of the filters that stay keep waiting.\<close>

lemma init_filter:
  assumes "bufsize_ok bufsize" and "\<And>n. length (fresh n) = n" and "pqs_wf bufsize s"
    and "f = pqf_of_filter fresh bufsize (pqs_pq s) i"
  shows "pqf_wf bufsize f \<and> pqf_filterid f = i \<and> (d < MAX_FILTERQUEUES \<longrightarrow> pq_list (pqf_q f ! d) = waiting s i d)"
proof (cases "case pqs_pq s of None \<Rightarrow> None | Some fs \<Rightarrow> find (\<lambda>f. pqf_filterid f = i) fs")
  case None
  then have "waiting s i d = []" by (auto simp: waiting_def split: option.splits)
  then show ?thesis using new_filter [OF assms(1,2), of MAX_FILTERQUEUE_PACKETS f i d] None
    by (simp add: assms(4) pqf_of_filter_def)
next
  case (Some g)
  then obtain fs where fs: "pqs_pq s = Some fs" "find (\<lambda>f. pqf_filterid f = i) fs = Some g"
    by (auto split: option.splits)
  then have "g \<in> set fs" "pqf_filterid g = i" by (auto dest: find_Some_set)
  then have "pqf_wf bufsize g" using assms(3) fs(1) by (auto simp: pqs_wf_def list_all_iff)
  then show ?thesis using Some fs \<open>pqf_filterid g = i\<close> by (simp add: assms(4) pqf_of_filter_def assign_filter waiting_def)
qed

lemma pqs_init_step:
  assumes "bufsize_ok bufsize" and "\<And>n. length (fresh n) = n" and "pqs_wf bufsize s"
    and "distinct (map m_id (fs_filters fs))"
  shows "pqs_wf bufsize (pqs_init fresh fs bufsize s) \<and> pqs_filterids (pqs_init fresh fs bufsize s) = map m_id (fs_filters fs)"
    and "i \<in> m_id ` set (fs_filters fs) \<Longrightarrow> d < MAX_FILTERQUEUES \<Longrightarrow> waiting (pqs_init fresh fs bufsize s) i d = waiting s i d"
    and "i \<notin> m_id ` set (fs_filters fs) \<Longrightarrow> pqs_filterids s \<noteq> map m_id (fs_filters fs) \<Longrightarrow> waiting (pqs_init fresh fs bufsize s) i d = []"
proof -
  let ?h = "\<lambda>f :: filter2. pqf_of_filter fresh bufsize (pqs_pq s) (m_id f)"
  have h: "pqf_wf bufsize (?h f)" "pqf_filterid (?h f) = m_id f"
    "d < MAX_FILTERQUEUES \<Longrightarrow> pq_list (pqf_q (?h f) ! d) = waiting s (m_id f) d" for f d
    using init_filter [OF assms(1-3) refl] by blast+
  show "pqs_wf bufsize (pqs_init fresh fs bufsize s) \<and> pqs_filterids (pqs_init fresh fs bufsize s) = map m_id (fs_filters fs)"
    using assms(3,4) h by (auto simp: pqs_init_def Let_def pqs_wf_def list_all_iff comp_def)
  show "waiting (pqs_init fresh fs bufsize s) i d = []"
    if "i \<notin> m_id ` set (fs_filters fs)" "pqs_filterids s \<noteq> map m_id (fs_filters fs)"
  proof -
    have "find (\<lambda>f. pqf_filterid f = i) (map ?h (fs_filters fs)) = None"
      using that(1) h(2) by (auto simp: find_None_set)
    then show ?thesis using that(2) by (simp add: pqs_init_def waiting_def)
  qed
  show "waiting (pqs_init fresh fs bufsize s) i d = waiting s i d"
    if i: "i \<in> m_id ` set (fs_filters fs)" and d: "d < MAX_FILTERQUEUES"
  proof (cases "pqs_filterids s = map m_id (fs_filters fs)")
    case False
    have "find (\<lambda>f. pqf_filterid f = i) (map ?h (fs_filters fs)) \<noteq> None"
      using i h(2) by (auto simp: find_None_set)
    then obtain g where g: "find (\<lambda>f. pqf_filterid f = i) (map ?h (fs_filters fs)) = Some g" by blast
    then have gi: "g \<in> set (map ?h (fs_filters fs))" "pqf_filterid g = i" by (blast dest: find_Some_set)+
    from gi(1) obtain f where "g = ?h f" by (auto elim: imageE)
    then have "pq_list (pqf_q g ! d) = waiting s i d" using h(2) [of f] h(3) [of d f] d gi(2) by simp
    then show ?thesis using False g unfolding pqs_init_def by (simp add: Let_def waiting_def [of "\<lparr>pqs_filterids = _, pqs_pq = _\<rparr>"])
  qed (simp add: pqs_init_def)
qed

section \<open>One queue of the container\<close>

lemma queue_wf:
  assumes "pqs_wf bufsize s" and "pqs_pq s = Some fs" and "unat sid < length fs" and "unat qn < MAX_FILTERQUEUES"
  shows "pq_inv (pqs_queue fs sid qn)" "packetbuf_size (pqs_queue fs sid qn) = bufsize"
proof -
  have "pqf_wf bufsize (fs ! unat sid)" using assms(1-3) by (auto simp: pqs_wf_def list_all_iff)
  then show "pq_inv (pqs_queue fs sid qn)" "packetbuf_size (pqs_queue fs sid qn) = bufsize"
    using assms(4) by (simp_all add: pqf_wf_def pqs_queue_def)
qed

text \<open>Replacing one queue changes what waits for its filter in its direction, and nothing else.\<close>

lemma update_queue:
  assumes wf: "pqs_wf bufsize s" and fs: "pqs_pq s = Some fs" and k: "unat sid < length fs" and n: "unat qn < MAX_FILTERQUEUES"
    and q: "pq_inv q" "packetbuf_size q = bufsize"
    and s': "s' = s\<lparr>pqs_pq := Some (pqs_update sid qn q fs)\<rparr>"
  shows "pqs_wf bufsize s'"
    and "d < MAX_FILTERQUEUES \<Longrightarrow> waiting s' i d = (if i = pqf_filterid (fs ! unat sid) \<and> d = unat qn then pq_list q else waiting s i d)"
    and "waiting s (pqf_filterid (fs ! unat sid)) (unat qn) = pq_list (pqs_queue fs sid qn)"
proof -
  let ?f = "fs ! unat sid" and ?g = "(fs ! unat sid)\<lparr>pqf_q := (pqf_q (fs ! unat sid))[unat qn := q]\<rparr>"
  have dist: "distinct (map pqf_filterid fs)" using wf fs by (auto simp: pqs_wf_def)
  have f: "pqf_wf bufsize ?f" using wf fs k by (auto simp: pqs_wf_def list_all_iff)
  have g: "pqf_wf bufsize ?g" using f q n by (auto simp: pqf_wf_def dest!: subsetD [OF set_update_subset_insert])
  have ids: "map pqf_filterid (fs[unat sid := ?g]) = map pqf_filterid fs"
    by (simp add: map_update list_update_same_conv k)
  have "list_all (pqf_wf bufsize) (fs[unat sid := ?g])"
    using wf fs g by (auto simp: pqs_wf_def list_all_iff dest!: subsetD [OF set_update_subset_insert])
  then show "pqs_wf bufsize s'"
    using wf fs ids by (simp add: pqs_wf_def s' pqs_update_def)
  have "find (\<lambda>f. pqf_filterid f = i) (fs[unat sid := ?g]) = (if i = pqf_filterid ?f then Some ?g else find (\<lambda>f. pqf_filterid f = i) fs)"
    by (rule find_update [OF dist k]) simp
  then show "waiting s' i d = (if i = pqf_filterid ?f \<and> d = unat qn then pq_list q else waiting s i d)" if "d < MAX_FILTERQUEUES"
    using f n that fs find_nth_distinct [OF dist k] by (auto simp: waiting_def s' pqs_update_def pqf_wf_def nth_list_update)
  show "waiting s (pqf_filterid ?f) (unat qn) = pq_list (pqs_queue fs sid qn)"
    using fs find_nth_distinct [OF dist k] by (simp add: waiting_def pqs_queue_def)
qed

section \<open>Runs of the shaper\<close>

text \<open>
  The operations on the queues, and what a run of them accepts and what leaves the queues, in order:
  packets with the identifier of the filter and the direction of their queue, delivered by a fetch or
  discarded by a reconfiguration that drops their filter. A call that throws changes nothing. Calls are
  made one at a time: \<open>put_packet\<close> uses the container without the lock the others take.
\<close>

datatype shaper_op = SInit filterset | SPut u32 u32 "u8 list" "u8 list" | SGet u32 u32 | SState u32 u32 int int u32

type_synonym shaper_log = "((u32 \<times> nat) \<times> u8 list \<times> u8 list) list"

datatype shaper_exit = Delivered | Discarded

definition filter_at :: "pkt_queue_filterset \<Rightarrow> u32 \<Rightarrow> u32" where
  "filter_at s sid = pqf_filterid (the (pqs_pq s) ! unat sid)"

definition held_by :: "pkt_queue_filter list \<Rightarrow> shaper_log" where
  "held_by fs = concat (map (\<lambda>f. concat (map (\<lambda>d. map (Pair (pqf_filterid f, d)) (pq_list (pqf_q f ! d))) [0..<MAX_FILTERQUEUES])) fs)"

definition dropped_by_init :: "u32 list \<Rightarrow> pkt_queue_filterset \<Rightarrow> shaper_log" where
  "dropped_by_init ids s = (case pqs_pq s of
      None \<Rightarrow> []
    | Some fs \<Rightarrow> if pqs_filterids s = ids then [] else held_by (filter (\<lambda>f. pqf_filterid f \<notin> set ids) fs))"

fun shaper_step ::
  "(nat \<Rightarrow> u8 list) \<Rightarrow> u32 \<Rightarrow> shaper_op \<Rightarrow> pkt_queue_filterset
     \<Rightarrow> (pkt_queue_filterset \<times> shaper_log \<times> (shaper_exit \<times> (u32 \<times> nat) \<times> u8 list \<times> u8 list) list) option"
where
  "shaper_step fresh bufsize (SInit fs) s =
     Some (pqs_init fresh fs bufsize s, [], map (Pair Discarded) (dropped_by_init (map m_id (fs_filters fs)) s))"
| "shaper_step fresh bufsize (SPut sid qn pkt dat) s =
     (case pqs_put_packet fresh sid qn pkt bufsize (Some dat) s of
        Inl e \<Rightarrow> Some (s, [], [])
      | Inr None \<Rightarrow> None
      | Inr (Some (r, s')) \<Rightarrow>
          Some (s', if r = PKTQUEUE_STORED then [((filter_at s' sid, unat qn), pkt, dat)] else [], []))"
| "shaper_step fresh bufsize (SGet sid qn) s =
     (case pqs_get_packet sid qn bufsize s of
        Inl e \<Rightarrow> Some (s, [], [])
      | Inr None \<Rightarrow> None
      | Inr (Some (r, s')) \<Rightarrow>
          Some (s', [], case r of None \<Rightarrow> [] | Some x \<Rightarrow> [(Delivered, (filter_at s' sid, unat qn), x)]))"
| "shaper_step fresh bufsize (SState sid qn ticks speed seqnum) s =
     (case set_queue_state sid qn ticks speed seqnum s of Inl e \<Rightarrow> Some (s, [], []) | Inr s' \<Rightarrow> Some (s', [], []))"

fun shaper_run ::
  "(nat \<Rightarrow> u8 list) \<Rightarrow> u32 \<Rightarrow> shaper_op list \<Rightarrow> pkt_queue_filterset
     \<Rightarrow> (pkt_queue_filterset \<times> shaper_log \<times> (shaper_exit \<times> (u32 \<times> nat) \<times> u8 list \<times> u8 list) list) option"
where
  "shaper_run fresh bufsize [] s = Some (s, [], [])"
| "shaper_run fresh bufsize (op # ops) s =
     do { (s1, a, l) \<leftarrow> shaper_step fresh bufsize op s;
          (s2, acc, left) \<leftarrow> shaper_run fresh bufsize ops s1;
          Some (s2, a @ acc, l @ left) }"

definition of_queue :: "u32 \<Rightarrow> nat \<Rightarrow> shaper_log \<Rightarrow> (u8 list \<times> u8 list) list" where
  "of_queue i d es = map snd (filter (\<lambda>e. fst e = (i, d)) es)"

lemma of_queue_simps [simp]:
  "of_queue i d [] = []" "of_queue i d (es @ es') = of_queue i d es @ of_queue i d es'"
  "of_queue i d (e # es) = (if fst e = (i, d) then [snd e] else []) @ of_queue i d es"
  by (simp_all add: of_queue_def)

text \<open>A configuration names each filter once, and buffers have the size of the queues.\<close>

fun op_ok :: "u32 \<Rightarrow> shaper_op \<Rightarrow> bool" where
  "op_ok bufsize (SInit fs) = distinct (map m_id (fs_filters fs))"
| "op_ok bufsize (SPut sid qn pkt dat) = (length pkt = unat bufsize \<and> length dat = sizeof_pkt_additional_data)"
| "op_ok bufsize (SGet sid qn) = True"
| "op_ok bufsize (SState sid qn ticks speed seqnum) = True"

text \<open>What a reconfiguration drops is what waited for the filters it drops.\<close>

lemma of_queue_held:
  assumes "distinct (map pqf_filterid fs)" and "d < MAX_FILTERQUEUES"
  shows "of_queue i d (held_by fs) = (case find (\<lambda>f. pqf_filterid f = i) fs of None \<Rightarrow> [] | Some f \<Rightarrow> pq_list (pqf_q f ! d))"
  using assms(1)
proof (induction fs)
  case (Cons f fs)
  have p: "of_queue i d (map (Pair (j, c)) xs) = (if j = i \<and> c = d then xs else [])" for j c and xs :: "(u8 list \<times> u8 list) list"
    by (auto simp: of_queue_def comp_def filter_map intro: map_idI)
  have "held_by (f # fs) = map (Pair (pqf_filterid f, 0)) (pq_list (pqf_q f ! 0))
      @ map (Pair (pqf_filterid f, 1)) (pq_list (pqf_q f ! 1)) @ held_by fs"
    by (simp add: held_by_def utm_consts numeral_2_eq_2)
  moreover have "d = 0 \<or> d = 1" using assms(2) by (auto simp: utm_consts)
  moreover have "pqf_filterid f = i \<Longrightarrow> find (\<lambda>f. pqf_filterid f = i) fs = None" using Cons.prems by (auto simp: find_None_iff) (metis image_eqI)
  ultimately show ?case using Cons by (auto simp: p)
qed (simp add: held_by_def)

lemma dropped_waiting:
  assumes "pqs_wf bufsize s" and "d < MAX_FILTERQUEUES"
  shows "of_queue i d (dropped_by_init ids s) = (if i \<notin> set ids \<and> pqs_filterids s \<noteq> ids then waiting s i d else [])"
proof (cases "pqs_pq s")
  case (Some fs)
  then have "distinct (map pqf_filterid fs)" using assms(1) by (auto simp: pqs_wf_def)
  then have dist: "distinct (map pqf_filterid (filter (\<lambda>f. pqf_filterid f \<notin> set ids) fs))" by (rule distinct_map_filter)
  have "find (\<lambda>f. pqf_filterid f = i) (filter (\<lambda>f. pqf_filterid f \<notin> set ids) fs)
      = (if i \<in> set ids then None else find (\<lambda>f. pqf_filterid f = i) fs)"
    by (induction fs) auto
  then show ?thesis
    using Some of_queue_held [OF dist assms(2), of i] by (simp add: dropped_by_init_def waiting_def)
qed (simp add: dropped_by_init_def waiting_def)

lemma put_step:
  assumes wf: "pqs_wf bufsize s" and fs: "pqs_pq s = Some fs" and d: "d < MAX_FILTERQUEUES"
    and ok: "op_ok bufsize (SPut sid qn pkt dat)" and n: "unat qn < MAX_FILTERQUEUES"
  shows "\<exists>s' a. shaper_step fresh bufsize (SPut sid qn pkt dat) s = Some (s', a, []) \<and> pqs_wf bufsize s'
    \<and> waiting s' i d = waiting s i d @ of_queue i d a"
proof (cases "unat sid < length fs")
  case False
  then show ?thesis using n fs wf by (simp add: pqs_put_packet_def utm_consts)
next
  case True
  let ?q = "pqs_queue fs sid qn"
  note q = queue_wf [OF wf fs True n]
  have v: "pq_valid ?q (pkt, dat)" using ok q(2) by (simp add: pq_valid_def)
  note put = put_packet_inv [OF q(1) v, unfolded q(2) fst_conv snd_conv]
  have fa: "filter_at (s\<lparr>pqs_pq := Some (pqs_update sid qn q' fs)\<rparr>) sid = pqf_filterid (fs ! unat sid)" for q'
    using True by (simp add: filter_at_def pqs_update_def)
  show ?thesis
  proof (cases "pq_count ?q < unat (maxpackets ?q)")
    case True
    then obtain q' where q': "put_packet ?q pkt bufsize (Some dat) = Some (PKTQUEUE_STORED, q')"
      "pq_inv q'" "packetbuf_size q' = bufsize" "pq_list q' = pq_list ?q @ [(pkt, dat)]"
      using put q(2) by auto
    note u = update_queue [OF wf fs \<open>unat sid < length fs\<close> n q'(2,3) refl]
    show ?thesis
      using q' u(1) u(2) [OF d, of i] u(3) n \<open>unat sid < length fs\<close> fs by (simp add: pqs_put_packet_def fa)
  next
    case False
    note u = update_queue [OF wf fs \<open>unat sid < length fs\<close> n q refl]
    show ?thesis
      using False put u(1) u(2) [OF d, of i] u(3) n \<open>unat sid < length fs\<close> fs
      by (auto simp: pqs_put_packet_def fa utm_consts)
  qed
qed

lemma get_step:
  assumes wf: "pqs_wf bufsize s" and d: "d < MAX_FILTERQUEUES" and n: "unat qn < MAX_FILTERQUEUES"
  shows "\<exists>s' l. shaper_step fresh bufsize (SGet sid qn) s = Some (s', [], l) \<and> pqs_wf bufsize s'
    \<and> waiting s i d = of_queue i d (map snd l) @ waiting s' i d"
proof (cases "\<exists>fs. pqs_pq s = Some fs \<and> unat sid < length fs")
  case False
  then show ?thesis using n wf by (auto simp: pqs_get_packet_def split: option.splits)
next
  case True
  then obtain fs where fs: "pqs_pq s = Some fs" "unat sid < length fs" by blast
  let ?q = "pqs_queue fs sid qn"
  note q = queue_wf [OF wf fs n]
  obtain r q' where g: "get_packet ?q bufsize = Some (r, q')"
    using get_packet_defined [OF q(1)] q(2) by auto
  note st = get_packet_state [OF q(1), unfolded q(2), OF g]
  have q': "pq_inv q'" "packetbuf_size q' = bufsize" using st by auto
  note u = update_queue [OF wf fs n q' refl]
  have fa: "filter_at (s\<lparr>pqs_pq := Some (pqs_update sid qn q' fs)\<rparr>) sid = pqf_filterid (fs ! unat sid)"
    using fs by (simp add: filter_at_def pqs_update_def)
  show ?thesis
    using g st u(1) u(2) [OF d, of i] u(3) n fs by (cases r) (auto simp: pqs_get_packet_def fa)
qed

lemma state_step:
  assumes wf: "pqs_wf bufsize s" and d: "d < MAX_FILTERQUEUES"
  shows "\<exists>s'. shaper_step fresh bufsize (SState sid qn t v k) s = Some (s', [], []) \<and> pqs_wf bufsize s'
    \<and> waiting s' i d = waiting s i d"
proof (cases "\<exists>fs. pqs_pq s = Some fs \<and> unat sid < length fs \<and> unat qn < MAX_FILTERQUEUES")
  case False
  then show ?thesis using wf by (auto simp: set_queue_state_def pqs_at_def split: option.splits)
next
  case True
  then obtain fs where fs: "pqs_pq s = Some fs" "unat sid < length fs" and n: "unat qn < MAX_FILTERQUEUES" by blast
  let ?q = "pqs_queue fs sid qn"
  let ?q' = "?q\<lparr>ticks_left := t, adjust_speed_value := v, adjust_speed_seqnum := k\<rparr>"
  note q = queue_wf [OF wf fs n]
  have q': "pq_inv ?q'" "packetbuf_size ?q' = bufsize" "pq_list ?q' = pq_list ?q"
    using q by (simp_all add: pq_inv_def pq_count_def pq_stride_def pq_list_def pq_slot_def pq_pos_def)
  note u = update_queue [OF wf fs n q'(1,2) refl]
  show ?thesis using u(1) u(2) [OF d, of i] u(3) q'(3) fs n by (simp add: set_queue_state_def pqs_at_def)
qed

text \<open>One call: nothing leaves unseen, and a packet is discarded only when a reconfiguration drops its filter.\<close>

definition discarded_ok :: "shaper_op list \<Rightarrow> u32 \<Rightarrow> nat \<Rightarrow> (shaper_exit \<times> (u32 \<times> nat) \<times> u8 list \<times> u8 list) list \<Rightarrow> bool" where
  "discarded_ok ops i d left \<longleftrightarrow> (\<forall>x. (Discarded, (i, d), x) \<in> set left
     \<longrightarrow> (\<exists>fs. SInit fs \<in> set ops \<and> i \<notin> m_id ` set (fs_filters fs)))"

lemma shaper_step_keeps:
  assumes "bufsize_ok bufsize" and "\<And>n. length (fresh n) = n" and "pqs_wf bufsize s"
    and "d < MAX_FILTERQUEUES" and "op_ok bufsize op"
  shows "\<exists>s' a l. shaper_step fresh bufsize op s = Some (s', a, l) \<and> pqs_wf bufsize s'
    \<and> waiting s i d @ of_queue i d a = of_queue i d (map snd l) @ waiting s' i d \<and> discarded_ok [op] i d l"
proof (cases op)
  case (SInit fs)
  let ?ids = "map m_id (fs_filters fs)"
  have dist: "distinct ?ids" using assms(5) SInit by simp
  note st = pqs_init_step [OF assms(1-3) dist]
  have same: "pqs_filterids s = ?ids \<Longrightarrow> pqs_init fresh fs bufsize s = s" by (simp add: pqs_init_def)
  have "waiting s i d = of_queue i d (dropped_by_init ?ids s) @ waiting (pqs_init fresh fs bufsize s) i d"
    unfolding dropped_waiting [OF assms(3,4)] using st(2,3) [of i] assms(4) same by auto
  moreover have "discarded_ok [op] i d (map (Pair Discarded) (dropped_by_init ?ids s))"
  proof -
    have "i \<notin> m_id ` set (fs_filters fs)" if "((i, d), x) \<in> set (dropped_by_init ?ids s)" for x
      using that by (force simp: dropped_by_init_def held_by_def split: option.splits if_splits)
    then show ?thesis by (auto simp: discarded_ok_def SInit)
  qed
  ultimately show ?thesis using st(1) SInit by (simp add: comp_def)
next
  case (SPut sid qn pkt dat)
  have ok: "op_ok bufsize (SPut sid qn pkt dat)" using assms(5) SPut by simp
  show ?thesis
  proof (cases "unat qn < MAX_FILTERQUEUES")
    case False
    then show ?thesis using assms(3) by (simp add: SPut pqs_put_packet_def discarded_ok_def)
  next
    case n: True
    show ?thesis
    proof (cases "pqs_pq s")
      case (Some fs)
      then show ?thesis using put_step [OF assms(3) Some assms(4) ok n, of fresh i] SPut by (auto simp: discarded_ok_def)
    next
      case None
      let ?s = "pqs_init_default fresh bufsize s"
      have ids: "pqs_filterids s = []" using assms(3) None by (simp add: pqs_wf_def)
      obtain fs where fs: "pqs_pq ?s = Some fs" by (simp add: pqs_init_default_def)
      have "waiting s i d = []" "waiting ?s i d = []"
        using None default_wf(2) [OF assms(1,2) ids assms(4)] by (simp_all add: waiting_def)
      moreover have "shaper_step fresh bufsize op s = shaper_step fresh bufsize op ?s"
        using None fs SPut n by (simp add: pqs_put_packet_def Let_def)
      ultimately show ?thesis
        using put_step [OF default_wf(1) [OF assms(1,2) ids] fs assms(4) ok n, of fresh i] SPut
        by (auto simp: discarded_ok_def)
    qed
  qed
next
  case (SGet sid qn)
  show ?thesis
  proof (cases "unat qn < MAX_FILTERQUEUES")
    case False
    then show ?thesis using assms(3) by (simp add: SGet pqs_get_packet_def discarded_ok_def)
  next
    case True
    obtain s' l where l: "shaper_step fresh bufsize (SGet sid qn) s = Some (s', [], l)" "pqs_wf bufsize s'"
      "waiting s i d = of_queue i d (map snd l) @ waiting s' i d"
      using get_step [OF assms(3,4) True, of fresh sid i] by blast
    moreover have "discarded_ok [op] i d l"
      using l(1) by (auto simp: discarded_ok_def split: sum.splits option.splits prod.splits)
    ultimately show ?thesis using SGet by simp
  qed
next
  case (SState sid qn t v k)
  then show ?thesis using state_step [OF assms(3,4), of fresh sid qn t v k i] by (auto simp: discarded_ok_def)
qed

section \<open>Properties\<close>

text \<open>
  C32: the shaper delivers in order. In a run of any calls, made one at a time, with buffers of one size
  and configurations that name each filter once, nothing is read or written outside a block. For every
  filter and direction, what waited followed by what was accepted is what left the queue, in that order,
  followed by what waits at the end: no packet is doubled or overtaken, also when the filter gets another
  position in the list. What leaves is delivered, or discarded by a reconfiguration whose configuration
  does not have the filter; none is lost while the configurations keep it.
\<close>

theorem shaper_delivers_in_order:
  assumes "bufsize_ok bufsize" and "\<And>n. length (fresh n) = n" and "pqs_wf bufsize s"
    and "d < MAX_FILTERQUEUES" and "list_all (op_ok bufsize) ops"
  shows "\<exists>s' acc left. shaper_run fresh bufsize ops s = Some (s', acc, left) \<and> pqs_wf bufsize s'
    \<and> waiting s i d @ of_queue i d acc = of_queue i d (map snd left) @ waiting s' i d
    \<and> (\<forall>x. (Discarded, (i, d), x) \<in> set left \<longrightarrow> (\<exists>fs. SInit fs \<in> set ops \<and> i \<notin> m_id ` set (fs_filters fs)))"
  unfolding discarded_ok_def [symmetric] using assms(3,5)
proof (induction ops arbitrary: s)
  case (Cons op ops)
  have ok: "op_ok bufsize op" "list_all (op_ok bufsize) ops" using Cons.prems(2) by simp_all
  obtain s1 a l where one: "shaper_step fresh bufsize op s = Some (s1, a, l)" "pqs_wf bufsize s1"
    "waiting s i d @ of_queue i d a = of_queue i d (map snd l) @ waiting s1 i d" "discarded_ok [op] i d l"
    using shaper_step_keeps [OF assms(1,2) Cons.prems(1) assms(4) ok(1)] by blast
  obtain s' acc left where rest: "shaper_run fresh bufsize ops s1 = Some (s', acc, left)" "pqs_wf bufsize s'"
    "waiting s1 i d @ of_queue i d acc = of_queue i d (map snd left) @ waiting s' i d" "discarded_ok ops i d left"
    using Cons.IH [OF one(2) ok(2)] by blast
  have "waiting s i d @ of_queue i d (a @ acc) = of_queue i d (map snd (l @ left)) @ waiting s' i d"
    using one(3) rest(3) by (metis append.assoc map_append of_queue_simps(2))
  moreover have "discarded_ok (op # ops) i d (l @ left)" using one(4) rest(4) by (auto simp: discarded_ok_def)
  ultimately show ?case using one(1) rest(1,2) by simp
qed (simp add: discarded_ok_def)

definition ex_shaper_ops :: "shaper_op list" where
  "ex_shaper_ops = [SInit (ex_filterset [ex_set_filter 4 0]), SPut 0 1 [1, 2] [0, 0, 0, 0, 0, 0, 0, 7],
     SInit (ex_filterset [ex_set_filter 9 0, ex_set_filter 4 0]), SPut 0 0 [3, 4] [0, 0, 0, 0, 0, 0, 0, 8], SGet 1 1,
     SGet 0 2, SInit (ex_filterset [ex_set_filter 4 0])]"

theorem shaper_delivers_in_order_witness:
  "\<exists>s' acc left. shaper_run (\<lambda>n. replicate n 0) 2 ex_shaper_ops pqs_new = Some (s', acc, left)
    \<and> of_queue 4 1 acc = of_queue 4 1 (map snd left) @ waiting s' 4 1 \<and> (\<forall>x. (Discarded, (4, 1), x) \<notin> set left)"
proof -
  have "bufsize_ok 2" "pqs_wf 2 pqs_new" "waiting pqs_new 4 1 = []"
    by (simp_all add: bufsize_ok_def pqs_wf_def pqs_new_def waiting_def)
  moreover have "list_all (op_ok 2) ex_shaper_ops"
    "SInit fs \<in> set ex_shaper_ops \<Longrightarrow> 4 \<in> m_id ` set (fs_filters fs)" for fs
    by (auto simp: ex_shaper_ops_def ex_filterset_def filterset_clear_def ex_set_filter_simps utm_consts sizeof_pkt_additional_data_def)
  ultimately show ?thesis
    using shaper_delivers_in_order [of 2 "\<lambda>n. replicate n 0" pqs_new 1 ex_shaper_ops 4]
    by (auto simp: utm_consts)
qed

text \<open>
  The calls differ in what they do with a position outside the container: storing reports that
  there is no space, fetching reports an empty queue, and the state functions throw.
\<close>

theorem position_outside:
  assumes "pqs_pq s = Some fs" and "length fs \<le> unat sid" and "unat qn < MAX_FILTERQUEUES"
  shows "pqs_put_packet fresh sid qn pkt bufsize dat s = Inr (Some (PKTQUEUE_NOSPACE, s))
    \<and> pqs_get_packet sid qn bufsize s = Inr (Some (None, s))
    \<and> get_queue_stat sid qn s st = Inl Out_of_range \<and> get_queue_state sid qn s st' = Inl Out_of_range
    \<and> set_queue_state sid qn t v k s = Inl Out_of_range"
  using assms by (simp add: pqs_put_packet_def pqs_get_packet_def get_queue_stat_def get_queue_state_def
      set_queue_state_def pqs_at_def)

theorem position_outside_witness:
  "get_queue_stat 1 0 (pqs_init_default (\<lambda>n. replicate n 0) 2 pqs_new) (0, 0, 0) = Inl Out_of_range"
  using position_outside [of "pqs_init_default (\<lambda>n. replicate n 0) 2 pqs_new"
      "[pqf_init (\<lambda>n. replicate n 0) MAX_FILTERSETQUEUE_PACKETS 2 (pqf_assign pqf_new)]" 1 0
      "\<lambda>n. replicate n 0" "[]" 2 None "(0, 0, 0)" "(0, 0, 0)" 0 0 0]
  by (simp add: pqs_init_default_def utm_consts)

end
