(* ===== verification/EventHolder.thy ===== *)
theory EventHolder
  imports EventLog
begin

text \<open>
  \<open>utm/event_holder.h\<close>: the events kept in memory. New events get the next number; beyond the
  capacity the oldest are dropped; a remote console fetches the events from a number on as an XML
  text and parses it into a holder of its own. What the class of the events provides is the record
  \<open>event_class\<close>. All operations hold the lock of the object, so each is one step.
\<close>

record 'e event_class =
  ec_tag :: string
  ec_id :: "'e \<Rightarrow> u64"
  ec_set_id :: "u64 \<Rightarrow> 'e \<Rightarrow> 'e"
  ec_to_string :: "'e \<Rightarrow> string"
  ec_xml_create :: "'e \<Rightarrow> xml"
  ec_xml_catch_value :: "string \<Rightarrow> string \<Rightarrow> 'e \<Rightarrow> 'e option"
  ec_new :: 'e

record 'e event_holder =
  eh_capacity :: nat
  eh_next :: u64
  eh_events :: "'e list"
  eh_rotate :: u32
  eh_log :: loggingparams

definition event_holder_new :: "nat \<Rightarrow> u32 \<Rightarrow> u32 \<Rightarrow> 'e event_holder" where
  "event_holder_new capacity u1 u2 = \<lparr>eh_capacity = capacity, eh_next = 0, eh_events = [],
     eh_rotate = 0, eh_log = loggingparamsbase_new u1 u2\<rparr>"

text \<open>\<open>operator=\<close> copies neither the parameters of the log nor the counter.\<close>

definition eh_assign :: "'e event_holder \<Rightarrow> 'e event_holder \<Rightarrow> 'e event_holder" where
  "eh_assign rhs h = h\<lparr>eh_capacity := eh_capacity rhs, eh_next := eh_next rhs, eh_events := eh_events rhs\<rparr>"

definition safe_copy_container :: "'e event_class \<Rightarrow> u64 \<Rightarrow> bool \<Rightarrow> 'e event_holder \<Rightarrow> 'e list \<times> 'e event_holder" where
  "safe_copy_container c from_event_id clear_source h =
     (filter (\<lambda>e. ec_id c e \<ge> from_event_id) (eh_events h),
      if clear_source then h\<lparr>eh_events := []\<rparr> else h)"

definition eh_clear :: "'e event_holder \<Rightarrow> 'e event_holder" where "eh_clear h = h\<lparr>eh_events := []\<rparr>"

definition eh_set_capacity :: "nat \<Rightarrow> 'e event_holder \<Rightarrow> 'e event_holder" where
  "eh_set_capacity n h = h\<lparr>eh_capacity := n\<rparr>"

fun drop_while_more :: "nat \<Rightarrow> 'e list \<Rightarrow> 'e list" where
  "drop_while_more maxitems [] = []"
| "drop_while_more maxitems (e # es) =
     (if length (e # es) > maxitems then drop_while_more maxitems es else e # es)"

definition truncate_front :: "nat \<Rightarrow> 'e event_holder \<Rightarrow> 'e event_holder" where
  "truncate_front maxitems h = h\<lparr>eh_events := drop_while_more maxitems (eh_events h)\<rparr>"

definition get_last_event_ptr :: "'e event_holder \<Rightarrow> 'e option" where
  "get_last_event_ptr h = (if eh_events h = [] then None else Some (last (eh_events h)))"

definition pop_front_item :: "'e event_holder \<Rightarrow> ('e \<times> 'e event_holder) option" where
  "pop_front_item h = (case eh_events h of [] \<Rightarrow> None | e # es \<Rightarrow> Some (e, h\<lparr>eh_events := es\<rparr>))"

definition find_item :: "'e event_class \<Rightarrow> u64 \<Rightarrow> 'e event_holder \<Rightarrow> 'e option" where
  "find_item c i h = find (\<lambda>e. ec_id c e = i) (eh_events h)"

text \<open>
  \<open>while (events.size() >= get_capacity()) events.pop_front()\<close>: with capacity 0 the loop takes
  from the empty list, which is undefined.
\<close>

fun pop_to_capacity :: "nat \<Rightarrow> 'e list \<Rightarrow> 'e list option" where
  "pop_to_capacity capacity [] = (if 0 \<ge> capacity then None else Some [])"
| "pop_to_capacity capacity (e # es) =
     (if length (e # es) \<ge> capacity then pop_to_capacity capacity es else Some (e # es))"

text \<open>\<open>add_item\<close>: a new item, with number 0, gets the next number; one with a number keeps it.\<close>

definition number_item :: "'e event_class \<Rightarrow> 'e \<Rightarrow> u64 \<Rightarrow> 'e \<times> u64" where
  "number_item c item nxt =
     (if ec_id c item = 0 then (ec_set_id c nxt item, nxt + 1)
      else (item, if ec_id c item \<ge> nxt then ec_id c item + 1 else nxt))"

definition store_item :: "'e event_class \<Rightarrow> 'e \<Rightarrow> 'e event_holder \<Rightarrow> ('e \<times> 'e event_holder) option" where
  "store_item c item h =
     do { es \<leftarrow> pop_to_capacity (eh_capacity h) (eh_events h);
          let (itemcopy, nxt) = number_item c item (eh_next h);
          Some (itemcopy, h\<lparr>eh_next := nxt, eh_events := es @ [itemcopy]\<rparr>) }"

definition eh_write_log ::
  "'e event_class \<Rightarrow> 'fs fs_ops \<Rightarrow> utime \<Rightarrow> 'e \<Rightarrow> 'e event_holder \<times> 'fs log_world \<Rightarrow> ('e event_holder \<times> 'fs log_world) option"
where
  "eh_write_log c ops now item = (\<lambda>(h, w).
     do { (counter, w1) \<leftarrow> write_log ops now (eh_log h) (ec_to_string c item) (eh_rotate h) w;
          Some (h\<lparr>eh_rotate := counter\<rparr>, w1) })"

definition add_item ::
  "'e event_class \<Rightarrow> 'fs fs_ops \<Rightarrow> utime \<Rightarrow> 'e \<Rightarrow> bool \<Rightarrow> 'e event_holder \<times> 'fs log_world
     \<Rightarrow> (u64 \<times> 'e event_holder \<times> 'fs log_world) option"
where
  "add_item c ops now item dont_writelog = (\<lambda>(h, w).
     do { (itemcopy, h1) \<leftarrow> store_item c item h;
          r \<leftarrow> (if dont_writelog then Some (h1, w) else eh_write_log c ops now itemcopy (h1, w));
          Some (ec_id c itemcopy, r) })"

subsection \<open>XML form\<close>

text \<open>
  \<open>xml_create\<close> from a number on. The reverse loop counts the events before the first, seen from
  the end, with a smaller number; the forward loop starts at that event.
\<close>

definition events_from :: "'e event_class \<Rightarrow> u64 \<Rightarrow> 'e list \<Rightarrow> 'e list" where
  "events_from c threshold_id es =
     (if threshold_id = 0 then es
      else
        let items_found = length (takeWhile (\<lambda>e. \<not> ec_id c e < threshold_id) (rev es));
            start = (if items_found = length es then 0 else length es - items_found - 1) in
        if items_found > 0 then filter (\<lambda>e. ec_id c e \<ge> threshold_id) (drop start es) else [])"

definition eh_xml_create :: "'e event_class \<Rightarrow> u64 \<Rightarrow> 'e event_holder \<Rightarrow> xml" where
  "eh_xml_create c threshold_id h = Elem ''Events'' [] (map (ec_xml_create c) (events_from c threshold_id (eh_events h)))"

definition eh_xml_catch_value :: "'e event_class \<Rightarrow> string \<Rightarrow> string \<Rightarrow> 'e event_holder \<Rightarrow> 'e event_holder option" where
  "eh_xml_catch_value c keyname v h =
     (if keyname = ec_tag c then
        do { item \<leftarrow> ec_xml_catch_value c keyname v (ec_new c);
             (itemcopy, h1) \<leftarrow> store_item c item h;
             Some h1 }
      else Some h)"

definition eh_xml :: "'e event_class \<Rightarrow> 'e event_holder xml_class" where
  "eh_xml c = \<lparr>xc_clear = eh_clear, xc_create = eh_xml_create c 0, xc_value = eh_xml_catch_value c,
     xc_subnode = (\<lambda>k n h. Some h)\<rparr>"

text \<open>\<open>make_diff_dump\<close> and \<open>parse_diff_dump\<close>; the dump is the node in its text.\<close>

definition make_diff_dump :: "'e event_class \<Rightarrow> u64 \<Rightarrow> 'e event_holder \<Rightarrow> xml" where
  "make_diff_dump c remote_next_id h = eh_xml_create c remote_next_id h"

definition parse_diff_dump :: "'e event_class \<Rightarrow> xml \<Rightarrow> 'e event_holder \<Rightarrow> 'e event_holder option" where
  "parse_diff_dump c dump h = xml_parse_node (eh_xml c) dump True h"

section \<open>What the loops compute\<close>

lemma drop_while_more_drop: "drop_while_more n es = drop (length es - n) es"
  by (induction es) (auto simp: Suc_diff_le)

lemma pop_to_capacity_drop:
  "capacity > 0 \<Longrightarrow> pop_to_capacity capacity es = Some (drop (Suc (length es) - capacity) es)"
  by (induction es) (auto simp: Suc_diff_le)

lemma pop_to_capacity_zero: "pop_to_capacity 0 es = None"
  by (induction es) simp_all

lemma suffix_filter_sorted:
  "sorted_wrt (\<lambda>a b. f a < (f b :: 'b::linorder)) es \<Longrightarrow> filter (\<lambda>e. f e \<ge> n) es = rev (takeWhile (\<lambda>e. f e \<ge> n) (rev es))"
proof (induction es rule: rev_induct)
  case (snoc e es)
  have "f e < n \<Longrightarrow> filter (\<lambda>e. f e \<ge> n) es = []"
    using snoc.prems by (fastforce simp: sorted_wrt_append filter_empty_conv)
  then show ?case using snoc by (auto simp: sorted_wrt_append)
qed simp

text \<open>The two loops select the events from the number on, when the numbers ascend.\<close>

lemma events_from_filter:
  assumes "sorted_wrt (\<lambda>a b. ec_id c a < ec_id c b) es"
  shows "events_from c n es = filter (\<lambda>e. ec_id c e \<ge> n) es"
proof (cases "n = 0")
  case False
  let ?k = "length (takeWhile (\<lambda>e. \<not> ec_id c e < n) (rev es))"
  have f: "filter (\<lambda>e. ec_id c e \<ge> n) es = rev (takeWhile (\<lambda>e. \<not> ec_id c e < n) (rev es))"
    using suffix_filter_sorted [OF assms, of n] by (simp add: not_less)
  have "drop (length es - ?k) es = rev (takeWhile (\<lambda>e. \<not> ec_id c e < n) (rev es))"
    by (metis rev_rev_ident rev_take takeWhile_eq_take length_rev)
  then have d: "drop (length es - ?k) es = filter (\<lambda>e. ec_id c e \<ge> n) es" using f by simp
  have "filter (\<lambda>e. ec_id c e \<ge> n) (take (length es - ?k) es) @ filter (\<lambda>e. ec_id c e \<ge> n) (drop (length es - ?k) es)
      = filter (\<lambda>e. ec_id c e \<ge> n) es"
    by (metis append_take_drop_id filter_append)
  moreover have "filter (\<lambda>e. ec_id c e \<ge> n) (drop (length es - ?k) es) = filter (\<lambda>e. ec_id c e \<ge> n) es"
    by (simp add: d)
  ultimately have "filter (\<lambda>e. ec_id c e \<ge> n) (take (length es - ?k) es) = []" by simp
  then have "filter (\<lambda>e. ec_id c e \<ge> n) (take (length es - ?k - 1) es) = []"
    using set_take_subset_set_take [OF diff_le_self, of "length es - ?k" 1 es]
    by (simp add: filter_empty_conv subset_iff)
  moreover have "filter (\<lambda>e. ec_id c e \<ge> n) (take (length es - ?k - 1) es) @ filter (\<lambda>e. ec_id c e \<ge> n) (drop (length es - ?k - 1) es)
      = filter (\<lambda>e. ec_id c e \<ge> n) es"
    by (metis append_take_drop_id filter_append)
  ultimately have "filter (\<lambda>e. ec_id c e \<ge> n) (drop (length es - ?k - 1) es) = filter (\<lambda>e. ec_id c e \<ge> n) es" by simp
  moreover have "?k = 0 \<Longrightarrow> filter (\<lambda>e. ec_id c e \<ge> n) es = []" using f by simp
  ultimately show ?thesis using False by (simp add: events_from_def Let_def)
qed (simp add: events_from_def)

section \<open>Dumps\<close>

text \<open>
  What a class of events promises: its XML form has the tag of the class and a text that parses
  into the event.
\<close>

locale event_element =
  fixes c :: "'e event_class" and ok :: "'e \<Rightarrow> bool"
  assumes id_set_id: "ec_id c (ec_set_id c i e) = i"
    and set_id_id: "ec_set_id c (ec_id c e) e = e"
    and ok_set_id: "ok e \<Longrightarrow> ok (ec_set_id c i e)"
    and create_name: "node_name (ec_xml_create c e) = ec_tag c"
    and create_text: "ok e \<Longrightarrow> node_text (ec_xml_create c e) \<noteq> []"
    and create_catch: "ok e \<Longrightarrow> ec_xml_catch_value c (ec_tag c) (node_text (ec_xml_create c e)) (ec_new c) = Some e"
begin

lemma number_fresh: "ec_id c e = 0 \<Longrightarrow> number_item c e nxt = (ec_set_id c nxt e, nxt + 1)"
  by (simp add: number_item_def)

text \<open>An event with a number the holder has not reached keeps it, number 0 included.\<close>

lemma number_later: "nxt \<le> ec_id c e \<Longrightarrow> number_item c e nxt = (e, ec_id c e + 1)"
  using set_id_id [of e] by (auto simp: number_item_def)

lemma store_fresh:
  assumes "eh_capacity h > 0" and "ec_id c e = 0"
  shows "store_item c e h = Some (ec_set_id c (eh_next h) e,
    h\<lparr>eh_next := eh_next h + 1, eh_events := lastn (eh_capacity h) (eh_events h @ [ec_set_id c (eh_next h) e])\<rparr>)"
  using assms by (simp add: store_item_def pop_to_capacity_drop number_fresh lastn_snoc)

lemma store_later:
  assumes "eh_capacity h > 0" and "eh_next h \<le> ec_id c e"
  shows "store_item c e h = Some (e, h\<lparr>eh_next := ec_id c e + 1, eh_events := lastn (eh_capacity h) (eh_events h @ [e])\<rparr>)"
  using assms by (simp add: store_item_def pop_to_capacity_drop number_later lastn_snoc)

text \<open>Numbers in order, the last of them not the largest number.\<close>

definition ascends :: "u64 \<Rightarrow> 'e list \<Rightarrow> bool" where
  "ascends nxt es \<longleftrightarrow> sorted_wrt (\<lambda>a b. ec_id c a < ec_id c b) es \<and> (\<forall>e \<in> set es. nxt \<le> ec_id c e \<and> ec_id c e < -1)"

lemma ascends_Cons:
  assumes "ascends nxt (e # es)" shows "nxt \<le> ec_id c e" "ascends (ec_id c e + 1) es"
proof -
  show "nxt \<le> ec_id c e" using assms by (simp add: ascends_def)
  have "ec_id c e + 1 \<le> ec_id c x" if "x \<in> set es" for x
    using assms that inc_le [of "ec_id c e" "ec_id c x"] by (simp add: ascends_def)
  then show "ascends (ec_id c e + 1) es" using assms by (simp add: ascends_def)
qed

lemma parse_events:
  assumes "list_all ok es" and "ascends (eh_next h) es" and "eh_capacity h > 0"
  shows "xml_parse_allnodes (eh_xml c) (map (ec_xml_create c) es) h =
    Some (if es = [] then h else h\<lparr>eh_next := ec_id c (last es) + 1, eh_events := lastn (eh_capacity h) (eh_events h @ es)\<rparr>)"
  using assms
proof (induction es arbitrary: h)
  case (Cons e es)
  let ?h = "h\<lparr>eh_next := ec_id c e + 1, eh_events := lastn (eh_capacity h) (eh_events h @ [e])\<rparr>"
  have "xc_value (eh_xml c) (node_name (ec_xml_create c e)) (node_text (ec_xml_create c e)) h = Some ?h"
    using Cons.prems ascends_Cons(1) [OF Cons.prems(2)]
    by (simp add: eh_xml_def eh_xml_catch_value_def create_name create_catch store_later)
  moreover have "xml_parse_allnodes (eh_xml c) (map (ec_xml_create c) es) ?h =
      Some (if es = [] then ?h else ?h\<lparr>eh_next := ec_id c (last es) + 1, eh_events := lastn (eh_capacity h) (eh_events ?h @ es)\<rparr>)"
    using Cons.prems Cons.IH [of ?h] ascends_Cons(2) [OF Cons.prems(2)] by simp
  moreover have "node_text (ec_xml_create c e) \<noteq> []" using Cons.prems create_text by simp
  ultimately show ?case using lastn_append [of "eh_capacity h" "eh_events h @ [e]" es] by simp
qed simp

text \<open>Events that were received before are kept a second time.\<close>

lemma store_earlier:
  assumes "eh_capacity h > 0" and "ec_id c e \<noteq> 0" and "ec_id c e < eh_next h"
  shows "store_item c e h = Some (e, h\<lparr>eh_events := lastn (eh_capacity h) (eh_events h @ [e])\<rparr>)"
  using assms by (simp add: store_item_def pop_to_capacity_drop number_item_def lastn_snoc)

lemma parse_again:
  assumes "list_all ok es" and "\<forall>e \<in> set es. ec_id c e \<noteq> 0 \<and> ec_id c e < eh_next h" and "eh_capacity h > 0"
  shows "parse_diff_dump c (Elem t [] (map (ec_xml_create c) es)) h =
    Some (if es = [] then h else h\<lparr>eh_events := lastn (eh_capacity h) (eh_events h @ es)\<rparr>)"
proof -
  have "xml_parse_allnodes (eh_xml c) (map (ec_xml_create c) es) h =
    Some (if es = [] then h else h\<lparr>eh_events := lastn (eh_capacity h) (eh_events h @ es)\<rparr>)"
    using assms
  proof (induction es arbitrary: h)
    case (Cons e es)
    let ?h = "h\<lparr>eh_events := lastn (eh_capacity h) (eh_events h @ [e])\<rparr>"
    have "xc_value (eh_xml c) (node_name (ec_xml_create c e)) (node_text (ec_xml_create c e)) h = Some ?h"
      using Cons.prems by (simp add: eh_xml_def eh_xml_catch_value_def create_name create_catch store_earlier)
    moreover have "node_text (ec_xml_create c e) \<noteq> []" using Cons.prems create_text by simp
    ultimately show ?case
      using Cons.prems Cons.IH [of ?h] lastn_append [of "eh_capacity h" "eh_events h @ [e]" es] by simp
  qed simp
  then show ?thesis by (simp add: parse_diff_dump_def xml_parse_node_def node_children_def)
qed

lemma parse_dump:
  assumes "list_all ok es" and "ascends (eh_next h) es" and "eh_capacity h > 0"
  shows "parse_diff_dump c (Elem t [] (map (ec_xml_create c) es)) h =
    Some (if es = [] then h else h\<lparr>eh_next := ec_id c (last es) + 1, eh_events := lastn (eh_capacity h) (eh_events h @ es)\<rparr>)"
  using parse_events [OF assms] by (simp add: parse_diff_dump_def xml_parse_node_def node_children_def)

end

end
