(* ===== verification/LocMsg.thy ===== *)
theory LocMsg
  imports Xml
begin

text \<open>
  \<open>utm/stringtools.cpp\<close>: the localisation of messages. A message holds texts between the tags
  \<open><LSTR>\<close> and \<open></LSTR>\<close>, which \<open>LocalizeMessage\<close> replaces by what the function pointer
  \<open>localize\<close> returns; the pointer is the argument \<open>loc\<close>, \<open>NULL\<close> being \<open>None\<close>.
\<close>

section \<open>Searching\<close>

definition LSTR_BEGIN :: string where "LSTR_BEGIN = ''<LSTR>''"
definition LSTR_END :: string where "LSTR_END = ''</LSTR>''"

text \<open>\<open>std::string::find\<close>.\<close>

fun find_first :: "string \<Rightarrow> string \<Rightarrow> nat option" where
  "find_first needle [] = (if needle = [] then Some 0 else None)"
| "find_first needle (c # cs) =
     (if take (length needle) (c # cs) = needle then Some 0 else map_option Suc (find_first needle cs))"

definition find_from :: "string \<Rightarrow> string \<Rightarrow> nat \<Rightarrow> nat option" where
  "find_from needle s from = (if from \<le> length s then map_option ((+) from) (find_first needle (drop from s)) else None)"

lemma find_first_bound: "find_first needle s = Some i \<Longrightarrow> i + length needle \<le> length s"
proof (induction s arbitrary: i)
  case (Cons c cs)
  show ?case
  proof (cases "take (length needle) (c # cs) = needle")
    case True
    then have "length needle \<le> length (c # cs)" by (metis length_take min.cobounded1)
    then show ?thesis using True Cons.prems by simp
  next
    case False
    then show ?thesis using Cons by (auto split: if_splits)
  qed
qed (simp split: if_splits)

lemma find_from_bound: "find_from needle s from = Some i \<Longrightarrow> from \<le> i \<and> i + length needle \<le> length s"
  using find_first_bound [of needle "drop from s"] by (auto simp: find_from_def split: if_splits)

text \<open>A needle whose first character does not return is found right after a text without it.\<close>

lemma find_first_here: "find_first needle (needle @ s) = Some 0"
  by (cases "needle @ s") (auto, metis append_eq_conv_conj)

lemma find_first_after:
  assumes "find_first (c # n) p = None" and "c \<notin> set n"
  shows "find_first (c # n) (p @ c # n @ s) = Some (length p)"
  using assms(1)
proof (induction p)
  case Nil
  then show ?case using find_first_here [of "c # n" s] by simp
next
  case (Cons d p)
  have "take (length n) (p @ c # n @ s) \<noteq> n" if "c = d"
  proof (cases "length n \<le> length p")
    case True
    then show ?thesis using Cons.prems that by (auto split: if_splits)
  next
    case False
    then have "c \<in> set (take (length n) (p @ c # n @ s))"
      by (cases "length n - length p") auto
    then show ?thesis using assms(2) by metis
  qed
  then show ?case using Cons by (auto split: if_splits)
qed

lemma tag_heads: "LSTR_BEGIN = CHR ''<'' # ''LSTR>''" "LSTR_END = CHR ''<'' # ''/LSTR>''"
  by (simp_all add: LSTR_BEGIN_def LSTR_END_def)

lemma find_begin: "find_first LSTR_BEGIN p = None \<Longrightarrow> find_first LSTR_BEGIN (p @ LSTR_BEGIN @ s) = Some (length p)"
  using find_first_after [of "CHR ''<''" "''LSTR>''" p s] by (simp add: tag_heads)

lemma find_end: "find_first LSTR_END p = None \<Longrightarrow> find_first LSTR_END (p @ LSTR_END @ s) = Some (length p)"
  using find_first_after [of "CHR ''<''" "''/LSTR>''" p s] by (simp add: tag_heads)

section \<open>The message\<close>

record msgpart =
  pos_start :: nat
  pos_end :: nat
  localization_required :: bool

function msg_parts :: "string \<Rightarrow> nat \<Rightarrow> msgpart list \<Rightarrow> msgpart list" where
  "msg_parts src pos_prev parts =
     (case find_from LSTR_BEGIN src pos_prev of
        None \<Rightarrow> parts
      | Some pos \<Rightarrow>
          let parts1 = (if pos_prev \<noteq> pos then parts @ [\<lparr>pos_start = pos_prev, pos_end = pos, localization_required = False\<rparr>]
                        else parts) in
          (case find_from LSTR_END src (pos + length LSTR_BEGIN) of
             None \<Rightarrow> parts1
           | Some e \<Rightarrow>
               msg_parts src (e + length LSTR_END)
                 (if pos + length LSTR_BEGIN < e
                  then parts1 @ [\<lparr>pos_start = pos + length LSTR_BEGIN, pos_end = e, localization_required = True\<rparr>]
                  else parts1)))"
  by pat_completeness auto
termination
  by (relation "measure (\<lambda>(src, p, parts). Suc (length src) - p)")
    (auto dest!: find_from_bound simp: LSTR_END_def LSTR_BEGIN_def)

declare msg_parts.simps [simp del]

definition msg_part_text :: "(string \<Rightarrow> string) option \<Rightarrow> string \<Rightarrow> msgpart \<Rightarrow> string" where
  "msg_part_text loc src p =
     (let t = take (pos_end p - pos_start p) (drop (pos_start p) src) in
      if localization_required p then (case loc of None \<Rightarrow> t | Some f \<Rightarrow> c_str (f (c_str t))) else t)"

definition msg_append_part :: "(string \<Rightarrow> string) option \<Rightarrow> string \<Rightarrow> msgpart \<Rightarrow> string \<times> nat \<Rightarrow> string \<times> nat" where
  "msg_append_part loc src p = (\<lambda>(dst, pos). (dst @ msg_part_text loc src p,
     pos_end p + (if localization_required p then length LSTR_END else length LSTR_BEGIN)))"

lemma msg_append_part_pair:
  "msg_append_part loc src p (dst, pos) = (dst @ msg_part_text loc src p,
     pos_end p + (if localization_required p then length LSTR_END else length LSTR_BEGIN))"
  by (simp add: msg_append_part_def)

definition LocalizeMessage :: "(string \<Rightarrow> string) option \<Rightarrow> string \<Rightarrow> string \<Rightarrow> string" where
  "LocalizeMessage loc srcmsg dstmsg =
     (case fold (msg_append_part loc srcmsg) (msg_parts srcmsg 0 []) (dstmsg, 0) of
        (dst, pos) \<Rightarrow> dst @ c_str (drop pos srcmsg))"

definition strLSTR :: "(string \<Rightarrow> string) option \<Rightarrow> string \<Rightarrow> string" where
  "strLSTR loc str = (case loc of None \<Rightarrow> str | Some f \<Rightarrow> f str)"

section \<open>Messages in segments\<close>

text \<open>A message as a list of plain texts, each followed by a tagged text, and a last plain text.\<close>

primrec seg_text :: "(string \<times> string) list \<Rightarrow> string" where
  "seg_text [] = []"
| "seg_text (s # ss) = fst s @ LSTR_BEGIN @ snd s @ LSTR_END @ seg_text ss"

primrec seg_out :: "(string \<Rightarrow> string) option \<Rightarrow> (string \<times> string) list \<Rightarrow> string" where
  "seg_out loc [] = []"
| "seg_out loc (s # ss) = fst s @ (case loc of None \<Rightarrow> snd s | Some f \<Rightarrow> c_str (f (snd s))) @ seg_out loc ss"

definition seg_ok :: "string \<times> string \<Rightarrow> bool" where
  "seg_ok s \<longleftrightarrow> find_first LSTR_BEGIN (fst s) = None \<and> find_first LSTR_END (snd s) = None \<and> snd s \<noteq> []
     \<and> CHR 0x00 \<notin> set (snd s)"

primrec seg_parts :: "nat \<Rightarrow> (string \<times> string) list \<Rightarrow> msgpart list" where
  "seg_parts n [] = []"
| "seg_parts n (s # ss) =
     (let b = n + length (fst s); t = b + length LSTR_BEGIN; e = t + length (snd s) in
      (if fst s = [] then [] else [\<lparr>pos_start = n, pos_end = b, localization_required = False\<rparr>])
      @ \<lparr>pos_start = t, pos_end = e, localization_required = True\<rparr> # seg_parts (e + length LSTR_END) ss)"

lemma find_from_append: "find_from needle (pre @ s) (length pre) = map_option ((+) (length pre)) (find_first needle s)"
  by (simp add: find_from_def)

lemma msg_parts_segments:
  assumes "list_all seg_ok ss" and "find_first LSTR_BEGIN tail = None"
  shows "msg_parts (pre @ seg_text ss @ tail) (length pre) parts = parts @ seg_parts (length pre) ss"
  using assms(1)
proof (induction ss arbitrary: pre parts)
  case Nil
  then show ?case using assms(2) by (simp add: msg_parts.simps [of _ "length pre"] find_from_append)
next
  case (Cons s ss)
  define pre1 where "pre1 = pre @ fst s @ LSTR_BEGIN"
  define pre2 where "pre2 = pre1 @ snd s @ LSTR_END"
  define src where "src = pre @ seg_text (s # ss) @ tail"
  have src: "src = pre1 @ snd s @ LSTR_END @ seg_text ss @ tail" "src = pre2 @ seg_text ss @ tail"
    by (simp_all add: src_def pre1_def pre2_def)
  have "find_from LSTR_BEGIN src (length pre) = Some (length pre + length (fst s))"
    using Cons.prems find_begin [of "fst s"] by (simp add: src_def find_from_append seg_ok_def)
  moreover have "find_from LSTR_END src (length pre1) = Some (length pre1 + length (snd s))"
    unfolding src(1) using Cons.prems by (simp add: find_from_append find_end seg_ok_def)
  moreover have "msg_parts src (length pre2) ps = ps @ seg_parts (length pre2) ss" for ps
    unfolding src(2) using Cons.prems by (intro Cons.IH) simp
  moreover have "snd s \<noteq> []" using Cons.prems by (simp add: seg_ok_def)
  moreover have "length pre1 = length pre + length (fst s) + length LSTR_BEGIN" by (simp add: pre1_def)
  moreover have "length pre2 = length pre1 + length (snd s) + length LSTR_END" by (simp add: pre2_def)
  ultimately show ?case
    unfolding src_def [symmetric] by (simp add: msg_parts.simps [of src "length pre"] Let_def)
qed

lemma parts_appended:
  assumes "list_all seg_ok ss"
  shows "fold (msg_append_part loc (pre @ seg_text ss @ tail)) (seg_parts (length pre) ss) (dst, length pre)
    = (dst @ seg_out loc ss, length (pre @ seg_text ss))"
  using assms
proof (induction ss arbitrary: pre dst)
  case (Cons s ss)
  define pre1 where "pre1 = pre @ fst s @ LSTR_BEGIN"
  define pre2 where "pre2 = pre1 @ snd s @ LSTR_END"
  define src where "src = pre @ seg_text (s # ss) @ tail"
  have src: "src = pre @ fst s @ LSTR_BEGIN @ snd s @ LSTR_END @ seg_text ss @ tail"
    "src = pre1 @ snd s @ LSTR_END @ seg_text ss @ tail" "src = pre2 @ seg_text ss @ tail"
    by (simp_all add: src_def pre1_def pre2_def)
  have t: "take (length (fst s)) (drop (length pre) src) = fst s"
    "take (length (snd s)) (drop (length pre1) src) = snd s"
    unfolding src(1) by (simp_all add: pre1_def)
  have "fold (msg_append_part loc src) (seg_parts (length pre2) ss) (d, length pre2)
      = (d @ seg_out loc ss, length (pre2 @ seg_text ss))" for d
    unfolding src(3) using Cons.prems by (intro Cons.IH) simp
  moreover have "CHR 0x00 \<notin> set (snd s)" using Cons.prems by (simp add: seg_ok_def)
  moreover have "length pre1 = length pre + length (fst s) + length LSTR_BEGIN" by (simp add: pre1_def)
  moreover have "length pre2 = length pre1 + length (snd s) + length LSTR_END" by (simp add: pre2_def)
  ultimately show ?case
    unfolding src_def [symmetric] using t
    by (cases "fst s = []") (simp_all add: Let_def msg_append_part_pair msg_part_text_def c_str_text split: option.splits)
qed simp

lemma localize_segments:
  assumes "list_all seg_ok ss" and "find_first LSTR_BEGIN tail = None" and "CHR 0x00 \<notin> set tail"
  shows "LocalizeMessage loc (seg_text ss @ tail) dst = dst @ seg_out loc ss @ tail"
  using msg_parts_segments [OF assms(1,2), of "[]"] parts_appended [OF assms(1), of loc "[]" tail dst]
  by (simp add: LocalizeMessage_def c_str_text [OF assms(3)])

lemma localize_plain:
  "find_first LSTR_BEGIN s = None \<Longrightarrow> CHR 0x00 \<notin> set s \<Longrightarrow> LocalizeMessage loc s [] = s"
  using localize_segments [of "[]" s loc "[]"] by simp

text \<open>
  localisation. In a message of plain and tagged texts, none of them empty between its tags,
  exactly the tagged texts are replaced by their translations and the tags removed.
\<close>

theorem localize_message_segments:
  assumes "list_all seg_ok ss" and "find_first LSTR_BEGIN tail = None" and "CHR 0x00 \<notin> set tail"
  shows "LocalizeMessage loc (seg_text ss @ tail) dst = dst @ seg_out loc ss @ tail"
  using assms by (rule localize_segments)

theorem localize_message_segments_witness:
  "LocalizeMessage (Some rev) ''5 <LSTR>abc</LSTR>: <LSTR>de</LSTR> < f'' [] = ''5 cba: ed < f''"
  using localize_message_segments [of "[(''5 '', ''abc''), ('': '', ''de'')]" "'' < f''" "Some rev" "[]"]
  by (simp add: seg_ok_def tag_heads c_str_def)

text \<open>
  a tagged text that is empty, after a plain text, shows its end tag to the reader.
\<close>

theorem empty_tags_shown:
  assumes "find_first LSTR_BEGIN p = None" and "p \<noteq> []" and "find_first LSTR_BEGIN r = None" and "CHR 0x00 \<notin> set r"
  shows "LocalizeMessage loc (p @ LSTR_BEGIN @ LSTR_END @ r) [] = p @ LSTR_END @ r"
proof -
  let ?src = "p @ LSTR_BEGIN @ LSTR_END @ r"
  define pre where "pre = p @ LSTR_BEGIN @ LSTR_END"
  have f: "find_from LSTR_BEGIN ?src 0 = Some (length p)"
    using find_begin [OF assms(1)] find_from_append [of LSTR_BEGIN "[]" ?src] by simp
  have e: "find_from LSTR_END ?src (length p + length LSTR_BEGIN) = Some (length p + length LSTR_BEGIN)"
    using find_from_append [of LSTR_END "p @ LSTR_BEGIN" "LSTR_END @ r"] find_first_here [of LSTR_END r] by simp
  have n: "find_from LSTR_BEGIN ?src (length p + length LSTR_BEGIN + length LSTR_END) = None"
    using find_from_append [of LSTR_BEGIN pre r] assms(3) by (simp add: pre_def add.assoc)
  have "msg_parts ?src 0 [] = [\<lparr>pos_start = 0, pos_end = length p, localization_required = False\<rparr>]"
    using assms(2) by (simp add: msg_parts.simps [of _ 0] f e msg_parts.simps [of _ "length p + length LSTR_BEGIN + length LSTR_END"] n)
  moreover have "CHR 0x00 \<notin> set (LSTR_END @ r)" using assms(4) by (simp add: LSTR_END_def)
  ultimately show ?thesis
    by (simp add: LocalizeMessage_def msg_append_part_pair msg_part_text_def c_str_text)
qed

theorem empty_tags_shown_witness:
  "LocalizeMessage None ''5 <LSTR></LSTR> days'' [] = ''5 </LSTR> days''"
  using empty_tags_shown [of "''5 ''" "'' days''" None] by (simp add: tag_heads)

end
