(* ===== verification/EventMsg.thy ===== *)
theory EventMsg
  imports EventHolder LocMsg IdSet Base64
begin

text \<open>
  \<open>utm/event_defs.{h,cpp}\<close>, \<open>event_msg*.{h,cpp}\<close>, \<open>event_pkt*.{h,cpp}\<close>, \<open>uproto.{h,cpp}\<close>: the
  events of the log and of the denied packets, their text in an XML dump, and the queues of them.
  \<open>boost::lexical_cast\<close> is \<open>lexu\<close> and \<open>lexi\<close>, \<open>boost::posix_time::from_iso_string\<close> is \<open>isot\<close>, with
  \<open>None\<close> for an exception; \<open>mktime\<close> and \<open>localtime\<close> depend on the time zone and are arguments.
\<close>

section \<open>Names\<close>

definition ET_DEFAULT :: i32 where [utm_consts]: "ET_DEFAULT = 255"
definition EP_DEFAULT :: i32 where [utm_consts]: "EP_DEFAULT = 0"

definition event_type_str :: "i32 \<Rightarrow> string" where
  "event_type_str t = (if t = 0 then ''ERROR'' else if t = 1 then ''INFO '' else if t = 2 then ''DEBUG''
     else if t = 3 then ''WARN '' else ''-    '')"

definition event_pane_str :: "i32 \<Rightarrow> string" where
  "event_pane_str p = (if p = 4 then ''NET'' else if p = 11 then ''HH '' else if p = 13 then ''MON'' else ''-  '')"

definition uproto_name :: "u8 \<Rightarrow> string" where
  "uproto_name proto = (if proto = 1 then ''ICMP'' else if proto = 6 then ''TCP'' else if proto = 17 then ''UDP''
     else if proto = 47 then ''GRE'' else if proto = 50 then ''ESP'' else if proto = 51 then ''AH''
     else if proto = 115 then ''L2TP'' else print_u (unat proto))"

section \<open>Messages\<close>

record event_msg =
  em_id :: u64
  em_type :: i32
  em_time :: utime
  em_pane :: i32
  em_message :: string

definition event_msg_new :: event_msg where
  "event_msg_new = \<lparr>em_id = 0, em_type = ET_DEFAULT, em_time = ut_clear, em_pane = EP_DEFAULT, em_message = []\<rparr>"

text \<open>\<open>clear\<close> keeps the time.\<close>

definition event_msg_clear :: "event_msg \<Rightarrow> event_msg" where
  "event_msg_clear e = event_msg_new\<lparr>em_time := em_time e\<rparr>"

definition event_msg_eq :: "event_msg \<Rightarrow> event_msg \<Rightarrow> bool" where
  "event_msg_eq a b \<longleftrightarrow> em_id a = em_id b \<and> em_pane a = em_pane b \<and> em_type a = em_type b
     \<and> em_time a = em_time b \<and> em_message a = em_message b"

definition event_msg_to_string :: "(string \<Rightarrow> string) option \<Rightarrow> bool \<Rightarrow> event_msg \<Rightarrow> string" where
  "event_msg_to_string loc make_localization e =
     ut_to_string format_log None (em_time e) @ '' '' @ event_pane_str (em_pane e) @ '' ''
     @ event_type_str (em_type e) @ '' ''
     @ (if make_localization then LocalizeMessage loc (em_message e) [] else em_message e)"

definition do_message_localization :: "(string \<Rightarrow> string) option \<Rightarrow> event_msg \<Rightarrow> string" where
  "do_message_localization loc e = LocalizeMessage loc (em_message e) []"

definition event_msg_text :: "event_msg \<Rightarrow> string" where
  "event_msg_text e = print_u (unat (em_id e)) @ ''|'' @ print_i (em_pane e) @ ''|'' @ print_i (em_type e) @ ''|''
     @ ut_to_string format_iso None (em_time e) @ ''|'' @ em_message e"

definition event_msg_xml_create :: "event_msg \<Rightarrow> xml" where
  "event_msg_xml_create e = Elem ''E'' [] [Pcdata (c_str (event_msg_text e))]"

definition FIELDS_IN_EVENT :: nat where [utm_consts]: "FIELDS_IN_EVENT = 5"

text \<open>\<open>xml_catch_value\<close>: the fields from the fifth on are the message, with the separators between them.\<close>

definition event_msg_xml_catch_value ::
  "(string \<Rightarrow> u64 option) \<Rightarrow> (string \<Rightarrow> i32 option) \<Rightarrow> (string \<Rightarrow> utime option) \<Rightarrow> (string \<Rightarrow> string) option
     \<Rightarrow> string \<Rightarrow> string \<Rightarrow> event_msg \<Rightarrow> event_msg option"
where
  "event_msg_xml_catch_value lexu lexi isot loc keyname keyvalue e =
     (let fields = split_string False CHR ''|'' keyvalue in
      if length fields < FIELDS_IN_EVENT then Some e
      else do { i \<leftarrow> lexu (fields ! 0);
                pane \<leftarrow> lexi (fields ! 1);
                typ \<leftarrow> lexi (fields ! 2);
                time \<leftarrow> isot (fields ! 3);
                let message = join_strings ''|'' (drop 4 fields);
                Some (e\<lparr>em_id := i, em_pane := pane, em_type := typ, em_time := time,
                        em_message := (case loc of None \<Rightarrow> message | Some f \<Rightarrow> LocalizeMessage loc message [])\<rparr>) })"

definition event_msg_class ::
  "(string \<Rightarrow> u64 option) \<Rightarrow> (string \<Rightarrow> i32 option) \<Rightarrow> (string \<Rightarrow> utime option) \<Rightarrow> (string \<Rightarrow> string) option
     \<Rightarrow> event_msg event_class"
where
  "event_msg_class lexu lexi isot loc = \<lparr>ec_tag = ''E'', ec_id = em_id, ec_set_id = (\<lambda>i e. e\<lparr>em_id := i\<rparr>),
     ec_to_string = event_msg_to_string loc True, ec_xml_create = event_msg_xml_create,
     ec_xml_catch_value = event_msg_xml_catch_value lexu lexi isot loc, ec_new = event_msg_new\<rparr>"

text \<open>\<open>add_message\<close> of the holder, which only messages have.\<close>

definition new_message :: "utime \<Rightarrow> i32 \<Rightarrow> i32 \<Rightarrow> string \<Rightarrow> u64 \<Rightarrow> event_msg" where
  "new_message now pane typ msg i = event_msg_new\<lparr>em_id := i, em_pane := pane, em_type := typ, em_time := now, em_message := msg\<rparr>"

definition add_message ::
  "event_msg event_class \<Rightarrow> 'fs fs_ops \<Rightarrow> utime \<Rightarrow> i32 \<Rightarrow> i32 \<Rightarrow> string \<Rightarrow> event_msg event_holder \<times> 'fs log_world
     \<Rightarrow> (event_msg event_holder \<times> 'fs log_world) option"
where
  "add_message c ops now pane typ msg = (\<lambda>(h, w).
     do { es \<leftarrow> pop_to_capacity (eh_capacity h) (eh_events h);
          let item = new_message now pane typ msg (eh_next h);
          eh_write_log c ops now item (h\<lparr>eh_next := eh_next h + 1, eh_events := es @ [item]\<rparr>, w) })"

text \<open>A new message is stored like an item without a number.\<close>

lemma add_message_stores:
  "add_message (event_msg_class lexu lexi isot loc) ops now pane typ msg (h, w) =
     do { (item, h1) \<leftarrow> store_item (event_msg_class lexu lexi isot loc) (new_message now pane typ msg 0) h;
          eh_write_log (event_msg_class lexu lexi isot loc) ops now item (h1, w) }"
  by (cases "pop_to_capacity (eh_capacity h) (eh_events h)")
    (simp_all add: add_message_def store_item_def number_item_def new_message_def event_msg_new_def event_msg_class_def Let_def)

text \<open>Numbers, times and texts that survive the text of an event.\<close>

definition event_msg_ok ::
  "(string \<Rightarrow> u64 option) \<Rightarrow> (string \<Rightarrow> i32 option) \<Rightarrow> (string \<Rightarrow> utime option) \<Rightarrow> (string \<Rightarrow> string) option
     \<Rightarrow> event_msg \<Rightarrow> bool"
where
  "event_msg_ok lexu lexi isot loc e \<longleftrightarrow> (\<forall>i. lexu (print_u (unat i)) = Some i) \<and> (\<forall>i. lexi (print_i i) = Some i)
     \<and> isot (ut_to_string format_iso None (em_time e)) = Some (em_time e) \<and> CHR 0x00 \<notin> set (em_message e)
     \<and> (loc \<noteq> None \<longrightarrow> find_first LSTR_BEGIN (em_message e) = None)"

lemma join_split_fields: "join_strings [d] (split_fields d s) = s"
proof (induction s)
  case (Cons c s)
  obtain f fs where f: "split_fields d s = f # fs" by (cases "split_fields d s") auto
  then show ?case using Cons by (cases fs) auto
qed simp

lemma print_u_no_bar: "CHR ''|'' \<notin> set (print_u n)" "CHR 0x00 \<notin> set (print_u n)"
  using print_u_digits [of n] by (auto simp: list_all_iff is_digit_def dest!: bspec)

lemma print_i_no_bar: "CHR ''|'' \<notin> set (print_i n)" "CHR 0x00 \<notin> set (print_i n)"
  using print_u_no_bar by (auto simp: print_i_def)

lemma iso_no_bar: "CHR ''|'' \<notin> set (ut_to_string format_iso None t)" "CHR 0x00 \<notin> set (ut_to_string format_iso None t)"
  using print_u_no_bar by (auto simp: ut_to_string_def ut_date_def ut_clock_def zpad_def)

lemma event_text_fields:
  "split_string False CHR ''|'' (event_msg_text e) = print_u (unat (em_id e)) # print_i (em_pane e) # print_i (em_type e)
     # ut_to_string format_iso None (em_time e) # split_fields CHR ''|'' (em_message e)"
  by (simp add: split_string_def event_msg_text_def split_fields_delim print_u_no_bar print_i_no_bar iso_no_bar)

lemma event_msg_catch:
  assumes "event_msg_ok lexu lexi isot loc e"
  shows "event_msg_xml_catch_value lexu lexi isot loc k (event_msg_text e) x = Some e"
proof -
  have l: "length (split_fields CHR ''|'' s) \<ge> 1" for s
    by (cases "split_fields CHR ''|'' s") simp_all
  show ?thesis
    using assms l [of "em_message e"]
    by (auto simp: event_msg_xml_catch_value_def event_text_fields event_msg_ok_def FIELDS_IN_EVENT_def join_split_fields Let_def
        localize_plain split: option.splits)
qed

lemma event_msg_text_plain: "CHR 0x00 \<notin> set (em_message e) \<Longrightarrow> c_str (event_msg_text e) = event_msg_text e"
  by (rule c_str_text) (simp add: event_msg_text_def print_u_no_bar print_i_no_bar iso_no_bar)

interpretation event_msgs: event_element "event_msg_class lexu lexi isot loc" "event_msg_ok lexu lexi isot loc"
  for lexu lexi isot loc
proof
  have t: "node_text (ec_xml_create (event_msg_class lexu lexi isot loc) e) = event_msg_text e"
    if "event_msg_ok lexu lexi isot loc e" for e
    using that by (simp add: event_msg_class_def event_msg_xml_create_def node_text_def is_pcdata_def event_msg_text_plain event_msg_ok_def)
  show "node_text (ec_xml_create (event_msg_class lexu lexi isot loc) e) \<noteq> []" if "event_msg_ok lexu lexi isot loc e" for e
    using t [OF that] by (simp add: event_msg_text_def)
  show "ec_xml_catch_value (event_msg_class lexu lexi isot loc) (ec_tag (event_msg_class lexu lexi isot loc))
      (node_text (ec_xml_create (event_msg_class lexu lexi isot loc) e)) (ec_new (event_msg_class lexu lexi isot loc)) = Some e"
    if "event_msg_ok lexu lexi isot loc e" for e
    using event_msg_catch [OF that] t [OF that] by (simp add: event_msg_class_def)
qed (simp_all add: event_msg_class_def event_msg_xml_create_def node_name_def event_msg_ok_def)

section \<open>Packets\<close>

record event_pkt =
  ep_id :: u64
  ep_type :: i32
  ep_time :: utime
  ep_src_mac :: addrmac
  ep_dst_mac :: addrmac
  ep_src_ip4 :: addrip_v4
  ep_dst_ip4 :: addrip_v4
  ep_filter_id :: i32
  ep_rule_number :: i32
  ep_src_port :: u16
  ep_dst_port :: u16
  ep_length :: u16
  ep_proto :: u8

definition event_pkt_clear :: event_pkt where
  "event_pkt_clear = \<lparr>ep_id = 0, ep_type = 0, ep_time = ut_clear, ep_src_mac = mac_clear, ep_dst_mac = mac_clear,
     ep_src_ip4 = Addrip_v4 0, ep_dst_ip4 = Addrip_v4 0, ep_filter_id = 0, ep_rule_number = 0, ep_src_port = 0,
     ep_dst_port = 0, ep_length = 0, ep_proto = 0\<rparr>"

text \<open>\<open>"%10s"\<close> pads on the left.\<close>

definition pad_left :: "nat \<Rightarrow> string \<Rightarrow> string" where
  "pad_left n s = replicate (n - length s) CHR '' '' @ s"

definition has_ports :: "u8 \<Rightarrow> bool" where "has_ports proto \<longleftrightarrow> proto = 6 \<or> proto = 17"

definition event_pkt_to_string :: "event_pkt \<Rightarrow> string" where
  "event_pkt_to_string e =
     ut_to_string format_log None (ep_time e)
     @ '' '' @ pad_left 10 (''ACL:'' @ print_i (ep_filter_id e) @ ''/'' @ print_i (ep_rule_number e))
     @ '' '' @ pad_left 5 (uproto_name (ep_proto e)) @ ''  ''
     @ ip_to_string (ep_src_ip4 e)
     @ (if has_ports (ep_proto e) then '':'' @ print_u (unat (ep_src_port e)) else [])
     @ '' -> '' @ ip_to_string (ep_dst_ip4 e)
     @ (if has_ports (ep_proto e) then '':'' @ print_u (unat (ep_dst_port e)) else [])
     @ ''  len='' @ print_u (unat (ep_length e))"

text \<open>The bytes of \<open>event_pkt_bare\<close> on a little-endian machine: 56 bytes without padding.\<close>

definition event_pkt_bare :: "(utime \<Rightarrow> int \<Rightarrow> int) \<Rightarrow> event_pkt \<Rightarrow> u8 list" where
  "event_pkt_bare mktime e =
     le_bytes 8 (ep_id e) @ le_bytes 8 (of_int (utime_to_time_t mktime (ep_time e)) :: i64) @ le_bytes 4 (ep_type e)
     @ take 6 (mac_content (ep_src_mac e)) @ take 6 (mac_content (ep_dst_mac e))
     @ le_bytes 4 (m_addr (ep_src_ip4 e)) @ le_bytes 4 (m_addr (ep_dst_ip4 e))
     @ le_bytes 4 (ep_filter_id e) @ le_bytes 4 (ep_rule_number e)
     @ le_bytes 2 (ep_src_port e) @ le_bytes 2 (ep_dst_port e) @ le_bytes 2 (ep_length e)
     @ le_bytes 2 (ucast (ep_proto e) :: u16)"

definition to_string_for_xml :: "(utime \<Rightarrow> int \<Rightarrow> int) \<Rightarrow> event_pkt \<Rightarrow> string" where
  "to_string_for_xml mktime e = b64_encode (event_pkt_bare mktime e) []"

text \<open>\<open>from_string_for_xml\<close>: the result of the decoder is not looked at; \<open>None\<close> where it reads outside.\<close>

definition from_string_for_xml :: "(int \<Rightarrow> utime \<times> int) \<Rightarrow> string \<Rightarrow> event_pkt \<Rightarrow> (bool \<times> event_pkt) option" where
  "from_string_for_xml localtime s e =
     do { (ok, d) \<leftarrow> b64_decode s False [];
          if length d \<noteq> 56 then Some (False, e)
          else Some (True, \<lparr>ep_id = le_word (bytes_at 0 8 d), ep_type = le_word (bytes_at 16 4 d),
            ep_time = utime_from_time_t localtime (sint (le_word (bytes_at 8 8 d) :: i64)),
            ep_src_mac = \<lparr>mac_content = bytes_at 20 6 d\<rparr>, ep_dst_mac = \<lparr>mac_content = bytes_at 26 6 d\<rparr>,
            ep_src_ip4 = Addrip_v4 (le_word (bytes_at 32 4 d)), ep_dst_ip4 = Addrip_v4 (le_word (bytes_at 36 4 d)),
            ep_filter_id = le_word (bytes_at 40 4 d), ep_rule_number = le_word (bytes_at 44 4 d),
            ep_src_port = le_word (bytes_at 48 2 d), ep_dst_port = le_word (bytes_at 50 2 d),
            ep_length = le_word (bytes_at 52 2 d), ep_proto = ucast (le_word (bytes_at 54 2 d) :: u16)\<rparr>) }"

definition event_pkt_xml_create :: "(utime \<Rightarrow> int \<Rightarrow> int) \<Rightarrow> event_pkt \<Rightarrow> xml" where
  "event_pkt_xml_create mktime e = Elem ''P'' [] [Pcdata (c_str (to_string_for_xml mktime e))]"

definition event_pkt_xml_catch_value :: "(int \<Rightarrow> utime \<times> int) \<Rightarrow> string \<Rightarrow> string \<Rightarrow> event_pkt \<Rightarrow> event_pkt option" where
  "event_pkt_xml_catch_value localtime keyname v e =
     (if keyname = ''P'' then map_option snd (from_string_for_xml localtime v e) else Some e)"

definition event_pkt_class :: "(utime \<Rightarrow> int \<Rightarrow> int) \<Rightarrow> (int \<Rightarrow> utime \<times> int) \<Rightarrow> event_pkt event_class" where
  "event_pkt_class mktime localtime = \<lparr>ec_tag = ''P'', ec_id = ep_id, ec_set_id = (\<lambda>i e. e\<lparr>ep_id := i\<rparr>),
     ec_to_string = event_pkt_to_string, ec_xml_create = event_pkt_xml_create mktime,
     ec_xml_catch_value = event_pkt_xml_catch_value localtime, ec_new = event_pkt_clear\<rparr>"

definition event_pkt_ok :: "(utime \<Rightarrow> int \<Rightarrow> int) \<Rightarrow> (int \<Rightarrow> utime \<times> int) \<Rightarrow> event_pkt \<Rightarrow> bool" where
  "event_pkt_ok mktime localtime e \<longleftrightarrow> mac_wf (ep_src_mac e) \<and> mac_wf (ep_dst_mac e)
     \<and> utime_from_time_t localtime (sint (of_int (utime_to_time_t mktime (ep_time e)) :: i64)) = ep_time e"

lemma event_pkt_bare_length:
  "mac_wf (ep_src_mac e) \<Longrightarrow> mac_wf (ep_dst_mac e) \<Longrightarrow> length (event_pkt_bare mktime e) = 56"
  by (simp add: event_pkt_bare_def mac_wf_def MAX_ETHER_LENGTH_def)

lemma event_pkt_bare_fields:
  assumes "mac_wf (ep_src_mac e)" "mac_wf (ep_dst_mac e)"
  shows "bytes_at 0 8 (event_pkt_bare m e) = le_bytes 8 (ep_id e)"
    "bytes_at 8 8 (event_pkt_bare m e) = le_bytes 8 (of_int (utime_to_time_t m (ep_time e)) :: i64)"
    "bytes_at 16 4 (event_pkt_bare m e) = le_bytes 4 (ep_type e)"
    "bytes_at 20 6 (event_pkt_bare m e) = mac_content (ep_src_mac e)"
    "bytes_at 26 6 (event_pkt_bare m e) = mac_content (ep_dst_mac e)"
    "bytes_at 32 4 (event_pkt_bare m e) = le_bytes 4 (m_addr (ep_src_ip4 e))"
    "bytes_at 36 4 (event_pkt_bare m e) = le_bytes 4 (m_addr (ep_dst_ip4 e))"
    "bytes_at 40 4 (event_pkt_bare m e) = le_bytes 4 (ep_filter_id e)"
    "bytes_at 44 4 (event_pkt_bare m e) = le_bytes 4 (ep_rule_number e)"
    "bytes_at 48 2 (event_pkt_bare m e) = le_bytes 2 (ep_src_port e)"
    "bytes_at 50 2 (event_pkt_bare m e) = le_bytes 2 (ep_dst_port e)"
    "bytes_at 52 2 (event_pkt_bare m e) = le_bytes 2 (ep_length e)"
    "bytes_at 54 2 (event_pkt_bare m e) = le_bytes 2 (ucast (ep_proto e) :: u16)"
  using assms by (simp_all add: event_pkt_bare_def mac_wf_def MAX_ETHER_LENGTH_def bytes_at_def)

lemma event_pkt_from_to:
  assumes "event_pkt_ok mktime localtime e"
  shows "from_string_for_xml localtime (to_string_for_xml mktime e) x = Some (True, e)"
proof -
  have wf: "mac_wf (ep_src_mac e)" "mac_wf (ep_dst_mac e)" using assms by (simp_all add: event_pkt_ok_def)
  then have "event_pkt_bare mktime e \<noteq> []" using event_pkt_bare_length [OF wf, of mktime] by (cases "event_pkt_bare mktime e") auto
  then have "b64_decode (to_string_for_xml mktime e) False [] = Some (True, event_pkt_bare mktime e)"
    using b64_decode_encode [of _ "[]"] by (simp add: to_string_for_xml_def b64_encode_text)
  moreover have "ucast (ucast (ep_proto e) :: u16) = ep_proto e"
    by (rule bit_word_eqI) (auto simp: bit_ucast_iff)
  ultimately show ?thesis
    using assms by (simp add: from_string_for_xml_def event_pkt_bare_length [OF wf] event_pkt_bare_fields [OF wf] event_pkt_ok_def)
qed

lemma event_pkt_text:
  assumes "event_pkt_ok mktime localtime e"
  shows "node_text (event_pkt_xml_create mktime e) = to_string_for_xml mktime e" "to_string_for_xml mktime e \<noteq> []"
proof -
  have "event_pkt_bare mktime e \<noteq> []"
    using assms event_pkt_bare_length [of e mktime] by (cases "event_pkt_bare mktime e") (auto simp: event_pkt_ok_def)
  then show "to_string_for_xml mktime e \<noteq> []"
    using b64_text_long [of "event_pkt_bare mktime e"] by (auto simp: to_string_for_xml_def b64_encode_text)
  show "node_text (event_pkt_xml_create mktime e) = to_string_for_xml mktime e"
    by (simp add: event_pkt_xml_create_def node_text_def is_pcdata_def to_string_for_xml_def b64_encode_text
        c_str_text b64_text_plain(1))
qed

interpretation event_pkts: event_element "event_pkt_class mktime localtime" "event_pkt_ok mktime localtime"
  for mktime localtime
proof
  show "node_text (ec_xml_create (event_pkt_class mktime localtime) e) \<noteq> []" if "event_pkt_ok mktime localtime e" for e
    using event_pkt_text [OF that] by (simp add: event_pkt_class_def)
  show "ec_xml_catch_value (event_pkt_class mktime localtime) (ec_tag (event_pkt_class mktime localtime))
      (node_text (ec_xml_create (event_pkt_class mktime localtime) e)) (ec_new (event_pkt_class mktime localtime)) = Some e"
    if "event_pkt_ok mktime localtime e" for e
    using event_pkt_text [OF that] event_pkt_from_to [OF that] by (simp add: event_pkt_class_def event_pkt_xml_catch_value_def)
qed (simp_all add: event_pkt_class_def event_pkt_xml_create_def node_name_def event_pkt_ok_def)

section \<open>Messages that stand for flags\<close>

text \<open>
  \<open>parse_diff_dump\<close> with flags: the \<open>std::map\<close> from texts to event numbers is its ascending list.
  Each arrived message gives its number to the first flag whose text it begins with.
\<close>

fun set_first_flag :: "string \<Rightarrow> u64 \<Rightarrow> (string \<times> u64) list \<Rightarrow> (string \<times> u64) list" where
  "set_first_flag msg i [] = []"
| "set_first_flag msg i ((k, v) # flags) =
     (if take (length k) msg = k then (k, i) # flags else (k, v) # set_first_flag msg i flags)"

definition parse_diff_dump_flags ::
  "event_msg event_class \<Rightarrow> xml \<Rightarrow> (string \<times> u64) list \<Rightarrow> event_msg event_holder
     \<Rightarrow> (event_msg event_holder \<times> (string \<times> u64) list) option"
where
  "parse_diff_dump_flags c dump flags h =
     do { h1 \<leftarrow> parse_diff_dump c dump h;
          if flags = [] then Some (h1, flags)
          else let arrived_msg = fst (safe_copy_container c (eh_next h) False h1)
               in Some (h1, fold (\<lambda>e. set_first_flag (em_message e) (em_id e)) arrived_msg flags) }"

text \<open>The flag a message stands for, and the last of some messages that stands for a flag.\<close>

definition flag_of :: "string list \<Rightarrow> string \<Rightarrow> string option" where
  "flag_of ks msg = find (\<lambda>k. take (length k) msg = k) ks"

definition last_for_flag :: "string list \<Rightarrow> string \<Rightarrow> event_msg list \<Rightarrow> event_msg option" where
  "last_for_flag ks k es = find (\<lambda>e. flag_of ks (em_message e) = Some k) (rev es)"

lemma set_first_flag_keys [simp]: "map fst (set_first_flag m i flags) = map fst flags"
  by (induction m i flags rule: set_first_flag.induct) auto

lemma flag_of_Cons: "flag_of (k # ks) m = (if take (length k) m = k then Some k else flag_of ks m)"
  by (simp add: flag_of_def)

lemma flag_of_mem: "flag_of ks m = Some k \<Longrightarrow> k \<in> set ks"
  by (auto simp: flag_of_def find_Some_iff)

lemma set_first_flag_value:
  "distinct (map fst flags) \<Longrightarrow>
   map_of (set_first_flag m i flags) k = (if flag_of (map fst flags) m = Some k then Some i else map_of flags k)"
proof (induction m i flags rule: set_first_flag.induct)
  case (1 m i)
  then show ?case by (simp add: flag_of_def)
next
  case (2 m i k0 v flags)
  then show ?case using flag_of_mem [of "map fst flags" m k0] by (auto simp: flag_of_Cons)
qed

lemma flags_keys: "map fst (fold (\<lambda>e. set_first_flag (em_message e) (em_id e)) es flags) = map fst flags"
  by (induction es arbitrary: flags) simp_all

lemma flags_value:
  assumes "distinct (map fst flags)"
  shows "map_of (fold (\<lambda>e. set_first_flag (em_message e) (em_id e)) es flags) k =
    (case last_for_flag (map fst flags) k es of None \<Rightarrow> map_of flags k | Some e \<Rightarrow> Some (em_id e))"
proof (induction es rule: rev_induct)
  case (snoc e es)
  let ?fl = "fold (\<lambda>e. set_first_flag (em_message e) (em_id e)) es flags"
  have "distinct (map fst ?fl)" using assms by (simp add: flags_keys)
  then show ?case
    using set_first_flag_value [where flags = ?fl and k = k and m = "em_message e" and i = "em_id e"] snoc by (simp add: flags_keys last_for_flag_def)
qed (simp add: last_for_flag_def)

section \<open>Properties\<close>

text \<open>
  the text of an event. A packet and a message are read back from the text they are written
  as, bars in the message included.
\<close>

theorem event_texts_roundtrip:
  assumes "event_msg_ok lexu lexi isot loc e" and "event_pkt_ok mktime localtime p"
  shows "event_msg_xml_catch_value lexu lexi isot loc k (event_msg_text e) x = Some e
    \<and> from_string_for_xml localtime (to_string_for_xml mktime p) q = Some (True, p)"
  using event_msg_catch [OF assms(1)] event_pkt_from_to [OF assms(2)] by simp

definition ex_lexu :: "string \<Rightarrow> u64 option" where "ex_lexu s = Some (of_nat (atoi s 0))"
definition ex_lexi :: "string \<Rightarrow> i32 option" where "ex_lexi s = Some (parse_signed s)"

lemma ex_lexi_print: "ex_lexi (print_i i) = Some i"
  using parse_out_signed [of i] by (simp add: ex_lexi_def print_i_def out_signed_def)

definition ex_msg :: "u64 \<Rightarrow> string \<Rightarrow> event_msg" where
  "ex_msg i t = event_msg_new\<lparr>em_id := i, em_type := 1, em_message := t\<rparr>"

definition ex_isot :: "string \<Rightarrow> utime option" where "ex_isot s = Some ut_clear"

lemma ex_msg_ok: "CHR 0x00 \<notin> set t \<Longrightarrow> event_msg_ok ex_lexu ex_lexi ex_isot None (ex_msg i t)"
  by (simp add: event_msg_ok_def ex_lexu_def ex_lexi_print atoi_print_u ex_isot_def ex_msg_def event_msg_new_def)

definition ex_pkt :: event_pkt where
  "ex_pkt = event_pkt_clear\<lparr>ep_id := 10, ep_filter_id := - 2, ep_src_port := 9999, ep_length := 1500, ep_proto := 17\<rparr>"

theorem event_texts_roundtrip_witness:
  "event_msg_xml_catch_value ex_lexu ex_lexi ex_isot None ''E'' (event_msg_text (ex_msg 7 ''a|b||'')) event_msg_new = Some (ex_msg 7 ''a|b||'')
   \<and> from_string_for_xml (\<lambda>t. (ut_clear, 0)) (to_string_for_xml (\<lambda>t dst. - 1) ex_pkt) event_pkt_clear = Some (True, ex_pkt)"
proof -
  have "event_pkt_ok (\<lambda>t dst. - 1) (\<lambda>t. (ut_clear, 0)) ex_pkt"
    by (simp add: event_pkt_ok_def ex_pkt_def event_pkt_clear_def mac_wf_def mac_clear_def from_time_t_fields)
  moreover have "event_msg_ok ex_lexu ex_lexi ex_isot None (ex_msg 7 ''a|b||'')" by (rule ex_msg_ok) simp
  ultimately show ?thesis by (intro event_texts_roundtrip)
qed

text \<open>
  flags of a dump. After the dump was parsed, each flag has the number of the last arrived
  message that stands for it; the others keep their number.
\<close>

theorem flags_name_last_arrival:
  assumes "parse_diff_dump_flags c dump flags h = Some (h1, flags1)"
    and "distinct (map fst flags)"
  shows "map_of flags1 k = (case last_for_flag (map fst flags) k (filter (\<lambda>e. ec_id c e \<ge> eh_next h) (eh_events h1)) of
      None \<Rightarrow> map_of flags k | Some e \<Rightarrow> Some (em_id e))"
proof -
  have "fold (\<lambda>e. set_first_flag (em_message e) (em_id e)) es [] = []" for es :: "event_msg list" by (induction es) simp_all
  then have "flags1 = fold (\<lambda>e. set_first_flag (em_message e) (em_id e)) (filter (\<lambda>e. ec_id c e \<ge> eh_next h) (eh_events h1)) flags"
    using assms(1) by (auto simp: parse_diff_dump_flags_def safe_copy_container_def Let_def split: Option.bind_splits if_splits)
  then show ?thesis using flags_value [OF assms(2)] by simp
qed

text \<open>
  an event that cannot be read. A message of fewer than five fields, or a packet of another
  length, becomes an empty event with the next number; the console then asks for the events after
  it and misses the one that has this number.
\<close>

theorem unreadable_event_takes_number:
  assumes "eh_capacity h > 0" and "v \<noteq> []" and "length (split_string False CHR ''|'' v) < 5"
    and "c = event_msg_class lexu lexi isot loc"
  shows "parse_diff_dump c (Elem ''Events'' [] [Elem ''E'' [] [Pcdata v]]) h =
    Some (h\<lparr>eh_next := eh_next h + 1,
      eh_events := lastn (eh_capacity h) (eh_events h @ [event_msg_new\<lparr>em_id := eh_next h\<rparr>])\<rparr>)"
proof -
  have "ec_id c event_msg_new = 0" "ec_new c = event_msg_new" "ec_tag c = ''E''"
    using assms(4) by (simp_all add: event_msg_class_def event_msg_new_def)
  moreover have "ec_xml_catch_value c ''E'' v event_msg_new = Some event_msg_new"
    using assms(3,4) by (simp add: event_msg_class_def event_msg_xml_catch_value_def FIELDS_IN_EVENT_def)
  moreover have "ec_set_id c i event_msg_new = event_msg_new\<lparr>em_id := i\<rparr>" for i
    using assms(4) by (simp add: event_msg_class_def)
  ultimately show ?thesis
    using event_msgs.store_fresh [OF assms(1), of lexu lexi isot loc event_msg_new] assms(2,4)
    by (simp add: parse_diff_dump_def xml_parse_node_def node_children_def eh_xml_def eh_xml_catch_value_def node_name_def
        node_text_def is_pcdata_def)
qed

theorem unreadable_event_takes_number_witness:
  "map_option eh_next (parse_diff_dump (event_msg_class ex_lexu ex_lexi ex_isot None) (Elem ''Events'' [] [Elem ''E'' [] [Pcdata ''7|0'']])
     (event_holder_new 50 0 0)) = Some 1"
  using unreadable_event_takes_number [of "event_holder_new 50 0 0" "''7|0''" _ ex_lexu ex_lexi ex_isot None, OF _ _ _ refl]
  by (simp add: event_holder_new_def split_string_def)

theorem flags_name_last_arrival_witness:
  "map_option snd (parse_diff_dump_flags (event_msg_class ex_lexu ex_lexi ex_isot None)
     (Elem ''Events'' [] (map event_msg_xml_create [ex_msg 3 ''message 4'', ex_msg 4 ''message 4.'']))
     [(''message 3'', 0), (''message 4'', 0)] (event_holder_new 50 0 0)) = Some [(''message 3'', 0), (''message 4'', 4)]"
proof -
  let ?c = "event_msg_class ex_lexu ex_lexi ex_isot None" and ?es = "[ex_msg 3 ''message 4'', ex_msg 4 ''message 4.'']"
  let ?d = "Elem ''Events'' [] (map event_msg_xml_create ?es)" and ?h = "event_holder_new 50 0 0"
  let ?flags = "[(''message 3'', 0::u64), (''message 4'', 0)]"
  have x: "ec_xml_create ?c = event_msg_xml_create" "ec_id ?c = em_id" by (simp_all add: event_msg_class_def)
  have i: "em_id (ex_msg i t) = i" "em_message (ex_msg i t) = t" for i t by (simp_all add: ex_msg_def)
  have "parse_diff_dump ?c ?d ?h = Some (?h\<lparr>eh_next := 5, eh_events := ?es\<rparr>)"
    using event_msgs.parse_dump [of ex_lexu ex_lexi ex_isot None ?es ?h "''Events''"] ex_msg_ok
    by (simp add: x i event_msgs.ascends_def event_holder_new_def lastn_def)
  then obtain h1 fl where p: "parse_diff_dump_flags ?c ?d ?flags ?h = Some (h1, fl)" "h1 = ?h\<lparr>eh_next := 5, eh_events := ?es\<rparr>"
      "map fst fl = map fst ?flags"
    using flags_keys [of ?es ?flags] by (simp add: parse_diff_dump_flags_def safe_copy_container_def x i event_holder_new_def)
  from flags_name_last_arrival [OF p(1), of "''message 3''"] flags_name_last_arrival [OF p(1), of "''message 4''"]
  have "map_of fl ''message 3'' = Some 0" "map_of fl ''message 4'' = Some 4"
    by (simp_all add: p(2) x i event_holder_new_def last_for_flag_def flag_of_def)
  moreover obtain a b where "fl = [(''message 3'', a), (''message 4'', b)]"
    using p(3) by (cases fl; cases "tl fl") auto
  ultimately show ?thesis using p(1) by simp
qed

end
