(* ===== verification/EventNet.thy ===== *)
theory EventNet
  imports EventMsg "HOL-Library.Sublist"
begin

text \<open>
  A server and a console that keep the same events: the console asks for the events from its next
  number on (\<open>get_next_event_id\<close>), the server answers with \<open>make_diff_dump\<close>, the console reads
  the answer with \<open>parse_diff_dump\<close>. Between these steps both sides add, drop and clear events
  as they like. One question is on its way at a time.
\<close>

section \<open>The steps\<close>

datatype ev_link = Idle | Asked u64 | Answered xml

text \<open>\<open>nt_issued\<close> and \<open>nt_seen\<close> record what the server added and what the console received.\<close>

record 'e ev_net =
  nt_server :: "'e event_holder"
  nt_console :: "'e event_holder"
  nt_link :: ev_link
  nt_issued :: "'e list"
  nt_seen :: "'e list"

definition net_new :: "nat \<Rightarrow> nat \<Rightarrow> 'e ev_net" where
  "net_new server_capacity console_capacity = \<lparr>nt_server = event_holder_new server_capacity 0 0,
     nt_console = event_holder_new console_capacity 0 0, nt_link = Idle, nt_issued = [], nt_seen = []\<rparr>"

definition dump_events :: "'e event_class \<Rightarrow> xml \<Rightarrow> 'e list" where
  "dump_events c d = List.map_filter (\<lambda>n. ec_xml_catch_value c (node_name n) (node_text n) (ec_new c)) (node_children d)"

inductive net_step :: "'e event_class \<Rightarrow> ('e \<Rightarrow> bool) \<Rightarrow> 'e ev_net \<Rightarrow> 'e ev_net \<Rightarrow> bool"
  for c ok where
  net_issue: "ok item \<Longrightarrow> ec_id c item = 0 \<Longrightarrow> store_item c item (nt_server n) = Some (e, s) \<Longrightarrow>
     length (nt_issued n) + 1 < 2 ^ 64 \<Longrightarrow>
     net_step c ok n (n\<lparr>nt_server := s, nt_issued := nt_issued n @ [e]\<rparr>)"
| net_server_pop: "pop_front_item (nt_server n) = Some (e, s) \<Longrightarrow> net_step c ok n (n\<lparr>nt_server := s\<rparr>)"
| net_server_truncate: "net_step c ok n (n\<lparr>nt_server := truncate_front k (nt_server n)\<rparr>)"
| net_server_clear: "net_step c ok n (n\<lparr>nt_server := eh_clear (nt_server n)\<rparr>)"
| net_console_pop: "pop_front_item (nt_console n) = Some (e, s) \<Longrightarrow> net_step c ok n (n\<lparr>nt_console := s\<rparr>)"
| net_console_truncate: "net_step c ok n (n\<lparr>nt_console := truncate_front k (nt_console n)\<rparr>)"
| net_console_clear: "net_step c ok n (n\<lparr>nt_console := eh_clear (nt_console n)\<rparr>)"
| net_ask: "nt_link n = Idle \<Longrightarrow> net_step c ok n (n\<lparr>nt_link := Asked (eh_next (nt_console n))\<rparr>)"
| net_answer: "nt_link n = Asked i \<Longrightarrow> net_step c ok n (n\<lparr>nt_link := Answered (make_diff_dump c i (nt_server n))\<rparr>)"
| net_receive: "nt_link n = Answered d \<Longrightarrow> parse_diff_dump c d (nt_console n) = Some h \<Longrightarrow>
     net_step c ok n (n\<lparr>nt_console := h, nt_link := Idle, nt_seen := nt_seen n @ dump_events c d\<rparr>)"

inductive_simps net_step_simps: "net_step c ok n n'"

text \<open>The link goes round: a question, its answer, nothing.\<close>

lemma net_link_round:
  assumes "net_step c ok n n'" and "nt_link n' \<noteq> nt_link n"
  shows "(nt_link n = Idle \<and> (\<exists>i. nt_link n' = Asked i))
     \<or> (\<exists>i. nt_link n = Asked i \<and> n' = n\<lparr>nt_link := Answered (make_diff_dump c i (nt_server n))\<rparr>)
     \<or> (\<exists>d. nt_link n = Answered d \<and> nt_link n' = Idle \<and> nt_seen n' = nt_seen n @ dump_events c d)"
  using assms by (cases rule: net_step.cases) auto

section \<open>The invariant\<close>

lemma subseq_distinct_map: "subseq xs ys \<Longrightarrow> distinct (map f ys) \<Longrightarrow> distinct (map f xs)"
  by (induction rule: list_emb.induct) (auto dest: list_emb_set)

context event_element
begin

lemma dump_events_create:
  "list_all ok es \<Longrightarrow> dump_events c (Elem t [] (map (ec_xml_create c) es)) = es"
  by (induction es) (simp_all add: dump_events_def node_children_def List.map_filter_simps create_name create_catch)

definition numbered :: "'e list \<Rightarrow> bool" where
  "numbered es \<longleftrightarrow> list_all ok es \<and> length es < 2 ^ 64 \<and> (\<forall>i < length es. ec_id c (es ! i) = of_nat i)"

text \<open>
  \<open>ks\<close> events were dropped by the server, the console has reached the number \<open>m\<close>.
\<close>

definition net_at :: "'e ev_net \<Rightarrow> nat \<Rightarrow> nat \<Rightarrow> bool" where
  "net_at n ks m \<longleftrightarrow> numbered (nt_issued n)
     \<and> eh_capacity (nt_server n) > 0 \<and> eh_capacity (nt_console n) > 0
     \<and> eh_next (nt_server n) = of_nat (length (nt_issued n))
     \<and> eh_events (nt_server n) = drop ks (nt_issued n) \<and> ks \<le> length (nt_issued n)
     \<and> eh_next (nt_console n) = of_nat m \<and> m \<le> length (nt_issued n)
     \<and> set (drop ks (take m (nt_issued n))) \<subseteq> set (nt_seen n)
     \<and> subseq (nt_seen n) (take m (nt_issued n))
     \<and> suffix (eh_events (nt_console n)) (nt_seen n)"

definition link_at :: "'e ev_net \<Rightarrow> nat \<Rightarrow> nat \<Rightarrow> bool" where
  "link_at n ks m \<longleftrightarrow> (case nt_link n of Idle \<Rightarrow> True | Asked i \<Rightarrow> i = eh_next (nt_console n)
     | Answered d \<Rightarrow> \<exists>k l. m \<le> k \<and> k \<le> max m ks \<and> k \<le> l \<and> l \<le> length (nt_issued n)
         \<and> d = Elem ''Events'' [] (map (ec_xml_create c) (drop k (take l (nt_issued n)))))"

definition net_inv :: "'e ev_net \<Rightarrow> bool" where "net_inv n \<longleftrightarrow> (\<exists>ks m. net_at n ks m \<and> link_at n ks m)"

lemma numbered_id: "numbered es \<Longrightarrow> i < length es \<Longrightarrow> unat (ec_id c (es ! i)) = i"
  by (simp add: numbered_def unat_of_nat)

lemma numbered_sorted: "numbered es \<Longrightarrow> sorted_wrt (\<lambda>a b. ec_id c a < ec_id c b) es"
  by (auto simp: sorted_wrt_iff_nth_less word_less_nat_alt numbered_id)

lemma numbered_snoc:
  "numbered es \<Longrightarrow> ok e \<Longrightarrow> ec_id c e = of_nat (length es) \<Longrightarrow> Suc (length es) < 2 ^ 64 \<Longrightarrow> numbered (es @ [e])"
  by (auto simp: numbered_def nth_append less_Suc_eq)

lemma numbered_from:
  assumes "numbered es" and "m \<le> length es"
  shows "filter (\<lambda>e. ec_id c e \<ge> of_nat m) (drop ks es) = drop (max m ks) es"
proof -
  have m: "unat (of_nat m :: u64) = m" using assms by (simp add: numbered_def unat_of_nat)
  have "\<forall>e \<in> set (take m es). \<not> ec_id c e \<ge> of_nat m"
    using assms by (auto simp: in_set_conv_nth word_le_nat_alt m numbered_id)
  then have 1: "\<forall>e \<in> set (drop ks (take m es)). \<not> ec_id c e \<ge> of_nat m" by (auto dest: in_set_dropD)
  have "\<forall>e \<in> set (drop m es). ec_id c e \<ge> of_nat m"
    using assms by (auto simp: in_set_conv_nth word_le_nat_alt m numbered_id)
  then have 2: "\<forall>e \<in> set (drop (max m ks) es). ec_id c e \<ge> of_nat m"
    using set_drop_subset_set_drop [of m "max m ks" es] by auto
  have "drop ks (take m es @ drop m es) = drop ks (take m es) @ drop (max m ks) es"
    using assms(2) by (simp only: drop_append) (auto simp: max_def intro!: arg_cong2 [where f = drop])
  then have "drop ks es = drop ks (take m es) @ drop (max m ks) es" by simp
  then show ?thesis using 1 2 by (simp only: filter_append filter_True filter_False append_Nil)
qed

lemma numbered_slice:
  assumes "numbered es" and "m \<le> k" and "l \<le> length es"
  shows "list_all ok (drop k (take l es))" "ascends (of_nat m) (drop k (take l es))"
proof -
  show "list_all ok (drop k (take l es))"
    using assms(1) by (auto simp: numbered_def list_all_iff dest: in_set_dropD in_set_takeD)
  have len: "length es < 2 ^ 64" using assms(1) by (simp add: numbered_def)
  have "of_nat m \<le> ec_id c e \<and> ec_id c e < - 1" if e: "e \<in> set (drop k (take l es))" for e
  proof -
    obtain i where i: "i < length es" "k \<le> i" "e = es ! i"
      using e assms(3) by (auto simp: in_set_conv_nth) (metis add.commute le_add1 less_diff_conv min_def nth_take less_le_trans)
    have "unat (of_nat m :: u64) = m" using i assms(2) len by (simp add: unat_of_nat)
    moreover have "unat (ec_id c e) < 2 ^ 64 - 1" using i len numbered_id [OF assms(1)] by simp
    ultimately show ?thesis
      using i assms(2) numbered_id [OF assms(1), of i] by (simp add: word_le_nat_alt word_less_nat_alt unsigned_minus_1_eq_mask mask_eq_exp_minus_1)
  qed
  moreover have "sorted_wrt (\<lambda>a b. ec_id c a < ec_id c b) (drop k (take l es))"
    using numbered_sorted [OF assms(1)] by (simp add: sorted_wrt_drop sorted_wrt_take)
  ultimately show "ascends (of_nat m) (drop k (take l es))" by (simp add: ascends_def)
qed

lemma net_init: "a > 0 \<Longrightarrow> b > 0 \<Longrightarrow> net_inv (net_new a b)"
  unfolding net_inv_def
  by (rule exI [of _ 0], rule exI [of _ 0]) (simp add: net_at_def link_at_def net_new_def event_holder_new_def numbered_def)

text \<open>The server drops events.\<close>

lemma net_inv_server:
  assumes "net_inv n" and "eh_events s = drop k (eh_events (nt_server n))"
    and "eh_next s = eh_next (nt_server n)" and "eh_capacity s = eh_capacity (nt_server n)"
  shows "net_inv (n\<lparr>nt_server := s\<rparr>)"
proof -
  obtain ks m where inv: "net_at n ks m" "link_at n ks m" using assms(1) by (auto simp: net_inv_def)
  let ?L = "nt_issued n" and ?ks = "min (ks + k) (length (nt_issued n))"
  have "drop (ks + k) xs = drop (min (ks + k) (length xs)) xs" for xs :: "'e list" by (simp add: min_def)
  moreover have "set (drop ?ks (take m ?L)) \<subseteq> set (drop ks (take m ?L))"
    using inv(1) by (intro set_drop_subset_set_drop) (simp add: net_at_def)
  ultimately have "net_at (n\<lparr>nt_server := s\<rparr>) ?ks m"
    using inv(1) assms(2-4) by (auto simp: net_at_def add.commute)
  moreover have "link_at (n\<lparr>nt_server := s\<rparr>) ?ks m"
  proof -
    have "max m ks \<le> max m ?ks" using inv(1) by (auto simp: net_at_def)
    then show ?thesis using inv(2) by (fastforce simp: link_at_def split: ev_link.splits)
  qed
  ultimately show ?thesis by (auto simp: net_inv_def)
qed

text \<open>The console drops events.\<close>

lemma net_inv_console:
  assumes "net_inv n" and "suffix (eh_events s) (eh_events (nt_console n))"
    and "eh_next s = eh_next (nt_console n)" and "eh_capacity s = eh_capacity (nt_console n)"
  shows "net_inv (n\<lparr>nt_console := s\<rparr>)"
proof -
  obtain ks m where "net_at n ks m" "link_at n ks m" using assms(1) by (auto simp: net_inv_def)
  then have "net_at (n\<lparr>nt_console := s\<rparr>) ks m \<and> link_at (n\<lparr>nt_console := s\<rparr>) ks m"
    using assms(2-4) suffix_order.trans [OF assms(2)]
    by (simp add: net_at_def link_at_def split: ev_link.splits)
  then show ?thesis by (auto simp: net_inv_def)
qed

lemma net_inv_issue:
  assumes "net_inv n" and "ok item" and "ec_id c item = 0" and "store_item c item (nt_server n) = Some (e, s)"
    and "length (nt_issued n) + 1 < 2 ^ 64"
  shows "net_inv (n\<lparr>nt_server := s, nt_issued := nt_issued n @ [e]\<rparr>)"
proof -
  obtain ks m where inv: "net_at n ks m" "link_at n ks m" using assms(1) by (auto simp: net_inv_def)
  let ?L = "nt_issued n" and ?cap = "eh_capacity (nt_server n)"
  let ?ks = "max ks (Suc (length ?L) - ?cap)"
  have e: "e = ec_set_id c (of_nat (length ?L)) item"
    and s: "s = (nt_server n)\<lparr>eh_next := of_nat (Suc (length ?L)), eh_events := drop ?ks (?L @ [e])\<rparr>"
    using store_fresh [of "nt_server n" item] assms(3,4) inv(1) lastn_drop [of ?cap ks "?L @ [e]"]
    by (auto simp: net_at_def)
  have L: "numbered (?L @ [e])"
    using inv(1) assms(2,5) by (intro numbered_snoc) (simp_all add: net_at_def e ok_set_id id_set_id)
  have sub: "set (drop ?ks (take m ?L)) \<subseteq> set (drop ks (take m ?L))" by (intro set_drop_subset_set_drop) simp
  have cap: "?cap > 0" "ks \<le> length ?L" "m \<le> length ?L" using inv(1) by (simp_all add: net_at_def)
  then have "?ks \<le> Suc (length ?L)" "take m (?L @ [e]) = take m ?L" by simp_all
  with L sub cap inv(1) have "net_at (n\<lparr>nt_server := s, nt_issued := ?L @ [e]\<rparr>) ?ks m"
    by (simp add: net_at_def s del: drop_append) blast
  moreover have "link_at (n\<lparr>nt_server := s, nt_issued := ?L @ [e]\<rparr>) ?ks m"
  proof (cases "nt_link n")
    case (Answered d)
    then obtain k l where "m \<le> k" "k \<le> max m ks" "k \<le> l" "l \<le> length ?L"
        "d = Elem ''Events'' [] (map (ec_xml_create c) (drop k (take l ?L)))"
      using inv(2) by (auto simp: link_at_def)
    moreover have "k \<le> max m ?ks" using \<open>k \<le> max m ks\<close> by simp
    ultimately have "m \<le> k \<and> k \<le> max m ?ks \<and> k \<le> l \<and> l \<le> length (?L @ [e])
        \<and> d = Elem ''Events'' [] (map (ec_xml_create c) (drop k (take l (?L @ [e]))))" by simp
    then show ?thesis using Answered by (simp add: link_at_def del: drop_append take_append) blast
  qed (use inv(2) in \<open>simp_all add: link_at_def\<close>)
  ultimately show ?thesis by (auto simp: net_inv_def)
qed

text \<open>The answer holds what the server has from the asked number on.\<close>

lemma answer_slice:
  assumes "net_at n ks m" and "nt_link n = Asked i" and "link_at n ks m"
  shows "make_diff_dump c i (nt_server n) = Elem ''Events'' [] (map (ec_xml_create c) (drop (max m ks) (nt_issued n)))"
proof -
  let ?L = "nt_issued n"
  have L: "numbered ?L" "m \<le> length ?L" "eh_events (nt_server n) = drop ks ?L" using assms(1) by (simp_all add: net_at_def)
  have i: "i = of_nat m" using assms by (simp add: link_at_def net_at_def)
  have "events_from c i (drop ks ?L) = filter (\<lambda>e. ec_id c e \<ge> of_nat m) (drop ks ?L)"
    unfolding i using numbered_sorted [OF L(1)] by (intro events_from_filter) (simp add: sorted_wrt_drop)
  also have "\<dots> = drop (max m ks) ?L" using L(1,2) by (rule numbered_from)
  finally show ?thesis using L(3) by (simp add: make_diff_dump_def eh_xml_create_def)
qed

lemma suffix_lastn: "suffix (lastn n xs) xs"
  by (simp add: lastn_def suffix_drop)

lemma receive_slice:
  assumes "net_at n ks m" and "m \<le> k" and "k \<le> l" and "l \<le> length (nt_issued n)"
    and "d = Elem ''Events'' [] (map (ec_xml_create c) (drop k (take l (nt_issued n))))"
  defines "m1 \<equiv> if k < l then l else m"
  shows "dump_events c d = drop k (take l (nt_issued n))"
    "\<exists>h. parse_diff_dump c d (nt_console n) = Some h \<and> eh_next h = of_nat m1 \<and> eh_capacity h = eh_capacity (nt_console n)
       \<and> suffix (eh_events h) (eh_events (nt_console n) @ drop k (take l (nt_issued n)))"
proof -
  let ?es = "drop k (take l (nt_issued n))"
  have n: "numbered (nt_issued n)" "eh_next (nt_console n) = of_nat m" "eh_capacity (nt_console n) > 0"
    using assms(1) by (simp_all add: net_at_def)
  note es = numbered_slice [OF n(1) assms(2,4)]
  show "dump_events c d = ?es" using dump_events_create [OF es(1)] by (simp add: assms(5))
  have "ec_id c (last ?es) + 1 = of_nat l" if "k < l"
  proof -
    have "last ?es = nt_issued n ! (l - 1)" using that assms(4) by (simp add: last_conv_nth)
    moreover have "ec_id c (nt_issued n ! (l - 1)) = of_nat (l - 1)" using n(1) that assms(4) by (simp add: numbered_def)
    ultimately show ?thesis using that by (cases l) simp_all
  qed
  then show "\<exists>h. parse_diff_dump c d (nt_console n) = Some h \<and> eh_next h = of_nat m1 \<and> eh_capacity h = eh_capacity (nt_console n)
       \<and> suffix (eh_events h) (eh_events (nt_console n) @ ?es)"
    using parse_dump [of ?es "nt_console n" "''Events''"] es n assms(3,4)
    by (simp add: assms(5) m1_def suffix_lastn)
qed

lemma net_inv_receive:
  assumes "net_inv n" and "nt_link n = Answered d" and "parse_diff_dump c d (nt_console n) = Some h"
  shows "net_inv (n\<lparr>nt_console := h, nt_link := Idle, nt_seen := nt_seen n @ dump_events c d\<rparr>)"
proof -
  obtain ks m where inv: "net_at n ks m" "link_at n ks m" using assms(1) by (auto simp: net_inv_def)
  then obtain k l where kl: "m \<le> k" "k \<le> max m ks" "k \<le> l" "l \<le> length (nt_issued n)"
      "d = Elem ''Events'' [] (map (ec_xml_create c) (drop k (take l (nt_issued n))))"
    using assms(2) by (auto simp: link_at_def)
  let ?L = "nt_issued n" and ?m = "if k < l then l else m" and ?es = "drop k (take l (nt_issued n))"
  note r = receive_slice [OF inv(1) kl(1,3-5)]
  have h: "eh_next h = of_nat ?m" "eh_capacity h = eh_capacity (nt_console n)" "suffix (eh_events h) (eh_events (nt_console n) @ ?es)"
    using r(2) assms(3) by auto
  have "m \<le> ?m" using kl by simp
  then have "take m (take ?m ?L) = take m ?L" by (simp add: min_absorb1)
  then have "take ?m ?L = take m ?L @ drop m (take ?m ?L)" by (metis append_take_drop_id)
  moreover have "suffix ?es (drop m (take ?m ?L))"
    using kl suffix_drop [of "k - m" "drop m (take l ?L)"] by auto
  then have "subseq ?es (drop m (take ?m ?L))" by (auto simp: suffix_def)
  ultimately have "subseq (nt_seen n @ ?es) (take ?m ?L)"
    using inv(1) by (metis list_emb_append_mono net_at_def)
  moreover have "set (drop ks (take ?m ?L)) \<subseteq> set (nt_seen n @ ?es)"
  proof
    fix e assume "e \<in> set (drop ks (take ?m ?L))"
    then obtain i where i: "ks \<le> i" "i < ?m" "e = ?L ! i"
      using kl inv(1) by (auto simp: in_set_conv_nth net_at_def) (metis add.commute le_add1 less_diff_conv)+
    show "e \<in> set (nt_seen n @ ?es)"
    proof (cases "i < m")
      case True
      then have "e \<in> set (drop ks (take m ?L))"
        using i inv(1) by (auto simp: in_set_conv_nth net_at_def intro!: exI [of _ "i - ks"])
      then show ?thesis using inv(1) by (auto simp: net_at_def)
    next
      case False
      then have "k \<le> i" "i < l" using i kl by (auto split: if_splits)
      then have "e \<in> set ?es" using i kl by (auto simp: in_set_conv_nth intro!: exI [of _ "i - k"])
      then show ?thesis by simp
    qed
  qed
  moreover have "suffix (eh_events h) (nt_seen n @ ?es)"
    using h(3) inv(1) by (meson net_at_def suffix_order.trans same_suffix_suffix)
  moreover have "?m \<le> length ?L" using inv(1) kl(4) by (simp add: net_at_def)
  ultimately have "net_at (n\<lparr>nt_console := h, nt_link := Idle, nt_seen := nt_seen n @ dump_events c d\<rparr>) ks ?m"
    using inv(1) h(1,2) by (simp add: net_at_def r(1) del: drop_take)
  then show ?thesis by (auto simp: net_inv_def link_at_def)
qed

lemma pop_front_events: "pop_front_item h = Some (e, h1) \<Longrightarrow> h1 = h\<lparr>eh_events := drop 1 (eh_events h)\<rparr>"
  by (auto simp: pop_front_item_def split: list.splits)

lemma net_inv_step: "net_step c ok n n' \<Longrightarrow> net_inv n \<Longrightarrow> net_inv n'"
proof (induction rule: net_step.induct)
  case (net_answer n i)
  then obtain ks m where inv: "net_at n ks m" "link_at n ks m" by (auto simp: net_inv_def)
  let ?d = "make_diff_dump c i (nt_server n)"
  have "\<exists>k l. m \<le> k \<and> k \<le> max m ks \<and> k \<le> l \<and> l \<le> length (nt_issued n)
      \<and> ?d = Elem ''Events'' [] (map (ec_xml_create c) (drop k (take l (nt_issued n))))"
    using answer_slice [OF inv(1) net_answer(1) inv(2)] inv(1)
    by (intro exI [of _ "max m ks"] exI [of _ "length (nt_issued n)"]) (simp add: net_at_def)
  then have "link_at (n\<lparr>nt_link := Answered ?d\<rparr>) ks m" by (simp add: link_at_def)
  then show ?case using inv(1) by (auto simp: net_inv_def net_at_def)
next
  case (net_ask n)
  then show ?case by (auto simp: net_inv_def net_at_def link_at_def)
next
  case (net_server_pop n e s)
  then show ?case by (auto dest!: pop_front_events intro: net_inv_server)
next
  case (net_console_pop n e s)
  then show ?case
    using pop_front_events [OF net_console_pop(1)] by (intro net_inv_console) (simp_all add: suffix_drop)
next
  case (net_console_truncate n k)
  then show ?case by (intro net_inv_console) (simp_all add: truncate_front_def drop_while_more_drop suffix_drop)
next
  case (net_server_clear n)
  then show ?case by (intro net_inv_server [where k = "length (eh_events (nt_server n))"]) (simp_all add: eh_clear_def)
qed (auto simp: truncate_front_def drop_while_more_drop eh_clear_def
    intro: net_inv_issue net_inv_receive net_inv_server net_inv_console suffix_drop)

lemma net_inv_reachable:
  assumes "(net_step c ok)\<^sup>*\<^sup>* (net_new a b) n" and "a > 0" and "b > 0"
  shows "net_inv n"
  using assms by (induction rule: rtranclp_induct) (auto intro: net_init net_inv_step)

lemma delivered_once:
  assumes "net_inv n"
  shows "subseq (nt_seen n) (nt_issued n)" "distinct (map (ec_id c) (nt_seen n))" "suffix (eh_events (nt_console n)) (nt_seen n)"
proof -
  obtain ks m where inv: "net_at n ks m" using assms by (auto simp: net_inv_def)
  have "subseq (take m (nt_issued n)) (nt_issued n)" by (simp add: prefix_imp_subseq take_is_prefix)
  then show s: "subseq (nt_seen n) (nt_issued n)"
    using inv by (meson net_at_def subseq_order.trans)
  have "distinct (map (ec_id c) (nt_issued n))"
    using inv numbered_id [of "nt_issued n"] by (auto simp: distinct_conv_nth net_at_def) (metis numbered_id)
  then show "distinct (map (ec_id c) (nt_seen n))"
    by (rule subseq_distinct_map [OF s])
  show "suffix (eh_events (nt_console n)) (nt_seen n)" using inv by (simp add: net_at_def)
qed

end

section \<open>Runs\<close>

text \<open>
  An endless run takes a step of one side, or none, at each moment. It is fair when the link never
  stays as it is for ever: questions are asked, answered and the answers received.
\<close>

definition net_run :: "'e event_class \<Rightarrow> ('e \<Rightarrow> bool) \<Rightarrow> nat \<Rightarrow> nat \<Rightarrow> (nat \<Rightarrow> 'e ev_net) \<Rightarrow> bool" where
  "net_run c ok a b \<sigma> \<longleftrightarrow> \<sigma> 0 = net_new a b \<and> (\<forall>i. \<sigma> (Suc i) = \<sigma> i \<or> net_step c ok (\<sigma> i) (\<sigma> (Suc i)))"

definition link_fair :: "(nat \<Rightarrow> 'e ev_net) \<Rightarrow> bool" where
  "link_fair \<sigma> \<longleftrightarrow> (\<forall>i. \<exists>j \<ge> i. nt_link (\<sigma> (Suc j)) \<noteq> nt_link (\<sigma> j))"

lemma first_change:
  assumes "link_fair \<sigma>"
  obtains j where "j \<ge> i" "nt_link (\<sigma> (Suc j)) \<noteq> nt_link (\<sigma> j)" "nt_link (\<sigma> j) = nt_link (\<sigma> i)"
proof -
  let ?P = "\<lambda>j. j \<ge> i \<and> nt_link (\<sigma> (Suc j)) \<noteq> nt_link (\<sigma> j)"
  define j where "j = (LEAST j. ?P j)"
  have "\<exists>j. ?P j" using assms by (auto simp: link_fair_def)
  then have j: "?P j" unfolding j_def by (rule LeastI_ex)
  have "nt_link (\<sigma> k) = nt_link (\<sigma> i)" if "i \<le> k" "k \<le> j" for k
    using that
  proof (induction k rule: dec_induct)
    case (step k)
    then have "\<not> ?P k" using not_less_Least [of k ?P] by (simp add: j_def)
    then show ?case using step by simp
  qed simp
  then show ?thesis using that j by blast
qed

lemma run_change:
  assumes "net_run c ok a b \<sigma>" and "nt_link (\<sigma> (Suc j)) \<noteq> nt_link (\<sigma> j)"
  shows "(nt_link (\<sigma> j) = Idle \<and> (\<exists>i. nt_link (\<sigma> (Suc j)) = Asked i))
     \<or> (\<exists>i. nt_link (\<sigma> j) = Asked i \<and> \<sigma> (Suc j) = (\<sigma> j)\<lparr>nt_link := Answered (make_diff_dump c i (nt_server (\<sigma> j)))\<rparr>)
     \<or> (\<exists>d. nt_link (\<sigma> j) = Answered d \<and> nt_link (\<sigma> (Suc j)) = Idle \<and> nt_seen (\<sigma> (Suc j)) = nt_seen (\<sigma> j) @ dump_events c d)"
proof -
  have "net_step c ok (\<sigma> j) (\<sigma> (Suc j))" using assms by (metis net_run_def)
  from net_link_round [OF this assms(2)] show ?thesis .
qed

text \<open>Soon the server answers.\<close>

lemma answer_soon:
  assumes run: "net_run c ok a b \<sigma>" and fair: "link_fair \<sigma>"
  shows "\<exists>j x. j \<ge> i \<and> nt_link (\<sigma> j) = Asked x
    \<and> \<sigma> (Suc j) = (\<sigma> j)\<lparr>nt_link := Answered (make_diff_dump c x (nt_server (\<sigma> j)))\<rparr>" (is "\<exists>j x. ?P i j x")
proof -
  have asked: "\<exists>j x. ?P k j x" if "nt_link (\<sigma> k) = Asked x" for k x
    using first_change [OF fair, of k] run_change [OF run] that by (metis ev_link.distinct(1,5))
  have idle: "\<exists>j x. ?P k j x" if idle: "nt_link (\<sigma> k) = Idle" for k
  proof -
    obtain j where j: "j \<ge> k" "nt_link (\<sigma> (Suc j)) \<noteq> nt_link (\<sigma> j)" "nt_link (\<sigma> j) = Idle"
      using first_change [OF fair, of k] idle by metis
    then obtain x where "nt_link (\<sigma> (Suc j)) = Asked x" using run_change [OF run j(2)] by auto
    then obtain j' x' where "?P (Suc j) j' x'" using asked by blast
    then show ?thesis using j(1) by (meson Suc_leD le_trans)
  qed
  show ?thesis
  proof (cases "nt_link (\<sigma> i)")
    case (Answered d)
    then obtain j where j: "j \<ge> i" "nt_link (\<sigma> (Suc j)) \<noteq> nt_link (\<sigma> j)" "nt_link (\<sigma> j) = Answered d"
      using first_change [OF fair, of i] by metis
    then have "nt_link (\<sigma> (Suc j)) = Idle" using run_change [OF run j(2)] by auto
    then obtain j' x' where "?P (Suc j) j' x'" using idle by blast
    then show ?thesis using j(1) by (meson Suc_leD le_trans)
  qed (use asked idle in auto)
qed

context event_element
begin

lemma net_inv_run: "net_run c ok a b \<sigma> \<Longrightarrow> a > 0 \<Longrightarrow> b > 0 \<Longrightarrow> net_inv (\<sigma> i)"
proof (induction i)
  case (Suc i)
  then have "\<sigma> (Suc i) = \<sigma> i \<or> net_step c ok (\<sigma> i) (\<sigma> (Suc i))" by (simp add: net_run_def)
  then show ?case using Suc net_inv_step by auto
qed (simp add: net_run_def net_init)

lemma delivered_eventually:
  assumes run: "net_run c ok a b \<sigma>" and fair: "link_fair \<sigma>" and cap: "a > 0" "b > 0"
    and kept: "\<forall>j \<ge> i. e \<in> set (eh_events (nt_server (\<sigma> j))) \<union> set (nt_seen (\<sigma> j))"
  shows "\<exists>j \<ge> i. e \<in> set (nt_seen (\<sigma> j))"
proof -
  obtain j q where j: "j \<ge> i" "nt_link (\<sigma> j) = Asked q"
      "\<sigma> (Suc j) = (\<sigma> j)\<lparr>nt_link := Answered (make_diff_dump c q (nt_server (\<sigma> j)))\<rparr>"
    using answer_soon [OF run fair, of i] by blast
  obtain ks m where inv: "net_at (\<sigma> j) ks m" "link_at (\<sigma> j) ks m"
    using net_inv_run [OF run cap, of j] unfolding net_inv_def by blast
  let ?L = "nt_issued (\<sigma> j)"
  show ?thesis
  proof (cases "e \<in> set (nt_seen (\<sigma> j))")
    case False
    then have "e \<in> set (drop ks ?L)" using kept j(1) inv(1) by (auto simp: net_at_def)
    moreover have "e \<notin> set (drop ks (take m ?L))" using False inv(1) by (auto simp: net_at_def)
    moreover have "drop ks ?L = drop ks (take m ?L) @ drop (max m ks) ?L"
    proof -
      have "drop ks (take m ?L @ drop m ?L) = drop ks (take m ?L) @ drop (max m ks) ?L"
        using inv(1) by (simp only: drop_append) (auto simp: net_at_def max_def intro!: arg_cong2 [where f = drop])
      then show ?thesis by simp
    qed
    ultimately have e: "e \<in> set (drop (max m ks) ?L)" by simp
    let ?d = "make_diff_dump c q (nt_server (\<sigma> j))"
    have "list_all ok (drop (max m ks) ?L)"
      using inv(1) by (auto simp: net_at_def numbered_def list_all_iff dest: in_set_dropD)
    then have d: "dump_events c ?d = drop (max m ks) ?L"
      using dump_events_create answer_slice [OF inv(1) j(2) inv(2)] by simp
    obtain r where r: "r \<ge> Suc j" "nt_link (\<sigma> (Suc r)) \<noteq> nt_link (\<sigma> r)" "nt_link (\<sigma> r) = nt_link (\<sigma> (Suc j))"
      using first_change [OF fair] by blast
    then have "nt_link (\<sigma> r) = Answered ?d" using j(3) by simp
    then have "nt_seen (\<sigma> (Suc r)) = nt_seen (\<sigma> r) @ dump_events c ?d" using run_change [OF run r(2)] by auto
    then have "e \<in> set (nt_seen (\<sigma> (Suc r)))" using e d by simp
    moreover have "i \<le> Suc r" using j(1) r(1) by simp
    ultimately show ?thesis by blast
  qed (use j(1) in blast)
qed

end

section \<open>An example\<close>

definition ex_c :: "event_msg event_class" where "ex_c = event_msg_class ex_lexu ex_lexi ex_isot None"
definition ex_ok :: "event_msg \<Rightarrow> bool" where "ex_ok = event_msg_ok ex_lexu ex_lexi ex_isot None"
definition ex_event :: event_msg where "ex_event = ex_msg 0 ''hello''"

definition ex_holder :: "event_msg event_holder" where
  "ex_holder = (event_holder_new 2 0 0)\<lparr>eh_next := 1, eh_events := [ex_event]\<rparr>"

text \<open>One event is issued and received; then the console goes on asking.\<close>

definition ex_net :: "nat \<Rightarrow> event_msg ev_net" where
  "ex_net k = \<lparr>nt_server = (if k = 0 then event_holder_new 2 0 0 else ex_holder),
     nt_console = (if k < 4 then event_holder_new 2 0 0 else ex_holder),
     nt_link = [Idle, Idle, Asked 0, Answered (Elem ''Events'' [] [event_msg_xml_create ex_event]), Idle, Asked 1,
       Answered (Elem ''Events'' [] [])] ! k,
     nt_issued = (if k = 0 then [] else [ex_event]), nt_seen = (if k < 4 then [] else [ex_event])\<rparr>"

definition ex_run :: "nat \<Rightarrow> event_msg ev_net" where
  "ex_run i = ex_net (if i < 4 then i else 4 + (i - 4) mod 3)"

lemma ex_c_simps: "ec_id ex_c = em_id" "ec_xml_create ex_c = event_msg_xml_create" "ec_set_id ex_c i e = e\<lparr>em_id := i\<rparr>"
    "em_id ex_event = 0" "ex_event\<lparr>em_id := 0\<rparr> = ex_event" "ex_ok ex_event"
  using ex_msg_ok [of "''hello''" 0]
  by (simp_all add: ex_c_def event_msg_class_def ex_event_def ex_ok_def ex_msg_def)

lemma ex_elem: "event_element ex_c ex_ok"
  unfolding ex_c_def ex_ok_def by (rule event_msgs.event_element_axioms)

lemma ex_dumps:
  "make_diff_dump ex_c 0 ex_holder = Elem ''Events'' [] [event_msg_xml_create ex_event]"
  "make_diff_dump ex_c 1 ex_holder = Elem ''Events'' [] []"
  by (simp_all add: make_diff_dump_def eh_xml_create_def events_from_def ex_holder_def ex_c_simps)

lemma ex_reads:
  "parse_diff_dump ex_c (Elem ''Events'' [] [event_msg_xml_create ex_event]) (event_holder_new 2 0 0) = Some ex_holder"
  "parse_diff_dump ex_c (Elem ''Events'' [] []) ex_holder = Some ex_holder"
  "dump_events ex_c (Elem ''Events'' [] [event_msg_xml_create ex_event]) = [ex_event]"
  "dump_events ex_c (Elem ''Events'' [] []) = []"
proof -
  have "(0::u64) < - 1" by (simp add: word_less_nat_alt unsigned_minus_1_eq_mask mask_eq_exp_minus_1)
  then show "parse_diff_dump ex_c (Elem ''Events'' [] [event_msg_xml_create ex_event]) (event_holder_new 2 0 0) = Some ex_holder"
    using event_element.parse_dump [OF ex_elem, of "[ex_event]" "event_holder_new 2 0 0" "''Events''"]
    by (simp add: ex_c_simps event_element.ascends_def [OF ex_elem] event_holder_new_def ex_holder_def lastn_def)
qed (use event_element.parse_dump [OF ex_elem, of "[]" ex_holder "''Events''"]
    event_element.dump_events_create [OF ex_elem, of "[ex_event]" "''Events''"]
    event_element.dump_events_create [OF ex_elem, of "[]" "''Events''"]
  in \<open>simp_all add: ex_c_simps event_element.ascends_def [OF ex_elem] ex_holder_def event_holder_new_def\<close>)

lemma ex_steps:
  "net_step ex_c ex_ok (ex_net 0) (ex_net 1)" "net_step ex_c ex_ok (ex_net 1) (ex_net 2)"
  "net_step ex_c ex_ok (ex_net 2) (ex_net 3)" "net_step ex_c ex_ok (ex_net 3) (ex_net 4)"
  "net_step ex_c ex_ok (ex_net 4) (ex_net 5)" "net_step ex_c ex_ok (ex_net 5) (ex_net 6)"
  "net_step ex_c ex_ok (ex_net 6) (ex_net 4)"
proof -
  have s: "store_item ex_c ex_event (event_holder_new 2 0 0) = Some (ex_event, ex_holder)"
    using event_element.store_fresh [OF ex_elem, of "event_holder_new 2 0 0" ex_event]
    by (simp add: ex_c_simps ex_holder_def event_holder_new_def lastn_def)
  have "ex_net 1 = (ex_net 0)\<lparr>nt_server := ex_holder, nt_issued := nt_issued (ex_net 0) @ [ex_event]\<rparr>" by (simp add: ex_net_def)
  then show "net_step ex_c ex_ok (ex_net 0) (ex_net 1)"
    using net_issue [of ex_ok ex_event ex_c "ex_net 0" ex_event ex_holder] s ex_c_simps by (simp add: ex_net_def)
  have "ex_net 2 = (ex_net 1)\<lparr>nt_link := Asked (eh_next (nt_console (ex_net 1)))\<rparr>" by (simp add: ex_net_def event_holder_new_def)
  then show "net_step ex_c ex_ok (ex_net 1) (ex_net 2)" using net_ask [of "ex_net 1"] by (simp add: ex_net_def)
  have "ex_net 3 = (ex_net 2)\<lparr>nt_link := Answered (make_diff_dump ex_c 0 (nt_server (ex_net 2)))\<rparr>"
    by (simp add: ex_net_def ex_dumps)
  then show "net_step ex_c ex_ok (ex_net 2) (ex_net 3)" using net_answer [of "ex_net 2" 0] by (simp add: ex_net_def)
  let ?d = "Elem ''Events'' [] [event_msg_xml_create ex_event]"
  have "ex_net 4 = (ex_net 3)\<lparr>nt_console := ex_holder, nt_link := Idle, nt_seen := nt_seen (ex_net 3) @ dump_events ex_c ?d\<rparr>"
    by (simp add: ex_net_def ex_reads)
  then show "net_step ex_c ex_ok (ex_net 3) (ex_net 4)"
    using net_receive [of "ex_net 3" ?d ex_c ex_holder ex_ok] ex_reads(1) by (simp add: ex_net_def)
  have "ex_net 5 = (ex_net 4)\<lparr>nt_link := Asked (eh_next (nt_console (ex_net 4)))\<rparr>" by (simp add: ex_net_def ex_holder_def)
  then show "net_step ex_c ex_ok (ex_net 4) (ex_net 5)" using net_ask [of "ex_net 4"] by (simp add: ex_net_def)
  have "ex_net 6 = (ex_net 5)\<lparr>nt_link := Answered (make_diff_dump ex_c 1 (nt_server (ex_net 5)))\<rparr>"
    by (simp add: ex_net_def ex_dumps)
  then show "net_step ex_c ex_ok (ex_net 5) (ex_net 6)" using net_answer [of "ex_net 5" 1] by (simp add: ex_net_def)
  have "ex_net 4 = (ex_net 6)\<lparr>nt_console := ex_holder, nt_link := Idle, nt_seen := nt_seen (ex_net 6) @ dump_events ex_c (Elem ''Events'' [] [])\<rparr>"
    by (simp add: ex_net_def ex_reads)
  then show "net_step ex_c ex_ok (ex_net 6) (ex_net 4)"
    using net_receive [of "ex_net 6" "Elem ''Events'' [] []" ex_c ex_holder ex_ok] ex_reads(2) by (simp add: ex_net_def)
qed

lemma ex_run_next:
  obtains k where "k \<le> 6" "ex_run i = ex_net k" "ex_run (Suc i) = ex_net (if k = 6 then 4 else Suc k)" "k = 0 \<longleftrightarrow> i = 0"
proof (cases "i < 4")
  case True
  then show ?thesis using that [of i] by (cases "i = 3") (simp_all add: ex_run_def)
next
  case False
  have "(Suc i - 4) mod 3 = (if (i - 4) mod 3 = 2 then 0 else Suc ((i - 4) mod 3))"
  proof -
    have "Suc i - 4 = Suc (i - 4)" using False by linarith
    then show ?thesis by (simp only: mod_Suc) simp
  qed
  moreover have "(i - 4) mod 3 < 3" by simp
  ultimately show ?thesis using that [of "4 + (i - 4) mod 3"] False by (simp add: ex_run_def split: if_splits)
qed

lemma ex_run_steps: "net_step ex_c ex_ok (ex_run i) (ex_run (Suc i))"
proof -
  obtain k where k: "k \<le> 6" "ex_run i = ex_net k" "ex_run (Suc i) = ex_net (if k = 6 then 4 else Suc k)" by (rule ex_run_next)
  then consider "k = 0" | "k = 1" | "k = 2" | "k = 3" | "k = 4" | "k = 5" | "k = 6" by linarith
  then show ?thesis using ex_steps k(2,3) by cases (simp_all add: numeral_eq_Suc)
qed

section \<open>Properties\<close>

text \<open>
  C15: events arrive once. Whatever both sides do between the questions, the console receives a
  subsequence of the events the server issued, unchanged, in their order, none twice, and what it
  keeps is the end of what it received.
\<close>

theorem events_arrive_once:
  assumes "(net_step (event_msg_class lexu lexi isot loc) (event_msg_ok lexu lexi isot loc))\<^sup>*\<^sup>* (net_new a b) n"
    and "a > 0" and "b > 0"
  shows "subseq (nt_seen n) (nt_issued n) \<and> distinct (map em_id (nt_seen n)) \<and> suffix (eh_events (nt_console n)) (nt_seen n)"
  using event_msgs.delivered_once [OF event_msgs.net_inv_reachable [OF assms]] by (simp add: event_msg_class_def)

theorem events_arrive_once_witness:
  "subseq (nt_seen (ex_net 4)) (nt_issued (ex_net 4)) \<and> nt_seen (ex_net 4) = [ex_event]
   \<and> suffix (eh_events (nt_console (ex_net 4))) (nt_seen (ex_net 4))"
proof -
  have "(net_step ex_c ex_ok)\<^sup>*\<^sup>* (net_new 2 2) (ex_net 4)"
    using ex_steps(1-4) by (simp add: net_new_def ex_net_def)
  then show ?thesis
    using events_arrive_once [of ex_lexu ex_lexi ex_isot None 2 2 "ex_net 4"] by (simp add: ex_c_def ex_ok_def ex_net_def)
qed

text \<open>
  C17: retained events arrive. In every fair run, an event the server does not drop before the
  console has received it is received.
\<close>

theorem retained_events_arrive:
  assumes "net_run (event_msg_class lexu lexi isot loc) (event_msg_ok lexu lexi isot loc) a b \<sigma>"
    and "link_fair \<sigma>" and "a > 0" and "b > 0"
    and "\<forall>j \<ge> i. e \<in> set (eh_events (nt_server (\<sigma> j))) \<union> set (nt_seen (\<sigma> j))"
  shows "\<exists>j \<ge> i. e \<in> set (nt_seen (\<sigma> j))"
  using assms by (rule event_msgs.delivered_eventually)

theorem retained_events_arrive_witness: "\<exists>j \<ge> 1. ex_event \<in> set (nt_seen (ex_run j))"
proof -
  have "net_new 2 2 = ex_net 0" by (simp add: net_new_def ex_net_def)
  then have "net_run ex_c ex_ok 2 2 ex_run"
    using ex_run_steps by (simp add: net_run_def) (simp add: ex_run_def)
  moreover have "link_fair ex_run"
    unfolding link_fair_def
  proof
    fix i
    obtain k where k: "k \<le> 6" "ex_run (Suc i) = ex_net k" "ex_run (Suc (Suc i)) = ex_net (if k = 6 then 4 else Suc k)" "k \<noteq> 0"
      by (rule ex_run_next [of "Suc i"]) auto
    then consider "k = 1" | "k = 2" | "k = 3" | "k = 4" | "k = 5" | "k = 6" by linarith
    then have "nt_link (ex_run (Suc (Suc i))) \<noteq> nt_link (ex_run (Suc i))"
      by cases (simp_all add: k(2,3) ex_net_def)
    then show "\<exists>j \<ge> i. nt_link (ex_run (Suc j)) \<noteq> nt_link (ex_run j)" using le_SucI by blast
  qed
  moreover have "\<forall>j \<ge> 1. ex_event \<in> set (eh_events (nt_server (ex_run j))) \<union> set (nt_seen (ex_run j))"
    by (auto simp: ex_run_def ex_net_def ex_holder_def)
  ultimately show ?thesis
    using retained_events_arrive [of ex_lexu ex_lexi ex_isot None 2 2 ex_run 1 ex_event] by (simp add: ex_c_def ex_ok_def)
qed

text \<open>
  an answer read twice. The numbers of arriving events are not compared with those the
  console has: a dump that is read again is kept again.
\<close>

theorem answer_read_twice:
  assumes "c = event_msg_class lexu lexi isot loc" and "list_all (event_msg_ok lexu lexi isot loc) es"
    and "\<forall>e \<in> set es. em_id e \<noteq> 0 \<and> em_id e < eh_next h" and "eh_capacity h \<ge> length (eh_events h) + length es"
    and "es \<noteq> []"
  shows "parse_diff_dump c (Elem ''Events'' [] (map event_msg_xml_create es)) h = Some (h\<lparr>eh_events := eh_events h @ es\<rparr>)"
proof -
  have "eh_capacity h > 0" using assms(4,5) by (cases es) auto
  then show ?thesis
    using event_msgs.parse_again [OF assms(2), of h "''Events''"] assms
    by (simp add: event_msg_class_def lastn_all)
qed

theorem answer_read_twice_witness:
  "let h = (event_holder_new 50 0 0)\<lparr>eh_next := 2, eh_events := [ex_msg 1 ''m'']\<rparr> in
   map_option eh_events (parse_diff_dump (event_msg_class ex_lexu ex_lexi ex_isot None)
     (Elem ''Events'' [] (map event_msg_xml_create [ex_msg 1 ''m''])) h) = Some [ex_msg 1 ''m'', ex_msg 1 ''m'']"
  using answer_read_twice [OF refl, of ex_lexu ex_lexi ex_isot None "[ex_msg 1 ''m'']"
      "(event_holder_new 50 0 0)\<lparr>eh_next := 2, eh_events := [ex_msg 1 ''m'']\<rparr>"] ex_msg_ok [of "''m''" 1]
  by (simp add: ex_msg_def event_holder_new_def Let_def)

end
