(* ===== verification/PktCollector.thy ===== *)
theory PktCollector
  imports IpHeader StdMap "HOL-Library.Product_Lexorder" "HOL-Library.Sublist"
begin

text \<open>
  \<open>corefilters/pktcollector*.{h,cpp}\<close>: the traffic of a filter by connection. A collector is a
  \<open>std::map\<close> from connections to their byte counts, which \<open>flush\<close> hands over for the log. The
  plain collector merges the short-lived ports of clients; the other one is fed with the captured
  bytes and looks for the host name of HTTP requests. Captured bytes are characters.
\<close>

section \<open>Keys\<close>

datatype pktcollector_key = Pktcollector_key (pk_proto: u16) (pk_src_port: u16) (pk_dst_port: u16) (pk_src_addr: u32) (pk_dst_addr: u32)

definition pk_tuple :: "pktcollector_key \<Rightarrow> u16 \<times> u32 \<times> u32 \<times> u16 \<times> u16" where
  "pk_tuple k = (pk_proto k, pk_src_addr k, pk_dst_addr k, pk_src_port k, pk_dst_port k)"

definition key_less :: "pktcollector_key \<Rightarrow> pktcollector_key \<Rightarrow> bool" where
  "key_less a b \<longleftrightarrow> pk_tuple a < pk_tuple b"

instantiation pktcollector_key :: linorder
begin

definition less_pktcollector_key :: "pktcollector_key \<Rightarrow> pktcollector_key \<Rightarrow> bool" where
  "less_pktcollector_key = key_less"

definition less_eq_pktcollector_key :: "pktcollector_key \<Rightarrow> pktcollector_key \<Rightarrow> bool" where
  "less_eq_pktcollector_key a b \<longleftrightarrow> pk_tuple a \<le> pk_tuple b"

instance
proof
  fix a b :: pktcollector_key
  show "a = b" if "a \<le> b" "b \<le> a"
  proof -
    have "pk_tuple a = pk_tuple b" using that unfolding less_eq_pktcollector_key_def by (rule order.antisym)
    then show ?thesis by (simp add: pk_tuple_def pktcollector_key.expand)
  qed
qed (auto simp: less_pktcollector_key_def key_less_def less_eq_pktcollector_key_def)

end

definition MAX_PRIVELEGED_PORT :: u16 where [utm_consts]: "MAX_PRIVELEGED_PORT = 1023"
definition MAX_UNPRIVELEGED_PORT :: u16 where [utm_consts]: "MAX_UNPRIVELEGED_PORT = 65535"
definition MAX_PACKETS :: nat where [utm_consts]: "MAX_PACKETS = 100000"
definition COLLECTOR_FLUSH_TIMEOUT :: u32 where [utm_consts]: "COLLECTOR_FLUSH_TIMEOUT = 600"

definition has_syn :: "ip_header \<Rightarrow> bool" where
  "has_syn h \<longleftrightarrow> ih_proto h = 6 \<and> ih_flags h AND 0x0012 = 0x0002"

text \<open>The ports by which a packet is counted: source and destination.\<close>

definition collector_ports :: "ip_header \<Rightarrow> bool \<Rightarrow> bool \<Rightarrow> u16 \<times> u16" where
  "collector_ports h outgoing raw =
     (if raw then (ih_src_port h, ih_dst_port h)
      else
        let (src, dst) =
          (if ih_proto h = 6 \<or> ih_proto h = 17 then
             (if ih_src_port h \<le> MAX_PRIVELEGED_PORT \<and> ih_dst_port h > MAX_PRIVELEGED_PORT
              then (ih_src_port h, MAX_UNPRIVELEGED_PORT)
              else if ih_src_port h > MAX_PRIVELEGED_PORT \<and> ih_dst_port h \<le> MAX_PRIVELEGED_PORT
              then (MAX_UNPRIVELEGED_PORT, ih_dst_port h)
              else (ih_src_port h, ih_dst_port h))
           else (ih_src_port h, ih_dst_port h))
        in if has_syn h then (if outgoing then (MAX_UNPRIVELEGED_PORT, dst) else (src, MAX_UNPRIVELEGED_PORT))
           else (src, dst))"

definition collector_key :: "ip_header \<Rightarrow> bool \<Rightarrow> bool \<Rightarrow> pktcollector_key" where
  "collector_key h outgoing raw =
     (let (src_port, dst_port) = collector_ports h outgoing raw;
          src = m_addr (ih_src_ip_addr h); dst = m_addr (ih_dst_ip_addr h) in
      if outgoing then Pktcollector_key (ih_proto h) src_port dst_port src dst
      else Pktcollector_key (ih_proto h) dst_port src_port dst src)"

section \<open>Values\<close>

record pktcollector_value =
  pv_sent_fixed :: u64
  pv_recv_fixed :: u64
  pv_sent_flush :: u64
  pv_recv_flush :: u64
  pv_last_update :: int
  pv_flags :: u32

definition pktcollector_value_new :: pktcollector_value where
  "pktcollector_value_new = \<lparr>pv_sent_fixed = 0, pv_recv_fixed = 0, pv_sent_flush = 0, pv_recv_flush = 0,
     pv_last_update = 0, pv_flags = 0\<rparr>"

record pktcollector_value_ex = pktcollector_value +
  pvx_sent_packets :: u32
  pvx_recv_packets :: u32
  pvx_request_type :: i32
  pvx_end_type :: i32
  pvx_method :: i32
  pvx_raw :: string
  pvx_hostname :: string

definition HTTP_FLAG :: u32 where [utm_consts]: "HTTP_FLAG = 1"
definition FIRST_PACKET_DIRECTION_BIT :: u32 where [utm_consts]: "FIRST_PACKET_DIRECTION_BIT = 2"
definition IS_HTTP_REQUEST :: u32 where [utm_consts]: "IS_HTTP_REQUEST = 8"
definition IS_HTTP_REQUEST_FINISH :: u32 where [utm_consts]: "IS_HTTP_REQUEST_FINISH = 16"
definition TCP_FLAG_FIN :: u32 where [utm_consts]: "TCP_FLAG_FIN = 32"

definition pktcollector_value_ex_new :: pktcollector_value_ex where
  "pktcollector_value_ex_new = \<lparr>pv_sent_fixed = 0, pv_recv_fixed = 0, pv_sent_flush = 0, pv_recv_flush = 0,
     pv_last_update = 0, pv_flags = HTTP_FLAG, pvx_sent_packets = 0, pvx_recv_packets = 0, pvx_request_type = 11,
     pvx_end_type = 1, pvx_method = 0, pvx_raw = [], pvx_hostname = []\<rparr>"

definition get_methodname :: "pktcollector_value_ex \<Rightarrow> string" where
  "get_methodname v = (if pvx_method v = 1 then ''GET'' else if pvx_method v = 2 then ''POST''
     else if pvx_method v = 3 then ''HEAD'' else if pvx_method v = 4 then ''PUT''
     else if pvx_method v = 5 then ''OPTIONS'' else ''UNKNOWN'')"

definition set_flag :: "u32 \<Rightarrow> pktcollector_value_ex \<Rightarrow> pktcollector_value_ex" where
  "set_flag b v = v\<lparr>pv_flags := pv_flags v OR b\<rparr>"

definition flag_on :: "u32 \<Rightarrow> pktcollector_value_ex \<Rightarrow> bool" where
  "flag_on b v \<longleftrightarrow> pv_flags v AND b = b"

subsection \<open>Requests in the captured bytes\<close>

definition CRLF :: string where "CRLF = [CHR 0x0D, CHR 0x0A]"

text \<open>The method a request begins with; \<open>None\<close> where there is none.\<close>

definition is_http_request_begin :: "string \<Rightarrow> i32 option" where
  "is_http_request_begin raw =
     (if length raw < 8 then None
      else if take 4 raw = ''GET '' then Some 1
      else if take 5 raw = ''POST '' then Some 2
      else if take 4 raw = ''PUT '' then Some 4
      else if take 5 raw = ''HEAD '' then Some 3
      else None)"

fun lookup_http_request_end :: "nat \<Rightarrow> string \<Rightarrow> nat option" where
  "lookup_http_request_end r (c # cs) =
     (if length cs < 3 then None
      else if take 4 (c # cs) = CRLF @ CRLF then Some (r + 3)
      else lookup_http_request_end (Suc r) cs)"
| "lookup_http_request_end r [] = None"

text \<open>
  \<open>lookup_hostname\<close>: the loop over the positions with more than eight characters left; first it
  looks for the host line, then for the end of it, starting at the same place.
\<close>

fun host_end :: "string \<Rightarrow> nat \<Rightarrow> nat option" where
  "host_end (c # cs) n =
     (if length cs < 8 then None
      else if take 2 (c # cs) = CRLF then Some n
      else host_end cs (Suc n))"
| "host_end [] n = None"

definition HOST_LINE :: string where "HOST_LINE = CRLF @ ''Host: ''"

fun lookup_host :: "string \<Rightarrow> string option" where
  "lookup_host (c # cs) =
     (if length cs < 8 then None
      else if take 8 (c # cs) = HOST_LINE
      then (case host_end (drop 7 cs) 0 of None \<Rightarrow> None | Some n \<Rightarrow> if n > 0 then Some (take n (drop 7 cs)) else None)
      else lookup_host cs)"
| "lookup_host [] = None"

definition lookup_hostname :: "pktcollector_value_ex \<Rightarrow> pktcollector_value_ex" where
  "lookup_hostname v = (case lookup_host (pvx_raw v) of None \<Rightarrow> v | Some h \<Rightarrow> v\<lparr>pvx_hostname := h\<rparr>)"

text \<open>\<open>first_http_header_packet\<close>: the last character of the header is not kept.\<close>

definition first_http_header_packet :: "string \<Rightarrow> pktcollector_value_ex \<Rightarrow> pktcollector_value_ex" where
  "first_http_header_packet rawdata v =
     (case is_http_request_begin rawdata of
        None \<Rightarrow> v
      | Some m \<Rightarrow>
          let v1 = set_flag IS_HTTP_REQUEST (v\<lparr>pvx_method := m\<rparr>) in
          (case lookup_http_request_end 0 rawdata of
             None \<Rightarrow> v1\<lparr>pvx_raw := rawdata\<rparr>
           | Some endpos \<Rightarrow> lookup_hostname (set_flag IS_HTTP_REQUEST_FINISH (v1\<lparr>pvx_raw := take endpos rawdata\<rparr>))))"

text \<open>The loop of \<open>next_http_header_packet\<close>; it reads the last four characters kept so far.\<close>

fun next_header_loop :: "string \<Rightarrow> pktcollector_value_ex \<Rightarrow> pktcollector_value_ex option" where
  "next_header_loop [] v = Some v"
| "next_header_loop (c # cs) v =
     (let v1 = v\<lparr>pvx_raw := pvx_raw v @ [c]\<rparr>; sz = length (pvx_raw v1) in
      if c \<in> set CRLF then
        (if sz < 4 then None
         else if drop (sz - 4) (pvx_raw v1) = CRLF @ CRLF then Some (lookup_hostname (set_flag IS_HTTP_REQUEST_FINISH v1))
         else next_header_loop cs v1)
      else next_header_loop cs v1)"

definition next_http_header_packet :: "string \<Rightarrow> pktcollector_value_ex \<Rightarrow> pktcollector_value_ex option" where
  "next_http_header_packet rawdata v =
     (if length (pvx_raw v) \<ge> 8192 then Some v else next_header_loop rawdata v)"

text \<open>\<open>process_raw_data\<close>: the side whose packet came first sends the request, in its third packet on.\<close>

definition request_packet :: "u32 \<Rightarrow> string \<Rightarrow> pktcollector_value_ex \<Rightarrow> (bool \<times> pktcollector_value_ex) option" where
  "request_packet packets rawdata v =
     (if packets = 3 then
        let v1 = first_http_header_packet rawdata v in Some (flag_on IS_HTTP_REQUEST v1, v1)
      else if packets > 3 then
        (if flag_on IS_HTTP_REQUEST v \<and> pv_flags v AND IS_HTTP_REQUEST_FINISH = 0
         then map_option (Pair True) (next_http_header_packet rawdata v) else Some (False, v))
      else Some (True, v))"

definition process_raw_data :: "ip_header \<Rightarrow> bool \<Rightarrow> string \<Rightarrow> pktcollector_value_ex \<Rightarrow> (bool \<times> pktcollector_value_ex) option" where
  "process_raw_data h outgoing rawdata v =
     (let v0 = (if ih_flags h AND 0x0001 \<noteq> 0 then set_flag TCP_FLAG_FIN v else v) in
      if outgoing then
        let v1 = v0\<lparr>pvx_sent_packets := pvx_sent_packets v0 + 1\<rparr> in
        if pv_flags v1 AND FIRST_PACKET_DIRECTION_BIT = 0 then request_packet (pvx_sent_packets v1) rawdata v1
        else Some (True, v1)
      else
        let v1 = (if pvx_sent_packets v0 = 0 \<and> pvx_recv_packets v0 = 0 then set_flag FIRST_PACKET_DIRECTION_BIT v0 else v0);
            v2 = v1\<lparr>pvx_recv_packets := pvx_recv_packets v1 + 1\<rparr> in
        if flag_on FIRST_PACKET_DIRECTION_BIT v2 then request_packet (pvx_recv_packets v2) rawdata v2
        else Some (True, v2))"

section \<open>The collector\<close>

text \<open>What differs between the two collectors: a new value and what is done with captured bytes.\<close>

record 'v pc_class =
  pcc_new :: 'v
  pcc_process :: "ip_header \<Rightarrow> bool \<Rightarrow> string \<Rightarrow> 'v \<Rightarrow> 'v option"

definition pktcollector_e_class :: "pktcollector_value pc_class" where
  "pktcollector_e_class = \<lparr>pcc_new = pktcollector_value_new, pcc_process = (\<lambda>h out raw v. None)\<rparr>"

definition pktcollector_ex_class :: "pktcollector_value_ex pc_class" where
  "pktcollector_ex_class = \<lparr>pcc_new = pktcollector_value_ex_new,
     pcc_process = (\<lambda>h out raw v. map_option snd (process_raw_data h out raw v))\<rparr>"

text \<open>The plain collector has no place for requests: captured bytes would be written past its values.\<close>

definition count_value :: "bool \<Rightarrow> u32 \<Rightarrow> u32 \<Rightarrow> 'a pktcollector_value_scheme \<Rightarrow> 'a pktcollector_value_scheme" where
  "count_value outgoing now len v =
     (let v1 = v\<lparr>pv_last_update := uint now\<rparr> in
      if outgoing then v1\<lparr>pv_sent_fixed := pv_sent_fixed v1 + ucast len, pv_sent_flush := pv_sent_flush v1 + ucast len\<rparr>
      else v1\<lparr>pv_recv_fixed := pv_recv_fixed v1 + ucast len, pv_recv_flush := pv_recv_flush v1 + ucast len\<rparr>)"

definition pc_put_packet ::
  "'a pktcollector_value_scheme pc_class \<Rightarrow> ip_header \<Rightarrow> bool \<Rightarrow> u32 \<Rightarrow> string option
     \<Rightarrow> (pktcollector_key, 'a pktcollector_value_scheme) std_map
     \<Rightarrow> (pktcollector_key, 'a pktcollector_value_scheme) std_map option"
where
  "pc_put_packet c h outgoing now rawdata data =
     (let key = collector_key h outgoing (rawdata \<noteq> None);
          count = (\<lambda>v. case rawdata of
                     None \<Rightarrow> Some (count_value outgoing now (ih_length h) v)
                   | Some raw \<Rightarrow> pcc_process c h outgoing raw (count_value outgoing now (ih_length h) v)) in
      case sm_find key data of
        None \<Rightarrow>
          (if length data < MAX_PACKETS \<and> (rawdata = None \<or> has_syn h)
           then map_option (\<lambda>v. sm_insert key v data) (count (pcc_new c))
           else Some data)
      | Some v \<Rightarrow> map_option (\<lambda>v1. sm_set key v1 data) (count v))"

definition http_closed :: "'a pktcollector_value_scheme \<Rightarrow> bool" where
  "http_closed v \<longleftrightarrow> pv_flags v AND TCP_FLAG_FIN = TCP_FLAG_FIN"

definition must_flush :: "'a pktcollector_value_scheme \<Rightarrow> bool" where
  "must_flush v \<longleftrightarrow> pv_flags v = 0 \<and> (pv_recv_flush v > 0 \<or> pv_sent_flush v > 0) \<or> http_closed v"

text \<open>The loop of \<open>flush_action\<close>: what it hands over and what stays in the map.\<close>

fun flush_loop ::
  "int \<Rightarrow> (pktcollector_key, 'a pktcollector_value_scheme) std_map
     \<Rightarrow> (pktcollector_key \<times> 'a pktcollector_value_scheme) list \<times> (pktcollector_key, 'a pktcollector_value_scheme) std_map"
where
  "flush_loop threshold [] = ([], [])"
| "flush_loop threshold ((k, v) # data) =
     (let (fc, rest) = flush_loop threshold data;
          v1 = (if must_flush v then v\<lparr>pv_sent_flush := 0, pv_recv_flush := 0\<rparr> else v) in
      ((if must_flush v then (k, v) # fc else fc),
       (if pv_last_update v1 < threshold \<or> http_closed v then rest else (k, v1) # rest)))"

definition pc_flush ::
  "u32 \<Rightarrow> (pktcollector_key, 'a pktcollector_value_scheme) std_map
     \<Rightarrow> (pktcollector_key \<times> 'a pktcollector_value_scheme) list \<times> (pktcollector_key, 'a pktcollector_value_scheme) std_map"
where
  "pc_flush now data = flush_loop (uint (if now < COLLECTOR_FLUSH_TIMEOUT then 0 else now - COLLECTOR_FLUSH_TIMEOUT)) data"

section \<open>Connections\<close>

lemma collector_key_reply:
  assumes "\<not> has_syn h" and "\<not> has_syn r" and "ih_proto r = ih_proto h"
    and "ih_src_port r = ih_dst_port h" and "ih_dst_port r = ih_src_port h"
    and "ih_src_ip_addr r = ih_dst_ip_addr h" and "ih_dst_ip_addr r = ih_src_ip_addr h"
  shows "collector_key r (\<not> outgoing) raw = collector_key h outgoing raw"
  using assms by (auto simp: collector_key_def collector_ports_def Let_def)

section \<open>Host names\<close>

lemma host_end_line:
  "CHR 0x0D \<notin> set host \<Longrightarrow> host_end (host @ CRLF @ rest) n = (if 7 \<le> length rest then Some (n + length host) else None)"
proof (induction host arbitrary: n)
  case Nil
  then show ?case by (cases rest) (auto simp: CRLF_def)
next
  case (Cons c host)
  have "take 2 (c # host @ CRLF @ rest) \<noteq> CRLF" using Cons.prems by (cases host) (auto simp: CRLF_def)
  moreover have "host @ CRLF @ rest = host @ CRLF @ rest \<and> host_end (host @ CRLF @ rest) n = None"
    if "length (host @ CRLF @ rest) < 8" for n
    using that Cons.IH [of n] Cons.prems by (simp add: CRLF_def)
  ultimately show ?case using Cons by (auto simp: CRLF_def)
qed

lemma lookup_host_skip:
  "\<forall>i < length pre. take 8 (drop i (pre @ HOST_LINE @ t)) \<noteq> HOST_LINE \<Longrightarrow> lookup_host (pre @ HOST_LINE @ t) = lookup_host (HOST_LINE @ t)"
proof (induction pre)
  case (Cons c pre)
  have "length (pre @ HOST_LINE @ t) \<ge> 8" by (simp add: HOST_LINE_def CRLF_def)
  moreover have "take 8 (c # pre @ HOST_LINE @ t) \<noteq> HOST_LINE" using Cons.prems by force
  moreover have "\<forall>i < length pre. take 8 (drop i (pre @ HOST_LINE @ t)) \<noteq> HOST_LINE" using Cons.prems by force
  ultimately show ?case using Cons.IH by simp
qed simp

lemma lookup_host_at:
  "x \<noteq> [] \<Longrightarrow> lookup_host (HOST_LINE @ x) =
     (case host_end x 0 of None \<Rightarrow> None | Some n \<Rightarrow> if n > 0 then Some (take n x) else None)"
proof -
  assume x: "x \<noteq> []"
  obtain t where h: "HOST_LINE = CHR 0x0D # t" "length t = 7" by (simp add: HOST_LINE_def CRLF_def)
  then have d: "drop 7 (t @ x) = x" "\<not> length (t @ x) < 8" "take 8 (CHR 0x0D # t @ x) = HOST_LINE"
    using x by (simp_all add: take_Cons' Suc_le_eq)
  have "lookup_host (HOST_LINE @ x) = lookup_host (CHR 0x0D # t @ x)" by (simp only: h(1) append_Cons)
  also have "\<dots> = (case host_end x 0 of None \<Rightarrow> None | Some n \<Rightarrow> if n > 0 then Some (take n x) else None)"
    by (simp only: lookup_host.simps d if_True if_False simp_thms)
  finally show ?thesis .
qed

lemma lookup_host_line:
  assumes "CHR 0x0D \<notin> set host"
  shows "lookup_host (HOST_LINE @ host @ CRLF @ rest) = (if 7 \<le> length rest \<and> host \<noteq> [] then Some host else None)"
  using lookup_host_at [of "host @ CRLF @ rest"] host_end_line [OF assms, of rest 0] by (simp add: CRLF_def)

lemma no_host_line_before:
  assumes "CHR 0x0D \<notin> set pre" shows "\<forall>i < length pre. take 8 (drop i (pre @ t)) \<noteq> HOST_LINE"
proof (intro allI impI notI)
  fix i assume i: "i < length pre" and "take 8 (drop i (pre @ t)) = HOST_LINE"
  then have "take 8 (drop i (pre @ t)) ! 0 = CHR 0x0D" by (simp add: HOST_LINE_def CRLF_def)
  then have "pre ! i = CHR 0x0D" using i by (simp add: nth_append)
  then show False using i assms by (metis nth_mem)
qed

section \<open>Bytes\<close>

definition sum_values :: "('v \<Rightarrow> u64) \<Rightarrow> ('k, 'v) std_map \<Rightarrow> u64" where
  "sum_values f data = sum_list (map (f \<circ> snd) data)"

lemma sum_insert: "sm_find k m = None \<Longrightarrow> sum_values f (sm_insert k v m) = f v + sum_values f m"
  by (induction k v m rule: sm_insert.induct) (auto simp: sum_values_def sm_find_def split: if_splits)

lemma sum_set:
  "sm_wf m \<Longrightarrow> sm_find k m = Some v \<Longrightarrow> sum_values f (sm_set k v1 m) = sum_values f m - f v + f v1"
proof (induction k v1 m rule: sm_set.induct)
  case (2 k v1 a b m)
  have "k < a \<Longrightarrow> map_of m k = None"
    using 2(2) by (auto simp: sm_wf_def map_of_eq_None_iff)
  then show ?case using 2 by (auto simp: sum_values_def sm_find_def sm_wf_def algebra_simps split: if_splits)
qed (simp add: sm_find_def)

text \<open>The plain collector never marks a connection as closed.\<close>

definition pc_inv :: "nat \<Rightarrow> (pktcollector_key, pktcollector_value) std_map \<Rightarrow> bool" where
  "pc_inv n data \<longleftrightarrow> sm_wf data \<and> length data \<le> n \<and> (\<forall>(k, v) \<in> set data. pv_flags v = 0)"

datatype pc_op = PcPut ip_header bool u32 | PcFlush u32

fun run_collector ::
  "pc_op list \<Rightarrow> (pktcollector_key, pktcollector_value) std_map
     \<Rightarrow> ((pktcollector_key \<times> pktcollector_value) list \<times> (pktcollector_key, pktcollector_value) std_map) option"
where
  "run_collector [] data = Some ([], data)"
| "run_collector (PcPut h outgoing now # ops) data =
     do { d \<leftarrow> pc_put_packet pktcollector_e_class h outgoing now None data; run_collector ops d }"
| "run_collector (PcFlush now # ops) data =
     (case pc_flush now data of (fc, d) \<Rightarrow> map_option (\<lambda>(fcs, d'). (fc @ fcs, d')) (run_collector ops d))"

definition bytes_of :: "bool \<Rightarrow> pc_op list \<Rightarrow> u64" where
  "bytes_of outgoing ops = sum_list (map (\<lambda>p. case p of PcPut h o' now \<Rightarrow> if o' = outgoing then ucast (ih_length h) else 0
     | PcFlush now \<Rightarrow> 0) ops)"

definition flush_field :: "bool \<Rightarrow> pktcollector_value \<Rightarrow> u64" where
  "flush_field outgoing v = (if outgoing then pv_sent_flush v else pv_recv_flush v)"

lemma flush_count: "flush_field d (count_value outgoing now len v) = flush_field d v + (if outgoing = d then ucast len else 0)"
  by (simp add: flush_field_def count_value_def Let_def)

lemma flush_loop_sum:
  "\<forall>(k, v) \<in> set data. pv_flags v = 0 \<Longrightarrow> flush_loop t data = (fc, rest) \<Longrightarrow>
   sum_values (flush_field d) fc + sum_values (flush_field d) rest = sum_values (flush_field d) data"
proof (induction data arbitrary: fc rest)
  case (Cons p data)
  obtain k v where p: "p = (k, v)" by (cases p)
  obtain fc1 rest1 where f: "flush_loop t data = (fc1, rest1)" by (cases "flush_loop t data")
  have "\<not> http_closed v" using Cons.prems(1) by (simp add: p http_closed_def TCP_FLAG_FIN_def)
  moreover have "\<not> must_flush v \<Longrightarrow> flush_field d v = 0"
    using Cons.prems(1) by (simp add: p must_flush_def flush_field_def word_gt_0)
  moreover have "http_closed (v\<lparr>pv_sent_flush := 0, pv_recv_flush := 0\<rparr>) = http_closed v" by (simp add: http_closed_def)
  moreover have "flush_field d (v\<lparr>pv_sent_flush := 0, pv_recv_flush := 0\<rparr>) = 0" by (simp add: flush_field_def)
  ultimately show ?case
    using Cons.prems Cons.IH [OF _ f] by (auto simp: p f sum_values_def Let_def split: if_splits)
qed (simp add: sum_values_def)

lemma flush_loop_keys: "flush_loop t data = (fc, rest) \<Longrightarrow> subseq (map fst rest) (map fst data)"
  by (induction data arbitrary: fc rest) (fastforce simp: Let_def split: prod.splits if_splits)+

lemma flush_loop_flags:
  "flush_loop t data = (fc, rest) \<Longrightarrow> \<forall>(k, v) \<in> set data. pv_flags v = 0 \<Longrightarrow> \<forall>(k, v) \<in> set rest. pv_flags v = 0"
  by (induction data arbitrary: fc rest) (fastforce simp: Let_def split: prod.splits if_splits)+

lemma sm_set_entries: "set (sm_set k v m) \<subseteq> insert (k, v) (set m)"
  by (induction k v m rule: sm_set.induct) auto

lemma sm_insert_entries: "set (sm_insert k v m) \<subseteq> insert (k, v) (set m)"
  by (induction k v m rule: sm_insert.induct) auto

lemma sm_insert_length: "length (sm_insert k v m) \<le> Suc (length m)"
  by (induction k v m rule: sm_insert.induct) auto

lemma sm_set_length: "sm_wf m \<Longrightarrow> sm_find k m = Some x \<Longrightarrow> length (sm_set k v m) = length m"
proof (induction k v m rule: sm_set.induct)
  case (2 k v a b m)
  have "k < a \<Longrightarrow> map_of m k = None" using 2(2) by (auto simp: sm_wf_def map_of_eq_None_iff)
  then show ?case using 2 by (auto simp: sm_find_def sm_wf_def split: if_splits)
qed (simp add: sm_find_def)

lemma sm_find_entry: "sm_find k m = Some v \<Longrightarrow> (k, v) \<in> set m"
  by (simp add: sm_find_def map_of_SomeD)

text \<open>A full map turns away the packets of connections it does not hold; what a run turns away.\<close>

definition turned_away :: "ip_header \<Rightarrow> bool \<Rightarrow> (pktcollector_key, pktcollector_value) std_map \<Rightarrow> bool" where
  "turned_away h outgoing data \<longleftrightarrow> sm_find (collector_key h outgoing False) data = None \<and> MAX_PACKETS \<le> length data"

fun bytes_turned_away :: "bool \<Rightarrow> pc_op list \<Rightarrow> (pktcollector_key, pktcollector_value) std_map \<Rightarrow> u64" where
  "bytes_turned_away dir [] data = 0"
| "bytes_turned_away dir (PcPut h outgoing now # ops) data =
     (if outgoing = dir \<and> turned_away h outgoing data then ucast (ih_length h) else 0)
     + (case pc_put_packet pktcollector_e_class h outgoing now None data of None \<Rightarrow> 0 | Some d \<Rightarrow> bytes_turned_away dir ops d)"
| "bytes_turned_away dir (PcFlush now # ops) data = bytes_turned_away dir ops (snd (pc_flush now data))"

lemma put_packet_step:
  assumes "pc_inv n data"
  obtains d where "pc_put_packet pktcollector_e_class h outgoing now None data = Some d" "pc_inv (Suc n) d"
    "length data \<le> MAX_PACKETS \<Longrightarrow> length d \<le> MAX_PACKETS"
    "\<And>dir. sum_values (flush_field dir) d = sum_values (flush_field dir) data
       + (if outgoing = dir \<and> \<not> turned_away h outgoing data then ucast (ih_length h) else 0)"
proof -
  let ?k = "collector_key h outgoing False" and ?c = "count_value outgoing now (ih_length h)"
  have wf: "sm_wf data" "length data \<le> n" "\<forall>(k, v) \<in> set data. pv_flags v = 0" using assms by (simp_all add: pc_inv_def)
  have fl: "pv_flags (?c v) = pv_flags v" for v :: pktcollector_value by (simp add: count_value_def Let_def)
  consider (away) "turned_away h outgoing data" | (new) "sm_find ?k data = None" "length data < MAX_PACKETS"
    | (known) v where "sm_find ?k data = Some v" unfolding turned_away_def by (meson not_le option.exhaust)
  then show ?thesis
  proof cases
    case away
    then have "pc_put_packet pktcollector_e_class h outgoing now None data = Some data"
      by (simp add: pc_put_packet_def turned_away_def Let_def)
    moreover have "pc_inv (Suc n) data" using wf by (simp add: pc_inv_def)
    ultimately show ?thesis using that away by simp
  next
    case new
    let ?v = "?c pktcollector_value_new"
    have "pc_put_packet pktcollector_e_class h outgoing now None data = Some (sm_insert ?k ?v data)"
      using new by (simp add: pc_put_packet_def pktcollector_e_class_def Let_def)
    moreover have "pc_inv (Suc n) (sm_insert ?k ?v data)"
      using wf sm_insert_length [of ?k ?v data] sm_insert_entries [of ?k ?v data]
      by (auto simp: pc_inv_def sm_insert_wf fl pktcollector_value_new_def)
    moreover have "flush_field dir pktcollector_value_new = 0" for dir
      by (simp add: flush_field_def pktcollector_value_new_def)
    moreover have "length (sm_insert ?k ?v data) \<le> MAX_PACKETS" using new(2) sm_insert_length [of ?k ?v data] by simp
    moreover have "\<not> turned_away h outgoing data" using new(2) by (simp add: turned_away_def)
    ultimately show ?thesis
      using that sum_insert [OF new(1), of _ ?v] by (simp add: flush_count add.commute)
  next
    case known
    have "pc_put_packet pktcollector_e_class h outgoing now None data = Some (sm_set ?k (?c v) data)"
      using known by (simp add: pc_put_packet_def)
    moreover have "pv_flags v = 0" using wf(3) sm_find_entry [OF known] by auto
    then have "\<forall>(k', v') \<in> insert (?k, ?c v) (set data). pv_flags v' = 0" using wf(3) by (simp add: fl)
    then have "pc_inv (Suc n) (sm_set ?k (?c v) data)"
      using wf(1,2) sm_set_length [OF wf(1) known] sm_set_entries [of ?k "?c v" data]
      by (auto simp: pc_inv_def sm_set_wf)
    moreover have "\<not> turned_away h outgoing data" using known by (simp add: turned_away_def)
    ultimately show ?thesis
      using that sum_set [OF wf(1) known, of _ "?c v"] sm_set_length [OF wf(1) known] by (simp add: flush_count)
  qed
qed

lemma subseq_sorted_wrt: "subseq xs ys \<Longrightarrow> sorted_wrt P ys \<Longrightarrow> sorted_wrt P xs"
  by (induction rule: list_emb.induct) (auto dest: list_emb_set)

lemma flush_step:
  assumes "pc_inv n data" and "pc_flush now data = (fc, d)"
  shows "pc_inv n d" "sum_values (flush_field dir) fc + sum_values (flush_field dir) d = sum_values (flush_field dir) data"
proof -
  obtain t where f: "flush_loop t data = (fc, d)" using assms(2) by (auto simp: pc_flush_def)
  have inv: "sm_wf data" "length data \<le> n" "\<forall>(k, v) \<in> set data. pv_flags v = 0" using assms(1) by (simp_all add: pc_inv_def)
  have k: "subseq (map fst d) (map fst data)" by (rule flush_loop_keys [OF f])
  have "sorted_wrt (<) (map fst d)"
    using inv(1) subseq_sorted_wrt [OF k] by (simp add: sm_wf_def)
  moreover have "length d \<le> n" using list_emb_length [OF k] inv(2) by simp
  ultimately show "pc_inv n d" using flush_loop_flags [OF f inv(3)] by (simp add: pc_inv_def sm_wf_def)
  show "sum_values (flush_field dir) fc + sum_values (flush_field dir) d = sum_values (flush_field dir) data"
    by (rule flush_loop_sum [OF inv(3) f])
qed

lemma flush_step_length: "pc_flush now data = (fc, d) \<Longrightarrow> length d \<le> length data"
  using flush_loop_keys list_emb_length by (fastforce simp: pc_flush_def)

lemma run_collector_sum:
  assumes "pc_inv n data" and "length data \<le> MAX_PACKETS"
  shows "\<exists>fc d. run_collector ops data = Some (fc, d) \<and> length d \<le> MAX_PACKETS
    \<and> (\<forall>dir. sum_values (flush_field dir) fc + sum_values (flush_field dir) d + bytes_turned_away dir ops data
         = sum_values (flush_field dir) data + bytes_of dir ops)"
  using assms
proof (induction ops arbitrary: n data)
  case Nil
  then show ?case by (simp add: bytes_of_def sum_values_def)
next
  case (Cons op ops)
  show ?case
  proof (cases op)
    case (PcPut h outgoing now)
    obtain d where d: "pc_put_packet pktcollector_e_class h outgoing now None data = Some d" "pc_inv (Suc n) d"
      "length d \<le> MAX_PACKETS" "\<And>dir. sum_values (flush_field dir) d = sum_values (flush_field dir) data
         + (if outgoing = dir \<and> \<not> turned_away h outgoing data then ucast (ih_length h) else 0)"
      using put_packet_step [OF Cons.prems(1), of h outgoing now] Cons.prems(2) by metis
    then show ?thesis using Cons.IH [OF d(2,3)] by (auto simp: PcPut bytes_of_def algebra_simps)
  next
    case (PcFlush now)
    obtain fc d where f: "pc_flush now data = (fc, d)" by (cases "pc_flush now data")
    note s = flush_step [OF Cons.prems(1) f]
    have "length d \<le> MAX_PACKETS" using flush_step_length [OF f] Cons.prems(2) by simp
    then obtain fcs d' where "run_collector ops d = Some (fcs, d')" "length d' \<le> MAX_PACKETS"
      "\<forall>dir. sum_values (flush_field dir) fcs + sum_values (flush_field dir) d' + bytes_turned_away dir ops d
         = sum_values (flush_field dir) d + bytes_of dir ops"
      using Cons.IH [OF s(1)] by auto
    moreover have "sum_values g (fc @ fcs) = sum_values g fc + sum_values g fcs" for g by (simp add: sum_values_def)
    moreover have "bytes_of dir (op # ops) = bytes_of dir ops" for dir by (simp add: bytes_of_def PcFlush)
    moreover have "a + c + e + x = b + g" if "a + d0 = b" "c + e + x = d0 + g" for a b c d0 e g x :: u64
      using that by (metis add.assoc)
    ultimately show ?thesis using s(2) by (simp add: PcFlush f)
  qed
qed

lemma none_turned_away:
  assumes "pc_inv n data" and "n + length ops \<le> MAX_PACKETS"
  shows "bytes_turned_away dir ops data = 0"
  using assms
proof (induction ops arbitrary: n data)
  case (Cons op ops)
  show ?case
  proof (cases op)
    case (PcPut h outgoing now)
    obtain d where d: "pc_put_packet pktcollector_e_class h outgoing now None data = Some d" "pc_inv (Suc n) d"
      using put_packet_step [OF Cons.prems(1), of h outgoing now] by metis
    have "\<not> turned_away h outgoing data" using Cons.prems by (simp add: turned_away_def pc_inv_def)
    then show ?thesis using Cons.IH [OF d(2)] Cons.prems(2) by (simp add: PcPut d(1))
  next
    case (PcFlush now)
    obtain fc d where f: "pc_flush now data = (fc, d)" by (cases "pc_flush now data")
    show ?thesis using Cons.IH [OF flush_step(1) [OF Cons.prems(1) f]] Cons.prems(2) by (simp add: PcFlush f)
  qed
qed simp

section \<open>Properties\<close>

text \<open>
  C22: the plain collector (\<open>pktcollector_e\<close>) reports every byte once, or turns it away when
  full. Whatever packets are put and flushes done, the collector holds at most \<open>MAX_PACKETS\<close> connections, and what the flushes handed
  over, what is still held and the bytes of the packets of new connections that came while it was full
  add up to the bytes of the packets, in each direction, modulo \<open>2^64\<close>; no connection is dropped with
  bytes that were not handed over. Nothing is turned away in a run of at most \<open>MAX_PACKETS\<close> calls.
\<close>

theorem collector_reports_every_byte:
  "\<exists>fc d. run_collector ops [] = Some (fc, d) \<and> length d \<le> MAX_PACKETS
    \<and> (\<forall>dir. sum_values (flush_field dir) fc + sum_values (flush_field dir) d + bytes_turned_away dir ops []
         = bytes_of dir ops)
    \<and> (length ops \<le> MAX_PACKETS \<longrightarrow> (\<forall>dir. bytes_turned_away dir ops [] = 0))"
proof -
  have i: "pc_inv 0 []" by (simp add: pc_inv_def sm_wf_def)
  then show ?thesis
    using run_collector_sum [OF i, of ops] none_turned_away [OF i, of ops] by (simp add: sum_values_def)
qed

definition ex_ip :: "u16 \<Rightarrow> u16 \<Rightarrow> u32 \<Rightarrow> ip_header" where
  "ex_ip src dst len = \<lparr>ih_src_mac = [], ih_dst_mac = [], ih_ip_hl = 5, ih_tcp_hl = 5, ih_version = 4, ih_length = len,
     ih_identification = 0, ih_src_ip_addr = Addrip_v4 1, ih_dst_ip_addr = Addrip_v4 2, ih_proto = 6, ih_tos = 0,
     ih_ttl = 0, ih_seq_num = 0, ih_ack_num = 0, ih_flags = 0, ih_window = 0, ih_src_port = src, ih_dst_port = dst,
     ih_ftpdata_ip = 0, ih_ftpdata_port = 0, ih_ftpdata_mode = 0\<rparr>"

theorem collector_reports_every_byte_witness:
  "\<exists>fc d. run_collector [PcPut (ex_ip 5000 80 1200) True 10, PcFlush 700, PcPut (ex_ip 5001 80 400) True 701] [] = Some (fc, d)
     \<and> sum_values (flush_field True) fc + sum_values (flush_field True) d = 1600"
  using collector_reports_every_byte [of "[PcPut (ex_ip 5000 80 1200) True 10, PcFlush 700, PcPut (ex_ip 5001 80 400) True 701]"]
  by (force simp: bytes_of_def ex_ip_def MAX_PACKETS_def)

text \<open>
  both directions of a connection are counted under one key, with or without captured bytes,
  except for the packet that opens it.
\<close>

theorem connection_has_one_key:
  assumes "\<not> has_syn h" and "\<not> has_syn r" and "ih_proto r = ih_proto h"
    and "ih_src_port r = ih_dst_port h" and "ih_dst_port r = ih_src_port h"
    and "ih_src_ip_addr r = ih_dst_ip_addr h" and "ih_dst_ip_addr r = ih_src_ip_addr h"
  shows "collector_key r (\<not> outgoing) raw = collector_key h outgoing raw"
  using assms by (rule collector_key_reply)

theorem connection_has_one_key_witness:
  "collector_key ((ex_ip 80 5000 400)\<lparr>ih_src_ip_addr := Addrip_v4 2, ih_dst_ip_addr := Addrip_v4 1\<rparr>) False False
     = Pktcollector_key 6 65535 80 1 2"
  using connection_has_one_key [of "ex_ip 5000 80 1200"
      "(ex_ip 80 5000 400)\<lparr>ih_src_ip_addr := Addrip_v4 2, ih_dst_ip_addr := Addrip_v4 1\<rparr>" True False]
  by (simp add: ex_ip_def has_syn_def collector_key_def collector_ports_def MAX_PRIVELEGED_PORT_def MAX_UNPRIVELEGED_PORT_def)

text \<open>
  a connection to a port above 1023 is counted under two keys: the packet that opens it loses
  the client's port, the others keep it.
\<close>

theorem opening_packet_splits:
  assumes "has_syn h" and "ih_dst_port h > MAX_PRIVELEGED_PORT" and "ih_src_port h > MAX_PRIVELEGED_PORT"
    and "ih_src_port h \<noteq> MAX_UNPRIVELEGED_PORT" and "\<not> has_syn (h\<lparr>ih_flags := f\<rparr>)"
  shows "collector_key (h\<lparr>ih_flags := f\<rparr>) True False \<noteq> collector_key h True False"
  using assms by (auto simp: collector_key_def collector_ports_def Let_def)

theorem opening_packet_splits_witness:
  "collector_key (ex_ip 5000 8080 40) True False \<noteq> collector_key ((ex_ip 5000 8080 40)\<lparr>ih_flags := 2\<rparr>) True False"
  using opening_packet_splits [of "(ex_ip 5000 8080 40)\<lparr>ih_flags := 2\<rparr>" 0]
  by (simp add: ex_ip_def has_syn_def MAX_PRIVELEGED_PORT_def MAX_UNPRIVELEGED_PORT_def)

text \<open>
  C23: the host of a request. The host line is found, unless fewer than seven characters follow it:
  a request whose last header line is the host is logged without a host name.
\<close>

theorem host_found_unless_last:
  assumes "\<forall>i < length pre. take 8 (drop i (pre @ HOST_LINE @ host @ CRLF @ rest)) \<noteq> HOST_LINE"
    and "CHR 0x0D \<notin> set host"
  shows "lookup_host (pre @ HOST_LINE @ host @ CRLF @ rest) = (if 7 \<le> length rest \<and> host \<noteq> [] then Some host else None)"
  using lookup_host_skip [OF assms(1)] lookup_host_line [OF assms(2)] by simp

theorem host_found_unless_last_witness:
  "lookup_host (''GET /'' @ HOST_LINE @ ''a.b'' @ CRLF @ ''Accept: *'') = Some ''a.b''
   \<and> lookup_host (''GET /'' @ HOST_LINE @ ''a.b'' @ CRLF @ [CHR 0x0D]) = None"
proof -
  have "CHR 0x0D \<notin> set ''GET /''" by simp
  note r = host_found_unless_last [OF no_host_line_before [OF this], of "''a.b''"]
  show ?thesis using r [of "''Accept: *''"] r [of "[CHR 0x0D]"] by (simp del: lookup_host.simps)
qed

end
