(* ===== verification/TrafficReport.thy ===== *)
theory TrafficReport
  imports UBaseList UTime
begin

text \<open>
  \<open>corefilters/trafficreport*.{h,cpp}\<close>: the monthly report of the traffic of every filter, by days and by
  slots of two hours. An update is \<open>None\<close> where the code throws: \<open>utime::set\<close> refuses a date that does not
  exist. The XML of the report is not modelled; the report loaded and the outcome of saving are arguments.
\<close>

section \<open>Times and their numbers\<close>

definition days_in_month :: "nat \<Rightarrow> nat \<Rightarrow> nat" where
  "days_in_month y m =
     (if m = 2 then (if y mod 4 = 0 \<and> (y mod 100 \<noteq> 0 \<or> y mod 400 = 0) then 29 else 28)
      else if m \<in> {4, 6, 9, 11} then 30 else 31)"

definition valid_date :: "nat \<Rightarrow> nat \<Rightarrow> nat \<Rightarrow> bool" where
  "valid_date y m d \<longleftrightarrow> 1400 \<le> y \<and> y \<le> 9999 \<and> 1 \<le> m \<and> m \<le> 12 \<and> 1 \<le> d \<and> d \<le> days_in_month y m"

definition next_day :: "utime \<Rightarrow> utime" where
  "next_day t =
     (if ut_day t < days_in_month (ut_year t) (ut_month t) then t\<lparr>ut_day := ut_day t + 1\<rparr>
      else if ut_month t < 12 then t\<lparr>ut_month := ut_month t + 1, ut_day := 1\<rparr>
      else t\<lparr>ut_year := ut_year t + 1, ut_month := 1, ut_day := 1\<rparr>)"

text \<open>\<open>utime::set\<close>: the hours are a duration added to the date.\<close>

definition utime_set :: "nat \<Rightarrow> nat \<Rightarrow> nat \<Rightarrow> nat \<Rightarrow> utime option" where
  "utime_set y m d h =
     (if valid_date y m d then Some ((next_day ^^ (h div 24)) (ut_set y m d (h mod 24) 0 0)) else None)"

definition hour_id :: "utime \<Rightarrow> u32" where
  "hour_id t = of_nat (ut_hour t div 2 * 2) * 100 + of_nat (ut_day t) * 10000
     + of_nat (ut_month t) * 1000000 + of_nat (ut_year t mod 100) * 100000000"

definition hour_utime :: "u32 \<Rightarrow> utime option" where
  "hour_utime i = utime_set (unat (i div 100000000) + 2000) (unat (i div 1000000 mod 100))
     (unat (i div 10000 mod 100)) (unat (i mod 10000 div 100))"

definition day_id :: "utime \<Rightarrow> u32" where
  "day_id t = of_nat (ut_day t) + of_nat (ut_month t) * 100 + of_nat (ut_year t mod 100) * 10000"

definition day_utime :: "u32 \<Rightarrow> utime option" where
  "day_utime i = utime_set (unat (i div 10000) + 2000) (unat (i mod 10000 div 100)) (unat (i mod 100)) 0"

section \<open>The report\<close>

record hourtick =
  ht_ut :: utime
  ht_sent :: i64
  ht_recv :: i64

record daytick =
  dt_ut :: utime
  dt_sent :: i64
  dt_recv :: i64
  hourticks :: "hourtick list"

record report_filter =
  rf_id :: u32
  rf_sent :: i64
  rf_recv :: i64
  rf_name :: string
  rf_color :: u32
  dayticks :: "daytick list"

record counterdata =
  cd_filterid :: u32
  cd_sent :: i64
  cd_recv :: i64
  cd_filtername :: string

definition hourtick_eq :: "hourtick \<Rightarrow> hourtick \<Rightarrow> bool" where
  "hourtick_eq a b \<longleftrightarrow> ht_sent a = ht_sent b \<and> ht_recv a = ht_recv b"

definition hourtick_clear :: "hourtick \<Rightarrow> hourtick" where
  "hourtick_clear t = t\<lparr>ht_sent := 0, ht_recv := 0\<rparr>"

definition daytick_clear :: "daytick \<Rightarrow> daytick" where
  "daytick_clear d = d\<lparr>dt_sent := 0, dt_recv := 0, hourticks := []\<rparr>"

definition daytick_eq :: "daytick \<Rightarrow> daytick \<Rightarrow> bool" where
  "daytick_eq a b \<longleftrightarrow> dt_sent a = dt_sent b \<and> dt_recv a = dt_recv b \<and> list_all2 hourtick_eq (hourticks a) (hourticks b)"

definition report_filter_clear :: "report_filter \<Rightarrow> report_filter" where
  "report_filter_clear f = f\<lparr>rf_sent := 0, rf_recv := 0, rf_name := [], rf_color := 0, dayticks := []\<rparr>"

definition report_filter_eq :: "report_filter \<Rightarrow> report_filter \<Rightarrow> bool" where
  "report_filter_eq a b \<longleftrightarrow> rf_sent a = rf_sent b \<and> rf_recv a = rf_recv b \<and> rf_name a = rf_name b
     \<and> rf_color a = rf_color b \<and> list_all2 daytick_eq (dayticks a) (dayticks b)"

text \<open>The constructor leaves the number of a filter uninitialised: the argument \<open>u\<close>.\<close>

definition hourtick_new :: hourtick where "hourtick_new = \<lparr>ht_ut = ut_clear, ht_sent = 0, ht_recv = 0\<rparr>"
definition daytick_new :: daytick where
  "daytick_new = \<lparr>dt_ut = ut_clear, dt_sent = 0, dt_recv = 0, hourticks = []\<rparr>"
definition report_filter_new :: "u32 \<Rightarrow> report_filter" where
  "report_filter_new u = \<lparr>rf_id = u, rf_sent = 0, rf_recv = 0, rf_name = [], rf_color = 0, dayticks = []\<rparr>"

text \<open>
  The lists are \<open>ubaselist\<close>. \<open>set_id\<close> of an hour does nothing; that of a day sets its time, and is reached
  only with the number of a day that exists.
\<close>

definition hourticklist_class :: "hourtick ubl_class" where
  "hourticklist_class = \<lparr>ubl_get_id = (\<lambda>t. hour_id (ht_ut t)), ubl_set_id = (\<lambda>i t. t), ubl_get_name = (\<lambda>t. []),
     ubl_default = hourtick_new, ubl_item_clear = hourtick_clear, ubl_eq = hourtick_eq, ubl_protected = False\<rparr>"

definition daytick_set_id :: "u32 \<Rightarrow> daytick \<Rightarrow> daytick" where
  "daytick_set_id i d = (case day_utime i of None \<Rightarrow> d | Some t \<Rightarrow> d\<lparr>dt_ut := t\<rparr>)"

definition dayticklist_class :: "daytick ubl_class" where
  "dayticklist_class = \<lparr>ubl_get_id = (\<lambda>d. day_id (dt_ut d)), ubl_set_id = daytick_set_id, ubl_get_name = (\<lambda>d. []),
     ubl_default = daytick_new, ubl_item_clear = daytick_clear, ubl_eq = daytick_eq, ubl_protected = False\<rparr>"

definition reportlist_class :: "u32 \<Rightarrow> report_filter ubl_class" where
  "reportlist_class u = \<lparr>ubl_get_id = rf_id, ubl_set_id = (\<lambda>i f. f\<lparr>rf_id := i\<rparr>), ubl_get_name = rf_name,
     ubl_default = report_filter_new u, ubl_item_clear = report_filter_clear, ubl_eq = report_filter_eq,
     ubl_protected = False\<rparr>"

interpretation reportlist: ubl_element "reportlist_class u" for u
  by unfold_locales (simp add: reportlist_class_def)

section \<open>Updates\<close>

text \<open>The loops that look for an element, change it and stop.\<close>

fun apply_first :: "('a \<Rightarrow> bool) \<Rightarrow> ('a \<Rightarrow> 'a option) \<Rightarrow> 'a list \<Rightarrow> 'a list option" where
  "apply_first P f [] = Some []"
| "apply_first P f (x # xs) =
     (if P x then map_option (\<lambda>y. y # xs) (f x) else map_option ((#) x) (apply_first P f xs))"

definition daytick_update :: "utime \<Rightarrow> i64 \<Rightarrow> i64 \<Rightarrow> daytick \<Rightarrow> daytick option" where
  "daytick_update ctm sent recv d =
     (if day_id ctm \<noteq> day_id (dt_ut d) then Some d
      else let d1 = d\<lparr>dt_sent := dt_sent d + sent, dt_recv := dt_recv d + recv\<rparr>;
               h = hour_id ctm
        in if list_ex (\<lambda>t. hour_id (ht_ut t) = h) (hourticks d1)
           then map_option (\<lambda>xs. d1\<lparr>hourticks := xs\<rparr>)
             (apply_first (\<lambda>t. hour_id (ht_ut t) = h)
               (\<lambda>t. Some (t\<lparr>ht_sent := ht_sent t + sent, ht_recv := ht_recv t + recv\<rparr>)) (hourticks d1))
           else map_option (\<lambda>m. d1\<lparr>hourticks := snd (add_element hourticklist_class
               (hourtick_new\<lparr>ht_ut := m, ht_sent := sent, ht_recv := recv\<rparr>) 0 (hourticks d1))\<rparr>)
             (hour_utime h))"

definition report_filter_update :: "utime \<Rightarrow> i64 \<Rightarrow> i64 \<Rightarrow> string \<Rightarrow> report_filter \<Rightarrow> report_filter option" where
  "report_filter_update ctm sent recv name f =
     (let f1 = f\<lparr>rf_sent := rf_sent f + sent, rf_recv := rf_recv f + recv, rf_name := name\<rparr>; k = day_id ctm
      in if list_ex (\<lambda>d. day_id (dt_ut d) = k) (dayticks f1)
         then map_option (\<lambda>ds. f1\<lparr>dayticks := ds\<rparr>)
           (apply_first (\<lambda>d. day_id (dt_ut d) = k) (daytick_update ctm sent recv) (dayticks f1))
         else case day_utime k of None \<Rightarrow> None
           | Some m \<Rightarrow> map_option (\<lambda>d. f1\<lparr>dayticks := snd (add_element dayticklist_class d 0 (dayticks f1))\<rparr>)
               (daytick_update ctm sent recv (daytick_new\<lparr>dt_ut := m\<rparr>)))"

definition report_update :: "u32 \<Rightarrow> utime \<Rightarrow> counterdata \<Rightarrow> report_filter list \<Rightarrow> report_filter list option" where
  "report_update u ctm c fs =
     (if list_ex (\<lambda>f. rf_id f = cd_filterid c) fs
      then apply_first (\<lambda>f. rf_id f = cd_filterid c)
        (report_filter_update ctm (cd_sent c) (cd_recv c) (cd_filtername c)) fs
      else map_option (\<lambda>f. snd (add_element (reportlist_class u) f 0 fs))
        (report_filter_update ctm (cd_sent c) (cd_recv c) (cd_filtername c)
          ((report_filter_new u)\<lparr>rf_id := cd_filterid c\<rparr>)))"

fun report_mass_update :: "u32 \<Rightarrow> utime \<Rightarrow> counterdata list \<Rightarrow> report_filter list \<Rightarrow> report_filter list option" where
  "report_mass_update u ctm [] fs = Some fs"
| "report_mass_update u ctm (c # cs) fs = Option.bind (report_update u ctm c fs) (report_mass_update u ctm cs)"

text \<open>
  \<open>do_refresh\<close>: \<open>loaded\<close> is the report as \<open>xml_load\<close> leaves it, \<open>save\<close> tells whether it could be written.
  Exceptions of the update are not caught.
\<close>

definition report_refresh ::
  "u32 \<Rightarrow> report_filter list \<Rightarrow> (report_filter list \<Rightarrow> bool) \<Rightarrow> utime \<Rightarrow> counterdata list \<Rightarrow> (bool \<times> report_filter list) option"
where
  "report_refresh u loaded save ctm cs = map_option (\<lambda>fs. (save fs, fs)) (report_mass_update u ctm cs loaded)"

section \<open>Numbers of times\<close>

definition ut_valid :: "utime \<Rightarrow> bool" where
  "ut_valid t \<longleftrightarrow> valid_date (ut_year t) (ut_month t) (ut_day t) \<and> ut_hour t < 24"

lemma days_in_month_bound: "days_in_month y m \<le> 31" by (simp add: days_in_month_def)

lemma ut_valid_bounds: "ut_valid t \<Longrightarrow> 1 \<le> ut_month t \<and> ut_month t \<le> 12 \<and> 1 \<le> ut_day t \<and> ut_day t \<le> 31 \<and> ut_hour t < 24"
  using days_in_month_bound [of "ut_year t" "ut_month t"] by (auto simp: ut_valid_def valid_date_def)

definition hour_number :: "utime \<Rightarrow> nat" where
  "hour_number t = ut_hour t div 2 * 2 * 100 + ut_day t * 10000 + ut_month t * 1000000 + ut_year t mod 100 * 100000000"

lemma hour_id_number: "hour_id t = of_nat (hour_number t)" by (simp add: hour_id_def hour_number_def)

lemma two_digit_year: "\<lbrakk>2000 \<le> y; y \<le> 2099\<rbrakk> \<Longrightarrow> y mod 100 + 2000 = (y :: nat)"
proof -
  assume y: "2000 \<le> y" "y \<le> 2099"
  have "y mod 100 = (y - 2000 + 20 * 100) mod 100" using y by simp
  also have "\<dots> = y - 2000" unfolding mod_mult_self1 using y by simp
  finally show ?thesis using y by simp
qed

lemma unat_hour_id:
  assumes "ut_valid t" and "2000 \<le> ut_year t" and "ut_year t \<le> 2042"
  shows "unat (hour_id t) = hour_number t"
proof -
  have "ut_year t mod 100 \<le> 42" using two_digit_year [of "ut_year t"] assms(2,3) by linarith
  moreover have "ut_hour t div 2 * 2 < 24" using ut_valid_bounds [OF assms(1)] div_times_less_eq_dividend [of "ut_hour t" 2] by linarith
  ultimately have "hour_number t < 4294967296" using ut_valid_bounds [OF assms(1)] by (simp add: hour_number_def)
  then show ?thesis by (simp add: hour_id_number unat_of_nat take_bit_nat_eq_self)
qed

lemma digits:
  fixes y m d r :: nat
  assumes "m < 100" and "d < 100" and "r < 10000"
  shows "(r + d * 10000 + m * 1000000 + y * 100000000) div 100000000 = y"
    "(r + d * 10000 + m * 1000000 + y * 100000000) div 1000000 mod 100 = m"
    "(r + d * 10000 + m * 1000000 + y * 100000000) div 10000 mod 100 = d"
    "(r + d * 10000 + m * 1000000 + y * 100000000) mod 10000 = r"
proof -
  let ?n = "r + d * 10000 + m * 1000000 + y * 100000000"
  have n: "?n = r + 10000 * (d + 100 * (m + 100 * y))" by simp
  have 1: "?n div 10000 = d + 100 * (m + 100 * y)" unfolding n using assms(3) by simp
  have 2: "?n div 1000000 = m + 100 * y" using 1 assms(2) div_mult2_eq [of ?n 10000 100] by simp
  show "?n div 100000000 = y" using 2 assms(1) div_mult2_eq [of ?n 1000000 100] by simp
  show "?n div 1000000 mod 100 = m" using 2 assms(1) by simp
  show "?n div 10000 mod 100 = d" unfolding 1 mod_mult_self2 using assms(2) by (rule mod_less)
  show "?n mod 10000 = r" unfolding n mod_mult_self2 using assms(3) by (rule mod_less)
qed

lemma hour_utime_id:
  assumes "ut_valid t" and "2000 \<le> ut_year t" and "ut_year t \<le> 2042"
  shows "hour_utime (hour_id t) = Some (ut_set (ut_year t) (ut_month t) (ut_day t) (ut_hour t div 2 * 2) 0 0)"
proof -
  have b: "ut_month t < 100" "ut_day t < 100" "ut_hour t div 2 * 2 * 100 < 10000" "ut_hour t div 2 * 2 < 24"
    using ut_valid_bounds [OF assms(1)] div_times_less_eq_dividend [of "ut_hour t" 2] by linarith+
  note d = digits [OF b(1-3), of "ut_year t mod 100", folded hour_number_def]
  have y: "ut_year t mod 100 + 2000 = ut_year t" using two_digit_year assms(2,3) by simp
  show ?thesis
    using assms(1) b(4) d y
    by (simp add: hour_utime_def unat_div unat_mod unat_hour_id [OF assms] utime_set_def ut_valid_def mult.commute)
qed

lemma hour_id_slot: "hour_id (ut_set (ut_year t) (ut_month t) (ut_day t) (ut_hour t div 2 * 2) 0 0) = hour_id t"
  by (simp add: hour_id_def ut_set_def)

text \<open>The numbers of days.\<close>

definition day_number :: "utime \<Rightarrow> nat" where
  "day_number t = ut_day t + ut_month t * 100 + ut_year t mod 100 * 10000"

lemma unat_day_id: "ut_valid t \<Longrightarrow> unat (day_id t) = day_number t"
proof -
  assume v: "ut_valid t"
  have "ut_year t mod 100 < 100" by simp
  then have "day_number t < 4294967296" using ut_valid_bounds [OF v] unfolding day_number_def by linarith
  moreover have "day_id t = of_nat (day_number t)" by (simp add: day_id_def day_number_def)
  ultimately show ?thesis by (simp add: unat_of_nat take_bit_nat_eq_self)
qed

lemma day_utime_id:
  assumes "ut_valid t" and "2000 \<le> ut_year t" and "ut_year t \<le> 2099"
  shows "day_utime (day_id t) = Some (ut_set (ut_year t) (ut_month t) (ut_day t) 0 0 0)"
proof -
  have b: "ut_month t < 100" "ut_day t < 100" "ut_day t + ut_month t * 100 < 10000" using ut_valid_bounds [OF assms(1)] by auto
  let ?y = "ut_year t mod 100"
  have n: "day_number t = (ut_day t + ut_month t * 100) + 10000 * ?y" by (simp add: day_number_def)
  have "day_number t div 10000 = ?y" unfolding n using b(3) by simp
  moreover have "day_number t mod 10000 = ut_day t + ut_month t * 100" unfolding n mod_mult_self2 using b(3) by (rule mod_less)
  moreover have "day_number t mod 100 = ut_day t"
    using b(2) mod_mult_self2 [of "ut_day t" 100 "ut_month t + 100 * ?y"] by (simp add: day_number_def algebra_simps)
  moreover have "(ut_day t + ut_month t * 100) div 100 = ut_month t" using b(2) by simp
  ultimately show ?thesis
    using assms(1) two_digit_year [OF assms(2,3)]
    by (simp add: day_utime_def unat_div unat_mod unat_day_id utime_set_def ut_valid_def)
qed

lemma day_id_start: "day_id (ut_set (ut_year t) (ut_month t) (ut_day t) h 0 0) = day_id t"
  by (simp add: day_id_def ut_set_def)

lemma ids_positive:
  assumes "ut_valid t"
  shows "day_id t \<noteq> 0"
proof
  assume "day_id t = 0"
  then have "day_number t = 0" using unat_day_id [OF assms] by simp
  then show False using ut_valid_bounds [OF assms] by (simp add: day_number_def)
qed

section \<open>What a report has booked\<close>

lemma apply_first_found:
  "list_ex P xs \<Longrightarrow> \<exists>us x vs. xs = us @ x # vs \<and> P x \<and> apply_first P f xs = map_option (\<lambda>y. us @ y # vs) (f x)"
proof (induction xs)
  case (Cons a xs)
  show ?case
  proof (cases "P a")
    case False
    then obtain us x vs where "xs = us @ x # vs" "P x" "apply_first P f xs = map_option (\<lambda>y. us @ y # vs) (f x)"
      using Cons by auto
    with False show ?thesis by (intro exI [of _ "a # us"]) (auto simp: option.map_comp comp_def)
  qed (auto intro: exI [of _ "[]"])
qed simp

definition day_booked :: "(hourtick \<Rightarrow> i64) \<Rightarrow> u32 \<Rightarrow> daytick \<Rightarrow> i64" where
  "day_booked g h d = (\<Sum>t\<leftarrow>hourticks d. if hour_id (ht_ut t) = h then g t else 0)"

definition filter_booked :: "(hourtick \<Rightarrow> i64) \<Rightarrow> u32 \<Rightarrow> report_filter \<Rightarrow> i64" where
  "filter_booked g h f = (\<Sum>d\<leftarrow>dayticks f. day_booked g h d)"

definition booked :: "(hourtick \<Rightarrow> i64) \<Rightarrow> report_filter list \<Rightarrow> u32 \<Rightarrow> u32 \<Rightarrow> i64" where
  "booked g fs i h = (\<Sum>f\<leftarrow>fs. if rf_id f = i then filter_booked g h f else 0)"

definition day_ok :: "daytick \<Rightarrow> bool" where
  "day_ok d \<longleftrightarrow> dt_sent d = (\<Sum>t\<leftarrow>hourticks d. ht_sent t) \<and> dt_recv d = (\<Sum>t\<leftarrow>hourticks d. ht_recv t)
     \<and> distinct (map (\<lambda>t. hour_id (ht_ut t)) (hourticks d)) \<and> (\<forall>t \<in> set (hourticks d). day_id (ht_ut t) = day_id (dt_ut d))"

definition filter_ok :: "report_filter \<Rightarrow> bool" where
  "filter_ok f \<longleftrightarrow> rf_sent f = (\<Sum>d\<leftarrow>dayticks f. dt_sent d) \<and> rf_recv f = (\<Sum>d\<leftarrow>dayticks f. dt_recv d)
     \<and> distinct (map (\<lambda>d. day_id (dt_ut d)) (dayticks f)) \<and> (\<forall>d \<in> set (dayticks f). day_ok d)"

definition report_ok :: "report_filter list \<Rightarrow> bool" where
  "report_ok fs \<longleftrightarrow> distinct (map rf_id fs) \<and> (\<forall>f \<in> set fs. filter_ok f)"

definition in_range :: "utime \<Rightarrow> bool" where
  "in_range t \<longleftrightarrow> ut_valid t \<and> 2000 \<le> ut_year t \<and> ut_year t \<le> 2042"

definition slot :: "utime \<Rightarrow> utime" where
  "slot t = ut_set (ut_year t) (ut_month t) (ut_day t) (ut_hour t div 2 * 2) 0 0"

lemma slot_ids [simp]: "hour_id (slot t) = hour_id t" "day_id (slot t) = day_id t"
  by (simp_all add: slot_def hour_id_slot day_id_start)

lemma add_hour: "snd (add_element hourticklist_class t 0 xs) = xs @ [t]"
  by (simp add: add_element_def insert_element_def hourticklist_class_def Let_def is_write_protected_def)

lemma daytick_update_books:
  assumes "in_range ctm" and "day_ok d" and "day_id (dt_ut d) = day_id ctm"
  shows "\<exists>d'. daytick_update ctm s r d = Some d' \<and> day_ok d' \<and> dt_ut d' = dt_ut d
    \<and> dt_sent d' = dt_sent d + s \<and> dt_recv d' = dt_recv d + r
    \<and> (\<forall>h. day_booked ht_sent h d' = day_booked ht_sent h d + (if h = hour_id ctm then s else 0)
           \<and> day_booked ht_recv h d' = day_booked ht_recv h d + (if h = hour_id ctm then r else 0))"
proof (cases "list_ex (\<lambda>t. hour_id (ht_ut t) = hour_id ctm) (hourticks d)")
  case True
  obtain us t vs where t: "hourticks d = us @ t # vs" "hour_id (ht_ut t) = hour_id ctm"
    "apply_first (\<lambda>t. hour_id (ht_ut t) = hour_id ctm)
       (\<lambda>t. Some (t\<lparr>ht_sent := ht_sent t + s, ht_recv := ht_recv t + r\<rparr>)) (hourticks d)
     = Some (us @ t\<lparr>ht_sent := ht_sent t + s, ht_recv := ht_recv t + r\<rparr> # vs)"
    using apply_first_found [OF True, of "\<lambda>t. Some (t\<lparr>ht_sent := ht_sent t + s, ht_recv := ht_recv t + r\<rparr>)"] by auto
  show ?thesis using assms(2,3) True t by (simp add: daytick_update_def day_ok_def day_booked_def)
next
  case False
  have "hour_utime (hour_id ctm) = Some (slot ctm)" using assms(1) hour_utime_id unfolding in_range_def slot_def by blast
  moreover have "\<forall>t \<in> set (hourticks d). hour_id (ht_ut t) \<noteq> hour_id ctm" using False by (simp add: list_ex_iff)
  ultimately show ?thesis
    using assms(2,3) False
    by (auto simp: daytick_update_def day_ok_def day_booked_def add_hour hourtick_new_def)
qed

lemma add_day:
  assumes "in_range ctm" and "dt_ut d = ut_set (ut_year ctm) (ut_month ctm) (ut_day ctm) 0 0 0"
  shows "snd (add_element dayticklist_class d 0 ds) = ds @ [d]"
proof -
  have v: "ut_valid ctm" "2000 \<le> ut_year ctm" "ut_year ctm \<le> 2099" using assms(1) by (auto simp: in_range_def)
  have i: "day_id (dt_ut d) = day_id ctm" by (simp add: assms(2) day_id_start)
  have "daytick_set_id (day_id ctm) d = d"
    using day_utime_id [OF v] assms(2) by (simp add: daytick_set_id_def)
  then show ?thesis
    using ids_positive [OF v(1)] i
    by (simp add: add_element_def insert_element_def dayticklist_class_def is_write_protected_def word_gt_0)
qed

lemma report_filter_update_books:
  assumes "in_range ctm" and "filter_ok f"
  shows "\<exists>f'. report_filter_update ctm s r n f = Some f' \<and> filter_ok f' \<and> rf_id f' = rf_id f
    \<and> (\<forall>h. filter_booked ht_sent h f' = filter_booked ht_sent h f + (if h = hour_id ctm then s else 0)
           \<and> filter_booked ht_recv h f' = filter_booked ht_recv h f + (if h = hour_id ctm then r else 0))"
proof (cases "list_ex (\<lambda>d. day_id (dt_ut d) = day_id ctm) (dayticks f)")
  case True
  obtain us d vs where d: "dayticks f = us @ d # vs" "day_id (dt_ut d) = day_id ctm"
    "apply_first (\<lambda>d. day_id (dt_ut d) = day_id ctm) (daytick_update ctm s r) (dayticks f)
      = map_option (\<lambda>y. us @ y # vs) (daytick_update ctm s r d)"
    using apply_first_found [OF True, of "daytick_update ctm s r"] by auto
  have "day_ok d" using assms(2) d(1) by (simp add: filter_ok_def)
  from daytick_update_books [OF assms(1) this d(2), of s r] obtain d' where
    "daytick_update ctm s r d = Some d'" "day_ok d'" "dt_ut d' = dt_ut d"
    "dt_sent d' = dt_sent d + s" "dt_recv d' = dt_recv d + r"
    "\<And>h. day_booked ht_sent h d' = day_booked ht_sent h d + (if h = hour_id ctm then s else 0)"
    "\<And>h. day_booked ht_recv h d' = day_booked ht_recv h d + (if h = hour_id ctm then r else 0)" by blast
  then show ?thesis
    using assms(2) True d by (simp add: report_filter_update_def filter_ok_def filter_booked_def)
next
  case False
  have v: "ut_valid ctm" "2000 \<le> ut_year ctm" "ut_year ctm \<le> 2099" using assms(1) by (auto simp: in_range_def)
  let ?d = "daytick_new\<lparr>dt_ut := ut_set (ut_year ctm) (ut_month ctm) (ut_day ctm) 0 0 0\<rparr>"
  have "day_ok ?d" "day_id (dt_ut ?d) = day_id ctm" by (simp_all add: day_ok_def daytick_new_def day_id_start)
  from daytick_update_books [OF assms(1) this, of s r] obtain d' where
    d: "daytick_update ctm s r ?d = Some d'" "day_ok d'" "dt_ut d' = dt_ut ?d"
    "dt_sent d' = dt_sent ?d + s" "dt_recv d' = dt_recv ?d + r"
    "\<And>h. day_booked ht_sent h d' = day_booked ht_sent h ?d + (if h = hour_id ctm then s else 0)"
    "\<And>h. day_booked ht_recv h d' = day_booked ht_recv h ?d + (if h = hour_id ctm then r else 0)" by blast
  have "day_booked g h ?d = 0" "dt_sent ?d = 0" "dt_recv ?d = 0" for g h by (simp_all add: day_booked_def daytick_new_def)
  moreover have "\<forall>d \<in> set (dayticks f). day_id (dt_ut d) \<noteq> day_id ctm" using False by (simp add: list_ex_iff)
  moreover have "snd (add_element dayticklist_class d' 0 ds) = ds @ [d']" for ds using add_day [OF assms(1)] d(3) by simp
  ultimately show ?thesis
    using assms(2) False d day_utime_id [OF v]
    by (auto simp: report_filter_update_def filter_ok_def filter_booked_def day_id_start)
qed

lemma same_filter_id: "rf_id f = i \<Longrightarrow> f\<lparr>rf_id := i\<rparr> = f" by (cases f) simp

lemma report_update_books:
  assumes "in_range ctm" and "report_ok fs" and "cd_filterid c \<noteq> 0"
  shows "\<exists>fs'. report_update u ctm c fs = Some fs' \<and> report_ok fs'
    \<and> (\<forall>i h. booked ht_sent fs' i h = booked ht_sent fs i h + (if i = cd_filterid c \<and> h = hour_id ctm then cd_sent c else 0)
           \<and> booked ht_recv fs' i h = booked ht_recv fs i h + (if i = cd_filterid c \<and> h = hour_id ctm then cd_recv c else 0))"
proof (cases "list_ex (\<lambda>f. rf_id f = cd_filterid c) fs")
  case True
  let ?u = "report_filter_update ctm (cd_sent c) (cd_recv c) (cd_filtername c)"
  obtain us f vs where f: "fs = us @ f # vs" "rf_id f = cd_filterid c"
    "apply_first (\<lambda>f. rf_id f = cd_filterid c) ?u fs = map_option (\<lambda>y. us @ y # vs) (?u f)"
    using apply_first_found [OF True, of ?u] by auto
  have "filter_ok f" using assms(2) f(1) by (simp add: report_ok_def)
  from report_filter_update_books [OF assms(1) this, of "cd_sent c" "cd_recv c" "cd_filtername c"] obtain f' where
    "?u f = Some f'" "filter_ok f'" "rf_id f' = rf_id f"
    "\<And>h. filter_booked ht_sent h f' = filter_booked ht_sent h f + (if h = hour_id ctm then cd_sent c else 0)"
    "\<And>h. filter_booked ht_recv h f' = filter_booked ht_recv h f + (if h = hour_id ctm then cd_recv c else 0)" by blast
  then show ?thesis using assms(2) True f by (simp add: report_update_def report_ok_def booked_def)
next
  case False
  let ?u = "report_filter_update ctm (cd_sent c) (cd_recv c) (cd_filtername c)"
  let ?f = "(report_filter_new u)\<lparr>rf_id := cd_filterid c\<rparr>"
  have "filter_ok ?f" by (simp add: filter_ok_def report_filter_new_def)
  from report_filter_update_books [OF assms(1) this, of "cd_sent c" "cd_recv c" "cd_filtername c"] obtain f' where
    f: "?u ?f = Some f'" "filter_ok f'" "rf_id f' = rf_id ?f"
    "\<And>h. filter_booked ht_sent h f' = filter_booked ht_sent h ?f + (if h = hour_id ctm then cd_sent c else 0)"
    "\<And>h. filter_booked ht_recv h f' = filter_booked ht_recv h ?f + (if h = hour_id ctm then cd_recv c else 0)" by blast
  have "filter_booked g h ?f = 0" for g h by (simp add: filter_booked_def report_filter_new_def)
  moreover have "snd (add_element (reportlist_class u) f' 0 fs) = fs @ [f']"
    using f(3) assms(3) same_filter_id [of f' "cd_filterid c"]
    by (simp add: add_element_def insert_element_def reportlist_class_def is_write_protected_def word_gt_0 Let_def)
  moreover have "\<forall>f \<in> set fs. rf_id f \<noteq> cd_filterid c" using False by (simp add: list_ex_iff)
  ultimately show ?thesis
    using assms(2) False f by (auto simp: report_update_def report_ok_def booked_def)
qed

text \<open>
  C31: from 2000 to 2042 a refresh never fails and books every counter once: in the line of its filter for
  the day and the two hours of the time, and nowhere else. The lines of a filter and the hours of a day
  always add up to their sums, and no filter, day or hour has two lines.
\<close>

theorem report_books_every_counter:
  assumes "in_range ctm" and "report_ok fs" and "\<forall>c \<in> set cs. cd_filterid c \<noteq> 0"
  shows "\<exists>fs'. report_mass_update u ctm cs fs = Some fs' \<and> report_ok fs'
    \<and> (\<forall>i h. booked ht_sent fs' i h = booked ht_sent fs i h
             + (if h = hour_id ctm then \<Sum>c\<leftarrow>filter (\<lambda>c. cd_filterid c = i) cs. cd_sent c else 0)
         \<and> booked ht_recv fs' i h = booked ht_recv fs i h
             + (if h = hour_id ctm then \<Sum>c\<leftarrow>filter (\<lambda>c. cd_filterid c = i) cs. cd_recv c else 0))"
  using assms(2,3)
proof (induction cs arbitrary: fs)
  case (Cons c cs)
  obtain fs1 where 1: "report_update u ctm c fs = Some fs1" "report_ok fs1"
    "\<And>i h. booked ht_sent fs1 i h = booked ht_sent fs i h + (if i = cd_filterid c \<and> h = hour_id ctm then cd_sent c else 0)"
    "\<And>i h. booked ht_recv fs1 i h = booked ht_recv fs i h + (if i = cd_filterid c \<and> h = hour_id ctm then cd_recv c else 0)"
    using report_update_books [OF assms(1) Cons.prems(1)] Cons.prems(2) by (metis list.set_intros(1))
  obtain fs2 where "report_mass_update u ctm cs fs1 = Some fs2" "report_ok fs2"
    "\<forall>i h. booked ht_sent fs2 i h = booked ht_sent fs1 i h
             + (if h = hour_id ctm then \<Sum>c\<leftarrow>filter (\<lambda>c. cd_filterid c = i) cs. cd_sent c else 0)
         \<and> booked ht_recv fs2 i h = booked ht_recv fs1 i h
             + (if h = hour_id ctm then \<Sum>c\<leftarrow>filter (\<lambda>c. cd_filterid c = i) cs. cd_recv c else 0)"
    using Cons.IH [OF 1(2)] Cons.prems(2) by auto
  with 1 show ?case by (intro exI [of _ fs2]) auto
qed simp

definition ex_counters :: "counterdata list" where
  "ex_counters = [\<lparr>cd_filterid = 29, cd_sent = 777, cd_recv = 888, cd_filtername = ''a''\<rparr>,
     \<lparr>cd_filterid = 30, cd_sent = 0, cd_recv = 12, cd_filtername = ''b''\<rparr>,
     \<lparr>cd_filterid = 29, cd_sent = 5, cd_recv = 12, cd_filtername = ''a''\<rparr>]"

theorem report_books_every_counter_witness:
  "\<exists>fs. report_mass_update 0 (ut_set 2042 12 31 23 59 59) ex_counters [] = Some fs
     \<and> booked ht_sent fs 29 (hour_id (ut_set 2042 12 31 22 0 0)) = 782
     \<and> booked ht_recv fs 30 (hour_id (ut_set 2042 12 31 22 0 0)) = 12 \<and> booked ht_recv fs 30 (hour_id (ut_set 2042 12 31 20 0 0)) = 0"
proof -
  have "in_range (ut_set 2042 12 31 23 59 59)" "report_ok []" by (simp_all add: in_range_def ut_valid_def valid_date_def days_in_month_def ut_set_def report_ok_def)
  moreover have "\<forall>c \<in> set ex_counters. cd_filterid c \<noteq> 0" by (simp add: ex_counters_def)
  moreover have "hour_id (ut_set 2042 12 31 22 0 0) = hour_id (ut_set 2042 12 31 23 59 59)"
    "hour_id (ut_set 2042 12 31 20 0 0) \<noteq> hour_id (ut_set 2042 12 31 23 59 59)" by (simp_all add: hour_id_def ut_set_def)
  ultimately show ?thesis
    using report_books_every_counter [of "ut_set 2042 12 31 23 59 59" "[]" ex_counters 0]
    by (fastforce simp: booked_def ex_counters_def)
qed

section \<open>The number of the hour overflows\<close>

lemma unat_wraps: "n < 2 ^ 32 \<Longrightarrow> unat (of_nat (n + 2 ^ 32) :: u32) = n"
  unfolding unat_of_nat by (simp add: take_bit_eq_mod mod_add_self2)

lemma hour_utime_2043:
  assumes "ut_valid t" and "ut_year t = 2043" and "8 \<le> ut_month t"
  shows "hour_utime (hour_id t) = None"
proof -
  let ?r = "32704 + ut_day t * 10000 + ut_hour t div 2 * 2 * 100" and ?m = "ut_month t + 5"
  have b: "1 \<le> ut_month t" "ut_month t \<le> 12" "ut_day t \<le> 31" "ut_hour t < 24" using ut_valid_bounds [OF assms(1)] by auto
  have r: "?r < 1000000" using b(3,4) div_times_less_eq_dividend [of "ut_hour t" 2] by linarith
  have n: "hour_number t = (?r + ?m * 1000000) + 2 ^ 32" using assms(2) by (simp add: hour_number_def)
  have "?r + ?m * 1000000 < 2 ^ 32" using r b(2) by simp
  then have u: "unat (hour_id t) = ?r + ?m * 1000000" unfolding hour_id_number n by (rule unat_wraps)
  have "(?r + ?m * 1000000) div 1000000 = ?m" using r by simp
  then have "unat (hour_id t div 1000000 mod 100) = ?m" using b(2) u by (simp add: unat_div unat_mod)
  then show ?thesis using assms(3) by (simp add: hour_utime_def utime_set_def valid_date_def)
qed

lemma daytick_update_2043:
  assumes "ut_valid ctm" and "ut_year ctm = 2043" and "8 \<le> ut_month ctm" and "day_id (dt_ut d) = day_id ctm"
    and "\<forall>t \<in> set (hourticks d). hour_id (ht_ut t) \<noteq> hour_id ctm"
  shows "daytick_update ctm s r d = None"
  using assms(4,5) hour_utime_2043 [OF assms(1-3)] by (simp add: daytick_update_def list_ex_iff)

lemma report_filter_update_2043:
  assumes "ut_valid ctm" and "ut_year ctm = 2043" and "8 \<le> ut_month ctm"
    and "\<forall>d \<in> set (dayticks f). \<forall>t \<in> set (hourticks d). hour_id (ht_ut t) \<noteq> hour_id ctm"
  shows "report_filter_update ctm s r n f = None"
proof (cases "list_ex (\<lambda>d. day_id (dt_ut d) = day_id ctm) (dayticks f)")
  case True
  obtain us d vs where d: "dayticks f = us @ d # vs" "day_id (dt_ut d) = day_id ctm"
    "apply_first (\<lambda>d. day_id (dt_ut d) = day_id ctm) (daytick_update ctm s r) (dayticks f)
      = map_option (\<lambda>y. us @ y # vs) (daytick_update ctm s r d)"
    using apply_first_found [OF True, of "daytick_update ctm s r"] by auto
  have "daytick_update ctm s r d = None" using daytick_update_2043 [OF assms(1-3) d(2)] assms(4) d(1) by simp
  then show ?thesis using True d by (simp add: report_filter_update_def)
next
  case False
  let ?d = "daytick_new\<lparr>dt_ut := ut_set (ut_year ctm) (ut_month ctm) (ut_day ctm) 0 0 0\<rparr>"
  have "daytick_update ctm s r ?d = None"
    by (rule daytick_update_2043 [OF assms(1-3)]) (simp_all add: daytick_new_def day_id_start)
  then show ?thesis using False day_utime_id [OF assms(1)] assms(2) by (simp add: report_filter_update_def)
qed

text \<open>
  from August 2043 the number of the hour does not fit into its 32 bits and names a month that does not
  exist: the first counter of an hour without a line yet makes the refresh fail, and nothing of it is saved.
\<close>

theorem refresh_fails_in_2043:
  assumes "ut_valid ctm" and "ut_year ctm = 2043" and "8 \<le> ut_month ctm"
    and "\<forall>f \<in> set fs. rf_id f = cd_filterid c \<longrightarrow> (\<forall>d \<in> set (dayticks f). \<forall>t \<in> set (hourticks d). hour_id (ht_ut t) \<noteq> hour_id ctm)"
  shows "report_refresh u fs save ctm (c # cs) = None"
proof -
  let ?u = "report_filter_update ctm (cd_sent c) (cd_recv c) (cd_filtername c)"
  have "report_update u ctm c fs = None"
  proof (cases "list_ex (\<lambda>f. rf_id f = cd_filterid c) fs")
    case True
    obtain us f vs where f: "fs = us @ f # vs" "rf_id f = cd_filterid c"
      "apply_first (\<lambda>f. rf_id f = cd_filterid c) ?u fs = map_option (\<lambda>y. us @ y # vs) (?u f)"
      using apply_first_found [OF True, of ?u] by auto
    have "?u f = None" using assms(4) f(1,2) by (intro report_filter_update_2043 assms(1-3)) simp
    then show ?thesis using True f by (simp add: report_update_def)
  next
    case False
    have "?u ((report_filter_new u)\<lparr>rf_id := cd_filterid c\<rparr>) = None"
      by (intro report_filter_update_2043 assms(1-3)) (simp add: report_filter_new_def)
    then show ?thesis using False by (simp add: report_update_def)
  qed
  then show ?thesis by (simp add: report_refresh_def)
qed

theorem refresh_fails_in_2043_witness:
  "report_refresh 0 [] (\<lambda>_. True) (ut_set 2043 8 1 0 0 0) ex_counters = None"
  using refresh_fails_in_2043 [of "ut_set 2043 8 1 0 0 0" "[]" "hd ex_counters" 0 "\<lambda>_. True" "tl ex_counters"]
  by (simp add: ut_valid_def valid_date_def days_in_month_def ut_set_def ex_counters_def)

end
