(* ===== verification/SmsQueue.thy ===== *)
theory SmsQueue
  imports Xml UTime Ufs "HOL-Library.Multiset"
begin

text \<open>
  \<open>corefilters/sms*.{h,cpp}\<close>: the messages waiting for users. An operation returns the calls of \<open>log_sms\<close>
  it makes, in order, with the queue it leaves. \<open>now\<close> is the time of the call; \<open>msgid\<close> gives the identifier
  of the \<open>n\<close>-th message made (a digest of a random number, the time and the users); \<open>mb\<close> is \<open>getmb\<close>.
\<close>

section \<open>Messages\<close>

record sms =
  sender_uid :: u32
  sender_name :: string
  recp_uid :: u32
  recp_name :: string
  time_creation :: i64
  time_expire :: i64
  msg_text :: string
  msg_id :: string

definition sms_clear :: sms where
  "sms_clear = \<lparr>sender_uid = 0, sender_name = [], recp_uid = 0, recp_name = [], time_creation = 0, time_expire = 0,
     msg_text = [], msg_id = []\<rparr>"

definition sms_eq :: "sms \<Rightarrow> sms \<Rightarrow> bool" where
  "sms_eq a b \<longleftrightarrow> sender_uid a = sender_uid b \<and> sender_name a = sender_name b \<and> recp_uid a = recp_uid b
     \<and> recp_name a = recp_name b \<and> time_creation a = time_creation b \<and> time_expire a = time_expire b
     \<and> msg_text a = msg_text b \<and> msg_id a = msg_id b"

definition generate_msg_id :: "(sms \<Rightarrow> string) \<Rightarrow> i64 \<Rightarrow> sms \<Rightarrow> sms" where
  "generate_msg_id mkid now s =
     (let s1 = s\<lparr>time_creation := now, time_expire := now + 4 * 86400\<rparr> in s1\<lparr>msg_id := mkid s1\<rparr>)"

definition sms_nodes :: "sms \<Rightarrow> xml list" where
  "sms_nodes x =
     (let orig = sms_clear in
       xml_append_value ''SenderUid'' out_unsigned (sender_uid x) (sender_uid orig)
     @ xml_append_value ''SenderName'' id (sender_name x) (sender_name orig)
     @ xml_append_value ''RecpUid'' out_unsigned (recp_uid x) (recp_uid orig)
     @ xml_append_value ''RecpName'' id (recp_name x) (recp_name orig)
     @ xml_append_value ''Create'' out_signed (time_creation x) (time_creation orig)
     @ xml_append_value ''Expire'' out_signed (time_expire x) (time_expire orig)
     @ xml_append_value ''MsgText'' id (msg_text x) (msg_text orig)
     @ xml_append_value ''MsgId'' id (msg_id x) (msg_id orig))"

definition sms_xml_create :: "sms \<Rightarrow> xml" where "sms_xml_create x = Elem ''Sms'' [] (sms_nodes x)"

definition sms_xml_catch_value :: "string \<Rightarrow> string \<Rightarrow> sms \<Rightarrow> sms option" where
  "sms_xml_catch_value keyname v x = Some
     (if keyname = ''SenderUid'' then x\<lparr>sender_uid := parse_unsigned v\<rparr>
      else if keyname = ''SenderName'' then x\<lparr>sender_name := v\<rparr>
      else if keyname = ''RecpUid'' then x\<lparr>recp_uid := parse_unsigned v\<rparr>
      else if keyname = ''RecpName'' then x\<lparr>recp_name := v\<rparr>
      else if keyname = ''Create'' then x\<lparr>time_creation := parse_signed v\<rparr>
      else if keyname = ''Expire'' then x\<lparr>time_expire := parse_signed v\<rparr>
      else if keyname = ''MsgText'' then x\<lparr>msg_text := v\<rparr>
      else if keyname = ''MsgId'' then x\<lparr>msg_id := v\<rparr> else x)"

definition sms_xml :: "sms xml_class" where
  "sms_xml = \<lparr>xc_clear = (\<lambda>x. sms_clear), xc_create = sms_xml_create, xc_value = sms_xml_catch_value,
     xc_subnode = (\<lambda>k n x. Some x)\<rparr>"

section \<open>The queue\<close>

datatype sms_reason = sms_reason_put_queue | sms_reason_expired | sms_reason_delivered

type_synonym sms_log = "(sms_reason \<times> sms) list"

record sms_queue =
  sms_items :: "sms list"
  sms_filename :: string
  sms_log_folder :: string
  sms_log_filename :: string


text \<open>The copy constructor takes the messages only.\<close>

definition sms_queue_copy :: "sms_queue \<Rightarrow> sms_queue" where
  "sms_queue_copy q = \<lparr>sms_items = sms_items q, sms_filename = [], sms_log_folder = [], sms_log_filename = []\<rparr>"

definition sms_queue_eq :: "sms_queue \<Rightarrow> sms_queue \<Rightarrow> bool" where
  "sms_queue_eq a b \<longleftrightarrow> list_all2 sms_eq (sms_items a) (sms_items b)"

definition set_log_folder :: "string \<Rightarrow> sms_queue \<Rightarrow> sms_queue" where
  "set_log_folder d q = q\<lparr>sms_log_folder := make_strong_directory_path d,
     sms_log_filename := make_strong_directory_path d @ ''Sms_%Y_%m.txt''\<rparr>"

definition make_sms_queue_filename :: "string \<Rightarrow> string \<Rightarrow> sms_queue \<Rightarrow> sms_queue" where
  "make_sms_queue_filename folder file q =
     q\<lparr>sms_filename := make_strong_directory_path folder
         @ (if CHR ''.'' \<in> set file then takeWhile (\<lambda>c. c \<noteq> CHR ''.'') file @ ''.sms'' else file)\<rparr>"


definition add_sms_new :: "(sms \<Rightarrow> string) \<Rightarrow> i64 \<Rightarrow> sms \<Rightarrow> sms_queue \<Rightarrow> sms_log \<times> sms_queue" where
  "add_sms_new mkid now s q =
     (let scopy = generate_msg_id mkid now s
      in ([(sms_reason_put_queue, scopy)], q\<lparr>sms_items := sms_items q @ [scopy]\<rparr>))"


text \<open>\<open>scopy\<close> is given the recipient, \<open>s\<close> is queued. A \<open>std::map\<close> is its list of pairs.\<close>

fun add_sms_new_to_users ::
  "(nat \<Rightarrow> sms \<Rightarrow> string) \<Rightarrow> nat \<Rightarrow> i64 \<Rightarrow> sms \<Rightarrow> sms \<Rightarrow> (u32 \<times> string) list \<Rightarrow> sms_queue \<Rightarrow> sms_log \<times> sms_queue"
where
  "add_sms_new_to_users mkid n now s scopy [] q = ([], q)"
| "add_sms_new_to_users mkid n now s scopy ((uid, nm) # us) q =
     (let scopy = scopy\<lparr>recp_uid := uid, recp_name := nm\<rparr>;
          (l, q1) = add_sms_new (mkid n) now s q;
          (l2, q2) = add_sms_new_to_users mkid (Suc n) now s scopy us q1
      in (l @ l2, q2))"

definition select_sms_for_user :: "u32 \<Rightarrow> sms list \<Rightarrow> sms_queue \<Rightarrow> sms list" where
  "select_sms_for_user userid smslist q = smslist @ filter (\<lambda>s. userid = 0 \<or> recp_uid s = userid) (sms_items q)"

definition log_sms_bulk :: "sms list \<Rightarrow> sms_reason \<Rightarrow> sms_log" where
  "log_sms_bulk ss reason = map (Pair reason) ss"

text \<open>What is answered: the messages as XML without their root, nothing for none.\<close>

definition delivery_preparing_sms_for_user :: "u32 \<Rightarrow> sms_queue \<Rightarrow> sms_log \<times> xml list \<times> sms_queue" where
  "delivery_preparing_sms_for_user userid q =
     (let smslist = filter (\<lambda>s. recp_uid s = userid) (sms_items q);
          q1 = q\<lparr>sms_items := filter (\<lambda>s. recp_uid s \<noteq> userid) (sms_items q)\<rparr>
      in if smslist \<noteq> [] then (log_sms_bulk smslist sms_reason_delivered, xml_append_list sms_xml smslist, q1)
         else ([], [], q1))"




definition sms_reason_text :: "sms_reason \<Rightarrow> string" where
  "sms_reason_text r = (case r of sms_reason_put_queue \<Rightarrow> ''QUEUED'' | sms_reason_expired \<Rightarrow> ''EXPRED''
     | sms_reason_delivered \<Rightarrow> ''DLVRED'')"

text \<open>The file and the line \<open>log_sms\<close> appends, if the file can be opened.\<close>

definition log_sms :: "(string \<Rightarrow> string) \<Rightarrow> utime \<Rightarrow> sms_queue \<Rightarrow> sms \<Rightarrow> sms_reason \<Rightarrow> (string \<times> string) option" where
  "log_sms mb now q s reason =
     (if sms_log_folder q = [] then None
      else let (ok, filename) = derive_fullpath now (Some now) (sms_log_filename q) [];
               tab = [CHR 0x09]; quote = [CHR 0x22]
        in if \<not> ok then None
           else Some (filename, ut_to_string format_log None now @ tab @ sms_reason_text reason @ tab
             @ quote @ mb (sender_name s) @ quote @ tab @ quote @ mb (recp_name s) @ quote @ tab
             @ mb (msg_text s) @ [CHR 0x0A]))"

definition sms_queue_xml :: "sms list xml_class" where
  "sms_queue_xml = xml_list_class ''SmsQueue'' ''Sms'' sms_xml sms_clear"

section \<open>Messages read back\<close>

definition sms_xml_ok :: "sms \<Rightarrow> bool" where
  "sms_xml_ok s \<longleftrightarrow> CHR 0x00 \<notin> set (sender_name s) \<and> CHR 0x00 \<notin> set (recp_name s) \<and> CHR 0x00 \<notin> set (msg_text s)
     \<and> CHR 0x00 \<notin> set (msg_id s)"

lemma sms_nodes_parse:
  assumes "sms_xml_ok x"
  shows "xml_parse_allnodes sms_xml (sms_nodes x) sms_clear = Some x"
  using assms
  by (simp add: sms_nodes_def sms_clear_def sms_xml_ok_def Let_def parse_allnodes_append parse_value_if parse_text_if
      sms_xml_def sms_xml_catch_value_def)

interpretation sms_elem: xml_element sms_xml "''Sms''" sms_xml_ok
proof
  show "node_name (xc_create sms_xml x) = ''Sms''" for x by (simp add: sms_xml_def sms_xml_create_def node_name_def)
  show "node_text (xc_create sms_xml x) = []" for x
    by (simp add: sms_xml_def sms_xml_create_def node_text_def sms_nodes_def Let_def find_append find_pcdata)
  show "xml_parse_node sms_xml (xc_create sms_xml x) False y = Some x" if "sms_xml_ok x" for x y
    using sms_nodes_parse [OF that] by (simp add: sms_xml_def sms_xml_create_def xml_parse_node_def node_children_def)
qed

section \<open>Runs of the queue\<close>
































definition ex_sms_queue :: sms_queue where
  "ex_sms_queue = \<lparr>sms_items = [], sms_filename = [], sms_log_folder = [], sms_log_filename = []\<rparr>"



section \<open>Messages to many users\<close>

lemma delivery_answer:
  "fst (snd (delivery_preparing_sms_for_user uid q)) = xml_append_list sms_xml (filter (\<lambda>s. recp_uid s = uid) (sms_items q))"
  by (simp add: delivery_preparing_sms_for_user_def Let_def xml_append_list_def)

lemma users_items:
  "\<exists>cs. sms_items (snd (add_sms_new_to_users mkids n now s scopy us q)) = sms_items q @ cs \<and> length cs = length us
     \<and> (\<forall>c \<in> set cs. recp_uid c = recp_uid s \<and> recp_name c = recp_name s \<and> msg_text c = msg_text s)"
proof (induction us arbitrary: n scopy q)
  case (Cons u us)
  obtain uid nm where u: "u = (uid, nm)" by force
  let ?q = "snd (add_sms_new (mkids n) now s q)"
  have i: "sms_items ?q = sms_items q @ [generate_msg_id (mkids n) now s]" by (simp add: add_sms_new_def Let_def)
  obtain cs where "sms_items (snd (add_sms_new_to_users mkids (Suc n) now s (scopy\<lparr>recp_uid := uid, recp_name := nm\<rparr>) us ?q))
      = sms_items ?q @ cs" "length cs = length us"
      "\<forall>c \<in> set cs. recp_uid c = recp_uid s \<and> recp_name c = recp_name s \<and> msg_text c = msg_text s"
    using Cons.IH by blast
  then show ?case
    using i u by (intro exI [of _ "generate_msg_id (mkids n) now s # cs"])
      (simp add: case_prod_beta Let_def generate_msg_id_def)
qed simp

text \<open>
  C36: the users selected for a message are ignored. Every copy, one for each user selected, is queued for
  the recipient the message had before, with its name and text, and delivered to that user; what any other
  user receives, selected or not, is what would have been received without the call.
\<close>

theorem selected_users_get_nothing:
  assumes "add_sms_new_to_users mkids n now s scopy us q = (l, q')"
  shows "\<exists>cs. length cs = length us
    \<and> (\<forall>c \<in> set cs. recp_uid c = recp_uid s \<and> recp_name c = recp_name s \<and> msg_text c = msg_text s)
    \<and> (\<forall>uid. fst (snd (delivery_preparing_sms_for_user uid q'))
         = fst (snd (delivery_preparing_sms_for_user uid q)) @ (if uid = recp_uid s then xml_append_list sms_xml cs else []))"
proof -
  obtain cs where cs: "sms_items q' = sms_items q @ cs" "length cs = length us"
    "\<forall>c \<in> set cs. recp_uid c = recp_uid s \<and> recp_name c = recp_name s \<and> msg_text c = msg_text s"
    using users_items [of mkids n now s scopy us q] assms by auto
  have "filter (\<lambda>c. recp_uid c = uid) cs = (if uid = recp_uid s then cs else [])" for uid
    using cs(3) by (auto simp: filter_empty_conv filter_id_conv)
  then show ?thesis using cs by (intro exI [of _ cs]) (simp add: delivery_answer xml_append_list_def)
qed

theorem selected_users_get_nothing_witness:
  "\<exists>l q. add_sms_new_to_users (\<lambda>n _. ''1'') 0 100 sms_clear sms_clear [(7, ''ann''), (8, ''bob'')] ex_sms_queue = (l, q)
     \<and> fst (snd (delivery_preparing_sms_for_user 7 q)) = [] \<and> length (fst (snd (delivery_preparing_sms_for_user 0 q))) = 2"
proof -
  obtain l q where r: "add_sms_new_to_users (\<lambda>n _. ''1'') 0 100 sms_clear sms_clear [(7, ''ann''), (8, ''bob'')] ex_sms_queue = (l, q)"
    by force
  obtain cs where cs: "length cs = length [(7 :: u32, ''ann''), (8, ''bob'')]" "\<And>uid. fst (snd (delivery_preparing_sms_for_user uid q))
      = fst (snd (delivery_preparing_sms_for_user uid ex_sms_queue)) @ (if uid = recp_uid sms_clear then xml_append_list sms_xml cs else [])"
    using selected_users_get_nothing [OF r] by blast
  have "fst (snd (delivery_preparing_sms_for_user uid ex_sms_queue)) = []" for uid
    by (simp add: delivery_preparing_sms_for_user_def ex_sms_queue_def)
  then show ?thesis using r cs by (simp add: sms_clear_def xml_append_list_def)
qed

end
