(* ===== verification/Spec2Isabelle.thy ===== *)
theory Spec2Isabelle
  imports PktQueue UBaseList AddrTable FilterSetData Hosts UsersConnected FilterMatch FilterXml UrlFilter Base64 Md5 FsUser MonitorRange ProcNick FilterSetXml FilterSetCons FilterSetState XmlTyping HttpBody ConfigXml Shaper EventNet PktCollector TrafficReport SmsQueue
begin

text \<open>
  A verification library for the traffic filter of UTM, \<open>src/src/corefilters\<close>, for the decisions and
  the HTTP processing of its proxy, \<open>src/src/proxyserver\<close>, and for the support classes of
  \<open>src/src/utm\<close> they rest on.

  \<^bold>\<open>The program.\<close> A filter set sees every IP packet of the machine. A packet is parsed
  (\<open>ip_header\<close>), then each filter matches it against its list of rules
  (\<open>filter2::match_filter\<close>): the ends of the packet are compared with addresses, address
  groups, hosts and logged-in users, in the forward and the backward direction; the first rule
  that matches counts the packet, and its action, the traffic limit and the blocking flag of the
  filter decide what happens to it. The byte counters keep a ring of speeds that a console
  fetches in differences, and are reset on a schedule. Packets over the allowed speed wait in a
  queue of the shaper. Packet collectors sum the traffic per connection for the monitor. The
  server tells its consoles what happened through an event log whose messages carry numbers. The
  configuration (users, address tables, filters, URL lists, monitored ranges) is kept as XML. The
  proxy parses requests and responses, asks a list of rules over the client, the URL and the category
  of the site whether a request may pass, and answers the others with a message.

  \<^bold>\<open>Theories.\<close>
  \<^item> \<open>Prelude\<close>: machine integers, C strings and memory, decimal text; the collections
    \<open>utm_consts\<close> (numbers of the source) and \<open>utm_inv\<close> (preserved invariants).
  \<^item> \<open>StdMap\<close>: \<open>std::map\<close> and \<open>std::multimap\<close> as sorted association lists. Locale \<open>dictionary\<close>
    (find after set and erase), interpreted on them; locale \<open>near_table\<close>, the lookup by the
    nearest key that the address tables share.
  \<^item> \<open>PktQueue\<close>: \<open>pkt_queue.{h,cpp}\<close>, a ring of packet slots in one block of bytes. The locale
    \<open>bounded_fifo\<close> states what a bounded FIFO promises; its interpretation is the ring.
  \<^item> \<open>UBaseList\<close>: \<open>ubaselist.{h,cpp}\<close>, lists of elements with an identifier, as operations over
    the record \<open>ubl_class\<close> of what a class of elements provides; locale \<open>ubl_element\<close>,
    interpreted for every list class of the model.
  \<^item> \<open>AddrMac\<close>, \<open>AddrIp\<close>, \<open>AddrTable\<close>: \<open>uhex\<close>, \<open>addrmac\<close>, \<open>addrip_v4\<close>, \<open>addrpair_v4\<close> and the
    address tables (\<open>addrtablebase.h\<close>, \<open>addrtable*.{h,cpp}\<close>, \<open>addrtablemap*.h\<close>).
  \<^item> \<open>UTime\<close>: \<open>utimestamp\<close>, \<open>utime\<close> and \<open>standard_timeset\<close>.
  \<^item> \<open>FilterCnt\<close>, \<open>FilterSetData\<close>: \<open>filtercnt.{h,cpp}\<close> and \<open>filterset_data.{h,cpp}\<close>; lemmas that
    the ring refines a window of the last points.
  \<^item> \<open>Crc32\<close>, \<open>Md5\<close>, \<open>Base64\<close>: the digests and the text form of blobs (\<open>crc32.cpp\<close>, \<open>md5.cpp\<close>,
    \<open>base64.cpp\<close>, \<open>ubase.cpp\<close>): table against register, streaming against one block, round trip.
  \<^item> \<open>Hosts\<close>: \<open>hostname.{h,cpp}\<close>, \<open>hosttable.{h,cpp}\<close>.
  \<^item> \<open>UsersConnected\<close>: \<open>users_connected.{h,cpp}\<close>, \<open>user_connection.{h,cpp}\<close>, \<open>release_info\<close>.
  \<^item> \<open>Rule\<close>, \<open>TrafficFilter\<close>: the rules and filters as records, their list operations, working
    hours, counters, limits and reset schedule (\<open>rule*.{h,cpp}\<close>, \<open>filter_base.{h,cpp}\<close>,
    \<open>filter_.cpp\<close>, \<open>filter2.cpp\<close>).
  \<^item> \<open>IpHeader\<close>: \<open>ip_header.{h,cpp}\<close>, the parser of captured packets; a read outside the
    captured bytes is \<open>None\<close>.
  \<^item> \<open>FilterMatch\<close>: \<open>filter2::match_filter\<close> on these parts.
  \<^item> \<open>Xml\<close>: \<open>ubase\<close> as a serialiser: a tree of elements is written from an object and read back by
    callbacks. Locale \<open>xml_element\<close> (reading what was written gives the object), interpreted for
    rules, ranges, nicknames and matched records. \<open>FilterXml\<close>, \<open>FilterSetXml\<close>: the XML of
    rules, filters and a filter set; \<open>IdSet\<close>: \<open>uidset.h\<close>, \<open>ustringlist\<close> and their texts.
  \<^item> \<open>UrlFilter\<close>: \<open>urlfilter*.{h,cpp}\<close>, patterns of URLs.
  \<^item> \<open>FsUser\<close>, \<open>MonitorRange\<close>, \<open>ProcNick\<close>: \<open>fsuser*\<close>, \<open>userlist\<close>, \<open>monitor_range*\<close>,
    \<open>monitor_detail*\<close>, \<open>procnickname*\<close>.
  \<^item> \<open>Ufs\<close>, \<open>FilterSet\<close>: paths and files (\<open>ufs.{h,cpp}\<close>), and \<open>filterset.{h,cpp}\<close>: the tables
    of users, addresses and filters, references between them, counting and flag files.
  \<^item> \<open>LocMsg\<close>, \<open>EventLog\<close>: \<open>stringtools.cpp\<close> localised messages; \<open>loggingparams\<close> and the writer
    of rotated log files over a file system.
  \<^item> \<open>EventHolder\<close>, \<open>EventMsg\<close>, \<open>EventNet\<close>: \<open>event_holder.h\<close> over what a class of events
    provides (locale \<open>event_element\<close>), its two instances \<open>event_msg\<close> and \<open>event_pkt\<close>, and the
    exchange between a server and a console as an inductive step relation \<open>net_step\<close>.
  \<^item> \<open>PktCollector\<close>: \<open>pktcollector*.{h,cpp}\<close>: held and flushed bytes, and those a full collector turns
    away, add up to the traffic.
  \<^item> \<open>Shaper\<close>: \<open>pkt_queue_filterset.h\<close>, the queues of all filters over the ring of \<open>PktQueue\<close>: nothing
    is overtaken, and nothing lost but what waits for a filter a new configuration drops; one call at a time.
  \<^item> \<open>FilterSetCons\<close>, \<open>FilterSetState\<close>: the messages by which a console follows the server
    (\<open>filtersetcons*\<close>, \<open>filtercons*\<close>) and the counters that survive a restart (\<open>filtersetstate*\<close>,
    \<open>filterstate*\<close>), both as refinements of the state they are taken from.
  \<^item> \<open>XmlTyping\<close>: parsing any tree gives a well-formed object and is undefined only where
    working hours have numbers of more than 32 bits. Locales \<open>typed_xml\<close> and \<open>fitting_xml\<close>,
    interpreted for every class of the configuration.
  \<^item> \<open>AddrUrl\<close>, \<open>HtmlDoc\<close>, \<open>HttpHeaders\<close>, \<open>HttpBody\<close>: \<open>addrurl.cpp\<close>, \<open>html_document.cpp\<close> and
    \<open>http_headers.cpp\<close>: the parts of a URL, the title and meta tags of a page, the header of a request
    as it is sent on, and the body of a response taken out of its chunks buffer by buffer.
  \<^item> \<open>ProxyRule\<close>, \<open>ProxyMsg\<close>, \<open>ConfigProxy\<close>, \<open>ConfigXml\<close>: \<open>conditem*\<close>, \<open>proxyrule*\<close>, \<open>proxymsg.cpp\<close> and
    \<open>configproxy.cpp\<close>: what a condition matches, which rule decides, editing as an inductive relation
    that keeps conditions and rules in order, copies that decide alike, and the configuration and
    its messages read back from XML.
  \<^item> \<open>TrafficReport\<close>, \<open>SmsQueue\<close>: \<open>corefilters/trafficreport*\<close>, whose updates refine a table of
    bytes by filter and hour, and \<open>corefilters/sms*\<close>, with the account of every message over runs of all
    its operations.

  \<^bold>\<open>Conventions.\<close> Classes are records, integers are words of the width of the source and are
  read with \<open>sint\<close> where the source type is signed, containers are lists; a method that changes
  its object returns the changed record. What C++ leaves undefined (a read outside a buffer, an
  index outside an array, an uninitialised pointer) is \<open>None\<close>. No definition uses fuel: all loops
  are structural or have a termination proof.

  \<^bold>\<open>Not modelled.\<close> Sockets, threads and locks (operations are atomic steps), Windows calls
  (registry, services, adapters), third-party code (pugixml, SQLite, DES, the DHCP and DNS server
  of \<open>dualserver\<close>), the monitor of \<open>src/src/monitor\<close>, the XML of
  the traffic reports, the user interface. Parameters of the model stand for the time of day,
  \<open>mktime\<close> and \<open>localtime\<close> (with the flag of daylight saving time), lexical casts and regular expressions of \<open>boost\<close>, the inflater of zlib,
  character conversions, the category of a site, name resolution and the file system.
\<close>

end
